(* ===== verification/Prelude.thy ===== *)
theory Prelude
  imports Complex_Main "HOL-Library.Word" "HOL-Library.AList"
begin

unbundle bit_operations_syntax

text \<open>
  What the components share: bytes as \<open>8 word\<close>, Python's fixed-width integer encodings
  (\<open>int.to_bytes\<close> and \<open>int.from_bytes\<close> in both byte orders), slices, dictionaries in
  insertion order, string splitting and joining, and the lemma collections that carry the proofs of
  the component theories.
\<close>

section \<open>Types and collections\<close>

type_synonym byte = "8 word"
type_synonym bytes = "byte list"

named_theorems len_simps \<open>lengths of the encodings\<close>
named_theorems wire_simps \<open>how encoders and decoders cancel\<close>

section \<open>Integers as bytes\<close>

text \<open>
  \<open>le_bytes n x\<close> are the low \<open>n\<close> bytes of \<open>x\<close>, least significant first. Python's
  \<open>x.to_bytes(n, order)\<close> raises OverflowError when \<open>x\<close> does not fit: \<open>to_bytes_le\<close> and
  \<open>to_bytes_be\<close> are None there.
\<close>

fun le_bytes :: "nat \<Rightarrow> nat \<Rightarrow> bytes" where
  "le_bytes 0 x = []"
| "le_bytes (Suc n) x = word_of_nat x # le_bytes n (x div 256)"

lemma le_bytes_numeral:
  "le_bytes (numeral n) x = word_of_nat x # le_bytes (pred_numeral n) (x div 256)"
  by (simp only: numeral_eq_Suc le_bytes.simps)

fun nat_of_le :: "bytes \<Rightarrow> nat" where
  "nat_of_le [] = 0"
| "nat_of_le (b # bs) = unat b + 256 * nat_of_le bs"

definition be_bytes :: "nat \<Rightarrow> nat \<Rightarrow> bytes" where
  "be_bytes n x = rev (le_bytes n x)"

definition nat_of_be :: "bytes \<Rightarrow> nat" where
  "nat_of_be bs = nat_of_le (rev bs)"

definition to_bytes_le :: "nat \<Rightarrow> nat \<Rightarrow> bytes option" where
  "to_bytes_le n x = (if x < 256 ^ n then Some (le_bytes n x) else None)"

definition to_bytes_be :: "nat \<Rightarrow> nat \<Rightarrow> bytes option" where
  "to_bytes_be n x = (if x < 256 ^ n then Some (be_bytes n x) else None)"

lemma unat_byte_of_nat [simp]: "unat (word_of_nat x :: byte) = x mod 256"
  by (simp add: unat_of_nat)

lemma unat_byte_lt [simp]: "unat (b :: byte) < 256"
  using unsigned_less [of b] by simp

lemma byte_of_nat_unat [simp]: "(word_of_nat (unat b) :: byte) = b"
  by simp

lemma length_le_bytes [simp, len_simps]: "length (le_bytes n x) = n"
  by (induction n arbitrary: x) simp_all

lemma length_be_bytes [simp, len_simps]: "length (be_bytes n x) = n"
  by (simp add: be_bytes_def)

lemma nat_of_le_bytes [wire_simps]: "nat_of_le (le_bytes n x) = x mod 256 ^ n"
proof (induction n arbitrary: x)
  case 0
  then show ?case by simp
next
  case (Suc n)
  have "x mod (256 * 256 ^ n) = 256 * (x div 256 mod 256 ^ n) + x mod 256"
    by (rule mod_mult2_eq)
  with Suc.IH show ?case by simp
qed

lemma nat_of_le_lt: "nat_of_le bs < 256 ^ length bs"
proof (induction bs)
  case Nil
  then show ?case by simp
next
  case (Cons b bs)
  have "unat b < 256" by simp
  moreover have "256 * Suc (nat_of_le bs) \<le> 256 * 256 ^ length bs"
    using Cons.IH by (intro mult_le_mono2) (rule Suc_leI)
  ultimately show ?case by (simp del: unat_byte_lt)
qed

lemma le_bytes_nat_of_le: "le_bytes (length bs) (nat_of_le bs) = bs"
proof (induction bs)
  case Nil
  then show ?case by simp
next
  case (Cons b bs)
  have b: "unat b < 256" by simp
  then have "(unat b + 256 * nat_of_le bs) div 256 = nat_of_le bs" by simp
  moreover have "(word_of_nat (unat b + 256 * nat_of_le bs) :: byte) = b"
    using b by (simp only: word_unat_eq_iff unat_byte_of_nat) simp
  ultimately show ?case using Cons.IH by simp
qed

lemma nat_of_be_bytes [wire_simps]: "nat_of_be (be_bytes n x) = x mod 256 ^ n"
  by (simp add: nat_of_be_def be_bytes_def nat_of_le_bytes)

lemma nat_of_be_lt: "nat_of_be bs < 256 ^ length bs"
  using nat_of_le_lt [of "rev bs"] by (simp add: nat_of_be_def)

lemma be_bytes_nat_of_be: "be_bytes (length bs) (nat_of_be bs) = bs"
  using le_bytes_nat_of_le [of "rev bs"] by (simp add: nat_of_be_def be_bytes_def)

lemma le_bytes_inverse [wire_simps]: "length bs = n \<Longrightarrow> le_bytes n (nat_of_le bs) = bs"
  using le_bytes_nat_of_le by blast

lemma be_bytes_inverse [wire_simps]: "length bs = n \<Longrightarrow> be_bytes n (nat_of_be bs) = bs"
  using be_bytes_nat_of_be by blast

section \<open>Slices\<close>

text \<open>\<open>pyslice i j xs\<close> is Python's \<open>xs[i:j]\<close> for \<open>0 \<le> i\<close>: it never raises, it stops at the end.\<close>

definition pyslice :: "nat \<Rightarrow> nat \<Rightarrow> 'a list \<Rightarrow> 'a list" where
  "pyslice i j xs = take (j - i) (drop i xs)"

lemma length_slice [len_simps]: "length (pyslice i j xs) = min (j - i) (length xs - i)"
  by (auto simp: pyslice_def)

lemma slice_append_left: "j \<le> length xs \<Longrightarrow> pyslice i j (xs @ ys) = pyslice i j xs"
  by (simp add: pyslice_def)

lemma slice_append_right: "length xs \<le> i \<Longrightarrow> pyslice i j (xs @ ys) = pyslice (i - length xs) (j - length xs) ys"
  by (simp add: pyslice_def)

lemma slice_all: "length xs \<le> j \<Longrightarrow> pyslice 0 j xs = xs"
  by (simp add: pyslice_def)

section \<open>Dictionaries in insertion order\<close>

text \<open>
  A Python dict is an association list with distinct keys: \<open>AList.update\<close> replaces in place or
  appends, as \<open>d[k] = v\<close> does, \<open>AList.delete\<close> is \<open>del\<close> and \<open>map_of\<close> the lookup.
\<close>

type_synonym ('k, 'v) dict = "('k \<times> 'v) list"

abbreviation dget :: "('k, 'v) dict \<Rightarrow> 'k \<Rightarrow> 'v option" where
  "dget d k \<equiv> map_of d k"

abbreviation dset :: "'k \<Rightarrow> 'v \<Rightarrow> ('k, 'v) dict \<Rightarrow> ('k, 'v) dict" where
  "dset k v d \<equiv> AList.update k v d"

abbreviation ddel :: "'k \<Rightarrow> ('k, 'v) dict \<Rightarrow> ('k, 'v) dict" where
  "ddel k d \<equiv> AList.delete k d"

definition dkeys :: "('k, 'v) dict \<Rightarrow> 'k list" where
  "dkeys d = map fst d"

definition dvalues :: "('k, 'v) dict \<Rightarrow> 'v list" where
  "dvalues d = map snd d"

definition dict_ok :: "('k, 'v) dict \<Rightarrow> bool" where
  "dict_ok d = distinct (map fst d)"

lemma dget_dset [simp]: "dget (dset k v d) k' = (if k = k' then Some v else dget d k')"
  by (simp add: update_conv')

lemma dget_ddel [simp]: "dget (ddel k d) k' = (if k = k' then None else dget d k')"
  by (simp add: delete_conv')

lemma dict_ok_Nil [simp]: "dict_ok []"
  by (simp add: dict_ok_def)

lemma dict_ok_dset [simp]: "dict_ok d \<Longrightarrow> dict_ok (dset k v d)"
  by (simp add: dict_ok_def distinct_update)

lemma dict_ok_ddel [simp]: "dict_ok d \<Longrightarrow> dict_ok (ddel k d)"
  by (simp add: dict_ok_def distinct_delete)

lemma length_dset_new: "dget d k = None \<Longrightarrow> length (dset k v d) = Suc (length d)"
  by (induction d) (auto split: if_splits)

lemma length_dset_old: "dget d k \<noteq> None \<Longrightarrow> length (dset k v d) = length d"
  by (induction d) (auto split: if_splits)

lemma set_dset: "set (dset k v d) \<subseteq> insert (k, v) (set d)"
  by (induction d) auto

lemma set_ddel: "set (ddel k d) \<subseteq> set d"
  by (auto simp: AList.delete_eq)

lemma length_ddel_le: "length (ddel k d) \<le> length d"
  by (simp add: AList.delete_eq)

section \<open>Splitting and joining strings\<close>

text \<open>\<open>split_on c s\<close> is \<open>s.split(c)\<close> for a one-character separator, \<open>join_with c\<close> is \<open>c.join\<close>.\<close>

fun split_on :: "char \<Rightarrow> string \<Rightarrow> string list" where
  "split_on c [] = [[]]"
| "split_on c (x # xs) =
     (if x = c then [] # split_on c xs
      else (case split_on c xs of [] \<Rightarrow> [[x]] | p # ps \<Rightarrow> (x # p) # ps))"

fun join_with :: "char \<Rightarrow> string list \<Rightarrow> string" where
  "join_with c [] = []"
| "join_with c [p] = p"
| "join_with c (p # q # ps) = p @ c # join_with c (q # ps)"

lemma split_on_nonempty [simp]: "split_on c s \<noteq> []"
  by (induction s) (auto split: list.splits)

lemma join_with_Cons: "ps \<noteq> [] \<Longrightarrow> join_with c (p # ps) = p @ c # join_with c ps"
  by (cases ps) auto

lemma join_split: "join_with c (split_on c s) = s"
proof (induction s)
  case Nil
  then show ?case by simp
next
  case (Cons x xs)
  then show ?case
    by (cases "split_on c xs") (auto simp: join_with_Cons neq_Nil_conv split: list.splits,
        metis append_Cons join_with.simps(2) join_with_Cons)
qed

lemma split_on_no_sep: "c \<notin> set p \<Longrightarrow> split_on c p = [p]"
  by (induction p) auto

lemma split_on_append: "c \<notin> set p \<Longrightarrow> split_on c (p @ c # s) = p # split_on c s"
  by (induction p) auto

lemma split_join:
  "ps \<noteq> [] \<Longrightarrow> \<forall>p \<in> set ps. c \<notin> set p \<Longrightarrow> split_on c (join_with c ps) = ps"
  by (induction c ps rule: join_with.induct) (auto simp: split_on_no_sep split_on_append)

lemma length_split_on: "length (split_on c s) = Suc (count_list s c)"
proof (induction s)
  case Nil
  then show ?case by simp
next
  case (Cons x xs)
  then show ?case by (auto split: list.splits)
qed

lemma split_on_parts: "p \<in> set (split_on c s) \<Longrightarrow> c \<notin> set p"
proof (induction s arbitrary: p)
  case Nil
  then show ?case by simp
next
  case (Cons x xs)
  then show ?case by (cases "split_on c xs") (auto split: if_splits)
qed

text \<open>
  \<open>str.isdigit\<close> on the characters of the model (code points below 256): non-empty, and only
  \<open>0\<close> to \<open>9\<close> or one of the superscript digits of Latin-1, which Python counts as digits too.
\<close>

definition is_digit_char :: "char \<Rightarrow> bool" where
  "is_digit_char c = (c \<in> set ''0123456789'' \<or> of_char c \<in> {178, 179, 185 :: nat})"

definition is_digits :: "string \<Rightarrow> bool" where
  "is_digits s = (s \<noteq> [] \<and> list_all is_digit_char s)"

end
