(* ===== verification/Crypto.thy ===== *)
theory Crypto
  imports Prelude
begin

text \<open>
  \<open>hub/crypto.py\<close>: the CRC-16 of the wire, the device-key derivation, AES-128-CBC with the key as
  its IV, and the frame codec. The AES and PKCS7 code is the \<open>cryptography\<close> package's, not the
  repository's: a record \<open>cipher_lib\<close> of its four operations is an argument of what uses it, and
  \<open>cipher_lib_ok\<close> states what that package documents.
\<close>

section \<open>CRC-16/CCITT\<close>

text \<open>
  The inner loop's body. The running value always fits 16 bits, so the masks of the source are the
  truncation of \<open>16 word\<close>.
\<close>

definition crc_bit :: "16 word \<Rightarrow> 16 word" where
  "crc_bit crc = (if crc AND 0x8000 \<noteq> 0 then push_bit 1 crc XOR 0x1021 else push_bit 1 crc)"

definition crc_byte :: "16 word \<Rightarrow> byte \<Rightarrow> 16 word" where
  "crc_byte crc b = (crc_bit ^^ 8) (crc XOR push_bit 8 (ucast b))"

definition crc16_ccitt :: "bytes \<Rightarrow> 16 word" where
  "crc16_ccitt data = foldl crc_byte 0xFFFF data XOR 0xFFFF"

section \<open>Device key\<close>

text \<open>
  \<open>derive_device_key\<close>, one definition per pass, over the ASCII codes of the device id. Each loop
  is a left fold over its range; \<open>buf\<close> is updated in place, so later iterations of pass 1 read
  bytes that earlier ones wrote.
\<close>

definition ascii_encode :: "string \<Rightarrow> bytes option" where
  "ascii_encode s = (if list_all (\<lambda>c. of_char c < (128 :: nat)) s
     then Some (map (\<lambda>c. word_of_nat (of_char c)) s) else None)"

definition key_pass1 :: "bytes \<Rightarrow> bytes" where
  "key_pass1 original =
     foldl (\<lambda>buf i. buf[i := (original ! i XOR original ! (i + 1)) + buf ! (length original - 1 - i)])
       original [0..<length original - 1]"

definition key_pass2 :: "bytes \<Rightarrow> bytes" where
  "key_pass2 buf0 =
     (let half = drop_bit 1 (length buf0)
      in foldl (\<lambda>buf i. buf[length buf0 - 1 - i := buf ! i XOR buf ! (i + half - 1)]) buf0 [0..<half])"

definition key_pass3 :: "bytes \<Rightarrow> bytes" where
  "key_pass3 buf =
     foldl (\<lambda>key6 i. key6[i mod 6 := key6 ! (i mod 6) XOR buf ! (length buf - 1 - i)])
       (replicate 6 0) [0..<length buf]"

definition key_pass4 :: "bytes \<Rightarrow> bytes" where
  "key_pass4 key0 =
     foldl (\<lambda>key6 i. let idx = i mod 6
        in key6[idx := key6 ! idx + (key6 ! (5 - idx) XOR key6 ! ((i + 3) mod 6))]) key0 [0..<6]"

definition key_seed :: "bytes \<Rightarrow> bytes" where
  "key_seed key6 =
     (let crc = crc16_ccitt key6
      in key6 @ [ucast (crc AND 0xFF), ucast (drop_bit 8 crc AND 0xFF)] @ replicate 8 0)"

definition key_pass5 :: "bytes \<Rightarrow> bytes" where
  "key_pass5 seed0 =
     (let anchor = seed0 ! 7
      in foldl (\<lambda>seed i. seed[15 - i := seed ! i XOR anchor]) seed0 [0..<8])"

definition key_pass6 :: "bytes \<Rightarrow> bytes" where
  "key_pass6 seed0 =
     foldl (\<lambda>seed i. let nxt = (if i = 15 then 0 else i + 1)
        in seed[i := seed ! i XOR seed ! nxt]) seed0 [0..<16]"

definition key6_of :: "bytes \<Rightarrow> bytes" where
  "key6_of original = key_pass4 (key_pass3 (key_pass2 (key_pass1 original)))"

definition derive_device_key :: "string \<Rightarrow> bytes option" where
  "derive_device_key device_id =
     (case ascii_encode device_id of
        None \<Rightarrow> None
      | Some original \<Rightarrow> Some (key_pass6 (key_pass5 (key_seed (key6_of original)))))"

section \<open>AES-128-CBC with IV = key\<close>

record cipher_lib =
  pkcs7_pad :: "bytes \<Rightarrow> bytes"
  pkcs7_unpad :: "bytes \<Rightarrow> bytes option"
  cbc_encrypt :: "bytes \<Rightarrow> bytes \<Rightarrow> bytes \<Rightarrow> bytes option"
  cbc_decrypt :: "bytes \<Rightarrow> bytes \<Rightarrow> bytes \<Rightarrow> bytes option"

text \<open>
  The operations take the key, the IV and the data; None is the exception the package raises (a key
  or IV of the wrong size, data that is no whole number of blocks, bad padding).
\<close>

definition aes_cbc_encrypt :: "cipher_lib \<Rightarrow> bytes \<Rightarrow> bytes \<Rightarrow> bytes option" where
  "aes_cbc_encrypt L key plaintext = cbc_encrypt L key key (pkcs7_pad L plaintext)"

definition aes_cbc_decrypt :: "cipher_lib \<Rightarrow> bytes \<Rightarrow> bytes \<Rightarrow> bytes option" where
  "aes_cbc_decrypt L key ciphertext =
     (case cbc_decrypt L key key ciphertext of None \<Rightarrow> None | Some padded \<Rightarrow> pkcs7_unpad L padded)"

text \<open>
  What the package documents and the code relies on: PKCS7 pads to the next multiple of 16, always by
  at least a byte, and unpadding undoes it; CBC under a 16-byte key and IV keeps the length and is
  undone by decryption.
\<close>

definition cipher_lib_ok :: "cipher_lib \<Rightarrow> bool" where
  "cipher_lib_ok L \<longleftrightarrow>
     (\<forall>p. length (pkcs7_pad L p) = 16 * (length p div 16 + 1) \<and> pkcs7_unpad L (pkcs7_pad L p) = Some p) \<and>
     (\<forall>k iv p. length k = 16 \<longrightarrow> length iv = 16 \<longrightarrow> 16 dvd length p \<longrightarrow>
        (\<exists>c. cbc_encrypt L k iv p = Some c \<and> length c = length p \<and> cbc_decrypt L k iv c = Some p))"

section \<open>Frames\<close>

record frame =
  ftype :: nat
  ciphertext :: bytes

definition FRAME_MAGIC :: bytes where
  "FRAME_MAGIC = [0xFF, 0xFE]"

definition FRAME_HEADER_LEN :: nat where "FRAME_HEADER_LEN = 8"
definition FRAME_TRAILER_LEN :: nat where "FRAME_TRAILER_LEN = 2"
definition MAX_FRAME_CT_LEN :: nat where "MAX_FRAME_CT_LEN = 256 * 1024"
definition MSG_TYPE_ECDH :: nat where "MSG_TYPE_ECDH = 0x2020"
definition MSG_TYPE_VERIFY :: nat where "MSG_TYPE_VERIFY = 0x201B"
definition MSG_TYPE_SESSION :: nat where "MSG_TYPE_SESSION = 0x2021"

lemmas frame_consts = FRAME_MAGIC_def FRAME_HEADER_LEN_def FRAME_TRAILER_LEN_def MAX_FRAME_CT_LEN_def

definition crc_trailer :: "bytes \<Rightarrow> bytes" where
  "crc_trailer ct = be_bytes 2 (unat (crc16_ccitt ct))"

text \<open>None is the OverflowError of \<open>to_bytes\<close>. The CRC always fits its two bytes.\<close>

definition encode_frame :: "frame \<Rightarrow> bytes option" where
  "encode_frame f =
     (let ct = ciphertext f
      in case (to_bytes_be 2 (ftype f), to_bytes_be 4 (length ct)) of
           (Some ty, Some len) \<Rightarrow> Some (FRAME_MAGIC @ ty @ len @ ct @ crc_trailer ct)
         | _ \<Rightarrow> None)"

datatype frame_error = BadMagic bytes | TooLarge nat | BadCrc bytes bytes

text \<open>\<open>Inl\<close> is the ValueError, \<open>Inr None\<close> is None: more bytes are needed.\<close>

definition parse_frame :: "bytes \<Rightarrow> frame_error + (frame \<times> bytes) option" where
  "parse_frame data =
     (if length data < FRAME_HEADER_LEN then Inr None
      else if pyslice 0 2 data \<noteq> FRAME_MAGIC then Inl (BadMagic (pyslice 0 2 data))
      else
        let msg_type = nat_of_be (pyslice 2 4 data);
            ct_len = nat_of_be (pyslice 4 8 data)
        in if ct_len > MAX_FRAME_CT_LEN then Inl (TooLarge ct_len)
           else
             let total = FRAME_HEADER_LEN + ct_len + FRAME_TRAILER_LEN
             in if length data < total then Inr None
                else
                  let ct = pyslice FRAME_HEADER_LEN (FRAME_HEADER_LEN + ct_len) data;
                      trailer = pyslice (FRAME_HEADER_LEN + ct_len) total data;
                      expected = crc_trailer ct
                  in if trailer \<noteq> expected then Inl (BadCrc expected trailer)
                     else Inr (Some (\<lparr>ftype = msg_type, ciphertext = ct\<rparr>, drop total data)))"

section \<open>The CRC is injective in every byte\<close>

lemma top_bit_test: "(x AND 0x8000 \<noteq> (0 :: 16 word)) = bit x 15"
proof -
  have p: "(0x8000 :: 16 word) = 2 ^ 15" by simp
  show ?thesis unfolding p by (simp only: and_exp_eq_0_iff_not_bit not_not)
qed

lemma bit_crc_bit:
  "bit (crc_bit x) n \<longleftrightarrow> n < 16 \<and> (0 < n \<and> bit x (n - 1)) \<noteq> (bit x 15 \<and> bit (0x1021 :: 16 word) n)"
proof -
  have "bit (push_bit 1 x) n \<longleftrightarrow> n < 16 \<and> 0 < n \<and> bit x (n - 1)"
    by (simp only: bit_push_bit_iff) auto
  moreover have "bit (0x1021 :: 16 word) n \<Longrightarrow> n < 16"
    using bit_imp_le_length by fastforce
  ultimately show ?thesis
    unfolding crc_bit_def top_bit_test by (simp only: bit_xor_iff if_distrib [of "\<lambda>w. bit w n"]) auto
qed

lemma crc_bit_xor: "crc_bit (x XOR y) = crc_bit x XOR crc_bit y"
  by (rule bit_word_eqI) (auto simp only: bit_crc_bit bit_xor_iff)

lemma crc_bit_zero: "crc_bit x = 0 \<Longrightarrow> x = 0"
proof -
  assume z: "crc_bit x = 0"
  then have b: "\<not> bit (crc_bit x) n" for n by simp
  have 15: "\<not> bit x 15" using b [of 0] by (simp add: bit_crc_bit)
  show "x = 0"
  proof (rule bit_word_eqI)
    fix n assume n: "n < LENGTH(16)"
    show "bit x n = bit (0 :: 16 word) n"
      using 15 b [of "Suc n"] n by (cases "n = 15") (auto simp: bit_crc_bit)
  qed
qed

lemma crc_bits_xor: "(crc_bit ^^ n) (x XOR y) = (crc_bit ^^ n) x XOR (crc_bit ^^ n) y"
  by (induction n) (simp_all add: crc_bit_xor)

lemma crc_bits_zero: "(crc_bit ^^ n) x = 0 \<Longrightarrow> x = 0"
  by (induction n) (auto dest: crc_bit_zero)

lemma xor_cancel [simp]: "x XOR z = y XOR z \<longleftrightarrow> x = (y :: 'a :: len word)"
proof
  assume "x XOR z = y XOR z"
  then have "(x XOR z) XOR z = (y XOR z) XOR z" by simp
  then show "x = y" by (simp add: xor.assoc)
qed simp

lemma xor_eq_0 [simp]: "x XOR y = 0 \<longleftrightarrow> x = (y :: 'a :: len word)"
  using xor_cancel [of x y y] by simp

lemma crc_bits_inj: "(crc_bit ^^ n) x = (crc_bit ^^ n) y \<longleftrightarrow> x = y"
proof
  assume "(crc_bit ^^ n) x = (crc_bit ^^ n) y"
  then have "(crc_bit ^^ n) (x XOR y) = 0" by (simp add: crc_bits_xor)
  then show "x = y" using crc_bits_zero by fastforce
qed simp

lemma crc_byte_state_inj: "crc_byte c b = crc_byte d b \<longleftrightarrow> c = d"
  unfolding crc_byte_def by (simp only: crc_bits_inj xor_cancel)

lemma crc_byte_inj: "crc_byte c a = crc_byte c b \<longleftrightarrow> a = b"
proof -
  have hi: "bit (push_bit 8 (ucast x :: 16 word)) (n + 8) = bit x n" if "n < 8" for x :: byte and n
    using that by (simp add: bit_simps)
  have "push_bit 8 (ucast a :: 16 word) = push_bit 8 (ucast b) \<Longrightarrow> a = b"
    by (rule bit_word_eqI) (use hi [of _ a] hi [of _ b] in simp)
  then show ?thesis
    unfolding crc_byte_def by (auto simp only: crc_bits_inj xor.commute [of c] xor_cancel)
qed

lemma crc_fold_inj: "foldl crc_byte c bs = foldl crc_byte d bs \<longleftrightarrow> c = d"
  by (induction bs arbitrary: c d) (simp_all add: crc_byte_state_inj)

text \<open>
  Two messages that differ in exactly one byte never have the same CRC-16: whatever the position and
  whatever the two byte values, the checksum of \<open>crc16_ccitt\<close> tells them apart.
\<close>

theorem crc_single_byte: "crc16_ccitt (xs @ a # ys) = crc16_ccitt (xs @ b # ys) \<longleftrightarrow> a = b"
  unfolding crc16_ccitt_def
  by (simp only: foldl_append foldl_Cons xor_cancel crc_fold_inj crc_byte_inj)

section \<open>The structure of a device key\<close>

lemma seed_passes:
  "key_pass6 (key_pass5 ([a, b, c, d, e, f, g, h] @ replicate 8 0)) =
     [a XOR b, b XOR c, c XOR d, d XOR e, e XOR f, f XOR g, g XOR h, h,
      g XOR h, f XOR g, e XOR f, d XOR e, c XOR d, b XOR c, a XOR b, b XOR h]"
  by (simp add: key_pass5_def key_pass6_def upt_rec numeral_eq_Suc xor.assoc xor.left_commute xor.commute)

lemma length_foldl_update [len_simps]:
  "length (foldl (\<lambda>buf i. buf[f buf i := g buf i]) buf0 is) = length buf0"
  by (induction "is" arbitrary: buf0) simp_all

lemma length_key6_of: "length (key6_of bs) = 6"
  by (simp add: key6_of_def key_pass4_def key_pass3_def Let_def len_simps)

lemma length_6_cases: "length xs = 6 \<Longrightarrow> \<exists>a b c d e f. xs = [a, b, c, d, e, f]"
  by (auto simp: numeral_eq_Suc length_Suc_conv)


lemma palindrome_nth:
  assumes "i < 15"
  shows "[p, q, r, s, t, u, v, w, v, u, t, s, r, q, p, z] ! i = [p, q, r, s, t, u, v, w, v, u, t, s, r, q, p, z] ! (14 - i)"
proof -
  have "i \<in> set [0..<15]" using assms by simp
  moreover have "\<forall>i \<in> set [0..<15]. [p, q, r, s, t, u, v, w, v, u, t, s, r, q, p, z] ! i =
      [p, q, r, s, t, u, v, w, v, u, t, s, r, q, p, z] ! (14 - i)"
    by (simp add: upt_rec nth_Cons')
  ultimately show ?thesis by blast
qed

lemma device_key_cases:
  assumes "derive_device_key did = Some key"
  obtains a b c d e f g h where
    "key = [a XOR b, b XOR c, c XOR d, d XOR e, e XOR f, f XOR g, g XOR h, h,
      g XOR h, f XOR g, e XOR f, d XOR e, c XOR d, b XOR c, a XOR b, b XOR h]"
    and "g = ucast (crc16_ccitt [a, b, c, d, e, f] AND 0xFF)"
    and "h = ucast (drop_bit 8 (crc16_ccitt [a, b, c, d, e, f]) AND 0xFF)"
proof -
  obtain o1 where key: "key = key_pass6 (key_pass5 (key_seed (key6_of o1)))"
    using assms by (auto simp: derive_device_key_def split: option.splits)
  obtain a b c d e f where k6: "key6_of o1 = [a, b, c, d, e, f]"
    using length_6_cases [OF length_key6_of] by blast
  define g :: byte where "g = ucast (crc16_ccitt [a, b, c, d, e, f] AND 0xFF)"
  define h :: byte where "h = ucast (drop_bit 8 (crc16_ccitt [a, b, c, d, e, f]) AND 0xFF)"
  have "key_seed (key6_of o1) = [a, b, c, d, e, f, g, h] @ replicate 8 0"
    by (simp add: key_seed_def k6 Let_def g_def h_def)
  with key seed_passes have "key = [a XOR b, b XOR c, c XOR d, d XOR e, e XOR f, f XOR g, g XOR h, h,
      g XOR h, f XOR g, e XOR f, d XOR e, c XOR d, b XOR c, a XOR b, b XOR h]" by simp
  then show thesis using g_def h_def by (rule that)
qed

text \<open>
  Every device key has 16 bytes, and its first 15 bytes read the same in both directions: passes 5
  and 6 of the derivation mirror the eight-byte seed, whatever the device id.
\<close>

theorem device_key_structure:
  assumes "derive_device_key did = Some key"
  shows "length key = 16 \<and> (\<forall>i<15. key ! i = key ! (14 - i))"
proof -
  obtain p q r s t u v w z where key: "key = [p, q, r, s, t, u, v, w, v, u, t, s, r, q, p, z]"
    using assms by (rule device_key_cases) blast
  then show ?thesis by (simp only: key) (use palindrome_nth in auto)
qed

text \<open>The derivation's vector of the repository's tests, evaluated by the kernel.\<close>

lemma device_key_vector:
  "derive_device_key ''lumi1.TESTHUB00001'' =
     Some [0xc8, 0x6f, 0x4f, 0x36, 0xef, 0x88, 0xe0, 0xf0, 0xe0, 0x88, 0xef, 0x36, 0x4f, 0x6f, 0xc8, 0x91]"
  by code_simp

theorem device_key_structure_witness:
  "\<exists>key. derive_device_key ''lumi1.TESTHUB00001'' = Some key \<and> length key = 16 \<and> (\<forall>i<15. key ! i = key ! (14 - i))"
  using device_key_structure [OF device_key_vector] device_key_vector by blast

section \<open>The codec\<close>

lemma encode_frame_cases:
  "encode_frame f = Some bs \<longleftrightarrow> ftype f < 65536 \<and> length (ciphertext f) < 4294967296 \<and>
     bs = FRAME_MAGIC @ be_bytes 2 (ftype f) @ be_bytes 4 (length (ciphertext f)) @ ciphertext f @ crc_trailer (ciphertext f)"
  by (auto simp: encode_frame_def Let_def to_bytes_be_def)

lemma length_crc_trailer [len_simps]: "length (crc_trailer ct) = 2"
  by (simp add: crc_trailer_def)

lemma parse_header:
  assumes "length ty = 2" "length lw = 4"
  shows "pyslice 0 2 (FRAME_MAGIC @ ty @ lw @ xs) = FRAME_MAGIC"
    and "pyslice 2 4 (FRAME_MAGIC @ ty @ lw @ xs) = ty"
    and "pyslice 4 8 (FRAME_MAGIC @ ty @ lw @ xs) = lw"
    and "drop 8 (FRAME_MAGIC @ ty @ lw @ xs) = xs"
  using assms by (simp_all add: pyslice_def frame_consts)

lemma parse_parts:
  assumes d: "d = FRAME_MAGIC @ ty @ lw @ ct @ tr @ rest"
    and "length ty = 2" "length lw = 4" "nat_of_be lw = length ct" "length tr = 2"
  shows "length d = 8 + length ct + 2 + length rest"
    and "pyslice 0 2 d = FRAME_MAGIC" and "pyslice 2 4 d = ty" and "pyslice 4 8 d = lw"
    and "pyslice 8 (8 + length ct) d = ct"
    and "pyslice (8 + length ct) (8 + length ct + 2) d = tr"
    and "drop (8 + length ct + 2) d = rest"
proof -
  have d8: "drop 8 d = ct @ tr @ rest" by (simp only: assms(1) parse_header(4) [OF assms(2,3)])
  show "length d = 8 + length ct + 2 + length rest" using assms by (simp add: frame_consts)
  show "pyslice 0 2 d = FRAME_MAGIC" "pyslice 2 4 d = ty" "pyslice 4 8 d = lw"
    using assms by (simp_all add: parse_header)
  show "pyslice 8 (8 + length ct) d = ct" by (simp add: pyslice_def d8)
  have ddrop: "drop (8 + n) d = drop n (ct @ tr @ rest)" for n
    using d8 by (metis add.commute drop_drop)
  show "pyslice (8 + length ct) (8 + length ct + 2) d = tr" using assms(5) by (simp only: pyslice_def ddrop) simp
  show "drop (8 + length ct + 2) d = rest" using assms(5) by (simp only: ddrop add.assoc) simp
qed

lemma parse_encode_frame_aux:
  assumes "encode_frame f = Some bs" and "length (ciphertext f) \<le> MAX_FRAME_CT_LEN"
  shows "parse_frame (bs @ rest) = Inr (Some (f, rest))"
proof -
  let ?ct = "ciphertext f"
  have bs: "bs @ rest = FRAME_MAGIC @ be_bytes 2 (ftype f) @ be_bytes 4 (length ?ct) @ ?ct @ crc_trailer ?ct @ rest"
    and ty: "ftype f < 65536" and lw: "length ?ct < 4294967296"
    using assms(1) by (auto simp: encode_frame_cases)
  note p = parse_parts [OF bs]
  have "nat_of_be (be_bytes 4 (length ?ct)) = length ?ct" "nat_of_be (be_bytes 2 (ftype f)) = ftype f"
    using ty lw by (simp_all add: nat_of_be_bytes)
  then show ?thesis
    using assms(2) p unfolding parse_frame_def Let_def FRAME_HEADER_LEN_def FRAME_TRAILER_LEN_def
    by (simp add: length_crc_trailer)
qed

text \<open>
  C11 [parse_encode_frame]
  Round trip of the wire codec: a frame that \<open>Frame.encode\<close> serialises and whose ciphertext is
  within the limit is what \<open>parse_frame\<close> reads back from the head of any longer buffer, and the
  bytes after it are handed back untouched.
\<close>

theorem parse_encode_frame:
  assumes "encode_frame f = Some bs" and "length (ciphertext f) \<le> MAX_FRAME_CT_LEN"
  shows "parse_frame (bs @ rest) = Inr (Some (f, rest))"
  using assms by (rule parse_encode_frame_aux)

lemma split_frame_bytes:
  assumes "8 + n + 2 \<le> length d"
  shows "d = pyslice 0 2 d @ pyslice 2 4 d @ pyslice 4 8 d @ pyslice 8 (8 + n) d @ pyslice (8 + n) (8 + n + 2) d @ drop (8 + n + 2) d"
proof -
  have "drop i d = pyslice i (i + k) d @ drop (i + k) d" for i k
    by (simp add: pyslice_def) (metis add.commute append_take_drop_id drop_drop)
  from this [of 0 2] this [of 2 2] this [of 4 4] this [of 8 n] this [of "8 + n" 2]
  show ?thesis by (metis drop0 numeral_Bit0 add.left_neutral add.assoc)
qed

text \<open>
  Whatever the peer sends, a frame that \<open>parse_frame\<close> accepts is one that \<open>Frame.encode\<close> writes:
  the consumed bytes are exactly that frame's encoding (magic, type, length, ciphertext and CRC), the
  rest of the buffer follows it, and the ciphertext is within \<open>MAX_FRAME_CT_LEN\<close>.
\<close>

theorem parse_frame_sound:
  assumes "parse_frame data = Inr (Some (f, rest))"
  shows "\<exists>bs. encode_frame f = Some bs \<and> data = bs @ rest \<and> length (ciphertext f) \<le> MAX_FRAME_CT_LEN"
proof -
  define n where "n = nat_of_be (pyslice 4 8 data)"
  have len: "8 + n + 2 \<le> length data" and n: "n \<le> MAX_FRAME_CT_LEN"
    and magic: "pyslice 0 2 data = FRAME_MAGIC"
    and ct: "ciphertext f = pyslice 8 (8 + n) data" and ty: "ftype f = nat_of_be (pyslice 2 4 data)"
    and tr: "pyslice (8 + n) (8 + n + 2) data = crc_trailer (ciphertext f)"
    and rest: "rest = drop (8 + n + 2) data"
    using assms unfolding parse_frame_def Let_def FRAME_HEADER_LEN_def FRAME_TRAILER_LEN_def n_def [symmetric]
    by (auto split: if_splits)
  have lct: "length (ciphertext f) = n" using len ct by (simp add: length_slice)
  have l2: "length (pyslice 2 4 data) = 2" and l4: "length (pyslice 4 8 data) = 4"
    using len by (simp_all add: length_slice)
  have "be_bytes 2 (ftype f) = pyslice 2 4 data" "be_bytes 4 n = pyslice 4 8 data"
    using l2 l4 by (simp_all add: ty n_def be_bytes_inverse)
  moreover have "ftype f < 65536" using nat_of_be_lt [of "pyslice 2 4 data"] l2 by (simp add: ty)
  ultimately have "encode_frame f = Some (FRAME_MAGIC @ pyslice 2 4 data @ pyslice 4 8 data @ ciphertext f @ crc_trailer (ciphertext f))"
    using n lct by (simp add: encode_frame_cases frame_consts)
  moreover have "data = (FRAME_MAGIC @ pyslice 2 4 data @ pyslice 4 8 data @ ciphertext f @ crc_trailer (ciphertext f)) @ rest"
    using split_frame_bytes [OF len] by (simp only: magic ct [symmetric] tr rest append_assoc)
  ultimately show ?thesis using n lct by blast
qed

text \<open>
  \<open>parse_frame\<close> never asks for more bytes once the buffer holds the largest legal frame: while it
  answers ``not enough yet'' the buffer is below 262154 bytes, so a peer that declares a huge length
  cannot make the read loop buffer without bound.
\<close>

theorem parse_frame_bounded_wait:
  assumes "parse_frame data = Inr None"
  shows "length data < FRAME_HEADER_LEN + MAX_FRAME_CT_LEN + FRAME_TRAILER_LEN"
  using assms unfolding parse_frame_def Let_def
  by (auto simp: frame_consts split: if_splits)

text \<open>Evaluation of the codec on concrete bytes.\<close>

lemma crc_byte_eval:
  "crc_byte c b =
     crc_bit (crc_bit (crc_bit (crc_bit (crc_bit (crc_bit (crc_bit (crc_bit (c XOR push_bit 8 (ucast b)))))))))"
  by (simp add: crc_byte_def numeral_eq_Suc)

lemmas crc_eval = crc16_ccitt_def crc_byte_eval crc_bit_def

lemmas frame_eval = le_bytes_numeral encode_frame_def parse_frame_def to_bytes_be_def be_bytes_def nat_of_be_def
  crc_trailer_def crc_eval frame_consts pyslice_def

definition sample_frame :: frame where
  "sample_frame = \<lparr>ftype = 0x2021, ciphertext = [1, 2, 3]\<rparr>"

lemma sample_frame_encoded:
  "encode_frame sample_frame = Some [0xFF, 0xFE, 0x20, 0x21, 0, 0, 0, 3, 1, 2, 3, 0x52, 0x52]"
  by (simp add: frame_eval sample_frame_def)

theorem parse_encode_frame_witness:
  "parse_frame ([0xFF, 0xFE, 0x20, 0x21, 0, 0, 0, 3, 1, 2, 3, 0x52, 0x52] @ [7]) = Inr (Some (sample_frame, [7]))"
  using parse_encode_frame [OF sample_frame_encoded] by (simp add: sample_frame_def frame_consts)

theorem parse_frame_sound_witness:
  "\<exists>bs. encode_frame sample_frame = Some bs \<and>
     [0xFF, 0xFE, 0x20, 0x21, 0, 0, 0, 3, 1, 2, 3, 0x52, 0x52, 7] = bs @ [7] \<and>
     length (ciphertext sample_frame) \<le> MAX_FRAME_CT_LEN"
  by (rule parse_frame_sound) (simp add: frame_eval sample_frame_def)

theorem parse_frame_bounded_wait_witness:
  "parse_frame [0xFF, 0xFE, 0x20, 0x21, 0, 0, 0, 3, 1] = Inr None \<and>
     length [0xFF, 0xFE, 0x20, 0x21, 0, 0, 0, 3, 1 :: byte] < FRAME_HEADER_LEN + MAX_FRAME_CT_LEN + FRAME_TRAILER_LEN"
proof -
  have h: "parse_frame [0xFF, 0xFE, 0x20, 0x21, 0, 0, 0, 3, 1] = Inr None" by (simp add: frame_eval)
  with parse_frame_bounded_wait [OF h] show ?thesis by blast
qed

end
