(* ===== verification/Gf2.thy ===== *)
theory Gf2
  imports Prelude "HOL-Library.While_Combinator"
begin

text \<open>
  \<open>hub/ecc.py\<close>, field arithmetic: Python integers as polynomials over GF(2) (bit \<open>i\<close> is the
  coefficient of \<open>x ^ i\<close>), and GF(2^163) as those polynomials modulo \<open>FIELD_POLY\<close>. All integers
  of that code are non-negative, so they are \<open>nat\<close>. The loops are the source's: a
  \<open>while\<close> that need not end is \<open>while_option\<close>, and \<open>Diverges\<close> is the outcome of a call that
  never returns.
\<close>

section \<open>The operations\<close>

datatype gf_error = ZeroDivisionError | Diverges

definition FIELD_POLY :: nat where
  "FIELD_POLY = push_bit 163 1 OR push_bit 7 1 OR push_bit 6 1 OR push_bit 3 1 OR 1"

text \<open>\<open>int.bit_length\<close> of a non-negative integer.\<close>

fun bit_len :: "nat \<Rightarrow> nat" where
  "bit_len n = (if n = 0 then 0 else Suc (bit_len (n div 2)))"

declare bit_len.simps [simp del]

definition gf2_add :: "nat \<Rightarrow> nat \<Rightarrow> nat" where
  "gf2_add a b = a XOR b"

function gf2_mul_loop :: "nat \<Rightarrow> nat \<Rightarrow> nat \<Rightarrow> nat" where
  "gf2_mul_loop a b result =
     (if b = 0 then result
      else gf2_mul_loop (push_bit 1 a) (drop_bit 1 b) (if b AND 1 \<noteq> 0 then result XOR a else result))"
  by pat_completeness auto
termination
  by (relation "measure (\<lambda>(a, b, result). b)") (auto simp: drop_bit_eq_div)

declare gf2_mul_loop.simps [simp del]

definition gf2_mul :: "nat \<Rightarrow> nat \<Rightarrow> nat" where
  "gf2_mul a b = gf2_mul_loop a b 0"

definition mod_step :: "nat \<Rightarrow> nat \<Rightarrow> nat" where
  "mod_step poly a = a XOR push_bit (bit_len a - bit_len poly) poly"

text \<open>
  The reduction loop. For \<open>poly = 0\<close> it would never end (\<open>while\<close> is then unspecified); no caller
  passes another polynomial than \<open>FIELD_POLY\<close>, and \<open>mod_loop_returns\<close> below shows that the loop
  ends for every non-zero one.
\<close>

definition gf2_mod :: "nat \<Rightarrow> nat \<Rightarrow> nat" where
  "gf2_mod a poly = while (\<lambda>a. bit_len poly \<le> bit_len a) (mod_step poly) a"

definition gf2_mulmod :: "nat \<Rightarrow> nat \<Rightarrow> nat" where
  "gf2_mulmod a b = gf2_mod (gf2_mul a b) FIELD_POLY"

function gf2_sqr_loop :: "nat \<Rightarrow> nat \<Rightarrow> nat \<Rightarrow> nat" where
  "gf2_sqr_loop a i result =
     (if a = 0 then result
      else gf2_sqr_loop (drop_bit 1 a) (i + 1) (if a AND 1 \<noteq> 0 then result OR push_bit (2 * i) 1 else result))"
  by pat_completeness auto
termination
  by (relation "measure (\<lambda>(a, i, result). a)") (auto simp: drop_bit_eq_div)

declare gf2_sqr_loop.simps [simp del]

definition gf2_sqr :: "nat \<Rightarrow> nat" where
  "gf2_sqr a = gf2_mod (gf2_sqr_loop a 0 0) FIELD_POLY"

text \<open>The state of the inversion loop is \<open>(u, v, g1, g2)\<close>.\<close>

definition inv_step :: "nat \<times> nat \<times> nat \<times> nat \<Rightarrow> nat \<times> nat \<times> nat \<times> nat" where
  "inv_step s =
     (case s of (u, v, g1, g2) \<Rightarrow>
        let j = int (bit_len u) - int (bit_len v)
        in case (if j < 0 then (v, u, g2, g1, - j) else (u, v, g1, g2, j)) of
             (u, v, g1, g2, j) \<Rightarrow> (u XOR push_bit (nat j) v, v, g1 XOR push_bit (nat j) g2, g2))"

definition gf2_inv :: "nat \<Rightarrow> gf_error + nat" where
  "gf2_inv a =
     (if a = 0 then Inl ZeroDivisionError
      else case while_option (\<lambda>(u, v, g1, g2). u \<noteq> 1) inv_step (a, FIELD_POLY, 1, 0) of
             None \<Rightarrow> Inl Diverges
           | Some (u, v, g1, g2) \<Rightarrow> Inr (gf2_mod g1 FIELD_POLY))"

section \<open>Bit lengths\<close>

lemma bit_len_0 [simp]: "bit_len 0 = 0"
  by (simp add: bit_len.simps)

lemma bit_len_pos: "0 < n \<Longrightarrow> bit_len n = Suc (bit_len (n div 2))"
  by (simp add: bit_len.simps [of n])

lemma bit_len_eq_0 [simp]: "bit_len n = 0 \<longleftrightarrow> n = 0"
  by (cases "n = 0") (simp_all add: bit_len_pos)

lemma bit_len_1 [simp]: "bit_len (Suc 0) = 1"
  by (simp add: bit_len_pos)

lemma bit_len_le_iff: "bit_len n \<le> k \<longleftrightarrow> n < 2 ^ k"
proof (induction k arbitrary: n)
  case 0
  then show ?case by auto
next
  case (Suc k)
  show ?case
  proof (cases "n = 0")
    case False
    then have "bit_len n \<le> Suc k \<longleftrightarrow> n div 2 < 2 ^ k" by (simp add: bit_len_pos Suc.IH)
    then show ?thesis by auto
  qed simp
qed

lemma bit_len_less_iff: "k < bit_len n \<longleftrightarrow> 2 ^ k \<le> n"
  using bit_len_le_iff [of n k] by auto

lemma bit_len_double: "0 < n \<Longrightarrow> bit_len (2 * n) = Suc (bit_len n)"
  by (simp add: bit_len_pos)

lemma bit_len_push: "0 < n \<Longrightarrow> bit_len (push_bit k n) = k + bit_len n"
proof (induction k)
  case 0
  then show ?case by simp
next
  case (Suc k)
  then have "bit_len (2 * push_bit k n) = Suc (bit_len (push_bit k n))"
    by (intro bit_len_double) (simp add: push_bit_eq_mult)
  then show ?case using Suc by (simp add: push_bit_double push_bit_eq_mult mult.left_commute mult.assoc)
qed

lemma xor_div_2: "(x XOR y) div 2 = (x div 2) XOR (y div 2 :: nat)"
  by (simp add: drop_bit_xor flip: drop_bit_Suc drop_bit_eq_div [of 1, simplified])


section \<open>Carry-less multiplication as a ring operation\<close>

text \<open>The reference: Horner's rule on the bits of the second factor.\<close>

fun clmul :: "nat \<Rightarrow> nat \<Rightarrow> nat" where
  "clmul a b = (if b = 0 then 0 else (if odd b then a else 0) XOR (2 * clmul a (b div 2)))"

declare clmul.simps [simp del]

lemma double_xor: "2 * (x XOR y :: nat) = (2 * x) XOR (2 * y)"
  using push_bit_xor [of 1 x y] by (simp add: push_bit_eq_mult mult.commute)

lemma Suc_double_xor: "Suc (2 * b) = Suc 0 XOR 2 * b"
  by (subst xor_rec) simp

lemma xor_nat_cancel [simp]: "x XOR x XOR y = (y :: nat)" "(x XOR z = y XOR z) \<longleftrightarrow> x = (y :: nat)"
  by (simp add: xor.assoc [symmetric]) (metis xor.assoc xor.right_neutral xor_self_eq)

lemma xor_nat_eq_0 [simp]: "x XOR y = 0 \<longleftrightarrow> x = (y :: nat)"
  by (metis xor_nat_cancel(2) xor_self_eq)

lemma xor_nat_pos [simp]: "0 < x XOR y \<longleftrightarrow> x \<noteq> (y :: nat)"
  using xor_nat_eq_0 [of x y] by linarith

lemma odd_xor: "odd (x XOR y :: nat) \<longleftrightarrow> odd x \<noteq> odd y"
  by (simp add: even_xor_iff)

lemmas xor_ac = xor.assoc xor.commute xor.left_commute

lemma clmul_0 [simp]: "clmul a 0 = 0"
  by (simp add: clmul.simps)

lemma clmul_0_left [simp]: "clmul 0 b = 0"
  by (induction "0 :: nat" b rule: clmul.induct) (simp add: clmul.simps)

lemma clmul_1 [simp]: "clmul a (Suc 0) = a"
  by (simp add: clmul.simps)

lemma clmul_1_left [simp]: "clmul (Suc 0) b = b"
proof (induction "Suc 0" b rule: clmul.induct)
  case (1 b)
  have "(if odd b then Suc 0 else 0) XOR (2 * (b div 2)) = b"
    using Suc_double_xor [of "b div 2"] by auto
  with 1 show ?case by (cases "b = 0") (simp_all add: clmul.simps [of _ b])
qed

lemma clmul_double_right: "clmul a (2 * b) = 2 * clmul a b"
  by (cases "b = 0") (simp_all add: clmul.simps [of a "2 * b"])

lemma clmul_odd_right: "clmul a (Suc (2 * b)) = a XOR 2 * clmul a b"
  by (simp add: clmul.simps [of a "Suc (2 * b)"])

lemma nat_bit_cases:
  fixes n :: nat
  obtains m where "n = 2 * m" | m where "n = Suc (2 * m)"
  by (cases "even n") (auto elim: evenE oddE)

lemma clmul_xor_left: "clmul (a XOR a') b = clmul a b XOR clmul a' b"
proof (induction a b rule: clmul.induct)
  case (1 a b)
  then show ?case
    by (cases "b = 0") (simp_all add: clmul.simps [of _ b] double_xor xor_ac)
qed

lemma clmul_xor_right: "clmul a (b XOR b') = clmul a b XOR clmul a b'"
proof (induction a b arbitrary: b' rule: clmul.induct)
  case (1 a b)
  show ?case
  proof (cases "b = 0")
    case False
    show ?thesis
    proof (cases "b' = 0")
      case b': False
      have "clmul a (b XOR b') = (if odd (b XOR b') then a else 0) XOR (2 * clmul a ((b XOR b') div 2))"
        by (cases "b XOR b' = 0") (simp_all add: clmul.simps [of a "b XOR b'"])
      also have "clmul a ((b XOR b') div 2) = clmul a (b div 2) XOR clmul a (b' div 2)"
        using 1 False by (simp add: xor_div_2)
      finally show ?thesis
        using False b' by (simp add: clmul.simps [of a b] clmul.simps [of a b'] odd_xor double_xor xor_ac)
    qed simp
  qed simp
qed

lemma clmul_double_left: "clmul (2 * a) b = 2 * clmul a b"
proof (induction a b rule: clmul.induct)
  case (1 a b)
  then show ?case
    by (cases "b = 0") (simp_all add: clmul.simps [of _ b] double_xor)
qed

lemma clmul_odd_left: "clmul (Suc (2 * a)) b = b XOR 2 * clmul a b"
  by (simp only: Suc_double_xor clmul_xor_left clmul_1_left clmul_double_left)

lemma clmul_commute: "clmul a b = clmul b a"
proof (induction a b rule: clmul.induct)
  case (1 a b)
  show ?case
  proof (cases "b = 0")
    case False
    with 1 have IH: "clmul a (b div 2) = clmul (b div 2) a" by simp
    show ?thesis
      using False IH by (cases b rule: nat_bit_cases)
        (auto simp: clmul_double_right clmul_double_left clmul_odd_right clmul_odd_left)
  qed simp
qed

lemma clmul_assoc: "clmul (clmul a b) c = clmul a (clmul b c)"
proof (induction c rule: less_induct)
  case (less c)
  show ?case
  proof (cases "c = 0")
    case False
    then have IH: "clmul (clmul a b) (c div 2) = clmul a (clmul b (c div 2))" using less by simp
    show ?thesis
      using False IH by (cases c rule: nat_bit_cases)
        (auto simp: clmul_double_right clmul_odd_right clmul_xor_right)
  qed simp
qed

lemma clmul_push_left: "clmul (push_bit j a) b = push_bit j (clmul a b)"
proof (induction j)
  case (Suc j)
  have "push_bit (Suc j) x = 2 * push_bit j x" for x :: nat
    by (simp add: push_bit_eq_mult)
  with Suc show ?case by (simp only: clmul_double_left)
qed simp

lemma clmul_push_right: "clmul a (push_bit j b) = push_bit j (clmul a b)"
  using clmul_push_left by (simp add: clmul_commute)

lemma bit_len_gt_0 [simp]: "0 < bit_len n \<longleftrightarrow> 0 < n"
  using bit_len_eq_0 [of n] by linarith

lemma clmul_power2 [simp]: "clmul (2 ^ j) b = push_bit j b"
  using clmul_push_left [of j "Suc 0" b] by simp

lemma bit_len_xor_less: "bit_len y < bit_len x \<Longrightarrow> bit_len (x XOR y) = bit_len x"
proof (induction x arbitrary: y rule: less_induct)
  case (less x)
  then have x: "0 < x" by (cases "x = 0") simp_all
  then have ne: "x XOR y \<noteq> 0" using less.prems by auto
  show ?case
  proof (cases "y div 2 = 0 \<and> x div 2 = 0")
    case True
    then have "x = 1" using x by auto
    moreover have "y = 0" using less.prems \<open>x = 1\<close> by (cases "y = 0") (simp_all add: bit_len_pos)
    ultimately show ?thesis by simp
  next
    case False
    have "bit_len (y div 2) < bit_len (x div 2)"
      using less.prems x False by (cases "y = 0") (auto simp: bit_len_pos)
    then have "bit_len (x div 2 XOR y div 2) = bit_len (x div 2)" using less.IH x by simp
    then show ?thesis using x ne by (simp add: bit_len_pos xor_div_2)
  qed
qed

lemma bit_len_xor_same: "bit_len x = bit_len y \<Longrightarrow> 0 < x \<Longrightarrow> bit_len (x XOR y) < bit_len x"
proof (induction x arbitrary: y rule: less_induct)
  case (less x)
  then have y: "0 < y" by (cases "y = 0") simp_all
  show ?case
  proof (cases "x XOR y = 0")
    case False
    have "x div 2 \<noteq> 0"
    proof
      assume "x div 2 = 0"
      then have "x = 1" using less.prems by auto
      then have "bit_len y = 1" using less.prems by simp
      then have "y div 2 = 0" using y by (simp add: bit_len_pos)
      then have "y = 1" using y by auto
      with \<open>x = 1\<close> False show False by simp
    qed
    moreover have "bit_len (x div 2) = bit_len (y div 2)" using less.prems y by (simp add: bit_len_pos)
    ultimately have "bit_len (x div 2 XOR y div 2) < bit_len (x div 2)" using less.IH less.prems by simp
    then show ?thesis using False less.prems(2) by (simp add: bit_len_pos xor_div_2)
  qed (use less.prems in simp)
qed

lemma bit_len_xor_le: "bit_len (x XOR y) \<le> max (bit_len x) (bit_len y)"
proof (cases "bit_len x" "bit_len y" rule: linorder_cases)
  case equal
  then show ?thesis using bit_len_xor_same [of x y] by (cases "x = 0") auto
next
  case less
  then show ?thesis using bit_len_xor_less [of x y] by (simp add: xor.commute)
next
  case greater
  then show ?thesis using bit_len_xor_less [of y x] by simp
qed

lemma clmul_eq_0 [simp]: "clmul a b = 0 \<longleftrightarrow> a = 0 \<or> b = 0"
  and bit_len_clmul: "0 < a \<Longrightarrow> 0 < b \<Longrightarrow> bit_len (clmul a b) = bit_len a + bit_len b - 1"
proof -
  have main: "0 < a \<Longrightarrow> 0 < b \<Longrightarrow> clmul a b \<noteq> 0 \<and> Suc (bit_len (clmul a b)) = bit_len a + bit_len b"
  proof (induction b rule: less_induct)
    case (less b)
    show ?case
    proof (cases "b = 1")
      case False
      then have b2: "0 < b div 2" "b div 2 < b" using less.prems by auto
      with less have IH: "clmul a (b div 2) \<noteq> 0" "Suc (bit_len (clmul a (b div 2))) = bit_len a + bit_len (b div 2)" by auto
      have d: "bit_len (2 * clmul a (b div 2)) = bit_len a + bit_len (b div 2)"
        using IH by (simp add: bit_len_double)
      have "bit_len (if odd b then a else 0) < bit_len (2 * clmul a (b div 2))"
        using d b2 less.prems by (auto simp: bit_len_pos)
      then have "bit_len (clmul a b) = bit_len a + bit_len (b div 2)"
        using less.prems d by (simp add: clmul.simps [of a b] bit_len_xor_less xor.commute [of _ "2 * _"])
      moreover from this have "0 < bit_len (clmul a b)" using b2 by (simp add: bit_len_pos)
      then have "clmul a b \<noteq> 0" by (metis bit_len_0 less_irrefl)
      ultimately show ?thesis using less.prems b2 by (simp add: bit_len_pos [of b])
    qed (use less.prems in simp)
  qed
  show "clmul a b = 0 \<longleftrightarrow> a = 0 \<or> b = 0" using main by fastforce
  show "0 < a \<Longrightarrow> 0 < b \<Longrightarrow> bit_len (clmul a b) = bit_len a + bit_len b - 1" using main by fastforce
qed

lemma gf2_mul_loop_eq: "gf2_mul_loop a b r = r XOR clmul a b"
proof (induction a b r rule: gf2_mul_loop.induct)
  case (1 a b r)
  show ?case
  proof (cases "b = 0")
    case False
    have "b AND 1 \<noteq> 0 \<longleftrightarrow> odd b" by (simp add: and_one_eq mod_2_eq_odd)
    with 1 False show ?thesis
      by (simp add: gf2_mul_loop.simps [of a b r] clmul.simps [of a b] clmul_double_left mult.commute [of a 2] drop_bit_eq_div xor_ac)
  qed (simp add: gf2_mul_loop.simps)
qed

lemma gf2_mul_eq: "gf2_mul a b = clmul a b"
  by (simp add: gf2_mul_def gf2_mul_loop_eq)


section \<open>Reduction\<close>

definition gf2_cong :: "nat \<Rightarrow> nat \<Rightarrow> nat \<Rightarrow> bool" where
  "gf2_cong poly x y \<longleftrightarrow> (\<exists>q. x XOR y = clmul q poly)"

lemma cong_refl [simp]: "gf2_cong p x x"
  by (auto simp: gf2_cong_def intro: exI [of _ 0])

lemma cong_sym: "gf2_cong p x y \<Longrightarrow> gf2_cong p y x"
  by (auto simp: gf2_cong_def xor.commute)

lemma cong_xor: "gf2_cong p x y \<Longrightarrow> gf2_cong p x' y' \<Longrightarrow> gf2_cong p (x XOR x') (y XOR y')"
proof -
  assume "gf2_cong p x y" "gf2_cong p x' y'"
  then obtain q q' where "x XOR y = clmul q p" "x' XOR y' = clmul q' p" by (auto simp: gf2_cong_def)
  moreover have "(x XOR x') XOR (y XOR y') = (x XOR y) XOR (x' XOR y')" by (simp only: xor_ac)
  ultimately have "(x XOR x') XOR (y XOR y') = clmul (q XOR q') p" by (simp only: clmul_xor_left)
  then show ?thesis by (auto simp: gf2_cong_def)
qed

lemma cong_trans: "gf2_cong p x y \<Longrightarrow> gf2_cong p y z \<Longrightarrow> gf2_cong p x z"
  using cong_xor [of p x y y z] by (simp add: gf2_cong_def xor_ac)

lemma cong_clmul_left: "gf2_cong p x y \<Longrightarrow> gf2_cong p (clmul c x) (clmul c y)"
  unfolding gf2_cong_def by (metis clmul_assoc clmul_xor_right)

lemma cong_clmul: "gf2_cong p x y \<Longrightarrow> gf2_cong p x' y' \<Longrightarrow> gf2_cong p (clmul x x') (clmul y y')"
  using cong_clmul_left [of p x' y' x] cong_clmul_left [of p x y y'] cong_trans
  by (simp add: clmul_commute)

lemma cong_push: "gf2_cong p x y \<Longrightarrow> gf2_cong p (push_bit j x) (push_bit j y)"
  using cong_clmul_left [of p x y "2 ^ j"] by simp

lemma cong_multiple [simp]: "gf2_cong p (clmul q p) 0"
  by (auto simp: gf2_cong_def)

lemma cong_self [simp]: "gf2_cong p p 0"
  using cong_multiple [of p "Suc 0"] by simp

lemma cong_unique:
  assumes "gf2_cong p x y" and "bit_len x < bit_len p" and "bit_len y < bit_len p"
  shows "x = y"
proof (rule ccontr)
  assume "x \<noteq> y"
  from assms(1) obtain q where q: "x XOR y = clmul q p" by (auto simp: gf2_cong_def)
  with \<open>x \<noteq> y\<close> have "0 < q" "0 < p" by (metis clmul_eq_0 gr0I xor_nat_eq_0)+
  then have "bit_len p \<le> bit_len (x XOR y)"
    using bit_len_pos [of q] by (simp add: q bit_len_clmul)
  with bit_len_xor_le [of x y] assms(2,3) show False by simp
qed

lemma mod_step_shorter:
  assumes "0 < p" and "bit_len p \<le> bit_len a"
  shows "bit_len (mod_step p a) < bit_len a"
proof -
  have "0 < a" using assms bit_len_pos [of p] by (cases "a = 0") auto
  moreover have "bit_len (push_bit (bit_len a - bit_len p) p) = bit_len a"
    using assms by (simp add: bit_len_push)
  ultimately show ?thesis unfolding mod_step_def by (simp add: bit_len_xor_same)
qed

lemma mod_loop_returns:
  assumes "0 < p"
  shows "\<exists>r. while_option (\<lambda>a. bit_len p \<le> bit_len a) (mod_step p) a = Some r"
  by (rule measure_while_option_Some [where P = "\<lambda>_. True" and f = bit_len])
     (use assms mod_step_shorter in auto)

lemma mod_step_cong: "gf2_cong p (mod_step p a) a"
proof -
  have "mod_step p a XOR a = clmul (2 ^ (bit_len a - bit_len p)) p"
    by (simp add: mod_step_def xor_ac)
  then show ?thesis unfolding gf2_cong_def by (rule exI)
qed

lemma gf2_mod_props:
  assumes "0 < p"
  shows "gf2_cong p (gf2_mod a p) a \<and> bit_len (gf2_mod a p) < bit_len p"
  unfolding gf2_mod_def
proof (rule while_rule [where P = "\<lambda>r. gf2_cong p r a" and r = "measure bit_len"])
  show "gf2_cong p (mod_step p r) a" if "gf2_cong p r a" "bit_len p \<le> bit_len r" for r
    using that cong_trans mod_step_cong by blast
  show "(mod_step p r, r) \<in> measure bit_len" if "bit_len p \<le> bit_len r" for r
    using that mod_step_shorter [OF assms] by simp
qed auto

lemmas gf2_mod_cong = gf2_mod_props [THEN conjunct1]
  and gf2_mod_short = gf2_mod_props [THEN conjunct2]

lemma gf2_mod_eqI:
  assumes "0 < p" and "gf2_cong p x y" and "bit_len y < bit_len p"
  shows "gf2_mod x p = y"
  using assms cong_unique [of p "gf2_mod x p" y] gf2_mod_props [of p x] cong_trans by blast

lemma gf2_mod_eq_iff: "0 < p \<Longrightarrow> gf2_mod x p = gf2_mod y p \<longleftrightarrow> gf2_cong p x y"
  by (metis cong_sym cong_trans gf2_mod_cong gf2_mod_eqI gf2_mod_short)

lemma gf2_mod_id: "0 < p \<Longrightarrow> bit_len x < bit_len p \<Longrightarrow> gf2_mod x p = x"
  by (rule gf2_mod_eqI) auto

section \<open>The field polynomial\<close>

lemma FIELD_POLY_value: "FIELD_POLY = 2 ^ 163 + 201"
  by (simp add: FIELD_POLY_def)

lemma FIELD_POLY_pos [simp]: "0 < FIELD_POLY"
  by (simp add: FIELD_POLY_value)

lemma bit_len_FIELD_POLY: "bit_len FIELD_POLY = 164"
proof (rule antisym)
  show "bit_len FIELD_POLY \<le> 164" by (simp add: bit_len_le_iff FIELD_POLY_value)
  have "163 < bit_len FIELD_POLY" by (simp add: bit_len_less_iff FIELD_POLY_value)
  then show "164 \<le> bit_len FIELD_POLY" by simp
qed

definition is_field_elem :: "nat \<Rightarrow> bool" where
  "is_field_elem x \<longleftrightarrow> x < 2 ^ 163"

lemma field_elem_bit_len: "is_field_elem x \<longleftrightarrow> bit_len x < bit_len FIELD_POLY"
  using bit_len_le_iff [of x 163] by (auto simp: is_field_elem_def bit_len_FIELD_POLY)

abbreviation fcong :: "nat \<Rightarrow> nat \<Rightarrow> bool" where
  "fcong \<equiv> gf2_cong FIELD_POLY"

lemma gf2_mod_field [simp]: "is_field_elem (gf2_mod x FIELD_POLY)"
  by (simp add: field_elem_bit_len gf2_mod_short)

lemma gf2_mulmod_field [simp]: "is_field_elem (gf2_mulmod a b)"
  by (simp add: gf2_mulmod_def)

lemma gf2_sqr_field [simp]: "is_field_elem (gf2_sqr a)"
  by (simp add: gf2_sqr_def)

lemma fcong_mod: "fcong (gf2_mod x FIELD_POLY) x"
  by (simp add: gf2_mod_cong)

lemma fcong_mulmod: "fcong (gf2_mulmod a b) (clmul a b)"
  by (simp add: gf2_mulmod_def gf2_mul_eq fcong_mod)

lemma fcong_eq: "fcong x y \<Longrightarrow> is_field_elem x \<Longrightarrow> is_field_elem y \<Longrightarrow> x = y"
  by (rule cong_unique) (simp_all add: field_elem_bit_len)

lemma field_elem_xor [simp]: "is_field_elem x \<Longrightarrow> is_field_elem y \<Longrightarrow> is_field_elem (x XOR y)"
  using bit_len_xor_le [of x y] by (simp add: field_elem_bit_len)

lemma field_elem_0 [simp]: "is_field_elem 0" and field_elem_1 [simp]: "is_field_elem (Suc 0)"
  by (simp_all add: is_field_elem_def)

section \<open>Squaring\<close>

text \<open>Squaring spreads the bits: \<open>spread a\<close> has bit \<open>2 i\<close> where \<open>a\<close> has bit \<open>i\<close>.\<close>

lemma clmul_self_double: "clmul (2 * a) (2 * a) = 4 * clmul a a"
  by (simp add: clmul_double_left clmul_double_right)

lemma clmul_self_odd: "clmul (Suc (2 * a)) (Suc (2 * a)) = Suc (4 * clmul a a)"
proof -
  have "clmul (Suc 0 XOR 2 * a) (Suc 0 XOR 2 * a) = Suc 0 XOR 4 * clmul a a"
    by (simp add: clmul_xor_left clmul_xor_right clmul_self_double xor_ac)
  then show ?thesis using Suc_double_xor [of "2 * clmul a a"] Suc_double_xor [of a] by simp
qed

lemma or_power2: "r < 2 ^ n \<Longrightarrow> r OR 2 ^ n = r + (2 ^ n :: nat)"
proof -
  assume "r < 2 ^ n"
  then have "r AND 2 ^ n = 0" by (simp only: and_exp_eq_0_iff_not_bit bit_iff_odd) simp
  then show ?thesis by (simp add: disjunctive_add_eq_or)
qed

lemma gf2_sqr_loop_eq:
  assumes "r < 2 ^ (2 * i)"
  shows "gf2_sqr_loop a i r = r + 2 ^ (2 * i) * clmul a a"
  using assms
proof (induction a i r rule: gf2_sqr_loop.induct)
  case (1 a i r)
  show ?case
  proof (cases "a = 0")
    case False
    have odd: "a AND 1 \<noteq> 0 \<longleftrightarrow> odd a" by (simp add: and_one_eq mod_2_eq_odd)
    let ?r = "if odd a then r OR push_bit (2 * i) 1 else r"
    have r: "?r = (if odd a then r + 2 ^ (2 * i) else r)" using or_power2 [OF "1.prems"] by simp
    have "?r < 2 ^ (2 * (i + 1))" using "1.prems" unfolding r by simp
    then have IH: "gf2_sqr_loop (a div 2) (i + 1) ?r = ?r + 2 ^ (2 * (i + 1)) * clmul (a div 2) (a div 2)"
      using "1.IH" False by (simp only: odd drop_bit_eq_div power_one_right if_True not_False_eq_True)
    have "gf2_sqr_loop a i r = gf2_sqr_loop (a div 2) (i + 1) ?r"
      using False by (simp only: gf2_sqr_loop.simps [of a i r] odd drop_bit_eq_div power_one_right if_False)
    also note IH
    also have "?r + 2 ^ (2 * (i + 1)) * clmul (a div 2) (a div 2) = r + 2 ^ (2 * i) * clmul a a"
      unfolding r by (cases a rule: nat_bit_cases)
        (simp_all add: clmul_self_double clmul_self_odd del: One_nat_def)
    finally show ?thesis .
  qed (simp add: gf2_sqr_loop.simps)
qed

lemma gf2_sqr_mulmod_aux: "gf2_sqr a = gf2_mulmod a a"
  by (simp add: gf2_sqr_def gf2_mulmod_def gf2_sqr_loop_eq gf2_mul_eq)

text \<open>
  C39 [gf2_sqr_mulmod]
  The squaring routine, which only interleaves the bits of its argument with zeros, computes the same
  field element as multiplying the argument by itself with the general multiplication.
\<close>

theorem gf2_sqr_mulmod: "gf2_sqr a = gf2_mulmod a a"
  by (rule gf2_sqr_mulmod_aux)


section \<open>Inversion\<close>

definition inv_rel :: "nat \<Rightarrow> nat \<times> nat \<times> nat \<times> nat \<Rightarrow> bool" where
  "inv_rel a s = (case s of (u, v, g1, g2) \<Rightarrow> fcong (clmul g1 a) u \<and> fcong (clmul g2 a) v)"

lemma inv_step_eq:
  "inv_step (u, v, g1, g2) =
     (if bit_len u < bit_len v
      then (v XOR push_bit (bit_len v - bit_len u) u, u, g2 XOR push_bit (bit_len v - bit_len u) g1, g1)
      else (u XOR push_bit (bit_len u - bit_len v) v, v, g1 XOR push_bit (bit_len u - bit_len v) g2, g2))"
  by (simp add: inv_step_def Let_def nat_diff_distrib)

lemma inv_rel_step: "inv_rel a s \<Longrightarrow> inv_rel a (inv_step s)"
  by (cases s) (auto simp: inv_rel_def inv_step_eq clmul_xor_left clmul_push_left intro!: cong_xor cong_push)

lemma gf2_inv_mulmod:
  assumes "gf2_inv a = Inr r"
  shows "is_field_elem r \<and> gf2_mulmod a r = 1"
proof -
  from assms obtain v g1 g2 where
    w: "while_option (\<lambda>(u, v, g1, g2). u \<noteq> 1) inv_step (a, FIELD_POLY, 1, 0) = Some (1, v, g1, g2)"
    and r: "r = gf2_mod g1 FIELD_POLY"
    by (auto simp: gf2_inv_def split: if_splits option.splits dest: while_option_stop)
  have "inv_rel a (1, v, g1, g2)"
    by (rule while_option_rule [OF _ w]) (simp_all add: inv_rel_step, simp add: inv_rel_def cong_sym)
  then have g: "fcong (clmul g1 a) 1" by (simp add: inv_rel_def)
  have "fcong (clmul a r) (clmul a g1)" unfolding r by (intro cong_clmul_left fcong_mod)
  then have "fcong (gf2_mulmod a r) 1"
    using g fcong_mulmod [of a r] cong_trans by (metis clmul_commute)
  then show ?thesis by (auto simp: r intro: fcong_eq)
qed

definition gf2_dvd :: "nat \<Rightarrow> nat \<Rightarrow> bool" where
  "gf2_dvd d x \<longleftrightarrow> (\<exists>q. clmul q d = x)"

definition gf2_coprime :: "nat \<Rightarrow> nat \<Rightarrow> bool" where
  "gf2_coprime x y \<longleftrightarrow> (\<forall>d. gf2_dvd d x \<and> gf2_dvd d y \<longrightarrow> d = 1)"

lemma gf2_dvd_0 [simp]: "gf2_dvd d 0"
  by (auto simp: gf2_dvd_def intro: exI [of _ 0])

lemma gf2_dvd_refl [simp]: "gf2_dvd d d"
  by (auto simp: gf2_dvd_def intro: exI [of _ "Suc 0"])

lemma gf2_dvd_xor: "gf2_dvd d x \<Longrightarrow> gf2_dvd d y \<Longrightarrow> gf2_dvd d (x XOR y)"
  unfolding gf2_dvd_def by (metis clmul_xor_left)

lemma gf2_dvd_push: "gf2_dvd d x \<Longrightarrow> gf2_dvd d (push_bit j x)"
  unfolding gf2_dvd_def by (metis clmul_push_left)

lemma gf2_dvd_step: "gf2_dvd d v \<Longrightarrow> gf2_dvd d (u XOR push_bit j v) \<longleftrightarrow> gf2_dvd d u"
  using gf2_dvd_xor [of d "u XOR push_bit j v" "push_bit j v"] gf2_dvd_xor [of d u "push_bit j v"] gf2_dvd_push [of d v j]
  by (auto simp: xor.assoc)

lemma coprime_step:
  "gf2_coprime u v \<Longrightarrow> gf2_coprime (u XOR push_bit j v) v"
  "gf2_coprime u v \<Longrightarrow> gf2_coprime (v XOR push_bit j u) u"
  unfolding gf2_coprime_def using gf2_dvd_step by blast+

lemma coprime_0: "gf2_coprime 0 v \<Longrightarrow> v = 1" "gf2_coprime u 0 \<Longrightarrow> u = 1"
  by (auto simp: gf2_coprime_def)

definition inv_measure :: "nat \<times> nat \<times> nat \<times> nat \<Rightarrow> nat" where
  "inv_measure s = (case s of (u, v, g1, g2) \<Rightarrow>
     if u = 1 then 0 else if u = 0 then 1 else bit_len u + bit_len v)"

lemma inv_step_measure:
  assumes "gf2_coprime u v" and "u \<noteq> 1"
  shows "inv_measure (inv_step (u, v, g1, g2)) < inv_measure (u, v, g1, g2)"
proof (cases "u = 0")
  case True
  with assms(1) have "v = 1" by (auto dest: coprime_0)
  with True show ?thesis by (simp add: inv_step_eq inv_measure_def)
next
  case False
  with assms have u: "2 \<le> u" "0 < v" using coprime_0 [of u] by (auto intro: gr0I)
  then have bl: "2 \<le> bit_len u" "0 < bit_len v"
    using bit_len_less_iff [of 1 u] by simp_all
  have x: "bit_len (x XOR push_bit (bit_len x - bit_len y) y) < bit_len x"
    if "bit_len y \<le> bit_len x" "0 < y" for x y
    using that bit_len_xor_same [of x "push_bit (bit_len x - bit_len y) y"]
    by (cases "x = 0") (auto simp: bit_len_push)
  show ?thesis
    using u bl x [of v u] x [of u v] by (auto simp: inv_step_eq inv_measure_def)
qed

lemma inv_loop_returns:
  assumes "gf2_coprime a b"
  shows "\<exists>s. while_option (\<lambda>(u, v, g1, g2). u \<noteq> 1) inv_step (a, b, g, h) = Some s"
proof (rule measure_while_option_Some [where P = "\<lambda>(u, v, g1, g2). gf2_coprime u v" and f = inv_measure])
  fix s :: "nat \<times> nat \<times> nat \<times> nat"
  obtain u v g1 g2 where s: "s = (u, v, g1, g2)" by (cases s)
  assume "case s of (u, v, g1, g2) \<Rightarrow> gf2_coprime u v" "case s of (u, v, g1, g2) \<Rightarrow> u \<noteq> 1"
  then show "(case inv_step s of (u, v, g1, g2) \<Rightarrow> gf2_coprime u v) \<and> inv_measure (inv_step s) < inv_measure s"
    using inv_step_measure by (auto simp: s inv_step_eq coprime_step)
qed (use assms in simp)

lemma gf2_inv_coprime:
  assumes "a \<noteq> 0" and "gf2_coprime a FIELD_POLY"
  shows "\<exists>r. gf2_inv a = Inr r"
  using assms(1) inv_loop_returns [OF assms(2), of 1 0] by (auto simp: gf2_inv_def split: option.splits)

text \<open>Conversely the loop cannot leave a common divisor behind.\<close>

definition inv_dvd :: "nat \<Rightarrow> nat \<times> nat \<times> nat \<times> nat \<Rightarrow> bool" where
  "inv_dvd d s = (case s of (u, v, g1, g2) \<Rightarrow> gf2_dvd d u \<and> gf2_dvd d v)"

lemma inv_dvd_step: "inv_dvd d s \<Longrightarrow> inv_dvd d (inv_step s)"
  by (cases s) (auto simp: inv_dvd_def inv_step_eq gf2_dvd_step)

lemma gf2_dvd_one: "gf2_dvd d 1 \<Longrightarrow> d = 1"
proof -
  assume "gf2_dvd d 1"
  then obtain q where q: "clmul q d = 1" by (auto simp: gf2_dvd_def)
  then have "0 < q" "0 < d" by (auto intro: gr0I)
  with q bit_len_clmul [of q d] have "bit_len q + bit_len d = 2" by simp
  moreover have "0 < bit_len q" "0 < bit_len d" using \<open>0 < q\<close> \<open>0 < d\<close> by simp_all
  ultimately have "bit_len d \<le> 1" by linarith
  then show "d = 1" using \<open>0 < d\<close> by (simp add: bit_len_le_iff)
qed

lemma gf2_inv_coprime_iff:
  assumes "a \<noteq> 0"
  shows "(\<exists>r. gf2_inv a = Inr r) \<longleftrightarrow> gf2_coprime a FIELD_POLY"
proof
  assume "\<exists>r. gf2_inv a = Inr r"
  then obtain v g1 g2 where
    w: "while_option (\<lambda>(u, v, g1, g2). u \<noteq> 1) inv_step (a, FIELD_POLY, 1, 0) = Some (1, v, g1, g2)"
    by (auto simp: gf2_inv_def split: if_splits option.splits dest: while_option_stop)
  show "gf2_coprime a FIELD_POLY"
    unfolding gf2_coprime_def
  proof (intro allI impI)
    fix d assume d: "gf2_dvd d a \<and> gf2_dvd d FIELD_POLY"
    have "inv_dvd d (1, v, g1, g2)"
      by (rule while_option_rule [OF _ w]) (use d inv_dvd_step in \<open>auto simp: inv_dvd_def [of d "(_, _)"]\<close>)
    then show "d = 1" using gf2_dvd_one by (simp add: inv_dvd_def)
  qed
qed (rule gf2_inv_coprime [OF assms])

lemma gf2_inv_not_coprime:
  assumes "a \<noteq> 0" and "\<not> gf2_coprime a FIELD_POLY"
  shows "gf2_inv a = Inl Diverges"
proof -
  have "\<nexists>r. gf2_inv a = Inr r" using assms gf2_inv_coprime_iff by blast
  then show ?thesis using assms(1)
    by (cases "while_option (\<lambda>(u, v, g1, g2). u \<noteq> 1) inv_step (a, FIELD_POLY, 1, 0)") (auto simp: gf2_inv_def)
qed

end
