(* ===== verification/Irreducible.thy ===== *)
theory Irreducible
  imports Gf2
begin

text \<open>
  Why \<open>gf2_inv\<close> of \<open>hub/ecc.py\<close> returns for every non-zero field element: two computations on
  \<open>FIELD_POLY\<close> from which the next theory concludes that the polynomial is irreducible. First, 163
  squarings map the polynomial \<open>x\<close> to itself. Second, \<open>0\<close> and \<open>1\<close> are the only field elements equal
  to their own square; this is a statement about the kernel of a linear map over GF(2), checked
  against a certificate. Both are evaluated on lists of bits, least significant first.
\<close>


section \<open>Squaring as spreading and two sparse reductions\<close>

fun spread :: "nat \<Rightarrow> nat" where
  "spread n = (if n = 0 then 0 else n mod 2 + 4 * spread (n div 2))"

declare spread.simps [simp del]

lemma spread_double: "spread (2 * n) = 4 * spread n"
  by (cases "n = 0") (simp_all add: spread.simps [of "2 * n"] spread.simps [of 0])

lemma spread_odd: "spread (Suc (2 * n)) = Suc (4 * spread n)"
  by (simp add: spread.simps [of "Suc (2 * n)"])

lemma spread_0 [simp]: "spread 0 = 0"
  by (simp add: spread.simps)

lemma numeral_num:
  "numeral (num.Bit0 n) = 2 * (numeral n :: nat)" "numeral (num.Bit1 n) = Suc (2 * (numeral n :: nat))"
  by (metis mult_2 numeral_Bit0) (metis mult_2 numeral_Bit1 Suc_eq_plus1 numeral_One)

lemma spread_numeral:
  "spread (Suc 0) = 1"
  "spread (numeral (num.Bit0 n)) = 4 * spread (numeral n)"
  "spread (numeral (num.Bit1 n)) = Suc (4 * spread (numeral n))"
  using spread_odd [of 0] by simp (subst numeral_num, rule spread_double, subst numeral_num, rule spread_odd)

lemma spread_eq: "spread a = clmul a a"
proof (induction a rule: less_induct)
  case (less a)
  show ?case
  proof (cases "a = 0")
    case False
    with less show ?thesis
      by (cases a rule: nat_bit_cases) (auto simp: spread_double spread_odd clmul_self_double clmul_self_odd)
  qed simp
qed

definition sparse_red :: "nat \<Rightarrow> nat" where
  "sparse_red x = (let h = drop_bit 163 x in take_bit 163 x XOR h XOR push_bit 3 h XOR push_bit 6 h XOR push_bit 7 h)"

lemma FIELD_POLY_xor: "FIELD_POLY = 2 ^ 163 XOR 2 ^ 7 XOR 2 ^ 6 XOR 2 ^ 3 XOR 1"
  by (simp add: FIELD_POLY_value)

lemma clmul_FIELD_POLY:
  "clmul h FIELD_POLY = push_bit 163 h XOR push_bit 7 h XOR push_bit 6 h XOR push_bit 3 h XOR h"
  by (simp only: FIELD_POLY_xor clmul_xor_right clmul_commute [of h] clmul_power2)
     (simp add: clmul_commute)

lemma split_at_bit: "x = push_bit k (drop_bit k x) XOR take_bit k (x :: nat)"
proof -
  have "push_bit k (drop_bit k x) AND take_bit k x = 0"
    by (rule bit_eqI) (auto simp: bit_simps)
  then show ?thesis using bits_ident [of k x]
    by (simp add: disjunctive_xor_eq_or disjunctive_add_eq_or)
qed

lemma sparse_red_cong: "fcong (sparse_red x) x"
proof -
  let ?h = "drop_bit 163 x"
  have "sparse_red x XOR x = sparse_red x XOR (push_bit 163 ?h XOR take_bit 163 x)"
    using split_at_bit [of x 163] by simp
  also have "\<dots> = clmul ?h FIELD_POLY"
    by (simp add: sparse_red_def Let_def clmul_FIELD_POLY xor_ac)
  finally show ?thesis unfolding gf2_cong_def by (rule exI)
qed

lemma sparse_red_short:
  assumes "bit_len x \<le> 163 + k"
  shows "bit_len (sparse_red x) \<le> max 163 (k + 7)"
proof -
  let ?h = "drop_bit 163 x"
  have x: "x < 2 ^ (163 + k)" using assms by (simp only: bit_len_le_iff)
  have h: "bit_len ?h \<le> k"
    unfolding bit_len_le_iff using x by (simp add: drop_bit_eq_div less_mult_imp_div_less power_add mult.commute)
  have l: "bit_len (take_bit 163 x) \<le> 163"
    by (simp only: bit_len_le_iff) (rule take_bit_nat_less_exp)
  have p: "bit_len (push_bit j ?h) \<le> k + j" for j
    using h by (cases "?h = 0") (simp_all add: bit_len_push)
  show ?thesis
    unfolding sparse_red_def Let_def
    using l h p [of 3] p [of 6] p [of 7]
      bit_len_xor_le [of "take_bit 163 x" "?h XOR push_bit 3 ?h XOR push_bit 6 ?h XOR push_bit 7 ?h"]
      bit_len_xor_le [of ?h "push_bit 3 ?h XOR push_bit 6 ?h XOR push_bit 7 ?h"]
      bit_len_xor_le [of "push_bit 3 ?h" "push_bit 6 ?h XOR push_bit 7 ?h"]
      bit_len_xor_le [of "push_bit 6 ?h" "push_bit 7 ?h"]
    by linarith
qed

lemma gf2_sqr_fast:
  assumes "is_field_elem a"
  shows "gf2_sqr a = sparse_red (sparse_red (spread a))"
proof (rule fcong_eq)
  have "gf2_sqr a = gf2_mod (spread a) FIELD_POLY"
    by (simp add: gf2_sqr_def gf2_sqr_loop_eq spread_eq)
  then have "fcong (gf2_sqr a) (spread a)" by (simp add: fcong_mod)
  moreover have "fcong (sparse_red (sparse_red (spread a))) (spread a)"
    by (rule cong_trans [OF sparse_red_cong sparse_red_cong])
  ultimately show "fcong (gf2_sqr a) (sparse_red (sparse_red (spread a)))"
    by (rule cong_trans [OF _ cong_sym])
  have a: "bit_len a \<le> 163" using assms by (simp add: field_elem_bit_len bit_len_FIELD_POLY)
  have "bit_len (spread a) \<le> 163 + 162"
    using a by (cases "a = 0") (simp_all add: spread_eq bit_len_clmul)
  from sparse_red_short [OF this] have "bit_len (sparse_red (spread a)) \<le> 163 + 6" by simp
  from sparse_red_short [OF this] have "bit_len (sparse_red (sparse_red (spread a))) \<le> 163" by simp
  then show "is_field_elem (sparse_red (sparse_red (spread a)))"
    by (simp add: field_elem_bit_len bit_len_FIELD_POLY)
qed simp



section \<open>Bits of a polynomial\<close>

primrec bits_val :: "bool list \<Rightarrow> nat" where
  "bits_val [] = 0"
| "bits_val (b # bs) = of_bool b + 2 * bits_val bs"

fun xor_bits :: "bool list \<Rightarrow> bool list \<Rightarrow> bool list" where
  "xor_bits [] ys = ys"
| "xor_bits xs [] = xs"
| "xor_bits (x # xs) (y # ys) = (x \<noteq> y) # xor_bits xs ys"

fun fit :: "nat \<Rightarrow> bool list \<Rightarrow> bool list" where
  "fit 0 xs = []"
| "fit (Suc n) [] = False # fit n []"
| "fit (Suc n) (x # xs) = x # fit n xs"

fun spread_bits :: "bool list \<Rightarrow> bool list" where
  "spread_bits [] = []"
| "spread_bits (x # xs) = x # False # spread_bits xs"

definition red_with :: "bool list \<Rightarrow> bool list \<Rightarrow> bool list" where
  "red_with l h =
     xor_bits l (xor_bits h (xor_bits (False # False # False # h)
       (False # False # False # False # False # False # xor_bits h (False # h))))"

definition red_bits :: "bool list \<Rightarrow> bool list" where
  "red_bits x = red_with (take 163 x) (drop 163 x)"

definition sqr_bits :: "bool list \<Rightarrow> bool list" where
  "sqr_bits x = fit 163 (red_bits (red_bits (spread_bits x)))"

fun sqr_iter :: "nat \<Rightarrow> bool list \<Rightarrow> bool list" where
  "sqr_iter 0 x = x"
| "sqr_iter (Suc n) x = sqr_iter n (sqr_bits x)"

text \<open>A character of the tables stands for four bits.\<close>

primrec nibble :: "char \<Rightarrow> bool list" where
  "nibble (Char b0 b1 b2 b3 b4 b5 b6 b7) = [b0, b1, b2, b3]"

definition from_nibbles :: "string \<Rightarrow> bool list" where
  "from_nibbles s = fit 163 (concat (map nibble s))"

lemma length_fit [simp]: "length (fit n xs) = n"
  by (induction n xs rule: fit.induct) auto

lemma xor_bits_Nil [simp]: "xor_bits xs [] = xs"
  by (cases xs) auto

lemma bit_cons_xor: "(of_bool b + 2 * m) XOR (of_bool c + 2 * n) = of_bool (b \<noteq> c) + 2 * (m XOR n :: nat)"
proof -
  have "(of_bool b + 2 * m) XOR (of_bool c + 2 * n)
      = (of_bool b XOR 2 * m) XOR (of_bool c XOR 2 * n)"
    using Suc_double_xor [of m] Suc_double_xor [of n] by (cases b; cases c) simp_all
  also have "\<dots> = (of_bool b XOR of_bool c) XOR 2 * (m XOR n)"
    by (simp only: double_xor xor_ac)
  also have "\<dots> = of_bool (b \<noteq> c) + 2 * (m XOR n)"
    using Suc_double_xor [of "m XOR n"] by (cases b; cases c) simp_all
  finally show ?thesis .
qed

lemma bits_val_xor: "bits_val (xor_bits xs ys) = bits_val xs XOR bits_val ys"
  by (induction xs ys rule: xor_bits.induct) (simp_all add: bit_cons_xor)

lemma bits_val_fit: "bits_val (fit n xs) = take_bit n (bits_val xs)"
  by (induction n xs rule: fit.induct) (simp_all add: take_bit_Suc)

lemma bits_val_take: "bits_val (take n xs) = take_bit n (bits_val xs)"
proof (induction n arbitrary: xs)
  case (Suc n)
  then show ?case by (cases xs) (simp_all add: take_bit_Suc)
qed simp

lemma bits_val_drop: "bits_val (drop n xs) = drop_bit n (bits_val xs)"
proof (induction n arbitrary: xs)
  case (Suc n)
  then show ?case by (cases xs) (simp_all add: drop_bit_Suc)
qed simp

lemma bits_val_spread: "bits_val (spread_bits xs) = spread (bits_val xs)"
  by (induction xs rule: spread_bits.induct) (auto simp: spread_double spread_odd of_bool_def)

lemma bits_val_lt: "bits_val xs < 2 ^ length xs"
  by (induction xs) auto

lemma bits_val_red: "bits_val (red_bits xs) = sparse_red (bits_val xs)"
proof -
  have p: "push_bit 3 n = 2 * (2 * (2 * n))" "push_bit 6 n = 2 * (2 * (2 * (2 * (2 * (2 * n)))))"
    "push_bit 7 n = 2 * (2 * (2 * (2 * (2 * (2 * (2 * n))))))" for n :: nat
    by (simp_all add: push_bit_eq_mult)
  show ?thesis
    by (simp only: red_bits_def red_with_def sparse_red_def Let_def bits_val_xor bits_val_take bits_val_drop
        bits_val.simps of_bool_eq add_0 p double_xor)
qed

lemma sqr_bits_val:
  assumes "length xs = 163"
  shows "bits_val (sqr_bits xs) = gf2_sqr (bits_val xs)"
proof -
  have f: "is_field_elem (bits_val xs)"
    using bits_val_lt [of xs] assms by (simp add: is_field_elem_def)
  have "bits_val (sqr_bits xs) = take_bit 163 (gf2_sqr (bits_val xs))"
    by (simp add: sqr_bits_def bits_val_fit bits_val_red bits_val_spread gf2_sqr_fast [OF f])
  also have "\<dots> = gf2_sqr (bits_val xs)"
    using gf2_sqr_field [of "bits_val xs"] by (simp add: is_field_elem_def take_bit_nat_eq_self_iff)
  finally show ?thesis .
qed

lemma sqr_iter_val: "length xs = 163 \<Longrightarrow> bits_val (sqr_iter n xs) = (gf2_sqr ^^ n) (bits_val xs)"
proof (induction n xs rule: sqr_iter.induct)
  case (2 n x)
  moreover have "length (sqr_bits x) = 163" by (simp add: sqr_bits_def)
  ultimately show ?case by (simp add: sqr_bits_val funpow_swap1)
qed simp

section \<open>The linear map \<open>x \<mapsto> x\<^sup>2 + x\<close> and its kernel\<close>

text \<open>
  A list of bits \<open>t\<close> also stands for the linear functional \<open>pair t\<close>: the parity of the bits of its
  argument that \<open>t\<close> selects. \<open>sqr_adj t\<close> is the functional \<open>x \<mapsto> pair t (x\<^sup>2)\<close>.
\<close>

fun pair :: "bool list \<Rightarrow> nat \<Rightarrow> bool" where
  "pair [] x = False"
| "pair (t # ts) x = ((t \<and> odd x) \<noteq> pair ts (x div 2))"

fun even_bits :: "bool list \<Rightarrow> bool list" where
  "even_bits [] = []"
| "even_bits [x] = [x]"
| "even_bits (x # y # xs) = x # even_bits xs"

definition red_adj :: "bool list \<Rightarrow> bool list" where
  "red_adj t = fit 163 t @ xor_bits t (xor_bits (drop 3 t) (xor_bits (drop 6 t) (drop 7 t)))"

definition sqr_adj :: "bool list \<Rightarrow> bool list" where
  "sqr_adj t = even_bits (red_adj (red_adj t))"

fun unit_vec :: "nat \<Rightarrow> bool list \<Rightarrow> bool" where
  "unit_vec j [] = False"
| "unit_vec 0 (b # bs) = (b \<and> list_all Not bs)"
| "unit_vec (Suc j) (b # bs) = (\<not> b \<and> unit_vec j bs)"

definition mask_ok :: "nat \<Rightarrow> bool list \<Rightarrow> bool" where
  "mask_ok j t = unit_vec j (fit 163 (xor_bits t (sqr_adj t)))"

fun masks_ok :: "nat \<Rightarrow> string list \<Rightarrow> bool" where
  "masks_ok j [] = True"
| "masks_ok j (s # ss) = (mask_ok j (from_nibbles s) \<and> masks_ok (Suc j) ss)"

lemma pair_0 [simp]: "\<not> pair t 0"
  by (induction t) auto

lemma pair_xor_right: "pair t (x XOR y) \<longleftrightarrow> pair t x \<noteq> pair t y"
  by (induction t arbitrary: x y) (auto simp: xor_div_2 odd_xor)

lemma pair_xor_left: "pair (xor_bits t u) x \<longleftrightarrow> pair t x \<noteq> pair u x"
  by (induction t u arbitrary: x rule: xor_bits.induct) auto

lemma pair_push: "pair t (push_bit k x) \<longleftrightarrow> pair (drop k t) x"
proof (induction k arbitrary: t)
  case (Suc k)
  have "push_bit (Suc k) x = 2 * push_bit k x" by (simp add: push_bit_eq_mult)
  with Suc show ?case by (cases t) simp_all
qed simp

lemma pair_append: "pair (t @ u) x \<longleftrightarrow> pair t x \<noteq> pair u (drop_bit (length t) x)"
  by (induction t arbitrary: x) (auto simp: drop_bit_Suc)

lemma pair_fit: "pair (fit n t) x \<longleftrightarrow> pair t (take_bit n x)"
proof (induction n t arbitrary: x rule: fit.induct)
  case (2 n)
  from 2 [of "x div 2"] show ?case by simp
next
  case (3 n b bs)
  have "take_bit (Suc n) x div 2 = take_bit n (x div 2)" "odd (take_bit (Suc n) x) = odd x"
    by (simp_all add: take_bit_Suc)
  with 3 show ?case by simp
qed simp

lemma pair_evens: "pair (even_bits t) x \<longleftrightarrow> pair t (spread x)"
proof (induction t arbitrary: x rule: even_bits.induct)
  case (3 a b t)
  have "odd (spread x) = odd x" "spread x div 2 div 2 = spread (x div 2)" "even (spread x div 2)"
    by (cases x rule: nat_bit_cases; simp add: spread_double spread_odd)+
  with 3 show ?case by simp
next
  case (2 a)
  have "odd (spread x) = odd x" by (cases x rule: nat_bit_cases) (simp_all add: spread_double spread_odd)
  then show ?case by simp
qed simp

lemma pair_red_adj: "pair (red_adj t) x \<longleftrightarrow> pair t (sparse_red x)"
  unfolding red_adj_def sparse_red_def Let_def pair_append pair_fit length_fit pair_xor_left pair_xor_right
    pair_push by (simp only: xor_bits.simps)

lemma pair_sqr_adj: "is_field_elem x \<Longrightarrow> pair (sqr_adj t) x \<longleftrightarrow> pair t (gf2_sqr x)"
  by (simp add: sqr_adj_def pair_evens pair_red_adj gf2_sqr_fast)

lemma pair_unit_vec: "unit_vec j t \<Longrightarrow> pair t x \<longleftrightarrow> bit x j"
proof (induction j t arbitrary: x rule: unit_vec.induct)
  case (2 b bs)
  moreover have "list_all Not bs \<Longrightarrow> \<not> pair bs y" for y by (induction bs arbitrary: y) auto
  ultimately show ?case by (simp add: bit_0)
qed (simp_all add: bit_Suc)

lemma masks_ok_bit:
  assumes "masks_ok j ts" and "i < length ts" and "is_field_elem x" and "gf2_sqr x = x"
  shows "\<not> bit x (j + i)"
  using assms(1,2)
proof (induction ts arbitrary: j i)
  case (Cons s ts)
  show ?case
  proof (cases i)
    case 0
    let ?t = "from_nibbles s"
    have x: "take_bit 163 x = x" using assms(3) by (simp add: is_field_elem_def take_bit_nat_eq_self_iff)
    have "bit x j \<longleftrightarrow> pair (fit 163 (xor_bits ?t (sqr_adj ?t))) x"
      using Cons by (simp add: mask_ok_def pair_unit_vec [of j])
    also have "\<dots> \<longleftrightarrow> pair ?t x \<noteq> pair (sqr_adj ?t) x" by (simp only: pair_fit x pair_xor_left)
    also have "\<dots> \<longleftrightarrow> False" using assms(3,4) by (simp add: pair_sqr_adj)
    finally show ?thesis using 0 by simp
  next
    case (Suc k)
    with Cons show ?thesis using Cons.IH [of "Suc j" k] by simp
  qed
qed simp

text \<open>
  The certificate that only \<open>0\<close> and \<open>1\<close> satisfy \<open>x\<^sup>2 = x\<close>: the \<open>j\<close>-th mask \<open>t\<close> of the list (from
  \<open>1\<close>) has \<open>pair t x \<noteq> pair t (x\<^sup>2)\<close> exactly when bit \<open>j\<close> of \<open>x\<close> is set. The list was computed by Gaussian
  elimination; the lemmas check it, mask by mask.
\<close>

lemma kernel_masks_1: "masks_ok 1
     [''KL@M@JCEJBDDOJICFLF@BIHAGMLLILEJDCHOFA@@F'', ''@IAFCBFKEHNBNIMDKCBFFGFHDOCNCMJKEFE@DJLIF'',
      ''FOEGICOKILE@MOOLCD@MAIJHIMGOMOJOE@HK@JAMA'', ''A@C@OJBHGOFLFBHLECOMNA@GLKFJBDHEIKMBGOCMF'',
      ''@J@FJJNIFFFLFMALFCFCFCJMLIKMC@HODIGHDIM@D'', ''HD@@@@@@@@@@@@@@@@@@@@@@@@@@@@@@@@@@@@@@@'',
      ''GII@CLJHOBHMFF@NMOL@@FCONCLAHHDMCOEGBEBHB'', ''HDBKEJODKKDDOE@CELONJKBKGOAKHHE@IABEEGNMD'',
      ''HDHCDDMBHAHCCOF@BNI@BFEHMBMMLC@JFHNGADBHD'', ''@HHL@OHOJJOEBNGMNDLNEEKKLJLOOKCGFEBK@GNEA'',
      ''@BNBDADHJIIJHIBDFLKFADNNJLCLDBJKLAJGELDAA'', ''OGOCGML@GKKOHMH@GIONELEMHFAOBLBJGAADEGNEA'',
      ''HL@M@JGMJBFLOCKGFFN@FI@GMMG@ONGCDAFKFEBHD'', ''GKGFMILJIGAD@MNLKLOCA@BKBJKODOHOMNHOEOEHC'']"
  by code_simp

lemma kernel_masks_2: "masks_ok 15
     [''@H@D@@HE@@BH@LIAHBJBFH@FH@HOCNCJHLF@DLD@F'', ''OOGMEKAEBKENAHCIL@MNCCFEKHJNEJAD@OBHAGNEG'',
      ''@BDHJCJNHNM@DDFE@LFMIO@@JAHINKCKHHBEFIKEA'', ''GICDOJJIMFDDDFINCELAJI@CHANIAFLEMJCI@GCHD'',
      ''HNLOJGMEL@GKCMKIBOH@OIOLOHAGONKFLJOOHD@HE'', ''HDBIFBCNNCM@OBDMNMG@KEJHGODHBIKMDMKMGA@HE'',
      ''@BF@NABHNOM@D@BNFEGMAGB@HAJHNHFEDIICGIKEA'', ''OOGGGCOIOIMCEECFEMKDAMEJACAAE@FCAICEMD@AA'',
      ''GAAJCBDLO@FFJAHEGEB@DKLILFIB@LIAEKKCL@BHB'', ''@JFLNCBMDMGHO@CE@KKOEKBFOE@JOJKK@BGLEDOEA'',
      ''HFDCBIGHN@IDICHDNGH@KL@AIFOBBDBCDEGKHD@HE'', ''OOGMGKAEMKEDKCKKCEONCKBAEFGBMNMNOHKAEGNEG'',
      ''@@@JJHLDFFHDBAJANINKBNBCNJIHNFC@LOILFEODF'', ''@BL@BE@JLHAI@BED@O@LKBKNHBLHIA@A@JOEBJJEG'']"
  by code_simp

lemma kernel_masks_3: "masks_ok 29
     [''OOMGAEGCIJAIMAK@ANNLK@KDKOAHMNBJAJLELOJEG'', ''HDHK@LGDJ@@MOA@@FLBH@JIGMOI@@B@JFKBGNJHLB'',
      ''@JNFNMFKFEKONIMHFIKCGDEGFEALIM@NLKAFONG@G'', ''OEIIAFADCHNKAJ@AFJJLFMOFAJDFH@K@NIDLFNHEF'',
      ''OEICKNOJMDFOEMLDGE@CDCEGCCCGHOHCOIAIJJE@@'', ''GAABAJDHIBNFHCJDCOLJFGNAHFGJDNHKEHMEHGLLD'',
      ''GKMLIGBMINECLBIECJFEICOJJOLJCNKAOBFNLCCIC'', ''OOOOEMMGAIAGCGGKK@JDCHGAEBMIGKELMNJBLD@AG'',
      ''@@H@HFHH@FDI@DJLBBBKBIALBB@KLNBEDJL@L@ODF'', ''OEAAI@IJKLBBADLLMFBDD@LBI@BIHGJMAENCL@BA@'',
      ''@BFJDKFLHIEDFAHOHNABCIBKFKC@BLMEJNFOAHF@G'', ''@BF@NCJJDOM@FLNDHIOOBG@BDIHGLMJKBNIDOEMEF'',
      ''OECIO@KFEO@@MNNACCGML@@HKOFEFEIHGJMHOIIE@'', ''OMAMIJAGKNLDIBMAEDFOBLHCIFFBIGIHAA@IFAMEF'']"
  by code_simp

lemma kernel_masks_4: "masks_ok 43
     [''OMIGKFOAENLIOGIHIILGBKAFGMEICLBNALANHOGAF'', ''GAA@CBHHMJNBJF@NKEDFDMG@NFDAHBLEOFCAJIDIB'',
      ''HLBONBMMDONBAEIOHCMGNOBHIJKAAFOG@NMBAOEID'', ''@HJNDNDEHCFOJICK@FGJLKENNFCDOHGLHJNKMCND@'',
      ''GIKNODLOOMHCJMMOEGAEHFOFFDKMIOEGACOICBAIB'', ''HL@GHJGI@LNLOIKDHJ@GDOJELGADOFBIBNNLJJEIB'',
      ''@BLHBEBFLHIIFHLCBG@FIFADJKHFHMEBNBOCHHDAA'', ''HL@MBJCGF@FFGJOKLAJ@DALKGJDFEEOLJEIHDDBHB'',
      ''@JFFFCDKFIO@@KGDDIALEMH@@LGFGAJKJIKFCJJEA'', ''@HBNL@NGBOB@NGEINBGELBHJDGNCKAIFLELHMCCA@'',
      ''OEIKKNMFMDNOAONACMBIDGOMABKEFOI@MBKGDHKD@'', ''OEKIEFADKCFKAJHKGFEJNAMFK@DM@DENEIDCICNDF'',
      ''@JFLNCBODMGHF@GM@IKOEKBDNA@LOKKMJJCLEDOEA'', ''OOMMKMKEEDIMONAICC@CINIMMGDO@BALMJEBBJG@A'']"
  by code_simp

lemma kernel_masks_5: "masks_ok 57
     [''OGMIKMALENKEIJBEAKDGOFAAADFLJHCAK@GNHKEAG'', ''@HHNBNNEDJNEFGAKHILDDOKKDCOCCKGDBDCFBEBA@'',
      ''@BLBHMN@@FAMFO@HBHLIIHCMLKMOJLBDFHHLBMIDA'', ''GCGJOAFNOOKHDILOMEOGGDHNHCILBGLEIOCAMOGIE'',
      ''@BL@BE@JLHAI@@DF@O@LKBKNHBJJHA@A@JOEBJJEG'', ''OOEEAKAKKBENABGDGDLJIKFMAJDHEIHJMI@AHGLDA'',
      ''GAKBMDDJKOBABKLDOFGONBIHNJOFBOJMOMDAOAOMD'', ''OGMIKEIDGNKKCFJKOILOMFEFG@FKDLMNFMCDBEOEA'',
      ''@BDHJK@NNLMNJBFENOHEIOLONLLHFAIAJMEEJFAAA'', ''GAABAJDJCBNFJADNEBFJDGNKDNABBILEIHLBDCLLB'',
      ''GKMNCGFEOBEIDKKCGOL@IIKL@KOLGLE@EGGMJE@HC'', ''HDBIFBCLFAL@MJBMNCCJJEJJIGDLFJIONMFBGBLLD'',
      ''@BFBDKD@HIMDBKHH@NADAMHADJGNJLJF@@HGA@@AA'', ''GCO@MGHBIEGKHND@KDKIECGNBDNMJABBMLBJMLKLC'']"
  by code_simp

lemma kernel_masks_6: "masks_ok 71
     [''@@JHLNBNBMDGNHNMD@IGHAMCDMJNDEAE@KJNKNGA@'', ''GKEDAIBIIJIDDBALADDLKNHCHIDJA@BMABJKIKHME'',
      ''@JFLNCBODMGHFJOM@IIOEKBDNAFFGOKMJJCLEDOEA'', ''HNLM@GKGBJGAONGKDHLLOCCHGEFOMCGDJCJDBNHME'',
      ''@BDB@CLJJBEJHMLNNNDBIAND@DIEHGLENGLEJMF@A'', ''OECCGHEJGCJFAIFLEIEBLFNCK@AFLKBEIAALIKE@@'',
      ''@BFJDCLLJKEJHM@EFFENAINL@FAMBJCCNCLAAKJEA'', ''HDBKLBGFHELJGALKHLKKJONNOIIHHEGDHN@MEDOMD'',
      ''OOGOMCOOAEE@MEMGKBAKAAJBAOIKKGOKMDF@CJG@A'', ''HDBKLBGFHELJGALKHLKKJONNOIIHHEGDHN@MEDOLE'',
      ''@@@@@@@@@@@@@@@@@@@@@@@@@@@@@@@@@@@@@@@@F'', ''@HBFLHDCBGHNHKEHN@MKHFFOHDEDAIBNLMHBCEOD@'',
      ''@JDLJKJEFFOFLLKKNKDKEGDAJOHMGNENDEEDBAMDA'', ''GICFE@LAAI@@@OI@C@INHBJJ@BMGAD@JMBJJCFNMB'']"
  by code_simp

lemma kernel_masks_7: "masks_ok 85
     [''GIKFODNKME@CNMEFCOAKH@E@FGIEIAFCOBMEA@MLB'', ''HNNONOGGNGGEOCMKLEMKGAAIGME@KMEDBMKCCEOLE'',
      ''GKEDAAHIK@IJHFKDELBHIFDDJNNKEFJAAC@MFJJLC'', ''OEKIONIFGGFOANNAEIOKNIEGKJNEFOA@KCKNGEODF'',
      ''HFNCNOOBNGEMOODJDGGIAIAOOMMOHCFNJAMCGIKLC'', ''GIALIBBGCNDJLBMAE@DE@IDD@OFBKMIJIKBH@CAIB'',
      ''GKGFMIDCKGADBCEHGFGKA@JKDBOBIAJFGIDAOAOLC'', ''HDHC@LMJ@HHMKOFDBB@D@NCOGLGGFK@KNHD@@@@IB'',
      ''@H@FJHFKLNBLFCEDBEFEDBHMLIO@KA@KL@IKLCCA@'', ''OMCEO@AKEGH@K@MLIAOKJLJJMD@@KEHECLCJGEODF'',
      ''HDHIJDINFN@IINLELKNOB@ALIFNOHMCKBGMLFEOMD'', ''OGMAKMAJEDCEKBNDCKHIOBCIGFNHFOBAMJEN@LIDG'',
      ''OGMCAMGHCBCOEI@DOHDHMHOMKAALBHHKOGBLHKHDA'', ''GAAJAJFDIJFFLC@AKNNLFCDKJEMH@BKHMNLELOJMD'']"
  by code_simp

lemma kernel_masks_8: "masks_ok 99
     [''HL@MBJCGDJFFG@GA@ANLFALCMIBBEAI@BHC@LOJMD'', ''OGECIKO@CFGFEMJHMJFCOANAICAGNFJNKMNLDKG@G'',
      ''GCG@EA@HAKCBJBHNC@ONEJF@LNNHBNFMG@JJMGLMC'', ''GICDMJHAAEDFJNI@CBIAJALKFFDGCD@HEBNHCFCHD'',
      ''@JLDBM@AFHCOJJC@DCJDMJOGNNDNMJH@JAOBLD@AA'', ''OOEOKCMEEDMBKGAAKCBIKEDHEDEICHIJGNGHLHIDG'',
      ''@@HJBNDNNHLM@CDOFEHDBGCM@BOJJKEODAAA@DBAF'', ''@H@L@HBGJ@JFNBOCFDJBDLNCDELHEGMBDC@ADLD@@'',
      ''OECIM@INCMBBCLFEOJCENHLHEHBODICAMGLNOBCAF'', ''OEAAI@IHCLBBANJNEHJMF@L@A@DOLDLOICJFDLIEF'',
      ''@BF@NK@HNMMNHJHNFMAMAGLGJDLDJLFONICMAHKEA'', ''@BN@FMHBFCIGJFF@NAGBANMIDLDCNA@@FGK@GIF@A'',
      ''OGMCAMGHCJCOGABFG@FDOHOMMKI@FHNKOKBJFA@AG'', ''@@J@LN@BBELGHJLJFBAAJEGIBFFNBMFNNCLHCBA@F'']"
  by code_simp

lemma kernel_masks_9: "masks_ok 113
     [''GCEBKILHMLKFHMJLAG@MOLDAJFKELNJMIJOAHHIME'', ''OEIKKFGFMFNAMCDCKONAFGCBCGEH@IGJEFGOLGA@F'',
      ''GKGNOIFGMGINLAGIIMMACLLEBMIBEACNKDKEIGAHE'', ''GAC@OBHHEEFBJFBDAKAINAL@NLLKFB@KIJGFIHILD'',
      ''OECCGHEHOKJFCKJNOGGFNFNAGJOFDLFOEMMAGIFAF'', ''GAABAJDHIJNFJKHDIDFNFGNALLODBNHCANHILCNMD'',
      ''GCGBOADBOGCHBKNJOEMKG@BDNHENNELNGMKCCEOLE'', ''OGEICKIDE@OLKFJKIABJOO@MGLNKFFELKNA@FBLDG'',
      ''HNFMLIKGHOKFGNECBFGMGFDCMCFOIIGHLJNIOIIME'', ''GCGBOADBOGCHBKNJOEMKE@BDNHENNELNGMKCCEOLC'',
      ''OMAEI@CACF@JGJA@GJFABHDLMCFFAH@BOKDDDCA@F'', ''OGMKCMELEJKEIC@EAIFFODACKDOJ@HAKCHCLNIDAG'',
      ''@HBFN@LKDGJBJMENJIOCLNF@DFKEKCFOFNKNEOE@@'', ''GKOFGOLCMAEGHEEJCMAHCAGCBNKIIKFLEJIGCJJLE'']"
  by code_simp

lemma kernel_masks_10: "masks_ok 127
     [''HLJMNDAONMJAK@EMFOAMNDCHOF@HIIKMDAGMAHKMD'', ''@@B@DHJ@HIHNLN@JHLIFHLNOHODE@BFDJNBEILFA@'',
      ''OOGOMKEMKOENAKIOOFOGAAFGKHEFAFEGGMDKEOEAA'', ''GKGNOIFGMOINNIEIIGEECLLEFGADKACFKFEAICCIE'',
      ''HLBMFBIGLCNHKNGKHMGJNMBLMFFGECODHFAEECLLD'', ''HL@OHJEEJDFLKIAALF@IDK@GGDKNCHCJ@MNAHHILB'',
      ''GAKJMDFFKGJADCFIMDOANFCBHAEJFKKFAGJCEGCHD'', ''HLJGDLMIBKBEKMCDNHONLJAAMDKMOHJKLG@DEGNMB'',
      ''GICFEJLKIIDNHEGDCLCLJCLOBLAAGA@KMJBOGJJMD'', ''GCMJCOFNEJGOLINGKINLOAOEBEILLGMIONINDOHME'',
      ''GKGDEAJAAAAJLLABIHIJCBNL@OBEI@D@CLBNCFNLE'', ''@JFDNC@CDEOH@HMHBKCAEOHNHJJDIOJFD@MNOBC@A'',
      ''@HJDLF@IHMNA@HINBDCMLMC@@H@NAFNGDJBKMHIE@'', ''HNDGBIOINJKLOGKLFONLMD@MGEMCMNBOFAOODOHMC'']"
  by code_simp

lemma kernel_masks_11: "masks_ok 141
     [''GIAFABDAKBL@BCCBMNNJBOJJFBOJGBFHCMFMLGLLD'', ''HFLI@OKN@BEGGFLM@BD@KKGCMKFAHOKOH@LBBA@HE'',
      ''GCEBKILHMLKFHMJLAEHMOLDAJFKELFJMIJKK@LIME'', ''GAC@OBHJOEFBHNFLGGAINALJBDDOLA@EECMCIHILD'',
      ''@JFDNKJANOOFLFI@FMEMEODKBMFIAF@JLAKOCIKEA'', ''HLBMFBIEFCNHIFCCNCGJNMBFANNCM@OJLGO@ECLLD'',
      ''OMAMI@AMCFHJC@AGOJFC@LNFOBBHIBOAEELFLKE@@'', ''GKMNCOLGEHEGHEOIKIJLKIGIJLCCGMKLMDALFNHME'',
      ''OEAKCHENOJJFACDGMODFDNNICBOBJAOAAEMOBIFA@'', ''HFFILAKLBGI@OL@EFBOICN@JOM@M@BKAFILHOMKLE'',
      ''GCGJOILNMEKFHMFGIMIAGDDIJDCMFKEKINKGKFAHE'', ''HL@MBJAODHFFC@GE@AJLFADCE@@HMCIIBHK@NNJMD'',
      ''OECKGHGDOKBFGAJIGGGDLBDKEKKHLDALOCGKOABA@'', ''GIANABFOCJD@DKOGO@LLBK@BHIEDGMEAEO@HJOJMD'']"
  by code_simp

lemma kernel_masks_12: "masks_ok 155
     [''GAA@KJ@BGNNL@@FBOKLOFMJEJBB@DAFHGMGFJEOMD'', ''@@B@D@BJ@AH@FBNNJHCBHLJBFIDJFENMNFJDMJD@@'',
      ''@JFDNKJANOOFLFI@FMEMEODKBMFIAF@JLAKOAAKEA'', ''HDBKLBGFHELJGALKHLKKJONNOIIHHEGDHN@MEDOLD'',
      ''GAC@OJBHGOFLFBHLECOMNA@GLKFJBDHEIKMBGOCMD'', ''A@@@@@@@@@@@@@@@@@@@@@@@@@@@@@@@@@@@@@@@@'',
      ''OEAKCHENOJJFACDGMODFDNNICBOBJAOAAEMOBKLI@'', ''HDBKLBGFHELJGALKHLKKJONNOIIHHEGDHN@MEDODF'']"
  by code_simp

lemmas kernel_masks = kernel_masks_1 kernel_masks_2 kernel_masks_3 kernel_masks_4 kernel_masks_5 kernel_masks_6 kernel_masks_7 kernel_masks_8 kernel_masks_9 kernel_masks_10 kernel_masks_11 kernel_masks_12

lemma idempotent_no_bit:
  assumes "is_field_elem x" and "gf2_sqr x = x" and "0 < j"
  shows "\<not> bit x j"
proof (cases "j < 163")
  case True
  note m = kernel_masks [THEN masks_ok_bit, OF _ assms(1,2)]
  have m1: ?thesis if "1 \<le> j" "j < 15" using m(1) [of "j - 1"] that by simp
  have m2: ?thesis if "15 \<le> j" "j < 29" using m(2) [of "j - 15"] that by simp
  have m3: ?thesis if "29 \<le> j" "j < 43" using m(3) [of "j - 29"] that by simp
  have m4: ?thesis if "43 \<le> j" "j < 57" using m(4) [of "j - 43"] that by simp
  have m5: ?thesis if "57 \<le> j" "j < 71" using m(5) [of "j - 57"] that by simp
  have m6: ?thesis if "71 \<le> j" "j < 85" using m(6) [of "j - 71"] that by simp
  have m7: ?thesis if "85 \<le> j" "j < 99" using m(7) [of "j - 85"] that by simp
  have m8: ?thesis if "99 \<le> j" "j < 113" using m(8) [of "j - 99"] that by simp
  have m9: ?thesis if "113 \<le> j" "j < 127" using m(9) [of "j - 113"] that by simp
  have m10: ?thesis if "127 \<le> j" "j < 141" using m(10) [of "j - 127"] that by simp
  have m11: ?thesis if "141 \<le> j" "j < 155" using m(11) [of "j - 141"] that by simp
  have m12: ?thesis if "155 \<le> j" "j < 163" using m(12) [of "j - 155"] that by simp
  have "1 \<le> j" using assms(3) by simp
  with True show ?thesis using m1 m2 m3 m4 m5 m6 m7 m8 m9 m10 m11 m12 by (metis not_le)
next
  case False
  have "x < 2 ^ j" using assms(1) False power_increasing [of 163 j "2 :: nat"] by (simp add: is_field_elem_def)
  then show ?thesis by (simp add: bit_iff_odd)
qed

lemma idempotent_field_elem:
  assumes "is_field_elem x" and "gf2_sqr x = x"
  shows "x = 0 \<or> x = 1"
proof -
  have "bit (take_bit 1 x) j = bit x j" for j
    using idempotent_no_bit [OF assms, of j] by (cases "j = 0") (simp_all only: bit_take_bit_iff, simp_all)
  then have "take_bit 1 x = x" by (rule bit_eqI)
  moreover have "take_bit 1 x < 2" by (simp add: take_bit_eq_mod)
  ultimately show ?thesis by linarith
qed

section \<open>The polynomial \<open>x\<close> is fixed by 163 squarings\<close>

lemma squarings_23:
  "sqr_iter 23 (from_nibbles ''B@@@@@@@@@@@@@@@@@@@@@@@@@@@@@@@@@@@@@@@@'') =
     from_nibbles ''HJLEOK@AH@CCIOBFEEHNKJBONJDOF@C@FGJBDLCMG''"
  by code_simp

lemma squarings_43:
  "sqr_iter 20 (from_nibbles ''HJLEOK@AH@CCIOBFEEHNKJBONJDOF@C@FGJBDLCMG'') =
     from_nibbles ''MECDLOMNNBNGNIE@FCJLHEHCHJFCMIMEGAABLGAJG''"
  by code_simp

lemma squarings_63:
  "sqr_iter 20 (from_nibbles ''MECDLOMNNBNGNIE@FCJLHEHCHJFCMIMEGAABLGAJG'') =
     from_nibbles ''GGMNIFBBBBGMIJANKKKMGAMKJLKCOE@@LCCGEFDCC''"
  by code_simp

lemma squarings_83:
  "sqr_iter 20 (from_nibbles ''GGMNIFBBBBGMIJANKKKMGAMKJLKCOE@@LCCGEFDCC'') =
     from_nibbles ''HLNNFE@DF@KODN@CDJGFJ@ACDEDHJNN@@BNAMIB@C''"
  by code_simp

lemma squarings_103:
  "sqr_iter 20 (from_nibbles ''HLNNFE@DF@KODN@CDJGFJ@ACDEDHJNN@@BNAMIB@C'') =
     from_nibbles ''DBDAKK@ILC@FBGECEAEEIBFFEKCD@HGOAOJOJKBE@''"
  by code_simp

lemma squarings_123:
  "sqr_iter 20 (from_nibbles ''DBDAKK@ILC@FBGECEAEEIBFFEKCD@HGOAOJOJKBE@'') =
     from_nibbles ''BCJHJFKDLHCJODJGMFIMMDMCKCCHLODBOHILMLNDD''"
  by code_simp

lemma squarings_143:
  "sqr_iter 20 (from_nibbles ''BCJHJFKDLHCJODJGMFIMMDMCKCCHLODBOHILMLNDD'') =
     from_nibbles ''GLBJHENCLKHCKLHDHDGGNDCMFBHKLCCCBLKFKLCF@''"
  by code_simp

lemma squarings_163:
  "sqr_iter 20 (from_nibbles ''GLBJHENCLKHCKLHDHDGGNDCMFBHKLCCCBLKFKLCF@'') =
     from_nibbles ''B@@@@@@@@@@@@@@@@@@@@@@@@@@@@@@@@@@@@@@@@''"
  by code_simp

lemmas squarings = squarings_23 squarings_43 squarings_63 squarings_83 squarings_103 squarings_123 squarings_143 squarings_163

lemma sqr_iter_add: "sqr_iter m (sqr_iter n x) = sqr_iter (n + m) x"
  by (induction n x rule: sqr_iter.induct) simp_all

lemma squarings_all:
  "sqr_iter 163 (from_nibbles ''B@@@@@@@@@@@@@@@@@@@@@@@@@@@@@@@@@@@@@@@@'') = from_nibbles ''B@@@@@@@@@@@@@@@@@@@@@@@@@@@@@@@@@@@@@@@@''"
proof -
  have "sqr_iter 163 x = sqr_iter 20 (sqr_iter 20 (sqr_iter 20 (sqr_iter 20 (sqr_iter 20 (sqr_iter 20 (sqr_iter 20 (sqr_iter 23 (x))))))))" for x
    by (simp only: sqr_iter_add) simp
  then show ?thesis by (simp only: squarings)
qed

lemma frobenius_x: "(gf2_sqr ^^ 163) 2 = 2"
proof -
  have v: "bits_val (from_nibbles ''B@@@@@@@@@@@@@@@@@@@@@@@@@@@@@@@@@@@@@@@@'') = 2" by code_simp
  have "length (from_nibbles ''B@@@@@@@@@@@@@@@@@@@@@@@@@@@@@@@@@@@@@@@@'') = 163" by (simp add: from_nibbles_def)
  from sqr_iter_val [OF this, of 163] show ?thesis by (simp only: squarings_all v)
qed

end
