(* ===== verification/Field163.thy ===== *)
theory Field163
  imports Irreducible
begin

text \<open>
  GF(2^163): the type of the field elements of \<open>hub/ecc.py\<close> with the operations of that file as its
  ring structure, the proof that \<open>gf2_inv\<close> returns an inverse for every non-zero element (so that the
  type is a field), and how the operations on integers relate to it.
\<close>

section \<open>The ring\<close>

lemma mulmod_assoc: "gf2_mulmod (gf2_mulmod a b) c = gf2_mulmod a (gf2_mulmod b c)"
proof (rule fcong_eq)
  have "fcong (gf2_mulmod (gf2_mulmod a b) c) (clmul (clmul a b) c)"
    by (rule cong_trans [OF fcong_mulmod]) (intro cong_clmul fcong_mulmod cong_refl)
  moreover have "fcong (gf2_mulmod a (gf2_mulmod b c)) (clmul (clmul a b) c)"
    unfolding clmul_assoc by (rule cong_trans [OF fcong_mulmod]) (intro cong_clmul fcong_mulmod cong_refl)
  ultimately show "fcong (gf2_mulmod (gf2_mulmod a b) c) (gf2_mulmod a (gf2_mulmod b c))"
    by (rule cong_trans [OF _ cong_sym])
qed simp_all

lemma mulmod_commute: "gf2_mulmod a b = gf2_mulmod b a"
  by (simp add: gf2_mulmod_def gf2_mul_eq clmul_commute)

lemma mulmod_xor: "gf2_mulmod (a XOR b) c = gf2_mulmod a c XOR gf2_mulmod b c"
proof (rule fcong_eq)
  have "fcong (gf2_mulmod a c XOR gf2_mulmod b c) (clmul (a XOR b) c)"
    unfolding clmul_xor_left by (intro cong_xor fcong_mulmod)
  then show "fcong (gf2_mulmod (a XOR b) c) (gf2_mulmod a c XOR gf2_mulmod b c)"
    by (rule cong_trans [OF fcong_mulmod cong_sym])
qed simp_all

lemma mulmod_one: "is_field_elem a \<Longrightarrow> gf2_mulmod 1 a = a"
  by (rule fcong_eq) (use fcong_mulmod [of 1 a] in simp_all)

typedef gf163 = "{x :: nat. is_field_elem x}"
  morphisms rep el_of
  using field_elem_0 by blast

setup_lifting type_definition_gf163

instantiation gf163 :: comm_ring_1
begin

lift_definition zero_gf163 :: gf163 is 0 by simp

lift_definition one_gf163 :: gf163 is 1 by simp

lift_definition plus_gf163 :: "gf163 \<Rightarrow> gf163 \<Rightarrow> gf163" is gf2_add
  by (simp add: gf2_add_def)

lift_definition minus_gf163 :: "gf163 \<Rightarrow> gf163 \<Rightarrow> gf163" is gf2_add
  by (simp add: gf2_add_def)

lift_definition uminus_gf163 :: "gf163 \<Rightarrow> gf163" is "\<lambda>x. x" .

lift_definition times_gf163 :: "gf163 \<Rightarrow> gf163 \<Rightarrow> gf163" is gf2_mulmod
  by simp

instance
proof
  fix a b c :: gf163
  show "a * b * c = a * (b * c)" by transfer (rule mulmod_assoc)
  show "a * b = b * a" by transfer (rule mulmod_commute)
  show "1 * a = a" by transfer (rule mulmod_one)
  show "a + b + c = a + (b + c)" "a + b = b + a" "0 + a = a" "- a + a = 0" "a - b = a + - b"
    by (transfer; simp add: gf2_add_def xor_ac)+
  show "(a + b) * c = a * c + b * c" by transfer (simp add: gf2_add_def mulmod_xor)
  show "(0 :: gf163) \<noteq> 1" by transfer simp
qed

end

lemma gf_char2 [simp]: "x + x = (0 :: gf163)"
  by transfer (simp add: gf2_add_def)

lemma gf_char2_num: "2 * x = (0 :: gf163)"
  by (simp add: mult_2)

lemma gf_uminus [simp]: "- x = (x :: gf163)"
  by transfer simp

lemma gf_minus: "x - y = x + (y :: gf163)"
  by transfer (rule refl)

lemma gf_add_eq_0: "x + y = 0 \<longleftrightarrow> x = (y :: gf163)"
  by (metis gf_minus right_minus_eq)

section \<open>Every element is fixed by 163 squarings\<close>

lemma gf_square_add: "(x + y) ^ 2 = x ^ 2 + (y :: gf163) ^ 2"
  using gf_char2_num [of "x * y"] by (simp add: power2_sum mult.assoc)

lemma frobenius_add: "(x + y) ^ (2 ^ n) = x ^ (2 ^ n) + (y :: gf163) ^ (2 ^ n)"
proof (induction n)
  case (Suc n)
  have p: "z ^ (2 ^ Suc n) = (z ^ 2 ^ n) ^ 2" for z :: gf163
    by (metis power_Suc2 power_mult)
  show ?case by (simp only: p Suc gf_square_add)
qed simp

lemma frobenius_rep: "rep (x ^ 2 ^ n) = (gf2_sqr ^^ n) (rep x)"
proof (induction n)
  case (Suc n)
  have "x ^ 2 ^ Suc n = x ^ 2 ^ n * x ^ 2 ^ n" by (metis power_Suc2 power_mult power2_eq_square)
  then have "rep (x ^ 2 ^ Suc n) = gf2_mulmod (rep (x ^ 2 ^ n)) (rep (x ^ 2 ^ n))"
    by (simp only: times_gf163.rep_eq)
  then show ?case using Suc gf2_sqr_mulmod_aux by simp
qed simp

text \<open>An element is a sum of powers of the polynomial \<open>x\<close>.\<close>

definition gf_x :: gf163 where
  "gf_x = el_of 2"

lemma rep_x: "rep gf_x = 2"
  by (simp add: gf_x_def el_of_inverse is_field_elem_def)

lemma gf_from_x:
  assumes "\<And>a. P a \<Longrightarrow> P (a * gf_x)" "\<And>a. P a \<Longrightarrow> P (a * gf_x + 1)" "P 0"
  shows "P (a :: gf163)"
proof -
  have "P (el_of n)" if "is_field_elem n" for n
    using that
  proof (induction n rule: less_induct)
    case (less n)
    show ?case
    proof (cases "n = 0")
      case True
      then show ?thesis using assms(3) by (simp add: zero_gf163_def)
    next
      case False
      let ?m = "n div 2"
      have m: "?m < n" "is_field_elem ?m" using False less.prems by (auto simp: is_field_elem_def)
      then have Pm: "P (el_of ?m)" using less.IH by simp
      have f: "is_field_elem (2 * ?m)" using less.prems by (auto simp: is_field_elem_def)
      have "gf2_mulmod ?m 2 = 2 * ?m"
        by (rule fcong_eq) (use fcong_mulmod [of ?m 2] f in \<open>simp_all add: clmul.simps [of _ 2]\<close>)
      then have x: "el_of ?m * gf_x = el_of (2 * ?m)"
        using m f by (simp add: times_gf163_def el_of_inverse rep_x)
      show ?thesis
      proof (cases "even n")
        case True
        then show ?thesis using assms(1) [OF Pm] x by simp
      next
        case odd: False
        then have "n = 2 * ?m XOR 1" using Suc_double_xor [of ?m] by (simp add: xor.commute)
        then have "el_of n = el_of ?m * gf_x + 1"
          using f by (simp add: x plus_gf163_def el_of_inverse one_gf163.rep_eq gf2_add_def)
        then show ?thesis using assms(2) [OF Pm] by simp
      qed
    qed
  qed
  from this [of "rep a"] show ?thesis using rep [of a] by (simp add: rep_inverse)
qed

lemma frobenius_fixed: "a ^ 2 ^ 163 = (a :: gf163)"
proof (rule gf_from_x)
  have "rep (gf_x ^ 2 ^ 163) = rep gf_x" by (simp only: frobenius_rep rep_x frobenius_x)
  then have x: "gf_x ^ 2 ^ 163 = gf_x" by (simp only: rep_inject)
  show "(b * gf_x) ^ 2 ^ 163 = b * gf_x" if "b ^ 2 ^ 163 = b" for b
    by (simp only: power_mult_distrib x that)
  show "(b * gf_x + 1) ^ 2 ^ 163 = b * gf_x + 1" if "b ^ 2 ^ 163 = b" for b
    by (simp only: frobenius_add power_mult_distrib x that power_one)
  show "(0 :: gf163) ^ 2 ^ 163 = 0" by (rule zero_power) simp
qed

section \<open>Inverses exist\<close>

lemma gf_idempotent: "e * e = e \<Longrightarrow> e = 0 \<or> e = (1 :: gf163)"
proof -
  assume "e * e = e"
  then have "gf2_sqr (rep e) = rep e" by (metis times_gf163.rep_eq gf2_sqr_mulmod_aux)
  then have "rep e = 0 \<or> rep e = 1" using idempotent_field_elem rep [of e] by simp
  then show ?thesis by (metis rep_inject zero_gf163.rep_eq one_gf163.rep_eq)
qed

lemma power_fixed_inverse:
  fixes a :: "'a :: comm_ring_1"
  assumes "a ^ Suc (Suc n) = a" and "\<And>e :: 'a. e * e = e \<Longrightarrow> e = 0 \<or> e = 1" and "a \<noteq> 0"
  shows "a * a ^ n = 1"
proof -
  have "a ^ Suc n * a ^ Suc n = a ^ Suc (Suc n) * a ^ n" by (simp only: power_Suc mult_ac)
  also have "\<dots> = a ^ Suc n" by (simp only: assms(1)) simp
  finally have "a ^ Suc n = 0 \<or> a ^ Suc n = 1" by (rule assms(2))
  moreover have "a ^ Suc n \<noteq> 0" using assms(1,3) by (auto simp: mult.assoc)
  ultimately show ?thesis by simp
qed

lemma gf_inverse_exists:
  assumes "a \<noteq> (0 :: gf163)"
  shows "\<exists>b. a * b = 1"
proof -
  have "(2 :: nat) ^ 163 = Suc (Suc (2 ^ 163 - 2))" by simp
  then have "a ^ Suc (Suc (2 ^ 163 - 2)) = a" using frobenius_fixed [of a] by metis
  from power_fixed_inverse [OF this gf_idempotent assms] show ?thesis by blast
qed

lemma field_elem_coprime:
  assumes "is_field_elem a" and "a \<noteq> 0"
  shows "gf2_coprime a FIELD_POLY"
proof -
  have "el_of a \<noteq> 0" using assms by (metis el_of_inverse mem_Collect_eq zero_gf163.rep_eq)
  then obtain b where "el_of a * b = 1" using gf_inverse_exists by blast
  then have "gf2_mulmod a (rep b) = 1"
    using assms(1) by (metis el_of_inverse mem_Collect_eq times_gf163.rep_eq one_gf163.rep_eq)
  then have "fcong 1 (clmul a (rep b))" using fcong_mulmod [of a "rep b"] by simp
  then obtain q where "1 XOR clmul a (rep b) = clmul q FIELD_POLY" by (auto simp: gf2_cong_def)
  then have one: "1 = clmul a (rep b) XOR clmul q FIELD_POLY" by (metis xor_nat_cancel(1) xor.commute)
  show ?thesis
    unfolding gf2_coprime_def
  proof (intro allI impI)
    fix d assume "gf2_dvd d a \<and> gf2_dvd d FIELD_POLY"
    then have "gf2_dvd d (clmul a (rep b))" "gf2_dvd d (clmul q FIELD_POLY)"
      unfolding gf2_dvd_def by (metis clmul_commute clmul_assoc)+
    then have "gf2_dvd d 1" using gf2_dvd_xor one by metis
    then show "d = 1" by (rule gf2_dvd_one)
  qed
qed


lemma gf2_inv_field:
  assumes "is_field_elem a" and "a \<noteq> 0"
  shows "\<exists>r. gf2_inv a = Inr r \<and> is_field_elem r \<and> gf2_mulmod a r = 1"
  using gf2_inv_coprime [OF assms(2) field_elem_coprime [OF assms]] gf2_inv_mulmod by blast

text \<open>
  C38 [gf2_inv_total]
  Inversion works on the whole field: for every field element (a 163-bit integer) other than 0 the
  extended Euclidean loop of \<open>gf2_inv\<close> ends, and what it returns is a field element whose product
  with the argument, reduced by \<open>FIELD_POLY\<close>, is 1. So \<open>FIELD_POLY\<close> is irreducible.
\<close>

theorem gf2_inv_total:
  assumes "a < 2 ^ 163" and "a \<noteq> 0"
  shows "\<exists>r. gf2_inv a = Inr r \<and> r < 2 ^ 163 \<and> gf2_mulmod a r = 1"
  using gf2_inv_field [of a] assms by (auto simp: is_field_elem_def)

text \<open>
  Outside the field the loop need not end: on every non-zero multiple of \<open>FIELD_POLY\<close> (an integer
  that stands for the field's zero but is not the integer 0) \<open>gf2_inv\<close> neither raises nor returns.
\<close>

theorem gf2_inv_diverges_on_multiples:
  assumes "q \<noteq> 0"
  shows "gf2_inv (gf2_mul q FIELD_POLY) = Inl Diverges"
proof -
  have "gf2_dvd FIELD_POLY (gf2_mul q FIELD_POLY)" unfolding gf2_dvd_def gf2_mul_eq by blast
  moreover have "FIELD_POLY \<noteq> 1" by (simp add: FIELD_POLY_value)
  ultimately have nc: "\<not> gf2_coprime (gf2_mul q FIELD_POLY) FIELD_POLY"
    unfolding gf2_coprime_def using gf2_dvd_refl by blast
  have nz: "gf2_mul q FIELD_POLY \<noteq> 0" using assms by (simp add: gf2_mul_eq FIELD_POLY_value)
  then show ?thesis using nc by (rule gf2_inv_not_coprime)
qed

section \<open>The field\<close>

instantiation gf163 :: field
begin

definition inverse_gf163 :: "gf163 \<Rightarrow> gf163" where
  "inverse_gf163 x = (case gf2_inv (rep x) of Inl e \<Rightarrow> 0 | Inr r \<Rightarrow> el_of r)"

definition divide_gf163 :: "gf163 \<Rightarrow> gf163 \<Rightarrow> gf163" where
  "divide_gf163 x y = x * inverse y"

instance
proof
  fix a b :: gf163
  show "inverse a * a = 1" if "a \<noteq> 0"
  proof -
    have "rep a \<noteq> 0" using that by (metis rep_inverse zero_gf163_def)
    then obtain r where r: "gf2_inv (rep a) = Inr r" "is_field_elem r" "gf2_mulmod (rep a) r = 1"
      using gf2_inv_field rep [of a] by blast
    then have "a * el_of r = 1"
      by (metis el_of_inverse mem_Collect_eq one_gf163.rep_eq rep_inject times_gf163.rep_eq)
    then show ?thesis using r by (simp add: inverse_gf163_def mult.commute)
  qed
  show "a div b = a * inverse b" by (simp add: divide_gf163_def)
  show "inverse (0 :: gf163) = 0" by (simp add: inverse_gf163_def gf2_inv_def zero_gf163.rep_eq)
qed

end

section \<open>Field elements as integers\<close>

text \<open>\<open>el_of\<close> turns the integer operations on field elements into the field's.\<close>

lemma el_add: "is_field_elem a \<Longrightarrow> is_field_elem b \<Longrightarrow> el_of (gf2_add a b) = el_of a + el_of b"
  by (simp add: plus_gf163_def el_of_inverse)

lemma el_mulmod: "is_field_elem a \<Longrightarrow> is_field_elem b \<Longrightarrow> el_of (gf2_mulmod a b) = el_of a * el_of b"
  by (simp add: times_gf163_def el_of_inverse)

lemma el_sqr: "is_field_elem a \<Longrightarrow> el_of (gf2_sqr a) = el_of a ^ 2"
  by (simp add: gf2_sqr_mulmod_aux el_mulmod power2_eq_square)

lemma el_inj: "is_field_elem a \<Longrightarrow> is_field_elem b \<Longrightarrow> el_of a = el_of b \<longleftrightarrow> a = b"
  by (simp add: el_of_inject)

lemma el_0 [simp]: "el_of 0 = 0" and el_1 [simp]: "el_of (Suc 0) = 1"
  by (simp_all add: zero_gf163_def one_gf163_def)

lemma el_eq_0: "is_field_elem a \<Longrightarrow> el_of a = 0 \<longleftrightarrow> a = 0"
  using el_inj [of a 0] by simp

lemma gf2_add_field [simp]: "is_field_elem a \<Longrightarrow> is_field_elem b \<Longrightarrow> is_field_elem (gf2_add a b)"
  by (simp add: gf2_add_def)

lemma el_inv:
  assumes "is_field_elem a" and "a \<noteq> 0"
  obtains r where "gf2_inv a = Inr r" and "is_field_elem r" and "el_of r = inverse (el_of a)"
  using gf2_inv_field [OF assms] assms(1) by (auto simp: inverse_gf163_def el_of_inverse)

lemmas el_simps = el_add el_mulmod el_sqr el_eq_0

theorem gf2_inv_total_witness:
  "\<exists>r. gf2_inv 2 = Inr r \<and> r < 2 ^ 163 \<and> gf2_mulmod 2 r = 1"
  by (rule gf2_inv_total) simp_all

theorem gf2_inv_diverges_on_multiples_witness: "gf2_inv (gf2_mul 1 FIELD_POLY) = Inl Diverges"
  by (rule gf2_inv_diverges_on_multiples) simp

end
