(* ===== verification/Ecc.thy ===== *)
theory Ecc
  imports Field163
begin

text \<open>
  \<open>hub/ecc.py\<close>, points and keys: affine points of \<open>y\<^sup>2 + x y = x\<^sup>3 + a x\<^sup>2 + b\<close> over GF(2^163), their
  addition, the double-and-add multiplications, the 24 and 48 byte key encodings and the validated
  ECDH. Every exception is a value of \<open>ecc_error\<close>; \<open>Field_Error Diverges\<close> is a call that never returns.
\<close>

section \<open>Constants and errors\<close>

datatype ecc_error =
    Field_Error gf_error
  | Value_Error string
  | Overflow_Error
  | Type_Error
  | Runtime_Error

definition ebind :: "'e + 'a \<Rightarrow> ('a \<Rightarrow> 'e + 'b) \<Rightarrow> 'e + 'b" where
  "ebind m f = (case m of Inl e \<Rightarrow> Inl e | Inr x \<Rightarrow> f x)"

lemma ebind_simps [simp]: "ebind (Inl e) f = Inl e" "ebind (Inr x) f = f x"
  by (simp_all add: ebind_def)

definition CURVE_B :: nat where "CURVE_B = 0x020A601907B8C953CA1481EB10512F78744A3205FD"
definition GEN_X :: nat where "GEN_X = 0x03F0EBA16286A2D57EA0991168D4994637E8343E36"
definition GEN_Y :: nat where "GEN_Y = 0x00D51FBC6C71A0094FA2CDD545B11C5C0C797324F1"
definition CURVE_ORDER :: nat where "CURVE_ORDER = 0x040000000000000000000292FE77E70C12A4234C33"
definition KEY_BYTES :: nat where "KEY_BYTES = 24"
definition PUBKEY_BYTES :: nat where "PUBKEY_BYTES = 48"

section \<open>Key encodings\<close>

definition field_to_bytes :: "nat \<Rightarrow> ecc_error + bytes" where
  "field_to_bytes value = (case to_bytes_le KEY_BYTES value of None \<Rightarrow> Inl Overflow_Error | Some bs \<Rightarrow> Inr bs)"

definition bytes_to_field :: "bytes \<Rightarrow> ecc_error + nat" where
  "bytes_to_field data =
     (if length data \<noteq> KEY_BYTES then Inl (Value_Error ''Expected 24 bytes'') else Inr (nat_of_le data))"

definition pubkey_to_bytes :: "nat \<Rightarrow> nat \<Rightarrow> ecc_error + bytes" where
  "pubkey_to_bytes x y = ebind (field_to_bytes x) (\<lambda>bx. ebind (field_to_bytes y) (\<lambda>by. Inr (bx @ by)))"

definition bytes_to_pubkey :: "bytes \<Rightarrow> ecc_error + nat \<times> nat" where
  "bytes_to_pubkey data =
     (if length data \<noteq> PUBKEY_BYTES then Inl (Value_Error ''Expected 48 bytes'')
      else ebind (bytes_to_field (pyslice 0 KEY_BYTES data)) (\<lambda>x.
           ebind (bytes_to_field (drop KEY_BYTES data)) (\<lambda>y. Inr (x, y))))"

section \<open>Points\<close>

record point =
  px :: "nat option"
  py :: "nat option"

definition is_infinity :: "point \<Rightarrow> bool" where
  "is_infinity p = (px p = None \<and> py p = None)"

definition INFINITY :: point where
  "INFINITY = \<lparr>px = None, py = None\<rparr>"

definition affine :: "nat \<Rightarrow> nat \<Rightarrow> point" where
  "affine x y = \<lparr>px = Some x, py = Some y\<rparr>"

text \<open>Reading the coordinates as integers: arithmetic on a missing one is a TypeError.\<close>

definition coords :: "point \<Rightarrow> ecc_error + nat \<times> nat" where
  "coords p = (case (px p, py p) of (Some x, Some y) \<Rightarrow> Inr (x, y) | _ \<Rightarrow> Inl Type_Error)"

definition inv_field :: "nat \<Rightarrow> ecc_error + nat" where
  "inv_field x = (case gf2_inv x of Inl e \<Rightarrow> Inl (Field_Error e) | Inr r \<Rightarrow> Inr r)"

definition on_curve_eq :: "nat \<Rightarrow> nat \<Rightarrow> nat \<Rightarrow> nat \<Rightarrow> bool" where
  "on_curve_eq a b x y =
     (let lhs = gf2_add (gf2_sqr y) (gf2_mulmod x y);
          x_sq = gf2_sqr x;
          x_cb = gf2_mulmod x_sq x;
          rhs = gf2_add (gf2_add x_cb (gf2_mulmod a x_sq)) b
      in lhs = rhs)"

definition point_on_curve :: "point \<Rightarrow> nat \<Rightarrow> nat \<Rightarrow> ecc_error + bool" where
  "point_on_curve p a b =
     (if is_infinity p then Inr True
      else ebind (coords p) (\<lambda>(x, y). Inr (on_curve_eq a b x y)))"

definition GENERATOR :: point where
  "GENERATOR = affine GEN_X GEN_Y"

text \<open>The candidates \<open>1\<close> and \<open>0\<close> are tried in this order.\<close>

definition validate_curve_a :: "ecc_error + nat" where
  "validate_curve_a =
     ebind (point_on_curve GENERATOR 1 CURVE_B) (\<lambda>ok1. if ok1 then Inr 1
     else ebind (point_on_curve GENERATOR 0 CURVE_B) (\<lambda>ok0. if ok0 then Inr 0 else Inl Runtime_Error))"

definition CURVE_A :: nat where "CURVE_A = 1"

definition point_neg :: "point \<Rightarrow> ecc_error + point" where
  "point_neg p =
     (if is_infinity p then Inr p else ebind (coords p) (\<lambda>(x, y). Inr (affine x (gf2_add x y))))"

definition point_double :: "point \<Rightarrow> nat \<Rightarrow> ecc_error + point" where
  "point_double p a =
     (if is_infinity p \<or> px p = Some 0 then Inr INFINITY
      else ebind (coords p) (\<lambda>(x, y).
        ebind (inv_field x) (\<lambda>xi.
          let lam = gf2_add x (gf2_mulmod y xi);
              x3 = gf2_add (gf2_add (gf2_sqr lam) lam) a;
              y3 = gf2_add (gf2_add (gf2_sqr x) (gf2_mulmod lam x3)) x3
          in Inr (affine x3 y3))))"

definition point_add :: "point \<Rightarrow> point \<Rightarrow> nat \<Rightarrow> ecc_error + point" where
  "point_add p q a =
     (if is_infinity p then Inr q
      else if is_infinity q then Inr p
      else if px p = px q then (if py p = py q then point_double p a else Inr INFINITY)
      else ebind (coords p) (\<lambda>(x1, y1). ebind (coords q) (\<lambda>(x2, y2).
        let dx = gf2_add x1 x2;
            dy = gf2_add y1 y2
        in ebind (inv_field dx) (\<lambda>dxi.
          let lam = gf2_mulmod dy dxi;
              x3 = gf2_add (gf2_add (gf2_add (gf2_sqr lam) lam) dx) a;
              y3 = gf2_add (gf2_add (gf2_mulmod lam (gf2_add x1 x3)) x3) y1
          in Inr (affine x3 y3)))))"

text \<open>The loop both multiplications share, over the bits \<open>i - 1\<close> down to \<open>0\<close> of \<open>k\<close>.\<close>

fun double_and_add :: "nat \<Rightarrow> nat \<Rightarrow> point \<Rightarrow> nat \<Rightarrow> point \<Rightarrow> ecc_error + point" where
  "double_and_add k 0 p a result = Inr result"
| "double_and_add k (Suc i) p a result =
     ebind (point_double result a) (\<lambda>r.
     ebind (if drop_bit i k AND 1 \<noteq> 0 then point_add r p a else Inr r) (\<lambda>r.
     double_and_add k i p a r))"

definition scalar_mult :: "nat \<Rightarrow> point \<Rightarrow> nat \<Rightarrow> ecc_error + point" where
  "scalar_mult k p a =
     (if k = 0 \<or> is_infinity p then Inr INFINITY
      else let k = k mod CURVE_ORDER
           in if k = 0 then Inr INFINITY else double_and_add k (bit_len k) p a INFINITY)"

definition mul_no_reduce :: "nat \<Rightarrow> point \<Rightarrow> ecc_error + point" where
  "mul_no_reduce k p = double_and_add k (bit_len k) p CURVE_A INFINITY"

definition is_in_prime_subgroup :: "point \<Rightarrow> ecc_error + bool" where
  "is_in_prime_subgroup p = ebind (mul_no_reduce CURVE_ORDER p) (\<lambda>r. Inr (is_infinity r))"

section \<open>Keys\<close>

definition ecdh_pubkey_from_privkey :: "bytes \<Rightarrow> ecc_error + bytes" where
  "ecdh_pubkey_from_privkey priv_bytes =
     ebind (bytes_to_field priv_bytes) (\<lambda>priv.
     ebind (scalar_mult priv GENERATOR CURVE_A) (\<lambda>pub_point.
     if is_infinity pub_point then Inl (Value_Error ''Private key produced point at infinity'')
     else ebind (coords pub_point) (\<lambda>(x, y). pubkey_to_bytes x y)))"

definition ecdh_shared_secret :: "bytes \<Rightarrow> bytes \<Rightarrow> ecc_error + bytes" where
  "ecdh_shared_secret priv_bytes peer_pub_bytes =
     ebind (bytes_to_field priv_bytes) (\<lambda>priv.
     ebind (bytes_to_pubkey peer_pub_bytes) (\<lambda>(peer_x, peer_y).
     let peer = affine peer_x peer_y
     in if is_infinity peer then Inl (Value_Error ''Peer public key is the point at infinity'')
        else ebind (point_on_curve peer CURVE_A CURVE_B) (\<lambda>on_curve.
        if \<not> on_curve then Inl (Value_Error ''Peer public key is not on the curve'')
        else ebind (is_in_prime_subgroup peer) (\<lambda>in_subgroup.
        if \<not> in_subgroup then Inl (Value_Error ''Peer public key is not in the prime-order subgroup'')
        else ebind (scalar_mult priv peer CURVE_A) (\<lambda>shared.
        if is_infinity shared then Inl (Value_Error ''Shared secret is point at infinity'')
        else ebind (coords shared) (\<lambda>(x, y). field_to_bytes x))))))"

section \<open>Encodings\<close>

lemma field_to_bytes_eq: "field_to_bytes v = (if v < 256 ^ 24 then Inr (le_bytes 24 v) else Inl Overflow_Error)"
  by (simp add: field_to_bytes_def to_bytes_le_def KEY_BYTES_def)

lemma bytes_to_field_eq:
  "bytes_to_field bs = (if length bs = 24 then Inr (nat_of_le bs) else Inl (Value_Error ''Expected 24 bytes''))"
  by (simp add: bytes_to_field_def KEY_BYTES_def)

lemma bytes_to_pubkey_eq:
  "bytes_to_pubkey bs =
     (if length bs = 48 then Inr (nat_of_le (take 24 bs), nat_of_le (drop 24 bs))
      else Inl (Value_Error ''Expected 48 bytes''))"
  by (simp add: bytes_to_pubkey_def bytes_to_field_eq KEY_BYTES_def PUBKEY_BYTES_def pyslice_def)

text \<open>
  The wire form of a public key: whatever fits 24 bytes per coordinate is encoded to 48 bytes that
  decode to the same coordinates, and every 48-byte buffer decodes to coordinates that encode back
  to it; any other length is refused.
\<close>

theorem pubkey_codec:
  "(x < 256 ^ 24 \<and> y < 256 ^ 24 \<longrightarrow>
      (\<exists>bs. pubkey_to_bytes x y = Inr bs \<and> length bs = 48 \<and> bytes_to_pubkey bs = Inr (x, y))) \<and>
   (length data = 48 \<longrightarrow>
      (\<exists>u v. bytes_to_pubkey data = Inr (u, v) \<and> pubkey_to_bytes u v = Inr data)) \<and>
   (length data \<noteq> 48 \<longrightarrow> (\<exists>msg. bytes_to_pubkey data = Inl (Value_Error msg)))"
proof (intro conjI impI)
  assume "x < 256 ^ 24 \<and> y < 256 ^ 24"
  then show "\<exists>bs. pubkey_to_bytes x y = Inr bs \<and> length bs = 48 \<and> bytes_to_pubkey bs = Inr (x, y)"
    by (simp add: pubkey_to_bytes_def field_to_bytes_eq bytes_to_pubkey_eq nat_of_le_bytes)
next
  assume l: "length data = 48"
  have "nat_of_le (take 24 data) < 256 ^ 24" "nat_of_le (drop 24 data) < 256 ^ 24"
    using l nat_of_le_lt [of "take 24 data"] nat_of_le_lt [of "drop 24 data"] by simp_all
  moreover have "le_bytes 24 (nat_of_le (take 24 data)) = take 24 data"
    "le_bytes 24 (nat_of_le (drop 24 data)) = drop 24 data"
    using l by (simp_all add: le_bytes_inverse)
  ultimately show "\<exists>u v. bytes_to_pubkey data = Inr (u, v) \<and> pubkey_to_bytes u v = Inr data"
    using l by (simp add: pubkey_to_bytes_def field_to_bytes_eq bytes_to_pubkey_eq)
qed (simp add: bytes_to_pubkey_eq)

section \<open>The curve over the field\<close>

declare gf_char2_num [simp]

lemma gf_add_cancel [simp]: "x + (x + y) = (y :: gf163)"
  by (simp add: add.assoc [symmetric])

lemmas ring2 = distrib_left distrib_right power2_eq_square power3_eq_cube mult_ac add_ac

lemma add_curve:
  fixes x1 :: gf163
  assumes p: "y1^2 + x1*y1 = x1^3 + a*x1^2 + b" and q: "y2^2 + x2*y2 = x2^3 + a*x2^2 + b"
    and l: "lam * (x1 + x2) = y1 + y2" and d: "x1 \<noteq> x2"
    and x3: "x3 = lam^2 + lam + (x1+x2) + a" and y3: "y3 = lam * (x1 + x3) + x3 + y1"
  shows "y3^2 + x3*y3 = x3^3 + a*x3^2 + b"
proof -
  define line where "line X = lam * (X + x1) + y1" for X
  define F where "F X = line X ^ 2 + X * line X + X ^ 3 + a * X ^ 2 + b" for X
  define c1 where "c1 = lam * x1 + y1 + x1*x2 + x1*x3 + x2*x3"
  define c0 where "c0 = lam^2 * x1^2 + y1^2 + b + x1*x2*x3"
  have F: "F X = (X + x1) * (X + x2) * (X + x3) + (c1 * X + c0)" for X
    by (simp add: F_def line_def c1_def c0_def x3 ring2)
  have "line x1 = y1" by (simp add: line_def)
  then have "F x1 = 0" using p by (simp add: F_def add.assoc)
  have "line x2 = y2" using l by (simp add: line_def add_ac)
  then have "F x2 = 0" using q by (simp add: F_def add.assoc)
  have e1: "c1 * x1 + c0 = 0" using \<open>F x1 = 0\<close> by (simp add: F)
  have e2: "c1 * x2 + c0 = 0" using \<open>F x2 = 0\<close> by (simp add: F)
  have "c1 * (x1 + x2) = (c1 * x1 + c0) + (c1 * x2 + c0)" by (simp add: ring2)
  then have "c1 = 0" using d by (simp only: e1 e2) (simp add: gf_add_eq_0)
  then have "F x3 = 0" using e1 by (simp add: F)
  moreover have "y3 = line x3 + x3" by (simp add: y3 line_def ring2)
  then have "y3^2 + x3*y3 = line x3 ^ 2 + x3 * line x3" by (simp add: ring2)
  ultimately show ?thesis by (simp add: F_def add.assoc gf_add_eq_0)
qed

lemma dbl_curve:
  fixes x :: gf163
  assumes p: "y^2 + x*y = x^3 + a*x^2 + b" and l: "lam * x = x^2 + y" and "x \<noteq> 0"
    and x3: "x3 = lam^2 + lam + a" and y3: "y3 = x^2 + lam*x3 + x3"
  shows "y3^2 + x3*y3 = x3^3 + a*x3^2 + b"
proof -
  have y: "y = lam * x + x^2" using l by (simp add: add_ac)
  have b: "b = y^2 + x*y + x^3 + a*x^2" using p by (simp add: add_ac)
  show ?thesis by (simp add: b y y3 x3 ring2)
qed

section \<open>The point operations\<close>

text \<open>\<open>curve_point a b p\<close>: the point at infinity, or a point with reduced coordinates on the curve.\<close>

definition curve_point :: "nat \<Rightarrow> nat \<Rightarrow> point \<Rightarrow> bool" where
  "curve_point a b p \<longleftrightarrow> is_infinity p \<or>
     (\<exists>x y. p = affine x y \<and> is_field_elem x \<and> is_field_elem y \<and> on_curve_eq a b x y)"

lemma affine_simps [simp]:
  "px (affine x y) = Some x" "py (affine x y) = Some y" "\<not> is_infinity (affine x y)"
  "coords (affine x y) = Inr (x, y)" "is_infinity INFINITY" "affine x y \<noteq> INFINITY" "INFINITY \<noteq> affine x y"
  "px INFINITY = None"
  "affine x y = affine x' y' \<longleftrightarrow> x = x' \<and> y = y'"
  by (simp_all add: affine_def is_infinity_def coords_def INFINITY_def)

lemma is_infinity_eq: "is_infinity p \<longleftrightarrow> p = INFINITY"
  by (cases p) (auto simp: is_infinity_def INFINITY_def)

lemma curve_point_infinity [simp]: "curve_point a b INFINITY"
  by (simp add: curve_point_def)

lemma on_curve_el:
  assumes "is_field_elem a" "is_field_elem b" "is_field_elem x" "is_field_elem y"
  shows "on_curve_eq a b x y \<longleftrightarrow>
    el_of y ^ 2 + el_of x * el_of y = el_of x ^ 3 + el_of a * el_of x ^ 2 + el_of b"
proof -
  have "on_curve_eq a b x y \<longleftrightarrow>
    el_of (gf2_add (gf2_sqr y) (gf2_mulmod x y)) =
    el_of (gf2_add (gf2_add (gf2_mulmod (gf2_sqr x) x) (gf2_mulmod a (gf2_sqr x))) b)"
    using assms by (simp add: on_curve_eq_def Let_def el_inj)
  also have "\<dots> \<longleftrightarrow> el_of y ^ 2 + el_of x * el_of y = el_of x ^ 3 + el_of a * el_of x ^ 2 + el_of b"
    using assms by (simp add: el_simps power2_eq_square power3_eq_cube)
  finally show ?thesis .
qed

lemma curve_point_cases [consumes 1]:
  assumes "curve_point a b p"
  obtains "p = INFINITY" | x y where "p = affine x y" "is_field_elem x" "is_field_elem y" "on_curve_eq a b x y"
  using assms by (auto simp: curve_point_def is_infinity_eq)

lemma point_double_closed:
  assumes "is_field_elem a" "is_field_elem b" "curve_point a b p"
  shows "\<exists>r. point_double p a = Inr r \<and> curve_point a b r"
  using assms(3)
proof (cases rule: curve_point_cases)
  case (2 x y)
  show ?thesis
  proof (cases "x = 0")
    case False
    obtain xi where xi: "gf2_inv x = Inr xi" "is_field_elem xi" "el_of xi = inverse (el_of x)"
      using el_inv [OF 2(2) False] .
    define lam where "lam = gf2_add x (gf2_mulmod y xi)"
    define x3 where "x3 = gf2_add (gf2_add (gf2_sqr lam) lam) a"
    define y3 where "y3 = gf2_add (gf2_add (gf2_sqr x) (gf2_mulmod lam x3)) x3"
    have f: "is_field_elem lam" "is_field_elem x3" "is_field_elem y3"
      using assms 2 by (simp_all add: lam_def x3_def y3_def)
    have "el_of lam * el_of x = el_of x ^ 2 + el_of y"
      using 2 xi False by (simp add: lam_def el_simps ring2 divide_simps)
    moreover have "el_of x3 = el_of lam ^ 2 + el_of lam + el_of a"
      "el_of y3 = el_of x ^ 2 + el_of lam * el_of x3 + el_of x3"
      using assms 2 f by (simp_all add: x3_def y3_def el_simps)
    ultimately have "on_curve_eq a b x3 y3"
      using dbl_curve [of "el_of y" "el_of x" "el_of a" "el_of b" "el_of lam" "el_of x3" "el_of y3"]
        assms 2 f False by (simp add: on_curve_el el_eq_0)
    moreover have "point_double p a = Inr (affine x3 y3)"
      using 2 xi False by (simp add: point_double_def inv_field_def Let_def lam_def x3_def y3_def)
    ultimately show ?thesis using f by (auto simp: curve_point_def)
  qed (simp add: 2 point_double_def)
qed (simp add: point_double_def)

lemma point_add_closed:
  assumes "is_field_elem a" "is_field_elem b" "curve_point a b p" "curve_point a b q"
  shows "\<exists>r. point_add p q a = Inr r \<and> curve_point a b r"
  using assms(3)
proof (cases rule: curve_point_cases)
  case p: (2 x1 y1)
  show ?thesis
    using assms(4)
  proof (cases rule: curve_point_cases)
    case q: (2 x2 y2)
    show ?thesis
    proof (cases "x1 = x2")
      case True
      then show ?thesis using p q point_double_closed [OF assms(1-3)] by (auto simp: point_add_def)
    next
      case False
      define dx where "dx = gf2_add x1 x2"
      define dy where "dy = gf2_add y1 y2"
      have d: "is_field_elem dx" "dx \<noteq> 0" "is_field_elem dy" using False p q by (simp_all add: dx_def dy_def, simp add: gf2_add_def)
      obtain dxi where dxi: "gf2_inv dx = Inr dxi" "is_field_elem dxi" "el_of dxi = inverse (el_of dx)"
        using el_inv [OF d(1,2)] .
      define lam where "lam = gf2_mulmod dy dxi"
      define x3 where "x3 = gf2_add (gf2_add (gf2_add (gf2_sqr lam) lam) dx) a"
      define y3 where "y3 = gf2_add (gf2_add (gf2_mulmod lam (gf2_add x1 x3)) x3) y1"
      have f: "is_field_elem lam" "is_field_elem x3" "is_field_elem y3"
        using assms d p q by (simp_all add: lam_def x3_def y3_def)
      have ed: "el_of dx = el_of x1 + el_of x2" "el_of dy = el_of y1 + el_of y2" "el_of dx \<noteq> 0"
        using p q d(1,2) by (simp_all add: dx_def dy_def el_simps) (use el_eq_0 [OF d(1)] in \<open>simp add: dx_def el_simps\<close>)
      have "el_of lam = el_of dy * inverse (el_of dx)" using d dxi by (simp add: lam_def el_simps)
      then have "el_of lam * el_of dx = el_of dy" using ed(3) by (simp add: mult.assoc)
      then have "el_of lam * (el_of x1 + el_of x2) = el_of y1 + el_of y2" by (simp only: ed)
      moreover have "el_of x3 = el_of lam ^ 2 + el_of lam + (el_of x1 + el_of x2) + el_of a"
        "el_of y3 = el_of lam * (el_of x1 + el_of x3) + el_of x3 + el_of y1"
        using assms p q f d by (simp_all add: x3_def y3_def el_simps ed)
      ultimately have "on_curve_eq a b x3 y3"
        using add_curve [of "el_of y1" "el_of x1" "el_of a" "el_of b" "el_of y2" "el_of x2" "el_of lam" "el_of x3" "el_of y3"]
          assms p q f False by (simp add: on_curve_el el_inj)
      moreover have "point_add p q a = Inr (affine x3 y3)"
        using p q dxi False
        by (simp add: point_add_def inv_field_def Let_def lam_def x3_def y3_def dx_def [symmetric] dy_def [symmetric])
      ultimately show ?thesis using f by (auto simp: curve_point_def)
    qed
  qed (use assms in \<open>simp add: point_add_def\<close>)
qed (use assms in \<open>simp add: point_add_def\<close>)

lemma double_and_add_closed:
  assumes "is_field_elem a" "is_field_elem b" "curve_point a b p" "curve_point a b r0"
  shows "\<exists>r. double_and_add k i p a r0 = Inr r \<and> curve_point a b r"
  using assms(4)
proof (induction i arbitrary: r0)
  case (Suc i)
  from point_double_closed [OF assms(1,2) Suc.prems]
  obtain d where d: "point_double r0 a = Inr d" "curve_point a b d" by blast
  from point_add_closed [OF assms(1,2) d(2) assms(3)]
  obtain e where e: "point_add d p a = Inr e" "curve_point a b e" by blast
  show ?case using Suc.IH [of d] Suc.IH [of e] d e by simp
qed simp

text \<open>
  The point operations are total and closed on the curve: for any curve coefficients and any points
  with reduced coordinates on that curve, negation, doubling, addition and scalar multiplication
  return (no division by zero, no endless inversion), and what they return is a point with reduced
  coordinates on the same curve.
\<close>

theorem group_operations_total:
  assumes "a < 2 ^ 163" "b < 2 ^ 163" "curve_point a b p" "curve_point a b q"
  shows "\<exists>n d s m. point_neg p = Inr n \<and> curve_point a b n \<and> point_double p a = Inr d \<and> curve_point a b d \<and>
    point_add p q a = Inr s \<and> curve_point a b s \<and> scalar_mult k p a = Inr m \<and> curve_point a b m"
proof -
  have f: "is_field_elem a" "is_field_elem b" using assms by (simp_all add: is_field_elem_def)
  have "\<exists>n. point_neg p = Inr n \<and> curve_point a b n"
    using assms(3)
  proof (cases rule: curve_point_cases)
    case (2 x y)
    then have "on_curve_eq a b x (gf2_add x y)"
      using f by (simp add: on_curve_el el_simps ring2)
    with 2 show ?thesis by (auto simp: point_neg_def curve_point_def)
  qed (simp add: point_neg_def)
  moreover have "\<exists>m. scalar_mult k p a = Inr m \<and> curve_point a b m"
    using double_and_add_closed [OF f assms(3), of INFINITY "k mod CURVE_ORDER"]
    by (simp add: scalar_mult_def Let_def)
  ultimately show ?thesis
    using point_double_closed [OF f assms(3)] point_add_closed [OF f assms(3,4)] by blast
qed


lemma point_add_eval:
  assumes "is_field_elem x1" "is_field_elem x2" "x1 \<noteq> x2"
  obtains i where "gf2_inv (gf2_add x1 x2) = Inr i" "is_field_elem i"
    "el_of i = inverse (el_of x1 + el_of x2)"
proof -
  have "gf2_add x1 x2 \<noteq> 0" using assms(3) by (simp add: gf2_add_def)
  from el_inv [OF gf2_add_field [OF assms(1,2)] this] that show ?thesis
    using assms by (metis el_add)
qed

lemma point_add_commute:
  assumes f: "is_field_elem a" "is_field_elem b" and p: "curve_point a b p" and q: "curve_point a b q"
  shows "point_add p q a = point_add q p a"
  using p
proof (cases rule: curve_point_cases)
  case p: (2 x1 y1)
  show ?thesis
    using q
  proof (cases rule: curve_point_cases)
    case q: (2 x2 y2)
    show ?thesis
    proof (cases "x1 = x2")
      case True
      then show ?thesis using p q by (auto simp: point_add_def)
    next
      case False
      obtain i where i: "gf2_inv (gf2_add x1 x2) = Inr i" "is_field_elem i"
        "el_of i = inverse (el_of x1 + el_of x2)"
        using point_add_eval [OF p(2) q(2) False] .
      define lam where "lam = gf2_mulmod (gf2_add y1 y2) i"
      define x3 where "x3 = gf2_add (gf2_add (gf2_add (gf2_sqr lam) lam) (gf2_add x1 x2)) a"
      have c: "gf2_add x2 x1 = gf2_add x1 x2" "gf2_add y2 y1 = gf2_add y1 y2"
        by (simp_all add: gf2_add_def xor.commute)
      have fl: "is_field_elem lam" "is_field_elem x3" using p q i f by (simp_all add: lam_def x3_def)
      have "el_of x1 + el_of x2 \<noteq> 0" using False p q by (simp add: gf_add_eq_0 el_inj)
      then have "el_of lam * (el_of x1 + el_of x2) = el_of y1 + el_of y2"
        using p q i by (simp add: lam_def el_simps mult.assoc)
      moreover have "el_of lam * (el_of x1 + el_of x3) + el_of x3 + el_of y1 +
          (el_of lam * (el_of x2 + el_of x3) + el_of x3 + el_of y2) =
          el_of lam * (el_of x1 + el_of x2) + (el_of y1 + el_of y2)"
        by (simp add: ring2)
      ultimately have "el_of lam * (el_of x1 + el_of x3) + el_of x3 + el_of y1 =
          el_of lam * (el_of x2 + el_of x3) + el_of x3 + el_of y2"
        by (simp only: gf_char2 gf_add_eq_0)
      then have "gf2_add (gf2_add (gf2_mulmod lam (gf2_add x1 x3)) x3) y1 =
          gf2_add (gf2_add (gf2_mulmod lam (gf2_add x2 x3)) x3) y2"
        using p q fl by (subst el_inj [symmetric]) (simp_all add: el_simps)
      then show ?thesis using p q False i
        by (simp add: point_add_def Let_def c inv_field_def lam_def [symmetric] x3_def [symmetric])
    qed
  qed (use assms in \<open>simp add: point_add_def is_infinity_eq\<close>)
qed (simp add: point_add_def is_infinity_eq)

text \<open>
  Group laws of the addition on points with reduced coordinates on the curve: it is commutative, the
  point at infinity is neutral on both sides, and a point plus its negation is the point at infinity.
\<close>

theorem point_add_group_laws:
  assumes "a < 2 ^ 163" "b < 2 ^ 163" "curve_point a b p" "curve_point a b q"
  shows "point_add p q a = point_add q p a \<and> point_add p INFINITY a = Inr p \<and> point_add INFINITY p a = Inr p \<and>
    ebind (point_neg p) (\<lambda>n. point_add p n a) = Inr INFINITY"
proof -
  have f: "is_field_elem a" "is_field_elem b" using assms by (simp_all add: is_field_elem_def)
  note comm = point_add_commute [OF f assms(3,4)]
  have "ebind (point_neg p) (\<lambda>n. point_add p n a) = Inr INFINITY"
    using assms(3)
  proof (cases rule: curve_point_cases)
    case (2 x y)
    have "y = gf2_add x y \<longleftrightarrow> x = 0"
      unfolding gf2_add_def by (metis xor.left_neutral xor_nat_cancel(2))
    then show ?thesis by (simp add: 2 point_neg_def point_add_def point_double_def)
  qed (simp add: point_neg_def point_add_def)
  with comm show ?thesis by (simp add: point_add_def is_infinity_eq)
qed

section \<open>The generator\<close>

lemma clmul_numeral:
  "clmul a (numeral num.One) = a"
  "clmul a (numeral (num.Bit0 n)) = 2 * clmul a (numeral n)"
  "clmul a (numeral (num.Bit1 n)) = a XOR 2 * clmul a (numeral n)"
  by simp (subst numeral_num, rule clmul_double_right, subst numeral_num, rule clmul_odd_right)

lemma mulmod_fast:
  assumes "is_field_elem a" "is_field_elem b"
  shows "gf2_mulmod a b = sparse_red (sparse_red (clmul a b))"
proof (rule fcong_eq)
  have "fcong (sparse_red (sparse_red (clmul a b))) (clmul a b)"
    by (rule cong_trans [OF sparse_red_cong sparse_red_cong])
  then show "fcong (gf2_mulmod a b) (sparse_red (sparse_red (clmul a b)))"
    by (rule cong_trans [OF fcong_mulmod cong_sym])
  have "bit_len (clmul a b) \<le> 163 + 162"
    using assms by (cases "a = 0 \<or> b = 0") (auto simp: bit_len_clmul field_elem_bit_len bit_len_FIELD_POLY)
  from sparse_red_short [OF this] have "bit_len (sparse_red (clmul a b)) \<le> 163 + 6" by simp
  from sparse_red_short [OF this] show "is_field_elem (sparse_red (sparse_red (clmul a b)))"
    by (simp add: field_elem_bit_len bit_len_FIELD_POLY)
qed simp

lemma gen_product: "gf2_mulmod GEN_X GEN_Y = 0x7aa807ee42e09f030b45a041e46ddb8ee1a719b04"
  by (simp add: mulmod_fast is_field_elem_def GEN_X_def GEN_Y_def clmul_numeral sparse_red_def Let_def)

lemma gen_cube: "gf2_mulmod 0x306a6acf3dd8897a3d9e4a9f616eacd08a9d2564b GEN_X = 0x35fce5809c32c45287d04a281209ad367162c069"
  by (simp add: mulmod_fast is_field_elem_def GEN_X_def clmul_numeral sparse_red_def Let_def)

lemma gen_squares: "gf2_sqr GEN_X = 0x306a6acf3dd8897a3d9e4a9f616eacd08a9d2564b" "gf2_sqr GEN_Y = 0x693ba2e90d77af00bfeef0cd01311a0a488f308db"
  by (simp_all add: gf2_sqr_fast is_field_elem_def GEN_X_def GEN_Y_def spread_numeral sparse_red_def Let_def)


lemma generator_on_curve: "on_curve_eq 1 CURVE_B GEN_X GEN_Y"
proof -
  have "gf2_mulmod 1 (gf2_sqr GEN_X) = gf2_sqr GEN_X" by (rule mulmod_one) simp
  then show ?thesis
    by (simp add: on_curve_eq_def Let_def gen_squares gen_product gen_cube) (simp add: gf2_add_def CURVE_B_def)
qed

lemma generator_point: "curve_point CURVE_A CURVE_B GENERATOR"
  using generator_on_curve
  by (simp add: curve_point_def GENERATOR_def CURVE_A_def is_field_elem_def GEN_X_def GEN_Y_def)

lemma curve_coefficients: "is_field_elem CURVE_A" "is_field_elem CURVE_B"
  by (simp_all add: is_field_elem_def CURVE_A_def CURVE_B_def)

text \<open>
  The start-up probe of the curve coefficient succeeds on its first candidate: the captured generator
  satisfies the curve equation with \<open>a = 1\<close>, so \<open>CURVE_A\<close> keeps its tentative value, no RuntimeError
  is raised, and the generator has reduced coordinates.
\<close>

theorem curve_a_resolved:
  "validate_curve_a = Inr CURVE_A \<and> curve_point CURVE_A CURVE_B GENERATOR"
  using generator_on_curve generator_point
  by (simp add: validate_curve_a_def point_on_curve_def GENERATOR_def CURVE_A_def)

section \<open>Key agreement\<close>

lemma scalar_mult_closed:
  assumes "curve_point CURVE_A CURVE_B p"
  shows "\<exists>r. scalar_mult k p CURVE_A = Inr r \<and> curve_point CURVE_A CURVE_B r"
  using double_and_add_closed [OF curve_coefficients assms, of INFINITY "k mod CURVE_ORDER"]
  by (simp add: scalar_mult_def Let_def)

text \<open>
  Deriving a public key always ends, for any private key bytes: a buffer that is not 24 bytes is
  refused, a key that is a multiple of the group order is refused, and every other key gives 48
  bytes that decode to an affine point with reduced coordinates on the curve, or the explicit
  refusal for a multiple that is the point at infinity.
\<close>

theorem pubkey_from_privkey_outcomes:
  "(length priv \<noteq> 24 \<and> (\<exists>msg. ecdh_pubkey_from_privkey priv = Inl (Value_Error msg))) \<or>
   (length priv = 24 \<and>
     ((scalar_mult (nat_of_le priv) GENERATOR CURVE_A = Inr INFINITY \<and>
         ecdh_pubkey_from_privkey priv = Inl (Value_Error ''Private key produced point at infinity'')) \<or>
      (\<exists>x y pub. scalar_mult (nat_of_le priv) GENERATOR CURVE_A = Inr (affine x y) \<and>
         curve_point CURVE_A CURVE_B (affine x y) \<and> ecdh_pubkey_from_privkey priv = Inr pub \<and>
         length pub = 48 \<and> bytes_to_pubkey pub = Inr (x, y))))"
proof (cases "length priv = 24")
  case True
  obtain r where r: "scalar_mult (nat_of_le priv) GENERATOR CURVE_A = Inr r" "curve_point CURVE_A CURVE_B r"
    using scalar_mult_closed [OF generator_point] by blast
  from r(2) show ?thesis
  proof (cases rule: curve_point_cases)
    case 1
    then show ?thesis using True r by (simp add: ecdh_pubkey_from_privkey_def bytes_to_field_eq)
  next
    case (2 x y)
    then have "x < 256 ^ 24" "y < 256 ^ 24" by (simp_all add: is_field_elem_def)
    then show ?thesis using True r 2
      by (simp add: ecdh_pubkey_from_privkey_def bytes_to_field_eq pubkey_to_bytes_def field_to_bytes_eq
          bytes_to_pubkey_eq nat_of_le_bytes)
  qed
qed (simp add: ecdh_pubkey_from_privkey_def bytes_to_field_eq)

lemma shared_secret_unfold:
  assumes "length priv = 24" "bytes_to_pubkey peer = Inr (x, y)" "is_field_elem x" "is_field_elem y"
  shows "ecdh_shared_secret priv peer =
    (if \<not> on_curve_eq CURVE_A CURVE_B x y then Inl (Value_Error ''Peer public key is not on the curve'')
     else if mul_no_reduce CURVE_ORDER (affine x y) \<noteq> Inr INFINITY
     then Inl (Value_Error ''Peer public key is not in the prime-order subgroup'')
     else case scalar_mult (nat_of_le priv) (affine x y) CURVE_A of
       Inr r \<Rightarrow> (case px r of None \<Rightarrow> Inl (Value_Error ''Shared secret is point at infinity'')
                 | Some sx \<Rightarrow> Inr (le_bytes 24 sx)))"
proof (cases "on_curve_eq CURVE_A CURVE_B x y")
  case on: True
  then have p: "curve_point CURVE_A CURVE_B (affine x y)" using assms by (simp add: curve_point_def)
  obtain m where m: "mul_no_reduce CURVE_ORDER (affine x y) = Inr m"
    using double_and_add_closed [OF curve_coefficients p curve_point_infinity] unfolding mul_no_reduce_def by blast
  obtain r where r: "scalar_mult (nat_of_le priv) (affine x y) CURVE_A = Inr r" "curve_point CURVE_A CURVE_B r"
    using scalar_mult_closed [OF p] by blast
  from r(2) show ?thesis
  proof (cases rule: curve_point_cases)
    case 1
    then show ?thesis using assms on m r
      by (simp add: ecdh_shared_secret_def bytes_to_field_eq Let_def point_on_curve_def
          is_in_prime_subgroup_def is_infinity_eq)
  next
    case (2 u v)
    then have "u < 256 ^ 24" by (simp add: is_field_elem_def)
    then show ?thesis using assms on m r 2
      by (simp add: ecdh_shared_secret_def bytes_to_field_eq Let_def point_on_curve_def
          is_in_prime_subgroup_def is_infinity_eq field_to_bytes_eq)
  qed
qed (use assms in \<open>simp add: ecdh_shared_secret_def bytes_to_field_eq Let_def point_on_curve_def\<close>)

text \<open>
  C2 [shared_secret_validates_peer]
  Key agreement with a peer key whose coordinates are reduced always ends, and it produces a secret
  only for a peer point that passed all the checks: a returned secret is 24 bytes that hold the
  reduced x coordinate of the scalar multiple, and the peer point is on the curve and the group order
  times it is the point at infinity; in every other case one of the explicit refusals is raised, never
  a division by zero, an endless loop or an overflow.
\<close>

theorem shared_secret_validates_peer:
  assumes "length priv = 24" "bytes_to_pubkey peer = Inr (x, y)" "x < 2 ^ 163" "y < 2 ^ 163"
  shows "(\<exists>msg. ecdh_shared_secret priv peer = Inl (Value_Error msg)) \<or>
    (\<exists>secret u v. ecdh_shared_secret priv peer = Inr secret \<and> length secret = 24 \<and>
       on_curve_eq CURVE_A CURVE_B x y \<and> mul_no_reduce CURVE_ORDER (affine x y) = Inr INFINITY \<and>
       scalar_mult (nat_of_le priv) (affine x y) CURVE_A = Inr (affine u v) \<and>
       nat_of_le secret = u \<and> u < 2 ^ 163)"
proof -
  have f: "is_field_elem x" "is_field_elem y" using assms by (simp_all add: is_field_elem_def)
  show ?thesis
  proof (cases "on_curve_eq CURVE_A CURVE_B x y")
    case True
    then have "curve_point CURVE_A CURVE_B (affine x y)" using f by (simp add: curve_point_def)
    then obtain r where r: "scalar_mult (nat_of_le priv) (affine x y) CURVE_A = Inr r" "curve_point CURVE_A CURVE_B r"
      using scalar_mult_closed by blast
    have "r = INFINITY \<or> (\<exists>u v. r = affine u v \<and> u < 2 ^ 163)"
      using r(2) by (auto simp: curve_point_def is_infinity_eq is_field_elem_def)
    then show ?thesis using shared_secret_unfold [OF assms(1,2) f] r True
      by (auto simp: INFINITY_def nat_of_le_bytes)
  qed (simp add: shared_secret_unfold [OF assms(1,2) f])
qed

text \<open>
  A peer key whose coordinates are \<^emph>\<open>not\<close> reduced: its x coordinate is \<open>FIELD_POLY\<close>, the zero of the
  field, and its y coordinate the square root of \<open>CURVE_B\<close>. No check of the code looks at the range.
\<close>

definition SQRT_B :: nat where "SQRT_B = 0x2c25b85badf8927593d21c366da89c03969f34da5"

definition unreduced_peer_key :: bytes where
  "unreduced_peer_key = le_bytes 24 FIELD_POLY @ le_bytes 24 SQRT_B"

lemma sqrt_b: "gf2_sqr SQRT_B = CURVE_B"
  by (simp add: gf2_sqr_fast is_field_elem_def SQRT_B_def spread_numeral sparse_red_def Let_def CURVE_B_def)

lemma unreduced_key_decodes: "bytes_to_pubkey unreduced_peer_key = Inr (FIELD_POLY, SQRT_B)"
  by (simp add: bytes_to_pubkey_eq unreduced_peer_key_def nat_of_le_bytes FIELD_POLY_value SQRT_B_def
     )

lemma mulmod_FIELD_POLY: "gf2_mulmod FIELD_POLY y = 0" "gf2_mulmod y FIELD_POLY = 0"
  using cong_multiple [of FIELD_POLY y]
  by (simp_all add: gf2_mulmod_def gf2_mul_eq clmul_commute [of FIELD_POLY] gf2_mod_eqI)

lemma unreduced_key_on_curve: "on_curve_eq CURVE_A CURVE_B FIELD_POLY SQRT_B"
proof -
  have s: "gf2_sqr FIELD_POLY = 0" by (simp add: gf2_sqr_mulmod_aux mulmod_FIELD_POLY)
  have z: "gf2_mulmod 0 z = 0" "gf2_mulmod z 0 = 0" for z by (simp_all add: gf2_mulmod_def gf2_mul_eq gf2_mod_id)
  show ?thesis by (simp add: on_curve_eq_def Let_def s z sqrt_b mulmod_FIELD_POLY) (simp add: gf2_add_def)
qed

lemma inv_FIELD_POLY: "inv_field FIELD_POLY = Inl (Field_Error Diverges)"
proof -
  have "gf2_dvd FIELD_POLY FIELD_POLY" "FIELD_POLY \<noteq> 1" by (simp_all add: FIELD_POLY_value)
  then have "\<not> gf2_coprime FIELD_POLY FIELD_POLY" unfolding gf2_coprime_def by blast
  then show ?thesis by (simp add: inv_field_def gf2_inv_not_coprime)
qed

text \<open>
  A peer can make the key agreement hang: with \<open>unreduced_peer_key\<close> as the peer's public key the
  on-curve check passes, and the subgroup check then inverts \<open>FIELD_POLY\<close>, a loop that never ends,
  whatever the local private key.
\<close>

theorem shared_secret_unreduced_peer_hangs:
  assumes "length priv = 24"
  shows "ecdh_shared_secret priv unreduced_peer_key = Inl (Field_Error Diverges)"
proof -
  let ?p = "affine FIELD_POLY SQRT_B"
  have bl: "bit_len CURVE_ORDER = Suc (Suc 161)"
  proof (rule antisym)
    show "bit_len CURVE_ORDER \<le> Suc (Suc 161)" by (simp add: bit_len_le_iff CURVE_ORDER_def)
    have "162 < bit_len CURVE_ORDER" by (simp add: bit_len_less_iff CURVE_ORDER_def)
    then show "Suc (Suc 161) \<le> bit_len CURVE_ORDER" by simp
  qed
  have top: "drop_bit (Suc 161) CURVE_ORDER = 1" by (simp add: CURVE_ORDER_def)
  have dbl: "point_double ?p CURVE_A = Inl (Field_Error Diverges)"
    by (simp add: point_double_def inv_FIELD_POLY)
  have dbl_inf: "point_double INFINITY CURVE_A = Inr INFINITY" by (simp add: point_double_def)
  have add_inf: "point_add INFINITY ?p CURVE_A = Inr ?p" by (simp add: point_add_def)
  have "mul_no_reduce CURVE_ORDER ?p = Inl (Field_Error Diverges)"
    unfolding mul_no_reduce_def bl double_and_add.simps dbl_inf ebind_simps top by (simp add: add_inf dbl)
  then show ?thesis using assms
    by (simp add: ecdh_shared_secret_def bytes_to_field_eq unreduced_key_decodes Let_def point_on_curve_def
        unreduced_key_on_curve is_in_prime_subgroup_def)
qed

section \<open>Witnesses\<close>

theorem pubkey_codec_witness:
  "\<exists>bs. pubkey_to_bytes 5 7 = Inr bs \<and> length bs = 48 \<and> bytes_to_pubkey bs = Inr (5, 7)"
  using pubkey_codec [of 5 7 "[]"] by simp

theorem group_operations_total_witness:
  "\<exists>n d s m. point_neg GENERATOR = Inr n \<and> curve_point 1 CURVE_B n \<and>
     point_double GENERATOR 1 = Inr d \<and> curve_point 1 CURVE_B d \<and>
     point_add GENERATOR INFINITY 1 = Inr s \<and> curve_point 1 CURVE_B s \<and>
     scalar_mult 3 GENERATOR 1 = Inr m \<and> curve_point 1 CURVE_B m"
  by (rule group_operations_total) (use generator_point in \<open>simp_all add: CURVE_A_def, simp add: CURVE_B_def\<close>)

theorem point_add_group_laws_witness:
  "point_add GENERATOR INFINITY 1 = point_add INFINITY GENERATOR 1 \<and>
   point_add GENERATOR INFINITY 1 = Inr GENERATOR \<and> point_add INFINITY GENERATOR 1 = Inr GENERATOR \<and>
   ebind (point_neg GENERATOR) (\<lambda>n. point_add GENERATOR n 1) = Inr INFINITY"
  by (rule point_add_group_laws [of 1 CURVE_B])
     (use generator_point in \<open>simp_all add: CURVE_A_def, simp add: CURVE_B_def\<close>)

theorem pubkey_from_privkey_outcomes_witness:
  "\<exists>msg. ecdh_pubkey_from_privkey [1, 2] = Inl (Value_Error msg)"
  using pubkey_from_privkey_outcomes [of "[1, 2]"] by simp

definition generator_key :: bytes where
  "generator_key = le_bytes 24 GEN_X @ le_bytes 24 GEN_Y"

theorem shared_secret_validates_peer_witness:
  "(\<exists>msg. ecdh_shared_secret (le_bytes 24 2) generator_key = Inl (Value_Error msg)) \<or>
   (\<exists>secret u v. ecdh_shared_secret (le_bytes 24 2) generator_key = Inr secret \<and> length secret = 24 \<and>
      on_curve_eq CURVE_A CURVE_B GEN_X GEN_Y \<and> mul_no_reduce CURVE_ORDER (affine GEN_X GEN_Y) = Inr INFINITY \<and>
      scalar_mult (nat_of_le (le_bytes 24 2)) (affine GEN_X GEN_Y) CURVE_A = Inr (affine u v) \<and>
      nat_of_le secret = u \<and> u < 2 ^ 163)"
  by (rule shared_secret_validates_peer)
     (simp_all add: bytes_to_pubkey_eq generator_key_def nat_of_le_bytes GEN_X_def GEN_Y_def)

theorem shared_secret_unreduced_peer_hangs_witness:
  "ecdh_shared_secret (le_bytes 24 2) unreduced_peer_key = Inl (Field_Error Diverges)"
  by (rule shared_secret_unreduced_peer_hangs) simp

end
