(* ===== verification/Json.thy ===== *)
theory Json
  imports Prelude
begin

text \<open>
  Python values as JSON carries them, and what the code uses of the standard \<open>json\<close> module:
  \<open>json.dumps\<close> (compact and with an indent) and \<open>json.loads\<close>, with \<open>str.encode\<close> and
  \<open>bytes.decode\<close>. Strings are lists of characters with code points below 256; a text that would
  denote another character is the outcome \<open>Beyond\<close>, a text the module rejects \<open>Malformed\<close>. A float
  is represented by its literal.
\<close>

section \<open>Values\<close>

datatype json =
    JNull
  | JBool bool
  | JInt int
  | JFloat string
  | JStr string
  | JList "json list"
  | JObj "(string \<times> json) list"

definition jget :: "(string \<times> json) list \<Rightarrow> string \<Rightarrow> json \<Rightarrow> json" where
  "jget d k dflt = (case dget d k of None \<Rightarrow> dflt | Some v \<Rightarrow> v)"

text \<open>
  Truthiness, \<open>bool(v)\<close>. A float literal is false when every digit of its mantissa is zero.
\<close>

definition zero_literal :: "string \<Rightarrow> bool" where
  "zero_literal s = list_all (\<lambda>c. c \<notin> set ''123456789'') (takeWhile (\<lambda>c. c \<notin> set ''eEIN'') s @ filter (\<lambda>c. c \<in> set ''IN'') s)"

fun truthy :: "json \<Rightarrow> bool" where
  "truthy JNull = False"
| "truthy (JBool b) = b"
| "truthy (JInt i) = (i \<noteq> 0)"
| "truthy (JFloat s) = (\<not> zero_literal s)"
| "truthy (JStr s) = (s \<noteq> [])"
| "truthy (JList xs) = (xs \<noteq> [])"
| "truthy (JObj d) = (d \<noteq> [])"

section \<open>Numbers as text\<close>

definition digit_char :: "nat \<Rightarrow> char" where
  "digit_char d = char_of (48 + d)"

definition char_code :: "char \<Rightarrow> nat" where
  "char_code c = of_char c"

definition ascii_digit :: "char \<Rightarrow> bool" where
  "ascii_digit c = (48 \<le> char_code c \<and> char_code c \<le> 57)"

function nat_text :: "nat \<Rightarrow> string" where
  "nat_text n = (if n < 10 then [digit_char n] else nat_text (n div 10) @ [digit_char (n mod 10)])"
  by pat_completeness auto
termination by (relation "measure id") auto

declare nat_text.simps [simp del]

definition int_text :: "int \<Rightarrow> string" where
  "int_text i = (if i < 0 then CHR ''-'' # nat_text (nat (- i)) else nat_text (nat i))"

definition text_nat :: "string \<Rightarrow> nat" where
  "text_nat s = foldl (\<lambda>n c. 10 * n + (char_code c - 48)) 0 s"

definition text_int :: "string \<Rightarrow> int" where
  "text_int s = (case s of [] \<Rightarrow> 0
     | c # cs \<Rightarrow> if c = CHR ''-'' then - int (text_nat cs) else int (text_nat s))"

section \<open>Writing\<close>

definition hex_digit :: "nat \<Rightarrow> char" where
  "hex_digit d = ''0123456789abcdef'' ! d"

definition escape_char :: "char \<Rightarrow> string" where
  "escape_char c =
     (if c = CHR 0x22 then [CHR 0x5C, CHR 0x22]
      else if c = CHR 0x5C then [CHR 0x5C, CHR 0x5C]
      else if c = CHR 0x0A then [CHR 0x5C, CHR ''n'']
      else if c = CHR 0x0D then [CHR 0x5C, CHR ''r'']
      else if c = CHR 0x09 then [CHR 0x5C, CHR ''t'']
      else if c = CHR 0x0C then [CHR 0x5C, CHR ''f'']
      else if c = CHR 0x08 then [CHR 0x5C, CHR ''b'']
      else if 32 \<le> char_code c \<and> char_code c \<le> 126 then [c]
      else [CHR 0x5C, CHR ''u'', CHR ''0'', CHR ''0'', hex_digit (char_code c div 16), hex_digit (char_code c mod 16)])"

definition json_string :: "string \<Rightarrow> string" where
  "json_string s = CHR 0x22 # concat (map escape_char s) @ [CHR 0x22]"

text \<open>
  \<open>sep\<close> is what goes between the items of a container, \<open>open\<close> and \<open>close\<close> what goes after the opening
  and before the closing bracket of a non-empty one.
\<close>

datatype layout = Spaced | Indented nat | Compact

definition newline_indent :: "layout \<Rightarrow> nat \<Rightarrow> string" where
  "newline_indent ind level = (case ind of Indented k \<Rightarrow> CHR 0x0A # replicate (k * level) (CHR '' '') | _ \<Rightarrow> [])"

definition item_sep :: "layout \<Rightarrow> nat \<Rightarrow> string" where
  "item_sep ind level = (case ind of Spaced \<Rightarrow> '', '' | _ \<Rightarrow> CHR '','' # newline_indent ind level)"

definition key_sep :: "layout \<Rightarrow> string" where
  "key_sep ind = (case ind of Compact \<Rightarrow> '':'' | _ \<Rightarrow> '': '')"

fun join_str :: "string \<Rightarrow> string list \<Rightarrow> string" where
  "join_str s [] = []"
| "join_str s [x] = x"
| "join_str s (x # y # xs) = x @ s @ join_str s (y # xs)"

fun dumps_at :: "layout \<Rightarrow> nat \<Rightarrow> json \<Rightarrow> string" where
  "dumps_at ind l JNull = ''null''"
| "dumps_at ind l (JBool b) = (if b then ''true'' else ''false'')"
| "dumps_at ind l (JInt i) = int_text i"
| "dumps_at ind l (JFloat s) = s"
| "dumps_at ind l (JStr s) = json_string s"
| "dumps_at ind l (JList xs) =
     (if xs = [] then ''[]''
      else ''['' @ newline_indent ind (Suc l) @
        join_str (item_sep ind (Suc l)) (map (dumps_at ind (Suc l)) xs) @ newline_indent ind l @ '']'')"
| "dumps_at ind l (JObj d) =
     (if d = [] then ''{}''
      else ''{'' @ newline_indent ind (Suc l) @
        join_str (item_sep ind (Suc l)) (map (\<lambda>(k, v). json_string k @ key_sep ind @ dumps_at ind (Suc l) v) d) @
        newline_indent ind l @ ''}'')"

definition dumps :: "json \<Rightarrow> string" where
  "dumps v = dumps_at Spaced 0 v"

definition dumps_indent :: "nat \<Rightarrow> json \<Rightarrow> string" where
  "dumps_indent k v = dumps_at (Indented k) 0 v"

definition dumps_compact :: "json \<Rightarrow> string" where
  "dumps_compact v = dumps_at Compact 0 v"

section \<open>Reading\<close>

text \<open>
  The scanner consumes a prefix and hands back the rest. \<open>PFuel\<close> is the bound of the recursion;
  \<open>loads\<close> allows the length of the text, and every call consumes a character, so it is never reached.
\<close>

datatype 'a scan = POk 'a string | PBad | PBeyond | PFuel

definition pbind :: "'a scan \<Rightarrow> ('a \<Rightarrow> string \<Rightarrow> 'b scan) \<Rightarrow> 'b scan" where
  "pbind r f = (case r of POk x s \<Rightarrow> f x s | PBad \<Rightarrow> PBad | PBeyond \<Rightarrow> PBeyond | PFuel \<Rightarrow> PFuel)"

definition is_ws :: "char \<Rightarrow> bool" where
  "is_ws c = (c = CHR '' '' \<or> c = CHR 0x09 \<or> c = CHR 0x0A \<or> c = CHR 0x0D)"

definition skip_ws :: "string \<Rightarrow> string" where
  "skip_ws s = dropWhile is_ws s"

definition hex_val :: "char \<Rightarrow> nat option" where
  "hex_val c =
     (let n = char_code c
      in if 48 \<le> n \<and> n \<le> 57 then Some (n - 48)
         else if 97 \<le> n \<and> n \<le> 102 then Some (n - 87)
         else if 65 \<le> n \<and> n \<le> 70 then Some (n - 55)
         else None)"

definition hex4 :: "char \<Rightarrow> char \<Rightarrow> char \<Rightarrow> char \<Rightarrow> nat option" where
  "hex4 a b c d = (case (hex_val a, hex_val b, hex_val c, hex_val d) of
     (Some a, Some b, Some c, Some d) \<Rightarrow> Some (((a * 16 + b) * 16 + c) * 16 + d) | _ \<Rightarrow> None)"

definition simple_escape :: "char \<Rightarrow> char option" where
  "simple_escape c =
     (if c = CHR 0x22 \<or> c = CHR 0x5C \<or> c = CHR ''/'' then Some c
      else if c = CHR ''n'' then Some (CHR 0x0A)
      else if c = CHR ''r'' then Some (CHR 0x0D)
      else if c = CHR ''t'' then Some (CHR 0x09)
      else if c = CHR ''f'' then Some (CHR 0x0C)
      else if c = CHR ''b'' then Some (CHR 0x08)
      else None)"

definition pcons :: "char \<Rightarrow> string scan \<Rightarrow> string scan" where
  "pcons c r = pbind r (\<lambda>s rest. POk (c # s) rest)"

fun scan_string :: "string \<Rightarrow> string scan" where
  "scan_string [] = PBad"
| "scan_string (c # s) =
     (if c = CHR 0x22 then POk [] s
      else if c = CHR 0x5C then
        (case s of [] \<Rightarrow> PBad
         | e # s \<Rightarrow>
             if e = CHR ''u'' then
               (case s of a # b # c # d # s \<Rightarrow>
                  (case hex4 a b c d of None \<Rightarrow> PBad
                   | Some n \<Rightarrow> if n < 256 then pcons (char_of n) (scan_string s) else PBeyond)
                | _ \<Rightarrow> PBad)
             else (case simple_escape e of None \<Rightarrow> PBad | Some c \<Rightarrow> pcons c (scan_string s)))
      else if char_code c < 32 then PBad
      else pcons c (scan_string s))"

definition scan_int_part :: "string \<Rightarrow> (string \<times> string) option" where
  "scan_int_part s =
     (case s of [] \<Rightarrow> None
      | c # cs \<Rightarrow> if c = CHR ''0'' then Some ([c], cs)
                  else if ascii_digit c then Some (takeWhile ascii_digit s, dropWhile ascii_digit s)
                  else None)"

definition scan_frac :: "string \<Rightarrow> string \<times> string" where
  "scan_frac s =
     (case s of c # cs \<Rightarrow>
        if c = CHR ''.'' \<and> takeWhile ascii_digit cs \<noteq> []
        then (c # takeWhile ascii_digit cs, dropWhile ascii_digit cs) else ([], s)
      | [] \<Rightarrow> ([], s))"

definition scan_exp :: "string \<Rightarrow> string \<times> string" where
  "scan_exp s =
     (case s of c # cs \<Rightarrow>
        if c = CHR ''e'' \<or> c = CHR ''E'' then
          (let (sgn, ds) = (case cs of x # xs \<Rightarrow> if x = CHR ''+'' \<or> x = CHR ''-'' then ([x], xs) else ([], cs) | [] \<Rightarrow> ([], cs))
           in if takeWhile ascii_digit ds \<noteq> []
              then (c # sgn @ takeWhile ascii_digit ds, dropWhile ascii_digit ds) else ([], s))
        else ([], s)
      | [] \<Rightarrow> ([], s))"

definition scan_number :: "string \<Rightarrow> json scan" where
  "scan_number s =
     (let (sgn, s1) = (case s of c # cs \<Rightarrow> if c = CHR ''-'' then ([c], cs) else ([], s) | [] \<Rightarrow> ([], s))
      in case scan_int_part s1 of None \<Rightarrow> PBad
         | Some (ip, s2) \<Rightarrow>
             let (fr, s3) = scan_frac s2; (ex, s4) = scan_exp s3
             in if fr = [] \<and> ex = [] then POk (JInt (text_int (sgn @ ip))) s4
                else POk (JFloat (sgn @ ip @ fr @ ex)) s4)"

definition scan_keyword :: "string \<Rightarrow> json scan option" where
  "scan_keyword s =
     (if take 4 s = ''null'' then Some (POk JNull (drop 4 s))
      else if take 4 s = ''true'' then Some (POk (JBool True) (drop 4 s))
      else if take 5 s = ''false'' then Some (POk (JBool False) (drop 5 s))
      else if take 3 s = ''NaN'' then Some (POk (JFloat ''NaN'') (drop 3 s))
      else if take 8 s = ''Infinity'' then Some (POk (JFloat ''Infinity'') (drop 8 s))
      else if take 9 s = ''-Infinity'' then Some (POk (JFloat ''-Infinity'') (drop 9 s))
      else None)"

fun scan_value :: "nat \<Rightarrow> string \<Rightarrow> json scan"
  and scan_items :: "nat \<Rightarrow> string \<Rightarrow> json list scan"
  and scan_members :: "nat \<Rightarrow> string \<Rightarrow> (string \<times> json) list scan" where
  "scan_value 0 s = PFuel"
| "scan_value (Suc n) s =
     (case s of [] \<Rightarrow> PBad
      | c # cs \<Rightarrow>
          if c = CHR 0x22 then pbind (scan_string cs) (\<lambda>t rest. POk (JStr t) rest)
          else if c = CHR ''{'' then
            (case skip_ws cs of [] \<Rightarrow> PBad
             | d # ds \<Rightarrow> if d = CHR ''}'' then POk (JObj []) ds
                         else pbind (scan_members n (d # ds)) (\<lambda>m rest. POk (JObj (foldl (\<lambda>d (k, v). dset k v d) [] m)) rest))
          else if c = CHR ''['' then
            (case skip_ws cs of [] \<Rightarrow> PBad
             | d # ds \<Rightarrow> if d = CHR '']'' then POk (JList []) ds
                         else pbind (scan_items n (d # ds)) (\<lambda>xs rest. POk (JList xs) rest))
          else (case scan_keyword s of Some r \<Rightarrow> r | None \<Rightarrow> scan_number s))"
| "scan_items 0 s = PFuel"
| "scan_items (Suc n) s =
     pbind (scan_value n s) (\<lambda>v rest.
       case skip_ws rest of [] \<Rightarrow> PBad
       | c # cs \<Rightarrow> if c = CHR '']'' then POk [v] cs
                   else if c = CHR '','' then pbind (scan_items n (skip_ws cs)) (\<lambda>vs rest. POk (v # vs) rest)
                   else PBad)"
| "scan_members 0 s = PFuel"
| "scan_members (Suc n) s =
     (case s of [] \<Rightarrow> PBad
      | q # qs \<Rightarrow>
          if q \<noteq> CHR 0x22 then PBad
          else pbind (scan_string qs) (\<lambda>k rest.
            case skip_ws rest of [] \<Rightarrow> PBad
            | c # cs \<Rightarrow>
                if c \<noteq> CHR '':'' then PBad
                else pbind (scan_value n (skip_ws cs)) (\<lambda>v rest.
                  case skip_ws rest of [] \<Rightarrow> PBad
                  | c # cs \<Rightarrow> if c = CHR ''}'' then POk [(k, v)] cs
                              else if c = CHR '','' then
                                pbind (scan_members n (skip_ws cs)) (\<lambda>ms rest. POk ((k, v) # ms) rest)
                              else PBad)))"

datatype json_error = Malformed | Beyond

definition loads :: "string \<Rightarrow> json_error + json" where
  "loads s =
     (case scan_value (2 * length s + 2) (skip_ws s) of
        POk v rest \<Rightarrow> (if skip_ws rest = [] then Inr v else Inl Malformed)
      | PBad \<Rightarrow> Inl Malformed
      | PBeyond \<Rightarrow> Inl Beyond
      | PFuel \<Rightarrow> Inl Malformed)"

section \<open>Text as bytes\<close>

text \<open>
  UTF-8. A character of the model has one byte below 128 and two from there on. Reading, a valid
  sequence for a character beyond the model's range is \<open>Beyond\<close>; here every lead byte of a longer
  sequence is taken for one, so an invalid continuation of it is \<open>Beyond\<close> too, not \<open>Malformed\<close>.
\<close>

definition utf8_char :: "char \<Rightarrow> bytes" where
  "utf8_char c =
     (let n = char_code c
      in if n < 128 then [word_of_nat n] else [word_of_nat (192 + n div 64), word_of_nat (128 + n mod 64)])"

definition utf8_encode :: "string \<Rightarrow> bytes" where
  "utf8_encode s = concat (map utf8_char s)"

fun utf8_decode :: "bytes \<Rightarrow> json_error + string" where
  "utf8_decode [] = Inr []"
| "utf8_decode (b # bs) =
     (let n = unat b
      in if n < 128 then (case utf8_decode bs of Inl e \<Rightarrow> Inl e | Inr s \<Rightarrow> Inr (char_of n # s))
         else if n = 194 \<or> n = 195 then
           (case bs of [] \<Rightarrow> Inl Malformed
            | c # cs \<Rightarrow>
                if 128 \<le> unat c \<and> unat c < 192
                then (case utf8_decode cs of Inl e \<Rightarrow> Inl e | Inr s \<Rightarrow> Inr (char_of ((n - 192) * 64 + (unat c - 128)) # s))
                else Inl Malformed)
         else if 196 \<le> n \<and> n < 245 then Inl Beyond
         else Inl Malformed)"


section \<open>Reading back what was written\<close>

lemma pbind_POk [simp]: "pbind (POk x s) f = f x s"
  by (simp add: pbind_def)

lemma hex_val_digit: "d < 16 \<Longrightarrow> hex_val (hex_digit d) = Some d"
proof -
  assume "d < 16"
  then have "d \<in> set [0..<16]" by simp
  moreover have "list_all (\<lambda>d. hex_val (hex_digit d) = Some d) [0..<16]" by code_simp
  ultimately show ?thesis by (simp add: list_all_iff)
qed

lemma char_code_lt [simp]: "char_code c < 256"
  by (simp add: char_code_def)

lemma char_of_code [simp]: "char_of (char_code c) = c"
  by (simp add: char_code_def)

lemma scan_escape: "scan_string (escape_char c @ t) = pcons c (scan_string t)"
proof -
  have d: "char_code c div 16 < 16" using char_code_lt [of c] by linarith
  have "hex4 (CHR ''0'') (CHR ''0'') (hex_digit (char_code c div 16)) (hex_digit (char_code c mod 16)) = Some (char_code c)"
    unfolding hex4_def by (simp only: hex_val_digit [OF d] hex_val_digit [of "char_code c mod 16", simplified])
      (simp add: hex_val_def char_code_def)
  then show ?thesis
    by (simp add: escape_char_def simple_escape_def)
qed

lemma scan_json_string: "scan_string (concat (map escape_char s) @ CHR 0x22 # rest) = POk s rest"
  by (induction s) (simp_all add: scan_escape pcons_def)

lemma ascii_digit_char: "d < 10 \<Longrightarrow> ascii_digit (digit_char d) \<and> char_code (digit_char d) = 48 + d"
  by (simp add: ascii_digit_def digit_char_def char_code_def)

lemma nat_text_digits: "list_all ascii_digit (nat_text n)"
  by (induction n rule: nat_text.induct) (subst nat_text.simps, simp add: ascii_digit_char)

lemma nat_text_nonempty [simp]: "nat_text n \<noteq> []"
  by (subst nat_text.simps) simp

lemma nat_text_head: "0 < n \<Longrightarrow> hd (nat_text n) \<noteq> CHR ''0''"
proof (induction n rule: nat_text.induct)
  case (1 n)
  show ?case
  proof (cases "n < 10")
    case True
    then have "char_code (digit_char n) = 48 + n" by (simp add: ascii_digit_char)
    then have "digit_char n \<noteq> CHR ''0''" using "1.prems" by (auto simp: char_code_def)
    then show ?thesis using True by (subst nat_text.simps) simp
  next
    case False
    then have "hd (nat_text (n div 10)) \<noteq> CHR ''0''" using 1 by simp
    then show ?thesis using False by (subst nat_text.simps) simp
  qed
qed

lemma text_nat_snoc: "text_nat (s @ [c]) = 10 * text_nat s + (char_code c - 48)"
  by (simp add: text_nat_def)

lemma text_nat_nat_text: "text_nat (nat_text n) = n"
proof (induction n rule: nat_text.induct)
  case (1 n)
  then show ?case
    by (subst nat_text.simps) (simp add: text_nat_snoc ascii_digit_char, simp add: text_nat_def ascii_digit_char)
qed

lemma text_int_int_text: "text_int (int_text i) = i"
proof (cases "i < 0")
  case False
  obtain c cs where t: "nat_text (nat i) = c # cs" by (cases "nat_text (nat i)") simp_all
  then have "ascii_digit c" using nat_text_digits [of "nat i"] by simp
  then have "c \<noteq> CHR ''-''" by (auto simp: ascii_digit_def char_code_def)
  then show ?thesis using False t text_nat_nat_text [of "nat i"] by (simp add: int_text_def text_int_def)
qed (simp add: int_text_def text_int_def text_nat_nat_text)

text \<open>What may follow a value: the end, a separator, a closing bracket or white space.\<close>

definition delim :: "string \<Rightarrow> bool" where
  "delim rest = (case rest of [] \<Rightarrow> True
     | c # cs \<Rightarrow> c = CHR '','' \<or> c = CHR '']'' \<or> c = CHR ''}'' \<or> is_ws c)"

lemma delim_simps [simp]:
  "delim []" "delim (CHR '','' # s)" "delim (CHR '']'' # s)" "delim (CHR ''}'' # s)"
  "is_ws c \<Longrightarrow> delim (c # s)"
  by (simp_all add: delim_def)

lemma delim_no_digit: "delim (c # s) \<Longrightarrow> \<not> ascii_digit c"
  by (auto simp: delim_def is_ws_def ascii_digit_def char_code_def)

lemma digits_append: "delim rest \<Longrightarrow>
    takeWhile ascii_digit (xs @ rest) = takeWhile ascii_digit xs \<and>
    dropWhile ascii_digit (xs @ rest) = dropWhile ascii_digit xs @ rest"
  by (induction xs) (cases rest, auto dest: delim_no_digit)

lemma take_digits: "list_all ascii_digit ds \<Longrightarrow> delim rest \<Longrightarrow>
    takeWhile ascii_digit (ds @ rest) = ds \<and> dropWhile ascii_digit (ds @ rest) = rest"
  using digits_append [of rest "[]"] by (simp add: list_all_iff)

lemma delim_no_tail:
  assumes "delim rest"
  shows "scan_frac rest = ([], rest)" "scan_exp rest = ([], rest)"
  using assms by (auto simp: scan_frac_def scan_exp_def delim_def is_ws_def split: list.splits)

lemma scan_int_part_append:
  "scan_int_part s = Some (ip, r) \<Longrightarrow> delim rest \<Longrightarrow> scan_int_part (s @ rest) = Some (ip, r @ rest)"
  using digits_append [of rest s] by (auto simp: scan_int_part_def split: list.splits if_splits)

lemma scan_frac_append:
  "scan_frac s = (f, r) \<Longrightarrow> delim rest \<Longrightarrow> scan_frac (s @ rest) = (f, r @ rest)"
  using delim_no_tail(1) [of rest] digits_append [of rest "tl s"]
  by (cases s) (auto simp: scan_frac_def split: if_splits)

lemma scan_exp_append:
  assumes "scan_exp s = (x, r)" "delim rest"
  shows "scan_exp (s @ rest) = (x, r @ rest)"
proof (cases s)
  case Nil
  then show ?thesis using assms delim_no_tail(2) [of rest] by (simp add: scan_exp_def)
next
  case (Cons c cs)
  have nd: "takeWhile ascii_digit rest = []" using digits_append [OF assms(2), of "[]"] by simp
  show ?thesis
  proof (cases cs)
    case Nil
    have "(case rest of [] \<Rightarrow> ([], rest) | x # xs \<Rightarrow> if x = CHR ''+'' \<or> x = CHR ''-'' then ([x], xs) else ([], rest)) = ([], rest)"
      using assms(2) by (auto simp: delim_def is_ws_def split: list.splits)
    then show ?thesis using assms(1) Cons Nil nd
      by (auto simp: scan_exp_def split: if_splits)
  next
    case (Cons d ds)
    then show ?thesis using assms \<open>s = c # cs\<close> digits_append [OF assms(2), of ds] digits_append [OF assms(2), of cs]
      by (auto simp: scan_exp_def Let_def split: if_splits)
  qed
qed

lemma scan_number_append:
  assumes "scan_number s = POk v r" "delim rest"
  shows "scan_number (s @ rest) = POk v (r @ rest)"
proof -
  obtain sgn s1 where s1: "(case s of c # cs \<Rightarrow> if c = CHR ''-'' then ([c], cs) else ([], s) | [] \<Rightarrow> ([], s)) = (sgn, s1)"
    by (cases "case s of c # cs \<Rightarrow> if c = CHR ''-'' then ([c], cs) else ([], s) | [] \<Rightarrow> ([], s)")
  obtain ip s2 where s2: "scan_int_part s1 = Some (ip, s2)"
    using assms(1) s1 by (cases "scan_int_part s1") (auto simp: scan_number_def)
  then have "s \<noteq> []" using s1 by (auto simp: scan_int_part_def)
  then have s1': "(case s @ rest of c # cs \<Rightarrow> if c = CHR ''-'' then ([c], cs) else ([], s @ rest) | [] \<Rightarrow> ([], s @ rest)) = (sgn, s1 @ rest)"
    using s1 by (cases s) (auto split: if_splits)
  obtain fr s3 where s3: "scan_frac s2 = (fr, s3)" by (cases "scan_frac s2")
  obtain ex s4 where s4: "scan_exp s3 = (ex, s4)" by (cases "scan_exp s3")
  show ?thesis
    using assms(1) s1 s2 s3 s4 s1' scan_int_part_append [OF s2 assms(2)] scan_frac_append [OF s3 assms(2)]
      scan_exp_append [OF s4 assms(2)]
    by (auto simp: scan_number_def split: if_splits)
qed

lemma scan_int_part_text: "delim rest \<Longrightarrow> scan_int_part (nat_text n @ rest) = Some (nat_text n, rest)"
proof (cases "n = 0")
  case True
  have "nat_text 0 = ''0''" by code_simp
  then show ?thesis by (simp add: True scan_int_part_def)
next
  case False
  assume "delim rest"
  note t = take_digits [OF nat_text_digits [of n] this]
  obtain c cs where c: "nat_text n = c # cs" by (cases "nat_text n") simp_all
  have "ascii_digit c" "c \<noteq> CHR ''0''" using nat_text_digits [of n] nat_text_head [of n] False c by simp_all
  with t c show ?thesis by (simp add: scan_int_part_def)
qed

lemma scan_number_text: "delim rest \<Longrightarrow> scan_number (int_text i @ rest) = POk (JInt i) rest"
proof -
  assume d: "delim rest"
  note e = delim_no_tail [OF d]
  show ?thesis
  proof (cases "i < 0")
    case True
    then show ?thesis
      using scan_int_part_text [OF d, of "nat (- i)"] e text_int_int_text [of i]
      by (simp add: scan_number_def int_text_def)
  next
    case False
    obtain c cs where t: "nat_text (nat i) = c # cs" by (cases "nat_text (nat i)") simp_all
    then have "ascii_digit c" using nat_text_digits [of "nat i"] by simp
    then have "c \<noteq> CHR ''-''" by (auto simp: ascii_digit_def char_code_def)
    then show ?thesis
      using False t scan_int_part_text [OF d, of "nat i"] e text_int_int_text [of i]
      by (simp add: scan_number_def int_text_def)
  qed
qed

text \<open>Literals of floats: what the scanner itself reads back as one.\<close>

definition float_literal :: "string \<Rightarrow> bool" where
  "float_literal s = (s \<in> {''NaN'', ''Infinity'', ''-Infinity''} \<or> scan_number s = POk (JFloat s) [])"


lemma scan_number_head: "scan_number (c # cs) = POk v r \<Longrightarrow> c = CHR ''-'' \<or> ascii_digit c"
  by (auto simp: scan_number_def scan_int_part_def ascii_digit_def char_code_def split: if_splits)

fun wf_json :: "json \<Rightarrow> bool" where
  "wf_json (JFloat s) = float_literal s"
| "wf_json (JList xs) = (\<forall>x \<in> set xs. wf_json x)"
| "wf_json (JObj d) = (dict_ok d \<and> (\<forall>p \<in> set d. wf_json (snd p)))"
| "wf_json v = True"

fun scan_fuel :: "json \<Rightarrow> nat" where
  "scan_fuel (JList xs) = Suc (foldr (\<lambda>x n. Suc (max (scan_fuel x) n)) xs 0)"
| "scan_fuel (JObj d) = Suc (foldr (\<lambda>p n. Suc (max (scan_fuel (snd p)) n)) d 0)"
| "scan_fuel v = 1"

definition value_head :: "char \<Rightarrow> bool" where
  "value_head c = (\<not> is_ws c \<and> c \<noteq> CHR '']'' \<and> c \<noteq> CHR ''}'')"

lemma digit_head: "c = CHR ''-'' \<or> ascii_digit c \<Longrightarrow>
    value_head c \<and> c \<noteq> CHR 0x22 \<and> c \<noteq> CHR ''{'' \<and> c \<noteq> CHR ''['' \<and>
    c \<noteq> CHR ''n'' \<and> c \<noteq> CHR ''t'' \<and> c \<noteq> CHR ''f'' \<and> c \<noteq> CHR ''N'' \<and> c \<noteq> CHR ''I''"
  by (auto simp: value_head_def is_ws_def ascii_digit_def char_code_def)

lemma number_text:
  assumes "delim rest" "scan_number s = POk v []"
  shows "scan_value (Suc n) (s @ rest) = POk v rest"
proof -
  obtain c cs where s: "s = c # cs" using assms(2) by (cases s) (auto simp: scan_number_def scan_int_part_def)
  have c: "c = CHR ''-'' \<or> ascii_digit c" using assms(2) s scan_number_head by blast
  have "take 9 (s @ rest) \<noteq> ''-Infinity''"
  proof
    assume "take 9 (s @ rest) = ''-Infinity''"
    then have m: "c = CHR ''-''" and "take 8 (cs @ rest) = ''Infinity''" using s by simp_all
    then obtain d ds where d: "cs = [] \<or> (cs = d # ds \<and> d = CHR ''I'')" by (cases cs) auto
    have "scan_int_part cs \<noteq> None" using assms(2) s m by (auto simp: scan_number_def split: option.splits)
    then show False using d by (auto simp: scan_int_part_def ascii_digit_def char_code_def split: list.splits)
  qed
  then have "scan_keyword (s @ rest) = None"
    using digit_head [OF c] s by (auto simp: scan_keyword_def)
  moreover have "scan_number (s @ rest) = POk v rest" using scan_number_append [OF assms(2,1)] by simp
  ultimately show ?thesis using digit_head [OF c] s by simp
qed

lemma int_text_scan: "scan_number (int_text i) = POk (JInt i) []"
  using scan_number_text [of "[]" i] by simp

lemma float_literal_text:
  assumes "delim rest" "float_literal s"
  shows "scan_value (Suc n) (s @ rest) = POk (JFloat s) rest"
  using assms number_text [OF assms(1)] by (auto simp: float_literal_def scan_keyword_def)

lemma dumps_head:
  assumes "wf_json v"
  shows "\<exists>c cs. dumps_at ind l v = c # cs \<and> value_head c"
proof (cases v)
  case (JInt i)
  obtain c cs where c: "int_text i = c # cs" by (cases "int_text i") (auto simp: int_text_def split: if_splits)
  then have "c = CHR ''-'' \<or> ascii_digit c" using int_text_scan [of i] scan_number_head by simp
  then show ?thesis using JInt c digit_head by simp
next
  case (JFloat s)
  then have "s \<in> {''NaN'', ''Infinity'', ''-Infinity''} \<or> scan_number s = POk (JFloat s) []"
    using assms by (simp add: float_literal_def)
  then show ?thesis
  proof
    assume n: "scan_number s = POk (JFloat s) []"
    obtain c cs where s: "s = c # cs" using n by (cases s) (auto simp: scan_number_def scan_int_part_def)
    then show ?thesis using JFloat n scan_number_head [of c cs] digit_head [of c] by simp
  qed (use JFloat in \<open>auto simp: value_head_def is_ws_def\<close>)
qed (auto simp: value_head_def is_ws_def json_string_def)

lemma skip_ws_append: "list_all is_ws w \<Longrightarrow> skip_ws (w @ s) = skip_ws s"
  by (induction w) (auto simp: skip_ws_def)

lemma skip_ws_head: "value_head c \<Longrightarrow> skip_ws (c # s) = c # s"
  by (simp add: skip_ws_def value_head_def)

lemma newline_ws: "list_all is_ws (newline_indent ind l)"
  by (auto simp: newline_indent_def is_ws_def list_all_iff split: layout.splits)

lemma item_sep_ws: "\<exists>w. item_sep ind l = CHR '','' # w \<and> list_all is_ws w"
  using newline_ws [of ind l] by (auto simp: item_sep_def is_ws_def split: layout.splits)

lemma delim_newline: "delim (c # s) \<Longrightarrow> delim (newline_indent ind l @ c # s)"
  by (simp add: newline_indent_def is_ws_def split: layout.splits)

lemma key_sep_ws: "\<exists>w. key_sep ind = CHR '':'' # w \<and> list_all is_ws w"
  by (auto simp: key_sep_def is_ws_def split: layout.splits)

lemma skip_ws_bracket [simp]: "skip_ws (CHR '']'' # s) = CHR '']'' # s" "skip_ws (CHR ''}'' # s) = CHR ''}'' # s"
  "skip_ws (CHR '','' # s) = CHR '','' # s"
  by (simp_all add: skip_ws_def is_ws_def)

lemma scan_items_text:
  assumes "\<And>x n rest. x \<in> set xs \<Longrightarrow> scan_fuel x \<le> n \<Longrightarrow> delim rest \<Longrightarrow> scan_value n (pr x @ rest) = POk x rest"
    and "\<And>x. x \<in> set xs \<Longrightarrow> \<exists>c cs. pr x = c # cs \<and> value_head c"
    and "sep = CHR '','' # w" "list_all is_ws w" "list_all is_ws nl" "delim (nl @ CHR '']'' # rest)"
    and "xs \<noteq> []" "foldr (\<lambda>x n. Suc (max (scan_fuel x) n)) xs 0 \<le> n"
  shows "scan_items n (join_str sep (map pr xs) @ nl @ CHR '']'' # rest) = POk xs rest"
  using assms(1,2,7,8)
proof (induction xs arbitrary: n)
  case (Cons x xs)
  then obtain m where n: "n = Suc m" "scan_fuel x \<le> m" "foldr (\<lambda>x n. Suc (max (scan_fuel x) n)) xs 0 \<le> m"
    by (cases n) auto
  show ?case
  proof (cases xs)
    case Nil
    have "scan_value m (pr x @ nl @ CHR '']'' # rest) = POk x (nl @ CHR '']'' # rest)"
      using Cons.prems(1) n assms(6) by simp
    then show ?thesis using Nil n by (simp add: skip_ws_append [OF assms(5)])
  next
    case (Cons y ys)
    let ?t = "join_str sep (map pr xs) @ nl @ CHR '']'' # rest"
    obtain c cs where c: "pr y = c # cs" "value_head c" using Cons.prems(2) [of y] Cons by auto
    then have "skip_ws (w @ ?t) = ?t"
      using Cons by (cases ys) (simp_all add: skip_ws_append [OF assms(4)] skip_ws_head)
    moreover have "scan_items m ?t = POk xs rest"
      using Cons.IH [of m] Cons.prems(1,2) n Cons by (metis list.discI list.set_intros(2))
    moreover have "scan_value m (pr x @ CHR '','' # w @ ?t) = POk x (CHR '','' # w @ ?t)"
      using Cons.prems(1) n by simp
    ultimately show ?thesis using Cons n by (simp add: assms(3))
  qed
qed simp

lemma members_head:
  "d \<noteq> [] \<Longrightarrow> \<exists>cs. join_str sep (map (\<lambda>(k, v). json_string k @ ks @ pr v) d) @ z = CHR 0x22 # cs"
  by (cases d; cases "tl d") (auto simp: json_string_def split: prod.splits)

lemma skip_ws_quote: "skip_ws (CHR 0x22 # s) = CHR 0x22 # s"
  by (simp add: skip_ws_def is_ws_def)

lemma scan_members_text:
  assumes "\<And>p n rest. p \<in> set d \<Longrightarrow> scan_fuel (snd p) \<le> n \<Longrightarrow> delim rest \<Longrightarrow> scan_value n (pr (snd p) @ rest) = POk (snd p) rest"
    and "\<And>p. p \<in> set d \<Longrightarrow> \<exists>c cs. pr (snd p) = c # cs \<and> value_head c"
    and "sep = CHR '','' # w" "list_all is_ws w" "ks = CHR '':'' # u" "list_all is_ws u"
    and "list_all is_ws nl" "delim (nl @ CHR ''}'' # rest)"
    and "d \<noteq> []" "foldr (\<lambda>p n. Suc (max (scan_fuel (snd p)) n)) d 0 \<le> n"
  shows "scan_members n (join_str sep (map (\<lambda>(k, v). json_string k @ ks @ pr v) d) @ nl @ CHR ''}'' # rest) = POk d rest"
  using assms(1,2,9,10)
proof (induction d arbitrary: n)
  case (Cons p d)
  obtain k v where p: "p = (k, v)" by (cases p)
  from Cons obtain m where n: "n = Suc m" "scan_fuel v \<le> m" "foldr (\<lambda>p n. Suc (max (scan_fuel (snd p)) n)) d 0 \<le> m"
    by (cases n) (auto simp: p)
  obtain c cs where c: "pr v = c # cs" "value_head c" using Cons.prems(2) [of p] p by auto
  have ws: "skip_ws (CHR '':'' # s) = CHR '':'' # s" for s by (simp add: skip_ws_def is_ws_def)
  have sp: "skip_ws (u @ pr v @ s) = pr v @ s" for s
    using c by (simp add: skip_ws_append [OF assms(6)] skip_ws_head)
  show ?case
  proof (cases d)
    case Nil
    have "scan_value m (pr v @ nl @ CHR ''}'' # rest) = POk v (nl @ CHR ''}'' # rest)"
      using Cons.prems(1) [of p] n assms(8) p by simp
    then show ?thesis using Nil n p
      by (simp add: json_string_def scan_json_string ws sp skip_ws_append [OF assms(7)] assms(5))
  next
    case (Cons q ds)
    let ?t = "join_str sep (map (\<lambda>(k, v). json_string k @ ks @ pr v) d) @ nl @ CHR ''}'' # rest"
    obtain cs' where "?t = CHR 0x22 # cs'" using members_head [of d sep ks pr "nl @ CHR ''}'' # rest"] Cons by auto
    then have "skip_ws (w @ ?t) = ?t"
      by (simp only: skip_ws_append [OF assms(4)] skip_ws_quote)
    moreover have "scan_members m ?t = POk d rest"
      using Cons.IH [of m] Cons.prems(1,2) n Cons by (metis list.discI list.set_intros(2))
    moreover have "scan_value m (pr v @ CHR '','' # w @ ?t) = POk v (CHR '','' # w @ ?t)"
      using Cons.prems(1) [of p] n p by simp
    ultimately show ?thesis using Cons n p
      by (simp add: assms(3,5) json_string_def scan_json_string ws sp)
  qed
qed simp

lemma dset_append: "k \<notin> fst ` set d \<Longrightarrow> dset k v d = d @ [(k, v)]"
  by (induction d) auto

lemma foldl_dset_distinct:
  "distinct (map fst (acc @ m)) \<Longrightarrow> foldl (\<lambda>d (k, v). dset k v d) acc m = acc @ m"
proof (induction m arbitrary: acc)
  case (Cons p m)
  obtain k v where p: "p = (k, v)" by (cases p)
  have "k \<notin> fst ` set acc" using Cons.prems p by auto
  then have "dset k v acc = acc @ [(k, v)]" by (rule dset_append)
  then show ?case using Cons p by simp
qed simp

lemma scan_dumps:
  "wf_json v \<Longrightarrow> scan_fuel v \<le> n \<Longrightarrow> delim rest \<Longrightarrow> scan_value n (dumps_at ind l v @ rest) = POk v rest"
proof (induction v arbitrary: n l rest)
  case (JList xs)
  then obtain m where n: "n = Suc m" by (cases n) auto
  show ?case
  proof (cases xs)
    case Cons
    let ?pr = "dumps_at ind (Suc l)"
    obtain w where w: "item_sep ind (Suc l) = CHR '','' # w" "list_all is_ws w" using item_sep_ws by blast
    let ?t = "join_str (item_sep ind (Suc l)) (map ?pr xs) @ newline_indent ind l @ CHR '']'' # rest"
    have "scan_items m ?t = POk xs rest"
    proof (rule scan_items_text [OF _ _ w newline_ws])
      show "scan_value n (?pr x @ rest) = POk x rest" if "x \<in> set xs" "scan_fuel x \<le> n" "delim rest" for x n rest
        using JList.IH [OF that(1)] that JList.prems by simp
      show "\<exists>c cs. ?pr x = c # cs \<and> value_head c" if "x \<in> set xs" for x
        using that JList.prems by (intro dumps_head) simp
    qed (use Cons JList.prems n in \<open>auto intro!: delim_newline\<close>)
    moreover have "\<exists>c cs. ?t = c # cs \<and> value_head c"
      using Cons JList.prems dumps_head [of "hd xs" ind "Suc l"] by (cases "tl xs") auto
    ultimately show ?thesis using Cons n
      by (auto simp: skip_ws_append [OF newline_ws] skip_ws_head value_head_def [of "CHR '']''"])
  qed (simp add: n skip_ws_def is_ws_def)
next
  case (JObj d)
  then obtain m where n: "n = Suc m" by (cases n) auto
  show ?case
  proof (cases d)
    case Cons
    let ?pr = "dumps_at ind (Suc l)"
    obtain w where w: "item_sep ind (Suc l) = CHR '','' # w" "list_all is_ws w" using item_sep_ws by blast
    let ?t = "join_str (item_sep ind (Suc l)) (map (\<lambda>(k, v). json_string k @ key_sep ind @ ?pr v) d) @ newline_indent ind l @ CHR ''}'' # rest"
    obtain u where u: "key_sep ind = CHR '':'' # u" "list_all is_ws u" using key_sep_ws by blast
    have "scan_members m ?t = POk d rest"
    proof (rule scan_members_text [OF _ _ w u newline_ws])
      show "scan_value n (?pr (snd p) @ rest) = POk (snd p) rest" if "p \<in> set d" "scan_fuel (snd p) \<le> n" "delim rest" for p n rest
        using JObj.IH [OF that(1), of "snd p"] that JObj.prems by (cases p) auto
      show "\<exists>c cs. ?pr (snd p) = c # cs \<and> value_head c" if "p \<in> set d" for p
        using that JObj.prems by (intro dumps_head) simp
    qed (use Cons JObj.prems n in \<open>auto intro!: delim_newline\<close>)
    moreover have "\<exists>cs. ?t = CHR 0x22 # cs" using Cons by (intro members_head) simp
    moreover have "foldl (\<lambda>d (k, v). dset k v d) [] d = d"
      using JObj.prems foldl_dset_distinct [of "[]" d] by (simp add: dict_ok_def)
    ultimately show ?thesis using Cons n
      by (auto simp: skip_ws_append [OF newline_ws] skip_ws_head value_head_def is_ws_def)
  qed (simp add: n skip_ws_def is_ws_def)
next
  case (JStr s)
  then show ?case by (cases n) (simp_all add: json_string_def scan_json_string)
next
  case (JInt i)
  then show ?case using number_text [OF _ int_text_scan] by (cases n) simp_all
next
  case (JFloat s)
  then show ?case using float_literal_text by (cases n) simp_all
next
  case (JBool b)
  then show ?case by (cases n; cases b) (simp_all add: scan_keyword_def)
next
  case JNull
  then show ?case by (cases n) (simp_all add: scan_keyword_def)
qed


lemma length_join_str: "length (join_str s xs) = (\<Sum>x\<leftarrow>xs. length x) + length s * (length xs - 1)"
  by (induction s xs rule: join_str.induct) auto

lemma item_sep_pos: "1 \<le> length (item_sep ind l)"
  by (simp add: item_sep_def split: layout.splits)

lemma fuel_sum:
  "(\<And>x. x \<in> set xs \<Longrightarrow> f x \<le> 2 * len x) \<Longrightarrow>
     foldr (\<lambda>x n. Suc (max (f x) n)) xs 0 \<le> length xs + 2 * (\<Sum>x\<leftarrow>xs. len x)"
proof (induction xs)
  case (Cons a xs)
  have "f a \<le> 2 * len a" using Cons.prems by simp
  moreover have "foldr (\<lambda>x n. Suc (max (f x) n)) xs 0 \<le> length xs + 2 * (\<Sum>x\<leftarrow>xs. len x)"
    using Cons by simp
  ultimately show ?case by simp
qed simp

lemma fuel_arith:
  "F \<le> n + 2 * S \<Longrightarrow> n - 1 \<le> p \<Longrightarrow> L = 2 + a + (S' + p) + b \<Longrightarrow> 1 \<le> n \<Longrightarrow> S \<le> S' \<Longrightarrow> Suc F \<le> 2 * (L :: nat)"
  by linarith

lemma times_pos_le: "1 \<le> k \<Longrightarrow> n \<le> k * (n :: nat)"
  by simp

lemma scan_fuel_le: "wf_json v \<Longrightarrow> scan_fuel v \<le> 2 * length (dumps_at ind l v)"
proof (induction v arbitrary: l)
  case (JList xs)
  show ?case
  proof (cases "xs = []")
    case False
    let ?len = "\<lambda>x. length (dumps_at ind (Suc l) x)"
    have "foldr (\<lambda>x n. Suc (max (scan_fuel x) n)) xs 0 \<le> length xs + 2 * (\<Sum>x\<leftarrow>xs. ?len x)"
      by (rule fuel_sum) (use JList in simp)
    moreover note times_pos_le [OF item_sep_pos, of "length xs - 1" ind "Suc l"]
    moreover have "length (dumps_at ind l (JList xs)) = 2 + length (newline_indent ind (Suc l)) +
        ((\<Sum>x\<leftarrow>xs. ?len x) + length (item_sep ind (Suc l)) * (length xs - 1)) + length (newline_indent ind l)"
      using False by (simp add: length_join_str o_def)
    moreover have "1 \<le> length xs" using False by (cases xs) simp_all
    ultimately show ?thesis by (simp only: scan_fuel.simps fuel_arith [OF _ _ _ _ order.refl])
  qed simp
next
  case (JObj d)
  show ?case
  proof (cases "d = []")
    case False
    let ?len = "\<lambda>p. length (dumps_at ind (Suc l) (snd p))"
    have "foldr (\<lambda>p n. Suc (max (scan_fuel (snd p)) n)) d 0 \<le> length d + 2 * (\<Sum>p\<leftarrow>d. ?len p)"
    proof (rule fuel_sum)
      fix p assume p: "p \<in> set d"
      have "snd p \<in> Basic_BNFs.snds p" by (cases p) simp
      then show "scan_fuel (snd p) \<le> 2 * ?len p" using JObj.IH [OF p, of "snd p"] JObj.prems p by simp
    qed
    moreover note times_pos_le [OF item_sep_pos, of "length d - 1" ind "Suc l"]
    moreover have "length (dumps_at ind l (JObj d)) = 2 + length (newline_indent ind (Suc l)) +
        ((\<Sum>p\<leftarrow>d. length (case p of (k, v) \<Rightarrow> json_string k @ key_sep ind @ dumps_at ind (Suc l) v)) +
         length (item_sep ind (Suc l)) * (length d - 1)) + length (newline_indent ind l)"
      using False by (simp add: length_join_str o_def)
    moreover have "1 \<le> length d" using False by (cases d) simp_all
    moreover have "(\<Sum>p\<leftarrow>d. ?len p) \<le> (\<Sum>p\<leftarrow>d. length (case p of (k, v) \<Rightarrow> json_string k @ key_sep ind @ dumps_at ind (Suc l) v))"
      by (rule sum_list_mono) (simp split: prod.splits)
    ultimately show ?thesis by (simp only: scan_fuel.simps fuel_arith)
  qed simp
next
  case (JFloat s)
  have "s \<noteq> []" using JFloat by (auto simp: float_literal_def scan_number_def scan_int_part_def)
  then show ?case by (cases s) simp_all
next
  case (JInt i)
  have "int_text i \<noteq> []" by (simp add: int_text_def)
  then show ?case by (cases "int_text i") simp_all
qed (simp_all add: json_string_def)

lemma loads_dumps_at: "wf_json v \<Longrightarrow> loads (dumps_at ind l v) = Inr v"
proof -
  assume v: "wf_json v"
  obtain c cs where c: "dumps_at ind l v = c # cs" "value_head c" using dumps_head [OF v] by blast
  have "scan_value (2 * length (dumps_at ind l v) + 2) (dumps_at ind l v @ []) = POk v []"
    using scan_fuel_le [OF v, of ind l] by (intro scan_dumps [OF v]) simp_all
  then show ?thesis using c by (simp add: loads_def skip_ws_head) (simp add: skip_ws_def)
qed

lemma loads_dumps [wire_simps]: "wf_json v \<Longrightarrow> loads (dumps v) = Inr v"
  and loads_dumps_indent [wire_simps]: "wf_json v \<Longrightarrow> loads (dumps_indent k v) = Inr v"
  and loads_dumps_compact [wire_simps]: "wf_json v \<Longrightarrow> loads (dumps_compact v) = Inr v"
  by (simp_all add: dumps_def dumps_indent_def dumps_compact_def loads_dumps_at)

lemma utf8_decode_char: "utf8_decode (utf8_char c @ bs) = (case utf8_decode bs of Inl e \<Rightarrow> Inl e | Inr s \<Rightarrow> Inr (c # s))"
proof (cases "char_code c < 128")
  case False
  let ?n = "char_code c"
  define h where "h = 192 + ?n div 64"
  define k where "k = 128 + ?n mod 64"
  have h: "h = 194 \<or> h = 195" using False char_code_lt [of c] unfolding h_def by linarith
  have k: "128 \<le> k" "k < 192" by (simp_all add: k_def)
  have e: "(h - 192) * 64 + (k - 128) = ?n" by (simp add: h_def k_def)
  have u: "unat (word_of_nat h :: byte) = h" "unat (word_of_nat k :: byte) = k" using h k by auto
  have "utf8_char c @ bs = word_of_nat h # word_of_nat k # bs" using False by (simp add: utf8_char_def Let_def h_def k_def)
  moreover have "\<not> h < 128" using h by auto
  ultimately show ?thesis using h k by (simp only: utf8_decode.simps Let_def u list.case e char_of_code if_True if_False simp_thms)
next
  case True
  then have "unat (word_of_nat (char_code c) :: byte) = char_code c" by simp
  with True show ?thesis by (simp add: utf8_char_def Let_def split: sum.split)
qed

lemma utf8_decode_encode [wire_simps]: "utf8_decode (utf8_encode s) = Inr s"
  by (induction s) (simp_all add: utf8_encode_def utf8_decode_char)

text \<open>The scanner's recursion never meets its bound.\<close>

lemma scan_string_step:
  "scan_string (c # s) \<in> {PBad, PBeyond} \<or> scan_string (c # s) = POk [] s \<or>
     (\<exists>d s'. length s' \<le> length s \<and> scan_string (c # s) = pcons d (scan_string s'))"
proof (cases "c = CHR 0x5C")
  case True
  show ?thesis
  proof (cases s)
    case (Cons e s')
    show ?thesis
    proof (cases "e = CHR ''u''")
      case u: True
      show ?thesis
      proof (cases "\<exists>h1 h2 h3 h4 s4. s' = h1 # h2 # h3 # h4 # s4")
        case q: True
        then obtain h1 h2 h3 h4 s4 where s': "s' = h1 # h2 # h3 # h4 # s4" by blast
        have "scan_string (c # s) = (case hex4 h1 h2 h3 h4 of None \<Rightarrow> PBad
            | Some n \<Rightarrow> if n < 256 then pcons (char_of n) (scan_string s4) else PBeyond)"
          using True Cons u s' by simp
        moreover have "length s4 \<le> length s" using Cons s' by simp
        ultimately show ?thesis by (cases "hex4 h1 h2 h3 h4") auto
      next
        case False
        then have "scan_string (c # s) = PBad" using True Cons u by (simp split: list.splits)
        then show ?thesis by simp
      qed
    next
      case False
      then have "scan_string (c # s) = (case simple_escape e of None \<Rightarrow> PBad | Some c \<Rightarrow> pcons c (scan_string s'))"
        using True Cons by simp
      moreover have "length s' \<le> length s" using Cons by simp
      ultimately show ?thesis by (cases "simple_escape e") auto
    qed
  qed (simp add: True)
next
  case False
  then have "scan_string (c # s) = (if c = CHR 0x22 then POk [] s else if char_code c < 32 then PBad else pcons c (scan_string s))"
    by simp
  then show ?thesis by auto
qed

lemma scan_string_result:
  "scan_string s \<noteq> PFuel \<and> (\<forall>t r. scan_string s = POk t r \<longrightarrow> length r < length s)"
proof (induction s rule: length_induct)
  case (1 s)
  show ?case
  proof (cases s)
    case (Cons c s')
    have p: "pcons d x = PFuel \<longleftrightarrow> x = PFuel" "pcons d x = POk t r \<Longrightarrow> \<exists>t'. x = POk t' r" for d x t r
      by (auto simp: pcons_def pbind_def split: scan.splits)
    from scan_string_step [of c s'] 1 p show ?thesis
      unfolding Cons by (elim disjE exE conjE) (force simp: less_Suc_eq_le)+
  qed simp
qed


definition good_scan :: "string \<Rightarrow> 'a scan \<Rightarrow> bool" where
  "good_scan s r \<longleftrightarrow> r \<noteq> PFuel \<and> (\<forall>x t. r = POk x t \<longrightarrow> length t < length s)"

lemma good_scan_simps [simp]:
  "good_scan s PBad" "good_scan s PBeyond" "\<not> good_scan s PFuel"
  "good_scan s (POk x t) \<longleftrightarrow> length t < length s"
  by (simp_all add: good_scan_def)

lemma good_scan_bind:
  "good_scan s r \<Longrightarrow> (\<And>x t. r = POk x t \<Longrightarrow> length t < length s \<Longrightarrow> good_scan s (f x t)) \<Longrightarrow> good_scan s (pbind r f)"
  by (cases r) (simp_all add: pbind_def)

lemma good_scan_mono: "good_scan s r \<Longrightarrow> length s \<le> length s' \<Longrightarrow> good_scan s' r"
  by (cases r) simp_all

lemma good_scan_string: "good_scan s (scan_string s)"
  using scan_string_result by (simp add: good_scan_def)

lemma length_skip_ws: "length (skip_ws s) \<le> length s"
  by (simp add: skip_ws_def length_dropWhile_le)

lemma good_scan_number: "good_scan s (scan_number s)"
proof -
  obtain sgn s1 where s1: "(case s of c # cs \<Rightarrow> if c = CHR ''-'' then ([c], cs) else ([], s) | [] \<Rightarrow> ([], s)) = (sgn, s1)"
    by (cases "case s of c # cs \<Rightarrow> if c = CHR ''-'' then ([c], cs) else ([], s) | [] \<Rightarrow> ([], s)")
  then have l1: "length s1 \<le> length s" by (auto split: list.splits if_splits)
  have dw: "length (dropWhile ascii_digit x) \<le> length x" for x by (rule length_dropWhile_le)
  show ?thesis
  proof (cases "scan_int_part s1")
    case None
    then show ?thesis using s1 by (simp add: scan_number_def)
  next
    case (Some p)
    obtain ip s2 where p: "p = (ip, s2)" by (cases p)
    have "length s2 < length s1"
      using Some p dw [of "tl s1"] by (cases s1) (auto simp: scan_int_part_def split: if_splits)
    moreover obtain fr s3 where s3: "scan_frac s2 = (fr, s3)" by (cases "scan_frac s2")
    moreover have "length s3 \<le> length s2"
      using s3 dw [of "tl s2"] by (cases s2) (auto simp: scan_frac_def split: if_splits)
    moreover obtain ex s4 where s4: "scan_exp s3 = (ex, s4)" by (cases "scan_exp s3")
    moreover have "length s4 \<le> length s3"
      using s4 dw [of "tl s3"] dw [of "tl (tl s3)"]
      by (cases s3; cases "tl s3") (auto simp: scan_exp_def Let_def split: if_splits)
    ultimately show ?thesis using s1 Some p l1 by (simp add: scan_number_def)
  qed
qed

lemma good_scan_keyword: "s \<noteq> [] \<Longrightarrow> scan_keyword s = Some r \<Longrightarrow> good_scan s r"
  by (auto simp: scan_keyword_def split: if_splits)

lemma scan_never_out_of_fuel:
  "2 * length s + 1 \<le> n \<Longrightarrow> good_scan s (scan_value n s)"
  "2 * length s + 2 \<le> n \<Longrightarrow> good_scan s (scan_items n s)"
  "2 * length s + 2 \<le> n \<Longrightarrow> good_scan s (scan_members n s)"
proof (induction n s and n s and n s rule: scan_value_scan_items_scan_members.induct)
  case (2 n s)
  show ?case
  proof (cases s)
    case (Cons c cs)
    have l: "length (skip_ws cs) \<le> length cs" by (rule length_skip_ws)
    have str: "good_scan s (pbind (scan_string cs) (\<lambda>t rest. POk (JStr t) rest))"
      using Cons good_scan_mono [OF good_scan_string, of cs s] by (intro good_scan_bind) simp_all
    have kw: "good_scan s (case scan_keyword s of Some r \<Rightarrow> r | None \<Rightarrow> scan_number s)"
      using good_scan_keyword [of s] good_scan_number [of s] Cons by (auto split: option.splits)
    show ?thesis
    proof (cases "skip_ws cs")
      case Nil
      then show ?thesis using str [unfolded Cons] kw [unfolded Cons] Cons by (cases "c = CHR 0x22") auto
    next
      case d: (Cons d ds)
      have ld: "2 * length (d # ds) + 2 \<le> n" "length (d # ds) \<le> length s" using "2.prems" Cons d l by simp_all
      have "good_scan s (pbind (scan_members n (d # ds)) (\<lambda>m rest. POk (JObj (foldl (\<lambda>d (k, v). dset k v d) [] m)) rest))"
        if "c \<noteq> CHR 0x22" "c = CHR ''{''" "d \<noteq> CHR ''}''"
        using "2.IH"(1) [OF Cons that(1,2) d that(3) ld(1)] good_scan_mono [OF _ ld(2)] by (intro good_scan_bind) auto
      moreover have "good_scan s (pbind (scan_items n (d # ds)) (\<lambda>xs rest. POk (JList xs) rest))"
        if "c \<noteq> CHR 0x22" "c \<noteq> CHR ''{''" "c = CHR ''[''" "d \<noteq> CHR '']''"
        using "2.IH"(2) [OF Cons that(1-3) d that(4) ld(1)] good_scan_mono [OF _ ld(2)] by (intro good_scan_bind) auto
      ultimately show ?thesis using str [unfolded Cons] kw [unfolded Cons] Cons d ld by (cases "c = CHR 0x22") auto
    qed
  qed simp
next
  case (4 n s)
  show ?case
    unfolding scan_items.simps
  proof (rule good_scan_bind)
    show "good_scan s (scan_value n s)" using 4 by simp
    fix v rest assume v: "scan_value n s = POk v rest" "length rest < length s"
    show "good_scan s (case skip_ws rest of [] \<Rightarrow> PBad
       | c # cs \<Rightarrow> if c = CHR '']'' then POk [v] cs
                   else if c = CHR '','' then pbind (scan_items n (skip_ws cs)) (\<lambda>vs rest. POk (v # vs) rest)
                   else PBad)"
    proof (cases "skip_ws rest")
      case (Cons c cs)
      then have l: "length cs < length rest" "length (skip_ws cs) \<le> length cs"
        using length_skip_ws [of rest] length_skip_ws [of cs] by simp_all
      then have "good_scan (skip_ws cs) (scan_items n (skip_ws cs))" if "c \<noteq> CHR '']''" "c = CHR '',''"
        using "4.IH"(2) [OF Cons that] "4.prems" v by simp
      then have "good_scan s (pbind (scan_items n (skip_ws cs)) (\<lambda>vs rest. POk (v # vs) rest))"
        if "c \<noteq> CHR '']''" "c = CHR '',''"
        using that good_scan_mono [of "skip_ws cs" _ s] l v by (intro good_scan_bind) auto
      then show ?thesis using Cons l v by simp
    qed simp
  qed
next
  case (6 n s)
  show ?case
  proof (cases s)
    case (Cons q qs)
    have "good_scan s (pbind (scan_string qs) (\<lambda>k rest.
            case skip_ws rest of [] \<Rightarrow> PBad
            | c # cs \<Rightarrow>
                if c \<noteq> CHR '':'' then PBad
                else pbind (scan_value n (skip_ws cs)) (\<lambda>v rest.
                  case skip_ws rest of [] \<Rightarrow> PBad
                  | c # cs \<Rightarrow> if c = CHR ''}'' then POk [(k, v)] cs
                              else if c = CHR '','' then
                                pbind (scan_members n (skip_ws cs)) (\<lambda>ms rest. POk ((k, v) # ms) rest)
                              else PBad)))" if q: "\<not> q \<noteq> CHR 0x22"
    proof (rule good_scan_bind)
      show "good_scan s (scan_string qs)" using Cons good_scan_mono [OF good_scan_string, of qs s] by simp
      fix k rest assume k: "scan_string qs = POk k rest" "length rest < length s"
      show "good_scan s (case skip_ws rest of [] \<Rightarrow> PBad
            | c # cs \<Rightarrow>
                if c \<noteq> CHR '':'' then PBad
                else pbind (scan_value n (skip_ws cs)) (\<lambda>v rest.
                  case skip_ws rest of [] \<Rightarrow> PBad
                  | c # cs \<Rightarrow> if c = CHR ''}'' then POk [(k, v)] cs
                              else if c = CHR '','' then
                                pbind (scan_members n (skip_ws cs)) (\<lambda>ms rest. POk ((k, v) # ms) rest)
                              else PBad))"
      proof (cases "skip_ws rest")
        case c: (Cons c cs)
        then have l: "length cs < length rest" "length (skip_ws cs) \<le> length cs"
          using length_skip_ws [of rest] length_skip_ws [of cs] by simp_all
        have "good_scan s (pbind (scan_value n (skip_ws cs)) (\<lambda>v rest.
                  case skip_ws rest of [] \<Rightarrow> PBad
                  | c # cs \<Rightarrow> if c = CHR ''}'' then POk [(k, v)] cs
                              else if c = CHR '','' then
                                pbind (scan_members n (skip_ws cs)) (\<lambda>ms rest. POk ((k, v) # ms) rest)
                              else PBad))" if cc: "\<not> c \<noteq> CHR '':''"
        proof (rule good_scan_bind)
          have "good_scan (skip_ws cs) (scan_value n (skip_ws cs))"
            using "6.IH"(1) [OF Cons q c cc] "6.prems" l k by simp
          then show "good_scan s (scan_value n (skip_ws cs))" using good_scan_mono l k by fastforce
          fix v rest' assume v: "scan_value n (skip_ws cs) = POk v rest'" "length rest' < length s"
          show "good_scan s (case skip_ws rest' of [] \<Rightarrow> PBad
                  | c # cs \<Rightarrow> if c = CHR ''}'' then POk [(k, v)] cs
                              else if c = CHR '','' then
                                pbind (scan_members n (skip_ws cs)) (\<lambda>ms rest. POk ((k, v) # ms) rest)
                              else PBad)"
          proof (cases "skip_ws rest'")
            case e: (Cons e es)
            then have l': "length es < length rest'" "length (skip_ws es) \<le> length es"
              using length_skip_ws [of rest'] length_skip_ws [of es] by simp_all
            then have "good_scan (skip_ws es) (scan_members n (skip_ws es))" if "e \<noteq> CHR ''}''" "e = CHR '',''"
              using "6.IH"(2) [OF Cons q c cc e that] "6.prems" v by simp
            then have "good_scan s (pbind (scan_members n (skip_ws es)) (\<lambda>ms rest. POk ((k, v) # ms) rest))"
              if "e \<noteq> CHR ''}''" "e = CHR '',''"
              using that good_scan_mono [of "skip_ws es" _ s] l' v by (intro good_scan_bind) auto
            then show ?thesis using e l' v by simp
          qed simp
        qed
        then show ?thesis using c by simp
      qed simp
    qed
    then show ?thesis using Cons by simp
  qed simp
qed simp_all

lemma loads_total: "scan_value (2 * length s + 2) (skip_ws s) \<noteq> PFuel"
  using scan_never_out_of_fuel(1) [of "skip_ws s" "2 * length s + 2"] length_skip_ws [of s]
  by (simp add: good_scan_def)

end
