(* ===== verification/Effects.thy ===== *)
theory Effects
  imports Prelude
begin

text \<open>
  Operations that keep state and may raise: a function from the state to the outcome (\<open>Inl\<close> the
  exception, \<open>Inr\<close> the value) and the state it leaves, also when it raises. And what a stream reader
  needs of a framing: the interface \<open>framing\<close>, under which a read loop over any division of the
  stream into chunks finds the frames that were written.
\<close>

section \<open>State and exceptions\<close>

type_synonym ('s, 'e, 'a) st = "'s \<Rightarrow> ('e + 'a) \<times> 's"

definition sret :: "'a \<Rightarrow> ('s, 'e, 'a) st" where
  "sret x = (\<lambda>s. (Inr x, s))"

definition sraise :: "'e \<Rightarrow> ('s, 'e, 'a) st" where
  "sraise e = (\<lambda>s. (Inl e, s))"

definition sbind :: "('s, 'e, 'a) st \<Rightarrow> ('a \<Rightarrow> ('s, 'e, 'b) st) \<Rightarrow> ('s, 'e, 'b) st" where
  "sbind m f = (\<lambda>s. case m s of (Inl e, s') \<Rightarrow> (Inl e, s') | (Inr x, s') \<Rightarrow> f x s')"

definition sget :: "('s \<Rightarrow> 'a) \<Rightarrow> ('s, 'e, 'a) st" where
  "sget f = (\<lambda>s. (Inr (f s), s))"

definition supd :: "('s \<Rightarrow> 's) \<Rightarrow> ('s, 'e, unit) st" where
  "supd f = (\<lambda>s. (Inr (), f s))"

definition slift :: "'e + 'a \<Rightarrow> ('s, 'e, 'a) st" where
  "slift r = (\<lambda>s. (r, s))"

lemma st_simps [simp]:
  "sret x s = (Inr x, s)" "sraise e s = (Inl e, s)" "sget f s = (Inr (f s), s)"
  "supd g s = (Inr (), g s)" "slift r s = (r, s)"
  by (simp_all add: sret_def sraise_def sget_def supd_def slift_def)

lemma sbind_eq: "sbind m f s = (case m s of (Inl e, s') \<Rightarrow> (Inl e, s') | (Inr x, s') \<Rightarrow> f x s')"
  by (simp add: sbind_def)

lemma sbind_Inr [simp]: "m s = (Inr x, s') \<Longrightarrow> sbind m f s = f x s'"
  by (simp add: sbind_def)

lemma sbind_Inl [simp]: "m s = (Inl e, s') \<Longrightarrow> sbind m f s = (Inl e, s')"
  by (simp add: sbind_def)

lemma sbind_cases [consumes 1, case_names raised returned]:
  assumes "sbind m f s = (r, s')"
  obtains e where "m s = (Inl e, s')" "r = Inl e" | x s1 where "m s = (Inr x, s1)" "f x s1 = (r, s')"
  using assms by (auto simp: sbind_def split: prod.splits sum.splits)

section \<open>Reading frames from a stream\<close>

text \<open>
  The loop the readers of this code share: parse the buffer; if it holds no frame yet, append the
  next chunk and try again. \<open>RL_Frame\<close> carries the frame, the rest of the buffer and the chunks not
  read; \<open>RL_Eof\<close> is the end of the stream (an empty read) with what is left in the buffer.
\<close>

datatype ('e, 'f) read_outcome =
    RL_Frame 'f bytes "bytes list"
  | RL_Bad 'e bytes "bytes list"
  | RL_Eof bytes "bytes list"

fun read_loop :: "(bytes \<Rightarrow> 'e + ('f \<times> bytes) option) \<Rightarrow> bytes \<Rightarrow> bytes list \<Rightarrow> ('e, 'f) read_outcome" where
  "read_loop parse buf chunks =
     (case parse buf of
        Inl e \<Rightarrow> RL_Bad e buf chunks
      | Inr (Some (f, rest)) \<Rightarrow> RL_Frame f rest chunks
      | Inr None \<Rightarrow>
          (case chunks of
             [] \<Rightarrow> RL_Eof buf []
           | c # cs \<Rightarrow> if c = [] then RL_Eof buf cs else read_loop parse (buf @ c) cs))"

declare read_loop.simps [simp del]

locale framing =
  fixes parse :: "bytes \<Rightarrow> 'e + ('f \<times> bytes) option"
    and enc :: "'f \<Rightarrow> bytes option"
    and fits :: "'f \<Rightarrow> bool"
  assumes parse_whole: "enc f = Some bs \<Longrightarrow> fits f \<Longrightarrow> parse (bs @ rest) = Inr (Some (f, rest))"
    and parse_part: "enc f = Some (p @ q) \<Longrightarrow> fits f \<Longrightarrow> q \<noteq> [] \<Longrightarrow> parse p = Inr None"
begin

text \<open>
  Whatever the chunks are, as long as none is empty, a buffer and chunks that together start with a
  frame's encoding give that frame, and buffer and chunks together keep the rest of the stream.
\<close>

lemma read_loop_frame:
  assumes "enc f = Some bs" "fits f" "buf @ concat chunks = bs @ rest" "[] \<notin> set chunks"
  shows "\<exists>buf' chunks'. read_loop parse buf chunks = RL_Frame f buf' chunks' \<and>
    buf' @ concat chunks' = rest \<and> set chunks' \<subseteq> set chunks"
  using assms(3,4)
proof (induction chunks arbitrary: buf)
  case Nil
  then show ?case using parse_whole [OF assms(1,2), of rest] by (simp add: read_loop.simps)
next
  case (Cons c cs)
  show ?case
  proof (cases "length bs \<le> length buf")
    case True
    then obtain r where "buf = bs @ r"
      using Cons.prems(1) by (metis append_eq_append_conv_if append_take_drop_id)
    then show ?thesis using parse_whole [OF assms(1,2), of r] Cons.prems(1) by (simp add: read_loop.simps [of parse "bs @ r"])
  next
    case False
    then obtain q where q: "bs = buf @ q" "q \<noteq> []"
      using Cons.prems(1) by (metis append_eq_append_conv_if append_Nil2 append_take_drop_id nat_le_linear take_all)
    have "parse buf = Inr None" using parse_part [OF _ assms(2), of buf q] assms(1) q by simp
    moreover have "c \<noteq> []" using Cons.prems(2) by auto
    moreover obtain buf' chunks' where "read_loop parse (buf @ c) cs = RL_Frame f buf' chunks'"
      "buf' @ concat chunks' = rest" "set chunks' \<subseteq> set cs"
      using Cons.IH [of "buf @ c"] Cons.prems by auto
    ultimately show ?thesis by (auto simp: read_loop.simps [of parse buf])
  qed
qed

text \<open>A stream that ends inside a frame is reported as its end, never as a frame or an error.\<close>

lemma read_loop_cut:
  assumes "enc f = Some (buf @ concat chunks @ q)" "fits f" "q \<noteq> []" "[] \<notin> set chunks"
  shows "read_loop parse buf chunks = RL_Eof (buf @ concat chunks) []"
  using assms(1,4)
proof (induction chunks arbitrary: buf)
  case Nil
  then show ?case using parse_part [of f buf q] assms(2,3) by (simp add: read_loop.simps)
next
  case (Cons c cs)
  have "parse buf = Inr None" using parse_part [of f buf "concat (c # cs) @ q"] Cons.prems assms(2,3) by simp
  moreover have "c \<noteq> []" using Cons.prems by auto
  ultimately show ?case using Cons by (simp add: read_loop.simps [of parse buf])
qed

end

end
