(* ===== verification/Tunnel.thy ===== *)
theory Tunnel
  imports Effects Ecc Crypto Json
begin

text \<open>
  \<open>hub/tunnel.py\<close>: the encrypted tunnel (framing over the socket, ECDH handshake, key verification,
  JSON messages, keepalive) and the plaintext one. A tunnel's fields are a record, its methods state
  transformers that may raise. The socket is what the peer is going to send, as the chunks that
  successive reads return, and what has been written to it. What \<open>os.urandom\<close> and the clocks return
  are arguments. Operations run one at a time: awaiting is sequencing, and the send lock is not
  modelled. The exceptions of the socket itself (a reset connection while reading or draining) are not
  modelled either: a read returns the next chunk or, at the end, nothing.
\<close>

section \<open>The state\<close>

record sock_writer =
  sent :: bytes
  closing :: bool

record tunnel =
  device_key :: bytes
  session_key :: "bytes option"
  reader :: "bytes list option"
  writer :: "sock_writer option"
  client_priv :: "bytes option"
  recv_buf :: bytes
  keepalive_interval :: rat
  keepalive_task :: bool
  last_recv :: rat

datatype tunnel_reason =
    Not_Connected
  | Bad_Frame frame_error
  | Closed_By_Peer
  | No_Session_Key
  | Short_Ecdh
  | Bad_Ecdh_Header bytes
  | Expected_Ecdh nat
  | Expected_Verify nat
  | Bad_Proof
  | Not_Session nat

datatype tunnel_error =
    Tunnel_Error tunnel_reason
  | Crypto_Error
  | Frame_Overflow
  | Attribute_Error
  | Bad_Length
  | Ecc_Failure ecc_error
  | Text_Beyond

type_synonym 'a tun = "(tunnel, tunnel_error, 'a) st"

definition new_tunnel :: "bytes \<Rightarrow> rat \<Rightarrow> rat \<Rightarrow> tunnel" where
  "new_tunnel key interval now =
     \<lparr>device_key = key, session_key = None, reader = None, writer = None, client_priv = None,
      recv_buf = [], keepalive_interval = interval, keepalive_task = False, last_recv = now\<rparr>"

definition init_tunnel :: "string \<Rightarrow> rat \<Rightarrow> rat \<Rightarrow> tunnel option" where
  "init_tunnel device_id interval now =
     (case derive_device_key device_id of None \<Rightarrow> None | Some key \<Rightarrow> Some (new_tunnel key interval now))"

definition KEEPALIVE_INTERVAL :: rat where "KEEPALIVE_INTERVAL = 10"
definition KEEPALIVE_LOSS_FACTOR :: rat where "KEEPALIVE_LOSS_FACTOR = 3"

section \<open>Frames over the socket\<close>

definition write_sock :: "bytes \<Rightarrow> unit tun" where
  "write_sock bs = (\<lambda>t. case writer t of
     None \<Rightarrow> (Inl (Tunnel_Error Not_Connected), t)
   | Some w \<Rightarrow> (Inr (), t\<lparr>writer := Some (w\<lparr>sent := sent w @ bs\<rparr>)\<rparr>))"

definition send_frame :: "cipher_lib \<Rightarrow> nat \<Rightarrow> bytes \<Rightarrow> bytes \<Rightarrow> unit tun" where
  "send_frame L msg_type plaintext key =
     sbind (sget writer) (\<lambda>w. if w = None then sraise (Tunnel_Error Not_Connected)
     else case aes_cbc_encrypt L key plaintext of
            None \<Rightarrow> sraise Crypto_Error
          | Some ct \<Rightarrow>
              (case encode_frame \<lparr>ftype = msg_type, ciphertext = ct\<rparr> of
                 None \<Rightarrow> sraise Frame_Overflow
               | Some bs \<Rightarrow> write_sock bs))"

definition select_decrypt_key :: "nat \<Rightarrow> bytes tun" where
  "select_decrypt_key frame_type =
     (if frame_type = MSG_TYPE_SESSION
      then sbind (sget session_key) (\<lambda>k. case k of None \<Rightarrow> sraise (Tunnel_Error No_Session_Key) | Some k \<Rightarrow> sret k)
      else sget device_key)"

text \<open>
  \<open>recv_frame\<close>: the loop of \<open>read_loop\<close> on \<open>parse_frame\<close>, then the decryption. The frame is taken
  out of the buffer before it is decrypted, so it is consumed also when the decryption raises.
\<close>

definition recv_frame :: "cipher_lib \<Rightarrow> (nat \<times> bytes) tun" where
  "recv_frame L = (\<lambda>t.
     case (case reader t of None \<Rightarrow> read_loop parse_frame (recv_buf t) [] | Some cs \<Rightarrow> read_loop parse_frame (recv_buf t) cs) of
       RL_Bad e buf cs \<Rightarrow> (Inl (Tunnel_Error (Bad_Frame e)), t\<lparr>recv_buf := buf, reader := map_option (\<lambda>_. cs) (reader t)\<rparr>)
     | RL_Eof buf cs \<Rightarrow>
         (if reader t = None then (Inl Attribute_Error, t)
          else (Inl (Tunnel_Error Closed_By_Peer), t\<lparr>recv_buf := buf, reader := Some cs\<rparr>))
     | RL_Frame f rest cs \<Rightarrow>
         sbind (select_decrypt_key (ftype f)) (\<lambda>key.
           case aes_cbc_decrypt L key (ciphertext f) of
             None \<Rightarrow> sraise Crypto_Error
           | Some plaintext \<Rightarrow> sret (ftype f, plaintext))
           (t\<lparr>recv_buf := rest, reader := map_option (\<lambda>_. cs) (reader t)\<rparr>))"

section \<open>Handshake\<close>

definition build_ecdh_payload :: "bytes \<Rightarrow> bytes \<Rightarrow> tunnel_error + bytes" where
  "build_ecdh_payload pubkey48 nonce16 =
     (if length pubkey48 \<noteq> PUBKEY_BYTES then Inl Bad_Length
      else if length nonce16 \<noteq> 16 then Inl Bad_Length
      else Inr ([0x00, 0x30] @ pubkey48 @ [0x00, 0x10] @ nonce16))"

definition parse_ecdh_payload :: "bytes \<Rightarrow> tunnel_error + bytes \<times> bytes option" where
  "parse_ecdh_payload plaintext =
     (if length plaintext < 2 + PUBKEY_BYTES then Inl (Tunnel_Error Short_Ecdh)
      else if pyslice 0 2 plaintext \<noteq> [0x00, 0x30] then Inl (Tunnel_Error (Bad_Ecdh_Header (pyslice 0 2 plaintext)))
      else
        let pubkey = pyslice 2 (2 + PUBKEY_BYTES) plaintext;
            cursor = 2 + PUBKEY_BYTES
        in if length plaintext < cursor + 2 + 16 then Inr (pubkey, None)
           else if pyslice cursor (cursor + 2) plaintext \<noteq> [0x00, 0x10] then Inr (pubkey, None)
           else Inr (pubkey, Some (pyslice (cursor + 2) (cursor + 2 + 16) plaintext)))"

text \<open>Any failure to decrypt is no proof; an unrecognised layout is accepted.\<close>

definition verify_server_proof :: "cipher_lib \<Rightarrow> bytes \<Rightarrow> bytes \<Rightarrow> bool" where
  "verify_server_proof L key plaintext =
     (if length plaintext < 2 + 16 + 2 + 32 \<or> pyslice 0 2 plaintext \<noteq> [0x00, 0x10] \<or>
         pyslice 18 20 plaintext \<noteq> [0x00, 0x20]
      then True
      else aes_cbc_decrypt L key (pyslice 20 52 plaintext) = Some (pyslice 2 18 plaintext))"

definition private_scalar :: "bytes \<Rightarrow> nat" where
  "private_scalar random24 = (let k = nat_of_le random24 mod 2 ^ 163 in if k = 0 then 1 else k)"

definition ecc_call :: "ecc_error + 'a \<Rightarrow> 'a tun" where
  "ecc_call r = slift (case r of Inl e \<Rightarrow> Inl (Ecc_Failure e) | Inr x \<Rightarrow> Inr x)"

definition handshake_hello :: "cipher_lib \<Rightarrow> bytes \<Rightarrow> bytes \<Rightarrow> unit tun" where
  "handshake_hello L random24 our_nonce =
     sbind (ecc_call (field_to_bytes (private_scalar random24))) (\<lambda>priv.
     sbind (supd (\<lambda>t. t\<lparr>client_priv := Some priv\<rparr>)) (\<lambda>_.
     sbind (ecc_call (ecdh_pubkey_from_privkey priv)) (\<lambda>our_pub.
     sbind (slift (build_ecdh_payload our_pub our_nonce)) (\<lambda>out.
     sbind (sget device_key) (\<lambda>key. send_frame L MSG_TYPE_ECDH out key)))))"

definition handshake_key :: "cipher_lib \<Rightarrow> bytes tun" where
  "handshake_key L =
     sbind (recv_frame L) (\<lambda>(frame_type, plaintext).
     if frame_type \<noteq> MSG_TYPE_ECDH then sraise (Tunnel_Error (Expected_Ecdh frame_type))
     else sbind (slift (parse_ecdh_payload plaintext)) (\<lambda>(server_pub, server_nonce).
     sbind (sget client_priv) (\<lambda>priv.
     case priv of None \<Rightarrow> sraise Attribute_Error
     | Some priv \<Rightarrow>
         sbind (ecc_call (ecdh_shared_secret priv server_pub)) (\<lambda>shared.
         sbind (supd (\<lambda>t. t\<lparr>session_key := Some (take 16 shared)\<rparr>)) (\<lambda>_. sret (take 16 shared))))))"

definition handshake_verify :: "cipher_lib \<Rightarrow> bytes \<Rightarrow> bytes \<Rightarrow> unit tun" where
  "handshake_verify L skey challenge =
     (case aes_cbc_encrypt L skey challenge of
        None \<Rightarrow> sraise Crypto_Error
      | Some challenge_encrypted \<Rightarrow>
          sbind (sget device_key) (\<lambda>key.
          sbind (send_frame L MSG_TYPE_VERIFY ([0x00, 0x04] @ challenge @ [0x00, 0x10] @ challenge_encrypted) key) (\<lambda>_.
          sbind (recv_frame L) (\<lambda>(frame_type, plaintext).
          if frame_type \<noteq> MSG_TYPE_VERIFY then sraise (Tunnel_Error (Expected_Verify frame_type))
          else if \<not> verify_server_proof L skey plaintext then sraise (Tunnel_Error Bad_Proof)
          else sret ()))))"

definition handshake :: "cipher_lib \<Rightarrow> bytes \<Rightarrow> bytes \<Rightarrow> bytes \<Rightarrow> unit tun" where
  "handshake L random24 our_nonce challenge =
     sbind (handshake_hello L random24 our_nonce) (\<lambda>_.
     sbind (handshake_key L) (\<lambda>skey. handshake_verify L skey challenge))"

text \<open>\<open>peer\<close> is what the opened connection is going to deliver.\<close>

definition tunnel_connect :: "cipher_lib \<Rightarrow> bytes list \<Rightarrow> bytes \<Rightarrow> bytes \<Rightarrow> bytes \<Rightarrow> unit tun" where
  "tunnel_connect L peer random24 our_nonce challenge =
     sbind (supd (\<lambda>t. t\<lparr>reader := Some peer, writer := Some \<lparr>sent = [], closing = False\<rparr>\<rparr>)) (\<lambda>_.
     sbind (handshake L random24 our_nonce challenge) (\<lambda>_.
     sbind (sget keepalive_interval) (\<lambda>iv.
     if iv > 0 then supd (\<lambda>t. t\<lparr>keepalive_task := True\<rparr>) else sret ())))"

section \<open>Messages\<close>

definition tunnel_send :: "cipher_lib \<Rightarrow> json \<Rightarrow> unit tun" where
  "tunnel_send L message =
     sbind (sget session_key) (\<lambda>k. case k of
       None \<Rightarrow> sraise (Tunnel_Error No_Session_Key)
     | Some key \<Rightarrow> send_frame L MSG_TYPE_SESSION (utf8_encode (dumps_indent 2 message)) key)"

definition decode_message :: "bytes \<Rightarrow> (string \<times> json) list option tun" where
  "decode_message plaintext =
     (case (case utf8_decode plaintext of Inl e \<Rightarrow> Inl e | Inr s \<Rightarrow> loads s) of
        Inl Malformed \<Rightarrow> sret None
      | Inl Beyond \<Rightarrow> sraise Text_Beyond
      | Inr (JObj d) \<Rightarrow> sret (Some d)
      | Inr _ \<Rightarrow> sret None)"

definition tunnel_receive :: "cipher_lib \<Rightarrow> rat \<Rightarrow> (string \<times> json) list option tun" where
  "tunnel_receive L now = (\<lambda>t.
     case recv_frame L t of
       (Inl (Tunnel_Error r), t1) \<Rightarrow> (Inr None, t1)
     | (Inl e, t1) \<Rightarrow> (Inl e, t1)
     | (Inr (frame_type, plaintext), t1) \<Rightarrow>
         (let t2 = t1\<lparr>last_recv := now\<rparr>
          in if frame_type \<noteq> MSG_TYPE_SESSION then (Inl (Tunnel_Error (Not_Session frame_type)), t2)
             else decode_message plaintext t2))"

definition tunnel_close :: "tunnel \<Rightarrow> tunnel" where
  "tunnel_close t = t\<lparr>keepalive_task := False, reader := None, writer := None, session_key := None, recv_buf := []\<rparr>"

definition tunnel_is_connected :: "tunnel \<Rightarrow> bool" where
  "tunnel_is_connected t =
     ((case writer t of None \<Rightarrow> False | Some w \<Rightarrow> \<not> closing w) \<and> session_key t \<noteq> None)"

section \<open>Keepalive\<close>

definition keepalive_acks_lost :: "rat \<Rightarrow> rat \<Rightarrow> rat \<Rightarrow> rat \<Rightarrow> bool" where
  "keepalive_acks_lost last_recv_at now interval factor = (now - last_recv_at > interval * factor)"

definition keepalive_message :: "int \<Rightarrow> json" where
  "keepalive_message ms = JObj
     [(''cmd'', JStr ''keepalive''), (''data'', JObj [(''timestamp'', JInt ms)]),
      (''seq'', JInt 1), (''type'', JStr ''session'')]"

text \<open>
  One turn of the keepalive loop after its sleep, at monotonic time \<open>now\<close> and wall-clock \<open>ms\<close>: the
  value says whether the loop goes on. The writer is closed when the hub has been silent too long.
\<close>

definition keepalive_tick :: "cipher_lib \<Rightarrow> rat \<Rightarrow> int \<Rightarrow> bool tun" where
  "keepalive_tick L now ms = (\<lambda>t.
     if session_key t = None then (Inr False, t)
     else if keepalive_acks_lost (last_recv t) now (keepalive_interval t) KEEPALIVE_LOSS_FACTOR
     then (Inr False, t\<lparr>writer := map_option (\<lambda>w. w\<lparr>closing := True\<rparr>) (writer t)\<rparr>)
     else case tunnel_send L (keepalive_message ms) t of
            (Inl (Tunnel_Error r), t1) \<Rightarrow> (Inr False, t1)
          | (Inl e, t1) \<Rightarrow> (Inl e, t1)
          | (Inr _, t1) \<Rightarrow> (Inr True, t1))"


section \<open>The framing interface\<close>

lemma encode_frame_parse:
  assumes "encode_frame f = Some bs" and "length (ciphertext f) \<le> MAX_FRAME_CT_LEN"
  shows "parse_frame (bs @ rest) = Inr (Some (f, rest))"
  by (rule parse_encode_frame_aux [OF assms])

lemma parse_frame_prefix:
  assumes "encode_frame f = Some (p @ q)" and "length (ciphertext f) \<le> MAX_FRAME_CT_LEN" and "q \<noteq> []"
  shows "parse_frame p = Inr None"
proof (cases "length p < FRAME_HEADER_LEN")
  case False
  then have p8: "8 \<le> length p" by (simp add: FRAME_HEADER_LEN_def)
  let ?ct = "ciphertext f"
  have bs: "p @ q = FRAME_MAGIC @ be_bytes 2 (ftype f) @ be_bytes 4 (length ?ct) @ ?ct @ crc_trailer ?ct @ []"
    and lw: "length ?ct < 4294967296"
    using assms(1) by (auto simp: encode_frame_cases)
  have parts: "length (be_bytes 2 (ftype f)) = 2" "length (be_bytes 4 (length ?ct)) = 4"
    "nat_of_be (be_bytes 4 (length ?ct)) = length ?ct" "length (crc_trailer ?ct) = 2"
    using lw by (simp_all add: nat_of_be_bytes length_crc_trailer)
  note pp = parse_parts [OF bs parts]
  have "pyslice 0 2 p = FRAME_MAGIC" "pyslice 4 8 p = be_bytes 4 (length ?ct)"
    using pp(2,4) p8 slice_append_left [of 2 p 0 q] slice_append_left [of 8 p 4 q] by simp_all
  moreover have "length p < 8 + length ?ct + 2" using pp(1) assms(3) by (cases q) simp_all
  ultimately show ?thesis
    using assms(2) False parts unfolding parse_frame_def Let_def
    by (simp add: FRAME_HEADER_LEN_def FRAME_TRAILER_LEN_def)
qed (simp add: parse_frame_def)

interpretation frames: framing parse_frame encode_frame "\<lambda>f. length (ciphertext f) \<le> MAX_FRAME_CT_LEN"
  by unfold_locales (use encode_frame_parse parse_frame_prefix in blast)+

section \<open>A message through the tunnel\<close>

lemma aes_roundtrip:
  assumes "cipher_lib_ok L" "length key = 16"
  obtains ct where "aes_cbc_encrypt L key p = Some ct" "length ct = 16 * (length p div 16 + 1)"
    "aes_cbc_decrypt L key ct = Some p"
proof -
  have pad: "length (pkcs7_pad L p) = 16 * (length p div 16 + 1)" "pkcs7_unpad L (pkcs7_pad L p) = Some p"
    using assms(1) by (simp_all add: cipher_lib_ok_def)
  then have "16 dvd length (pkcs7_pad L p)" by simp
  then obtain c where "cbc_encrypt L key key (pkcs7_pad L p) = Some c" "length c = length (pkcs7_pad L p)"
    "cbc_decrypt L key key c = Some (pkcs7_pad L p)"
    using assms unfolding cipher_lib_ok_def by metis
  with pad that show ?thesis by (simp add: aes_cbc_encrypt_def aes_cbc_decrypt_def)
qed

lemma send_frame_writes:
  assumes "cipher_lib_ok L" "length key = 16" "ty < 65536" "length p < 262144" "writer t = Some w"
  obtains ct bs where "aes_cbc_decrypt L key ct = Some p" "length ct \<le> MAX_FRAME_CT_LEN"
    "encode_frame \<lparr>ftype = ty, ciphertext = ct\<rparr> = Some bs"
    "send_frame L ty p key t = (Inr (), t\<lparr>writer := Some (w\<lparr>sent := sent w @ bs\<rparr>)\<rparr>)"
proof -
  obtain ct where ct: "aes_cbc_encrypt L key p = Some ct" "length ct = 16 * (length p div 16 + 1)"
    "aes_cbc_decrypt L key ct = Some p"
    using aes_roundtrip [OF assms(1,2)] .
  have l: "length ct \<le> 262144" using assms(4) ct(2) by simp
  then obtain bs where bs: "encode_frame \<lparr>ftype = ty, ciphertext = ct\<rparr> = Some bs"
    using assms(3) by (auto simp: encode_frame_cases)
  have "send_frame L ty p key t = (Inr (), t\<lparr>writer := Some (w\<lparr>sent := sent w @ bs\<rparr>)\<rparr>)"
    using assms(5) ct bs by (simp add: send_frame_def sbind_eq write_sock_def)
  with that ct bs l show ?thesis by (simp add: MAX_FRAME_CT_LEN_def)
qed


lemma recv_frame_reads:
  assumes "encode_frame f = Some bs" "length (ciphertext f) \<le> MAX_FRAME_CT_LEN" "reader t = Some chunks"
    and "recv_buf t @ concat chunks = bs @ rest" "[] \<notin> set chunks"
  obtains buf cs where "buf @ concat cs = rest" "[] \<notin> set cs"
    "recv_frame L t = sbind (select_decrypt_key (ftype f)) (\<lambda>key.
       case aes_cbc_decrypt L key (ciphertext f) of
         None \<Rightarrow> sraise Crypto_Error | Some plaintext \<Rightarrow> sret (ftype f, plaintext))
       (t\<lparr>recv_buf := buf, reader := Some cs\<rparr>)"
proof -
  obtain buf cs where "read_loop parse_frame (recv_buf t) chunks = RL_Frame f buf cs"
    "buf @ concat cs = rest" "set cs \<subseteq> set chunks"
    using frames.read_loop_frame [OF assms(1,2,4,5)] by blast
  with that assms(3,5) show ?thesis by (auto simp: recv_frame_def)
qed

lemma recv_session_frame:
  assumes "encode_frame \<lparr>ftype = MSG_TYPE_SESSION, ciphertext = ct\<rparr> = Some bs"
    and "aes_cbc_decrypt L key ct = Some p" "length ct \<le> MAX_FRAME_CT_LEN"
    and b: "session_key b = Some key" "reader b = Some chunks" "[] \<notin> set chunks"
    and "recv_buf b @ concat chunks = bs @ rest"
  obtains buf cs where "buf @ concat cs = rest"
    "recv_frame L b = (Inr (MSG_TYPE_SESSION, p), b\<lparr>recv_buf := buf, reader := Some cs\<rparr>)"
proof -
  let ?f = "\<lparr>ftype = MSG_TYPE_SESSION, ciphertext = ct\<rparr>"
  have l: "length (ciphertext ?f) \<le> MAX_FRAME_CT_LEN" using assms(3) by simp
  obtain buf cs where r: "buf @ concat cs = rest"
    and rf: "recv_frame L b = sbind (select_decrypt_key (ftype ?f)) (\<lambda>key.
       case aes_cbc_decrypt L key (ciphertext ?f) of
         None \<Rightarrow> sraise Crypto_Error | Some plaintext \<Rightarrow> sret (ftype ?f, plaintext))
       (b\<lparr>recv_buf := buf, reader := Some cs\<rparr>)"
    using recv_frame_reads [OF assms(1) l b(2) assms(7) b(3), of L] by metis
  have "recv_frame L b = (Inr (MSG_TYPE_SESSION, p), b\<lparr>recv_buf := buf, reader := Some cs\<rparr>)"
    unfolding rf by (simp add: select_decrypt_key_def sbind_eq b assms(2))
  with r that show ?thesis by blast
qed


section \<open>What the handshake writes\<close>

text \<open>\<open>wrote tys t t'\<close>: from \<open>t\<close> to \<open>t'\<close> only whole frames of the types \<open>tys\<close> were written.\<close>

inductive wrote :: "nat set \<Rightarrow> tunnel \<Rightarrow> tunnel \<Rightarrow> bool" for tys where
  wrote_none: "writer t' = writer t \<Longrightarrow> wrote tys t t'"
| wrote_frame: "wrote tys t t1 \<Longrightarrow> writer t1 = Some w \<Longrightarrow> encode_frame f = Some bs \<Longrightarrow> ftype f \<in> tys \<Longrightarrow>
    writer t' = Some (w\<lparr>sent := sent w @ bs\<rparr>) \<Longrightarrow> wrote tys t t'"

lemma wrote_trans: "wrote tys t1 t2 \<Longrightarrow> wrote tys t t1 \<Longrightarrow> wrote tys t t2"
proof (induction rule: wrote.induct)
  case (wrote_none t' t1)
  from wrote_none(2,1) show ?case
    by (induction rule: wrote.induct) (auto intro: wrote.intros)
next
  case (wrote_frame t1 t2 w f bs t')
  then show ?case by (auto intro: wrote.wrote_frame)
qed

lemma wrote_send: "ty \<in> tys \<Longrightarrow> wrote tys t (snd (send_frame L ty p key t))"
  by (cases "writer t")
    (auto simp: send_frame_def write_sock_def sbind_eq split: option.splits
      intro: wrote.wrote_none wrote.wrote_frame [OF wrote.wrote_none, of t])

lemma select_key_state [simp]: "snd (select_decrypt_key ty t) = t"
  by (simp add: select_decrypt_key_def sbind_eq split: option.splits)

lemma select_key_result: "select_decrypt_key ty t = (r, t') \<Longrightarrow> t' = t"
  by (metis snd_conv select_key_state)

lemma recv_frame_keeps:
  "writer (snd (recv_frame L t)) = writer t" "device_key (snd (recv_frame L t)) = device_key t"
  "session_key (snd (recv_frame L t)) = session_key t" "client_priv (snd (recv_frame L t)) = client_priv t"
proof -
  have "\<exists>buf cs. snd (recv_frame L t) = t\<lparr>recv_buf := buf, reader := cs\<rparr>"
  proof (cases "case reader t of None \<Rightarrow> read_loop parse_frame (recv_buf t) [] | Some cs \<Rightarrow> read_loop parse_frame (recv_buf t) cs")
    case (RL_Frame f rest cs)
    let ?t = "t\<lparr>recv_buf := rest, reader := map_option (\<lambda>_. cs) (reader t)\<rparr>"
    have "snd (sbind (select_decrypt_key (ftype f)) (\<lambda>key. case aes_cbc_decrypt L key (ciphertext f) of
         None \<Rightarrow> sraise Crypto_Error | Some plaintext \<Rightarrow> sret (ftype f, plaintext)) ?t) = ?t"
      by (auto simp: sbind_eq dest: select_key_result split: prod.splits sum.splits option.splits)
    then show ?thesis unfolding recv_frame_def RL_Frame by auto
  next
    case (RL_Bad e buf cs)
    then show ?thesis unfolding recv_frame_def by auto
  next
    case (RL_Eof buf cs)
    show ?thesis
    proof (cases "reader t")
      case None
      then have "snd (recv_frame L t) = t\<lparr>recv_buf := recv_buf t, reader := reader t\<rparr>"
        using RL_Eof by (simp add: recv_frame_def)
      then show ?thesis by blast
    qed (use RL_Eof in \<open>auto simp: recv_frame_def\<close>)
  qed
  then show "writer (snd (recv_frame L t)) = writer t" "device_key (snd (recv_frame L t)) = device_key t"
    "session_key (snd (recv_frame L t)) = session_key t" "client_priv (snd (recv_frame L t)) = client_priv t"
    by auto
qed

definition writes_only :: "nat set \<Rightarrow> 'a tun \<Rightarrow> bool" where
  "writes_only tys m \<longleftrightarrow> (\<forall>t. wrote tys t (snd (m t)))"

lemma writes_only_bind:
  "writes_only tys m \<Longrightarrow> (\<And>x. writes_only tys (f x)) \<Longrightarrow> writes_only tys (sbind m f)"
  unfolding writes_only_def sbind_eq
  by (auto split: prod.splits sum.splits) (metis snd_conv, metis snd_conv wrote_trans)

lemma writes_only_simple [intro!, simp]:
  "writes_only tys (sret x)" "writes_only tys (sraise e)" "writes_only tys (sget g)" "writes_only tys (slift r)"
  "writes_only tys (recv_frame L)" "writes_only tys (ecc_call c)"
  "(\<And>t. writer (h t) = writer t) \<Longrightarrow> writes_only tys (supd h)"
  by (simp_all add: writes_only_def wrote.wrote_none recv_frame_keeps ecc_call_def)

lemma writes_only_send: "ty \<in> tys \<Longrightarrow> writes_only tys (send_frame L ty p key)"
  by (simp add: writes_only_def wrote_send)

lemma handshake_writes:
  "writes_only {MSG_TYPE_ECDH, MSG_TYPE_VERIFY} (handshake L random24 our_nonce challenge)"
  unfolding handshake_def handshake_hello_def handshake_key_def handshake_verify_def
  by (auto intro!: writes_only_bind writes_only_send split: option.splits)

lemma handshake_sends:
  "wrote {MSG_TYPE_ECDH, MSG_TYPE_VERIFY} t (snd (handshake L random24 our_nonce challenge t))"
  using handshake_writes by (simp add: writes_only_def)

text \<open>
    Whatever the peer answers and however the handshake ends, it writes nothing to the socket but whole
  frames of the two handshake types: no session data is sent before the handshake has returned.
\<close>

theorem handshake_sends_no_session_data:
  "wrote {MSG_TYPE_ECDH, MSG_TYPE_VERIFY} t (snd (handshake L random24 our_nonce challenge t))"
  by (rule handshake_sends)

text \<open>
    \<open>send\<close> refuses before any byte is written when no session key is set, which is the state of a new
  and of a closed tunnel.
\<close>

theorem send_needs_session_key:
  "tunnel_send L message (t\<lparr>session_key := None\<rparr>) = (Inl (Tunnel_Error No_Session_Key), t\<lparr>session_key := None\<rparr>) \<and>
   tunnel_send L message (tunnel_close t) = (Inl (Tunnel_Error No_Session_Key), tunnel_close t) \<and>
   (case init_tunnel device_id interval now of None \<Rightarrow> True
    | Some t0 \<Rightarrow> tunnel_send L message t0 = (Inl (Tunnel_Error No_Session_Key), t0))"
  by (auto simp: tunnel_send_def sbind_eq tunnel_close_def init_tunnel_def new_tunnel_def split: option.splits)

section \<open>Key verification\<close>

lemma verify_frame_parts:
  assumes "length enc1 = 16" "length enc2 = 32"
  shows "pyslice 0 2 ([0x00, 0x10] @ enc1 @ [0x00, 0x20] @ enc2) = [0x00, 0x10]"
    "pyslice 18 20 ([0x00, 0x10] @ enc1 @ [0x00, 0x20] @ enc2) = [0x00, 0x20]"
    "pyslice 2 18 ([0x00, 0x10] @ enc1 @ [0x00, 0x20] @ enc2) = enc1"
    "pyslice 20 52 ([0x00, 0x10] @ enc1 @ [0x00, 0x20] @ enc2) = enc2"
  using assms by (simp_all add: pyslice_def numeral_eq_Suc)

lemma server_proof_eq:
  assumes "cipher_lib_ok L" "length key = 16" "length e1 = 16" "length e2 = 32"
  shows "verify_server_proof L key ([0x00, 0x10] @ e1 @ [0x00, 0x20] @ e2) = (aes_cbc_decrypt L key e2 = Some e1)"
  using verify_frame_parts [OF assms(3,4)] assms(3,4) by (simp add: verify_server_proof_def)

text \<open>
  The key verification accepts the frame of a peer that holds the session key (the encryption of a
  short challenge, and the encryption of that again), rejects every frame of that layout whose second
  part does not decrypt to the first under our session key, and accepts any other layout.
\<close>

theorem server_proof:
  assumes "cipher_lib_ok L" "length key = 16"
  shows "(length challenge < 16 \<and> aes_cbc_encrypt L key challenge = Some enc1 \<and> aes_cbc_encrypt L key enc1 = Some enc2 \<longrightarrow>
      verify_server_proof L key ([0x00, 0x10] @ enc1 @ [0x00, 0x20] @ enc2)) \<and>
    (length e1 = 16 \<and> length e2 = 32 \<longrightarrow>
      verify_server_proof L key ([0x00, 0x10] @ e1 @ [0x00, 0x20] @ e2) = (aes_cbc_decrypt L key e2 = Some e1)) \<and>
    (length p < 52 \<or> take 2 p \<noteq> [0x00, 0x10] \<longrightarrow> verify_server_proof L key p)"
proof (intro conjI impI)
  note eq = server_proof_eq [OF assms]
  show "verify_server_proof L key ([0x00, 0x10] @ e1 @ [0x00, 0x20] @ e2) = (aes_cbc_decrypt L key e2 = Some e1)"
    if "length e1 = 16 \<and> length e2 = 32" using that eq by blast
  show "verify_server_proof L key ([0x00, 0x10] @ enc1 @ [0x00, 0x20] @ enc2)"
    if h: "length challenge < 16 \<and> aes_cbc_encrypt L key challenge = Some enc1 \<and> aes_cbc_encrypt L key enc1 = Some enc2"
  proof -
    have "length enc1 = 16" using aes_roundtrip [OF assms, of challenge] h by force
    moreover have "length enc2 = 32 \<and> aes_cbc_decrypt L key enc2 = Some enc1"
      using aes_roundtrip [OF assms, of enc1] h calculation by force
    ultimately show ?thesis using eq by simp
  qed
  show "length p < 52 \<or> take 2 p \<noteq> [0x00, 0x10] \<Longrightarrow> verify_server_proof L key p"
    by (auto simp: verify_server_proof_def pyslice_def)
qed

text \<open>
    The hello payload: what \<open>_build_ecdh_payload\<close> writes for a 48-byte key and a 16-byte nonce is 68
  bytes that \<open>_parse_ecdh_payload\<close> splits into the same key and nonce, and a payload without the
  nonce (the server's form) gives the key alone.
\<close>

theorem ecdh_payload_codec:
  assumes "length pub = 48" "length nonce = 16"
  shows "\<exists>p. build_ecdh_payload pub nonce = Inr p \<and> length p = 68 \<and> parse_ecdh_payload p = Inr (pub, Some nonce) \<and>
    parse_ecdh_payload (take 50 p) = Inr (pub, None)"
proof -
  let ?p = "[0x00, 0x30] @ pub @ [0x00, 0x10] @ nonce :: bytes"
  have d: "drop 2 ?p = pub @ [0x00, 0x10] @ nonce" "drop 50 ?p = [0x00, 0x10] @ nonce" "drop 52 ?p = nonce"
    "take 2 ?p = [0x00, 0x30]" "take 50 ?p = [0x00, 0x30] @ pub"
    using assms by (simp_all add: numeral_eq_Suc)
  have s: "pyslice 0 2 ?p = [0x00, 0x30]" "pyslice 2 50 ?p = pub" "pyslice 50 52 ?p = [0x00, 0x10]"
    "pyslice 52 68 ?p = nonce" "pyslice 0 2 (take 50 ?p) = [0x00, 0x30]" "pyslice 2 50 (take 50 ?p) = pub"
    using assms unfolding pyslice_def d by simp_all
  have l: "length ?p = 68" using assms by simp
  have "build_ecdh_payload pub nonce = Inr ?p" using assms by (simp add: build_ecdh_payload_def PUBKEY_BYTES_def)
  moreover have "parse_ecdh_payload ?p = Inr (pub, Some nonce)"
    using s l by (simp add: parse_ecdh_payload_def PUBKEY_BYTES_def Let_def)
  moreover have "parse_ecdh_payload (take 50 ?p) = Inr (pub, None)"
    unfolding d(5) using s(5,6) [unfolded d(5)] assms by (simp add: parse_ecdh_payload_def PUBKEY_BYTES_def Let_def)
  ultimately show ?thesis using l by blast
qed

section \<open>The outcome of a handshake\<close>

lemma ecc_call_Inr: "ecc_call r t = (Inr x, t') \<longleftrightarrow> r = Inr x \<and> t' = t"
  by (auto simp: ecc_call_def split: sum.splits)

lemma length_shared_secret: "ecdh_shared_secret priv peer = Inr s \<Longrightarrow> length s = 24"
  by (auto simp: ecdh_shared_secret_def ebind_def Let_def field_to_bytes_eq length_le_bytes
      split: sum.splits if_splits prod.splits)

lemma handshake_key_returns:
  assumes "handshake_key L t = (Inr skey, t')"
  shows "\<exists>plaintext server_pub nonce priv shared. recv_frame L t = (Inr (MSG_TYPE_ECDH, plaintext), snd (recv_frame L t)) \<and>
    parse_ecdh_payload plaintext = Inr (server_pub, nonce) \<and> client_priv t = Some priv \<and>
    ecdh_shared_secret priv server_pub = Inr shared \<and> skey = take 16 shared \<and> session_key t' = Some skey \<and>
    writer t' = writer t"
  using assms recv_frame_keeps [of L t]
  by (auto simp: handshake_key_def sbind_eq ecc_call_def split: prod.splits sum.splits if_splits option.splits)

lemma handshake_verify_session: "session_key (snd (handshake_verify L skey c t)) = session_key t"
  and handshake_verify_writer: "writer t \<noteq> None \<Longrightarrow> writer (snd (handshake_verify L skey c t)) \<noteq> None"
proof -
  have s: "session_key (snd (send_frame L ty p k t)) = session_key t" for ty p k t
    by (simp add: send_frame_def sbind_eq write_sock_def split: option.splits)
  have w: "writer t \<noteq> None \<Longrightarrow> writer (snd (send_frame L ty p k t)) \<noteq> None" for ty p k t
    by (auto simp: send_frame_def sbind_eq write_sock_def split: option.splits)
  show "session_key (snd (handshake_verify L skey c t)) = session_key t"
    using s recv_frame_keeps(3) [of L]
    by (auto simp: handshake_verify_def sbind_eq split: prod.splits sum.splits option.splits) (metis snd_conv)+
  show "writer t \<noteq> None \<Longrightarrow> writer (snd (handshake_verify L skey c t)) \<noteq> None"
    using w recv_frame_keeps(1) [of L]
    by (auto simp: handshake_verify_def sbind_eq split: prod.splits sum.splits option.splits) (metis snd_conv)+
qed


lemma wrote_closing: "wrote tys t t' \<Longrightarrow> map_option closing (writer t') = map_option closing (writer t)"
  by (induction rule: wrote.induct) auto

lemma handshake_hello_priv:
  assumes "handshake_hello L random24 nonce t = (Inr u, t1)"
  shows "client_priv t1 = Some (le_bytes 24 (private_scalar random24))"
proof -
  have s: "client_priv (snd (send_frame L ty p k t)) = client_priv t" for ty p k t
    by (simp add: send_frame_def sbind_eq write_sock_def split: option.splits)
  have "private_scalar random24 < 2 ^ 163" by (simp add: private_scalar_def Let_def)
  then have f: "field_to_bytes (private_scalar random24) = Inr (le_bytes 24 (private_scalar random24))"
    by (simp add: field_to_bytes_eq)
  show ?thesis
    using assms by (auto simp: handshake_hello_def sbind_eq ecc_call_def f
        split: prod.splits sum.splits) (metis snd_conv s select_convs(5) surjective update_convs(5))+
qed

lemma handshake_parts:
  assumes "handshake L random24 our_nonce challenge t = (r, t')"
  obtains (hello) e where "handshake_hello L random24 our_nonce t = (Inl e, t')" "r = Inl e"
  | (key) e t1 where "handshake_hello L random24 our_nonce t = (Inr (), t1)" "handshake_key L t1 = (Inl e, t')" "r = Inl e"
  | (verify) t1 t2 skey where "handshake_hello L random24 our_nonce t = (Inr (), t1)"
      "handshake_key L t1 = (Inr skey, t2)" "handshake_verify L skey challenge t2 = (r, t')"
  using assms unfolding handshake_def by (elim sbind_cases) auto

lemma no_proof_before_verify:
  "handshake_hello L random24 our_nonce t \<noteq> (Inl (Tunnel_Error Bad_Proof), t')"
  "handshake_key L t \<noteq> (Inl (Tunnel_Error Bad_Proof), t')"
proof -
  have r: "fst (recv_frame L t) \<noteq> Inl (Tunnel_Error Bad_Proof)" for t
    by (auto simp: recv_frame_def select_decrypt_key_def sbind_eq split: read_outcome.splits option.splits prod.splits sum.splits if_splits)
  show "handshake_key L t \<noteq> (Inl (Tunnel_Error Bad_Proof), t')"
    using r [of t] by (auto simp: handshake_key_def sbind_eq ecc_call_def parse_ecdh_payload_def Let_def
        split: prod.splits sum.splits if_splits option.splits)
  show "handshake_hello L random24 our_nonce t \<noteq> (Inl (Tunnel_Error Bad_Proof), t')"
    by (auto simp: handshake_hello_def sbind_eq ecc_call_def build_ecdh_payload_def send_frame_def write_sock_def
        split: prod.splits sum.splits if_splits option.splits)
qed


lemma handshake_returned:
  assumes "handshake L random24 our_nonce challenge t = (Inr u, t')"
  shows "\<exists>hello server_pub nonce shared proof. parse_ecdh_payload hello = Inr (server_pub, nonce) \<and>
      ecdh_shared_secret (le_bytes 24 (private_scalar random24)) server_pub = Inr shared \<and>
      length shared = 24 \<and> session_key t' = Some (take 16 shared) \<and> verify_server_proof L (take 16 shared) proof"
  using assms
proof (cases rule: handshake_parts)
  case (verify t1 t2 skey)
  obtain plaintext server_pub nonce priv shared where k: "parse_ecdh_payload plaintext = Inr (server_pub, nonce)"
    "ecdh_shared_secret priv server_pub = Inr shared"
    "skey = take 16 shared" "session_key t2 = Some skey" and "client_priv t1 = Some priv"
    using handshake_key_returns [OF verify(2)] by blast
  then have priv: "priv = le_bytes 24 (private_scalar random24)"
    using handshake_hello_priv [OF verify(1)] by (metis option.inject)
  have "\<exists>proof. verify_server_proof L skey proof"
    using verify(3)
    by (auto simp: handshake_verify_def sbind_eq split: option.splits prod.splits sum.splits if_splits)
  moreover have "session_key t' = Some skey"
    using handshake_verify_session [of L skey challenge t2] verify(3) k(4) by simp
  ultimately show ?thesis using k length_shared_secret [OF k(2)] unfolding priv by blast
qed simp_all

lemma handshake_bad_proof:
  assumes "handshake L random24 our_nonce challenge t = (Inl (Tunnel_Error Bad_Proof), t')"
  shows "session_key t' \<noteq> None"
  using assms
proof (cases rule: handshake_parts)
  case (verify t1 t2 skey)
  then show ?thesis
    using handshake_key_returns [OF verify(2)] handshake_verify_session [of L skey challenge t2] by auto
qed (use no_proof_before_verify in auto)


text \<open>
    A tunnel whose peer failed the key verification still counts as connected: the exception is raised
  with the session key in place and the socket open, so nothing in the tunnel itself keeps \<open>send\<close>
  from encrypting messages (the check-in with the cloud token among them) for that peer.
\<close>

theorem failed_verify_still_connected:
  assumes "handshake_verify L skey challenge t = (Inl (Tunnel_Error Bad_Proof), t')"
    and "session_key t = Some skey" "writer t = Some w" "\<not> closing w"
  shows "tunnel_is_connected t'"
proof -
  have "writes_only {MSG_TYPE_VERIFY} (handshake_verify L skey challenge)"
    unfolding handshake_verify_def
    by (auto intro!: writes_only_bind writes_only_send split: option.splits)
  then have "wrote {MSG_TYPE_VERIFY} t t'" using assms(1) by (metis snd_conv writes_only_def)
  then have "map_option closing (writer t') = Some False" using wrote_closing assms(3,4) by fastforce
  moreover have "session_key t' = Some skey"
    using handshake_verify_session [of L skey challenge t] assms by simp
  ultimately show ?thesis by (auto simp: tunnel_is_connected_def)
qed

section \<open>Keepalive\<close>

text \<open>
    Half-open connections are noticed: a keepalive turn that finds nothing received for more than three
  intervals writes nothing, closes the writer (so the tunnel is no longer connected) and ends the
  loop; on a connected tunnel that has heard from the hub in time it sends exactly one session frame
  and goes on.
\<close>

theorem keepalive_detects_silence:
  assumes "session_key t = Some key" "writer t = Some w"
  shows "(now - last_recv t > 3 * keepalive_interval t \<longrightarrow>
      keepalive_tick L now ms t = (Inr False, t\<lparr>writer := Some (w\<lparr>closing := True\<rparr>)\<rparr>) \<and>
      \<not> tunnel_is_connected (snd (keepalive_tick L now ms t))) \<and>
    (cipher_lib_ok L \<and> length key = 16 \<and> now - last_recv t \<le> 3 * keepalive_interval t \<and>
      length (utf8_encode (dumps_indent 2 (keepalive_message ms))) < 262144 \<longrightarrow>
      (\<exists>f bs. encode_frame f = Some bs \<and> ftype f = MSG_TYPE_SESSION \<and>
        keepalive_tick L now ms t = (Inr True, t\<lparr>writer := Some (w\<lparr>sent := sent w @ bs\<rparr>)\<rparr>)))"
proof (intro conjI impI; (elim conjE)?)
  show "keepalive_tick L now ms t = (Inr False, t\<lparr>writer := Some (w\<lparr>closing := True\<rparr>)\<rparr>)"
    "\<not> tunnel_is_connected (snd (keepalive_tick L now ms t))"
    if "now - last_recv t > 3 * keepalive_interval t"
    using assms that
    by (simp_all add: keepalive_tick_def keepalive_acks_lost_def KEEPALIVE_LOSS_FACTOR_def tunnel_is_connected_def mult.commute)
  show "\<exists>f bs. encode_frame f = Some bs \<and> ftype f = MSG_TYPE_SESSION \<and>
        keepalive_tick L now ms t = (Inr True, t\<lparr>writer := Some (w\<lparr>sent := sent w @ bs\<rparr>)\<rparr>)"
    if h: "cipher_lib_ok L" "length key = 16" "now - last_recv t \<le> 3 * keepalive_interval t"
      "length (utf8_encode (dumps_indent 2 (keepalive_message ms))) < 262144"
  proof -
    have ty: "MSG_TYPE_SESSION < 65536" by (simp add: MSG_TYPE_SESSION_def)
    obtain ct bs where bs: "encode_frame \<lparr>ftype = MSG_TYPE_SESSION, ciphertext = ct\<rparr> = Some bs"
      and snd: "send_frame L MSG_TYPE_SESSION (utf8_encode (dumps_indent 2 (keepalive_message ms))) key t =
        (Inr (), t\<lparr>writer := Some (w\<lparr>sent := sent w @ bs\<rparr>)\<rparr>)"
      by (rule send_frame_writes [OF h(1,2) ty h(4) assms(2)])
    have "keepalive_tick L now ms t = (Inr True, t\<lparr>writer := Some (w\<lparr>sent := sent w @ bs\<rparr>)\<rparr>)"
      using assms h(3) snd
      by (simp add: keepalive_tick_def keepalive_acks_lost_def KEEPALIVE_LOSS_FACTOR_def mult.commute tunnel_send_def sbind_eq)
    then show ?thesis using bs by (metis frame.select_convs(1))
  qed
qed

section \<open>The buffer is bounded\<close>

lemma parse_frame_wait_bound: "parse_frame buf = Inr None \<Longrightarrow> length buf < 262154"
  unfolding parse_frame_def Let_def by (auto simp: frame_consts split: if_splits)

lemma parse_frame_rest: "parse_frame buf = Inr (Some (f, rest)) \<Longrightarrow> length rest \<le> length buf"
  unfolding parse_frame_def Let_def by (auto split: if_splits)

fun outcome_buf :: "('e, 'f) read_outcome \<Rightarrow> bytes" where
  "outcome_buf (RL_Frame f buf cs) = buf"
| "outcome_buf (RL_Bad e buf cs) = buf"
| "outcome_buf (RL_Eof buf cs) = buf"

lemma read_loop_bound:
  assumes "\<forall>c \<in> set chunks. length c \<le> 4096" "length buf \<le> 266249"
  shows "length (outcome_buf (read_loop parse_frame buf chunks)) \<le> 266249"
  using assms
proof (induction chunks arbitrary: buf)
  case Nil
  then show ?case using parse_frame_rest [of buf]
    by (auto simp: read_loop.simps [of _ buf] split: sum.splits option.splits dest: le_trans)
next
  case (Cons c cs)
  show ?case
  proof (cases "parse_frame buf = Inr None")
    case True
    then have "length buf < 262154" by (rule parse_frame_wait_bound)
    then show ?thesis using Cons True by (simp add: read_loop.simps [of _ buf])
  next
    case False
    then show ?thesis using Cons.prems parse_frame_rest [of buf]
      by (auto simp: read_loop.simps [of _ buf] split: sum.splits option.splits dest: le_trans)
  qed
qed

text \<open>
  A peer cannot make the receiver buffer without bound: with reads of at most 4096 bytes (the size
  the code asks for), the receive buffer never exceeds 266249 bytes (the largest legal frame plus one
  read), whatever the peer sends and however \<open>_recv_frame\<close> ends.
\<close>

theorem receive_buffer_bounded:
  assumes "length (recv_buf t) \<le> 266249" "reader t = Some chunks" "\<forall>c \<in> set chunks. length c \<le> 4096"
  shows "length (recv_buf (snd (recv_frame L t))) \<le> 266249"
proof -
  note b = read_loop_bound [OF assms(3,1)]
  show ?thesis
  proof (cases "read_loop parse_frame (recv_buf t) chunks")
    case (RL_Frame f rest cs)
    let ?t = "t\<lparr>recv_buf := rest, reader := Some cs\<rparr>"
    have "snd (recv_frame L t) = ?t"
      using RL_Frame assms(2)
      by (auto simp: recv_frame_def sbind_eq dest: select_key_result split: prod.splits sum.splits option.splits)
    then show ?thesis using b RL_Frame by simp
  qed (use b assms in \<open>auto simp: recv_frame_def\<close>)
qed


section \<open>Witnesses\<close>

text \<open>A cipher record that meets the documented laws: PKCS7 padding and CBC of a cipher without diffusion.\<close>

definition plain_cipher :: cipher_lib where
  "plain_cipher =
     \<lparr>pkcs7_pad = (\<lambda>p. let k = 16 - length p mod 16 in p @ replicate k (word_of_nat k)),
      pkcs7_unpad = (\<lambda>p. if p = [] then None else Some (take (length p - unat (last p)) p)),
      cbc_encrypt = (\<lambda>k iv p. if length k = 16 \<and> length iv = 16 \<and> 16 dvd length p then Some (map (\<lambda>b. b XOR 0x5A) p) else None),
      cbc_decrypt = (\<lambda>k iv p. if length k = 16 \<and> length iv = 16 \<and> 16 dvd length p then Some (map (\<lambda>b. b XOR 0x5A) p) else None)\<rparr>"

lemma plain_cipher_ok: "cipher_lib_ok plain_cipher"
proof -
  have pad: "length (pkcs7_pad plain_cipher p) = 16 * (length p div 16 + 1) \<and>
      pkcs7_unpad plain_cipher (pkcs7_pad plain_cipher p) = Some p" for p
  proof -
    define k where "k = 16 - length p mod 16"
    have k: "0 < k" "k < 256" by (simp_all add: k_def)
    have l: "length p + k = 16 * (length p div 16 + 1)" unfolding k_def by presburger
    have pd: "pkcs7_pad plain_cipher p = p @ replicate k (word_of_nat k)" by (simp add: plain_cipher_def k_def Let_def)
    have "last (p @ replicate k (word_of_nat k)) = (word_of_nat k :: byte)" using k by (cases k) simp_all
    then show ?thesis unfolding pd using k l by (simp add: plain_cipher_def)
  qed
  have "(b XOR 0x5A) XOR 0x5A = (b :: byte)" for b by (simp add: xor.assoc)
  with pad show ?thesis by (simp add: cipher_lib_ok_def) (simp add: plain_cipher_def o_def)
qed

definition sample_key :: bytes where
  "sample_key = replicate 16 7"

definition sample_tunnel :: tunnel where
  "sample_tunnel = (new_tunnel sample_key 10 0)\<lparr>session_key := Some sample_key, reader := Some [],
     writer := Some \<lparr>sent = [], closing = False\<rparr>\<rparr>"


definition sample_enc1 :: bytes where
  "sample_enc1 = [91, 88, 89, 94, 86, 86, 86, 86, 86, 86, 86, 86, 86, 86, 86, 86]"

definition sample_enc2 :: bytes where
  "sample_enc2 =
     [1, 2, 3, 4, 12, 12, 12, 12, 12, 12, 12, 12, 12, 12, 12, 12,
      74, 74, 74, 74, 74, 74, 74, 74, 74, 74, 74, 74, 74, 74, 74, 74]"

lemma sample_enc: "aes_cbc_encrypt plain_cipher sample_key [1, 2, 3, 4] = Some sample_enc1"
  "aes_cbc_encrypt plain_cipher sample_key sample_enc1 = Some sample_enc2"
  by code_simp+

theorem server_proof_witness:
  "verify_server_proof plain_cipher sample_key ([0x00, 0x10] @ sample_enc1 @ [0x00, 0x20] @ sample_enc2)"
  using server_proof [OF plain_cipher_ok, of sample_key "[1, 2, 3, 4]" sample_enc1 sample_enc2] sample_enc
  by (simp add: sample_key_def)

theorem ecdh_payload_codec_witness:
  "\<exists>p. build_ecdh_payload (replicate 48 1) (replicate 16 2) = Inr p \<and> length p = 68 \<and>
     parse_ecdh_payload p = Inr (replicate 48 1, Some (replicate 16 2)) \<and>
     parse_ecdh_payload (take 50 p) = Inr (replicate 48 1, None)"
  by (rule ecdh_payload_codec) simp_all

theorem keepalive_detects_silence_witness:
  "keepalive_tick plain_cipher 31 0 sample_tunnel =
     (Inr False, sample_tunnel\<lparr>writer := Some \<lparr>sent = [], closing = True\<rparr>\<rparr>)"
  using keepalive_detects_silence [of sample_tunnel sample_key "\<lparr>sent = [], closing = False\<rparr>" 31 plain_cipher 0]
  by (simp add: sample_tunnel_def new_tunnel_def)

theorem receive_buffer_bounded_witness:
  "length (recv_buf (snd (recv_frame plain_cipher (sample_tunnel\<lparr>reader := Some [[1, 2], [3]]\<rparr>)))) \<le> 266249"
  by (rule receive_buffer_bounded [of _ "[[1, 2], [3]]"]) (simp_all add: sample_tunnel_def new_tunnel_def)

definition bad_proof :: bytes where
  "bad_proof = [0x00, 0x10] @ sample_enc1 @ [0x00, 0x20] @ (sample_enc1 @ sample_enc1)"

lemma bad_proof_rejected: "verify_server_proof plain_cipher sample_key bad_proof = False"
proof -
  have "aes_cbc_decrypt plain_cipher sample_key (sample_enc1 @ sample_enc1) \<noteq> Some sample_enc1" by code_simp
  moreover have "length sample_enc1 = 16" by (simp add: sample_enc1_def)
  ultimately show ?thesis
    using server_proof_eq [OF plain_cipher_ok, of sample_key sample_enc1 "sample_enc1 @ sample_enc1"]
    by (simp add: bad_proof_def sample_key_def)
qed

theorem failed_verify_still_connected_witness:
  "\<exists>bs. fst (handshake_verify plain_cipher sample_key [1, 2, 3, 4] (sample_tunnel\<lparr>reader := Some [bs]\<rparr>)) =
      Inl (Tunnel_Error Bad_Proof) \<and>
    tunnel_is_connected (snd (handshake_verify plain_cipher sample_key [1, 2, 3, 4] (sample_tunnel\<lparr>reader := Some [bs]\<rparr>)))"
proof -
  have k: "length sample_key = 16" "MSG_TYPE_VERIFY < 65536" "MSG_TYPE_VERIFY \<noteq> MSG_TYPE_SESSION"
    by (simp_all add: sample_key_def MSG_TYPE_VERIFY_def MSG_TYPE_SESSION_def)
  have bp: "length bad_proof < 262144" by (simp add: bad_proof_def sample_enc1_def)
  let ?w = "\<lparr>sent = [], closing = False\<rparr>"
  have w: "writer sample_tunnel = Some ?w" by (simp add: sample_tunnel_def)
  obtain ct bs where ct: "aes_cbc_decrypt plain_cipher sample_key ct = Some bad_proof" "length ct \<le> MAX_FRAME_CT_LEN"
    and bs: "encode_frame \<lparr>ftype = MSG_TYPE_VERIFY, ciphertext = ct\<rparr> = Some bs"
    using send_frame_writes [OF plain_cipher_ok k(1,2) bp w] by metis
  let ?f = "\<lparr>ftype = MSG_TYPE_VERIFY, ciphertext = ct\<rparr>"
  let ?t = "sample_tunnel\<lparr>reader := Some [bs]\<rparr>"
  have t: "session_key ?t = Some sample_key" "writer ?t = Some ?w" "device_key ?t = sample_key" "recv_buf ?t = []"
    by (simp_all add: sample_tunnel_def new_tunnel_def)
  have "[] \<notin> set [bs]" using bs by (auto simp: encode_frame_cases FRAME_MAGIC_def)
  let ?p = "[0x00, 0x04] @ [1, 2, 3, 4] @ [0x00, 0x10] @ sample_enc1"
  have "length ?p < 262144" by (simp add: sample_enc1_def)
  from send_frame_writes [OF plain_cipher_ok k(1,2) this t(2)]
  obtain bs2 where snd: "send_frame plain_cipher MSG_TYPE_VERIFY ?p sample_key ?t = (Inr (), ?t\<lparr>writer := Some (?w\<lparr>sent := bs2\<rparr>)\<rparr>)"
    by (metis append_Nil sock_writer.select_convs(1))
  let ?t2 = "?t\<lparr>writer := Some (?w\<lparr>sent := bs2\<rparr>)\<rparr>"
  have l: "length (ciphertext ?f) \<le> MAX_FRAME_CT_LEN" and st: "recv_buf ?t2 @ concat [bs] = bs @ []" and r: "reader ?t2 = Some [bs]"
    using ct(2) t(4) by simp_all
  obtain buf cs where "recv_frame plain_cipher ?t2 = sbind (select_decrypt_key (ftype ?f)) (\<lambda>key.
       case aes_cbc_decrypt plain_cipher key (ciphertext ?f) of
         None \<Rightarrow> sraise Crypto_Error | Some plaintext \<Rightarrow> sret (ftype ?f, plaintext))
       (?t2\<lparr>recv_buf := buf, reader := Some cs\<rparr>)"
    using recv_frame_reads [OF bs l r st \<open>[] \<notin> set [bs]\<close>, of plain_cipher] by metis
  then have rcv: "recv_frame plain_cipher ?t2 = (Inr (MSG_TYPE_VERIFY, bad_proof), ?t2\<lparr>recv_buf := buf, reader := Some cs\<rparr>)"
    using k(3) t(3) ct(1) by (simp add: select_decrypt_key_def sbind_eq)
  have out: "handshake_verify plain_cipher sample_key [1, 2, 3, 4] ?t =
      (Inl (Tunnel_Error Bad_Proof), ?t2\<lparr>recv_buf := buf, reader := Some cs\<rparr>)"
    unfolding handshake_verify_def sample_enc(1) option.case sbind_eq st_simps t(3)
    by (simp only: snd rcv split prod.case sum.case sbind_eq bad_proof_rejected) simp
  show ?thesis
    by (intro exI [of _ bs], unfold out) (use failed_verify_still_connected [OF out t(1,2)] in simp)
qed

end
