(* ===== verification/Protocol.thy ===== *)
theory Protocol
  imports Json
begin

text \<open>
  \<open>hub/protocol.py\<close> and \<open>hub/topology.py\<close>: the message envelope, its builders and parser, device
  reports, and what the two device lists say about a hub. Python does not enforce the field types of
  the dataclasses, so a field filled from a received message is a \<open>json\<close> value.
\<close>

section \<open>Numbers\<close>

text \<open>
  The value of a float literal (None for NaN and the infinities; the decimal value, not rounded to a
  double), and Python's comparison of a JSON value with an integer, under which \<open>1\<close>, \<open>1.0\<close> and
  \<open>True\<close> are the same number.
\<close>

definition exponent :: "string \<Rightarrow> int" where
  "exponent ex =
     (case ex of [] \<Rightarrow> 0
      | e # s \<Rightarrow> (case s of c # ds \<Rightarrow> (if c = CHR ''-'' then - int (text_nat ds)
                                       else if c = CHR ''+'' then int (text_nat ds) else int (text_nat s))
                  | [] \<Rightarrow> 0))"

definition float_value :: "string \<Rightarrow> rat option" where
  "float_value s =
     (let (neg, s1) = (case s of c # cs \<Rightarrow> if c = CHR ''-'' then (True, cs) else (False, s) | [] \<Rightarrow> (False, s))
      in case scan_int_part s1 of None \<Rightarrow> None
         | Some (ip, s2) \<Rightarrow>
             let (fr, s3) = scan_frac s2; (ex, s4) = scan_exp s3; e = exponent ex;
                 m = of_nat (text_nat (ip @ tl fr)) / 10 ^ length (tl fr);
                 v = (if 0 \<le> e then m * 10 ^ nat e else m / 10 ^ nat (- e))
             in Some (if neg then - v else v))"

fun num_value :: "json \<Rightarrow> rat option" where
  "num_value (JInt i) = Some (of_int i)"
| "num_value (JBool b) = Some (if b then 1 else 0)"
| "num_value (JFloat s) = float_value s"
| "num_value v = None"

definition eq_int :: "json \<Rightarrow> int \<Rightarrow> bool" where
  "eq_int v i = (num_value v = Some (of_int i))"

lemma eq_int_JInt [simp]: "eq_int (JInt j) i \<longleftrightarrow> i = j"
  by (auto simp: eq_int_def)

text \<open>\<open>int(s)\<close> of a string: white space around, a sign, digits with single underscores between them.\<close>

definition py_space :: "char \<Rightarrow> bool" where
  "py_space c = (char_code c \<in> {9, 10, 11, 12, 13, 28, 29, 30, 31, 32, 133, 160})"

definition strip :: "string \<Rightarrow> string" where
  "strip s = rev (dropWhile py_space (rev (dropWhile py_space s)))"

definition digits_value :: "string \<Rightarrow> nat option" where
  "digits_value s =
     (let parts = split_on (CHR ''_'') s
      in if list_all (\<lambda>p. p \<noteq> [] \<and> list_all ascii_digit p) parts then Some (text_nat (concat parts)) else None)"

definition int_of_string :: "string \<Rightarrow> int option" where
  "int_of_string s =
     (case strip s of [] \<Rightarrow> None
      | c # cs \<Rightarrow>
          if c = CHR ''-'' then map_option (\<lambda>n. - int n) (digits_value cs)
          else if c = CHR ''+'' then map_option int (digits_value cs)
          else map_option int (digits_value (c # cs)))"

definition trunc_rat :: "rat \<Rightarrow> int" where
  "trunc_rat r = (if 0 \<le> r then \<lfloor>r\<rfloor> else - \<lfloor>- r\<rfloor>)"

text \<open>\<open>int(v)\<close>: None is the ValueError, TypeError or OverflowError it raises.\<close>

fun py_int :: "json \<Rightarrow> int option" where
  "py_int (JStr s) = int_of_string s"
| "py_int v = map_option trunc_rat (num_value v)"

section \<open>The envelope\<close>

definition CMD_CHECKIN :: string where "CMD_CHECKIN = ''checkin''"
definition CMD_KEEPALIVE :: string where "CMD_KEEPALIVE = ''keepalive''"
definition CMD_READ :: string where "CMD_READ = ''read''"
definition CMD_WRITE :: string where "CMD_WRITE = ''write''"
definition CMD_REPORT :: string where "CMD_REPORT = ''report''"
definition CMD_TOPOLOGY :: string where "CMD_TOPOLOGY = ''topology''"
definition TYPE_SESSION :: string where "TYPE_SESSION = ''session''"
definition TYPE_DEVICE :: string where "TYPE_DEVICE = ''device''"

lemmas cmd_defs = CMD_CHECKIN_def CMD_KEEPALIVE_def CMD_READ_def CMD_WRITE_def CMD_REPORT_def CMD_TOPOLOGY_def
  TYPE_SESSION_def TYPE_DEVICE_def

type_synonym obj = "(string \<times> json) list"

record lan_entity =
  e_seq :: json
  e_type :: json
  e_cmd :: json
  e_data :: json

record lan_report =
  r_did :: json
  r_sdid :: json
  r_src :: json
  r_time :: json
  r_values :: obj

definition report_from_entity :: "lan_entity \<Rightarrow> lan_report option" where
  "report_from_entity entity =
     (if e_cmd entity \<noteq> JStr CMD_REPORT then None
      else case e_data entity of
        JObj data \<Rightarrow>
          (case jget data ''value'' JNull of
             JObj raw_values \<Rightarrow>
               Some \<lparr>r_did = jget data ''did'' (JStr []), r_sdid = jget data ''sdid'' (JStr []),
                     r_src = jget data ''src'' (JStr []), r_time = jget data ''time'' (JInt 0),
                     r_values = raw_values\<rparr>
           | _ \<Rightarrow> None)
      | _ \<Rightarrow> None)"

section \<open>Builders\<close>

definition build_checkin :: "int \<Rightarrow> string \<Rightarrow> string \<Rightarrow> string \<Rightarrow> obj" where
  "build_checkin seq user_id device_id token =
     [(''seq'', JInt seq), (''type'', JStr TYPE_SESSION), (''cmd'', JStr CMD_CHECKIN),
      (''data'', JObj [(''user'', JStr user_id), (''did'', JStr device_id), (''aid'', JStr token)])]"

definition build_keepalive :: "int \<Rightarrow> int \<Rightarrow> obj" where
  "build_keepalive now_ms seq =
     [(''seq'', JInt seq), (''type'', JStr TYPE_SESSION), (''cmd'', JStr CMD_KEEPALIVE),
      (''data'', JObj [(''timestamp'', JInt now_ms)])]"

definition build_read :: "int \<Rightarrow> string \<Rightarrow> string \<Rightarrow> string list \<Rightarrow> string option \<Rightarrow> obj" where
  "build_read seq device_id model attrs sdid =
     [(''seq'', JInt seq), (''type'', JStr TYPE_DEVICE), (''cmd'', JStr CMD_READ),
      (''data'', JObj [(''did'', JStr device_id),
        (''sdid'', JStr (case sdid of Some s \<Rightarrow> s | None \<Rightarrow> device_id)),
        (''model'', JStr model), (''value'', JList (map JStr attrs))])]"

definition local_src :: "int \<Rightarrow> string" where
  "local_src now_ms = ''3,,'' @ int_text now_ms @ '',,''"

definition build_write :: "int \<Rightarrow> int \<Rightarrow> string \<Rightarrow> string \<Rightarrow> obj \<Rightarrow> string option \<Rightarrow> string option \<Rightarrow> obj" where
  "build_write now_ms seq device_id model attrs sdid src =
     [(''seq'', JInt seq), (''type'', JStr TYPE_DEVICE), (''cmd'', JStr CMD_WRITE),
      (''data'', JObj [(''did'', JStr device_id),
        (''sdid'', JStr (case sdid of Some s \<Rightarrow> s | None \<Rightarrow> device_id)),
        (''model'', JStr model),
        (''src'', JStr (case src of Some s \<Rightarrow> s | None \<Rightarrow> local_src now_ms)),
        (''value'', JObj attrs)])]"

section \<open>Parser\<close>

text \<open>None is the function's None; \<open>Inl Beyond\<close> a text outside the model's characters.\<close>

definition parse_message :: "string \<Rightarrow> json_error + lan_entity option" where
  "parse_message raw =
     (case loads raw of
        Inl Malformed \<Rightarrow> Inr None
      | Inl Beyond \<Rightarrow> Inl Beyond
      | Inr (JObj obj) \<Rightarrow>
          (if dget obj ''seq'' = None \<or> dget obj ''type'' = None \<or> dget obj ''cmd'' = None then Inr None
           else Inr (Some \<lparr>e_seq = jget obj ''seq'' JNull, e_type = jget obj ''type'' JNull,
                           e_cmd = jget obj ''cmd'' JNull, e_data = jget obj ''data'' JNull\<rparr>))
      | Inr _ \<Rightarrow> Inr None)"

lemma parse_dumps_obj:
  assumes "wf_json (JObj obj)" "dget obj ''seq'' = Some s" "dget obj ''type'' = Some t" "dget obj ''cmd'' = Some c"
  shows "parse_message (dumps (JObj obj)) =
    Inr (Some \<lparr>e_seq = s, e_type = t, e_cmd = c, e_data = jget obj ''data'' JNull\<rparr>)"
  using assms by (simp add: parse_message_def loads_dumps jget_def)

lemma wf_built:
  "wf_json (JObj (build_checkin seq user_id device_id token))"
  "wf_json (JObj (build_keepalive ms seq))"
  "wf_json (JObj (build_read seq device_id model attrs sdid))"
  "wf_json (JObj values) \<Longrightarrow> wf_json (JObj (build_write ms seq device_id model values sdid src))"
  by (auto simp: build_checkin_def build_keepalive_def build_read_def build_write_def dict_ok_def)

text \<open>
  Every message the client builds survives the wire text: dumping a check-in, keepalive, read or
  write message (attribute names distinct, values well formed) and parsing the text gives an envelope
  with the same sequence number, type, command and data.
\<close>

theorem parse_built_message:
  assumes "wf_json (JObj values)"
    and "m \<in> {build_checkin seq user_id device_id token, build_keepalive ms seq,
        build_read seq device_id model attrs sdid, build_write ms seq device_id model values sdid src}"
  shows "\<exists>ty cmd data. parse_message (dumps (JObj m)) =
      Inr (Some \<lparr>e_seq = JInt seq, e_type = JStr ty, e_cmd = JStr cmd, e_data = data\<rparr>) \<and>
    dget m ''type'' = Some (JStr ty) \<and> dget m ''cmd'' = Some (JStr cmd) \<and> dget m ''data'' = Some data"
proof -
  have "wf_json (JObj m)" using assms wf_built by blast
  moreover have "\<exists>ty cmd data. m = [(''seq'', JInt seq), (''type'', JStr ty), (''cmd'', JStr cmd), (''data'', data)]"
    using assms(2) by (auto simp: build_checkin_def build_keepalive_def build_read_def build_write_def)
  ultimately show ?thesis using parse_dumps_obj [of m] by (auto simp: jget_def)
qed

theorem parse_built_message_witness:
  "\<exists>ty cmd data. parse_message (dumps (JObj (build_read 7 ''hub'' ''model'' [''0.1.85''] None))) =
      Inr (Some \<lparr>e_seq = JInt 7, e_type = JStr ty, e_cmd = JStr cmd, e_data = data\<rparr>) \<and>
    dget (build_read 7 ''hub'' ''model'' [''0.1.85''] None) ''type'' = Some (JStr ty) \<and>
    dget (build_read 7 ''hub'' ''model'' [''0.1.85''] None) ''cmd'' = Some (JStr cmd) \<and>
    dget (build_read 7 ''hub'' ''model'' [''0.1.85''] None) ''data'' = Some data"
  by (rule parse_built_message [of "[]" _ 7 "[]" "''hub''" "[]" 0 "''model''" "[''0.1.85'']" None]) (auto simp: dict_ok_def)

section \<open>Topology\<close>

record topology_device =
  td_did :: json
  td_model :: json
  td_name :: json
  td_parent :: json
  td_state :: int
  td_firmware :: json
  td_metadata :: obj

definition py_or :: "json \<Rightarrow> json \<Rightarrow> json" where
  "py_or a b = (if truthy a then a else b)"

text \<open>None is the exception of \<open>int\<close> on a state that is no number.\<close>

definition parse_cloud_device :: "obj \<Rightarrow> topology_device option" where
  "parse_cloud_device rec =
     (case py_int (py_or (jget rec ''state'' (JInt 0)) (JInt 0)) of
        None \<Rightarrow> None
      | Some state \<Rightarrow>
          Some \<lparr>td_did = jget rec ''did'' (JStr []), td_model = jget rec ''model'' (JStr []),
                td_name = py_or (jget rec ''deviceName'' JNull) (jget rec ''originalName'' (JStr [])),
                td_parent = jget rec ''parentDeviceId'' (JStr []), td_state = state,
                td_firmware = jget rec ''firmwareVersion'' (JStr []), td_metadata = rec\<rparr>)"

datatype host_kind = Hub | Standalone

definition classify_tunnel_host :: "string set option \<Rightarrow> string \<Rightarrow> host_kind" where
  "classify_tunnel_host topology host_did =
     (case topology of None \<Rightarrow> Standalone
      | Some dids \<Rightarrow> if dids = {} then Standalone
                     else if dids - {host_did} \<noteq> {} then Hub else Standalone)"

definition string_items :: "json list \<Rightarrow> string list" where
  "string_items xs = concat (map (\<lambda>x. case x of JStr s \<Rightarrow> (if s \<noteq> [] then [s] else []) | _ \<Rightarrow> []) xs)"

definition topology_dids :: "obj \<Rightarrow> string list" where
  "topology_dids data =
     concat (map (\<lambda>(key, value). (case value of JList xs \<Rightarrow> string_items xs | _ \<Rightarrow> []) @
       (if key \<noteq> [] then [key] else [])) data)"

definition parse_lanlink_topology_push :: "json \<Rightarrow> string set" where
  "parse_lanlink_topology_push data = (case data of JObj d \<Rightarrow> set (topology_dids d) | _ \<Rightarrow> {})"

text \<open>
    From a topology push to the kind of host: a push of the captured shape (the host's own id as the
  key, a list of ids as its value) classifies the host as a hub exactly when the list holds a
  non-empty id other than the host's, and malformed or missing pushes classify it as standalone.
\<close>

theorem topology_push_classifies_host:
  "(host \<noteq> [] \<longrightarrow>
      (classify_tunnel_host (Some (parse_lanlink_topology_push (JObj [(host, JList xs)]))) host = Hub \<longleftrightarrow>
       (\<exists>s. JStr s \<in> set xs \<and> s \<noteq> [] \<and> s \<noteq> host))) \<and>
   ((\<forall>d. v \<noteq> JObj d) \<longrightarrow> classify_tunnel_host (Some (parse_lanlink_topology_push v)) host = Standalone) \<and>
   classify_tunnel_host None host = Standalone"
proof (intro conjI impI)
  have "set (string_items xs) = {s. JStr s \<in> set xs \<and> s \<noteq> []}" for xs
    by (force simp: string_items_def split: json.splits)
  then show "classify_tunnel_host (Some (parse_lanlink_topology_push (JObj [(host, JList xs)]))) host = Hub \<longleftrightarrow>
       (\<exists>s. JStr s \<in> set xs \<and> s \<noteq> [] \<and> s \<noteq> host)" if "host \<noteq> []"
    using that by (auto simp: classify_tunnel_host_def parse_lanlink_topology_push_def topology_dids_def)
  show "classify_tunnel_host (Some (parse_lanlink_topology_push v)) host = Standalone" if "\<forall>d. v \<noteq> JObj d"
    using that by (cases v) (simp_all add: classify_tunnel_host_def parse_lanlink_topology_push_def)
qed (simp add: classify_tunnel_host_def)

theorem topology_push_classifies_host_witness:
  "classify_tunnel_host (Some (parse_lanlink_topology_push (JObj [(''hub'', JList [JStr ''hub'', JStr ''sub''])]))) ''hub'' = Hub"
  using topology_push_classifies_host [of "''hub''" "[JStr ''hub'', JStr ''sub'']" JNull] by auto

lemma digits_value_text: "digits_value (nat_text n) = Some n"
proof -
  have d: "list_all ascii_digit (nat_text n)" by (rule nat_text_digits)
  then have "CHR ''_'' \<notin> set (nat_text n)" by (auto simp: list_all_iff ascii_digit_def char_code_def)
  then show ?thesis using d by (simp add: digits_value_def split_on_no_sep text_nat_nat_text)
qed

lemma int_of_string_nat_text: "int_of_string (nat_text n) = Some (int n)"
proof -
  have d: "list_all ascii_digit (nat_text n)" by (rule nat_text_digits)
  have "\<not> py_space c" "c \<noteq> CHR ''-''" "c \<noteq> CHR ''+''" if "ascii_digit c" for c
    using that by (auto simp: ascii_digit_def py_space_def char_code_def)
  then have "dropWhile py_space s = s" if "list_all ascii_digit s" for s using that by (cases s) auto
  then have "strip (nat_text n) = nat_text n" using d by (simp add: strip_def list_all_rev)
  moreover obtain c cs where "nat_text n = c # cs" by (cases "nat_text n") auto
  moreover have "c \<noteq> CHR ''-''" "c \<noteq> CHR ''+''" using d calculation(2) \<open>\<And>c. ascii_digit c \<Longrightarrow> c \<noteq> CHR ''-''\<close> \<open>\<And>c. ascii_digit c \<Longrightarrow> c \<noteq> CHR ''+''\<close> by auto
  ultimately show ?thesis using digits_value_text [of n] by (simp add: int_of_string_def)
qed

text \<open>
    A record of the cloud's device list becomes a device whenever its state is missing, falsy, a
  number or a string of digits, and the parse keeps the raw record; a state that is any other
  non-empty string, such as ``unknown'', makes it raise.
\<close>

theorem cloud_device_state:
  "(\<not> truthy (jget rec ''state'' (JInt 0)) \<longrightarrow>
      (\<exists>d. parse_cloud_device rec = Some d \<and> td_state d = 0 \<and> td_metadata d = rec)) \<and>
   (dget rec ''state'' = Some (JInt i) \<longrightarrow>
      (\<exists>d. parse_cloud_device rec = Some d \<and> td_state d = i \<and> td_metadata d = rec)) \<and>
   (dget rec ''state'' = Some (JStr ''unknown'') \<longrightarrow> parse_cloud_device rec = None)"
proof -
  have "py_int (JStr ''unknown'') = None" by code_simp
  then show ?thesis
    by (auto simp: parse_cloud_device_def py_or_def jget_def trunc_rat_def split: option.splits)
qed

theorem cloud_device_state_witness:
  "parse_cloud_device [(''state'', JStr ''unknown'')] = None"
  using cloud_device_state [of "[(''state'', JStr ''unknown'')]" 0] by simp

end
