(* ===== verification/Session.thy ===== *)
theory Session
  imports Protocol
begin

text \<open>
  \<open>hub/session.py\<close>: the session client. Requests are registered under their sequence number and
  wait for the frame that carries it; the single listen loop resolves them or passes the frame on as a
  report or an asynchronous message. A coroutine that awaits is cut at its await: starting a request,
  cancelling it (the timeout), its clean-up (the \<open>finally\<close> block) and each received frame are steps,
  which the event loop may order as it likes.
\<close>

section \<open>State\<close>

datatype fail_reason = Tunnel_Closed | Listen_Error

datatype future = Waiting | Resolved obj | Failed fail_reason | Cancelled

text \<open>
  \<open>c_futures\<close> are all futures ever created with the sequence number of their request, by creation;
  \<open>c_pending\<close> maps a sequence number to the index of its future. The logs record what was sent and
  what the callbacks were called with.
\<close>

record client =
  device_id :: string
  user_id :: string
  model :: string
  token :: string
  c_seq :: int
  c_pending :: "(int, nat) dict"
  c_futures :: "(int \<times> future) list"
  on_report :: bool
  on_async :: bool
  c_sent :: "obj list"
  c_reports :: "lan_report list"
  c_async :: "obj list"
  listening :: bool

definition new_client :: "string \<Rightarrow> string \<Rightarrow> string \<Rightarrow> string \<Rightarrow> bool \<Rightarrow> bool \<Rightarrow> client" where
  "new_client did user mdl tok rep asy =
     \<lparr>device_id = did, user_id = user, model = mdl, token = tok, c_seq = 0, c_pending = [], c_futures = [],
      on_report = rep, on_async = asy, c_sent = [], c_reports = [], c_async = [], listening = True\<rparr>"

definition next_seq :: "client \<Rightarrow> int \<times> client" where
  "next_seq c = (c_seq c + 1, c\<lparr>c_seq := c_seq c + 1\<rparr>)"

section \<open>Requests\<close>

datatype request_error = Duplicate_Seq int | Send_Failed | Timed_Out | Woken fail_reason

text \<open>
  The part of \<open>async_send_and_await\<close> before the await; \<open>sent_ok\<close> says whether \<open>tunnel.send\<close> returned.
  When it raises, the \<open>finally\<close> block removes the entry at once and nobody waits for the future.
\<close>

definition start_request :: "int \<Rightarrow> obj \<Rightarrow> bool \<Rightarrow> client \<Rightarrow> (request_error + nat) \<times> client" where
  "start_request seq message sent_ok c =
     (let fid = length (c_futures c)
      in if dget (c_pending c) seq \<noteq> None then (Inl (Duplicate_Seq seq), c)
         else
           let c1 = c\<lparr>c_pending := dset seq fid (c_pending c), c_futures := c_futures c @ [(seq, Waiting)]\<rparr>
           in if sent_ok then (Inr fid, c1\<lparr>c_sent := c_sent c @ [message]\<rparr>)
              else (Inl Send_Failed, c1\<lparr>c_pending := ddel seq (c_pending c1),
                      c_futures := c_futures c @ [(seq, Cancelled)]\<rparr>))"

definition set_future :: "nat \<Rightarrow> future \<Rightarrow> client \<Rightarrow> client" where
  "set_future fid f c = c\<lparr>c_futures := (c_futures c)[fid := (fst (c_futures c ! fid), f)]\<rparr>"

definition future_done :: "nat \<Rightarrow> client \<Rightarrow> bool" where
  "future_done fid c = (snd (c_futures c ! fid) \<noteq> Waiting)"

text \<open>\<open>wait_for\<close> cancels the future at its timeout; the outcome is read and the entry dropped later.\<close>

definition cancel_request :: "nat \<Rightarrow> client \<Rightarrow> client" where
  "cancel_request fid c = (if future_done fid c then c else set_future fid Cancelled c)"

definition finish_request :: "int \<Rightarrow> nat \<Rightarrow> client \<Rightarrow> (request_error + obj) option \<times> client" where
  "finish_request seq fid c =
     (case snd (c_futures c ! fid) of
        Waiting \<Rightarrow> (None, c)
      | Resolved r \<Rightarrow> (Some (Inr r), c\<lparr>c_pending := ddel seq (c_pending c)\<rparr>)
      | Failed e \<Rightarrow> (Some (Inl (Woken e)), c\<lparr>c_pending := ddel seq (c_pending c)\<rparr>)
      | Cancelled \<Rightarrow> (Some (Inl Timed_Out), c\<lparr>c_pending := ddel seq (c_pending c)\<rparr>))"

section \<open>The listen loop\<close>

definition entity_of :: "obj \<Rightarrow> lan_entity" where
  "entity_of raw = \<lparr>e_seq = jget raw ''seq'' (JInt 0), e_type = jget raw ''type'' (JStr []),
     e_cmd = jget raw ''cmd'' (JStr []), e_data = jget raw ''data'' JNull\<rparr>"

definition dispatch_async :: "obj \<Rightarrow> client \<Rightarrow> client" where
  "dispatch_async raw c =
     (if jget raw ''cmd'' JNull \<noteq> JStr CMD_REPORT
      then (if on_async c then c\<lparr>c_async := c_async c @ [raw]\<rparr> else c)
      else if \<not> on_report c then c
      else case report_from_entity (entity_of raw) of
             None \<Rightarrow> c
           | Some report \<Rightarrow> c\<lparr>c_reports := c_reports c @ [report]\<rparr>)"

text \<open>
  Looking a received value up among the integer keys: numbers match by value, a string matches
  nothing, and a list or an object cannot be a key at all, which raises.
\<close>

definition int_key :: "json \<Rightarrow> int option" where
  "int_key v = (case num_value v of None \<Rightarrow> None
     | Some r \<Rightarrow> if of_int \<lfloor>r\<rfloor> = r then Some \<lfloor>r\<rfloor> else None)"

fun unhashable :: "json \<Rightarrow> bool" where
  "unhashable (JList xs) = True"
| "unhashable (JObj d) = True"
| "unhashable v = False"

definition lookup_pending :: "json \<Rightarrow> client \<Rightarrow> nat option" where
  "lookup_pending v c = (case int_key v of None \<Rightarrow> None | Some s \<Rightarrow> dget (c_pending c) s)"

definition fail_pending :: "fail_reason \<Rightarrow> client \<Rightarrow> client" where
  "fail_pending e c =
     foldl (\<lambda>c fid. if future_done fid c then c else set_future fid (Failed e) c)
       (c\<lparr>c_pending := []\<rparr>) (dvalues (c_pending c))"

definition listen_frame :: "obj \<Rightarrow> client \<Rightarrow> client" where
  "listen_frame raw c =
     (if unhashable (jget raw ''seq'' JNull)
      then (fail_pending Listen_Error c)\<lparr>listening := False\<rparr>
      else case lookup_pending (jget raw ''seq'' JNull) c of
             None \<Rightarrow> dispatch_async raw c
           | Some fid \<Rightarrow>
               if future_done fid c then dispatch_async raw c
               else (case int_key (jget raw ''seq'' JNull) of
                       None \<Rightarrow> c
                     | Some s \<Rightarrow> set_future fid (Resolved raw) (c\<lparr>c_pending := ddel s (c_pending c)\<rparr>)))"

definition listen_eof :: "client \<Rightarrow> client" where
  "listen_eof c = (fail_pending Tunnel_Closed c)\<lparr>listening := False\<rparr>"

section \<open>The calls\<close>

definition checkin_message :: "client \<Rightarrow> (int \<times> obj) \<times> client" where
  "checkin_message c = (let (seq, c1) = next_seq c
     in ((seq, build_checkin seq (user_id c) (device_id c) (token c)), c1))"

definition read_message :: "string list \<Rightarrow> client \<Rightarrow> (int \<times> obj) \<times> client" where
  "read_message attrs c = (let (seq, c1) = next_seq c
     in ((seq, build_read seq (device_id c) (model c) attrs None), c1))"

definition write_message :: "int \<Rightarrow> obj \<Rightarrow> client \<Rightarrow> (int \<times> obj) \<times> client" where
  "write_message now_ms attrs c = (let (seq, c1) = next_seq c
     in ((seq, build_write now_ms seq (device_id c) (model c) attrs None None), c1))"

text \<open>\<open>response.get("data") or {}\<close>, and the check-in's verdict: None is the AttributeError on a value that is no dict.\<close>

definition response_data :: "obj \<Rightarrow> json" where
  "response_data response = py_or (jget response ''data'' JNull) (JObj [])"

definition checkin_accepted :: "obj \<Rightarrow> bool option" where
  "checkin_accepted response =
     (case response_data response of JObj data \<Rightarrow> Some (eq_int (jget data ''code'' (JInt (- 1))) 0) | _ \<Rightarrow> None)"

section \<open>Runs\<close>

text \<open>
  A run of the client: calls allocate the next number and register under it; frames, timeouts,
  clean-ups and the end of the stream come in any order.
\<close>

inductive session_step :: "client \<Rightarrow> client \<Rightarrow> bool" where
  step_request: "next_seq c = (seq, c1) \<Longrightarrow> start_request seq message ok c1 = (r, c') \<Longrightarrow> session_step c c'"
| step_cancel: "fid < length (c_futures c) \<Longrightarrow> session_step c (cancel_request fid c)"
| step_finish: "fid < length (c_futures c) \<Longrightarrow> seq = fst (c_futures c ! fid) \<Longrightarrow>
    finish_request seq fid c = (r, c') \<Longrightarrow> session_step c c'"
| step_frame: "listening c \<Longrightarrow> session_step c (listen_frame raw c)"
| step_eof: "listening c \<Longrightarrow> session_step c (listen_eof c)"

inductive session_run :: "client \<Rightarrow> client \<Rightarrow> bool" where
  run_start: "session_run c c"
| run_step: "session_run c c1 \<Longrightarrow> session_step c1 c2 \<Longrightarrow> session_run c c2"

text \<open>What every reachable state satisfies; \<open>fut_ok\<close> is its part about a single future.\<close>

abbreviation fseq :: "client \<Rightarrow> nat \<Rightarrow> int" where
  "fseq c fid \<equiv> fst (c_futures c ! fid)"

abbreviation fstate :: "client \<Rightarrow> nat \<Rightarrow> future" where
  "fstate c fid \<equiv> snd (c_futures c ! fid)"

definition fut_ok :: "client \<Rightarrow> nat \<Rightarrow> bool" where
  "fut_ok c fid \<longleftrightarrow>
     (fstate c fid = Waiting \<longrightarrow> dget (c_pending c) (fseq c fid) = Some fid) \<and>
     (\<forall>r. fstate c fid = Resolved r \<longrightarrow> eq_int (jget r ''seq'' JNull) (fseq c fid))"

definition pending_ok :: "client \<Rightarrow> bool" where
  "pending_ok c \<longleftrightarrow> (\<forall>s fid. dget (c_pending c) s = Some fid \<longrightarrow> fid < length (c_futures c) \<and> fseq c fid = s)"

definition seqs_ok :: "client \<Rightarrow> bool" where
  "seqs_ok c \<longleftrightarrow> distinct (map fst (c_futures c)) \<and> (\<forall>s \<in> set (map fst (c_futures c)). s \<le> c_seq c)"

definition session_inv :: "client \<Rightarrow> bool" where
  "session_inv c \<longleftrightarrow> seqs_ok c \<and> pending_ok c \<and> (\<forall>fid < length (c_futures c). fut_ok c fid)"

lemma set_future_simps [simp]:
  "length (c_futures (set_future fid f c)) = length (c_futures c)"
  "c_pending (set_future fid f c) = c_pending c" "c_seq (set_future fid f c) = c_seq c"
  "listening (set_future fid f c) = listening c" "c_sent (set_future fid f c) = c_sent c"
  by (simp_all add: set_future_def)

lemma set_future_nth:
  "i < length (c_futures c) \<Longrightarrow> c_futures (set_future fid f c) ! i = (if i = fid then (fseq c fid, f) else c_futures c ! i)"
  by (simp add: set_future_def nth_list_update)

lemma set_future_seqs [simp]: "map fst (c_futures (set_future fid f c)) = map fst (c_futures c)"
  by (rule nth_equalityI) (simp_all add: set_future_nth)

lemma inv_set_future:
  assumes "session_inv c" "fid < length (c_futures c)" "f \<noteq> Waiting"
    and "\<And>r. f = Resolved r \<Longrightarrow> eq_int (jget r ''seq'' JNull) (fseq c fid)"
  shows "session_inv (set_future fid f c)"
proof -
  have "fut_ok (set_future fid f c) i" if "i < length (c_futures c)" for i
    using assms that by (cases "i = fid") (simp_all add: fut_ok_def set_future_nth session_inv_def)
  moreover have "pending_ok (set_future fid f c)"
    using assms(1) by (auto simp: pending_ok_def session_inv_def set_future_nth)
  moreover have "seqs_ok (set_future fid f c)"
    unfolding seqs_ok_def set_future_seqs set_future_simps using assms(1) unfolding session_inv_def seqs_ok_def by blast
  ultimately show ?thesis by (simp add: session_inv_def)
qed

lemma inv_new_client: "session_inv (new_client did user mdl tok rep asy)"
  by (simp add: session_inv_def new_client_def seqs_ok_def pending_ok_def)

lemma inv_pending: "session_inv c \<Longrightarrow> dget (c_pending c) s = Some fid \<Longrightarrow> fid < length (c_futures c) \<and> fseq c fid = s"
  by (simp add: session_inv_def pending_ok_def)

lemma futures_distinct:
  assumes "session_inv c" "i < length (c_futures c)" "j < length (c_futures c)" "fseq c i = fseq c j"
  shows "i = j"
  using assms nth_eq_iff_index_eq [of "map fst (c_futures c)" i j]
  by (simp add: session_inv_def seqs_ok_def)

lemma inv_drop_pending:
  assumes inv: "session_inv c" and f: "fid < length (c_futures c)" "fstate c fid \<noteq> Waiting"
  shows "session_inv (c\<lparr>c_pending := ddel (fseq c fid) (c_pending c)\<rparr>)"
proof -
  let ?c = "c\<lparr>c_pending := ddel (fseq c fid) (c_pending c)\<rparr>"
  have "fut_ok ?c i" if i: "i < length (c_futures c)" for i
  proof -
    have "fut_ok c i" using inv i by (simp add: session_inv_def)
    moreover have "fseq c fid \<noteq> fseq c i" if "fstate c i = Waiting"
      using that f futures_distinct [OF inv f(1) i] by auto
    ultimately show ?thesis by (simp add: fut_ok_def)
  qed
  moreover have "pending_ok ?c" using inv_pending [OF inv] by (auto simp: pending_ok_def split: if_splits)
  moreover have "seqs_ok ?c" using inv by (simp add: seqs_ok_def session_inv_def)
  ultimately show ?thesis by (simp add: session_inv_def)
qed

lemma no_pending_fresh:
  assumes inv: "session_inv c"
  shows "dget (c_pending c) (c_seq c + 1) = None"
proof (cases "dget (c_pending c) (c_seq c + 1)")
  case (Some fid)
  then have f: "fid < length (c_futures c)" "fseq c fid = c_seq c + 1" using inv_pending [OF inv] by auto
  have "fseq c fid \<in> set (map fst (c_futures c))" using f(1) by simp
  then show ?thesis using inv f(2) by (auto simp: session_inv_def seqs_ok_def)
qed simp

lemma inv_append:
  assumes inv: "session_inv c" and f: "f = Waiting \<and> p = dset (c_seq c + 1) (length (c_futures c)) (c_pending c) \<or>
    f = Cancelled \<and> p = ddel (c_seq c + 1) (dset (c_seq c + 1) (length (c_futures c)) (c_pending c))"
  shows "session_inv (c\<lparr>c_seq := c_seq c + 1, c_pending := p, c_futures := c_futures c @ [(c_seq c + 1, f)], c_sent := out\<rparr>)"
    (is "session_inv ?c")
proof -
  let ?n = "length (c_futures c)"
  have old: "s \<le> c_seq c" if "s \<in> set (map fst (c_futures c))" for s
    using inv that unfolding session_inv_def seqs_ok_def by blast
  have get: "dget p s = (if s = c_seq c + 1 then (if f = Waiting then Some ?n else None) else dget (c_pending c) s)" for s
    using f by auto
  have "fut_ok ?c i" if i: "i < Suc ?n" for i
  proof (cases "i = ?n")
    case False
    then have l: "i < ?n" using i by simp
    then have "fut_ok c i" using inv by (simp add: session_inv_def)
    moreover have "fseq c i \<noteq> c_seq c + 1" using old [of "fseq c i"] l by auto
    ultimately show ?thesis using l by (simp add: fut_ok_def nth_append get)
  qed (use f in \<open>auto simp: fut_ok_def get\<close>)
  moreover have "pending_ok ?c"
    using inv_pending [OF inv] by (auto simp: pending_ok_def nth_append get less_Suc_eq split: if_splits)
  moreover have "seqs_ok ?c"
  proof -
    have "c_seq c + 1 \<notin> set (map fst (c_futures c))" using old by force
    then show ?thesis using inv old by (force simp: seqs_ok_def session_inv_def)
  qed
  ultimately show ?thesis by (simp add: session_inv_def)
qed

lemma request_outcome:
  assumes inv: "session_inv c" and n: "next_seq c = (seq, c1)"
  shows "start_request seq message ok c1 =
    (if ok then (Inr (length (c_futures c)), c\<lparr>c_seq := c_seq c + 1, c_pending := dset seq (length (c_futures c)) (c_pending c),
        c_futures := c_futures c @ [(seq, Waiting)], c_sent := c_sent c @ [message]\<rparr>)
     else (Inl Send_Failed, c\<lparr>c_seq := c_seq c + 1, c_pending := ddel seq (dset seq (length (c_futures c)) (c_pending c)),
        c_futures := c_futures c @ [(seq, Cancelled)], c_sent := c_sent c\<rparr>))"
  using n no_pending_fresh [OF inv] by (auto simp: next_seq_def start_request_def Let_def)

lemma inv_request:
  assumes inv: "session_inv c" and n: "next_seq c = (seq, c1)"
  shows "session_inv (snd (start_request seq message ok c1))"
proof -
  have seq: "seq = c_seq c + 1" using n by (simp add: next_seq_def)
  show ?thesis
    unfolding request_outcome [OF inv n]
    using inv_append [OF inv, of Waiting "dset (c_seq c + 1) (length (c_futures c)) (c_pending c)" "c_sent c @ [message]"]
      inv_append [OF inv, of Cancelled _ "c_sent c"]
    by (simp add: seq)
qed

lemma fail_fold:
  fixes e :: fail_reason
  defines "g \<equiv> \<lambda>c fid. if future_done fid c then c else set_future fid (Failed e) c"
  shows "map fst (c_futures (foldl g c fids)) = map fst (c_futures c) \<and> c_pending (foldl g c fids) = c_pending c \<and>
    c_seq (foldl g c fids) = c_seq c \<and>
    (\<forall>i < length (c_futures c). fstate (foldl g c fids) i = (if i \<in> set fids \<and> fstate c i = Waiting then Failed e else fstate c i))"
proof (induction fids arbitrary: c)
  case (Cons fid fids)
  have m: "map fst (c_futures (g c fid)) = map fst (c_futures c)" "c_pending (g c fid) = c_pending c" "c_seq (g c fid) = c_seq c"
    by (simp_all add: g_def)
  then have l: "length (c_futures (g c fid)) = length (c_futures c)" by (metis length_map)
  have "fstate (g c fid) i = (if i = fid \<and> fstate c i = Waiting then Failed e else fstate c i)"
    if "i < length (c_futures c)" for i
    using that by (auto simp: g_def future_done_def set_future_nth)
  then show ?case using Cons.IH [of "g c fid"] by (auto simp: m l)
qed simp

lemma same_seqs: "map fst (c_futures c') = map fst (c_futures c) \<Longrightarrow>
    length (c_futures c') = length (c_futures c) \<and> (\<forall>i < length (c_futures c). fseq c' i = fseq c i)"
  by (metis length_map nth_map)

lemma fail_pending_props:
  assumes inv: "session_inv c"
  shows "session_inv (fail_pending e c) \<and> c_pending (fail_pending e c) = [] \<and>
    map fst (c_futures (fail_pending e c)) = map fst (c_futures c) \<and>
    (\<forall>i < length (c_futures c). fstate (fail_pending e c) i = (if fstate c i = Waiting then Failed e else fstate c i))"
proof -
  let ?c = "fail_pending e c"
  have p: "map fst (c_futures ?c) = map fst (c_futures c)" "c_pending ?c = []" "c_seq ?c = c_seq c"
    and st: "\<forall>i < length (c_futures c). fstate ?c i = (if i \<in> set (dvalues (c_pending c)) \<and> fstate c i = Waiting then Failed e else fstate c i)"
    using fail_fold [of e "c\<lparr>c_pending := []\<rparr>" "dvalues (c_pending c)"] by (simp_all add: fail_pending_def)
  have w: "i \<in> set (dvalues (c_pending c))" if "i < length (c_futures c)" "fstate c i = Waiting" for i
  proof -
    have "dget (c_pending c) (fseq c i) = Some i" using inv that by (simp add: session_inv_def fut_ok_def)
    then show ?thesis by (force simp: dvalues_def dest: map_of_SomeD)
  qed
  have st': "\<forall>i < length (c_futures c). fstate ?c i = (if fstate c i = Waiting then Failed e else fstate c i)"
    using st w by auto
  have "fut_ok ?c i" if "i < length (c_futures c)" for i
    using inv st' same_seqs [OF p(1)] that by (auto simp: fut_ok_def session_inv_def)
  moreover have "seqs_ok ?c" using inv unfolding seqs_ok_def session_inv_def p by blast
  ultimately have "session_inv ?c" using p same_seqs [OF p(1)] by (simp add: session_inv_def pending_ok_def)
  then show ?thesis using p st' by blast
qed

lemma inv_listening: "session_inv (c\<lparr>listening := b\<rparr>) = session_inv c"
  by (simp add: session_inv_def seqs_ok_def pending_ok_def fut_ok_def)

lemma dispatch_async_keeps:
  "c_pending (dispatch_async raw c) = c_pending c" "c_futures (dispatch_async raw c) = c_futures c"
  "c_seq (dispatch_async raw c) = c_seq c" "listening (dispatch_async raw c) = listening c"
  by (auto simp: dispatch_async_def split: option.splits)

lemma inv_dispatch: "session_inv (dispatch_async raw c) = session_inv c"
  by (simp add: session_inv_def seqs_ok_def pending_ok_def fut_ok_def dispatch_async_keeps)

lemma int_key_eq: "int_key v = Some s \<Longrightarrow> eq_int v s"
  by (auto simp: int_key_def eq_int_def split: option.splits if_splits)

text \<open>How a frame is handled, by what its sequence number says.\<close>

lemma listen_frame_cases:
  obtains (bad) "unhashable (jget raw ''seq'' JNull)" "listen_frame raw c = (fail_pending Listen_Error c)\<lparr>listening := False\<rparr>"
  | (async) "\<not> unhashable (jget raw ''seq'' JNull)" "listen_frame raw c = dispatch_async raw c"
      "\<forall>s fid. int_key (jget raw ''seq'' JNull) = Some s \<longrightarrow> dget (c_pending c) s = Some fid \<longrightarrow> fstate c fid \<noteq> Waiting"
  | (reply) s fid where "int_key (jget raw ''seq'' JNull) = Some s" "dget (c_pending c) s = Some fid" "fstate c fid = Waiting"
      "listen_frame raw c = set_future fid (Resolved raw) (c\<lparr>c_pending := ddel s (c_pending c)\<rparr>)"
proof (cases "unhashable (jget raw ''seq'' JNull)")
  case True
  then show ?thesis using bad by (simp add: listen_frame_def)
next
  case False
  show ?thesis
  proof (cases "\<exists>s fid. int_key (jget raw ''seq'' JNull) = Some s \<and> dget (c_pending c) s = Some fid \<and> fstate c fid = Waiting")
    case True
    then obtain s fid where "int_key (jget raw ''seq'' JNull) = Some s" "dget (c_pending c) s = Some fid" "fstate c fid = Waiting"
      by blast
    then show ?thesis using reply False by (simp add: listen_frame_def lookup_pending_def future_done_def)
  next
    case nr: False
    then have "listen_frame raw c = dispatch_async raw c"
      using False by (auto simp: listen_frame_def lookup_pending_def future_done_def split: option.splits)
    then show ?thesis using async False nr by blast
  qed
qed

lemma inv_reply:
  assumes inv: "session_inv c" and k: "int_key (jget raw ''seq'' JNull) = Some s" "dget (c_pending c) s = Some fid"
  shows "session_inv (set_future fid (Resolved raw) (c\<lparr>c_pending := ddel s (c_pending c)\<rparr>))"
proof -
  have f: "fid < length (c_futures c)" "fseq c fid = s" using inv_pending [OF inv k(2)] by auto
  then have "session_inv (set_future fid (Resolved raw) c)"
    using inv_set_future [OF inv f(1), of "Resolved raw"] int_key_eq [OF k(1)] by simp
  from inv_drop_pending [OF this, of fid] f
  have "session_inv ((set_future fid (Resolved raw) c)\<lparr>c_pending := ddel s (c_pending c)\<rparr>)"
    by (simp add: set_future_nth)
  moreover have "set_future fid (Resolved raw) (c\<lparr>c_pending := p\<rparr>) = (set_future fid (Resolved raw) c)\<lparr>c_pending := p\<rparr>" for p
    by (simp add: set_future_def)
  ultimately show ?thesis by simp
qed

lemma inv_frame: "session_inv c \<Longrightarrow> session_inv (listen_frame raw c)"
  by (cases raw c rule: listen_frame_cases)
     (simp_all add: inv_listening inv_dispatch inv_reply fail_pending_props)

lemma inv_finish:
  assumes "session_inv c" "fid < length (c_futures c)" "finish_request (fseq c fid) fid c = (r, c')"
  shows "session_inv c'"
  using assms inv_drop_pending [OF assms(1,2)]
  by (auto simp: finish_request_def split: future.splits)

lemma inv_step: "session_step c c' \<Longrightarrow> session_inv c \<Longrightarrow> session_inv c'"
proof (induction rule: session_step.induct)
  case (step_request c seq c1 message ok r c')
  then show ?case using inv_request [of c seq c1 message ok] by simp
next
  case (step_cancel fid c)
  then show ?case using inv_set_future [of c fid Cancelled] by (simp add: cancel_request_def)
next
  case (step_finish fid c seq r c')
  then show ?case using inv_finish by blast
qed (simp_all add: inv_frame listen_eof_def inv_listening fail_pending_props)

lemma inv_run: "session_run c c' \<Longrightarrow> session_inv c \<Longrightarrow> session_inv c'"
  by (induction rule: session_run.induct) (auto dest: inv_step)

text \<open>
  C3 [responses_match_requests]
  Correlation of requests and responses in every run of the client: however frames, timeouts,
  clean-ups and new requests interleave, a request that is resolved was resolved by a frame whose
  sequence number is the request's own, numbers are never reused, and the request the client starts
  next is never refused as a duplicate.
\<close>

theorem responses_match_requests:
  assumes "session_run (new_client did user mdl tok rep asy) c"
  shows "(\<forall>fid < length (c_futures c). \<forall>r. snd (c_futures c ! fid) = Resolved r \<longrightarrow>
      eq_int (jget r ''seq'' JNull) (fst (c_futures c ! fid))) \<and>
    distinct (map fst (c_futures c)) \<and>
    (\<forall>message ok. case next_seq c of (seq, c1) \<Rightarrow> fst (start_request seq message ok c1) \<noteq> Inl (Duplicate_Seq seq))"
proof -
  have inv: "session_inv c" using inv_run [OF assms inv_new_client] .
  have "fst (start_request seq message ok c1) \<noteq> Inl (Duplicate_Seq seq)" if "next_seq c = (seq, c1)" for seq c1 message ok
    unfolding request_outcome [OF inv that] by simp
  then show ?thesis using inv by (auto simp: session_inv_def fut_ok_def seqs_ok_def split: prod.split)
qed

text \<open>
  C33 [closed_tunnel_wakes_everyone]
  Nobody is left waiting when the tunnel closes: in every reachable state, the end of the stream (and
  a frame whose sequence number cannot be looked up, which ends the loop too) leaves no pending entry
  and no waiting future; exactly the futures that were waiting are failed, every other outcome stays.
\<close>

theorem closed_tunnel_wakes_everyone:
  assumes "session_run (new_client did user mdl tok rep asy) c"
    and "(c', e) = (listen_eof c, Tunnel_Closed) \<or> unhashable (jget raw ''seq'' JNull) \<and> (c', e) = (listen_frame raw c, Listen_Error)"
  shows "c_pending c' = [] \<and> \<not> listening c' \<and> length (c_futures c') = length (c_futures c) \<and>
    (\<forall>fid < length (c_futures c). snd (c_futures c' ! fid) =
       (if snd (c_futures c ! fid) = Waiting then Failed e else snd (c_futures c ! fid)))"
proof -
  have inv: "session_inv c" using inv_run [OF assms(1) inv_new_client] .
  have "c' = (fail_pending e c)\<lparr>listening := False\<rparr>"
    using assms(2) by (auto simp: listen_eof_def listen_frame_def)
  then show ?thesis using fail_pending_props [OF inv, of e] same_seqs [of "fail_pending e c" c] by simp
qed

text \<open>
    A request's outcome never changes: whatever step follows, a future that is resolved, failed or
  cancelled keeps its outcome, so a late or repeated response with the same sequence number reaches
  the asynchronous handlers and not the request.
\<close>

theorem outcomes_are_final:
  assumes "session_run (new_client did user mdl tok rep asy) c" "session_step c c'"
    and "fid < length (c_futures c)" "snd (c_futures c ! fid) \<noteq> Waiting"
  shows "fid < length (c_futures c') \<and> c_futures c' ! fid = c_futures c ! fid"
proof -
  have inv: "session_inv c" using inv_run [OF assms(1) inv_new_client] .
  have fp: "fid < length (c_futures (fail_pending e c)) \<and> c_futures (fail_pending e c) ! fid = c_futures c ! fid" for e
    using fail_pending_props [OF inv, of e] same_seqs [of "fail_pending e c" c] assms(3,4) by (simp add: prod_eq_iff)
  from assms(2) show ?thesis
  proof (cases rule: session_step.cases)
    case step_request
    then show ?thesis using assms(3) request_outcome [OF inv step_request(1)]
      by (auto simp: nth_append split: if_splits)
  next
    case step_cancel
    then show ?thesis using assms(3,4) by (auto simp: cancel_request_def future_done_def set_future_nth)
  next
    case step_finish
    then show ?thesis using assms(3) by (auto simp: finish_request_def split: future.splits)
  next
    case (step_frame raw)
    show ?thesis
    proof (cases raw c rule: listen_frame_cases)
      case (reply s i)
      then have "i \<noteq> fid" using assms(4) by auto
      then show ?thesis using step_frame reply assms(3) set_future_nth [of fid "c\<lparr>c_pending := ddel s (c_pending c)\<rparr>" i] by simp
    qed (use step_frame fp assms(3) in \<open>simp_all add: dispatch_async_keeps\<close>)
  next
    case step_eof
    then show ?thesis using fp by (simp add: listen_eof_def)
  qed
qed


section \<open>Witnesses\<close>

definition sample_client :: client where
  "sample_client = new_client ''did'' ''user'' ''model'' ''token'' True True"

definition sample_waiting :: client where
  "sample_waiting = snd (start_request 1 (build_checkin 1 ''user'' ''did'' ''token'') True (snd (next_seq sample_client)))"

definition sample_answered :: client where
  "sample_answered = listen_frame [(''seq'', JInt 1), (''cmd'', JStr ''checkin_done'')] sample_waiting"

lemma sample_runs: "session_run sample_client sample_waiting" "session_run sample_client sample_answered"
proof -
  have "session_step sample_client sample_waiting"
    by (rule step_request [of sample_client 1 "snd (next_seq sample_client)" "build_checkin 1 ''user'' ''did'' ''token''" True
          "Inr 0"])
       (simp_all add: sample_waiting_def sample_client_def new_client_def next_seq_def start_request_def)
  then show w: "session_run sample_client sample_waiting" by (rule run_step [OF run_start])
  have "session_step sample_waiting sample_answered"
    unfolding sample_answered_def
    by (rule step_frame) (simp add: sample_waiting_def sample_client_def new_client_def next_seq_def start_request_def)
  then show "session_run sample_client sample_answered" by (rule run_step [OF w])
qed

lemma sample_futures: "c_futures sample_waiting = [(1, Waiting)]"
  "c_futures sample_answered = [(1, Resolved [(''seq'', JInt 1), (''cmd'', JStr ''checkin_done'')])]"
  by (simp_all add: sample_answered_def sample_waiting_def sample_client_def new_client_def next_seq_def
      start_request_def listen_frame_def lookup_pending_def int_key_def jget_def future_done_def set_future_def)

theorem responses_match_requests_witness:
  "eq_int (jget [(''seq'', JInt 1), (''cmd'', JStr ''checkin_done'')] ''seq'' JNull) (fst (c_futures sample_answered ! 0))"
  using responses_match_requests [OF sample_runs(2) [unfolded sample_client_def]] by (simp add: sample_futures)

theorem closed_tunnel_wakes_everyone_witness:
  "snd (c_futures (listen_eof sample_waiting) ! 0) = Failed Tunnel_Closed"
  using closed_tunnel_wakes_everyone [OF sample_runs(1) [unfolded sample_client_def], of "listen_eof sample_waiting" Tunnel_Closed "[]"]
  by (simp add: sample_futures)

theorem outcomes_are_final_witness:
  "c_futures (listen_eof sample_answered) ! 0 = (1, Resolved [(''seq'', JInt 1), (''cmd'', JStr ''checkin_done'')])"
proof -
  have "listening sample_answered"
    by (simp add: sample_answered_def sample_waiting_def sample_client_def new_client_def next_seq_def
        start_request_def listen_frame_def lookup_pending_def int_key_def jget_def future_done_def set_future_def)
  then show ?thesis
    using outcomes_are_final [OF sample_runs(2) [unfolded sample_client_def] step_eof, of 0] by (simp add: sample_futures)
qed

end
