(* ===== verification/Coordinator.thy ===== *)
theory Coordinator
  imports Protocol
begin

text \<open>
  \<open>hub/coordinator.py\<close>: message framing for reads and writes, the registry of report handlers with its
  buffer of early reports, the topology bookkeeping, the reconnect loop and the resources of a session
  attempt. A handler is an identifier; that it is called with a report is an entry of the log
  \<open>delivered\<close> (an exception it raises is swallowed by the code). Dictionaries keyed by a received value
  are keyed by the \<open>json\<close> value itself.
\<close>

section \<open>Framing\<close>

definition to_wire_path :: "string \<Rightarrow> string" where
  "to_wire_path path = (if count_list path (CHR ''.'') = 2 then path @ ''.1'' else path)"

record attr_spec =
  spec_name :: string
  spec_resource_id :: "string option"

definition resolve_write_framing :: "string \<Rightarrow> string \<Rightarrow> string option \<Rightarrow> string \<times> string option" where
  "resolve_write_framing own did parent_did =
     (let wire_did = (case parent_did of
          Some p \<Rightarrow> (if p \<noteq> [] then p else did)
        | None \<Rightarrow> (if did = own then did else own))
      in (wire_did, if wire_did = did then None else Some did))"

definition read_request :: "string \<Rightarrow> string \<Rightarrow> int \<Rightarrow> string \<Rightarrow> string \<Rightarrow> attr_spec list \<Rightarrow> obj" where
  "read_request own own_model seq did mdl attrs =
     (if did = own then build_read seq did mdl (map spec_name attrs) None
      else build_read seq own own_model (map spec_name attrs) (Some did))"

text \<open>None is the AttributeError of a response whose data is no dict.\<close>

definition read_result :: "obj \<Rightarrow> obj option" where
  "read_result response =
     (case py_or (jget response ''data'' JNull) (JObj []) of
        JObj data \<Rightarrow>
          (case jget data ''result'' JNull of JObj r \<Rightarrow> Some r
           | _ \<Rightarrow> (case jget data ''value'' JNull of JObj v \<Rightarrow> Some v | _ \<Rightarrow> Some []))
      | _ \<Rightarrow> None)"

definition wire_key :: "attr_spec \<Rightarrow> string" where
  "wire_key spec = (case spec_resource_id spec of
     Some rid \<Rightarrow> (if rid \<noteq> [] then rid else to_wire_path (spec_name spec))
   | None \<Rightarrow> to_wire_path (spec_name spec))"

definition write_payload :: "(attr_spec \<times> json) list \<Rightarrow> obj" where
  "write_payload attrs = foldl (\<lambda>d (spec, v). dset (wire_key spec) v d) [] attrs"

definition write_request :: "string \<Rightarrow> int \<Rightarrow> int \<Rightarrow> string \<Rightarrow> string \<Rightarrow> (attr_spec \<times> json) list \<Rightarrow> string option \<Rightarrow> obj" where
  "write_request own now_ms seq did mdl attrs parent_did =
     (let (wire_did, sdid) = resolve_write_framing own did parent_did
      in build_write now_ms seq wire_did mdl (write_payload attrs) sdid None)"

datatype ha_error = Not_Connected | Hub_Disconnected | Hub_Timed_Out | Write_Failed json | Bad_Response

text \<open>\<open>code != 0\<close> raises, with the hub's message or one that names the code.\<close>

definition write_outcome :: "obj \<Rightarrow> ha_error + unit" where
  "write_outcome response =
     (case py_or (jget response ''data'' JNull) (JObj []) of
        JObj data \<Rightarrow>
          (let code = jget data ''code'' (JInt 0)
           in if eq_int code 0 then Inr ()
              else Inl (Write_Failed (py_or (jget data ''message'' JNull) (JStr ''hub write failed''))))
      | _ \<Rightarrow> Inl Bad_Response)"

section \<open>State\<close>

type_synonym handler = nat

record coord =
  own_did :: string
  handlers :: "(json, handler list) dict"
  pending :: "(json, lan_report list) dict"
  topo :: "string set"
  ever_seen :: "string set"
  last_report :: rat
  armed_at :: "(json, rat) dict"
  reported_since_arm :: "json list"
  delivered :: "(handler \<times> lan_report) list"
  keepalives :: nat
  topo_callbacks :: "string set list"

definition new_coord :: "string \<Rightarrow> rat \<Rightarrow> coord" where
  "new_coord did now = \<lparr>own_did = did, handlers = [], pending = [], topo = {}, ever_seen = {}, last_report = now,
     armed_at = [], reported_since_arm = [], delivered = [], keepalives = 0, topo_callbacks = []\<rparr>"

definition REPORT_BUFFER_MAXLEN :: nat where "REPORT_BUFFER_MAXLEN = 10"
definition REPORT_BUFFER_MAX_DIDS :: nat where "REPORT_BUFFER_MAX_DIDS = 64"

definition note_subscription_armed :: "string \<Rightarrow> rat \<Rightarrow> coord \<Rightarrow> coord" where
  "note_subscription_armed did now c =
     c\<lparr>armed_at := dset (JStr did) now (armed_at c), reported_since_arm := filter (\<lambda>k. k \<noteq> JStr did) (reported_since_arm c)\<rparr>"

definition seconds_since_last_report :: "rat \<Rightarrow> coord \<Rightarrow> rat" where
  "seconds_since_last_report now c = now - last_report c"

definition record_topology :: "string set \<Rightarrow> coord \<Rightarrow> coord" where
  "record_topology dids c = c\<lparr>topo := dids, ever_seen := ever_seen c \<union> dids\<rparr>"

definition is_lan_direct_offline :: "string \<Rightarrow> coord \<Rightarrow> bool" where
  "is_lan_direct_offline did c = (if did = own_did c then False else did \<in> ever_seen c \<and> did \<notin> topo c)"

section \<open>Report handlers\<close>

text \<open>A deque with a maximal length drops from the left.\<close>

definition push_bounded :: "nat \<Rightarrow> 'a \<Rightarrow> 'a list \<Rightarrow> 'a list" where
  "push_bounded n x xs = drop (length xs + 1 - n) (xs @ [x])"

definition register_handler :: "string \<Rightarrow> handler \<Rightarrow> coord \<Rightarrow> coord" where
  "register_handler did h c =
     (let old = (case dget (handlers c) (JStr did) of None \<Rightarrow> [] | Some hs \<Rightarrow> hs);
          buffered = (case dget (pending c) (JStr did) of None \<Rightarrow> [] | Some rs \<Rightarrow> rs)
      in c\<lparr>handlers := dset (JStr did) (old @ [h]) (handlers c), pending := ddel (JStr did) (pending c),
           delivered := delivered c @ map (\<lambda>r. (h, r)) buffered\<rparr>)"

definition unregister_handler :: "string \<Rightarrow> handler \<Rightarrow> coord \<Rightarrow> coord" where
  "unregister_handler did h c =
     (case dget (handlers c) (JStr did) of
        None \<Rightarrow> c
      | Some hs \<Rightarrow>
          if h \<notin> set hs then c
          else let hs' = remove1 h hs
               in if hs' = [] then c\<lparr>handlers := ddel (JStr did) (handlers c)\<rparr>
                  else c\<lparr>handlers := dset (JStr did) hs' (handlers c)\<rparr>)"

definition buffer_report :: "json \<Rightarrow> lan_report \<Rightarrow> coord \<Rightarrow> coord" where
  "buffer_report key r c =
     (case dget (pending c) key of
        None \<Rightarrow>
          if length (pending c) \<ge> REPORT_BUFFER_MAX_DIDS then c
          else c\<lparr>pending := dset key (push_bounded REPORT_BUFFER_MAXLEN r []) (pending c)\<rparr>
      | Some buf \<Rightarrow> c\<lparr>pending := dset key (push_bounded REPORT_BUFFER_MAXLEN r buf) (pending c)\<rparr>)"

definition report_key :: "lan_report \<Rightarrow> json" where
  "report_key r = py_or (r_sdid r) (r_did r)"

fun hashable :: "json \<Rightarrow> bool" where
  "hashable (JList xs) = False"
| "hashable (JObj d) = False"
| "hashable v = True"

text \<open>A key that cannot be hashed makes the lookup raise, after the time of the report was noted.\<close>

definition dispatch_report :: "rat \<Rightarrow> lan_report \<Rightarrow> coord \<Rightarrow> coord" where
  "dispatch_report now r c0 =
     (let c = c0\<lparr>last_report := now\<rparr>; key = report_key r
      in if \<not> hashable key then c
         else
           let c = (if dget (armed_at c) key \<noteq> None \<and> key \<notin> set (reported_since_arm c)
                    then c\<lparr>reported_since_arm := key # reported_since_arm c\<rparr> else c)
           in case dget (handlers c) key of
                None \<Rightarrow> buffer_report key r c
              | Some hs \<Rightarrow> if hs = [] then buffer_report key r c
                           else c\<lparr>delivered := delivered c @ map (\<lambda>h. (h, r)) hs\<rparr>)"

definition dispatch_async_frame :: "obj \<Rightarrow> coord \<Rightarrow> coord" where
  "dispatch_async_frame raw c =
     (let cmd = jget raw ''cmd'' JNull; ty = jget raw ''type'' JNull
      in if cmd = JStr CMD_TOPOLOGY \<and> ty = JStr TYPE_DEVICE
         then let c = record_topology (parse_lanlink_topology_push (jget raw ''data'' JNull)) c
              in c\<lparr>topo_callbacks := topo_callbacks c @ [topo c]\<rparr>
         else if cmd = JStr ''keepalive_done'' \<or> cmd = JStr CMD_KEEPALIVE
         then c\<lparr>keepalives := keepalives c + 1\<rparr>
         else c)"

section \<open>The reconnect loop\<close>

text \<open>
  How a session attempt ends, as \<open>_run\<close> sees it, and what the mDNS lookup found. A turn of the loop
  gives the delay it sleeps (None: it retries at once) and the next backoff.
\<close>

datatype attempt_end = Clean_End | Connection_Failed | Other_Failure

definition endpoint_changed :: "(string \<times> nat) \<Rightarrow> (string \<times> nat) option \<Rightarrow> bool" where
  "endpoint_changed current found = (case found of None \<Rightarrow> False | Some e \<Rightarrow> e \<noteq> current)"

definition run_turn :: "rat \<Rightarrow> rat \<Rightarrow> attempt_end \<Rightarrow> bool \<Rightarrow> rat \<Rightarrow> rat option \<times> rat" where
  "run_turn min_delay max_delay e moved backoff =
     (if e = Connection_Failed \<and> moved then (None, min_delay)
      else let b = (if e = Clean_End then min_delay else backoff) in (Some b, min (b * 2) max_delay))"

definition apply_jitter :: "rat \<Rightarrow> rat \<Rightarrow> rat" where
  "apply_jitter uniform delay = delay * uniform"

fun run_turns :: "rat \<Rightarrow> rat \<Rightarrow> (attempt_end \<times> bool) list \<Rightarrow> rat \<Rightarrow> rat option list \<times> rat" where
  "run_turns lo hi [] backoff = ([], backoff)"
| "run_turns lo hi ((e, moved) # es) backoff =
     (case run_turn lo hi e moved backoff of (delay, b) \<Rightarrow>
        case run_turns lo hi es b of (ds, b') \<Rightarrow> (delay # ds, b'))"

section \<open>The resources of a session attempt\<close>

text \<open>
  \<open>_run_session_once\<close> and \<open>_close_tunnel\<close> over what they acquire: tunnels are numbered, \<open>open_socks\<close>
  are the tunnels whose socket is open. What the network answers is the argument: the connection is
  refused, the handshake fails after the socket was opened (with the tunnel's error or any other
  exception), the check-in fails or is rejected, or the session runs until it ends.
\<close>

datatype network =
    Refused
  | Handshake_Fails
  | Handshake_Raises
  | Checkin_Fails
  | Checkin_Rejected
  | Runs

record session_res =
  cur_tunnel :: "nat option"
  open_socks :: "nat list"
  fresh :: nat
  connected_event :: bool
  has_client :: bool
  session_ups :: nat

definition idle_res :: session_res where
  "idle_res = \<lparr>cur_tunnel = None, open_socks = [], fresh = 0, connected_event = False, has_client = False, session_ups = 0\<rparr>"

definition close_tunnel :: "session_res \<Rightarrow> session_res" where
  "close_tunnel s = (case cur_tunnel s of None \<Rightarrow> s
     | Some t \<Rightarrow> s\<lparr>cur_tunnel := None, open_socks := filter (\<lambda>x. x \<noteq> t) (open_socks s)\<rparr>)"

definition end_session :: "session_res \<Rightarrow> session_res" where
  "end_session s = close_tunnel (s\<lparr>connected_event := False, has_client := False\<rparr>)"

definition run_session_once :: "network \<Rightarrow> session_res \<Rightarrow> attempt_end \<times> session_res" where
  "run_session_once net s0 =
     (let t = fresh s0; s1 = s0\<lparr>cur_tunnel := Some t, fresh := t + 1\<rparr>;
          s2 = s1\<lparr>open_socks := t # open_socks s1\<rparr>; s3 = s2\<lparr>has_client := True\<rparr>
      in case net of
           Refused \<Rightarrow> (Connection_Failed, s1)
         | Handshake_Fails \<Rightarrow> (Connection_Failed, s2)
         | Handshake_Raises \<Rightarrow> (Other_Failure, s2)
         | Checkin_Fails \<Rightarrow> (Connection_Failed, end_session s3)
         | Checkin_Rejected \<Rightarrow> (Connection_Failed, end_session s3)
         | Runs \<Rightarrow> (Clean_End, end_session (s3\<lparr>connected_event := True, session_ups := session_ups s3 + 1\<rparr>)))"

definition stop_coordinator :: "session_res \<Rightarrow> session_res" where
  "stop_coordinator s = close_tunnel s"

section \<open>Cloud enumeration\<close>

definition starts_with :: "string \<Rightarrow> string \<Rightarrow> bool" where
  "starts_with prefix s = (take (length prefix) s = prefix)"

text \<open>None is the exception \<open>parse_cloud_device\<close> may raise; the second component are the ids to warn about.\<close>

fun topology_records :: "string \<Rightarrow> json list \<Rightarrow> topology_device list option" where
  "topology_records own [] = Some []"
| "topology_records own (r # rs) =
     (case r of
        JObj rec \<Rightarrow>
          (case jget rec ''did'' (JStr []) of
             JStr did \<Rightarrow>
               if did = [] \<or> starts_with ''virtual.'' did then topology_records own rs
               else if did = own \<or> jget rec ''parentDeviceId'' (JStr []) = JStr own then
                 (case parse_cloud_device rec of
                    None \<Rightarrow> None
                  | Some d \<Rightarrow> map_option (\<lambda>ds. d # ds) (topology_records own rs))
               else topology_records own rs
           | _ \<Rightarrow> topology_records own rs)
      | _ \<Rightarrow> topology_records own rs)"

definition async_get_topology :: "json list \<Rightarrow> coord \<Rightarrow> (topology_device list \<times> string set) option" where
  "async_get_topology records c =
     (case topology_records (own_did c) records of
        None \<Rightarrow> None
      | Some ds \<Rightarrow> Some (ds, {d \<in> topo c. JStr d \<notin> td_did ` set ds}))"


section \<open>Framing, errors and cloud enumeration\<close>

lemma to_wire_path_idem: "to_wire_path (to_wire_path p) = to_wire_path p"
  by (simp add: to_wire_path_def)

text \<open>
  The framing of every read and write: the message's \<open>sdid\<close> is always the target device, and its
  \<open>did\<close> (the hop that routes it) is the given parent when there is one, the target itself for the
  own-parent sentinel or for the connected hub, and the connected hub when no parent is known; reads
  route every other device through the connected hub under the hub's model.
\<close>

theorem request_routing:
  "\<exists>data. dget (write_request own ms seq did mdl attrs parent) ''data'' = Some (JObj data) \<and>
     dget data ''sdid'' = Some (JStr did) \<and> dget data ''model'' = Some (JStr mdl) \<and>
     dget data ''value'' = Some (JObj (write_payload attrs)) \<and>
     dget data ''did'' = Some (JStr (case parent of Some p \<Rightarrow> (if p = [] then did else p) | None \<Rightarrow> own)) \<and>
   (\<exists>rdata. dget (read_request own own_model seq did mdl specs) ''data'' = Some (JObj rdata) \<and>
     dget rdata ''sdid'' = Some (JStr did) \<and> dget rdata ''did'' = Some (JStr own) \<and>
     dget rdata ''model'' = Some (JStr (if did = own then mdl else own_model)))"
  by (auto simp: write_request_def resolve_write_framing_def build_write_def read_request_def build_read_def
      Let_def split: option.splits)

lemma dget_foldl_dset:
  "dget (foldl (\<lambda>d (spec, v). dset (f spec) v d) [] xs) k =
     (case find (\<lambda>(spec, v). f spec = k) (rev xs) of Some (spec, v) \<Rightarrow> Some v | None \<Rightarrow> None)"
proof (induction xs rule: rev_induct)
  case (snoc x xs)
  then show ?case by (cases x) auto
qed simp

text \<open>
    The keys of a write: a setting with a resource id is written under the bare id, a three-part trait
  path under the path with its instance suffix, any other path unchanged; the suffix is added once at
  most, and when several specs share a key the last value is the one that is sent.
\<close>

theorem write_payload_keys:
  "dget (write_payload attrs) k =
     (case find (\<lambda>(spec, v). wire_key spec = k) (rev attrs) of Some (spec, v) \<Rightarrow> Some v | None \<Rightarrow> None) \<and>
   wire_key \<lparr>spec_name = p, spec_resource_id = Some (c # cs)\<rparr> = c # cs \<and>
   wire_key \<lparr>spec_name = p, spec_resource_id = None\<rparr> = (if count_list p (CHR ''.'') = 2 then p @ ''.1'' else p) \<and>
   wire_key \<lparr>spec_name = wire_key \<lparr>spec_name = p, spec_resource_id = None\<rparr>, spec_resource_id = None\<rparr> =
     wire_key \<lparr>spec_name = p, spec_resource_id = None\<rparr>"
  using dget_foldl_dset [of wire_key attrs k]
  by (simp add: write_payload_def wire_key_def to_wire_path_idem) (simp add: to_wire_path_def)

text \<open>
    A write is accepted exactly when the response's data is falsy, or an object whose \<open>code\<close> is missing
  or equal to zero as Python compares numbers; a response whose data is any other value raises, as
  does every other code.
\<close>

theorem write_acknowledged:
  "write_outcome response = Inr () \<longleftrightarrow>
     (case dget response ''data'' of
        None \<Rightarrow> True
      | Some v \<Rightarrow> \<not> truthy v \<or> (\<exists>data. v = JObj data \<and> num_value (jget data ''code'' (JInt 0)) = Some 0))"
proof (cases "dget response ''data''")
  case None
  then show ?thesis by (simp add: write_outcome_def py_or_def jget_def)
next
  case (Some v)
  then show ?thesis
    by (cases v) (auto simp: write_outcome_def py_or_def jget_def eq_int_def)
qed

lemma topology_records_exact:
  "topology_records own rs = Some ds \<Longrightarrow>
   map td_metadata ds = concat (map (\<lambda>r. case r of
      JObj rec \<Rightarrow> (case jget rec ''did'' (JStr []) of
         JStr did \<Rightarrow> (if did \<noteq> [] \<and> \<not> starts_with ''virtual.'' did \<and>
             (did = own \<or> jget rec ''parentDeviceId'' (JStr []) = JStr own) then [rec] else [])
       | _ \<Rightarrow> []) | _ \<Rightarrow> []) rs)"
proof (induction rs arbitrary: ds)
  case (Cons r rs)
  have m: "td_metadata d = rec" if "parse_cloud_device rec = Some d" for d rec
    using that by (auto simp: parse_cloud_device_def split: option.splits)
  show ?case
  proof (cases r)
    case (JObj rec)
    then show ?thesis using Cons
      by (cases "jget rec ''did'' (JStr [])") (auto split: if_splits option.splits dest: m)
  qed (use Cons in auto)
qed simp

text \<open>
    The cloud enumeration keeps exactly the records of this hub and of its direct children, in the
  cloud's order: records that are no objects, have no usable id, or a virtual id are skipped, and
  the rest keep their raw record; what the LAN push announced and the enumeration lacks is reported.
\<close>

theorem topology_enumeration:
  assumes "async_get_topology rs c = Some (ds, missing)"
  shows "map td_metadata ds = concat (map (\<lambda>r. case r of
      JObj rec \<Rightarrow> (case jget rec ''did'' (JStr []) of
         JStr did \<Rightarrow> (if did \<noteq> [] \<and> \<not> starts_with ''virtual.'' did \<and>
             (did = own_did c \<or> jget rec ''parentDeviceId'' (JStr []) = JStr (own_did c)) then [rec] else [])
       | _ \<Rightarrow> []) | _ \<Rightarrow> []) rs) \<and>
    missing = {d \<in> topo c. JStr d \<notin> td_did ` set ds}"
  using assms topology_records_exact [of "own_did c" rs ds]
  by (simp add: async_get_topology_def split: option.splits)

theorem topology_enumeration_witness:
  "map td_metadata [] = ([] :: obj list)"
  using topology_enumeration [of "[JInt 3, JObj [(''did'', JStr ''virtual.x'')]]" "new_coord ''hub'' 0" "[]" "{}"]
  by (simp add: async_get_topology_def new_coord_def jget_def starts_with_def)

section \<open>Dropped out of the topology\<close>

fun pushes :: "obj list \<Rightarrow> string set list" where
  "pushes [] = []"
| "pushes (raw # raws) =
     (if jget raw ''cmd'' JNull = JStr CMD_TOPOLOGY \<and> jget raw ''type'' JNull = JStr TYPE_DEVICE
      then [parse_lanlink_topology_push (jget raw ''data'' JNull)] else []) @ pushes raws"

lemma pushes_append: "pushes (xs @ ys) = pushes xs @ pushes ys"
  by (induction xs) auto

lemma dispatch_async_topology:
  "own_did (dispatch_async_frame raw c) = own_did c"
  "topo (dispatch_async_frame raw c) = (case pushes [raw] of [] \<Rightarrow> topo c | p # ps \<Rightarrow> p)"
  "ever_seen (dispatch_async_frame raw c) = ever_seen c \<union> \<Union> (set (pushes [raw]))"
  by (simp_all add: dispatch_async_frame_def record_topology_def Let_def) auto

lemma topology_after:
  "ever_seen (fold dispatch_async_frame raws c) = ever_seen c \<union> \<Union> (set (pushes raws))"
  "topo (fold dispatch_async_frame raws c) = (if pushes raws = [] then topo c else last (pushes raws))"
  "own_did (fold dispatch_async_frame raws c) = own_did c"
  by (induction raws arbitrary: c) (auto simp: dispatch_async_topology)

text \<open>
  Over any sequence of frames the hub pushes, a device is reported offline exactly when it is not the
  hub itself, some topology push named it and the latest topology push does not; so a sub-device
  that no push ever named is never reported offline.
\<close>

theorem lan_direct_offline:
  "is_lan_direct_offline did (fold dispatch_async_frame raws (new_coord own now)) \<longleftrightarrow>
     did \<noteq> own \<and> (\<exists>p \<in> set (pushes raws). did \<in> p) \<and> did \<notin> last (pushes raws)"
  by (auto simp: is_lan_direct_offline_def topology_after new_coord_def)

section \<open>Backoff\<close>

lemma run_turn_range:
  assumes "0 < lo" "lo \<le> hi" "lo \<le> b" "b \<le> hi" "run_turn lo hi e moved b = (d, b')"
  shows "lo \<le> b' \<and> b' \<le> hi \<and> (\<forall>x. d = Some x \<longrightarrow> lo \<le> x \<and> x \<le> hi)"
  using assms by (auto simp: run_turn_def Let_def min_def split: if_splits)

lemma run_turns_range:
  assumes "0 < lo" "lo \<le> hi"
  shows "lo \<le> b \<Longrightarrow> b \<le> hi \<Longrightarrow> Some x \<in> set (fst (run_turns lo hi es b)) \<Longrightarrow> lo \<le> x \<and> x \<le> hi"
proof (induction es arbitrary: b)
  case (Cons t es)
  obtain e m where t: "t = (e, m)" by force
  obtain d b' where r: "run_turn lo hi e m b = (d, b')" by force
  from run_turn_range [OF assms Cons.prems(1,2) r] Cons.IH [of b'] Cons.prems(3) r t show ?case
    by (auto split: prod.splits)
qed simp

text \<open>
  The reconnect loop never sleeps, jitter included, less than half the minimal or more than one and
  a half times the maximal delay, whatever the sequence of clean ends, failures and endpoint moves.
\<close>

theorem backoff_bounds:
  assumes "0 < lo" "lo \<le> hi" "Some delay \<in> set (fst (run_turns lo hi es lo))" "1/2 \<le> u" "u \<le> 3/2"
  shows "lo / 2 \<le> apply_jitter u delay \<and> apply_jitter u delay \<le> 3/2 * hi"
proof -
  have d: "lo \<le> delay" "delay \<le> hi" using run_turns_range [OF assms(1,2) _ _ assms(3)] assms(2) by auto
  have "lo * (1/2) \<le> delay * u" using d assms by (intro mult_mono) auto
  moreover have "delay * u \<le> hi * (3/2)" using d assms by (intro mult_mono) auto
  ultimately show ?thesis by (simp add: apply_jitter_def)
qed

theorem backoff_bounds_witness:
  "2 / 2 \<le> apply_jitter (3/2) 4 \<and> apply_jitter (3/2) 4 \<le> 3/2 * (60::rat)"
  using backoff_bounds [of 2 60 4 "[(Other_Failure, False), (Other_Failure, False)]" "3/2"]
  by (simp add: run_turn_def min_def)

lemma failures_double:
  assumes "0 < lo" "lo \<le> hi"
  shows "run_turns lo hi (replicate n (Connection_Failed, False)) (min (lo * 2 ^ k) hi) =
     (map (\<lambda>i. Some (min (lo * 2 ^ (k + i)) hi)) [0..<n], min (lo * 2 ^ (k + n)) hi)"
proof (induction n arbitrary: k)
  case (Suc n)
  have "min (min (lo * 2 ^ k) hi * 2) hi = min (lo * 2 ^ Suc k) hi"
    using assms by (auto simp: min_def)
  then have "run_turns lo hi (replicate (Suc n) (Connection_Failed, False)) (min (lo * 2 ^ k) hi) =
     (Some (min (lo * 2 ^ k) hi) # map (\<lambda>i. Some (min (lo * 2 ^ (Suc k + i)) hi)) [0..<n], min (lo * 2 ^ (Suc k + n)) hi)"
    using Suc [of "Suc k"] by (simp add: run_turn_def Let_def)
  also have "Some (min (lo * 2 ^ k) hi) # map (\<lambda>i. Some (min (lo * 2 ^ (Suc k + i)) hi)) [0..<n] =
      map (\<lambda>i. Some (min (lo * 2 ^ (k + i)) hi)) [0..<Suc n]"
    by (simp only: upt_conv_Cons map_Suc_upt [symmetric]) (simp del: upt_Suc add: map_Suc_upt [symmetric] upt_conv_Cons comp_def)
  finally show ?case by simp
qed simp

text \<open>
    Consecutive failures sleep the minimal delay doubled each time and capped at the maximum, however
  the loop got to its minimal backoff; a session that ends cleanly and a hub found at a new endpoint
  bring the backoff back, the latter without sleeping.
\<close>

theorem backoff_doubles:
  assumes "0 < lo" "lo \<le> hi"
  shows "fst (run_turns lo hi (replicate n (Connection_Failed, False)) lo) =
      map (\<lambda>i. Some (min (lo * 2 ^ i) hi)) [0..<n] \<and>
    run_turn lo hi Clean_End moved backoff = (Some lo, min (lo * 2) hi) \<and>
    run_turn lo hi Connection_Failed True backoff = (None, lo)"
  using failures_double [OF assms, of n 0] assms by (simp add: run_turn_def min_def)

theorem backoff_doubles_witness:
  "fst (run_turns 2 60 (replicate 3 (Connection_Failed, False)) (2::rat)) = [Some 2, Some 4, Some 8]"
  using backoff_doubles [of 2 60 3] by (simp add: upt_rec numeral_eq_Suc)

section \<open>Delivery of reports\<close>

text \<open>What happens to the registry, one event after the other; the time of a report is the clock's reading.\<close>

datatype coord_event = Report rat lan_report | Register string handler | Unregister string handler

fun coord_step :: "coord_event \<Rightarrow> coord \<Rightarrow> coord" where
  "coord_step (Report now r) c = dispatch_report now r c"
| "coord_step (Register did h) c = register_handler did h c"
| "coord_step (Unregister did h) c = unregister_handler did h c"

definition coord_ok :: "coord \<Rightarrow> bool" where
  "coord_ok c =
     (dict_ok (pending c) \<and> length (pending c) \<le> REPORT_BUFFER_MAX_DIDS \<and>
      (\<forall>k buf. dget (pending c) k = Some buf \<longrightarrow>
         buf \<noteq> [] \<and> length buf \<le> REPORT_BUFFER_MAXLEN \<and> (\<forall>r \<in> set buf. report_key r = k) \<and> dget (handlers c) k = None) \<and>
      (\<forall>k. dget (handlers c) k \<noteq> Some []))"

lemma push_bounded_props:
  "0 < n \<Longrightarrow> push_bounded n x xs \<noteq> []" "length xs \<le> n \<Longrightarrow> 0 < n \<Longrightarrow> length (push_bounded n x xs) \<le> n"
  "set (push_bounded n x xs) \<subseteq> insert x (set xs)"
  using set_drop_subset [of "length xs + 1 - n" "xs @ [x]"] by (auto simp: push_bounded_def)

lemma coord_ok_buffer:
  assumes "coord_ok c" "report_key r = k" "dget (handlers c) k = None"
  shows "coord_ok (buffer_report k r c)"
proof (cases "dget (pending c) k")
  case None
  then show ?thesis using assms push_bounded_props(3) [of REPORT_BUFFER_MAXLEN r "[]"]
    by (auto simp: coord_ok_def buffer_report_def length_dset_new push_bounded_props REPORT_BUFFER_MAXLEN_def)
next
  case (Some buf)
  moreover from Some assms have "\<forall>x \<in> set (push_bounded REPORT_BUFFER_MAXLEN r buf). report_key x = k"
    using push_bounded_props(3) [of REPORT_BUFFER_MAXLEN r buf] by (auto simp: coord_ok_def)
  ultimately show ?thesis using assms
    by (auto simp: coord_ok_def buffer_report_def length_dset_old push_bounded_props REPORT_BUFFER_MAXLEN_def)
qed

lemma coord_ok_cong:
  "coord_ok c \<Longrightarrow> pending c' = pending c \<Longrightarrow> handlers c' = handlers c \<Longrightarrow> coord_ok c'"
  by (simp add: coord_ok_def)

text \<open>The two ways a report goes, without the diagnostics: to the handlers or to the buffer.\<close>

lemma dispatch_report_cases:
  "pending (dispatch_report now r c) =
     (if \<not> hashable (report_key r) then pending c
      else case dget (handlers c) (report_key r) of
        None \<Rightarrow> pending (buffer_report (report_key r) r c)
      | Some hs \<Rightarrow> if hs = [] then pending (buffer_report (report_key r) r c) else pending c)"
  "handlers (dispatch_report now r c) = handlers c"
  "delivered (dispatch_report now r c) = delivered c @
     (if \<not> hashable (report_key r) then []
      else map (\<lambda>h. (h, r)) (case dget (handlers c) (report_key r) of None \<Rightarrow> [] | Some hs \<Rightarrow> hs))"
  by (auto simp: dispatch_report_def Let_def buffer_report_def split: option.splits)

lemma coord_ok_dispatch:
  assumes "coord_ok c" shows "coord_ok (dispatch_report now r c)"
proof -
  have ne: "dget (handlers c) k \<noteq> Some []" for k using assms by (simp add: coord_ok_def)
  have h: "handlers (buffer_report k r c) = handlers c" for k by (simp add: buffer_report_def split: option.splits)
  have "pending (dispatch_report now r c) = pending (buffer_report (report_key r) r c)"
    if "hashable (report_key r)" "dget (handlers c) (report_key r) = None"
    using that by (simp add: dispatch_report_cases)
  moreover have "pending (dispatch_report now r c) = pending c"
    if "\<not> (hashable (report_key r) \<and> dget (handlers c) (report_key r) = None)"
    using that ne [of "report_key r"] by (cases "dget (handlers c) (report_key r)") (auto simp: dispatch_report_cases)
  moreover have "handlers (dispatch_report now r c) = handlers c" by (simp add: dispatch_report_cases)
  ultimately show ?thesis
    using coord_ok_cong [OF assms] coord_ok_cong [OF coord_ok_buffer [OF assms refl]] h by metis
qed

lemma coord_ok_register: "coord_ok c \<Longrightarrow> coord_ok (register_handler did h c)"
  using length_ddel_le [of "JStr did" "pending c"] by (auto simp: coord_ok_def register_handler_def Let_def)

lemma coord_ok_unregister: "coord_ok c \<Longrightarrow> coord_ok (unregister_handler did h c)"
  by (cases "dget (pending c) (JStr did)") (auto simp: coord_ok_def unregister_handler_def Let_def split: option.splits)

lemma coord_ok_step: "coord_ok c \<Longrightarrow> coord_ok (coord_step e c)"
  by (cases e) (simp_all add: coord_ok_dispatch coord_ok_register coord_ok_unregister)

lemma coord_ok_run: "coord_ok c \<Longrightarrow> coord_ok (fold coord_step es c)"
  by (induction es arbitrary: c) (simp_all add: coord_ok_step)

lemma coord_ok_new: "coord_ok (new_coord did now)"
  by (simp add: coord_ok_def new_coord_def)

text \<open>
  Whatever the order of reports, registrations and removals, the coordinator holds back reports for at
  most 64 ids and at most ten reports for each, every one of them for the id it is filed under; an id
  has reports held back only while it has no handler, and no id keeps an empty handler list.
\<close>

theorem report_buffer_bounded:
  "(let c = fold coord_step es (new_coord did now)
    in length (pending c) \<le> 64 \<and> dict_ok (pending c) \<and>
       (\<forall>k buf. dget (pending c) k = Some buf \<longrightarrow>
          buf \<noteq> [] \<and> length buf \<le> 10 \<and> (\<forall>r \<in> set buf. report_key r = k) \<and> dget (handlers c) k = None) \<and>
       (\<forall>k. dget (handlers c) k \<noteq> Some []))"
  using coord_ok_run [OF coord_ok_new, of es did now]
  by (simp add: coord_ok_def Let_def REPORT_BUFFER_MAX_DIDS_def REPORT_BUFFER_MAXLEN_def)

theorem report_buffer_bounded_witness:
  "length (pending (fold coord_step [Report 1 \<lparr>r_did = JStr ''a'', r_sdid = JStr [], r_src = JStr [],
     r_time = JInt 0, r_values = []\<rparr>, Register ''a'' 3] (new_coord ''hub'' 0))) \<le> 64"
  using report_buffer_bounded [of "[Report 1 \<lparr>r_did = JStr ''a'', r_sdid = JStr [], r_src = JStr [],
     r_time = JInt 0, r_values = []\<rparr>, Register ''a'' 3]" "''hub''" 0] by (simp only: Let_def)

definition reports_for :: "json \<Rightarrow> coord_event list \<Rightarrow> lan_report list" where
  "reports_for k es = concat (map (\<lambda>e. case e of Report t r \<Rightarrow> (if report_key r = k then [r] else []) | _ \<Rightarrow> []) es)"

definition event_keys :: "coord_event list \<Rightarrow> json set" where
  "event_keys es = {report_key r | t r. Report t r \<in> set es}"

definition keep_last :: "nat \<Rightarrow> 'a list \<Rightarrow> 'a list" where
  "keep_last n xs = drop (length xs - n) xs"

lemma push_keep_last: "0 < n \<Longrightarrow> push_bounded n x (keep_last n xs) = keep_last n (xs @ [x])"
  by (cases "length xs < n") (auto simp: push_bounded_def keep_last_def Suc_diff_le not_less)

lemma finite_event_keys: "finite (event_keys es)"
proof -
  have "event_keys es \<subseteq> (\<lambda>e. case e of Report t r \<Rightarrow> report_key r | _ \<Rightarrow> JNull) ` set es"
    by (force simp: event_keys_def)
  then show ?thesis by (rule finite_subset) simp
qed

lemma dict_keys_image: "fst ` set d = dom (map_of d)"
  by (induction d) auto

lemma pending_keys_step:
  "dom (dget (pending (coord_step e c))) \<subseteq> dom (dget (pending c)) \<union> event_keys [e]"
proof (cases e)
  case (Report t r)
  have "dom (dget (pending (buffer_report (report_key r) r c))) \<subseteq> insert (report_key r) (dom (dget (pending c)))"
    by (auto simp: buffer_report_def split: option.splits if_splits)
  then show ?thesis using Report
    by (auto simp: dispatch_report_cases event_keys_def split: option.splits if_splits)
next
  case (Register did h)
  then show ?thesis by (auto simp: register_handler_def Let_def split: if_splits)
next
  case (Unregister did h)
  then show ?thesis by (auto simp: unregister_handler_def Let_def split: option.splits if_splits)
qed

lemma event_keys_simps [simp]:
  "event_keys [] = {}" "event_keys (xs @ ys) = event_keys xs \<union> event_keys ys"
  by (auto simp: event_keys_def)

lemma pending_keys_run: "dom (dget (pending (fold coord_step es (new_coord own now)))) \<subseteq> event_keys es"
proof (induction es rule: rev_induct)
  case (snoc e es)
  then show ?case using pending_keys_step [of e "fold coord_step es (new_coord own now)"] by (simp add: subset_iff) blast
qed (simp add: new_coord_def)

lemma pending_room:
  assumes "coord_ok c" "dom (dget (pending c)) \<subseteq> K - {k}" "finite K" "k \<in> K" "card K \<le> 64"
  shows "length (pending c) < REPORT_BUFFER_MAX_DIDS"
proof -
  have "length (pending c) = card (dom (dget (pending c)))"
    using assms(1) distinct_card [of "map fst (pending c)"]
    by (simp add: coord_ok_def dict_ok_def dict_keys_image [symmetric])
  also have "\<dots> \<le> card (K - {k})" using assms by (intro card_mono) auto
  also have "\<dots> < 64" using assms card_gt_0_iff [of K] by (simp add: card_Diff_singleton)
  finally show ?thesis by (simp add: REPORT_BUFFER_MAX_DIDS_def)
qed

definition deliveries :: "json \<Rightarrow> coord \<Rightarrow> (handler \<times> lan_report) list" where
  "deliveries k c = filter (\<lambda>(h, r). report_key r = k) (delivered c)"

lemma reports_for_simps [simp]:
  "reports_for k [] = []" "reports_for k (es @ fs) = reports_for k es @ reports_for k fs"
  "reports_for k [Report t r] = (if report_key r = k then [r] else [])"
  "reports_for k [Register did h] = []" "reports_for k [Unregister did h] = []"
  by (simp_all add: reports_for_def)

text \<open>What an event adds to the deliveries about an id it does not register or unregister.\<close>

lemma deliveries_step:
  assumes "coord_ok c" "\<forall>h. e \<noteq> Register did h"
  shows "deliveries (JStr did) (coord_step e c) = deliveries (JStr did) c @
    concat (map (\<lambda>r. map (\<lambda>h. (h, r)) (case dget (handlers c) (JStr did) of None \<Rightarrow> [] | Some hs \<Rightarrow> hs))
      (reports_for (JStr did) [e]))"
proof (cases e)
  case (Report t r)
  have "filter (\<lambda>(h, r). report_key r = JStr did) (map (\<lambda>h. (h, r)) hs) =
      (if report_key r = JStr did then map (\<lambda>h. (h, r)) hs else [])" for hs :: "handler list"
    by (induction hs) auto
  then show ?thesis using Report by (auto simp: deliveries_def dispatch_report_cases)
next
  case (Register did' h)
  have "filter (\<lambda>(h, r). report_key r = JStr did) (map (\<lambda>r. (h, r)) buf) = []"
    if "\<forall>r \<in> set buf. report_key r = JStr did'" for buf
    using that assms Register by (induction buf) auto
  then show ?thesis using assms Register
    by (cases "dget (pending c) (JStr did')") (auto simp: deliveries_def register_handler_def Let_def coord_ok_def)
next
  case (Unregister did' h)
  then show ?thesis by (simp add: deliveries_def unregister_handler_def Let_def split: option.splits)
qed

lemma handlers_step:
  assumes "\<forall>h. e \<noteq> Register did h \<and> e \<noteq> Unregister did h \<or> dget (handlers c) (JStr did) = None \<and> e \<noteq> Register did h"
  shows "dget (handlers (coord_step e c)) (JStr did) = dget (handlers c) (JStr did)"
  using assms by (cases e) (auto simp: dispatch_report_cases register_handler_def unregister_handler_def Let_def split: option.splits)

lemma pending_step:
  assumes "coord_ok c" "\<forall>h. e \<noteq> Register did h" "dget (handlers c) (JStr did) = None"
    "reports_for (JStr did) [e] \<noteq> [] \<Longrightarrow> dget (pending c) (JStr did) = None \<Longrightarrow> length (pending c) < REPORT_BUFFER_MAX_DIDS"
  shows "dget (pending (coord_step e c)) (JStr did) =
    (case reports_for (JStr did) [e] of
       [] \<Rightarrow> dget (pending c) (JStr did)
     | r # rs \<Rightarrow> Some (push_bounded REPORT_BUFFER_MAXLEN r
         (case dget (pending c) (JStr did) of None \<Rightarrow> [] | Some buf \<Rightarrow> buf)))"
proof (cases e)
  case (Report t r)
  show ?thesis
  proof (cases "report_key r = JStr did")
    case True
    then show ?thesis using assms Report
      by (cases "dget (pending c) (JStr did)") (simp_all add: dispatch_report_cases buffer_report_def)
  next
    case False
    then show ?thesis using Report by (auto simp: dispatch_report_cases buffer_report_def split: option.splits)
  qed
next
  case (Register did' h)
  then show ?thesis using assms by (simp add: register_handler_def Let_def)
next
  case (Unregister did' h)
  then show ?thesis by (simp add: unregister_handler_def Let_def split: option.splits)
qed

lemma before_registration:
  assumes "\<forall>h. Register did h \<notin> set es" "card (event_keys es) \<le> 64"
  shows "dget (handlers (fold coord_step es (new_coord own now))) (JStr did) = None \<and>
    deliveries (JStr did) (fold coord_step es (new_coord own now)) = [] \<and>
    dget (pending (fold coord_step es (new_coord own now))) (JStr did) = (if reports_for (JStr did) es = [] then None
      else Some (keep_last REPORT_BUFFER_MAXLEN (reports_for (JStr did) es)))"
  using assms
proof (induction es rule: rev_induct)
  case Nil
  then show ?case by (simp add: new_coord_def deliveries_def)
next
  case (snoc e es)
  let ?c = "fold coord_step es (new_coord own now)"
  have ok: "coord_ok ?c" by (rule coord_ok_run [OF coord_ok_new])
  have "card (event_keys es) \<le> card (event_keys (es @ [e]))"
    by (intro card_mono finite_event_keys) simp
  then have IH: "dget (handlers ?c) (JStr did) = None" "deliveries (JStr did) ?c = []"
    "dget (pending ?c) (JStr did) = (if reports_for (JStr did) es = [] then None
      else Some (keep_last REPORT_BUFFER_MAXLEN (reports_for (JStr did) es)))"
    using snoc by simp_all
  have nr: "\<forall>h. e \<noteq> Register did h" using snoc.prems(1) by auto
  have room: "length (pending ?c) < REPORT_BUFFER_MAX_DIDS"
    if "reports_for (JStr did) [e] \<noteq> []" "dget (pending ?c) (JStr did) = None"
  proof (rule pending_room [OF ok _ finite_event_keys _ snoc.prems(2), of "JStr did"])
    have "JStr did \<in> event_keys [e]" using that by (cases e) (auto simp: event_keys_def split: if_splits)
    then show "JStr did \<in> event_keys (es @ [e])" by simp
    show "dom (dget (pending ?c)) \<subseteq> event_keys (es @ [e]) - {JStr did}"
      using pending_keys_run [of es own now] that(2) by auto
  qed
  have "length (reports_for (JStr did) [e]) \<le> 1" by (cases e) auto
  then obtain rs where "reports_for (JStr did) [e] = [] \<or> (\<exists>r. reports_for (JStr did) [e] = [r])"
    by (cases "reports_for (JStr did) [e]") auto
  then have "dget (pending (coord_step e ?c)) (JStr did) = (if reports_for (JStr did) (es @ [e]) = [] then None
      else Some (keep_last REPORT_BUFFER_MAXLEN (reports_for (JStr did) (es @ [e]))))"
    using pending_step [OF ok nr IH(1) room] IH(3) push_keep_last [of REPORT_BUFFER_MAXLEN _ "reports_for (JStr did) es"]
      push_keep_last [of REPORT_BUFFER_MAXLEN _ "[]"]
    by (auto simp: REPORT_BUFFER_MAXLEN_def keep_last_def push_bounded_def)
  moreover have "dget (handlers (coord_step e ?c)) (JStr did) = None" using handlers_step [of e did ?c] IH(1) nr by simp
  moreover have "deliveries (JStr did) (coord_step e ?c) = []" using deliveries_step [OF ok nr] IH by simp
  ultimately show ?case by simp
qed

lemma after_registration:
  assumes "coord_ok c" "dget (handlers c) (JStr did) = Some [h]"
    "\<forall>h'. Register did h' \<notin> set es \<and> Unregister did h' \<notin> set es"
  shows "deliveries (JStr did) (fold coord_step es c) = deliveries (JStr did) c @ map (\<lambda>r. (h, r)) (reports_for (JStr did) es)"
  using assms
proof (induction es arbitrary: c)
  case (Cons e es)
  have e: "\<forall>h'. e \<noteq> Register did h'" "\<forall>h'. e \<noteq> Unregister did h'" using Cons.prems(3) by auto
  have "concat (map (\<lambda>r. [(h, r)]) xs) = map (\<lambda>r. (h, r)) xs" for xs :: "lan_report list" by (induction xs) auto
  then show ?case
    using Cons.IH [OF coord_ok_step [OF Cons.prems(1), of e]] deliveries_step [OF Cons.prems(1) e(1)]
      handlers_step [of e did c] Cons.prems e reports_for_simps(2) [of "JStr did" "[e]" es] by simp
qed simp

text \<open>
  C10 [no_report_lost]
  Reports racing a handler's registration: a handler registered for an id receives, in their order and
  once each, the last ten of the reports that came for the id before it was registered and every one
  that came after, whatever reports, registrations and removals for other ids came between (as long
  as at most 64 ids were reporting before the registration).
\<close>

theorem no_report_lost:
  assumes "\<forall>h'. Register did h' \<notin> set es" "card (event_keys es) \<le> 64"
    and "\<forall>h'. Register did h' \<notin> set fs \<and> Unregister did h' \<notin> set fs"
  shows "deliveries (JStr did) (fold coord_step (es @ Register did h # fs) (new_coord own now)) =
    map (\<lambda>r. (h, r)) (keep_last 10 (reports_for (JStr did) es) @ reports_for (JStr did) fs)"
proof -
  let ?c = "fold coord_step es (new_coord own now)"
  have ok: "coord_ok ?c" by (rule coord_ok_run [OF coord_ok_new])
  note b = before_registration [OF assms(1,2), of own now]
  have "filter (\<lambda>(h, r). report_key r = JStr did) (map (\<lambda>r. (h, r)) buf) = map (\<lambda>r. (h, r)) buf"
    if "\<forall>r \<in> set buf. report_key r = JStr did" for buf
    using that by (induction buf) auto
  moreover have "\<forall>r \<in> set (keep_last n (reports_for k es)). report_key r = k" for n k
    using set_drop_subset by (fastforce simp: keep_last_def reports_for_def split: coord_event.splits if_splits)
  ultimately have "deliveries (JStr did) (register_handler did h ?c) = map (\<lambda>r. (h, r)) (keep_last 10 (reports_for (JStr did) es))"
    using b by (auto simp: register_handler_def Let_def deliveries_def REPORT_BUFFER_MAXLEN_def keep_last_def)
  moreover have "dget (handlers (register_handler did h ?c)) (JStr did) = Some [h]"
    using b by (simp add: register_handler_def Let_def)
  ultimately show ?thesis using after_registration [OF coord_ok_register [OF ok] _ assms(3), of did h] by simp
qed

theorem no_report_lost_witness:
  "deliveries (JStr ''a'') (fold coord_step ([Report 1 \<lparr>r_did = JStr ''a'', r_sdid = JStr [], r_src = JStr [],
     r_time = JInt 0, r_values = []\<rparr>] @ [Register ''a'' 3]) (new_coord ''hub'' 0)) =
   [(3, \<lparr>r_did = JStr ''a'', r_sdid = JStr [], r_src = JStr [], r_time = JInt 0, r_values = []\<rparr>)]"
  using no_report_lost [of "''a''" "[Report 1 \<lparr>r_did = JStr ''a'', r_sdid = JStr [], r_src = JStr [],
     r_time = JInt 0, r_values = []\<rparr>]" "[]" 3 "''hub''" 0]
  by (simp add: event_keys_def reports_for_def keep_last_def report_key_def py_or_def)

text \<open>
    Removing a handler takes out one registration of it and keeps the others in order; removing it
  again changes nothing when it was registered once, and an id whose last handler goes is forgotten.
\<close>

theorem unregister_once:
  assumes "dget (handlers c) (JStr did) = Some hs" "distinct hs" "h \<in> set hs"
  shows "dget (handlers (unregister_handler did h c)) (JStr did) =
      (if removeAll h hs = [] then None else Some (removeAll h hs)) \<and>
    unregister_handler did h (unregister_handler did h c) = unregister_handler did h c"
proof -
  have "remove1 h hs = removeAll h hs" using assms(2) by (rule distinct_remove1_removeAll)
  then show ?thesis using assms by (auto simp: unregister_handler_def Let_def)
qed

theorem unregister_once_witness:
  "unregister_handler ''a'' 3 (unregister_handler ''a'' 3 (register_handler ''a'' 3 (new_coord ''hub'' 0))) =
   unregister_handler ''a'' 3 (register_handler ''a'' 3 (new_coord ''hub'' 0))"
  using unregister_once [of "register_handler ''a'' 3 (new_coord ''hub'' 0)" "''a''" "[3]" 3]
  by (simp add: register_handler_def new_coord_def)

section \<open>Sockets over reconnects\<close>

fun run_sessions :: "network list \<Rightarrow> session_res \<Rightarrow> session_res" where
  "run_sessions [] s = s"
| "run_sessions (n # ns) s = run_sessions ns (snd (run_session_once n s))"

definition leaks :: "network \<Rightarrow> bool" where
  "leaks n = (n = Handshake_Fails \<or> n = Handshake_Raises)"

definition res_ok :: "session_res \<Rightarrow> bool" where
  "res_ok s = (distinct (open_socks s) \<and> (\<forall>t \<in> set (open_socks s). t < fresh s) \<and>
     \<not> connected_event s \<and> \<not> has_client s)"

lemma run_session_once_res:
  assumes "res_ok s"
  shows "res_ok (snd (run_session_once n s)) \<and>
    open_socks (snd (run_session_once n s)) = (if leaks n then [fresh s] else []) @ open_socks s"
proof -
  have "filter (\<lambda>x. x \<noteq> fresh s) (open_socks s) = open_socks s"
    using assms by (auto simp: res_ok_def filter_id_conv)
  then show ?thesis using assms
    by (cases n) (auto simp: run_session_once_def Let_def res_ok_def leaks_def end_session_def close_tunnel_def)
qed

lemma run_sessions_res:
  "res_ok s \<Longrightarrow> res_ok (run_sessions ns s) \<and>
    length (open_socks (run_sessions ns s)) = length (filter leaks ns) + length (open_socks s)"
  using run_session_once_res by (induction ns arbitrary: s) auto

lemma res_ok_idle: "res_ok idle_res"
  by (simp add: res_ok_def idle_res_def)

text \<open>
  Across reconnects: an attempt that gets past the handshake releases its socket, clears the connected
  flag and the client however it ends, so a run of attempts with no failed handshake holds no socket
  after any of them. Every handshake that fails after the connection was opened leaves its socket
  open: after any run as many are open as handshakes failed.
\<close>

theorem sessions_release:
  "length (open_socks (run_sessions ns idle_res)) = length (filter leaks ns) \<and>
   \<not> connected_event (run_sessions ns idle_res) \<and> \<not> has_client (run_sessions ns idle_res)"
  using run_sessions_res [OF res_ok_idle, of ns] by (simp add: res_ok_def) (simp add: idle_res_def)

text \<open>
    Stopping the coordinator closes the current tunnel only: after two handshakes that failed, one
  socket stays open for which nothing holds a reference any more.
\<close>

theorem stop_leaves_sockets:
  "length (open_socks (stop_coordinator (run_sessions [Handshake_Fails, Handshake_Fails] idle_res))) = 1"
  by (simp add: stop_coordinator_def run_session_once_def idle_res_def close_tunnel_def)

end
