(* ===== verification/Ptz_Wire.thy ===== *)
theory Ptz_Wire
  imports Json "HOL-Library.Multiset"
begin

text \<open>
  The camera's pan/tilt/zoom channel on the wire: \<open>ptz/cs2.py\<close> (the stream cipher), \<open>ptz/framing.py\<close>
  (the packets) and \<open>ptz/ioctl.py\<close> (the commands inside them).
\<close>

section \<open>The cipher\<close>

definition TABLE :: bytes where
  "TABLE =
  [0x7C, 0x9C, 0xE8, 0x4A, 0x13, 0xDE, 0xDC, 0xB2, 0x2F, 0x21, 0x23, 0xE4, 0x30, 0x7B, 0x3D, 0x8C,
   0xBC, 0x0B, 0x27, 0x0C, 0x3C, 0xF7, 0x9A, 0xE7, 0x08, 0x71, 0x96, 0x00, 0x97, 0x85, 0xEF, 0xC1,
   0x1F, 0xC4, 0xDB, 0xA1, 0xC2, 0xEB, 0xD9, 0x01, 0xFA, 0xBA, 0x3B, 0x05, 0xB8, 0x15, 0x87, 0x83,
   0x28, 0x72, 0xD1, 0x8B, 0x5A, 0xD6, 0xDA, 0x93, 0x58, 0xFE, 0xAA, 0xCC, 0x6E, 0x1B, 0xF0, 0xA3,
   0x88, 0xAB, 0x43, 0xC0, 0x0D, 0xB5, 0x45, 0x38, 0x4F, 0x50, 0x22, 0x66, 0x20, 0x7F, 0x07, 0x5B,
   0x14, 0x98, 0x1D, 0x9B, 0xA7, 0x2A, 0xB9, 0xA8, 0xCB, 0xF1, 0xFC, 0x49, 0x47, 0x06, 0x3E, 0xB1,
   0x0E, 0x04, 0x3A, 0x94, 0x5E, 0xEE, 0x54, 0x11, 0x34, 0xDD, 0x4D, 0xF9, 0xEC, 0xC7, 0xC9, 0xE3,
   0x78, 0x1A, 0x6F, 0x70, 0x6B, 0xA4, 0xBD, 0xA9, 0x5D, 0xD5, 0xF8, 0xE5, 0xBB, 0x26, 0xAF, 0x42,
   0x37, 0xD8, 0xE1, 0x02, 0x0A, 0xAE, 0x5F, 0x1C, 0xC5, 0x73, 0x09, 0x4E, 0x69, 0x24, 0x90, 0x6D,
   0x12, 0xB3, 0x19, 0xAD, 0x74, 0x8A, 0x29, 0x40, 0xF5, 0x2D, 0xBE, 0xA5, 0x59, 0xE0, 0xF4, 0x79,
   0xD2, 0x4B, 0xCE, 0x89, 0x82, 0x48, 0x84, 0x25, 0xC6, 0x91, 0x2B, 0xA2, 0xFB, 0x8F, 0xE9, 0xA6,
   0xB0, 0x9E, 0x3F, 0x65, 0xF6, 0x03, 0x31, 0x2E, 0xAC, 0x0F, 0x95, 0x2C, 0x5C, 0xED, 0x39, 0xB7,
   0x33, 0x6C, 0x56, 0x7E, 0xB4, 0xA0, 0xFD, 0x7A, 0x81, 0x53, 0x51, 0x86, 0x8D, 0x9F, 0x77, 0xFF,
   0x6A, 0x80, 0xDF, 0xE2, 0xBF, 0x10, 0xD7, 0x75, 0x64, 0x57, 0x76, 0xF3, 0x55, 0xCD, 0xD0, 0xC8,
   0x18, 0xE6, 0x36, 0x41, 0x62, 0xCF, 0x99, 0xF2, 0x32, 0x4C, 0x67, 0x60, 0x61, 0x92, 0xCA, 0xD3,
   0xEA, 0x63, 0x7D, 0x16, 0xB6, 0x8E, 0xD4, 0x68, 0x35, 0xC3, 0x52, 0x9D, 0x46, 0x44, 0x1E, 0x17]"

text \<open>A character of the model is a character of Latin-1, so a key string can always be encoded.\<close>

definition latin1 :: "string \<Rightarrow> bytes" where
  "latin1 s = map (\<lambda>c. word_of_nat (char_code c)) s"

definition key_raw :: "string \<Rightarrow> bytes" where
  "key_raw key = take 20 (takeWhile (\<lambda>b. b \<noteq> 0) (latin1 key))"

definition key4_step :: "32 word \<times> 32 word \<times> 32 word \<times> 32 word \<Rightarrow> byte \<Rightarrow> 32 word \<times> 32 word \<times> 32 word \<times> 32 word" where
  "key4_step st b = (case st of (s, neg, acc, x) \<Rightarrow>
     (s + ucast b, neg - ucast b, acc + drop_bit 9 (ucast b * 0xAB), x XOR ucast b))"

definition key4 :: "string \<Rightarrow> bytes" where
  "key4 key = (case foldl key4_step (0, 0, 0, 0) (key_raw key) of
     (s, neg, acc, x) \<Rightarrow> [ucast s, ucast neg, ucast acc, ucast x])"

definition keystream_byte :: "bytes \<Rightarrow> byte \<Rightarrow> byte" where
  "keystream_byte k4 prev = TABLE ! unat (k4 ! unat (prev AND 3) + prev)"

fun encrypt_loop :: "bytes \<Rightarrow> byte \<Rightarrow> bytes \<Rightarrow> bytes" where
  "encrypt_loop k4 prev [] = []"
| "encrypt_loop k4 prev (p # ps) = (let c = keystream_byte k4 prev XOR p in c # encrypt_loop k4 c ps)"

fun decrypt_loop :: "bytes \<Rightarrow> byte \<Rightarrow> bytes \<Rightarrow> bytes" where
  "decrypt_loop k4 prev [] = []"
| "decrypt_loop k4 prev (c # cs) = (keystream_byte k4 prev XOR c) # decrypt_loop k4 c cs"

definition cs2_encrypt :: "string \<Rightarrow> bytes \<Rightarrow> bytes" where
  "cs2_encrypt key data = (if data = [] then [] else encrypt_loop (key4 key) 0 data)"

definition cs2_decrypt :: "string \<Rightarrow> bytes \<Rightarrow> bytes" where
  "cs2_decrypt key data = (if data = [] then [] else decrypt_loop (key4 key) 0 data)"

section \<open>Packets\<close>

text \<open>
  The exceptions that matter: the receive loops catch ValueError and nothing else.
  \<open>Text_Beyond\<close> is a body outside the model's characters.
\<close>

datatype wire_error = Value_Error | Index_Error | Text_Beyond

definition PPPP_MAGIC :: byte where "PPPP_MAGIC = 0xF1"
definition DRW_INNER_TYPE :: byte where "DRW_INNER_TYPE = 0xD0"
definition IOCTL_MARKER :: byte where "IOCTL_MARKER = 0xD1"

definition CTRL_SEARCH :: nat where "CTRL_SEARCH = 0x41"
definition CTRL_REPLY :: nat where "CTRL_REPLY = 0x43"
definition CTRL_CONFIRM :: nat where "CTRL_CONFIRM = 0x44"
definition CTRL_CONFIRM_ALT :: nat where "CTRL_CONFIRM_ALT = 0x42"
definition CTRL_READY :: nat where "CTRL_READY = 0xE0"
definition CTRL_KEEPALIVE :: nat where "CTRL_KEEPALIVE = 0x30"
definition CTRL_LAN_SEARCH :: nat where "CTRL_LAN_SEARCH = 0x30"
definition LAN_SEARCH_PORT :: nat where "LAN_SEARCH_PORT = 32108"

lemmas ctrl_defs = CTRL_SEARCH_def CTRL_REPLY_def CTRL_CONFIRM_def CTRL_CONFIRM_ALT_def CTRL_READY_def
  CTRL_KEEPALIVE_def CTRL_LAN_SEARCH_def

text \<open>None is the OverflowError of a length that does not fit its field.\<close>

definition build_control :: "string \<Rightarrow> nat \<Rightarrow> bytes \<Rightarrow> bytes option" where
  "build_control key ty payload =
     (case to_bytes_be 2 (length payload) of
        None \<Rightarrow> None
      | Some n \<Rightarrow> Some (cs2_encrypt key ([PPPP_MAGIC, word_of_nat ty] @ n @ payload)))"

definition parse_control :: "string \<Rightarrow> bytes \<Rightarrow> wire_error + nat \<times> bytes" where
  "parse_control key wire =
     (let dec = cs2_decrypt key wire
      in if dec = [] then Inl Value_Error
         else if dec ! 0 \<noteq> PPPP_MAGIC then Inl Value_Error
         else if length dec < 2 then Inl Index_Error
         else
           let n = nat_of_be (pyslice 2 4 dec); payload = pyslice 4 (4 + n) dec
           in if length payload \<noteq> n then Inl Value_Error else Inr (unat (dec ! 1), payload))"

definition frame_drw :: "string \<Rightarrow> bytes \<Rightarrow> bytes" where
  "frame_drw key inner = cs2_encrypt key inner"

definition deframe_drw :: "string \<Rightarrow> bytes \<Rightarrow> bytes" where
  "deframe_drw key wire = cs2_decrypt key wire"

definition wrap_ioctl :: "nat \<Rightarrow> bytes \<Rightarrow> bytes option" where
  "wrap_ioctl seq ioctl_bytes =
     (let body = [IOCTL_MARKER] @ be_bytes 3 (seq mod 2 ^ 24) @ ioctl_bytes
      in case to_bytes_be 2 (length body) of
           None \<Rightarrow> None
         | Some n \<Rightarrow> Some ([PPPP_MAGIC, DRW_INNER_TYPE] @ n @ body))"

definition unwrap_ioctl :: "bytes \<Rightarrow> wire_error + nat \<times> bytes" where
  "unwrap_ioctl inner =
     (if length inner < 4 then Inl Value_Error
      else if inner ! 0 \<noteq> PPPP_MAGIC then Inl Value_Error
      else if inner ! 1 \<noteq> DRW_INNER_TYPE then Inl Value_Error
      else
        let n = nat_of_be (pyslice 2 4 inner); body = pyslice 4 (4 + n) inner
        in if length body \<noteq> n then Inl Value_Error
           else if length body < 4 then Inl Value_Error
           else if body ! 0 \<noteq> IOCTL_MARKER then Inl Value_Error
           else Inr (nat_of_be (pyslice 1 4 body), drop 4 body))"

definition build_ioctl_packet :: "string \<Rightarrow> nat \<Rightarrow> bytes \<Rightarrow> bytes option" where
  "build_ioctl_packet key seq ioctl_bytes = map_option (frame_drw key) (wrap_ioctl seq ioctl_bytes)"

section \<open>Commands\<close>

definition IOCTL_TAG :: bytes where "IOCTL_TAG = [0x6C, 0x75, 0x6D, 0x69]"

definition ioctl_build :: "nat \<Rightarrow> json \<Rightarrow> nat \<Rightarrow> bytes option" where
  "ioctl_build iotype body ident =
     (let body_json = utf8_encode (dumps_compact body)
      in case (to_bytes_le 4 iotype, to_bytes_le 4 ident, to_bytes_le 4 (length body_json)) of
           (Some t, Some i, Some n) \<Rightarrow> Some (IOCTL_TAG @ t @ i @ n @ body_json)
         | _ \<Rightarrow> None)"

definition ioctl_parse :: "bytes \<Rightarrow> wire_error + nat \<times> nat \<times> json" where
  "ioctl_parse buf =
     (if length buf < 16 \<or> take 4 buf \<noteq> IOCTL_TAG then Inl Value_Error
      else
        let iotype = nat_of_le (pyslice 4 8 buf); ident = nat_of_le (pyslice 8 12 buf);
            blen = nat_of_le (pyslice 12 16 buf)
        in if length buf < 16 + blen then Inl Value_Error
           else case (case utf8_decode (pyslice 16 (16 + blen) buf) of Inl e \<Rightarrow> Inl e | Inr s \<Rightarrow> loads s) of
                  Inl Malformed \<Rightarrow> Inl Value_Error
                | Inl Beyond \<Rightarrow> Inl Text_Beyond
                | Inr body \<Rightarrow> Inr (iotype, ident, body))"

section \<open>The cipher's properties\<close>

lemma length_loops [simp, len_simps]:
  "length (encrypt_loop k4 prev ps) = length ps" "length (decrypt_loop k4 prev ps) = length ps"
  by (induction ps arbitrary: prev) (simp_all add: Let_def)

lemma xor_same [simp]: "a XOR (a XOR b) = (b :: byte)"
  by (simp add: xor.assoc [symmetric])

lemma loops_inverse [wire_simps]:
  "decrypt_loop k4 prev (encrypt_loop k4 prev ps) = ps" "encrypt_loop k4 prev (decrypt_loop k4 prev ps) = ps"
  by (induction ps arbitrary: prev) (simp_all add: Let_def)

lemma length_cs2 [simp, len_simps]: "length (cs2_encrypt key d) = length d" "length (cs2_decrypt key d) = length d"
  by (simp_all add: cs2_encrypt_def cs2_decrypt_def)

lemma cs2_Nil_iff [simp]: "cs2_encrypt key d = [] \<longleftrightarrow> d = []" "cs2_decrypt key d = [] \<longleftrightarrow> d = []"
  by (metis length_0_conv length_cs2)+

lemma cs2_inverse [simp, wire_simps]: "cs2_decrypt key (cs2_encrypt key d) = d" "cs2_encrypt key (cs2_decrypt key d) = d"
  using cs2_Nil_iff [of key d] by (auto simp: cs2_encrypt_def cs2_decrypt_def loops_inverse simp del: cs2_Nil_iff)

lemma key4_fold:
  "foldl key4_step (s, n, a, x) bs =
     (s + (\<Sum>b\<leftarrow>bs. ucast b), n - (\<Sum>b\<leftarrow>bs. ucast b), a + (\<Sum>b\<leftarrow>bs. drop_bit 9 (ucast b * 0xAB)), foldl (\<lambda>x b. x XOR ucast b) x bs)"
  by (induction bs arbitrary: s n a x) (simp_all add: key4_step_def algebra_simps)

lemma key4_permuted:
  assumes "mset xs = mset ys" shows "foldl key4_step st xs = foldl key4_step st ys"
proof -
  have "fold (\<lambda>b st. key4_step st b) xs = fold (\<lambda>b st. key4_step st b) ys"
    by (rule fold_multiset_equiv [OF _ assms]) (auto simp: fun_eq_iff key4_step_def ac_simps)
  then show ?thesis by (simp add: foldl_conv_fold)
qed

text \<open>
  Under every key the cipher is a length-preserving bijection of byte strings, encryption and
  decryption undoing each other both ways; it resynchronises, in that a damaged ciphertext byte
  changes the plaintext at its own position and the next one only.
\<close>

theorem cs2_cipher_inverse:
  "cs2_decrypt key (cs2_encrypt key d) = d \<and> cs2_encrypt key (cs2_decrypt key d) = d \<and>
   length (cs2_encrypt key d) = length d \<and>
   take (length xs) (cs2_decrypt key (xs @ c # ys)) = take (length xs) (cs2_decrypt key (xs @ c' # ys)) \<and>
   drop (length xs + 2) (cs2_decrypt key (xs @ c # ys)) = drop (length xs + 2) (cs2_decrypt key (xs @ c' # ys))"
proof -
  have "take (length xs) (decrypt_loop k4 p (xs @ zs)) = decrypt_loop k4 p xs" for k4 p zs
    by (induction xs arbitrary: p) simp_all
  moreover have "drop (length xs + 2) (decrypt_loop k4 p (xs @ z # ys)) = decrypt_loop k4 (hd ys) (tl ys)" for k4 p z
    by (induction xs arbitrary: p) (cases ys, simp_all)
  ultimately show ?thesis by (simp add: cs2_decrypt_def [of _ "_ @ _"])
qed

text \<open>
    How little of the key the cipher uses: two keys whose first 20 bytes (up to a NUL) are a
  permutation of each other encrypt alike, and the second byte of the key table is the negation of
  the first, so at most 24 bits of the table are free.
\<close>

theorem cs2_weak_keys:
  "(mset (key_raw k) = mset (key_raw k') \<longrightarrow> cs2_encrypt k d = cs2_encrypt k' d) \<and> key4 k ! 1 = - (key4 k ! 0) \<and> length (key4 k) = 4"
proof (intro conjI impI)
  assume "mset (key_raw k) = mset (key_raw k')"
  from key4_permuted [OF this] have "key4 k = key4 k'" by (simp add: key4_def)
  then show "cs2_encrypt k d = cs2_encrypt k' d" by (simp add: cs2_encrypt_def)
next
  let ?s = "(\<Sum>b\<leftarrow>key_raw k. ucast b) :: 32 word"
  have k: "key4 k ! 0 = ucast ?s" "key4 k ! 1 = ucast (- ?s)" "length (key4 k) = 4"
    by (simp_all only: key4_def key4_fold case_prod_conv nth_Cons_0 nth_Cons_Suc One_nat_def add_0 diff_0 list.size)
  have "(ucast (- x) :: byte) = - ucast x" for x :: "32 word"
    by (transfer, simp, subst (2) take_bit_minus [symmetric], simp add: take_bit_minus)
  then show "key4 k ! 1 = - (key4 k ! 0)" "length (key4 k) = 4" by (simp_all only: k)
qed

theorem cs2_weak_keys_witness:
  "cs2_encrypt ''abc'' [1, 2, 3] = cs2_encrypt ''cba'' [1, 2, 3]"
proof -
  have "mset (key_raw ''abc'') = mset (key_raw ''cba'')" by (simp add: key_raw_def latin1_def char_code_def)
  then show ?thesis using cs2_weak_keys [of "''abc''" "''cba''" "[1, 2, 3]"] by simp
qed

section \<open>The packets' properties\<close>

lemma to_bytes_be_Some: "to_bytes_be n x = Some bs \<longleftrightarrow> x < 256 ^ n \<and> bs = be_bytes n x"
  by (auto simp: to_bytes_be_def)

lemma to_bytes_le_Some: "to_bytes_le n x = Some bs \<longleftrightarrow> x < 256 ^ n \<and> bs = le_bytes n x"
  by (auto simp: to_bytes_le_def)

lemma header_parts:
  assumes "length n = 2"
  shows "([a, b] @ n @ p) ! 0 = a" "([a, b] @ n @ p) ! 1 = b" "pyslice 2 4 ([a, b] @ n @ p) = n"
    "pyslice 4 (4 + length p) ([a, b] @ n @ p) = p"
  using assms by (simp_all add: pyslice_def numeral_eq_Suc length_Suc_conv) auto

lemma build_parse_control:
  assumes l: "length payload < 65536"
  shows "\<exists>wire. build_control key ty payload = Some wire \<and>
      parse_control key wire = Inr (ty mod 256, payload) \<and> length wire = 4 + length payload"
proof -
  let ?n = "be_bytes 2 (length payload)"
  have n: "nat_of_be ?n = length payload" using l by (simp add: nat_of_be_bytes)
  note h = header_parts [where n = ?n and a = PPPP_MAGIC and b = "word_of_nat ty" and p = payload]
  have "parse_control key (cs2_encrypt key ([PPPP_MAGIC, word_of_nat ty] @ ?n @ payload)) = Inr (ty mod 256, payload)"
    using h n by (simp add: parse_control_def Let_def)
  then show ?thesis using l by (simp add: build_control_def to_bytes_be_def)
qed

text \<open>
  Building and parsing control packets: a payload below 64 KiB makes a packet that parses back, under
  the same key, to the type's low byte and the payload; a longer one overflows the length field.
\<close>

theorem control_packet_codec:
  "(length payload < 65536 \<longrightarrow> (\<exists>wire. build_control key ty payload = Some wire \<and>
      parse_control key wire = Inr (ty mod 256, payload) \<and> length wire = 4 + length payload)) \<and>
   (65536 \<le> length payload \<longrightarrow> build_control key ty payload = None)"
  using build_parse_control [of payload key ty] by (auto simp: build_control_def to_bytes_be_def)

theorem control_packet_codec_witness:
  "\<exists>wire. build_control ''key'' 0x41 [1, 2] = Some wire \<and> parse_control ''key'' wire = Inr (0x41, [1, 2])"
  using control_packet_codec [of "[1, 2]" "''key''" "0x41"] by auto

text \<open>
  The control parser raises ValueError on every datagram it does not accept, with one exception: a
  datagram of one byte that decrypts to the magic makes it index past the end. For every key there
  is such a byte, so the IndexError can be provoked without knowing the key.
\<close>

theorem control_parser_escapes:
  "(parse_control key wire = Inl Index_Error \<longleftrightarrow> length wire = 1 \<and> cs2_decrypt key wire = [PPPP_MAGIC]) \<and>
   (\<exists>b. parse_control key [b] = Inl Index_Error) \<and> parse_control key wire \<noteq> Inl Text_Beyond"
proof -
  have 1: "parse_control k w = Inl Index_Error \<longleftrightarrow> length w = 1 \<and> cs2_decrypt k w = [PPPP_MAGIC]" for k w
  proof -
    have l: "length (cs2_decrypt k w) = length w" by simp
    then show ?thesis
      by (cases "cs2_decrypt k w"; cases "tl (cs2_decrypt k w)")
        (auto simp: parse_control_def Let_def simp del: length_cs2)
  qed
  obtain b where "cs2_encrypt key [PPPP_MAGIC] = [b]" by (cases "cs2_encrypt key [PPPP_MAGIC]") (auto dest: arg_cong [where f = length])
  then have "cs2_decrypt key [b] = [PPPP_MAGIC]" using cs2_inverse(1) [of key "[PPPP_MAGIC]"] by simp
  then have "\<exists>b. parse_control key [b] = Inl Index_Error" using 1 by auto
  then show ?thesis using 1 by (auto simp: parse_control_def Let_def)
qed

lemma wrap_ioctl_parts:
  assumes "wrap_ioctl seq io = Some inner"
  shows "unwrap_ioctl inner = Inr (seq mod 2 ^ 24, io) \<and> inner ! 0 = PPPP_MAGIC \<and> inner ! 1 = DRW_INNER_TYPE \<and> 8 \<le> length inner"
proof -
  let ?body = "[IOCTL_MARKER] @ be_bytes 3 (seq mod 2 ^ 24) @ io"
  let ?n = "be_bytes 2 (length ?body)"
  have l: "length ?body < 65536" and i: "inner = [PPPP_MAGIC, DRW_INNER_TYPE] @ ?n @ ?body"
    using assms by (auto simp: wrap_ioctl_def Let_def to_bytes_be_def split: option.splits if_splits)
  have n: "nat_of_be ?n = length ?body" using l by (simp add: nat_of_be_bytes)
  have b: "pyslice 1 4 ?body = be_bytes 3 (seq mod 2 ^ 24)" "drop 4 ?body = io" "?body ! 0 = IOCTL_MARKER" "length ?body = 4 + length io"
    by (simp_all add: pyslice_def)
  note h = header_parts [where n = ?n and a = PPPP_MAGIC and b = DRW_INNER_TYPE and p = ?body]
  have s: "nat_of_be (be_bytes 3 (seq mod 2 ^ 24)) = seq mod 2 ^ 24" by (simp add: nat_of_be_bytes)
  have "length inner = 8 + length io" by (simp add: i)
  then show ?thesis using h n s b unfolding i unwrap_ioctl_def Let_def
    by (simp del: append_Cons append_Nil)
qed

lemma ioctl_wire_aux:
  assumes "wf_json body" "ioctl_build iotype body ident = Some io"
  shows "ioctl_parse io = Inr (iotype, ident, body)"
proof -
  let ?j = "utf8_encode (dumps_compact body)"
  have f: "iotype < 256 ^ 4" "ident < 256 ^ 4" "length ?j < 256 ^ 4"
    and io: "io = IOCTL_TAG @ le_bytes 4 iotype @ le_bytes 4 ident @ le_bytes 4 (length ?j) @ ?j"
    using assms(2) by (auto simp: ioctl_build_def Let_def to_bytes_le_def split: option.splits if_splits)
  have t: "length IOCTL_TAG = 4" by (simp add: IOCTL_TAG_def)
  have "pyslice 4 8 io = le_bytes 4 iotype" "pyslice 8 12 io = le_bytes 4 ident" "pyslice 12 16 io = le_bytes 4 (length ?j)"
    "pyslice 16 (16 + length ?j) io = ?j" "take 4 io = IOCTL_TAG" "length io = 16 + length ?j"
    unfolding io by (simp_all add: pyslice_def t)
  then show ?thesis
    using f assms(1) by (simp add: ioctl_parse_def Let_def nat_of_le_bytes utf8_decode_encode loads_dumps_compact)
qed

text \<open>
  A command end to end: built, wrapped under a sequence number, encrypted, then decrypted, unwrapped
  and parsed, it is the same command with its number modulo \<open>2 ^ 24\<close>. Sending fails only when a
  header field overflows.
\<close>

theorem ioctl_through_wire:
  assumes "wf_json body" "ioctl_build iotype body ident = Some io" "build_ioctl_packet key seq io = Some wire"
  shows "\<exists>inner. deframe_drw key wire = inner \<and> unwrap_ioctl inner = Inr (seq mod 2 ^ 24, io) \<and>
    ioctl_parse io = Inr (iotype, ident, body)"
  using wrap_ioctl_parts [of seq io] ioctl_wire_aux [OF assms(1,2)] assms(3)
  by (auto simp: build_ioctl_packet_def frame_drw_def deframe_drw_def)

lemma sample_body: "length (utf8_encode (dumps_compact (JObj [(''action'', JStr ''up'')]))) = 15"
  by code_simp

theorem ioctl_through_wire_witness:
  "\<exists>io wire. ioctl_build 4138 (JObj [(''action'', JStr ''up'')]) 1 = Some io \<and> build_ioctl_packet ''key'' 3 io = Some wire \<and>
     ioctl_parse io = Inr (4138, 1, JObj [(''action'', JStr ''up'')])"
proof -
  let ?b = "JObj [(''action'', JStr ''up'')]"
  obtain io where io: "ioctl_build 4138 ?b 1 = Some io" "length io = 31"
    by (simp add: ioctl_build_def Let_def to_bytes_le_def sample_body IOCTL_TAG_def)
  moreover obtain wire where "build_ioctl_packet ''key'' 3 io = Some wire"
    using io by (simp add: build_ioctl_packet_def wrap_ioctl_def Let_def to_bytes_be_def)
  moreover have "wf_json ?b" by (simp add: dict_ok_def)
  ultimately show ?thesis using ioctl_through_wire [of ?b 4138 1 io "''key''" 3 wire] by blast
qed

text \<open>
    What the receive loop catches is all that can happen: on every datagram the DRW unwrapper and the
  command parser return, or raise ValueError, never IndexError.
\<close>

theorem ioctl_parsers_catchable:
  "unwrap_ioctl inner \<noteq> Inl Index_Error \<and> unwrap_ioctl inner \<noteq> Inl Text_Beyond \<and> ioctl_parse buf \<noteq> Inl Index_Error"
  by (auto simp: unwrap_ioctl_def ioctl_parse_def Let_def split: sum.splits json_error.splits)

end
