(* ===== verification/Net_Addr.thy ===== *)
theory Net_Addr
  imports Json
begin

text \<open>
  \<open>host_validation.py\<close>, and what it and the discovery use of Python's \<open>ipaddress\<close>: which texts are IPv4
  and IPv6 literals, their numbers, and which addresses count as private. Characters are those below
  256, as everywhere in the development.
\<close>

section \<open>IPv4\<close>

text \<open>\<open>ipaddress.IPv4Address\<close>: four decimal octets without leading zeros.\<close>

definition ipv4_octet :: "string \<Rightarrow> bool" where
  "ipv4_octet p = (p \<noteq> [] \<and> list_all ascii_digit p \<and> length p \<le> 3 \<and> (length p = 1 \<or> hd p \<noteq> CHR ''0'') \<and> text_nat p \<le> 255)"

definition ipv4_literal :: "string \<Rightarrow> bool" where
  "ipv4_literal ip = (let parts = split_on (CHR ''.'') ip in length parts = 4 \<and> list_all ipv4_octet parts)"

definition ipv4_value :: "string \<Rightarrow> nat option" where
  "ipv4_value ip = (if ipv4_literal ip then Some (foldl (\<lambda>n p. 256 * n + text_nat p) 0 (split_on (CHR ''.'') ip)) else None)"

section \<open>IPv6\<close>

definition partition_at :: "char \<Rightarrow> string \<Rightarrow> string \<times> string option" where
  "partition_at c s =
     (case dropWhile (\<lambda>x. x \<noteq> c) s of
        [] \<Rightarrow> (s, None)
      | x # r \<Rightarrow> (takeWhile (\<lambda>x. x \<noteq> c) s, Some r))"

definition hextet :: "string \<Rightarrow> nat option" where
  "hextet h =
     (if h = [] \<or> length h > 4 \<or> \<not> list_all (\<lambda>c. hex_val c \<noteq> None) h then None
      else Some (foldl (\<lambda>n c. 16 * n + the (hex_val c)) 0 h))"

text \<open>A part between colons: its text, or the half of an IPv4 suffix.\<close>

definition part_value :: "string + nat \<Rightarrow> nat option" where
  "part_value p = (case p of Inl h \<Rightarrow> hextet h | Inr v \<Rightarrow> Some v)"

definition number_of_parts :: "(string + nat) list \<Rightarrow> nat option" where
  "number_of_parts ps =
     foldl (\<lambda>acc p. case (acc, part_value p) of (Some n, Some v) \<Rightarrow> Some (65536 * n + v) | _ \<Rightarrow> None) (Some 0) ps"

definition suffix_parts :: "string list \<Rightarrow> (string + nat) list option" where
  "suffix_parts parts =
     (if CHR ''.'' \<in> set (last parts)
      then (case ipv4_value (last parts) of
              None \<Rightarrow> None
            | Some v \<Rightarrow> Some (map Inl (butlast parts) @ [Inr (v div 65536), Inr (v mod 65536)]))
      else Some (map Inl parts))"

text \<open>The parts with a run of zeroes left out at index \<open>k\<close>, and the whole.\<close>

definition compressed_value :: "(string + nat) list \<Rightarrow> nat \<Rightarrow> nat option" where
  "compressed_value ps k =
     (let n = length ps; lead = (hd ps = Inl []); trail = (last ps = Inl []);
          hi = (if lead then k - 1 else k); lo = (if trail then n - k - 2 else n - k - 1)
      in if lead \<and> hi \<noteq> 0 \<or> trail \<and> lo \<noteq> 0 \<or> hi + lo > 7 then None
         else case (number_of_parts (take hi ps), number_of_parts (drop (n - lo) ps)) of
                (Some h, Some l) \<Rightarrow> Some (h * 65536 ^ (8 - hi) + l)
              | _ \<Rightarrow> None)"

definition ipv6_parts_value :: "(string + nat) list \<Rightarrow> nat option" where
  "ipv6_parts_value ps =
     (let n = length ps in
      if n > 9 then None
      else case filter (\<lambda>i. ps ! i = Inl []) [1..<n - 1] of
        [] \<Rightarrow> if n \<noteq> 8 \<or> hd ps = Inl [] \<or> last ps = Inl [] then None else number_of_parts ps
      | [k] \<Rightarrow> compressed_value ps k
      | _ \<Rightarrow> None)"

definition ipv6_number :: "string \<Rightarrow> nat option" where
  "ipv6_number s =
     (let parts = split_on (CHR '':'') s
      in if s = [] \<or> length parts < 3 then None
         else case suffix_parts parts of None \<Rightarrow> None | Some ps \<Rightarrow> ipv6_parts_value ps)"

text \<open>\<open>IPv6Address\<close>: everything after a percent sign is the scope, which may hold anything but another one.\<close>

definition ipv6_value :: "string \<Rightarrow> nat option" where
  "ipv6_value s =
     (if CHR ''/'' \<in> set s then None
      else case partition_at (CHR ''%'') s of
             (a, None) \<Rightarrow> ipv6_number a
           | (a, Some z) \<Rightarrow> if z = [] \<or> CHR ''%'' \<in> set z then None else ipv6_number a)"

datatype ip = IPv4 nat | IPv6 nat

definition ip_address :: "string \<Rightarrow> ip option" where
  "ip_address s =
     (case ipv4_value s of
        Some n \<Rightarrow> Some (IPv4 n)
      | None \<Rightarrow> map_option IPv6 (ipv6_value s))"

section \<open>Private addresses\<close>

definition in_net :: "nat \<Rightarrow> nat \<Rightarrow> nat \<times> nat \<Rightarrow> bool" where
  "in_net width n net = (case net of (base, len) \<Rightarrow> n div 2 ^ (width - len) = base div 2 ^ (width - len))"

definition quad :: "nat \<Rightarrow> nat \<Rightarrow> nat \<Rightarrow> nat \<Rightarrow> nat" where
  "quad a b c d = ((a * 256 + b) * 256 + c) * 256 + d"

definition v4_private :: "(nat \<times> nat) list" where
  "v4_private = [(quad 0 0 0 0, 8), (quad 10 0 0 0, 8), (quad 127 0 0 0, 8), (quad 169 254 0 0, 16), (quad 172 16 0 0, 12),
     (quad 192 0 0 0, 24), (quad 192 0 0 170, 31), (quad 192 0 2 0, 24), (quad 192 168 0 0, 16), (quad 198 18 0 0, 15),
     (quad 198 51 100 0, 24), (quad 203 0 113 0, 24), (quad 240 0 0 0, 4), (quad 255 255 255 255, 32)]"

definition v4_exceptions :: "(nat \<times> nat) list" where
  "v4_exceptions = [(quad 192 0 0 9, 32), (quad 192 0 0 10, 32)]"

text \<open>The first hextets of an IPv6 network.\<close>

definition pre6 :: "nat list \<Rightarrow> nat" where
  "pre6 hs = foldl (\<lambda>n h. 65536 * n + h) 0 hs * 65536 ^ (8 - length hs)"

definition v6_private :: "(nat \<times> nat) list" where
  "v6_private = [(1, 128), (0, 128), (pre6 [0, 0, 0, 0, 0, 0xFFFF], 96), (pre6 [0x64, 0xFF9B, 1], 48), (pre6 [0x100], 64),
     (pre6 [0x2001], 23), (pre6 [0x2001, 0xDB8], 32), (pre6 [0x2002], 16), (pre6 [0x3FFF], 20), (pre6 [0xFC00], 7), (pre6 [0xFE80], 10)]"

definition v6_exceptions :: "(nat \<times> nat) list" where
  "v6_exceptions = [(pre6 [0x2001, 1, 0, 0, 0, 0, 0, 1], 128), (pre6 [0x2001, 1, 0, 0, 0, 0, 0, 2], 128), (pre6 [0x2001, 3], 32),
     (pre6 [0x2001, 4, 0x112], 48), (pre6 [0x2001, 0x20], 28), (pre6 [0x2001, 0x30], 28)]"

definition ipv4_is_private :: "nat \<Rightarrow> bool" where
  "ipv4_is_private n = (list_ex (in_net 32 n) v4_private \<and> \<not> list_ex (in_net 32 n) v4_exceptions)"

fun is_private :: "ip \<Rightarrow> bool" where
  "is_private (IPv4 n) = ipv4_is_private n"
| "is_private (IPv6 n) =
     (if n div 2 ^ 32 = 0xFFFF then ipv4_is_private (n mod 2 ^ 32)
      else list_ex (in_net 128 n) v6_private \<and> \<not> list_ex (in_net 128 n) v6_exceptions)"

section \<open>Safe hosts\<close>

definition ascii_alnum :: "char \<Rightarrow> bool" where
  "ascii_alnum c = (let n = char_code c in 48 \<le> n \<and> n \<le> 57 \<or> 65 \<le> n \<and> n \<le> 90 \<or> 97 \<le> n \<and> n \<le> 122)"

definition MAX_HOST_LEN :: nat where "MAX_HOST_LEN = 253"

definition host_label :: "string \<Rightarrow> bool" where
  "host_label l = (1 \<le> length l \<and> length l \<le> 63 \<and> list_all (\<lambda>c. ascii_alnum c \<or> c = CHR ''-'') l \<and>
     ascii_alnum (hd l) \<and> ascii_alnum (last l))"

definition hostname :: "string \<Rightarrow> bool" where
  "hostname s = list_all host_label (split_on (CHR ''.'') s)"

text \<open>The regular expression ends in \<open>$\<close>, which also matches before one final newline.\<close>

definition HOSTNAME_RE :: "string \<Rightarrow> bool" where
  "HOSTNAME_RE s = (hostname s \<or> s \<noteq> [] \<and> last s = CHR 0x0A \<and> hostname (butlast s))"

definition is_safe_host :: "string \<Rightarrow> bool" where
  "is_safe_host value =
     (if value = [] \<or> length value > MAX_HOST_LEN then False
      else if ip_address value \<noteq> None then True
      else HOSTNAME_RE value)"

definition validate_host :: "string \<Rightarrow> string option" where
  "validate_host value = (if \<not> is_safe_host value then None else Some value)"

section \<open>What a safe host is made of\<close>

definition host_char :: "char \<Rightarrow> bool" where
  "host_char c = (ascii_alnum c \<or> c \<in> {CHR ''-'', CHR ''.'', CHR '':''})"

lemma digit_host: "ascii_digit c \<Longrightarrow> host_char c"
  by (simp add: ascii_digit_def host_char_def ascii_alnum_def Let_def)

lemma hex_host: "hex_val c \<noteq> None \<Longrightarrow> host_char c"
  by (auto simp: hex_val_def host_char_def ascii_alnum_def Let_def split: if_splits)

lemma split_chars: "\<forall>p \<in> set (split_on c s). list_all P p \<Longrightarrow> P c \<Longrightarrow> list_all P s"
proof (induction s)
  case (Cons x s)
  then show ?case by (cases "split_on c s") (auto split: if_splits)
qed simp

lemma ipv4_chars: "ipv4_literal s \<Longrightarrow> list_all host_char s"
  by (rule split_chars [of "CHR ''.''"])
    (auto simp: ipv4_literal_def Let_def list_all_iff ipv4_octet_def digit_host, simp add: host_char_def)

lemma hostname_chars: "hostname s \<Longrightarrow> list_all host_char s"
  by (rule split_chars [of "CHR ''.''"])
    (auto simp: hostname_def list_all_iff host_label_def host_char_def)

lemma hextet_chars: "hextet h = Some v \<Longrightarrow> list_all host_char h"
  by (auto simp: hextet_def list_all_iff hex_host split: if_splits)

lemma number_of_parts_fold:
  "foldl (\<lambda>acc p. case (acc, part_value p) of (Some n, Some v) \<Rightarrow> Some (65536 * n + v) | _ \<Rightarrow> None) a ps = Some m \<Longrightarrow>
   a \<noteq> None \<and> (\<forall>p \<in> set ps. part_value p \<noteq> None)"
proof (induction ps arbitrary: a)
  case (Cons p ps)
  then have "(case (a, part_value p) of (Some n, Some v) \<Rightarrow> Some (65536 * n + v) | _ \<Rightarrow> None) \<noteq> None \<and> (\<forall>p \<in> set ps. part_value p \<noteq> None)"
    by simp
  then show ?case by (auto split: option.splits)
qed simp

lemma number_of_parts_some: "number_of_parts ps = Some m \<Longrightarrow> \<forall>p \<in> set ps. part_value p \<noteq> None"
  unfolding number_of_parts_def using number_of_parts_fold by blast

lemma part_chars: "part_value (Inl h) \<noteq> None \<Longrightarrow> list_all host_char h"
  using hextet_chars by (auto simp: part_value_def)


lemma parts_inl:
  assumes "ipv6_parts_value ps = Some v" "Inl h \<in> set ps"
  shows "h = [] \<or> part_value (Inl h) \<noteq> None"
proof -
  let ?n = "length ps" and ?lead = "hd ps = Inl []" and ?trail = "last ps = Inl []"
  let ?f = "filter (\<lambda>i. ps ! i = Inl []) [1..<?n - 1]"
  have n: "\<not> ?n > 9" using assms(1) by (auto simp: ipv6_parts_value_def Let_def)
  have ne: "ps \<noteq> []" using assms(2) by auto
  obtain i where i: "i < ?n" "ps ! i = Inl h" using assms(2) by (auto simp: in_set_conv_nth)
  consider "?f = []" | k where "?f = [k]" | k l r where "?f = k # l # r" by (metis list.exhaust)
  then show ?thesis
  proof cases
    case 1
    then have "number_of_parts ps = Some v" using assms(1) n by (simp add: ipv6_parts_value_def split: if_splits)
    then show ?thesis using number_of_parts_some assms(2) by blast
  next
    case 2
    define hi where "hi = (if ?lead then k - 1 else k)"
    define lo where "lo = (if ?trail then ?n - k - 2 else ?n - k - 1)"
    have k: "1 \<le> k" "k < ?n - 1" "ps ! k = Inl []"
    proof -
      have "k \<in> set ?f" unfolding 2 by simp
      then show "1 \<le> k" "k < ?n - 1" "ps ! k = Inl []" by auto
    qed
    have "compressed_value ps k = Some v" using assms(1) n 2 by (simp add: ipv6_parts_value_def Let_def)
    then have "(if ?lead \<and> hi \<noteq> 0 \<or> ?trail \<and> lo \<noteq> 0 \<or> hi + lo > 7 then None
         else case (number_of_parts (take hi ps), number_of_parts (drop (?n - lo) ps)) of
                (Some h, Some l) \<Rightarrow> Some (h * 65536 ^ (8 - hi) + l) | _ \<Rightarrow> None) = Some v"
      unfolding compressed_value_def Let_def hi_def lo_def .
    then have c: "\<not> (?lead \<and> hi \<noteq> 0 \<or> ?trail \<and> lo \<noteq> 0 \<or> hi + lo > 7)"
      and "(case (number_of_parts (take hi ps), number_of_parts (drop (?n - lo) ps)) of
             (Some h, Some l) \<Rightarrow> Some (h * 65536 ^ (8 - hi) + l) | _ \<Rightarrow> None) = Some v"
      by (metis option.distinct(1), metis option.distinct(1))
    then have p: "\<forall>p \<in> set (take hi ps). part_value p \<noteq> None" "\<forall>p \<in> set (drop (?n - lo) ps). part_value p \<noteq> None"
      using number_of_parts_some by (auto split: option.splits)
    have ends: "hd ps = ps ! 0" "last ps = ps ! (?n - 1)" using ne by (simp_all add: hd_conv_nth last_conv_nth)
    have "i < hi \<or> i \<ge> ?n - lo \<or> ps ! i = Inl []"
    proof (rule ccontr)
      assume a: "\<not> ?thesis"
      then have "i \<noteq> k" using k(3) by auto
      moreover have "i \<noteq> 0 \<or> \<not> ?lead" "i \<noteq> ?n - 1 \<or> \<not> ?trail" using a ends by auto
      ultimately show False using a c k i(1) by (auto simp: hi_def lo_def split: if_splits)
    qed
    then show ?thesis
    proof (elim disjE)
      assume "i < hi"
      then have "ps ! i \<in> set (take hi ps)" using i(1) by (auto simp: in_set_conv_nth)
      then show ?thesis using p i(2) by auto
    next
      assume "i \<ge> ?n - lo"
      then have "ps ! i \<in> set (drop (?n - lo) ps)" using i(1)
        by (auto simp: in_set_conv_nth intro!: exI [of _ "i - (?n - lo)"])
      then show ?thesis using p i(2) by auto
    next
      assume "ps ! i = Inl []"
      then show ?thesis using i(2) by simp
    qed
  next
    case 3
    then show ?thesis using assms(1) n by (simp add: ipv6_parts_value_def Let_def)
  qed
qed

lemma ipv6_number_chars:
  assumes "ipv6_number s = Some v"
  shows "list_all host_char s"
proof -
  let ?parts = "split_on (CHR '':'') s"
  obtain ps where ps: "suffix_parts ?parts = Some ps" "ipv6_parts_value ps = Some v"
    using assms by (auto simp: ipv6_number_def Let_def split: if_splits option.splits)
  have inl: "list_all host_char h" if "Inl h \<in> set ps" for h
    using parts_inl [OF ps(2) that] part_chars by auto
  have "list_all host_char p" if p: "p \<in> set ?parts" for p
  proof (cases "CHR ''.'' \<in> set (last ?parts)")
    case True
    then obtain w where w: "ipv4_value (last ?parts) = Some w" "ps = map Inl (butlast ?parts) @ [Inr (w div 65536), Inr (w mod 65536)]"
      using ps(1) by (auto simp: suffix_parts_def split: option.splits)
    have "p \<in> set (butlast ?parts) \<or> p = last ?parts"
      using p append_butlast_last_id [of ?parts] by (metis Un_iff set_append set_ConsD split_on_nonempty empty_iff list.set(1))
    then show ?thesis using w inl ipv4_chars by (auto simp: ipv4_value_def split: if_splits)
  next
    case False
    then show ?thesis using ps(1) p inl by (auto simp: suffix_parts_def)
  qed
  then show ?thesis by (intro split_chars [of "CHR '':''"]) (simp_all add: host_char_def)
qed

lemma partition_none: "c \<notin> set s \<Longrightarrow> partition_at c s = (s, None)"
proof -
  assume "c \<notin> set s"
  then have d: "dropWhile (\<lambda>x. x \<noteq> c) s = []" by (auto simp: dropWhile_eq_Nil_conv)
  show ?thesis by (simp add: partition_at_def d)
qed

lemma partition_some: "c \<notin> set a \<Longrightarrow> partition_at c (a @ c # z) = (a, Some z)"
  by (simp add: partition_at_def takeWhile_append dropWhile_append)

lemma safe_host_chars:
  assumes "is_safe_host v" "CHR ''%'' \<notin> set v"
  shows "v \<noteq> [] \<and> length v \<le> 253 \<and> (list_all host_char v \<or> (\<exists>w. v = w @ [CHR 0x0A] \<and> list_all host_char w))"
proof -
  have l: "v \<noteq> []" "length v \<le> 253" using assms(1) by (auto simp: is_safe_host_def MAX_HOST_LEN_def split: if_splits)
  show ?thesis
  proof (cases "ip_address v")
    case (Some ip)
    then have "ipv4_literal v \<or> (\<exists>n. ipv6_number v = Some n)"
      using assms(2) by (auto simp: ip_address_def ipv4_value_def ipv6_value_def partition_none split: option.splits if_splits)
    then show ?thesis using ipv4_chars ipv6_number_chars l by blast
  next
    case None
    then have "hostname v \<or> last v = CHR 0x0A \<and> hostname (butlast v)"
      using assms(1) by (auto simp: is_safe_host_def HOSTNAME_RE_def split: if_splits)
    then show ?thesis using l hostname_chars append_butlast_last_id [OF l(1)] by metis
  qed
qed

text \<open>
  C36 [safe_host_charset]
  A host that is_safe_host accepts and that has no percent sign consists of letters, digits, hyphens,
  dots and colons only, except that one newline may follow: no white space, quote, slash, at sign or
  shell character can stand in it.
\<close>

theorem safe_host_charset:
  assumes "is_safe_host v" "CHR ''%'' \<notin> set v"
  shows "v \<noteq> [] \<and> length v \<le> 253 \<and> (list_all host_char v \<or> (\<exists>w. v = w @ [CHR 0x0A] \<and> list_all host_char w))"
  by (rule safe_host_chars) (fact assms)+

lemma ipv4_sample: "ipv4_literal ''10.1.20.150''"
  by (simp add: ipv4_literal_def ipv4_octet_def ascii_digit_def char_code_def text_nat_def)

theorem safe_host_charset_witness:
  "list_all host_char ''10.1.20.150'' \<or> (\<exists>w. ''10.1.20.150'' = w @ [CHR 0x0A] \<and> list_all host_char w)"
proof -
  have "is_safe_host ''10.1.20.150''"
    by (simp add: is_safe_host_def MAX_HOST_LEN_def ip_address_def ipv4_value_def ipv4_sample)
  then show ?thesis using safe_host_charset [of "''10.1.20.150''"] by simp
qed

lemma link_local_number: "ipv6_number ''fe80::1'' \<noteq> None"
  by (simp add: ipv6_number_def suffix_parts_def ipv6_parts_value_def compressed_value_def number_of_parts_def part_value_def hextet_def
      hex_val_def char_code_def Let_def upt_rec)

lemma not_host_percent: "\<not> host_char (CHR ''%'')"
  by (simp add: host_char_def ascii_alnum_def char_code_def)

lemma no_ipv4_percent: "CHR ''%'' \<in> set s \<Longrightarrow> \<not> ipv4_literal s"
  using ipv4_chars [of s] not_host_percent by (auto simp: list_all_iff)

lemma scope_hole:
  assumes "z \<noteq> []" "CHR ''%'' \<notin> set z" "CHR ''/'' \<notin> set z" "length z \<le> 245"
  shows "is_safe_host (''fe80::1%'' @ z)"
proof -
  have "partition_at (CHR ''%'') (''fe80::1'' @ CHR ''%'' # z) = (''fe80::1'', Some z)" by (rule partition_some) simp
  then have "ipv6_value (''fe80::1%'' @ z) \<noteq> None" using assms link_local_number by (simp add: ipv6_value_def)
  moreover have "ipv4_value (''fe80::1%'' @ z) = None" using no_ipv4_percent by (simp add: ipv4_value_def)
  ultimately show ?thesis using assms by (auto simp: is_safe_host_def ip_address_def MAX_HOST_LEN_def)
qed

text \<open>
  The check lets through what it is there to stop: any text without percent sign and slash may follow an
  IPv6 address as its scope, spaces and shell characters included, and a hostname may end in a newline.
\<close>

theorem unsafe_hosts_accepted:
  "(z \<noteq> [] \<and> CHR ''%'' \<notin> set z \<and> CHR ''/'' \<notin> set z \<and> length z \<le> 245 \<longrightarrow> validate_host (''fe80::1%'' @ z) = Some (''fe80::1%'' @ z)) \<and>
   (hostname h \<and> length h \<le> 252 \<longrightarrow> validate_host (h @ [CHR 0x0A]) = Some (h @ [CHR 0x0A]))"
  using scope_hole [of z] by (simp add: validate_host_def is_safe_host_def [of "h @ [CHR 0x0A]"] MAX_HOST_LEN_def HOSTNAME_RE_def)

theorem unsafe_hosts_accepted_witness:
  "validate_host ''fe80::1%x -c evil'' = Some ''fe80::1%x -c evil''"
  using unsafe_hosts_accepted [of "''x -c evil''" "[]"] by simp

end
