(* ===== verification/Ptz_Session.thy ===== *)
theory Ptz_Session
  imports Ptz_Wire Net_Addr
begin

text \<open>
  \<open>ptz/session.py\<close>: discovery of the camera, the handshake and the command channel of one PPPP
  session. A receive loop is driven by its input: for every turn the clock's reading and what the
  queue gave within the turn's slice (None: nothing). The inputs a loop did not use are handed on;
  \<open>Pending\<close> says that it was still waiting when they ran out. What is sent is logged in \<open>sent_log\<close>.
\<close>

section \<open>Addresses\<close>

type_synonym addr = "string \<times> nat"
type_synonym datagram = "bytes \<times> addr"
type_synonym inputs = "(rat \<times> datagram option) list"

definition subnet_broadcast_24 :: "string \<Rightarrow> string" where
  "subnet_broadcast_24 ip =
     (let parts = split_on (CHR ''.'') ip
      in if length parts \<noteq> 4 then ''255.255.255.255'' else join_with (CHR ''.'') (take 3 parts @ [''255'']))"

section \<open>State\<close>

record ptz_session =
  skey :: string
  did_blob :: bytes
  camera_ip :: string
  broadcast_addr :: string
  port_range :: "nat list"
  send_login :: bool
  expect_ready_reply :: bool
  ka_interval :: rat
  peer :: "addr option"
  ready :: bool
  session_info :: bytes
  lumi_id :: nat
  drw_seq :: nat
  transport :: bool
  ka_task :: bool
  sent_log :: "datagram list"

definition new_session :: "string \<Rightarrow> bytes \<Rightarrow> string \<Rightarrow> string option \<Rightarrow> ptz_session" where
  "new_session key did ip bcast =
     \<lparr>skey = key, did_blob = did, camera_ip = ip,
      broadcast_addr = (case bcast of Some b \<Rightarrow> b | None \<Rightarrow> subnet_broadcast_24 ip),
      port_range = [28151..<28158], send_login = False, expect_ready_reply = True, ka_interval = 1,
      peer = None, ready = False, session_info = [], lumi_id = 1, drw_seq = 0, transport = False,
      ka_task = False, sent_log = []\<rparr>"

definition RESEND_INTERVAL :: rat where "RESEND_INTERVAL = 3 / 10"

datatype ptz_error = Ptz_Timeout | Wire wire_error | Overflow | No_Peer | No_Transport

datatype 'a drive = Done 'a | Failed ptz_error | Pending

definition sendto :: "bytes \<Rightarrow> addr \<Rightarrow> ptz_session \<Rightarrow> ptz_session" where
  "sendto wire a s = s\<lparr>sent_log := sent_log s @ [(wire, a)]\<rparr>"

definition send_all :: "datagram list \<Rightarrow> ptz_session \<Rightarrow> ptz_session" where
  "send_all ds s = foldl (\<lambda>s (wire, a). sendto wire a s) s ds"

definition close_transport :: "ptz_session \<Rightarrow> ptz_session" where
  "close_transport s = s\<lparr>transport := False\<rparr>"

definition close_session :: "ptz_session \<Rightarrow> ptz_session" where
  "close_session s = close_transport (s\<lparr>ready := False, ka_task := False\<rparr>)"

text \<open>\<open>lookup\<close> is \<open>getaddrinfo\<close> (None: OSError).\<close>

definition resolve_camera_ip :: "(string \<Rightarrow> string list option) \<Rightarrow> ptz_session \<Rightarrow> ptz_session option" where
  "resolve_camera_ip lookup s =
     (if ipv4_literal (camera_ip s) then Some s
      else case lookup (camera_ip s) of
             None \<Rightarrow> None
           | Some [] \<Rightarrow> None
           | Some (ip # ips) \<Rightarrow> Some (s\<lparr>camera_ip := ip, broadcast_addr := subnet_broadcast_24 ip\<rparr>))"

section \<open>Discovery\<close>

definition search_datagrams :: "bytes \<Rightarrow> bytes \<Rightarrow> ptz_session \<Rightarrow> datagram list" where
  "search_datagrams lan_search legacy_search s =
     map (\<lambda>ip. (lan_search, (ip, LAN_SEARCH_PORT))) [broadcast_addr s, ''255.255.255.255'', camera_ip s] @
     map (\<lambda>port. (legacy_search, (camera_ip s, port))) (port_range s)"

fun discover_loop :: "bytes \<Rightarrow> bytes \<Rightarrow> rat \<Rightarrow> rat \<Rightarrow> inputs \<Rightarrow> ptz_session \<Rightarrow> addr drive \<times> inputs \<times> ptz_session" where
  "discover_loop lan legacy deadline next_send [] s = (Pending, [], s)"
| "discover_loop lan legacy deadline next_send ((now, got) # inp) s =
     (if deadline - now \<le> 0 then (Failed Ptz_Timeout, inp, s)
      else
        let (next_send, s) = (if now \<ge> next_send
              then (now + RESEND_INTERVAL, send_all (search_datagrams lan legacy s) s) else (next_send, s))
        in case got of
             None \<Rightarrow> discover_loop lan legacy deadline next_send inp s
           | Some (wire, a) \<Rightarrow>
               if fst a \<noteq> camera_ip s then discover_loop lan legacy deadline next_send inp s
               else case parse_control (skey s) wire of
                      Inl Value_Error \<Rightarrow> discover_loop lan legacy deadline next_send inp s
                    | Inl e \<Rightarrow> (Failed (Wire e), inp, s)
                    | Inr p \<Rightarrow> (Done a, inp, s))"

definition discover_peer :: "rat \<Rightarrow> inputs \<Rightarrow> ptz_session \<Rightarrow> addr drive \<times> inputs \<times> ptz_session" where
  "discover_peer deadline inp s =
     (case (build_control (skey s) CTRL_LAN_SEARCH [], build_control (skey s) CTRL_SEARCH (did_blob s)) of
        (Some lan, Some legacy) \<Rightarrow> discover_loop lan legacy deadline 0 inp s
      | _ \<Rightarrow> (Failed Overflow, inp, s))"

section \<open>Handshake\<close>

type_synonym flags = "bool \<times> bool \<times> bool"

definition apply_control_packet :: "nat \<Rightarrow> bytes \<Rightarrow> bytes \<Rightarrow> bytes \<Rightarrow> addr \<Rightarrow> ptz_session \<Rightarrow> flags \<times> ptz_session" where
  "apply_control_packet typ payload hello ack to s =
     (if typ = CTRL_SEARCH then
        ((False, False, False), sendto (if payload = did_blob s then hello else ack) to s)
      else if typ = CTRL_REPLY then
        ((True, False, False),
         if length payload > length (did_blob s) then s\<lparr>session_info := drop (length (did_blob s)) payload\<rparr> else s)
      else if typ = CTRL_CONFIRM \<or> typ = CTRL_CONFIRM_ALT then ((False, True, False), s)
      else if typ = CTRL_READY then ((False, False, True), s)
      else ((False, False, False), s))"

fun ready_loop :: "rat \<Rightarrow> inputs \<Rightarrow> ptz_session \<Rightarrow> unit drive \<times> inputs \<times> ptz_session" where
  "ready_loop deadline [] s = (Pending, [], s)"
| "ready_loop deadline ((now, got) # inp) s =
     (if deadline - now \<le> 0 then (Failed Ptz_Timeout, inp, s)
      else case got of
             None \<Rightarrow> ready_loop deadline inp s
           | Some (wire, a) \<Rightarrow>
               (case parse_control (skey s) wire of
                  Inl Value_Error \<Rightarrow> ready_loop deadline inp s
                | Inl e \<Rightarrow> (Failed (Wire e), inp, s)
                | Inr (typ, payload) \<Rightarrow> if typ = CTRL_READY then (Done (), inp, s) else ready_loop deadline inp s))"

definition do_ready :: "rat \<Rightarrow> bool \<Rightarrow> addr \<Rightarrow> inputs \<Rightarrow> ptz_session \<Rightarrow> unit drive \<times> inputs \<times> ptz_session" where
  "do_ready deadline cam_ready to inp s =
     (case (build_control (skey s) CTRL_SEARCH (did_blob s), build_control (skey s) CTRL_READY []) of
        (Some placeholder, Some rdy) \<Rightarrow>
          (let s = sendto rdy to (if send_login s then sendto placeholder to s else s)
           in if \<not> expect_ready_reply s \<or> cam_ready then (Done (), inp, s) else ready_loop deadline inp s)
      | _ \<Rightarrow> (Failed Overflow, inp, s))"

fun handshake_loop :: "bytes \<Rightarrow> bytes \<Rightarrow> addr \<Rightarrow> rat \<Rightarrow> rat \<Rightarrow> flags \<Rightarrow> inputs \<Rightarrow> ptz_session \<Rightarrow> unit drive \<times> inputs \<times> ptz_session" where
  "handshake_loop hello ack to deadline next_hello fl [] s = (Pending, [], s)"
| "handshake_loop hello ack to deadline next_hello (got_reply, got_confirm, cam_ready) ((now, got) # inp) s =
     (if deadline - now \<le> 0 then (Failed Ptz_Timeout, inp, s)
      else
        let (next_hello, s) = (if now \<ge> next_hello then (now + RESEND_INTERVAL, sendto hello to s) else (next_hello, s))
        in case got of
             None \<Rightarrow> handshake_loop hello ack to deadline next_hello (got_reply, got_confirm, cam_ready) inp s
           | Some (wire, a) \<Rightarrow>
               (case parse_control (skey s) wire of
                  Inl Value_Error \<Rightarrow> handshake_loop hello ack to deadline next_hello (got_reply, got_confirm, cam_ready) inp s
                | Inl e \<Rightarrow> (Failed (Wire e), inp, s)
                | Inr (typ, payload) \<Rightarrow>
                    (case apply_control_packet typ payload hello ack to s of
                       ((r, c, rdy), s) \<Rightarrow>
                         (let got_reply = got_reply \<or> r; got_confirm = got_confirm \<or> c; cam_ready = cam_ready \<or> rdy
                          in if got_reply \<and> (got_confirm \<or> cam_ready) then do_ready deadline cam_ready to inp s
                             else handshake_loop hello ack to deadline next_hello (got_reply, got_confirm, cam_ready) inp s))))"

definition do_handshake :: "rat \<Rightarrow> addr \<Rightarrow> inputs \<Rightarrow> ptz_session \<Rightarrow> unit drive \<times> inputs \<times> ptz_session" where
  "do_handshake deadline to inp s =
     (case (build_control (skey s) CTRL_SEARCH (did_blob s), build_control (skey s) CTRL_KEEPALIVE []) of
        (Some hello, Some ack) \<Rightarrow>
          handshake_loop hello ack to deadline 0 (False, False, False) inp (s\<lparr>session_info := []\<rparr>)
      | _ \<Rightarrow> (Failed Overflow, inp, s))"

definition start_keepalive :: "ptz_session \<Rightarrow> ptz_session" where
  "start_keepalive s = (if ka_interval s \<le> 0 then s else s\<lparr>ka_task := True\<rparr>)"

text \<open>\<open>connect\<close> from the clock's reading \<open>t0\<close>: whatever fails after the transport was opened closes it.\<close>

definition ptz_connect :: "(string \<Rightarrow> string list option) \<Rightarrow> rat \<Rightarrow> rat \<Rightarrow> inputs \<Rightarrow> ptz_session \<Rightarrow> unit drive \<times> inputs \<times> ptz_session" where
  "ptz_connect lookup t0 timeout inp s0 =
     (let s = s0\<lparr>transport := True\<rparr>
      in case resolve_camera_ip lookup s of
           None \<Rightarrow> (Failed Ptz_Timeout, inp, close_transport s)
         | Some s \<Rightarrow>
             (case discover_peer (t0 + timeout) inp s of
                (Done a, inp, s) \<Rightarrow>
                  (case do_handshake (t0 + timeout) a inp (s\<lparr>peer := Some a\<rparr>) of
                     (Done u, inp, s) \<Rightarrow> (Done (), inp, start_keepalive (s\<lparr>ready := True\<rparr>))
                   | (Failed e, inp, s) \<Rightarrow> (Failed e, inp, close_transport s)
                   | (Pending, inp, s) \<Rightarrow> (Pending, inp, s))
              | (Failed e, inp, s) \<Rightarrow> (Failed e, inp, close_transport s)
              | (Pending, inp, s) \<Rightarrow> (Pending, inp, s)))"

text \<open>One turn of the keepalive task.\<close>

definition keepalive_turn :: "ptz_session \<Rightarrow> ptz_session" where
  "keepalive_turn s =
     (case build_control (skey s) CTRL_KEEPALIVE [] of
        None \<Rightarrow> s
      | Some ka \<Rightarrow> (case peer s of None \<Rightarrow> s | Some a \<Rightarrow> if transport s then sendto ka a s else s))"

section \<open>Commands\<close>

text \<open>Both counters move before the packet is built.\<close>

definition send_ioctl :: "nat \<Rightarrow> json \<Rightarrow> ptz_session \<Rightarrow> (ptz_error + nat) \<times> ptz_session" where
  "send_ioctl iotype body s0 =
     (case peer s0 of
        None \<Rightarrow> (Inl No_Peer, s0)
      | Some a \<Rightarrow>
          (let s = s0\<lparr>lumi_id := lumi_id s0 + 1, drw_seq := drw_seq s0 + 1\<rparr>
           in case ioctl_build iotype body (lumi_id s0) of
                None \<Rightarrow> (Inl Overflow, s)
              | Some io \<Rightarrow>
                  (case build_ioctl_packet (skey s0) (drw_seq s0) io of
                     None \<Rightarrow> (Inl Overflow, s)
                   | Some wire \<Rightarrow>
                       if \<not> transport s then (Inl No_Transport, s) else (Inr (lumi_id s0), sendto wire a s))))"

definition is_drw :: "bytes \<Rightarrow> bool" where
  "is_drw inner = (length inner \<ge> 2 \<and> inner ! 0 = PPPP_MAGIC \<and> inner ! 1 = DRW_INNER_TYPE)"

fun recv_ioctl :: "string \<Rightarrow> rat \<Rightarrow> inputs \<Rightarrow> (nat \<times> nat \<times> json) option drive \<times> inputs" where
  "recv_ioctl key deadline [] = (Pending, [])"
| "recv_ioctl key deadline ((now, got) # inp) =
     (if deadline - now \<le> 0 then (Done None, inp)
      else case got of
             None \<Rightarrow> (Done None, inp)
           | Some (wire, a) \<Rightarrow>
               (let inner = deframe_drw key wire
                in if is_drw inner
                   then (case (case unwrap_ioctl inner of Inl e \<Rightarrow> Inl e | Inr (sq, io) \<Rightarrow> ioctl_parse io) of
                           Inl Value_Error \<Rightarrow> recv_ioctl key deadline inp
                         | Inl e \<Rightarrow> (Failed (Wire e), inp)
                         | Inr r \<Rightarrow> (Done (Some r), inp))
                   else recv_ioctl key deadline inp))"

section \<open>What the loops do\<close>

text \<open>Only the log and the stashed session bytes change.\<close>

definition keeps :: "ptz_session \<Rightarrow> ptz_session \<Rightarrow> bool" where
  "keeps s s' = (s' = s\<lparr>sent_log := sent_log s', session_info := session_info s'\<rparr>)"

lemma keeps_refl [simp, intro]: "keeps s s"
  by (simp add: keeps_def)

lemma keeps_trans: "keeps s t \<Longrightarrow> keeps t u \<Longrightarrow> keeps s u"
  by (cases s; cases t; cases u) (simp add: keeps_def)

lemma keepsD:
  "keeps s s' \<Longrightarrow> skey s' = skey s" "keeps s s' \<Longrightarrow> did_blob s' = did_blob s" "keeps s s' \<Longrightarrow> camera_ip s' = camera_ip s"
  "keeps s s' \<Longrightarrow> expect_ready_reply s' = expect_ready_reply s" "keeps s s' \<Longrightarrow> peer s' = peer s"
  "keeps s s' \<Longrightarrow> transport s' = transport s" "keeps s s' \<Longrightarrow> ready s' = ready s" "keeps s s' \<Longrightarrow> ka_interval s' = ka_interval s"
  "keeps s s' \<Longrightarrow> lumi_id s' = lumi_id s" "keeps s s' \<Longrightarrow> drw_seq s' = drw_seq s" "keeps s s' \<Longrightarrow> ka_task s' = ka_task s"
  by (cases s; cases s'; simp add: keeps_def)+

lemma keeps_sendto [simp]: "keeps s (sendto w a s)"
  by (simp add: keeps_def sendto_def)

lemma keeps_send_all [simp]: "keeps s (send_all ds s)"
proof (induction ds arbitrary: s)
  case (Cons d ds)
  obtain w a where "d = (w, a)" by (cases d)
  then show ?case using Cons [of "sendto w a s"] keeps_trans [OF keeps_sendto] by (simp add: send_all_def)
qed (simp add: send_all_def)

lemma apply_control_keeps:
  "apply_control_packet typ payload hello ack to s = ((r, c, y), s') \<Longrightarrow>
     keeps s s' \<and> r = (typ = CTRL_REPLY) \<and> c = (typ = CTRL_CONFIRM \<or> typ = CTRL_CONFIRM_ALT) \<and> y = (typ = CTRL_READY)"
  by (auto simp: apply_control_packet_def ctrl_defs keeps_def sendto_def split: if_splits)

text \<open>A control packet of one of the types arrived in time; all turns were in time; a datagram raises IndexError.\<close>

definition packet_type :: "string \<Rightarrow> datagram option \<Rightarrow> nat option" where
  "packet_type key got = (case got of None \<Rightarrow> None
     | Some (wire, a) \<Rightarrow> (case parse_control key wire of Inl e \<Rightarrow> None | Inr (typ, p) \<Rightarrow> Some typ))"

fun saw :: "string \<Rightarrow> rat \<Rightarrow> nat set \<Rightarrow> inputs \<Rightarrow> bool" where
  "saw key d T [] = False"
| "saw key d T ((now, got) # inp) = (now < d \<and> (\<exists>typ \<in> T. packet_type key got = Some typ) \<or> saw key d T inp)"

fun in_time :: "rat \<Rightarrow> inputs \<Rightarrow> bool" where
  "in_time d [] = True"
| "in_time d ((now, got) # inp) = (now < d \<and> in_time d inp)"

fun poisoned :: "string \<Rightarrow> inputs \<Rightarrow> bool" where
  "poisoned key [] = False"
| "poisoned key ((now, got) # inp) =
     ((case got of None \<Rightarrow> False | Some (wire, a) \<Rightarrow> parse_control key wire = Inl Index_Error) \<or> poisoned key inp)"

lemma saw_append: "saw key d T (xs @ ys) \<longleftrightarrow> saw key d T xs \<or> saw key d T ys"
  by (induction xs) auto

lemma in_time_append: "in_time d (xs @ ys) \<longleftrightarrow> in_time d xs \<and> in_time d ys"
  by (induction xs) auto

lemma no_text_beyond: "parse_control key wire \<noteq> Inl Text_Beyond"
  by (auto simp: parse_control_def Let_def)

text \<open>A valid control packet from the address was taken in time and \<open>rest\<close> is what came after it.\<close>

fun accepted :: "string \<Rightarrow> rat \<Rightarrow> addr \<Rightarrow> inputs \<Rightarrow> inputs \<Rightarrow> bool" where
  "accepted key d a [] rest = False"
| "accepted key d a ((now, got) # inp) rest =
     (now < d \<and> ((\<exists>wire p. got = Some (wire, a) \<and> parse_control key wire = Inr p \<and> rest = inp) \<or> accepted key d a inp rest))"

lemma discover_loop_inv:
  "discover_loop lan legacy d n inp s = (r, rest, s') \<Longrightarrow>
   keeps s s' \<and> (r = Pending \<longrightarrow> in_time d inp) \<and>
   (\<forall>a. r = Done a \<longrightarrow> fst a = camera_ip s \<and> accepted (skey s) d a inp rest)"
proof (induction inp arbitrary: n s)
  case (Cons x inp)
  obtain now got where x: "x = (now, got)" by force
  obtain n' s1 where ns: "(if now \<ge> n then (now + RESEND_INTERVAL, send_all (search_datagrams lan legacy s) s)
        else (n, s)) = (n', s1)" by force
  then have k: "keeps s s1" by (auto split: if_splits)
  have e: "(if d - now \<le> 0 then (Failed Ptz_Timeout, inp, s)
      else case got of
             None \<Rightarrow> discover_loop lan legacy d n' inp s1
           | Some (wire, a) \<Rightarrow>
               if fst a \<noteq> camera_ip s1 then discover_loop lan legacy d n' inp s1
               else case parse_control (skey s1) wire of
                      Inl Value_Error \<Rightarrow> discover_loop lan legacy d n' inp s1
                    | Inl e \<Rightarrow> (Failed (Wire e), inp, s1)
                    | Inr p \<Rightarrow> (Done a, inp, s1)) = (r, rest, s')"
    using Cons.prems by (simp only: x discover_loop.simps ns Let_def prod.case)
  show ?case
  proof (cases "\<not> d - now \<le> 0 \<and> discover_loop lan legacy d n' inp s1 = (r, rest, s')")
    case True
    with Cons.IH [of n' s1] show ?thesis
      using keeps_trans [OF k] keepsD(1,3) [OF k] x by auto
  next
    case False
    with e show ?thesis using x k keepsD(1,3) [OF k]
      by (auto split: if_splits option.splits prod.splits sum.splits wire_error.splits)
  qed
qed simp

lemma ready_loop_inv:
  "ready_loop d inp s = (r, rest, s') \<Longrightarrow>
     s' = s \<and> (r = Pending \<longrightarrow> in_time d inp) \<and> (r = Done () \<longrightarrow> saw (skey s) d {CTRL_READY} inp)"
proof (induction inp)
  case (Cons x inp)
  then show ?case
    by (cases x; cases "snd x") (auto simp: packet_type_def split: if_splits sum.splits wire_error.splits)
qed simp

lemma do_ready_inv:
  assumes "do_ready d cam to inp s = (r, rest, s')"
  shows "keeps s s' \<and> (r = Pending \<longrightarrow> in_time d inp) \<and>
    (r = Done () \<longrightarrow> expect_ready_reply s \<longrightarrow> cam \<or> saw (skey s) d {CTRL_READY} inp)"
proof (cases "build_control (skey s) CTRL_SEARCH (did_blob s) = None \<or> build_control (skey s) CTRL_READY [] = None")
  case False
  then obtain b c where bc: "build_control (skey s) CTRL_SEARCH (did_blob s) = Some b" "build_control (skey s) CTRL_READY [] = Some c"
    by auto
  obtain s2 where s2: "s2 = sendto c to (if send_login s then sendto b to s else s)" by simp
  have k: "keeps s s2" using keeps_trans [OF keeps_sendto keeps_sendto] by (simp add: s2)
  from assms show ?thesis
    using ready_loop_inv [of d inp s2 r rest s'] k keepsD(1,4) [OF k]
    by (auto simp: do_ready_def bc s2 [symmetric] Let_def split: if_splits)
qed (use assms in \<open>auto simp: do_ready_def split: option.splits\<close>)

text \<open>The handshake loop's step, once its clock is in time.\<close>

lemma handshake_loop_inv:
  "handshake_loop hello ack to d n (gr, gc, cr) inp s = (r, rest, s') \<Longrightarrow>
   keeps s s' \<and> (r = Pending \<longrightarrow> in_time d inp) \<and>
   (r = Done () \<longrightarrow> (gr \<or> saw (skey s) d {CTRL_REPLY} inp) \<and>
      (gc \<or> cr \<or> saw (skey s) d {CTRL_CONFIRM, CTRL_CONFIRM_ALT, CTRL_READY} inp) \<and>
      (expect_ready_reply s \<longrightarrow> cr \<or> saw (skey s) d {CTRL_READY} inp))"
proof (induction inp arbitrary: n gr gc cr s)
  case (Cons x inp)
  obtain now got where x: "x = (now, got)" by force
  obtain n' s1 where ns: "(if now \<ge> n then (now + RESEND_INTERVAL, sendto hello to s) else (n, s)) = (n', s1)" by force
  then have k: "keeps s s1" by (auto split: if_splits)
  note kD = keepsD(1,4) [OF k]
  show ?case
  proof (cases "d - now \<le> 0")
    case True
    then show ?thesis using Cons.prems x by auto
  next
    case now: False
    note e = Cons.prems [unfolded x handshake_loop.simps ns Let_def prod.case if_not_P [OF now]]
    show ?thesis
    proof (cases "packet_type (skey s1) got")
      case None
      then consider "handshake_loop hello ack to d n' (gr, gc, cr) inp s1 = (r, rest, s')" | w where "r = Failed (Wire w)" "s' = s1"
        using e by (auto simp: packet_type_def split: option.splits sum.splits wire_error.splits)
      then show ?thesis
      proof cases
        case 1
        from Cons.IH [OF this] show ?thesis using keeps_trans [OF k] kD now x by auto
      qed (use k in simp)
    next
      case (Some ty)
      then obtain wire a p where g: "got = Some (wire, a)" "parse_control (skey s1) wire = Inr (ty, p)"
        by (auto simp: packet_type_def split: option.splits sum.splits)
      obtain fr fc fy s2 where a2: "apply_control_packet ty p hello ack to s1 = ((fr, fc, fy), s2)" by (metis prod.exhaust)
      note ap = apply_control_keeps [OF a2]
      then have k2: "keeps s s2" using keeps_trans [OF k] by blast
      note k2D = keepsD(1,4) [OF k2]
      note e2 = e [unfolded g option.case prod.case sum.case a2]
      have pt: "packet_type (skey s) got = Some ty" using Some kD by simp
      show ?thesis
      proof (cases "(gr \<or> fr) \<and> ((gc \<or> fc) \<or> (cr \<or> fy))")
        case True
        then have "do_ready d (cr \<or> fy) to inp s2 = (r, rest, s')" using e2 by (simp only: if_True simp_thms)
        from do_ready_inv [OF this] show ?thesis
          using True ap keeps_trans [OF k2] k2D now x pt by (auto simp: ctrl_defs)
      next
        case False
        then have "handshake_loop hello ack to d n' (gr \<or> fr, gc \<or> fc, cr \<or> fy) inp s2 = (r, rest, s')"
          using e2 by (simp only: if_False simp_thms)
        from Cons.IH [OF this] show ?thesis
          using ap keeps_trans [OF k2] k2D now x pt by (auto simp: ctrl_defs)
      qed
    qed
  qed
qed simp

lemma do_handshake_inv:
  assumes "do_handshake d to inp s = (r, rest, s')"
  shows "keeps s s' \<and> (r = Pending \<longrightarrow> in_time d inp) \<and>
   (r = Done () \<longrightarrow> saw (skey s) d {CTRL_REPLY} inp \<and>
      saw (skey s) d {CTRL_CONFIRM, CTRL_CONFIRM_ALT, CTRL_READY} inp \<and>
      (expect_ready_reply s \<longrightarrow> saw (skey s) d {CTRL_READY} inp))"
proof -
  have k: "keeps s (s\<lparr>session_info := []\<rparr>)" by (simp add: keeps_def)
  show ?thesis
    using assms handshake_loop_inv [of _ _ to d 0 False False False inp "s\<lparr>session_info := []\<rparr>" r rest s'] keeps_trans [OF k]
    by (auto simp: do_handshake_def split: option.splits)
qed

lemma accepted_saw: "accepted key d a inp rest \<Longrightarrow> saw key d T rest \<Longrightarrow> saw key d T inp"
  by (induction inp) auto

lemma accepted_in_time: "accepted key d a inp rest \<Longrightarrow> in_time d rest \<Longrightarrow> in_time d inp"
  by (induction inp) auto

lemma discover_peer_inv:
  assumes "discover_peer d inp s = (r, rest, s')"
  shows "keeps s s' \<and> (r = Pending \<longrightarrow> in_time d inp) \<and>
    (\<forall>a. r = Done a \<longrightarrow> fst a = camera_ip s \<and> accepted (skey s) d a inp rest)"
  using assms discover_loop_inv [of _ _ d 0 inp s r rest s'] by (auto simp: discover_peer_def split: option.splits)

lemma resolve_fields:
  "resolve_camera_ip lookup s = Some s' \<Longrightarrow> skey s' = skey s \<and> did_blob s' = did_blob s \<and>
     expect_ready_reply s' = expect_ready_reply s \<and> transport s' = transport s \<and> ready s' = ready s \<and> ka_task s' = ka_task s \<and> ka_interval s' = ka_interval s"
  by (auto simp: resolve_camera_ip_def split: if_splits option.splits list.splits)

section \<open>The session's properties\<close>

text \<open>
  What a connect can end with, whatever arrives. If it returns, the session is ready on an open
  transport, its peer is an address of the camera's host from which a datagram valid under the key
  arrived in time, and in time a reply, a confirm or ready packet, and (when one is expected) a ready
  packet were received; keepalives run exactly when their interval is positive. If it fails, the
  transport is closed, nothing is marked ready and no keepalive was started. It can only go on waiting
  while the clock has not reached the deadline.
\<close>

theorem ptz_connect_outcomes:
  "case ptz_connect lookup t0 timeout inp s of
     (Done u, rest, s') \<Rightarrow>
       ready s' \<and> transport s' \<and> (0 < ka_interval s \<longrightarrow> ka_task s') \<and>
       (case peer s' of None \<Rightarrow> False
        | Some a \<Rightarrow> fst a = camera_ip s' \<and> (\<exists>mid. accepted (skey s) (t0 + timeout) a inp mid)) \<and>
       saw (skey s) (t0 + timeout) {CTRL_REPLY} inp \<and>
       saw (skey s) (t0 + timeout) {CTRL_CONFIRM, CTRL_CONFIRM_ALT, CTRL_READY} inp \<and>
       (expect_ready_reply s \<longrightarrow> saw (skey s) (t0 + timeout) {CTRL_READY} inp)
   | (Failed e, rest, s') \<Rightarrow> \<not> transport s' \<and> ready s' = ready s \<and> ka_task s' = ka_task s
   | (Pending, rest, s') \<Rightarrow> in_time (t0 + timeout) inp"
proof (cases "resolve_camera_ip lookup (s\<lparr>transport := True\<rparr>)")
  case None
  then show ?thesis by (simp add: ptz_connect_def close_transport_def)
next
  case (Some s1)
  note f1 = resolve_fields [OF Some]
  let ?d = "t0 + timeout"
  obtain r1 rest1 s2 where d: "discover_peer ?d inp s1 = (r1, rest1, s2)" by (metis prod.exhaust)
  note di = discover_peer_inv [OF d]
  have k2: "skey s2 = skey s" "camera_ip s2 = camera_ip s1" "transport s2" "ready s2 = ready s" "ka_task s2 = ka_task s"
    "expect_ready_reply s2 = expect_ready_reply s" "ka_interval s2 = ka_interval s"
    using di f1 keepsD [of s1 s2] by simp_all
  show ?thesis
  proof (cases r1)
    case (Done a)
    obtain r2 rest2 s3 where h: "do_handshake ?d a rest1 (s2\<lparr>peer := Some a\<rparr>) = (r2, rest2, s3)" by (metis prod.exhaust)
    note hi = do_handshake_inv [OF h]
    have k3: "peer s3 = Some a" "camera_ip s3 = camera_ip s1" "transport s3" "ready s3 = ready s" "ka_task s3 = ka_task s" "ka_interval s3 = ka_interval s"
      using hi k2 keepsD [of "s2\<lparr>peer := Some a\<rparr>" s3] by simp_all
    have a: "fst a = camera_ip s1" "accepted (skey s) ?d a inp rest1" using di Done f1 by simp_all
    have "\<exists>mid. accepted (skey s) ?d a inp mid" using a(2) by blast
    then show ?thesis
      using Some d h Done hi k2 k3 a accepted_saw [OF a(2)] accepted_in_time [OF a(2)]
      by (cases r2) (simp_all add: ptz_connect_def Let_def close_transport_def start_keepalive_def)
  next
    case (Failed e)
    then show ?thesis using Some d k2 by (simp add: ptz_connect_def Let_def close_transport_def)
  next
    case Pending
    then show ?thesis using Some d di by (simp add: ptz_connect_def Let_def)
  qed
qed

lemma packet_type_Some: "packet_type key got = Some ty \<Longrightarrow> \<exists>wire a p. got = Some (wire, a) \<and> parse_control key wire = Inr (ty, p)"
  by (auto simp: packet_type_def split: option.splits sum.splits)

lemma ready_loop_done:
  "in_time d inp \<Longrightarrow> \<not> poisoned (skey s) inp \<Longrightarrow> saw (skey s) d {CTRL_READY} inp \<Longrightarrow> \<exists>rest. ready_loop d inp s = (Done (), rest, s)"
proof (induction inp)
  case (Cons x inp)
  obtain now got where x: "x = (now, got)" by force
  then show ?case using Cons no_text_beyond [of "skey s"]
    by (auto simp: packet_type_def split: option.splits sum.splits wire_error.splits)
qed simp

lemma do_ready_done:
  assumes "in_time d inp" "\<not> poisoned (skey s) inp" "cam \<or> saw (skey s) d {CTRL_READY} inp" "length (did_blob s) < 65536"
  shows "\<exists>rest s'. do_ready d cam to inp s = (Done (), rest, s')"
proof -
  have k: "keeps s (sendto c to (if send_login s then sendto b to s else s))" for b c
    using keeps_trans [OF keeps_sendto keeps_sendto] by simp
  obtain b c where bc: "build_control (skey s) CTRL_SEARCH (did_blob s) = Some b" "build_control (skey s) CTRL_READY [] = Some c"
    using assms(4) by (simp add: build_control_def to_bytes_be_def)
  let ?s = "sendto c to (if send_login s then sendto b to s else s)"
  show ?thesis
    using assms(1-3) ready_loop_done [of d inp ?s] keepsD(1) [OF k [of c b]] by (auto simp: do_ready_def bc Let_def)
qed

lemma handshake_loop_done:
  "in_time d inp \<Longrightarrow> \<not> poisoned (skey s) inp \<Longrightarrow> length (did_blob s) < 65536 \<Longrightarrow> \<not> (gr \<and> (gc \<or> cr)) \<Longrightarrow>
   gr \<or> saw (skey s) d {CTRL_REPLY} inp \<Longrightarrow> cr \<or> saw (skey s) d {CTRL_READY} inp \<Longrightarrow>
   \<exists>rest s'. handshake_loop hello ack to d n (gr, gc, cr) inp s = (Done (), rest, s')"
proof (induction inp arbitrary: n gr gc cr s)
  case (Cons x inp)
  obtain now got where x: "x = (now, got)" by force
  obtain n' s1 where ns: "(if now \<ge> n then (now + RESEND_INTERVAL, sendto hello to s) else (n, s)) = (n', s1)" by force
  then have k: "keeps s s1" by (auto split: if_splits)
  note kD = keepsD(1,2) [OF k]
  have now: "\<not> d - now \<le> 0" "in_time d inp" "\<not> poisoned (skey s) inp" using Cons.prems x by auto
  note e = handshake_loop.simps(2) [of hello ack to d n gr gc cr now got inp s, unfolded ns Let_def prod.case if_not_P [OF now(1)]]
  show ?case
  proof (cases "packet_type (skey s1) got")
    case None
    then have "handshake_loop hello ack to d n (gr, gc, cr) (x # inp) s = handshake_loop hello ack to d n' (gr, gc, cr) inp s1"
      using e x Cons.prems(2) no_text_beyond [of "skey s"] kD
      by (auto simp: packet_type_def split: option.splits sum.splits wire_error.splits)
    then show ?thesis using Cons.IH [of s1 gr gc cr n'] Cons.prems now kD x None by (auto simp: packet_type_def)
  next
    case (Some ty)
    then obtain wire a p where g: "got = Some (wire, a)" "parse_control (skey s1) wire = Inr (ty, p)"
      using packet_type_Some by blast
    obtain fr fc fy s2 where a2: "apply_control_packet ty p hello ack to s1 = ((fr, fc, fy), s2)" by (metis prod.exhaust)
    note ap = apply_control_keeps [OF a2]
    then have "keeps s s2" using keeps_trans [OF k] by blast
    note k2D = keepsD(1,2) [OF this]
    note e2 = e [unfolded g option.case prod.case sum.case a2, folded g(1), folded x]
    have pt: "packet_type (skey s) got = Some ty" using Some kD by simp
    show ?thesis
    proof (cases "(gr \<or> fr) \<and> ((gc \<or> fc) \<or> (cr \<or> fy))")
      case True
      then show ?thesis
        using e2 do_ready_done [of d inp s2 "cr \<or> fy" to] now k2D Cons.prems x pt ap by (auto simp: if_P ctrl_defs)
    next
      case False
      then show ?thesis
        using e2 Cons.IH [of s2 "gr \<or> fr" "gc \<or> fc" "cr \<or> fy" n'] now k2D Cons.prems x pt ap by (auto simp: ctrl_defs)
    qed
  qed
qed simp

lemma do_handshake_done:
  assumes "in_time d inp" "\<not> poisoned (skey s) inp" "length (did_blob s) < 65536"
    and "saw (skey s) d {CTRL_REPLY} inp" "saw (skey s) d {CTRL_READY} inp"
  shows "\<exists>rest s'. do_handshake d to inp s = (Done (), rest, s')"
  using assms handshake_loop_done [of d inp "s\<lparr>session_info := []\<rparr>" False False False]
  by (simp add: do_handshake_def build_control_def to_bytes_be_def)

text \<open>A whole connect: the camera answers the search, then the greeting, and is ready.\<close>

definition fresh_sample :: ptz_session where
  "fresh_sample = new_session ''key'' [1, 2, 3] ''192.168.1.20'' None"

theorem ptz_connect_outcomes_witness:
  "\<exists>inp rest s'. ptz_connect (\<lambda>_. None) 0 5 inp fresh_sample = (Done (), rest, s') \<and> ready s' \<and> ka_task s' \<and>
     saw ''key'' 5 {CTRL_READY} inp"
proof -
  let ?a = "(''192.168.1.20'', 32108)"
  obtain w1 w2 where w: "parse_control ''key'' w1 = Inr (CTRL_REPLY, [])" "parse_control ''key'' w2 = Inr (CTRL_READY, [])"
    using build_parse_control [of "[]" "''key''" CTRL_REPLY] build_parse_control [of "[]" "''key''" CTRL_READY]
    by (auto simp: ctrl_defs)
  let ?inp = "[(1, Some (w1, ?a)), (2, Some (w1, ?a)), (3, Some (w2, ?a))]"
  have ip: "ipv4_literal ''192.168.1.20''" by code_simp
  have f: "skey fresh_sample = ''key''" "did_blob fresh_sample = [1, 2, 3]" "camera_ip fresh_sample = ''192.168.1.20''"
    "ka_interval fresh_sample = 1" "expect_ready_reply fresh_sample"
    by (simp_all add: fresh_sample_def new_session_def)
  let ?s0 = "fresh_sample\<lparr>transport := True\<rparr>"
  obtain s1 where d: "discover_peer 5 ?inp ?s0 = (Done ?a, tl ?inp, s1)"
    using w f by (simp add: discover_peer_def build_control_def to_bytes_be_def sendto_def keepsD [OF keeps_send_all])
  have k: "keeps ?s0 s1" using discover_peer_inv [OF d] by simp
  obtain rest s2 where h: "do_handshake 5 ?a (tl ?inp) (s1\<lparr>peer := Some ?a\<rparr>) = (Done (), rest, s2)"
    using do_handshake_done [of 5 "tl ?inp" "s1\<lparr>peer := Some ?a\<rparr>" ?a] w f keepsD(1,2) [OF k] by (auto simp: packet_type_def)
  obtain s' where c: "ptz_connect (\<lambda>_. None) 0 5 ?inp fresh_sample = (Done (), rest, s')"
    using d h ip f by (auto simp: ptz_connect_def resolve_camera_ip_def Let_def)
  show ?thesis
    using ptz_connect_outcomes [where lookup = "\<lambda>_. None" and ?t0.0 = 0 and timeout = 5 and inp = ?inp and s = fresh_sample] c f
    by (intro exI [of _ ?inp] exI [of _ rest] exI [of _ s']) (simp add: c)
qed

text \<open>
  C34 [ptz_handshake_completes]
  A camera that answers is enough: when a reply packet and a ready packet arrive before the deadline,
  in either order and among whatever else, garbage and other devices' packets included, the
  handshake completes, provided no datagram raises IndexError in the control parser.
\<close>

theorem ptz_handshake_completes:
  assumes "in_time d inp" "\<not> poisoned (skey s) inp" "length (did_blob s) < 65536"
    and "saw (skey s) d {CTRL_REPLY} inp" "saw (skey s) d {CTRL_READY} inp"
  shows "\<exists>rest s'. do_handshake d to inp s = (Done (), rest, s')"
  using assms by (rule do_handshake_done)

definition sample_session :: ptz_session where
  "sample_session = (new_session ''key'' [1, 2, 3] ''192.168.1.20'' None)\<lparr>peer := Some (''192.168.1.20'', 32108), transport := True\<rparr>"

theorem ptz_handshake_completes_witness:
  "\<exists>w1 w2 rest s'. do_handshake 5 (''192.168.1.20'', 32108) [(1, Some (w1, (''192.168.1.20'', 9))), (2, None), (3, Some (w2, (''192.168.1.20'', 9)))]
     sample_session = (Done (), rest, s')"
proof -
  obtain w1 w2 where w: "parse_control ''key'' w1 = Inr (CTRL_REPLY, [])" "parse_control ''key'' w2 = Inr (CTRL_READY, [])"
    using build_parse_control [of "[]" "''key''" CTRL_REPLY] build_parse_control [of "[]" "''key''" CTRL_READY]
    by (auto simp: ctrl_defs)
  have f: "skey sample_session = ''key''" "length (did_blob sample_session) < 65536"
    by (simp_all add: sample_session_def new_session_def)
  have "\<exists>rest s'. do_handshake 5 (''192.168.1.20'', 32108) [(1, Some (w1, (''192.168.1.20'', 9))), (2, None), (3, Some (w2, (''192.168.1.20'', 9)))]
     sample_session = (Done (), rest, s')"
    by (rule ptz_handshake_completes) (use f w in \<open>simp_all add: packet_type_def\<close>)
  then show ?thesis by blast
qed

text \<open>
  One datagram of one byte ends the handshake: for every key there is a byte that, sent by any host
  before the deadline, makes it fail with the parser's IndexError, which no handler of the loop catches.
\<close>

theorem ptz_handshake_spoofed:
  assumes "now < d" "length (did_blob s) < 65536"
  shows "\<exists>b. \<forall>a. fst (do_handshake d to ((now, Some ([b], a)) # inp) s) = Failed (Wire Index_Error)"
proof -
  obtain b where "cs2_encrypt (skey s) [PPPP_MAGIC] = [b]"
    by (cases "cs2_encrypt (skey s) [PPPP_MAGIC]") (auto dest: arg_cong [where f = length])
  then have "cs2_decrypt (skey s) [b] = [PPPP_MAGIC]" using cs2_inverse(1) [of "skey s" "[PPPP_MAGIC]"] by simp
  then have "parse_control (skey s) [b] = Inl Index_Error" by (simp add: parse_control_def)
  then show ?thesis using assms
    by (intro exI [of _ b]) (auto simp: do_handshake_def build_control_def to_bytes_be_def Let_def sendto_def)
qed

theorem ptz_handshake_spoofed_witness:
  "\<exists>b. fst (do_handshake 5 (''192.168.1.20'', 32108) [(1, Some ([b], (''10.0.0.66'', 4444)))] sample_session) = Failed (Wire Index_Error)"
  using ptz_handshake_spoofed [of 1 5 sample_session "(''192.168.1.20'', 32108)" "[]"]
  by (auto simp: sample_session_def new_session_def)

text \<open>
  A command that is sent reaches the other end: it takes the next id and sequence number, adds one
  datagram for the adopted peer, and a receiver with the same key that gets this datagram, after any
  number of control packets, returns the same command, id and body.
\<close>

theorem ptz_command_delivered:
  assumes "send_ioctl iotype body s = (Inr i, s')" "wf_json body" "now < deadline" "in_time deadline noise"
    and "\<forall>x \<in> set noise. \<exists>wire a. snd x = Some (wire, a) \<and> \<not> is_drw (deframe_drw (skey s) wire)"
  shows "i = lumi_id s \<and> lumi_id s' = lumi_id s + 1 \<and> drw_seq s' = drw_seq s + 1 \<and>
    (\<exists>wire a. peer s = Some a \<and> sent_log s' = sent_log s @ [(wire, a)] \<and>
       recv_ioctl (skey s) deadline (noise @ [(now, Some (wire, a))]) = (Done (Some (iotype, i, body)), []))"
proof -
  obtain a where a: "peer s = Some a" using assms(1) by (auto simp: send_ioctl_def split: option.splits)
  from assms(1) obtain io wire where w: "ioctl_build iotype body (lumi_id s) = Some io"
    "build_ioctl_packet (skey s) (drw_seq s) io = Some wire" "i = lumi_id s"
    "s' = sendto wire a (s\<lparr>lumi_id := lumi_id s + 1, drw_seq := drw_seq s + 1\<rparr>)"
    by (auto simp: send_ioctl_def a Let_def split: option.splits if_splits)
  obtain inner where i: "wrap_ioctl (drw_seq s) io = Some inner" "wire = cs2_encrypt (skey s) inner"
    using w(2) by (auto simp: build_ioctl_packet_def frame_drw_def)
  have p: "ioctl_parse io = Inr (iotype, lumi_id s, body)"
    using ioctl_wire_aux [OF assms(2) w(1)] .
  have "recv_ioctl (skey s) deadline [(now, Some (wire, a))] = (Done (Some (iotype, i, body)), [])"
    using wrap_ioctl_parts [OF i(1)] p w(3) assms(3) by (simp add: i(2) deframe_drw_def is_drw_def)
  then have "recv_ioctl (skey s) deadline (noise @ [(now, Some (wire, a))]) = (Done (Some (iotype, i, body)), [])"
    using assms(4,5)
  proof (induction noise)
    case (Cons x noise)
    then show ?case by (cases x) (auto simp: Let_def)
  qed simp
  then show ?thesis using a w(3,4) by (auto simp: sendto_def)
qed

theorem ptz_command_delivered_witness:
  "\<exists>s' wire a. send_ioctl 4138 (JObj [(''action'', JStr ''up'')]) sample_session = (Inr 1, s') \<and>
     recv_ioctl ''key'' 5 [(1, Some (wire, a))] = (Done (Some (4138, 1, JObj [(''action'', JStr ''up'')])), [])"
proof -
  let ?b = "JObj [(''action'', JStr ''up'')]"
  obtain io where io: "ioctl_build 4138 ?b 1 = Some io" "length io = 31"
    by (simp add: ioctl_build_def Let_def to_bytes_le_def sample_body IOCTL_TAG_def)
  then obtain wire where "build_ioctl_packet ''key'' 0 io = Some wire"
    by (simp add: build_ioctl_packet_def wrap_ioctl_def Let_def to_bytes_be_def)
  then obtain s' where s': "send_ioctl 4138 ?b sample_session = (Inr 1, s')"
    using io(1) by (simp add: send_ioctl_def sample_session_def new_session_def)
  moreover have "wf_json ?b" by (simp add: dict_ok_def)
  ultimately show ?thesis
    using ptz_command_delivered [of 4138 ?b sample_session 1 s' 1 5 "[]"]
    by (auto simp: sample_session_def new_session_def)
qed

end
