(* ===== verification/Ptz_Control.thy ===== *)
theory Ptz_Control
  imports Protocol Ptz_Wire
begin

text \<open>
  \<open>ptz/commands.py\<close>, \<open>ptz/bootstrap.py\<close> and \<open>ptz/controller.py\<close>: the command vocabulary, the
  credentials, and the controller that keeps one warm session per camera. Sessions are numbered;
  \<open>open_sess\<close> are those connected and not closed. What the network answers is an argument of each
  operation. Zoom factors are rational numbers (a float is one); formatting to one decimal rounds
  half to even, as Python does on the exact value.
\<close>

section \<open>Commands\<close>

definition AUTH_IOTYPE :: nat where "AUTH_IOTYPE = 4096"
definition AUTH_REPLY_IOTYPE :: nat where "AUTH_REPLY_IOTYPE = 4097"
definition PTZ_IOTYPE :: nat where "PTZ_IOTYPE = 4138"
definition POSITION_IOTYPE :: nat where "POSITION_IOTYPE = 4140"
definition ZOOM_IOTYPE :: nat where "ZOOM_IOTYPE = 4142"
definition STOP_ACTION :: string where "STOP_ACTION = ''stop''"
definition PAN_TILT :: string where "PAN_TILT = ''pan_tilt''"
definition ZOOM :: string where "ZOOM = ''zoom''"
definition PRESETS :: string where "PRESETS = ''presets''"
definition ZOOM_MIN :: rat where "ZOOM_MIN = 1"
definition ZOOM_MAX :: rat where "ZOOM_MAX = 9"

definition round_half_even :: "rat \<Rightarrow> int" where
  "round_half_even r =
     (let f = \<lfloor>r\<rfloor>; d = r - of_int f
      in if d < 1/2 then f else if d > 1/2 then f + 1 else if even f then f else f + 1)"

definition format_tenths :: "rat \<Rightarrow> string" where
  "format_tenths r =
     (let t = round_half_even (r * 10); n = nat \<bar>t\<bar>
      in (if r < 0 then ''-'' else []) @ nat_text (n div 10) @ ''.'' @ nat_text (n mod 10))"

definition zoom_body :: "rat \<Rightarrow> json" where
  "zoom_body scale = JObj [(''zoom'', JStr (format_tenths scale))]"

definition position_body :: "string \<Rightarrow> json" where
  "position_body position = JObj [(''position'', JStr position)]"

section \<open>Credentials\<close>

datatype boot_error = Key_Error string | Attribute_Error | Did_Value_Error | Did_Overflow

definition ljust :: "nat \<Rightarrow> bytes \<Rightarrow> bytes" where
  "ljust n bs = bs @ replicate (n - length bs) 0"

definition encode_did :: "string \<Rightarrow> boot_error + bytes" where
  "encode_did p2p_id =
     (case split_on (CHR ''-'') p2p_id of
        [prefix, serial, suffix] \<Rightarrow>
          (case int_of_string serial of
             None \<Rightarrow> Inl Did_Value_Error
           | Some i \<Rightarrow>
               if i < 0 then Inl Did_Overflow
               else (case to_bytes_be 4 (nat i) of
                       None \<Rightarrow> Inl Did_Overflow
                     | Some b \<Rightarrow> Inr (ljust 8 (utf8_encode prefix) @ b @ ljust 8 (utf8_encode suffix))))
      | _ \<Rightarrow> Inl Did_Value_Error)"

record creds =
  cipher_key :: string
  p2p_id :: string
  cred_did_blob :: bytes
  app_pub_hex :: string
  sign :: json
  sign_time :: json
  dev_pub_hex :: json

text \<open>\<open>d[k]\<close>, and the method call on its value that needs a string.\<close>

definition item :: "obj \<Rightarrow> string \<Rightarrow> boot_error + json" where
  "item d k = (case dget d k of None \<Rightarrow> Inl (Key_Error k) | Some v \<Rightarrow> Inr v)"

definition item_str :: "obj \<Rightarrow> string \<Rightarrow> boot_error + string" where
  "item_str d k = (case item d k of Inl e \<Rightarrow> Inl e | Inr (JStr s) \<Rightarrow> Inr s | Inr _ \<Rightarrow> Inl Attribute_Error)"

text \<open>
  \<open>info\<close> and \<open>sig\<close> are what the cloud answered, \<open>pub\<close> the public half of the fresh key pair. The id is
  encoded after the second answer is in.
\<close>

definition bootstrap :: "obj \<Rightarrow> string \<Rightarrow> obj \<Rightarrow> boot_error + creds" where
  "bootstrap info pub sig =
     (case item_str info ''initStringApp'' of Inl e \<Rightarrow> Inl e
      | Inr init \<Rightarrow>
     (case item info ''p2pId'' of Inl e \<Rightarrow> Inl e
      | Inr pid \<Rightarrow>
     (case pid of
        JStr p \<Rightarrow>
          (case encode_did p of Inl e \<Rightarrow> Inl e
           | Inr blob \<Rightarrow>
          (case item sig ''sign'' of Inl e \<Rightarrow> Inl e
           | Inr sg \<Rightarrow>
          (case item sig ''time'' of Inl e \<Rightarrow> Inl e
           | Inr tm \<Rightarrow>
              Inr \<lparr>cipher_key = last (split_on (CHR '':'') init), p2p_id = p, cred_did_blob = blob, app_pub_hex = pub,
                sign = sg, sign_time = tm, dev_pub_hex = jget sig ''p2pDevPublicKey'' (JStr [])\<rparr>)))
      | _ \<Rightarrow> Inl Attribute_Error)))"

definition auth_body :: "creds \<Rightarrow> string \<Rightarrow> json" where
  "auth_body c did = JObj [(''app_public_key'', JStr (app_pub_hex c)), (''app_sign'', sign c),
     (''device_id'', JStr did), (''timestamp'', sign_time c)]"

definition build_auth_ioctl :: "creds \<Rightarrow> string \<Rightarrow> nat \<Rightarrow> bytes option" where
  "build_auth_ioctl c did ident = ioctl_build AUTH_IOTYPE (auth_body c did) ident"

section \<open>The controller\<close>

record controller =
  features :: "string set"
  have_creds :: bool
  session :: "nat option"
  open_sess :: "nat list"
  fresh_sess :: nat
  idle_timer :: bool
  reconnect_task :: bool
  closing :: bool
  current_zoom :: rat
  commands :: "(nat \<times> nat \<times> json) list"

definition new_controller :: "string set \<Rightarrow> controller" where
  "new_controller fs = \<lparr>features = fs, have_creds = False, session = None, open_sess = [], fresh_sess = 0,
     idle_timer = False, reconnect_task = False, closing = False, current_zoom = ZOOM_MIN, commands = []\<rparr>"

datatype ctl_error =
    No_Lan_Ip
  | Auth_Failed
  | Boot_Failed
  | Transport_Failed
  | Command_Failed
  | Reply_Attribute_Error
  | Not_Supported

text \<open>
  One attempt to connect: no address, the connect or the AUTH exchange raises PptzTimeout or OSError
  before or after the session is open, or an AUTH reply (None: no answer in time).
\<close>

datatype attempt = No_Ip | Connect_Raises | Auth_Raises | Replied "(nat \<times> nat \<times> json) option"

definition close_sess :: "nat \<Rightarrow> controller \<Rightarrow> controller" where
  "close_sess s c = c\<lparr>open_sess := filter (\<lambda>x. x \<noteq> s) (open_sess c)\<rparr>"

definition connect_and_auth :: "attempt \<Rightarrow> controller \<Rightarrow> (ctl_error + nat option) \<times> controller" where
  "connect_and_auth att c0 =
     (let s = fresh_sess c0; c1 = c0\<lparr>fresh_sess := s + 1\<rparr>; c = c1\<lparr>open_sess := s # open_sess c0\<rparr>
      in case att of
           No_Ip \<Rightarrow> (Inl No_Lan_Ip, c0)
         | Connect_Raises \<Rightarrow> (Inl Transport_Failed, c1)
         | Auth_Raises \<Rightarrow> (Inl Transport_Failed, c)
         | Replied reply \<Rightarrow>
             (case reply of
                None \<Rightarrow> (Inr None, close_sess s c)
              | Some (ty, ident, body) \<Rightarrow>
                  if ty \<noteq> AUTH_REPLY_IOTYPE then (Inr None, close_sess s c)
                  else (case body of
                          JObj d \<Rightarrow> if eq_int (jget d ''code'' JNull) 0 then (Inr (Some s), c) else (Inr None, close_sess s c)
                        | _ \<Rightarrow> (Inl Reply_Attribute_Error, c))))"

text \<open>\<open>boot\<close> says whether the bootstrap succeeds when it is needed.\<close>

definition ensure_creds :: "bool \<Rightarrow> controller \<Rightarrow> (ctl_error + unit) \<times> controller" where
  "ensure_creds boot c =
     (if have_creds c then (Inr (), c)
      else if boot then (Inr (), c\<lparr>have_creds := True\<rparr>) else (Inl Boot_Failed, c))"

type_synonym net = "bool \<times> attempt \<times> bool \<times> attempt"

definition ensure_session :: "net \<Rightarrow> controller \<Rightarrow> (ctl_error + nat) \<times> controller" where
  "ensure_session net c0 =
     (case net of (boot1, att1, boot2, att2) \<Rightarrow>
      case (case session c0 of Some s \<Rightarrow> if s \<in> set (open_sess c0) then Some s else None | None \<Rightarrow> None) of
        Some s \<Rightarrow> (Inr s, c0)
      | None \<Rightarrow>
          (case ensure_creds boot1 c0 of (Inl e, c) \<Rightarrow> (Inl e, c)
           | (Inr u, c) \<Rightarrow>
          (case connect_and_auth att1 c of (Inl e, c) \<Rightarrow> (Inl e, c)
           | (Inr (Some s), c) \<Rightarrow> (Inr s, c\<lparr>session := Some s\<rparr>)
           | (Inr None, c) \<Rightarrow>
          (case ensure_creds boot2 (c\<lparr>have_creds := False\<rparr>) of (Inl e, c) \<Rightarrow> (Inl e, c)
           | (Inr u, c) \<Rightarrow>
          (case connect_and_auth att2 c of (Inl e, c) \<Rightarrow> (Inl e, c)
           | (Inr None, c) \<Rightarrow> (Inl Auth_Failed, c)
           | (Inr (Some s), c) \<Rightarrow> (Inr s, c\<lparr>session := Some s\<rparr>))))))"

definition discard_session :: "controller \<Rightarrow> controller" where
  "discard_session c0 =
     (let c = c0\<lparr>idle_timer := False\<rparr>
      in case session c of None \<Rightarrow> c | Some s \<Rightarrow> (close_sess s c)\<lparr>session := None\<rparr>)"

definition schedule_eager_reconnect :: "controller \<Rightarrow> controller" where
  "schedule_eager_reconnect c = (if closing c then c else c\<lparr>reconnect_task := True\<rparr>)"

definition reset_idle :: "controller \<Rightarrow> controller" where
  "reset_idle c = c\<lparr>idle_timer := True\<rparr>"

text \<open>\<open>sends\<close> says whether the command's own exchange went through; \<open>ack\<close> is its answer.\<close>

definition send_command :: "net \<Rightarrow> bool \<Rightarrow> 'r \<Rightarrow> nat \<Rightarrow> json \<Rightarrow> bool \<Rightarrow> controller \<Rightarrow> (ctl_error + 'r) \<times> controller" where
  "send_command net sends ack iotype body recycle_after c0 =
     (case ensure_session net c0 of
        (Inl Transport_Failed, c) \<Rightarrow> (Inl Command_Failed, c)
      | (Inl e, c) \<Rightarrow> (Inl e, c)
      | (Inr s, c) \<Rightarrow>
          if \<not> sends then (Inl Command_Failed, c)
          else
            let c = c\<lparr>commands := commands c @ [(s, iotype, body)]\<rparr>
            in (Inr ack, if recycle_after then schedule_eager_reconnect (discard_session c) else reset_idle c))"

definition eager_reconnect :: "net \<Rightarrow> controller \<Rightarrow> controller" where
  "eager_reconnect net c0 =
     (if closing c0 \<or> session c0 \<noteq> None then c0\<lparr>reconnect_task := False\<rparr>
      else case ensure_session net c0 of
             (Inl e, c) \<Rightarrow> c\<lparr>reconnect_task := False\<rparr>
           | (Inr s, c) \<Rightarrow> (reset_idle c)\<lparr>reconnect_task := False\<rparr>)"

definition idle_teardown :: "controller \<Rightarrow> controller" where
  "idle_teardown c =
     (if closing c then c
      else case session c of None \<Rightarrow> c | Some s \<Rightarrow> (close_sess s c)\<lparr>session := None\<rparr>)"

definition async_shutdown :: "controller \<Rightarrow> controller" where
  "async_shutdown c0 =
     (let c = c0\<lparr>closing := True, idle_timer := False, reconnect_task := False\<rparr>
      in case session c of None \<Rightarrow> c | Some s \<Rightarrow> (close_sess s c)\<lparr>session := None\<rparr>)"

section \<open>The movements\<close>

definition action_body :: "string \<Rightarrow> json" where
  "action_body a = JObj [(''action'', JStr a)]"

definition ptz_stop :: "net \<Rightarrow> bool \<Rightarrow> controller \<Rightarrow> (ctl_error + unit) \<times> controller" where
  "ptz_stop net sends c = send_command net sends () PTZ_IOTYPE (action_body STOP_ACTION) False c"

definition ptz_move :: "net \<Rightarrow> bool \<Rightarrow> net \<Rightarrow> bool \<Rightarrow> string \<Rightarrow> bool \<Rightarrow> bool \<Rightarrow> controller \<Rightarrow> (ctl_error + unit) \<times> controller" where
  "ptz_move net sends net2 sends2 direction cont timed c =
     (if PAN_TILT \<notin> features c then (Inl Not_Supported, c)
      else if \<not> cont then send_command net sends () PTZ_IOTYPE (action_body direction) False c
      else case send_command net sends () PTZ_IOTYPE (action_body (direction @ ''_always'')) False c of
             (Inl e, c) \<Rightarrow> (Inl e, c)
           | (Inr u, c) \<Rightarrow> if timed then ptz_stop net2 sends2 c else (Inr (), c))"

definition ptz_zoom :: "net \<Rightarrow> bool \<Rightarrow> rat \<Rightarrow> controller \<Rightarrow> (ctl_error + unit) \<times> controller" where
  "ptz_zoom net sends scale0 c =
     (if ZOOM \<notin> features c then (Inl Not_Supported, c)
      else
        let scale = max ZOOM_MIN (min ZOOM_MAX scale0)
        in case send_command net sends () ZOOM_IOTYPE (zoom_body scale) False c of
             (Inl e, c) \<Rightarrow> (Inl e, c)
           | (Inr u, c) \<Rightarrow> (Inr (), c\<lparr>current_zoom := of_int (round_half_even (scale * 10)) / 10\<rparr>))"

definition zoom_step :: "net \<Rightarrow> bool \<Rightarrow> rat \<Rightarrow> controller \<Rightarrow> (ctl_error + unit) \<times> controller" where
  "zoom_step net sends delta c = ptz_zoom net sends (current_zoom c + delta) c"

definition goto_preset :: "net \<Rightarrow> bool \<Rightarrow> string \<Rightarrow> controller \<Rightarrow> (ctl_error + unit) \<times> controller" where
  "goto_preset net sends position c =
     (if PRESETS \<notin> features c then (Inl Not_Supported, c)
      else send_command net sends () POSITION_IOTYPE (position_body position) True c)"

section \<open>One warm session\<close>

datatype ctl_event =
    Move net bool net bool string bool bool
  | Stop net bool
  | Zoom net bool rat
  | Zoom_Step net bool rat
  | Preset net bool string
  | Eager net
  | Idle
  | Shutdown

fun ctl_step :: "ctl_event \<Rightarrow> controller \<Rightarrow> controller" where
  "ctl_step (Move net sends net2 sends2 d cont timed) c = snd (ptz_move net sends net2 sends2 d cont timed c)"
| "ctl_step (Stop net sends) c = snd (ptz_stop net sends c)"
| "ctl_step (Zoom net sends z) c = snd (ptz_zoom net sends z c)"
| "ctl_step (Zoom_Step net sends z) c = snd (zoom_step net sends z c)"
| "ctl_step (Preset net sends p) c = snd (goto_preset net sends p c)"
| "ctl_step (Eager net) c = eager_reconnect net c"
| "ctl_step Idle c = idle_teardown c"
| "ctl_step Shutdown c = async_shutdown c"

text \<open>The attempt neither raises once the session is open nor gets an AUTH reply whose body is no object.\<close>

fun clean_attempt :: "attempt \<Rightarrow> bool" where
  "clean_attempt Auth_Raises = False"
| "clean_attempt (Replied (Some (ty, i, JObj d))) = True"
| "clean_attempt (Replied (Some (ty, i, body))) = (ty \<noteq> AUTH_REPLY_IOTYPE)"
| "clean_attempt att = True"

definition clean_net :: "net \<Rightarrow> bool" where
  "clean_net net = (case net of (b1, a1, b2, a2) \<Rightarrow> clean_attempt a1 \<and> clean_attempt a2)"

fun clean_event :: "ctl_event \<Rightarrow> bool" where
  "clean_event (Move net sends net2 sends2 d cont timed) = (clean_net net \<and> clean_net net2)"
| "clean_event (Stop net sends) = clean_net net"
| "clean_event (Zoom net sends z) = clean_net net"
| "clean_event (Zoom_Step net sends z) = clean_net net"
| "clean_event (Preset net sends p) = clean_net net"
| "clean_event (Eager net) = clean_net net"
| "clean_event e = True"

definition one_session :: "controller \<Rightarrow> bool" where
  "one_session c = (open_sess c = (case session c of None \<Rightarrow> [] | Some s \<Rightarrow> [s]) \<and> (\<forall>s. session c = Some s \<longrightarrow> s < fresh_sess c))"

lemma connect_and_auth_inv:
  assumes "one_session c" "session c = None" "clean_attempt att" "connect_and_auth att c = (r, c')"
  shows "session c' = None \<and> current_zoom c' = current_zoom c \<and> features c' = features c \<and> closing c' = closing c \<and> commands c' = commands c \<and>
    (case r of Inr (Some s) \<Rightarrow> open_sess c' = [s] \<and> s < fresh_sess c' | _ \<Rightarrow> one_session c')"
  using assms
  by (cases att rule: clean_attempt.cases)
    (auto simp: connect_and_auth_def Let_def one_session_def close_sess_def split: if_splits)

lemma connect_keeps:
  "connect_and_auth att c = (r, c') \<Longrightarrow> session c' = session c \<and> current_zoom c' = current_zoom c \<and> features c' = features c \<and>
     closing c' = closing c \<and> commands c' = commands c"
  by (auto simp: connect_and_auth_def Let_def close_sess_def split: attempt.splits option.splits prod.splits json.splits if_splits)

lemma ensure_creds_keeps:
  "ensure_creds b c = (r, c') \<Longrightarrow> session c' = session c \<and> open_sess c' = open_sess c \<and> fresh_sess c' = fresh_sess c \<and>
     current_zoom c' = current_zoom c \<and> features c' = features c \<and> closing c' = closing c \<and> commands c' = commands c"
  by (auto simp: ensure_creds_def split: if_splits)

text \<open>What any call of the session setup leaves alone.\<close>

definition same_rest :: "controller \<Rightarrow> controller \<Rightarrow> bool" where
  "same_rest c c' = (current_zoom c' = current_zoom c \<and> features c' = features c \<and> closing c' = closing c)"

lemma ensure_session_keeps:
  assumes "ensure_session net c = (r, c')"
  shows "same_rest c c' \<and> commands c' = commands c"
  using assms
  by (auto simp: ensure_session_def same_rest_def split: prod.splits sum.splits option.splits if_splits
      dest!: ensure_creds_keeps connect_keeps)

lemma ensure_session_inv:
  assumes "one_session c" "clean_net net" "ensure_session net c = (r, c')"
  shows "one_session c' \<and> (\<forall>s. r = Inr s \<longrightarrow> session c' = Some s)"
proof (cases "session c")
  case (Some s)
  then have "s \<in> set (open_sess c)" using assms(1) by (simp add: one_session_def)
  then show ?thesis using assms Some by (auto simp: ensure_session_def split: prod.splits)
next
  case None
  obtain b1 a1 b2 a2 where net: "net = (b1, a1, b2, a2)" by (metis prod.exhaust)
  have cl: "clean_attempt a1" "clean_attempt a2" using assms(2) net by (simp_all add: clean_net_def)
  obtain r1 c1 where e1: "ensure_creds b1 c = (r1, c1)" by force
  note k1 = ensure_creds_keeps [OF e1]
  have o1: "one_session c1" "session c1 = None" using k1 assms(1) None by (simp_all add: one_session_def)
  obtain r2 c2 where e2: "connect_and_auth a1 c1 = (r2, c2)" by force
  note k2 = connect_and_auth_inv [OF o1 cl(1) e2]
  obtain r3 c3 where e3: "ensure_creds b2 (c2\<lparr>have_creds := False\<rparr>) = (r3, c3)" by force
  note k3 = ensure_creds_keeps [OF e3]
  obtain r4 c4 where e4: "connect_and_auth a2 c3 = (r4, c4)" by force
  show ?thesis
  proof (cases r1)
    case (Inl e)
    then show ?thesis using assms(3) None net e1 o1 by (auto simp: ensure_session_def)
  next
    case r1: (Inr u)
    show ?thesis
    proof (cases "r2 = Inr None")
      case False
      then show ?thesis using assms(3) None net e1 r1 e2 k2
        by (cases r2) (auto simp: ensure_session_def one_session_def split: option.splits)
    next
      case True
      then have o3: "one_session c3" "session c3 = None" using k2 k3 by (simp_all add: one_session_def)
      note k4 = connect_and_auth_inv [OF o3 cl(2) e4]
      show ?thesis using assms(3) None net e1 r1 e2 True e3 e4 k4 o3
        by (cases r3; cases r4) (auto simp: ensure_session_def one_session_def split: option.splits)
    qed
  qed
qed

lemma close_current: "one_session c \<Longrightarrow> session c = Some s \<Longrightarrow> open_sess (close_sess s c) = []"
  by (simp add: one_session_def close_sess_def)

lemma one_session_simps [simp]:
  "one_session (c\<lparr>current_zoom := z\<rparr>) = one_session c" "one_session (reset_idle c) = one_session c"
  "one_session (schedule_eager_reconnect c) = one_session c" "one_session (c\<lparr>commands := l\<rparr>) = one_session c"
  "one_session (c\<lparr>reconnect_task := b\<rparr>) = one_session c" "one_session (c\<lparr>idle_timer := b\<rparr>) = one_session c"
  "one_session (c\<lparr>closing := b\<rparr>) = one_session c"
  by (simp_all add: one_session_def reset_idle_def schedule_eager_reconnect_def)

lemma one_session_close: "one_session c \<Longrightarrow> session c = Some s \<Longrightarrow> one_session ((close_sess s c)\<lparr>session := None\<rparr>)"
  by (simp add: one_session_def close_sess_def)

lemma one_session_discard: "one_session c \<Longrightarrow> one_session (discard_session c)"
  using one_session_close [of "c\<lparr>idle_timer := False\<rparr>"] by (simp add: discard_session_def Let_def split: option.splits)

lemma same_rest_simps [simp]:
  "current_zoom (discard_session c) = current_zoom c" "features (discard_session c) = features c"
  "closing (discard_session c) = closing c" "commands (discard_session c) = commands c"
  "current_zoom (reset_idle c) = current_zoom c" "features (reset_idle c) = features c"
  "closing (reset_idle c) = closing c" "commands (reset_idle c) = commands c"
  "current_zoom (schedule_eager_reconnect c) = current_zoom c" "features (schedule_eager_reconnect c) = features c"
  "closing (schedule_eager_reconnect c) = closing c" "commands (schedule_eager_reconnect c) = commands c"
  by (simp_all add: discard_session_def reset_idle_def schedule_eager_reconnect_def close_sess_def Let_def split: option.splits)

lemma send_command_cases:
  assumes "send_command net sends ack ty body rcy c = (r, c')" "ensure_session net c = (r1, c1)"
  shows "(\<exists>e. r = Inl e \<and> c' = c1) \<or>
    (\<exists>s. r1 = Inr s \<and> r = Inr ack \<and> c' = (let c2 = c1\<lparr>commands := commands c1 @ [(s, ty, body)]\<rparr>
       in if rcy then schedule_eager_reconnect (discard_session c2) else reset_idle c2))"
proof (cases r1)
  case (Inl e)
  then show ?thesis using assms by (cases e) (auto simp: send_command_def)
next
  case (Inr s)
  then show ?thesis using assms by (cases sends) (auto simp: send_command_def Let_def)
qed

lemma send_command_inv:
  assumes "one_session c" "clean_net net" "send_command net sends ack ty body rcy c = (r, c')"
  shows "one_session c'"
proof -
  obtain r1 c1 where e: "ensure_session net c = (r1, c1)" by force
  then have "one_session c1" using ensure_session_inv [OF assms(1,2) e] by simp
  then show ?thesis using send_command_cases [OF assms(3) e] by (auto simp: Let_def one_session_discard)
qed

lemma send_command_keeps:
  assumes "send_command net sends ack ty body rcy c = (r, c')"
  shows "same_rest c c' \<and> (case r of Inl e \<Rightarrow> commands c' = commands c | Inr a \<Rightarrow> \<exists>s. commands c' = commands c @ [(s, ty, body)])"
proof -
  obtain r1 c1 where e: "ensure_session net c = (r1, c1)" by force
  note k = ensure_session_keeps [OF e]
  from send_command_cases [OF assms e] show ?thesis
  proof
    assume "\<exists>e. r = Inl e \<and> c' = c1"
    then show ?thesis using k by auto
  next
    assume "\<exists>s. r1 = Inr s \<and> r = Inr ack \<and> c' = (let c2 = c1\<lparr>commands := commands c1 @ [(s, ty, body)]\<rparr>
       in if rcy then schedule_eager_reconnect (discard_session c2) else reset_idle c2)"
    then obtain s where s: "r = Inr ack" "c' = (let c2 = c1\<lparr>commands := commands c1 @ [(s, ty, body)]\<rparr>
       in if rcy then schedule_eager_reconnect (discard_session c2) else reset_idle c2)" by blast
    have "commands c' = commands c1 @ [(s, ty, body)]" "same_rest c1 c'"
      by (simp_all add: s(2) same_rest_def Let_def)
    then show ?thesis using k s(1) by (simp add: same_rest_def)
  qed
qed

lemma send_command_snd:
  "one_session c \<Longrightarrow> clean_net net \<Longrightarrow> one_session (snd (send_command net sends ack ty body rcy c))"
  by (metis prod.collapse send_command_inv)

lemma ptz_zoom_inv:
  assumes "one_session c" "clean_net net"
  shows "one_session (snd (ptz_zoom net sends z c))"
proof -
  obtain r c' where e: "send_command net sends () ZOOM_IOTYPE (zoom_body (max ZOOM_MIN (min ZOOM_MAX z))) False c = (r, c')" by force
  then have "one_session c'" by (rule send_command_inv [OF assms])
  then show ?thesis using e assms by (cases r) (simp_all add: ptz_zoom_def Let_def)
qed

lemma ptz_move_inv:
  assumes "one_session c" "clean_net net" "clean_net net2"
  shows "one_session (snd (ptz_move net sends net2 sends2 d cont timed c))"
proof -
  obtain r c' where e: "send_command net sends () PTZ_IOTYPE (action_body (d @ ''_always'')) False c = (r, c')" by force
  then have "one_session c'" by (rule send_command_inv [OF assms(1,2)])
  then show ?thesis using e assms
    by (cases r) (simp_all add: ptz_move_def ptz_stop_def send_command_snd)
qed

lemma ctl_step_inv:
  assumes "one_session c" "clean_event e"
  shows "one_session (ctl_step e c)"
proof (cases e)
  case (Eager net)
  obtain r c' where en: "ensure_session net c = (r, c')" by force
  then show ?thesis using assms Eager ensure_session_inv [of c net r c']
    by (cases r) (simp_all add: eager_reconnect_def)
next
  case Idle
  then show ?thesis using assms one_session_close by (auto simp: idle_teardown_def split: option.splits)
next
  case Shutdown
  then show ?thesis using assms(1) one_session_close [of "c\<lparr>closing := True, idle_timer := False, reconnect_task := False\<rparr>"]
    by (auto simp: async_shutdown_def Let_def split: option.splits)
qed (use assms in \<open>simp_all add: ptz_move_inv ptz_zoom_inv zoom_step_def ptz_stop_def goto_preset_def send_command_snd\<close>)

text \<open>
  C20 [one_warm_session]
  The controller never holds more than one camera session and loses none: over any sequence of
  commands, background reconnects, idle teardowns and shutdowns, the sessions that are open are
  exactly the current one, provided no AUTH exchange raises after its session was opened or is
  answered with an AUTH reply whose body is no object.
\<close>

theorem one_warm_session:
  assumes "\<forall>e \<in> set es. clean_event e"
  shows "open_sess (fold ctl_step es (new_controller fs)) =
    (case session (fold ctl_step es (new_controller fs)) of None \<Rightarrow> [] | Some s \<Rightarrow> [s])"
proof -
  have "one_session c \<Longrightarrow> \<forall>e \<in> set es. clean_event e \<Longrightarrow> one_session (fold ctl_step es c)" for c
    by (induction es arbitrary: c) (simp_all add: ctl_step_inv)
  moreover have "one_session (new_controller fs)" by (simp add: one_session_def new_controller_def)
  ultimately show ?thesis using assms by (simp add: one_session_def)
qed

definition good_net :: net where
  "good_net = (True, Replied (Some (AUTH_REPLY_IOTYPE, 1, JObj [(''code'', JInt 0)])), True, No_Ip)"

theorem one_warm_session_witness:
  "open_sess (fold ctl_step [Stop good_net True, Idle, Stop good_net True] (new_controller {})) =
   (case session (fold ctl_step [Stop good_net True, Idle, Stop good_net True] (new_controller {})) of None \<Rightarrow> [] | Some s \<Rightarrow> [s])"
  by (rule one_warm_session) (simp add: clean_net_def good_net_def AUTH_REPLY_IOTYPE_def)

text \<open>
  An AUTH reply whose body is valid JSON but no object makes the controller call \<open>get\<close> on it: the
  command fails with an AttributeError and the session that was just opened is neither closed nor
  remembered.
\<close>

theorem malformed_auth_reply_leaks:
  "\<exists>c'. send_command (True, Replied (Some (AUTH_REPLY_IOTYPE, i, JList xs)), b, a) True () t body False (new_controller fs) =
      (Inl Reply_Attribute_Error, c') \<and> session c' = None \<and> open_sess c' = [0]"
  by (simp add: send_command_def ensure_session_def new_controller_def ensure_creds_def connect_and_auth_def Let_def)

text \<open>
    Shutting down closes the session and stops every task, but a command that runs afterwards still
  connects, and the idle teardown of a controller that is closing does nothing: the session it opened
  stays open.
\<close>

theorem command_after_shutdown:
  assumes "one_session c"
  shows "open_sess (async_shutdown c) = [] \<and> session (async_shutdown c) = None \<and> closing (async_shutdown c) \<and>
    (\<exists>s. session (snd (send_command good_net True () t body False (async_shutdown c))) = Some s \<and>
       s \<in> set (open_sess (idle_teardown (snd (send_command good_net True () t body False (async_shutdown c))))))"
proof -
  have sd: "open_sess (async_shutdown c) = []" "session (async_shutdown c) = None" "closing (async_shutdown c)"
    using assms by (auto simp: async_shutdown_def Let_def one_session_def close_sess_def split: option.splits)
  moreover obtain r c1 where e: "ensure_session good_net (async_shutdown c) = (r, c1)" by force
  moreover have "\<exists>s. r = Inr s \<and> session c1 = Some s \<and> open_sess c1 = [s] \<and> closing c1"
    using e sd by (auto simp: ensure_session_def good_net_def ensure_creds_def connect_and_auth_def Let_def jget_def split: if_splits)
  ultimately show ?thesis by (auto simp: send_command_def idle_teardown_def Let_def reset_idle_def)
qed

theorem command_after_shutdown_witness:
  "open_sess (async_shutdown (new_controller {})) = []"
  using command_after_shutdown [of "new_controller {}"] by (simp add: one_session_def new_controller_def)

section \<open>Zoom\<close>

lemma round_half_even_bounds: "of_int l \<le> r \<Longrightarrow> r \<le> of_int h \<Longrightarrow> l \<le> round_half_even r \<and> round_half_even r \<le> h"
proof -
  assume a: "of_int l \<le> r" "r \<le> of_int h"
  have "l \<le> \<lfloor>r\<rfloor>" using a(1) by (simp add: le_floor_iff)
  moreover have "\<lfloor>r\<rfloor> \<le> h" using a(2) by (simp add: floor_le_iff)
  moreover have "\<lfloor>r\<rfloor> < h" if "1/2 \<le> r - of_int \<lfloor>r\<rfloor>"
  proof (rule ccontr)
    assume "\<not> \<lfloor>r\<rfloor> < h"
    then have "(of_int h :: rat) \<le> of_int \<lfloor>r\<rfloor>" by simp
    then show False using that a(2) by linarith
  qed
  ultimately show ?thesis by (auto simp: round_half_even_def Let_def not_less)
qed

definition zoom_ok :: "controller \<Rightarrow> bool" where
  "zoom_ok c = (ZOOM_MIN \<le> current_zoom c \<and> current_zoom c \<le> ZOOM_MAX \<and> (\<exists>k. current_zoom c = of_int k / 10) \<and>
     (\<forall>s t b. (s, t, b) \<in> set (commands c) \<longrightarrow> t = ZOOM_IOTYPE \<longrightarrow>
        (\<exists>z. ZOOM_MIN \<le> z \<and> z \<le> ZOOM_MAX \<and> b = zoom_body z)))"

lemma zoom_ok_cong: "zoom_ok c \<Longrightarrow> same_rest c c' \<Longrightarrow> commands c' = commands c \<Longrightarrow> zoom_ok c'"
  by (simp add: zoom_ok_def same_rest_def)

lemma send_zoom_ok:
  assumes "zoom_ok c" "send_command net sends ack t b rcy c = (r, c')" "t = ZOOM_IOTYPE \<Longrightarrow> \<exists>z. ZOOM_MIN \<le> z \<and> z \<le> ZOOM_MAX \<and> b = zoom_body z"
  shows "zoom_ok c'"
  using assms(1,3) send_command_keeps [OF assms(2)] by (cases r) (auto simp: zoom_ok_def same_rest_def)

lemma ptz_zoom_ok: "zoom_ok c \<Longrightarrow> zoom_ok (snd (ptz_zoom net sends z c))"
proof -
  assume c: "zoom_ok c"
  let ?z = "max ZOOM_MIN (min ZOOM_MAX z)"
  have z: "ZOOM_MIN \<le> ?z" "?z \<le> ZOOM_MAX" by (simp_all add: ZOOM_MIN_def ZOOM_MAX_def)
  then have k: "10 \<le> round_half_even (?z * 10) \<and> round_half_even (?z * 10) \<le> 90"
    by (intro round_half_even_bounds) (simp_all add: ZOOM_MIN_def ZOOM_MAX_def)
  obtain r c' where e: "send_command net sends () ZOOM_IOTYPE (zoom_body ?z) False c = (r, c')" by force
  have c': "zoom_ok c'" using send_zoom_ok [OF c e] z by blast
  have "(10 :: rat) \<le> of_int (round_half_even (?z * 10))" "of_int (round_half_even (?z * 10)) \<le> (90 :: rat)" using k by simp_all
  then have "zoom_ok (c'\<lparr>current_zoom := of_int (round_half_even (?z * 10)) / 10\<rparr>)"
    using c' by (auto simp: zoom_ok_def ZOOM_MIN_def ZOOM_MAX_def)
  then show ?thesis using c c' e by (cases r) (simp_all add: ptz_zoom_def Let_def)
qed

lemma zoom_ok_rest: "zoom_ok c \<Longrightarrow> current_zoom c' = current_zoom c \<Longrightarrow> commands c' = commands c \<Longrightarrow> zoom_ok c'"
  by (simp add: zoom_ok_def)

lemma send_other_ok:
  assumes "zoom_ok c" "t \<noteq> ZOOM_IOTYPE" shows "zoom_ok (snd (send_command net sends ack t b rcy c))"
  by (metis assms prod.collapse send_zoom_ok)

lemma ctl_step_zoom: "zoom_ok c \<Longrightarrow> zoom_ok (ctl_step e c)"
proof (cases e)
  case (Move net sends net2 sends2 d cont timed)
  assume c: "zoom_ok c"
  obtain r c' where e: "send_command net sends () PTZ_IOTYPE (action_body (d @ ''_always'')) False c = (r, c')" by force
  have "zoom_ok c'" using send_zoom_ok [OF c e] by (simp add: PTZ_IOTYPE_def ZOOM_IOTYPE_def)
  then show ?thesis using e c Move
    by (cases r) (simp_all add: ptz_move_def ptz_stop_def send_other_ok PTZ_IOTYPE_def ZOOM_IOTYPE_def)
next
  case (Eager net)
  assume c: "zoom_ok c"
  obtain r c' where en: "ensure_session net c = (r, c')" by force
  have "zoom_ok c'" using ensure_session_keeps [OF en] c by (auto intro: zoom_ok_rest simp: same_rest_def)
  then show ?thesis using Eager c en
    by (cases r) (auto simp: eager_reconnect_def intro: zoom_ok_rest)
next
  case Idle
  assume "zoom_ok c"
  then show ?thesis using Idle by (auto simp: idle_teardown_def close_sess_def split: option.splits intro: zoom_ok_rest)
next
  case Shutdown
  assume "zoom_ok c"
  then show ?thesis using Shutdown by (auto simp: async_shutdown_def Let_def close_sess_def split: option.splits intro: zoom_ok_rest)
qed (simp_all add: ptz_zoom_ok zoom_step_def ptz_stop_def goto_preset_def send_other_ok PTZ_IOTYPE_def ZOOM_IOTYPE_def POSITION_IOTYPE_def)

text \<open>
    Whatever is asked, the camera is only ever sent zoom factors between 1.0 and 9.0, and the factor the
  controller remembers, on which relative steps build, is always a multiple of a tenth in that range.
\<close>

theorem zoom_in_range:
  "(let c = fold ctl_step es (new_controller fs)
    in 1 \<le> current_zoom c \<and> current_zoom c \<le> 9 \<and> (\<exists>k. current_zoom c = of_int k / 10) \<and>
       {b. \<exists>s. (s, ZOOM_IOTYPE, b) \<in> set (commands c)} \<subseteq> {zoom_body z | z. 1 \<le> z \<and> z \<le> 9})"
proof -
  have "zoom_ok (new_controller fs)" by (auto simp: zoom_ok_def new_controller_def ZOOM_MIN_def ZOOM_MAX_def intro: exI [of _ 10])
  moreover have "zoom_ok c \<Longrightarrow> zoom_ok (fold ctl_step es c)" for c
    by (induction es arbitrary: c) (simp_all add: ctl_step_zoom)
  ultimately have "zoom_ok (fold ctl_step es (new_controller fs))" by blast
  then show ?thesis by (auto simp: zoom_ok_def Let_def ZOOM_MIN_def ZOOM_MAX_def) 
qed

text \<open>
    A camera without a feature is never touched for it: moving, zooming and preset recalls without the
  respective feature raise and leave the controller, its session and its log as they were. With it, a
  stop always follows a timed continuous move that was sent.
\<close>

theorem unsupported_commands:
  "(PAN_TILT \<notin> features c \<longrightarrow> ptz_move net sends net2 sends2 d cont timed c = (Inl Not_Supported, c)) \<and>
   (ZOOM \<notin> features c \<longrightarrow> ptz_zoom net sends z c = (Inl Not_Supported, c) \<and> zoom_step net sends z c = (Inl Not_Supported, c)) \<and>
   (PRESETS \<notin> features c \<longrightarrow> goto_preset net sends p c = (Inl Not_Supported, c)) \<and>
   (fst (ptz_move net sends net2 sends2 d True True c) = Inr () \<longrightarrow>
      (\<exists>s t. commands (snd (ptz_move net sends net2 sends2 d True True c)) =
         commands c @ [(s, PTZ_IOTYPE, action_body (d @ ''_always'')), (t, PTZ_IOTYPE, action_body STOP_ACTION)]))"
proof -
  obtain r c1 where e: "send_command net sends () PTZ_IOTYPE (action_body (d @ ''_always'')) False c = (r, c1)" by force
  obtain r2 c2 where e2: "send_command net2 sends2 () PTZ_IOTYPE (action_body STOP_ACTION) False c1 = (r2, c2)" by force
  show ?thesis using e e2 send_command_keeps [OF e] send_command_keeps [OF e2]
    by (cases r; cases r2) (auto simp: ptz_move_def ptz_stop_def ptz_zoom_def zoom_step_def goto_preset_def)
qed

theorem unsupported_commands_witness:
  "ptz_zoom good_net True 3 (new_controller {PAN_TILT}) = (Inl Not_Supported, new_controller {PAN_TILT})"
  using unsupported_commands [of "new_controller {PAN_TILT}" good_net True good_net True "''up''" False False 3 "''1''"]
  by (simp add: new_controller_def ZOOM_def PAN_TILT_def)

section \<open>The device id\<close>

text \<open>
    The id blob of a camera: with a prefix and a suffix of at most eight bytes and a serial below
  \<open>2 ^ 32\<close> it has 20 bytes, the padded prefix, the serial big-endian, the padded suffix, and the
  serial can be read back from it; a larger serial overflows. An id whose parts are not three raises.
\<close>

theorem did_blob_layout:
  assumes "CHR ''-'' \<notin> set prefix" "CHR ''-'' \<notin> set suffix" "length (utf8_encode prefix) \<le> 8" "length (utf8_encode suffix) \<le> 8"
  shows "(n < 2 ^ 32 \<longrightarrow> (\<exists>blob. encode_did (prefix @ ''-'' @ nat_text n @ ''-'' @ suffix) = Inr blob \<and> length blob = 20 \<and>
      take 8 blob = utf8_encode prefix @ replicate (8 - length (utf8_encode prefix)) 0 \<and>
      nat_of_be (pyslice 8 12 blob) = n \<and> drop 12 blob = utf8_encode suffix @ replicate (8 - length (utf8_encode suffix)) 0)) \<and>
    (2 ^ 32 \<le> n \<longrightarrow> encode_did (prefix @ ''-'' @ nat_text n @ ''-'' @ suffix) = Inl Did_Overflow) \<and>
    encode_did prefix = Inl Did_Value_Error"
proof -
  have "CHR ''-'' \<notin> set (nat_text n)" using nat_text_digits [of n] by (auto simp: list_all_iff ascii_digit_def char_code_def)
  then have s: "split_on (CHR ''-'') (prefix @ ''-'' @ nat_text n @ ''-'' @ suffix) = [prefix, nat_text n, suffix]"
    using assms by (simp add: split_on_append split_on_no_sep)
  have e: "encode_did (prefix @ ''-'' @ nat_text n @ ''-'' @ suffix) =
      (if n < 2 ^ 32 then Inr (ljust 8 (utf8_encode prefix) @ be_bytes 4 n @ ljust 8 (utf8_encode suffix)) else Inl Did_Overflow)"
    unfolding encode_did_def s by (simp add: int_of_string_nat_text to_bytes_be_def)
  have l: "length (ljust 8 (utf8_encode prefix)) = 8" "length (ljust 8 (utf8_encode suffix)) = 8"
    using assms by (simp_all add: ljust_def)
  have "encode_did prefix = Inl Did_Value_Error" using assms(1) by (simp add: encode_did_def split_on_no_sep)
  moreover have "take 8 (ljust 8 (utf8_encode prefix) @ be_bytes 4 n @ ljust 8 (utf8_encode suffix)) = ljust 8 (utf8_encode prefix)"
    "pyslice 8 12 (ljust 8 (utf8_encode prefix) @ be_bytes 4 n @ ljust 8 (utf8_encode suffix)) = be_bytes 4 n"
    "drop 12 (ljust 8 (utf8_encode prefix) @ be_bytes 4 n @ ljust 8 (utf8_encode suffix)) = ljust 8 (utf8_encode suffix)"
    using l by (simp_all add: pyslice_def)
  moreover have "nat_of_be (be_bytes 4 n) = n" if "n < 2 ^ 32" using that by (simp add: nat_of_be_bytes)
  ultimately show ?thesis using l unfolding e by (auto simp: ljust_def)
qed

theorem did_blob_layout_witness:
  "\<exists>blob. encode_did (''AQARADE'' @ ''-'' @ nat_text 359455 @ ''-'' @ ''ZUXDL'') = Inr blob \<and> length blob = 20 \<and> nat_of_be (pyslice 8 12 blob) = 359455"
proof -
  have "length (utf8_encode ''AQARADE'') \<le> 8" "length (utf8_encode ''ZUXDL'') \<le> 8" by code_simp+
  then show ?thesis using did_blob_layout [of "''AQARADE''" "''ZUXDL''" 359455] by auto
qed

end
