(* ===== verification/Camera_Protocol.thy ===== *)
theory Camera_Protocol
  imports Crypto
begin

text \<open>
  \<open>device/camera/protocol.py\<close>: the control packets of the doorbell's talk channel with their CRC, RTP
  headers, and the extraction of ADTS frames. \<open>struct.pack\<close> raises for a value out of range: None.
\<close>

section \<open>CRC-16\<close>

definition CRC16_TABLE :: "16 word list" where
  "CRC16_TABLE =
  [0x0000, 0x1189, 0x2312, 0x329B, 0x4624, 0x57AD, 0x6536, 0x74BF, 0x8C48, 0x9DC1, 0xAF5A, 0xBED3, 0xCA6C, 0xDBE5, 0xE97E, 0xF8F7,
   0x1081, 0x0108, 0x3393, 0x221A, 0x56A5, 0x472C, 0x75B7, 0x643E, 0x9CC9, 0x8D40, 0xBFDB, 0xAE52, 0xDAED, 0xCB64, 0xF9FF, 0xE876,
   0x2102, 0x308B, 0x0210, 0x1399, 0x6726, 0x76AF, 0x4434, 0x55BD, 0xAD4A, 0xBCC3, 0x8E58, 0x9FD1, 0xEB6E, 0xFAE7, 0xC87C, 0xD9F5,
   0x3183, 0x200A, 0x1291, 0x0318, 0x77A7, 0x662E, 0x54B5, 0x453C, 0xBDCB, 0xAC42, 0x9ED9, 0x8F50, 0xFBEF, 0xEA66, 0xD8FD, 0xC974,
   0x4204, 0x538D, 0x6116, 0x709F, 0x0420, 0x15A9, 0x2732, 0x36BB, 0xCE4C, 0xDFC5, 0xED5E, 0xFCD7, 0x8868, 0x99E1, 0xAB7A, 0xBAF3,
   0x5285, 0x430C, 0x7197, 0x601E, 0x14A1, 0x0528, 0x37B3, 0x263A, 0xDECD, 0xCF44, 0xFDDF, 0xEC56, 0x98E9, 0x8960, 0xBBFB, 0xAA72,
   0x6306, 0x728F, 0x4014, 0x519D, 0x2522, 0x34AB, 0x0630, 0x17B9, 0xEF4E, 0xFEC7, 0xCC5C, 0xDDD5, 0xA96A, 0xB8E3, 0x8A78, 0x9BF1,
   0x7387, 0x620E, 0x5095, 0x411C, 0x35A3, 0x242A, 0x16B1, 0x0738, 0xFFCF, 0xEE46, 0xDCDD, 0xCD54, 0xB9EB, 0xA862, 0x9AF9, 0x8B70,
   0x8408, 0x9581, 0xA71A, 0xB693, 0xC22C, 0xD3A5, 0xE13E, 0xF0B7, 0x0840, 0x19C9, 0x2B52, 0x3ADB, 0x4E64, 0x5FED, 0x6D76, 0x7CFF,
   0x9489, 0x8500, 0xB79B, 0xA612, 0xD2AD, 0xC324, 0xF1BF, 0xE036, 0x18C1, 0x0948, 0x3BD3, 0x2A5A, 0x5EE5, 0x4F6C, 0x7DF7, 0x6C7E,
   0xA50A, 0xB483, 0x8618, 0x9791, 0xE32E, 0xF2A7, 0xC03C, 0xD1B5, 0x2942, 0x38CB, 0x0A50, 0x1BD9, 0x6F66, 0x7EEF, 0x4C74, 0x5DFD,
   0xB58B, 0xA402, 0x9699, 0x8710, 0xF3AF, 0xE226, 0xD0BD, 0xC134, 0x39C3, 0x284A, 0x1AD1, 0x0B58, 0x7FE7, 0x6E6E, 0x5CF5, 0x4D7C,
   0xC60C, 0xD785, 0xE51E, 0xF497, 0x8028, 0x91A1, 0xA33A, 0xB2B3, 0x4A44, 0x5BCD, 0x6956, 0x78DF, 0x0C60, 0x1DE9, 0x2F72, 0x3EFB,
   0xD68D, 0xC704, 0xF59F, 0xE416, 0x90A9, 0x8120, 0xB3BB, 0xA232, 0x5AC5, 0x4B4C, 0x79D7, 0x685E, 0x1CE1, 0x0D68, 0x3FF3, 0x2E7A,
   0xE70E, 0xF687, 0xC41C, 0xD595, 0xA12A, 0xB0A3, 0x8238, 0x93B1, 0x6B46, 0x7ACF, 0x4854, 0x59DD, 0x2D62, 0x3CEB, 0x0E70, 0x1FF9,
   0xF78F, 0xE606, 0xD49D, 0xC514, 0xB1AB, 0xA022, 0x92B9, 0x8330, 0x7BC7, 0x6A4E, 0x58D5, 0x495C, 0x3DE3, 0x2C6A, 0x1EF1, 0x0F78]"

definition kermit_step :: "16 word \<Rightarrow> byte \<Rightarrow> 16 word" where
  "kermit_step crc b = CRC16_TABLE ! unat ((crc XOR ucast b) AND 0xFF) XOR drop_bit 8 crc"

definition crc16_kermit :: "bytes \<Rightarrow> 16 word" where
  "crc16_kermit data = NOT (foldl kermit_step 0xFFFF data)"

section \<open>Control packets\<close>

definition CAM_MAGIC :: bytes where "CAM_MAGIC = [0xFE, 0xEF]"
definition TYPE_START_VOICE :: nat where "TYPE_START_VOICE = 0"
definition TYPE_STOP_VOICE :: nat where "TYPE_STOP_VOICE = 1"
definition TYPE_ACK :: nat where "TYPE_ACK = 2"
definition TYPE_HEARTBEAT :: nat where "TYPE_HEARTBEAT = 3"

definition crc_bytes :: "bytes \<Rightarrow> bytes" where
  "crc_bytes data = be_bytes 2 (unat (crc16_kermit data))"

definition build_packet :: "nat \<Rightarrow> nat \<Rightarrow> bytes option" where
  "build_packet pkt_type payload_value =
     (case (if pkt_type = TYPE_ACK then Some [word_of_nat payload_value] else to_bytes_be 8 payload_value) of
        None \<Rightarrow> None
      | Some payload_bytes \<Rightarrow>
          (case to_bytes_be 1 pkt_type of
             None \<Rightarrow> None
           | Some ty \<Rightarrow>
               let header = CAM_MAGIC @ ty @ be_bytes 2 (length payload_bytes);
                   crc_data = drop 2 header @ payload_bytes
               in Some (header @ payload_bytes @ crc_bytes crc_data)))"

record packet =
  p_type :: nat
  p_name :: string
  p_value :: nat

definition type_name :: "nat \<Rightarrow> string" where
  "type_name ty =
     (if ty = TYPE_START_VOICE then ''START_VOICE'' else if ty = TYPE_STOP_VOICE then ''STOP_VOICE''
      else if ty = TYPE_ACK then ''ACK'' else if ty = TYPE_HEARTBEAT then ''HEARTBEAT'' else ''?'')"

text \<open>\<open>Inl ()\<close> is the IndexError of reading the first byte of an empty payload.\<close>

definition parse_packet :: "bytes \<Rightarrow> unit + packet option" where
  "parse_packet data =
     (if length data < 8 \<or> pyslice 0 2 data \<noteq> CAM_MAGIC then Inr None
      else
        let pkt_type = unat (data ! 2)
        in if pkt_type > 3 then Inr None
           else
             let payload_len = nat_of_be (pyslice 3 5 data)
             in if length data < 5 + payload_len + 2 then Inr None
                else
                  let crc_data = pyslice 2 (5 + payload_len) data;
                      expected = pyslice (5 + payload_len) (7 + payload_len) data
                  in if crc_bytes crc_data \<noteq> expected then Inr None
                     else
                       let payload_bytes = pyslice 5 (5 + payload_len) data
                       in if pkt_type = TYPE_ACK \<and> payload_bytes = [] then Inl ()
                          else Inr (Some \<lparr>p_type = pkt_type, p_name = type_name pkt_type,
                            p_value = (if pkt_type = TYPE_ACK then unat (payload_bytes ! 0) else nat_of_be payload_bytes)\<rparr>))"

section \<open>RTP headers\<close>

definition build_rtp_header :: "nat \<Rightarrow> nat \<Rightarrow> nat \<Rightarrow> nat \<Rightarrow> bytes option" where
  "build_rtp_header payload_type timestamp ssrc seq_num =
     (case to_bytes_be 1 payload_type of
        None \<Rightarrow> None
      | Some pt \<Rightarrow> Some ([0x80] @ pt @ be_bytes 2 (seq_num mod 2 ^ 16) @ be_bytes 4 (timestamp mod 2 ^ 32) @ be_bytes 4 (ssrc mod 2 ^ 32)))"

section \<open>ADTS frames\<close>

definition adts_sync :: "bytes \<Rightarrow> bool" where
  "adts_sync data = (data ! 0 = 0xFF \<and> data ! 1 AND 0xF0 = 0xF0)"

definition adts_frame_len :: "bytes \<Rightarrow> nat" where
  "adts_frame_len data =
     (push_bit 11 (unat (data ! 3 AND 3)) OR push_bit 3 (unat (data ! 4))) OR drop_bit 5 (unat (data ! 5))"

text \<open>The argument is the buffer from the current offset on.\<close>

function extract_adts_frames :: "bytes \<Rightarrow> bytes list" where
  "extract_adts_frames data =
     (if length data \<le> 7 then []
      else if \<not> adts_sync data then extract_adts_frames (tl data)
      else
        let n = adts_frame_len data
        in if n < 7 \<or> n > length data then []
           else take n data # extract_adts_frames (drop n data))"
  by pat_completeness auto
termination by (relation "measure length") auto

declare extract_adts_frames.simps [simp del]

section \<open>The table is the polynomial\<close>

definition kermit_bit :: "16 word \<Rightarrow> 16 word" where
  "kermit_bit x = (if bit x 0 then drop_bit 1 x XOR 0x8408 else drop_bit 1 x)"

lemma bit_kermit_bit: "bit (kermit_bit x) n \<longleftrightarrow> n < 16 \<and> ((n < 15 \<and> bit x (Suc n)) \<noteq> (bit x 0 \<and> bit (0x8408 :: 16 word) n))"
  by (auto simp: kermit_bit_def bit_drop_bit_eq bit_xor_iff dest: bit_imp_le_length)

definition kermit_bits :: "16 word \<Rightarrow> 16 word" where
  "kermit_bits x = (kermit_bit ^^ 8) x"

lemma kermit_eval: "kermit_bits x = kermit_bit (kermit_bit (kermit_bit (kermit_bit (kermit_bit (kermit_bit (kermit_bit (kermit_bit x)))))))"
  "kermit_bit 0 = 0" "kermit_bit 1 = 0x8408"
  "kermit_bit (numeral (num.Bit0 n)) = drop_bit 1 (numeral (num.Bit0 n))"
  "kermit_bit (numeral (num.Bit1 n)) = drop_bit 1 (numeral (num.Bit1 n)) XOR 0x8408"
  by (simp_all add: kermit_bits_def kermit_bit_def numeral_eq_Suc)

lemma crc_row_0:
  "kermit_bits 0 = 0x0000" "kermit_bits 1 = 0x1189" "kermit_bits 2 = 0x2312" "kermit_bits 3 = 0x329B"
  "kermit_bits 4 = 0x4624" "kermit_bits 5 = 0x57AD" "kermit_bits 6 = 0x6536" "kermit_bits 7 = 0x74BF"
  "kermit_bits 8 = 0x8C48" "kermit_bits 9 = 0x9DC1" "kermit_bits 10 = 0xAF5A" "kermit_bits 11 = 0xBED3"
  "kermit_bits 12 = 0xCA6C" "kermit_bits 13 = 0xDBE5" "kermit_bits 14 = 0xE97E" "kermit_bits 15 = 0xF8F7"
  by (simp_all add: kermit_eval)

lemma crc_row_1:
  "kermit_bits 16 = 0x1081" "kermit_bits 17 = 0x0108" "kermit_bits 18 = 0x3393" "kermit_bits 19 = 0x221A"
  "kermit_bits 20 = 0x56A5" "kermit_bits 21 = 0x472C" "kermit_bits 22 = 0x75B7" "kermit_bits 23 = 0x643E"
  "kermit_bits 24 = 0x9CC9" "kermit_bits 25 = 0x8D40" "kermit_bits 26 = 0xBFDB" "kermit_bits 27 = 0xAE52"
  "kermit_bits 28 = 0xDAED" "kermit_bits 29 = 0xCB64" "kermit_bits 30 = 0xF9FF" "kermit_bits 31 = 0xE876"
  by (simp_all add: kermit_eval)

lemma crc_row_2:
  "kermit_bits 32 = 0x2102" "kermit_bits 33 = 0x308B" "kermit_bits 34 = 0x0210" "kermit_bits 35 = 0x1399"
  "kermit_bits 36 = 0x6726" "kermit_bits 37 = 0x76AF" "kermit_bits 38 = 0x4434" "kermit_bits 39 = 0x55BD"
  "kermit_bits 40 = 0xAD4A" "kermit_bits 41 = 0xBCC3" "kermit_bits 42 = 0x8E58" "kermit_bits 43 = 0x9FD1"
  "kermit_bits 44 = 0xEB6E" "kermit_bits 45 = 0xFAE7" "kermit_bits 46 = 0xC87C" "kermit_bits 47 = 0xD9F5"
  by (simp_all add: kermit_eval)

lemma crc_row_3:
  "kermit_bits 48 = 0x3183" "kermit_bits 49 = 0x200A" "kermit_bits 50 = 0x1291" "kermit_bits 51 = 0x0318"
  "kermit_bits 52 = 0x77A7" "kermit_bits 53 = 0x662E" "kermit_bits 54 = 0x54B5" "kermit_bits 55 = 0x453C"
  "kermit_bits 56 = 0xBDCB" "kermit_bits 57 = 0xAC42" "kermit_bits 58 = 0x9ED9" "kermit_bits 59 = 0x8F50"
  "kermit_bits 60 = 0xFBEF" "kermit_bits 61 = 0xEA66" "kermit_bits 62 = 0xD8FD" "kermit_bits 63 = 0xC974"
  by (simp_all add: kermit_eval)

lemma crc_row_4:
  "kermit_bits 64 = 0x4204" "kermit_bits 65 = 0x538D" "kermit_bits 66 = 0x6116" "kermit_bits 67 = 0x709F"
  "kermit_bits 68 = 0x0420" "kermit_bits 69 = 0x15A9" "kermit_bits 70 = 0x2732" "kermit_bits 71 = 0x36BB"
  "kermit_bits 72 = 0xCE4C" "kermit_bits 73 = 0xDFC5" "kermit_bits 74 = 0xED5E" "kermit_bits 75 = 0xFCD7"
  "kermit_bits 76 = 0x8868" "kermit_bits 77 = 0x99E1" "kermit_bits 78 = 0xAB7A" "kermit_bits 79 = 0xBAF3"
  by (simp_all add: kermit_eval)

lemma crc_row_5:
  "kermit_bits 80 = 0x5285" "kermit_bits 81 = 0x430C" "kermit_bits 82 = 0x7197" "kermit_bits 83 = 0x601E"
  "kermit_bits 84 = 0x14A1" "kermit_bits 85 = 0x0528" "kermit_bits 86 = 0x37B3" "kermit_bits 87 = 0x263A"
  "kermit_bits 88 = 0xDECD" "kermit_bits 89 = 0xCF44" "kermit_bits 90 = 0xFDDF" "kermit_bits 91 = 0xEC56"
  "kermit_bits 92 = 0x98E9" "kermit_bits 93 = 0x8960" "kermit_bits 94 = 0xBBFB" "kermit_bits 95 = 0xAA72"
  by (simp_all add: kermit_eval)

lemma crc_row_6:
  "kermit_bits 96 = 0x6306" "kermit_bits 97 = 0x728F" "kermit_bits 98 = 0x4014" "kermit_bits 99 = 0x519D"
  "kermit_bits 100 = 0x2522" "kermit_bits 101 = 0x34AB" "kermit_bits 102 = 0x0630" "kermit_bits 103 = 0x17B9"
  "kermit_bits 104 = 0xEF4E" "kermit_bits 105 = 0xFEC7" "kermit_bits 106 = 0xCC5C" "kermit_bits 107 = 0xDDD5"
  "kermit_bits 108 = 0xA96A" "kermit_bits 109 = 0xB8E3" "kermit_bits 110 = 0x8A78" "kermit_bits 111 = 0x9BF1"
  by (simp_all add: kermit_eval)

lemma crc_row_7:
  "kermit_bits 112 = 0x7387" "kermit_bits 113 = 0x620E" "kermit_bits 114 = 0x5095" "kermit_bits 115 = 0x411C"
  "kermit_bits 116 = 0x35A3" "kermit_bits 117 = 0x242A" "kermit_bits 118 = 0x16B1" "kermit_bits 119 = 0x0738"
  "kermit_bits 120 = 0xFFCF" "kermit_bits 121 = 0xEE46" "kermit_bits 122 = 0xDCDD" "kermit_bits 123 = 0xCD54"
  "kermit_bits 124 = 0xB9EB" "kermit_bits 125 = 0xA862" "kermit_bits 126 = 0x9AF9" "kermit_bits 127 = 0x8B70"
  by (simp_all add: kermit_eval)

lemma crc_row_8:
  "kermit_bits 128 = 0x8408" "kermit_bits 129 = 0x9581" "kermit_bits 130 = 0xA71A" "kermit_bits 131 = 0xB693"
  "kermit_bits 132 = 0xC22C" "kermit_bits 133 = 0xD3A5" "kermit_bits 134 = 0xE13E" "kermit_bits 135 = 0xF0B7"
  "kermit_bits 136 = 0x0840" "kermit_bits 137 = 0x19C9" "kermit_bits 138 = 0x2B52" "kermit_bits 139 = 0x3ADB"
  "kermit_bits 140 = 0x4E64" "kermit_bits 141 = 0x5FED" "kermit_bits 142 = 0x6D76" "kermit_bits 143 = 0x7CFF"
  by (simp_all add: kermit_eval)

lemma crc_row_9:
  "kermit_bits 144 = 0x9489" "kermit_bits 145 = 0x8500" "kermit_bits 146 = 0xB79B" "kermit_bits 147 = 0xA612"
  "kermit_bits 148 = 0xD2AD" "kermit_bits 149 = 0xC324" "kermit_bits 150 = 0xF1BF" "kermit_bits 151 = 0xE036"
  "kermit_bits 152 = 0x18C1" "kermit_bits 153 = 0x0948" "kermit_bits 154 = 0x3BD3" "kermit_bits 155 = 0x2A5A"
  "kermit_bits 156 = 0x5EE5" "kermit_bits 157 = 0x4F6C" "kermit_bits 158 = 0x7DF7" "kermit_bits 159 = 0x6C7E"
  by (simp_all add: kermit_eval)

lemma crc_row_10:
  "kermit_bits 160 = 0xA50A" "kermit_bits 161 = 0xB483" "kermit_bits 162 = 0x8618" "kermit_bits 163 = 0x9791"
  "kermit_bits 164 = 0xE32E" "kermit_bits 165 = 0xF2A7" "kermit_bits 166 = 0xC03C" "kermit_bits 167 = 0xD1B5"
  "kermit_bits 168 = 0x2942" "kermit_bits 169 = 0x38CB" "kermit_bits 170 = 0x0A50" "kermit_bits 171 = 0x1BD9"
  "kermit_bits 172 = 0x6F66" "kermit_bits 173 = 0x7EEF" "kermit_bits 174 = 0x4C74" "kermit_bits 175 = 0x5DFD"
  by (simp_all add: kermit_eval)

lemma crc_row_11:
  "kermit_bits 176 = 0xB58B" "kermit_bits 177 = 0xA402" "kermit_bits 178 = 0x9699" "kermit_bits 179 = 0x8710"
  "kermit_bits 180 = 0xF3AF" "kermit_bits 181 = 0xE226" "kermit_bits 182 = 0xD0BD" "kermit_bits 183 = 0xC134"
  "kermit_bits 184 = 0x39C3" "kermit_bits 185 = 0x284A" "kermit_bits 186 = 0x1AD1" "kermit_bits 187 = 0x0B58"
  "kermit_bits 188 = 0x7FE7" "kermit_bits 189 = 0x6E6E" "kermit_bits 190 = 0x5CF5" "kermit_bits 191 = 0x4D7C"
  by (simp_all add: kermit_eval)

lemma crc_row_12:
  "kermit_bits 192 = 0xC60C" "kermit_bits 193 = 0xD785" "kermit_bits 194 = 0xE51E" "kermit_bits 195 = 0xF497"
  "kermit_bits 196 = 0x8028" "kermit_bits 197 = 0x91A1" "kermit_bits 198 = 0xA33A" "kermit_bits 199 = 0xB2B3"
  "kermit_bits 200 = 0x4A44" "kermit_bits 201 = 0x5BCD" "kermit_bits 202 = 0x6956" "kermit_bits 203 = 0x78DF"
  "kermit_bits 204 = 0x0C60" "kermit_bits 205 = 0x1DE9" "kermit_bits 206 = 0x2F72" "kermit_bits 207 = 0x3EFB"
  by (simp_all add: kermit_eval)

lemma crc_row_13:
  "kermit_bits 208 = 0xD68D" "kermit_bits 209 = 0xC704" "kermit_bits 210 = 0xF59F" "kermit_bits 211 = 0xE416"
  "kermit_bits 212 = 0x90A9" "kermit_bits 213 = 0x8120" "kermit_bits 214 = 0xB3BB" "kermit_bits 215 = 0xA232"
  "kermit_bits 216 = 0x5AC5" "kermit_bits 217 = 0x4B4C" "kermit_bits 218 = 0x79D7" "kermit_bits 219 = 0x685E"
  "kermit_bits 220 = 0x1CE1" "kermit_bits 221 = 0x0D68" "kermit_bits 222 = 0x3FF3" "kermit_bits 223 = 0x2E7A"
  by (simp_all add: kermit_eval)

lemma crc_row_14:
  "kermit_bits 224 = 0xE70E" "kermit_bits 225 = 0xF687" "kermit_bits 226 = 0xC41C" "kermit_bits 227 = 0xD595"
  "kermit_bits 228 = 0xA12A" "kermit_bits 229 = 0xB0A3" "kermit_bits 230 = 0x8238" "kermit_bits 231 = 0x93B1"
  "kermit_bits 232 = 0x6B46" "kermit_bits 233 = 0x7ACF" "kermit_bits 234 = 0x4854" "kermit_bits 235 = 0x59DD"
  "kermit_bits 236 = 0x2D62" "kermit_bits 237 = 0x3CEB" "kermit_bits 238 = 0x0E70" "kermit_bits 239 = 0x1FF9"
  by (simp_all add: kermit_eval)

lemma crc_row_15:
  "kermit_bits 240 = 0xF78F" "kermit_bits 241 = 0xE606" "kermit_bits 242 = 0xD49D" "kermit_bits 243 = 0xC514"
  "kermit_bits 244 = 0xB1AB" "kermit_bits 245 = 0xA022" "kermit_bits 246 = 0x92B9" "kermit_bits 247 = 0x8330"
  "kermit_bits 248 = 0x7BC7" "kermit_bits 249 = 0x6A4E" "kermit_bits 250 = 0x58D5" "kermit_bits 251 = 0x495C"
  "kermit_bits 252 = 0x3DE3" "kermit_bits 253 = 0x2C6A" "kermit_bits 254 = 0x1EF1" "kermit_bits 255 = 0x0F78"
  by (simp_all add: kermit_eval)

lemmas crc_rows = crc_row_0 crc_row_1 crc_row_2 crc_row_3 crc_row_4 crc_row_5 crc_row_6 crc_row_7 crc_row_8 crc_row_9 crc_row_10 crc_row_11 crc_row_12 crc_row_13 crc_row_14 crc_row_15

lemma byte_list: "map word_of_nat [0..<256] = ([0, 1, 2, 3, 4, 5, 6, 7, 8, 9, 10, 11, 12, 13, 14, 15,
    16, 17, 18, 19, 20, 21, 22, 23, 24, 25, 26, 27, 28, 29, 30, 31,
    32, 33, 34, 35, 36, 37, 38, 39, 40, 41, 42, 43, 44, 45, 46, 47,
    48, 49, 50, 51, 52, 53, 54, 55, 56, 57, 58, 59, 60, 61, 62, 63,
    64, 65, 66, 67, 68, 69, 70, 71, 72, 73, 74, 75, 76, 77, 78, 79,
    80, 81, 82, 83, 84, 85, 86, 87, 88, 89, 90, 91, 92, 93, 94, 95,
    96, 97, 98, 99, 100, 101, 102, 103, 104, 105, 106, 107, 108, 109, 110, 111,
    112, 113, 114, 115, 116, 117, 118, 119, 120, 121, 122, 123, 124, 125, 126, 127,
    128, 129, 130, 131, 132, 133, 134, 135, 136, 137, 138, 139, 140, 141, 142, 143,
    144, 145, 146, 147, 148, 149, 150, 151, 152, 153, 154, 155, 156, 157, 158, 159,
    160, 161, 162, 163, 164, 165, 166, 167, 168, 169, 170, 171, 172, 173, 174, 175,
    176, 177, 178, 179, 180, 181, 182, 183, 184, 185, 186, 187, 188, 189, 190, 191,
    192, 193, 194, 195, 196, 197, 198, 199, 200, 201, 202, 203, 204, 205, 206, 207,
    208, 209, 210, 211, 212, 213, 214, 215, 216, 217, 218, 219, 220, 221, 222, 223,
    224, 225, 226, 227, 228, 229, 230, 231, 232, 233, 234, 235, 236, 237, 238, 239,
    240, 241, 242, 243, 244, 245, 246, 247, 248, 249, 250, 251, 252, 253, 254, 255] :: 16 word list)"
  by code_simp

lemma CRC16_TABLE_entries: "CRC16_TABLE = map kermit_bits (map word_of_nat [0..<256])"
  by (simp only: byte_list list.map crc_rows CRC16_TABLE_def)

lemma CRC16_TABLE_nth: "i < 256 \<Longrightarrow> CRC16_TABLE ! i = kermit_bits (word_of_nat i)"
  by (simp add: CRC16_TABLE_entries)

lemma kermit_bit_xor: "kermit_bit (x XOR y) = kermit_bit x XOR kermit_bit y"
  by (rule bit_word_eqI) (auto simp: bit_kermit_bit bit_xor_iff)

lemma kermit_bits_xor: "kermit_bits (x XOR y) = kermit_bits x XOR kermit_bits y"
proof -
  have "(kermit_bit ^^ n) (x XOR y) = (kermit_bit ^^ n) x XOR (kermit_bit ^^ n) y" for n
    by (induction n) (simp_all add: kermit_bit_xor)
  then show ?thesis by (simp add: kermit_bits_def)
qed

lemma kermit_bit_zero: "kermit_bit x = 0 \<Longrightarrow> x = 0"
proof -
  assume z: "kermit_bit x = 0"
  have b: "\<not> bit (kermit_bit x) n" for n using z by simp
  have 0: "\<not> bit x 0" using b [of 15] by (simp add: bit_kermit_bit)
  show "x = 0"
  proof (rule bit_word_eqI)
    fix n assume n: "n < LENGTH(16)"
    show "bit x n = bit (0 :: 16 word) n"
      using 0 b [of "n - 1"] n by (cases n) (auto simp: bit_kermit_bit)
  qed
qed

lemma kermit_bits_inj: "kermit_bits x = kermit_bits y \<longleftrightarrow> x = y"
proof
  assume "kermit_bits x = kermit_bits y"
  then have "kermit_bits (x XOR y) = 0" by (simp add: kermit_bits_xor)
  moreover have "(kermit_bit ^^ n) z = 0 \<Longrightarrow> z = 0" for n z by (induction n) (auto dest: kermit_bit_zero)
  ultimately show "x = y" by (fastforce simp: kermit_bits_def)
qed simp

lemma kermit_bits_shift: "(\<And>i. i < n \<Longrightarrow> \<not> bit x i) \<Longrightarrow> (kermit_bit ^^ n) x = drop_bit n x"
proof (induction n)
  case (Suc n)
  then have "(kermit_bit ^^ n) x = drop_bit n x" by simp
  moreover have "\<not> bit (drop_bit n x) 0" using Suc.prems [of n] by (simp add: bit_drop_bit_eq)
  ultimately show ?case by (simp add: kermit_bit_def [of "drop_bit n x"])
qed simp

lemma low_byte: "x AND 0xFF = take_bit 8 (x :: 16 word)"
  by (simp add: take_bit_eq_mask mask_eq_exp_minus_1)

lemma kermit_step_bits: "kermit_step c b = kermit_bits (c XOR ucast b)"
proof -
  let ?x = "c XOR ucast b"
  have "?x = take_bit 8 ?x XOR push_bit 8 (drop_bit 8 ?x)"
  proof (rule bit_word_eqI)
    fix n assume "n < LENGTH(16)"
    then show "bit ?x n = bit (take_bit 8 ?x XOR push_bit 8 (drop_bit 8 ?x)) n"
      by (cases "n < 8") (auto simp: bit_simps not_less)
  qed
  then have "kermit_bits ?x = kermit_bits (take_bit 8 ?x) XOR kermit_bits (push_bit 8 (drop_bit 8 ?x))" by (metis kermit_bits_xor)
  moreover have "kermit_bits (push_bit 8 (drop_bit 8 ?x)) = drop_bit 8 (push_bit 8 (drop_bit 8 ?x))"
    unfolding kermit_bits_def by (rule kermit_bits_shift) (simp add: bit_simps)
  moreover have "drop_bit 8 (push_bit 8 (drop_bit 8 ?x)) = drop_bit 8 c"
    by (rule bit_word_eqI) (auto simp: bit_simps dest: bit_imp_le_length)
  moreover have "unat (take_bit 8 y) < 256" for y :: "16 word"
    using take_bit_nat_less_exp [of 8 "unat y"] by (simp add: unsigned_take_bit_eq)
  then have "CRC16_TABLE ! unat (take_bit 8 y) = kermit_bits (take_bit 8 y)" for y :: "16 word" by (simp add: CRC16_TABLE_nth)
  ultimately show ?thesis by (simp only: kermit_step_def low_byte)
qed

text \<open>
  The table-driven CRC is the bitwise one: every entry of the table is eight steps of the reflected
  polynomial 0x8408 on its index, so the checksum of any data equals the bit-serial computation with
  the same initial value and final complement.
\<close>

theorem kermit_table_correct:
  "crc16_kermit data = NOT (foldl (\<lambda>c b. kermit_bits (c XOR ucast b)) 0xFFFF data) \<and>
   CRC16_TABLE = map (\<lambda>i. (kermit_bit ^^ 8) (word_of_nat i)) [0..<256]"
  using CRC16_TABLE_entries
  by (simp add: crc16_kermit_def kermit_step_bits [abs_def] kermit_bits_def [abs_def] comp_def)

lemma kermit_step_inj: "kermit_step c b = kermit_step d b \<longleftrightarrow> c = d"
  by (simp only: kermit_step_bits kermit_bits_inj xor_cancel)

lemma kermit_step_byte_inj: "kermit_step c a = kermit_step c b \<longleftrightarrow> a = b"
proof -
  have lo: "bit (ucast x :: 16 word) n = bit x n" if "n < 8" for x :: byte and n
    using that by (simp add: bit_simps)
  have "(ucast a :: 16 word) = ucast b \<Longrightarrow> a = b"
    by (rule bit_word_eqI) (use lo [of _ a] lo [of _ b] in simp)
  then show ?thesis by (auto simp only: kermit_step_bits kermit_bits_inj xor.commute [of c] xor_cancel)
qed

lemma kermit_fold_inj: "foldl kermit_step c bs = foldl kermit_step d bs \<longleftrightarrow> c = d"
  by (induction bs arbitrary: c d) (simp_all add: kermit_step_inj)

lemma not_inj: "NOT x = NOT y \<longleftrightarrow> x = (y :: 16 word)"
  by (metis bit.double_compl)

lemma crc16_kermit_single_byte: "crc16_kermit (xs @ a # ys) = crc16_kermit (xs @ b # ys) \<longleftrightarrow> a = b"
  unfolding crc16_kermit_def by (simp only: foldl_append foldl_Cons not_inj kermit_fold_inj kermit_step_byte_inj)

section \<open>Round trip and detection\<close>

lemma packet_layout:
  fixes ty :: byte and p c :: bytes
  assumes "length p < 65536" "length c = 2" "1 \<le> length p"
  defines "d \<equiv> CAM_MAGIC @ [ty] @ be_bytes 2 (length p) @ p @ c"
  shows "pyslice 0 2 d = CAM_MAGIC" "d ! 2 = ty" "nat_of_be (pyslice 3 5 d) = length p" "8 \<le> length d"
    "length d = 7 + length p" "pyslice 2 (5 + length p) d = [ty] @ be_bytes 2 (length p) @ p"
    "pyslice (5 + length p) (7 + length p) d = c" "pyslice 5 (5 + length p) d = p"
proof -
  have n: "nat_of_be (be_bytes 2 (length p)) = length p" using assms(1) by (simp add: nat_of_be_bytes)
  show "pyslice 0 2 d = CAM_MAGIC" "d ! 2 = ty" "8 \<le> length d" "length d = 7 + length p"
    using assms by (simp_all add: pyslice_def CAM_MAGIC_def)
  have "pyslice 3 5 d = be_bytes 2 (length p)" by (simp add: d_def pyslice_def CAM_MAGIC_def)
  then show "nat_of_be (pyslice 3 5 d) = length p" using n by simp
  show "pyslice 2 (5 + length p) d = [ty] @ be_bytes 2 (length p) @ p"
    "pyslice (5 + length p) (7 + length p) d = c" "pyslice 5 (5 + length p) d = p"
    using assms(2) by (simp_all add: d_def pyslice_def CAM_MAGIC_def numeral_eq_Suc)
qed

lemma length_crc_bytes [simp, len_simps]: "length (crc_bytes d) = 2"
  by (simp add: crc_bytes_def)

lemma list_of_two: "length xs = 2 \<Longrightarrow> \<exists>x y. xs = [x, y]"
  by (cases xs; cases "tl xs") auto

lemma crc_bytes_inj: "crc_bytes a = crc_bytes b \<longleftrightarrow> crc16_kermit a = crc16_kermit b"
proof
  assume "crc_bytes a = crc_bytes b"
  then have "nat_of_be (crc_bytes a) = nat_of_be (crc_bytes b)" by simp
  moreover have "unat (crc16_kermit d) < 65536" for d using unsigned_less [of "crc16_kermit d"] by simp
  ultimately show "crc16_kermit a = crc16_kermit b" by (simp add: crc_bytes_def nat_of_be_bytes word_unat_eq_iff)
qed (simp add: crc_bytes_def)

lemma parse_layout:
  assumes "length p < 65536" "1 \<le> length p" "unat ty \<le> 3" "length c = 2"
  shows "parse_packet (CAM_MAGIC @ [ty] @ be_bytes 2 (length p) @ p @ c) =
    (if c \<noteq> crc_bytes ([ty] @ be_bytes 2 (length p) @ p) then Inr None
     else Inr (Some \<lparr>p_type = unat ty, p_name = type_name (unat ty),
       p_value = (if unat ty = TYPE_ACK then unat (p ! 0) else nat_of_be p)\<rparr>))"
proof -
  note l = packet_layout [OF assms(1,4,2), of ty]
  show ?thesis using assms(2,3) unfolding parse_packet_def l Let_def by (auto simp: not_less)
qed

text \<open>
  The talk channel's packets: a start, stop or heartbeat packet with a 64-bit value and an ACK parse
  back to their type and value (an ACK to the value's low byte); a value beyond 64 bits cannot be
  built; and a packet in which any single byte of the type, the length's payload or the payload is
  replaced by another is never accepted.
\<close>

theorem camera_packet_codec:
  "(ty \<in> {TYPE_START_VOICE, TYPE_STOP_VOICE, TYPE_HEARTBEAT} \<longrightarrow> v < 2 ^ 64 \<longrightarrow>
      (\<exists>d. build_packet ty v = Some d \<and> length d = 15 \<and> parse_packet d = Inr (Some \<lparr>p_type = ty, p_name = type_name ty, p_value = v\<rparr>))) \<and>
   (\<exists>d. build_packet TYPE_ACK v = Some d \<and> length d = 8 \<and>
      parse_packet d = Inr (Some \<lparr>p_type = TYPE_ACK, p_name = ''ACK'', p_value = v mod 256\<rparr>)) \<and>
   (2 ^ 64 \<le> v \<longrightarrow> ty \<noteq> TYPE_ACK \<longrightarrow> build_packet ty v = None) \<and>
   (unat t \<le> 3 \<longrightarrow> length (xs @ a # ys) < 65536 \<longrightarrow> a \<noteq> b \<longrightarrow>
      parse_packet (CAM_MAGIC @ [t] @ be_bytes 2 (length (xs @ b # ys)) @ (xs @ b # ys) @
        crc_bytes ([t] @ be_bytes 2 (length (xs @ a # ys)) @ (xs @ a # ys))) = Inr None)"
proof (intro conjI impI)
  have m: "v mod 256 ^ 8 = v" if "v < 2 ^ 64" using that by simp
  assume ty: "ty \<in> {TYPE_START_VOICE, TYPE_STOP_VOICE, TYPE_HEARTBEAT}" and v: "v < 2 ^ 64"
  then have t: "ty \<le> 3" "ty \<noteq> TYPE_ACK" "be_bytes 1 ty = [word_of_nat ty]" "ty mod 256 = ty"
    by (auto simp: TYPE_START_VOICE_def TYPE_STOP_VOICE_def TYPE_HEARTBEAT_def TYPE_ACK_def be_bytes_def)
  have b: "build_packet ty v = Some (CAM_MAGIC @ [word_of_nat ty] @ be_bytes 2 8 @ be_bytes 8 v @
      crc_bytes ([word_of_nat ty] @ be_bytes 2 8 @ be_bytes 8 v))"
    using t v by (simp add: build_packet_def to_bytes_be_def CAM_MAGIC_def)
  have "nat_of_be (be_bytes 8 v) = v" using v by (simp add: nat_of_be_bytes)
  then show "\<exists>d. build_packet ty v = Some d \<and> length d = 15 \<and> parse_packet d = Inr (Some \<lparr>p_type = ty, p_name = type_name ty, p_value = v\<rparr>)"
    using parse_layout [of "be_bytes 8 v" "word_of_nat ty"] t b by (simp add: CAM_MAGIC_def)
next
  have b: "build_packet TYPE_ACK v = Some (CAM_MAGIC @ [2] @ be_bytes 2 1 @ [word_of_nat v] @
      crc_bytes ([2] @ be_bytes 2 1 @ [word_of_nat v]))"
    by (simp add: build_packet_def to_bytes_be_def CAM_MAGIC_def TYPE_ACK_def be_bytes_def [of "Suc 0"])
  show "\<exists>d. build_packet TYPE_ACK v = Some d \<and> length d = 8 \<and>
      parse_packet d = Inr (Some \<lparr>p_type = TYPE_ACK, p_name = ''ACK'', p_value = v mod 256\<rparr>)"
    using parse_layout [of "[word_of_nat v]" 2] b
    by (simp add: CAM_MAGIC_def TYPE_ACK_def type_name_def TYPE_START_VOICE_def TYPE_STOP_VOICE_def TYPE_HEARTBEAT_def)
next
  assume "2 ^ 64 \<le> v" "ty \<noteq> TYPE_ACK"
  then show "build_packet ty v = None" by (simp add: build_packet_def to_bytes_be_def)
next
  assume a: "unat t \<le> 3" "length (xs @ a # ys) < 65536" "a \<noteq> b"
  then have "crc_bytes ([t] @ be_bytes 2 (length (xs @ a # ys)) @ (xs @ a # ys)) \<noteq>
      crc_bytes ([t] @ be_bytes 2 (length (xs @ b # ys)) @ (xs @ b # ys))"
    using crc16_kermit_single_byte [of "[t] @ be_bytes 2 (length (xs @ a # ys)) @ xs" a ys b] by (simp add: crc_bytes_inj)
  then show "parse_packet (CAM_MAGIC @ [t] @ be_bytes 2 (length (xs @ b # ys)) @ (xs @ b # ys) @
        crc_bytes ([t] @ be_bytes 2 (length (xs @ a # ys)) @ (xs @ a # ys))) = Inr None"
    using parse_layout [of "xs @ b # ys" t] a by simp
qed

text \<open>
  A datagram that carries an ACK with an empty payload, a valid CRC and one further byte passes every
  check and makes the parser raise IndexError instead of returning None; nothing shorter and no
  other type does.
\<close>

lemma empty_ack_raises:
  "parse_packet (CAM_MAGIC @ [2, 0, 0] @ crc_bytes [2, 0, 0] @ [b]) = Inl () \<and>
   (parse_packet data = Inl () \<longrightarrow> unat (data ! 2) = TYPE_ACK \<and> nat_of_be (pyslice 3 5 data) = 0 \<and> 8 \<le> length data)"
proof (intro conjI impI)
  obtain x y where "crc_bytes [2, 0, 0] = [x, y]"
    using list_of_two [OF length_crc_bytes [of "[2, 0, 0]"]] by blast
  then show "parse_packet (CAM_MAGIC @ [2, 0, 0] @ crc_bytes [2, 0, 0] @ [b]) = Inl ()"
    by (simp add: parse_packet_def CAM_MAGIC_def pyslice_def nat_of_be_def TYPE_ACK_def)
next
  assume p: "parse_packet data = Inl ()"
  let ?n = "nat_of_be (pyslice 3 5 data)"
  have c: "unat (data ! 2) = TYPE_ACK \<and> pyslice 5 (5 + ?n) data = [] \<and> \<not> length data < 5 + ?n + 2 \<and> 8 \<le> length data"
    using p by (simp add: parse_packet_def Let_def split: if_splits)
  then have "?n = 0" by (auto simp: pyslice_def)
  then show "unat (data ! 2) = TYPE_ACK" "nat_of_be (pyslice 3 5 data) = 0" "8 \<le> length data" using c by simp_all
qed

theorem camera_packet_codec_witness:
  "\<exists>d. build_packet TYPE_HEARTBEAT 1700000000000 = Some d \<and> length d = 15 \<and>
     parse_packet d = Inr (Some \<lparr>p_type = TYPE_HEARTBEAT, p_name = type_name TYPE_HEARTBEAT, p_value = 1700000000000\<rparr>)"
  using camera_packet_codec [of TYPE_HEARTBEAT 1700000000000 0 "[]" 1 "[]" 2] by simp

section \<open>RTP\<close>

text \<open>
    An RTP header has twelve bytes whose fields read back as version 2, the payload type, and sequence
  number, timestamp and source id modulo their widths; a payload type of more than eight bits raises.
\<close>

lemma rtp_header_fields:
  "(pt < 256 \<longrightarrow> (\<exists>h. build_rtp_header pt ts ssrc sq = Some h \<and> length h = 12 \<and> h ! 0 = 0x80 \<and> unat (h ! 1) = pt \<and>
      nat_of_be (pyslice 2 4 h) = sq mod 65536 \<and> nat_of_be (pyslice 4 8 h) = ts mod 2 ^ 32 \<and>
      nat_of_be (pyslice 8 12 h) = ssrc mod 2 ^ 32)) \<and>
   (256 \<le> pt \<longrightarrow> build_rtp_header pt ts ssrc sq = None)"
proof -
  have n: "nat_of_be (be_bytes 2 (sq mod 65536)) = sq mod 65536" "nat_of_be (be_bytes 4 (x mod 4294967296)) = x mod 4294967296" for x
    by (simp_all add: nat_of_be_bytes)
  have s: "pyslice 2 4 (a # b # be_bytes 2 u @ be_bytes 4 v @ be_bytes 4 w) = be_bytes 2 u"
    "pyslice 4 8 (a # b # be_bytes 2 u @ be_bytes 4 v @ be_bytes 4 w) = be_bytes 4 v"
    "pyslice 8 12 (a # b # be_bytes 2 u @ be_bytes 4 v @ be_bytes 4 w) = be_bytes 4 w" for a b u v w
    by (simp_all add: pyslice_def)
  show ?thesis
    using n s by (simp add: build_rtp_header_def to_bytes_be_def be_bytes_def [of "Suc 0"])
qed

section \<open>Frame extraction\<close>

text \<open>A complete ADTS frame: its header announces its own length.\<close>

definition adts_frame :: "bytes \<Rightarrow> bool" where
  "adts_frame f = (8 \<le> length f \<and> adts_sync f \<and> adts_frame_len f = length f)"

lemma adts_header_append:
  assumes "6 \<le> length f"
  shows "adts_sync (f @ g) = adts_sync f" "adts_frame_len (f @ g) = adts_frame_len f"
proof -
  have "(f @ g) ! i = f ! i" if "i < 6" for i
    using that assms by (simp add: nth_append)
  then show "adts_sync (f @ g) = adts_sync f" "adts_frame_len (f @ g) = adts_frame_len f"
    by (simp_all add: adts_sync_def adts_frame_len_def)
qed

lemma extract_short: "length q \<le> 7 \<Longrightarrow> extract_adts_frames q = []"
  by (subst extract_adts_frames.simps) simp

lemma extract_cut: "8 \<le> length q \<Longrightarrow> adts_sync q \<Longrightarrow> length q < adts_frame_len q \<Longrightarrow> extract_adts_frames q = []"
  by (subst extract_adts_frames.simps) (simp add: Let_def)

lemma extract_frame: "adts_frame f \<Longrightarrow> extract_adts_frames (f @ g) = f # extract_adts_frames g"
  by (subst extract_adts_frames.simps) (auto simp: adts_frame_def adts_header_append Let_def)

text \<open>A beginning of the next frame, not all of it.\<close>

definition partial_frame :: "bytes \<Rightarrow> bytes list \<Rightarrow> bool" where
  "partial_frame q fs = (case fs of [] \<Rightarrow> q = [] | f # gs \<Rightarrow> \<exists>r. r \<noteq> [] \<and> f = q @ r)"

lemma extract_partial: "partial_frame q fs \<Longrightarrow> \<forall>f \<in> set fs. adts_frame f \<Longrightarrow> extract_adts_frames q = []"
proof (cases fs)
  case (Cons f gs)
  assume "partial_frame q fs" "\<forall>f \<in> set fs. adts_frame f"
  then obtain r where r: "r \<noteq> []" "f = q @ r" "adts_frame f" using Cons by (auto simp: partial_frame_def)
  then show ?thesis
  proof (cases "length q \<le> 7")
    case False
    then have "adts_sync q" "adts_frame_len q = length q + length r" using r adts_header_append [of q r] by (simp_all add: adts_frame_def)
    then show ?thesis using False r(1) by (intro extract_cut) auto
  qed (simp add: extract_short)
qed (simp add: partial_frame_def extract_short)

lemma extract_stream:
  "\<forall>f \<in> set gs. adts_frame f \<Longrightarrow> extract_adts_frames q = [] \<Longrightarrow> extract_adts_frames (concat gs @ q) = gs"
  by (induction gs) (simp_all add: extract_frame)

end
