(* ===== verification/Camera_Audio.thy ===== *)
theory Camera_Audio
  imports Camera_Protocol "HOL-Library.Sublist"
begin

text \<open>
  \<open>device/camera/encoder.py\<close>, \<open>device/camera/bridge.py\<close> and \<open>device/camera/talk.py\<close>: the pipe through
  the external encoder, and the two clients of the talk protocol. What the encoder process and the
  camera answer is an argument of each operation; what is handed to a socket is logged in the state.
\<close>

section \<open>The encoder\<close>

record encoder =
  started :: bool
  stdin_open :: bool
  enc_buffer :: bytes

definition new_encoder :: encoder where
  "new_encoder = \<lparr>started = False, stdin_open = False, enc_buffer = []\<rparr>"

definition enc_start :: "encoder \<Rightarrow> encoder" where
  "enc_start e = e\<lparr>started := True, stdin_open := True\<rparr>"

datatype enc_error = Not_Started | Closed_File

definition drain :: "encoder \<Rightarrow> bytes list \<times> encoder" where
  "drain e =
     (if enc_buffer e = [] then ([], e)
      else
        let frames = extract_adts_frames (enc_buffer e);
            consumed = sum_list (map length frames)
        in (frames, e\<lparr>enc_buffer := drop consumed (enc_buffer e)\<rparr>))"

text \<open>\<open>broken\<close>: the pipe to the process is broken. \<open>chunks\<close>: what the reads give until none is ready.\<close>

definition write_pcm :: "bool \<Rightarrow> bytes list \<Rightarrow> encoder \<Rightarrow> (enc_error + bytes list) \<times> encoder" where
  "write_pcm broken chunks e =
     (if \<not> started e then (Inl Not_Started, e)
      else if \<not> stdin_open e then (Inl Closed_File, e)
      else if broken then (Inr [], e)
      else case drain (e\<lparr>enc_buffer := enc_buffer e @ concat (takeWhile (\<lambda>c. c \<noteq> []) chunks)\<rparr>) of
             (frames, e) \<Rightarrow> (Inr frames, e))"

text \<open>\<open>remaining\<close> is None when the process does not end in time.\<close>

definition enc_flush :: "bytes option \<Rightarrow> encoder \<Rightarrow> bytes list \<times> encoder" where
  "enc_flush remaining e =
     (if \<not> started e then ([], e)
      else drain (e\<lparr>stdin_open := False,
                    enc_buffer := enc_buffer e @ (case remaining of None \<Rightarrow> [] | Some r \<Rightarrow> r)\<rparr>))"

definition enc_stop :: "encoder \<Rightarrow> encoder" where
  "enc_stop e = (if \<not> started e then e else \<lparr>started = False, stdin_open = False, enc_buffer = []\<rparr>)"

text \<open>A call per list of chunks; the frames each call returned.\<close>

fun write_all :: "bytes list list \<Rightarrow> encoder \<Rightarrow> bytes list list \<times> encoder" where
  "write_all [] e = ([], e)"
| "write_all (cs # css) e =
     (case write_pcm False cs e of
        (Inl x, e) \<Rightarrow> ([], e)
      | (Inr fs, e) \<Rightarrow> (case write_all css e of (fss, e) \<Rightarrow> (fs # fss, e)))"

section \<open>The answer to a control packet\<close>

text \<open>Accepted: an ACK whose value is 0. An empty read is no packet.\<close>

datatype talk_error = Index_Error | Struct_Error | Os_Error | Enc enc_error

definition ack_ok :: "bytes \<Rightarrow> talk_error + bool" where
  "ack_ok resp =
     (case (if resp = [] then Inr None else parse_packet resp) of
        Inl u \<Rightarrow> Inl Index_Error
      | Inr None \<Rightarrow> Inr False
      | Inr (Some p) \<Rightarrow> Inr (p_type p = TYPE_ACK \<and> p_value p = 0))"

section \<open>The bridge\<close>

record bridge =
  session_ts :: nat
  ssrc :: nat
  seq_num :: nat
  tcp_sock :: bool
  udp_sock :: bool
  hb_thread :: bool
  running :: bool
  stop_event :: bool
  tcp_sent :: "bytes list"
  udp_sent :: "bytes list"

definition new_bridge :: "nat \<Rightarrow> nat \<Rightarrow> bridge" where
  "new_bridge ts sid = \<lparr>session_ts = ts, ssrc = sid, seq_num = 0, tcp_sock = False, udp_sock = False,
     hb_thread = False, running = False, stop_event = False, tcp_sent = [], udp_sent = []\<rparr>"

definition RTP_PAYLOAD_TYPE :: nat where "RTP_PAYLOAD_TYPE = 97"

text \<open>What the control connection gives: it is refused, the exchange fails, or a read.\<close>

datatype control_io = Refused | Io_Fails | Received bytes

definition bridge_close :: "bridge \<Rightarrow> (talk_error + unit) \<times> bridge" where
  "bridge_close b0 =
     (let b = b0\<lparr>running := False, stop_event := True, hb_thread := False\<rparr>
      in if \<not> tcp_sock b then (Inr (), b\<lparr>udp_sock := False\<rparr>)
         else case build_packet TYPE_STOP_VOICE (session_ts b) of
                None \<Rightarrow> (Inl Struct_Error, b)
              | Some p \<Rightarrow> (Inr (), b\<lparr>tcp_sent := tcp_sent b @ [p], tcp_sock := False, udp_sock := False\<rparr>))"

definition bridge_connect :: "control_io \<Rightarrow> bridge \<Rightarrow> (talk_error + bool) \<times> bridge" where
  "bridge_connect io b0 =
     (let fail = (\<lambda>b. case bridge_close b of (Inl e, b) \<Rightarrow> (Inl e, b) | (Inr u, b) \<Rightarrow> (Inr False, b));
          b = b0\<lparr>tcp_sock := True\<rparr>
      in if io = Refused then fail b
         else
           let b = b\<lparr>udp_sock := True\<rparr>
           in case build_packet TYPE_START_VOICE (session_ts b) of
                None \<Rightarrow> (Inl Struct_Error, b)
              | Some pkt \<Rightarrow>
                  (let b = b\<lparr>tcp_sent := tcp_sent b @ [pkt]\<rparr>
                   in case io of
                        Received resp \<Rightarrow>
                          (case ack_ok resp of
                             Inl e \<Rightarrow> (Inl e, b)
                           | Inr ok \<Rightarrow> if ok then (Inr True, b\<lparr>running := True, hb_thread := True\<rparr>) else fail b)
                      | _ \<Rightarrow> fail b))"

definition bridge_send_audio :: "bytes \<Rightarrow> bridge \<Rightarrow> bridge" where
  "bridge_send_audio aac_frame b =
     (if \<not> udp_sock b then b
      else
        let ts = seq_num b * 1024
        in case build_rtp_header RTP_PAYLOAD_TYPE ts (ssrc b) (seq_num b) of
             None \<Rightarrow> b
           | Some header \<Rightarrow> b\<lparr>seq_num := seq_num b + 1, udp_sent := udp_sent b @ [header @ aac_frame]\<rparr>)"

text \<open>One turn of the heartbeat loop after its wait: the exchange fails, or a read.\<close>

datatype hb_end = Hb_Running nat | Hb_Gave_Up | Hb_Stopped | Hb_Raised talk_error

definition bridge_heartbeat_turn :: "control_io \<Rightarrow> nat \<Rightarrow> bridge \<Rightarrow> hb_end \<times> bridge" where
  "bridge_heartbeat_turn io failures b0 =
     (if stop_event b0 \<or> \<not> running b0 \<or> \<not> tcp_sock b0 then (Hb_Stopped, b0)
      else case build_packet TYPE_HEARTBEAT (session_ts b0) of
             None \<Rightarrow> (Hb_Raised Struct_Error, b0)
           | Some pkt \<Rightarrow>
               (let b = b0\<lparr>tcp_sent := tcp_sent b0 @ [pkt]\<rparr>;
                    answer = (case io of Received r \<Rightarrow> ack_ok r | _ \<Rightarrow> Inr False)
                in case answer of
                     Inl e \<Rightarrow> (Hb_Raised e, b)
                   | Inr ok \<Rightarrow>
                       if ok then (Hb_Running 0, b)
                       else if failures + 1 > 5 then (Hb_Gave_Up, b\<lparr>running := False\<rparr>)
                       else (Hb_Running (failures + 1), b)))"

fun bridge_heartbeats :: "control_io list \<Rightarrow> nat \<Rightarrow> bridge \<Rightarrow> hb_end \<times> bridge" where
  "bridge_heartbeats [] failures b = (Hb_Running failures, b)"
| "bridge_heartbeats (io # ios) failures b =
     (case bridge_heartbeat_turn io failures b of
        (Hb_Running f, b) \<Rightarrow> bridge_heartbeats ios f b
      | r \<Rightarrow> r)"

text \<open>The script: everything the encoder returns goes out, in order; the flush is last.\<close>

fun bridge_pump :: "(bool \<times> bytes list) list \<Rightarrow> encoder \<Rightarrow> bridge \<Rightarrow> (enc_error + unit) \<times> encoder \<times> bridge" where
  "bridge_pump [] e b = (Inr (), e, b)"
| "bridge_pump ((broken, chunks) # ws) e b =
     (case write_pcm broken chunks e of
        (Inl x, e) \<Rightarrow> (Inl x, e, b)
      | (Inr frames, e) \<Rightarrow> bridge_pump ws e (foldl (\<lambda>b f. bridge_send_audio f b) b frames))"

text \<open>None: the connection is not accepted, and the script exits.\<close>

definition bridge_main :: "control_io \<Rightarrow> (bool \<times> bytes list) list \<Rightarrow> bytes option \<Rightarrow> bridge \<Rightarrow> (talk_error + bool) \<times> bridge" where
  "bridge_main io writes remaining b0 =
     (case bridge_connect io b0 of
        (Inl x, b) \<Rightarrow> (Inl x, b)
      | (Inr False, b) \<Rightarrow> (Inr False, b)
      | (Inr True, b) \<Rightarrow>
          (case bridge_pump writes (enc_start new_encoder) b of
             (r, e, b) \<Rightarrow>
               (let b = (case r of
                      Inl x \<Rightarrow> b
                    | Inr u \<Rightarrow> foldl (\<lambda>b f. bridge_send_audio f b) b (fst (enc_flush remaining e)))
                in case bridge_close b of
                     (Inl x, b) \<Rightarrow> (Inl x, b)
                   | (Inr u, b) \<Rightarrow> ((case r of Inl x \<Rightarrow> Inl (Enc x) | Inr u \<Rightarrow> Inr True), b))))"

text \<open>
  The pacing of the script: \<open>t1\<close> is read when the first frame is due (a start of 0 is unset), \<open>t2\<close> is
  the clock now; the frame goes out at the first result.
\<close>

definition FRAME_DURATION :: rat where "FRAME_DURATION = 1024 / 16000"

definition send_paced :: "rat \<Rightarrow> rat \<Rightarrow> rat \<times> nat \<Rightarrow> rat \<times> rat \<times> nat" where
  "send_paced t1 t2 st =
     (case st of (start, sent) \<Rightarrow>
       (let start = (if start = 0 then t1 else start);
            expected = start + of_nat sent * FRAME_DURATION
        in (if t2 < expected then expected else t2, start, sent + 1)))"

section \<open>The talk client\<close>

record talk =
  t_session_ts :: nat
  t_ssrc :: nat
  t_seq_num :: nat
  t_tcp :: bool
  t_udp :: bool
  t_hb :: bool
  t_connected :: bool
  t_tcp_sent :: "bytes list"
  t_udp_sent :: "bytes list"

definition new_talk :: "nat \<Rightarrow> nat \<Rightarrow> talk" where
  "new_talk ts sid = \<lparr>t_session_ts = ts, t_ssrc = sid, t_seq_num = 0, t_tcp = False, t_udp = False, t_hb = False,
     t_connected = False, t_tcp_sent = [], t_udp_sent = []\<rparr>"

definition close_tcp :: "talk \<Rightarrow> talk" where
  "close_tcp t = t\<lparr>t_tcp := False\<rparr>"

definition talk_write :: "bytes \<Rightarrow> talk \<Rightarrow> talk" where
  "talk_write p t = t\<lparr>t_tcp_sent := t_tcp_sent t @ [p]\<rparr>"

text \<open>The reply to what was written: the flush fails, no answer in time, or a read (empty at the end).\<close>

datatype reply = Drain_Fails | No_Answer | Answer bytes

text \<open>None: the connection is refused or times out.\<close>

definition talk_connect_inner :: "reply option \<Rightarrow> talk \<Rightarrow> (talk_error + bool) \<times> talk" where
  "talk_connect_inner io t0 =
     (case io of
        None \<Rightarrow> (Inr False, t0)
      | Some reply \<Rightarrow>
          (let t = t0\<lparr>t_tcp := True\<rparr>
           in case build_packet TYPE_START_VOICE (t_session_ts t) of
                None \<Rightarrow> (Inl Struct_Error, t)
              | Some pkt \<Rightarrow>
                  (let t = talk_write pkt t
                   in case reply of
                        Drain_Fails \<Rightarrow> (Inl Os_Error, t)
                      | No_Answer \<Rightarrow> (Inr False, close_tcp t)
                      | Answer resp \<Rightarrow>
                          if resp = [] then (Inr False, close_tcp t)
                          else case ack_ok resp of
                                 Inl e \<Rightarrow> (Inl e, t)
                               | Inr ok \<Rightarrow>
                                   if \<not> ok then (Inr False, close_tcp t)
                                   else (Inr True, t\<lparr>t_udp := True, t_connected := True, t_hb := True\<rparr>))))"

definition talk_connect :: "reply option \<Rightarrow> talk \<Rightarrow> (talk_error + bool) \<times> talk" where
  "talk_connect io t = (if t_connected t then (Inr True, t) else talk_connect_inner io t)"

definition talk_send_audio :: "bytes \<Rightarrow> nat \<Rightarrow> talk \<Rightarrow> talk" where
  "talk_send_audio aac_frame timestamp_samples t =
     (if \<not> t_udp t then t
      else case build_rtp_header RTP_PAYLOAD_TYPE timestamp_samples (t_ssrc t) (t_seq_num t) of
             None \<Rightarrow> t
           | Some header \<Rightarrow> t\<lparr>t_seq_num := t_seq_num t + 1, t_udp_sent := t_udp_sent t @ [header @ aac_frame]\<rparr>)"

definition talk_disconnect :: "talk \<Rightarrow> (talk_error + unit) \<times> talk" where
  "talk_disconnect t0 =
     (let t = t0\<lparr>t_connected := False, t_hb := False\<rparr>
      in if \<not> t_tcp t then (Inr (), (close_tcp t)\<lparr>t_udp := False\<rparr>)
         else case build_packet TYPE_STOP_VOICE (t_session_ts t) of
                None \<Rightarrow> (Inl Struct_Error, t)
              | Some p \<Rightarrow> (Inr (), (close_tcp (talk_write p t))\<lparr>t_udp := False\<rparr>))"

definition talk_dead :: "talk \<Rightarrow> talk" where
  "talk_dead t = (close_tcp (t\<lparr>t_connected := False\<rparr>))\<lparr>t_udp := False, t_hb := False\<rparr>"

text \<open>One turn of the heartbeat task after its sleep, from the count of failures so far.\<close>

definition talk_heartbeat_turn :: "reply \<Rightarrow> nat \<Rightarrow> talk \<Rightarrow> hb_end \<times> talk" where
  "talk_heartbeat_turn reply failures t0 =
     (if \<not> t_connected t0 \<or> \<not> t_tcp t0 then (Hb_Stopped, t0\<lparr>t_hb := False\<rparr>)
      else case build_packet TYPE_HEARTBEAT (t_session_ts t0) of
             None \<Rightarrow> (Hb_Raised Struct_Error, t0\<lparr>t_hb := False\<rparr>)
           | Some pkt \<Rightarrow>
               (let t = talk_write pkt t0;
                    answer = (case reply of Answer resp \<Rightarrow> ack_ok resp | _ \<Rightarrow> Inr False)
                in if reply = Answer [] then (Hb_Gave_Up, talk_dead t)
                   else case answer of
                     Inl e \<Rightarrow> (Hb_Raised e, t\<lparr>t_hb := False\<rparr>)
                   | Inr ok \<Rightarrow>
                       if ok then (Hb_Running 0, t)
                       else if failures + 1 > 5 then (Hb_Gave_Up, talk_dead t)
                       else (Hb_Running (failures + 1), t)))"

text \<open>The client and the failures its heartbeat task has counted, under the calls of its owner.\<close>

datatype talk_event =
    Talk_Connect "reply option"
  | Talk_Frame bytes nat
  | Talk_Disconnect
  | Talk_Heartbeat reply

fun talk_step :: "talk_event \<Rightarrow> nat \<times> talk \<Rightarrow> nat \<times> talk" where
  "talk_step (Talk_Connect io) (n, t) = (if t_connected t then n else 0, snd (talk_connect io t))"
| "talk_step (Talk_Frame f ts) (n, t) = (n, talk_send_audio f ts t)"
| "talk_step Talk_Disconnect (n, t) = (n, snd (talk_disconnect t))"
| "talk_step (Talk_Heartbeat reply) (n, t) =
     (if \<not> t_hb t then (n, t)
      else case talk_heartbeat_turn reply n t of (Hb_Running k, t) \<Rightarrow> (k, t) | (_, t) \<Rightarrow> (n, t))"

section \<open>The encoder loses and repeats nothing\<close>

lemma split_prefix:
  "concat fs = p @ m \<Longrightarrow> [] \<notin> set fs \<Longrightarrow> \<exists>gs hs q. fs = gs @ hs \<and> p = concat gs @ q \<and> partial_frame q hs"
proof (induction fs arbitrary: p)
  case (Cons f fs)
  then consider us where "f = p @ us" | us where "p = f @ us" "concat fs = us @ m"
    by (auto simp: append_eq_append_conv2)
  then show ?case
  proof cases
    case 1
    show ?thesis
    proof (cases "us = []")
      case True
      have "partial_frame [] fs" using Cons.prems(2) by (cases fs) (auto simp: partial_frame_def)
      then show ?thesis using 1 True by (intro exI [of _ "[f]"] exI [of _ fs] exI [of _ "[]"]) simp
    next
      case False
      then show ?thesis using 1
        by (intro exI [of _ "[]"] exI [of _ "f # fs"] exI [of _ p]) (simp add: partial_frame_def)
    qed
  next
    case 2
    then obtain gs hs q where "fs = gs @ hs \<and> us = concat gs @ q \<and> partial_frame q hs"
      using Cons.IH [of us] Cons.prems(2) by auto
    then show ?thesis using 2 by (intro exI [of _ "f # gs"] exI [of _ hs] exI [of _ q]) simp
  qed
qed (simp add: partial_frame_def)

lemma frames_nonempty: "\<forall>f \<in> set fs. adts_frame f \<Longrightarrow> [] \<notin> set fs"
  by (auto simp: adts_frame_def)

lemma drain_eq:
  "drain e = (let fs = extract_adts_frames (enc_buffer e) in (fs, e\<lparr>enc_buffer := drop (length (concat fs)) (enc_buffer e)\<rparr>))"
  by (cases e) (simp add: drain_def Let_def length_concat extract_short)

lemma drain_stream:
  assumes "\<forall>f \<in> set fs. adts_frame f" "concat fs = enc_buffer e @ rest"
  obtains gs hs q where "fs = gs @ hs" "drain e = (gs, e\<lparr>enc_buffer := q\<rparr>)" "concat hs = q @ rest" "partial_frame q hs"
proof -
  obtain gs hs q where s: "fs = gs @ hs" "enc_buffer e = concat gs @ q" "partial_frame q hs"
    using split_prefix [OF assms(2) frames_nonempty [OF assms(1)]] by blast
  have "extract_adts_frames (enc_buffer e) = gs"
    unfolding s(2) using assms(1) s(1) extract_partial [OF s(3)] by (intro extract_stream) auto
  then have "drain e = (gs, e\<lparr>enc_buffer := q\<rparr>)" by (simp add: drain_eq s(2))
  moreover have "concat hs = q @ rest" using assms(2) s(1,2) by simp
  ultimately show ?thesis using that s by blast
qed

definition ready_encoder :: "encoder \<Rightarrow> bool" where
  "ready_encoder e = (started e \<and> stdin_open e)"

lemma write_all_stream:
  "\<forall>f \<in> set fs. adts_frame f \<Longrightarrow> \<forall>cs \<in> set css. [] \<notin> set cs \<Longrightarrow> ready_encoder e \<Longrightarrow>
   partial_frame (enc_buffer e) fs \<Longrightarrow> concat fs = enc_buffer e @ concat (map concat css) @ rest \<Longrightarrow>
   \<exists>fss e' gs hs. write_all css e = (fss, e') \<and> fs = gs @ hs \<and> concat fss = gs \<and> partial_frame (enc_buffer e') hs \<and>
     concat hs = enc_buffer e' @ rest"
proof (induction css arbitrary: e fs)
  case Nil
  then show ?case by simp
next
  case (Cons cs css)
  let ?e = "e\<lparr>enc_buffer := enc_buffer e @ concat cs\<rparr>"
  have tw: "takeWhile (\<lambda>c. c \<noteq> []) cs = cs" using Cons.prems(2) by (auto simp: takeWhile_eq_all_conv)
  have w: "write_pcm False cs e = (case drain ?e of (frames, e) \<Rightarrow> (Inr frames, e))"
    using Cons.prems(3) by (simp add: write_pcm_def ready_encoder_def tw)
  obtain gs hs q where d: "fs = gs @ hs" "drain ?e = (gs, ?e\<lparr>enc_buffer := q\<rparr>)"
      "concat hs = q @ concat (map concat css) @ rest" "partial_frame q hs"
    using drain_stream [OF Cons.prems(1), of ?e "concat (map concat css) @ rest"] Cons.prems(5) by auto
  have "\<exists>fss e' gs' hs'. write_all css (?e\<lparr>enc_buffer := q\<rparr>) = (fss, e') \<and> hs = gs' @ hs' \<and> concat fss = gs' \<and>
      partial_frame (enc_buffer e') hs' \<and> concat hs' = enc_buffer e' @ rest"
    using Cons.IH [of hs "?e\<lparr>enc_buffer := q\<rparr>"] Cons.prems(1,2,3) d by (simp add: ready_encoder_def)
  then show ?case using d w by fastforce
qed

text \<open>
  C32 [encoder_stream]
  However the output of the encoder process is cut into reads, the frames the calls of write_pcm have
  returned are at every moment exactly the complete frames received so far, in order, and what is
  kept is the beginning of the next frame; at the end of a whole frame nothing is left.
\<close>

theorem encoder_stream:
  assumes "\<forall>f \<in> set fs. adts_frame f" "\<forall>cs \<in> set css. [] \<notin> set cs" "concat fs = concat (map concat css) @ rest"
  shows "\<exists>fss e' gs hs. write_all css (enc_start new_encoder) = (fss, e') \<and> fs = gs @ hs \<and> concat fss = gs \<and>
    partial_frame (enc_buffer e') hs \<and> concat hs = enc_buffer e' @ rest"
proof -
  have "partial_frame [] fs" using frames_nonempty [OF assms(1)] by (cases fs) (auto simp: partial_frame_def)
  then show ?thesis
    using write_all_stream [of fs css "enc_start new_encoder" rest] assms
    by (simp add: ready_encoder_def enc_start_def new_encoder_def)
qed

definition silence :: bytes where
  "silence = [0xFF, 0xF1, 0x60, 0x40, 0x01, 0x3F, 0xFC, 0x00, 0x21]"

lemma silence_frame: "adts_frame silence"
  by (simp add: adts_frame_def adts_sync_def adts_frame_len_def silence_def)

theorem encoder_stream_witness:
  "\<exists>fss e' gs hs. write_all [[take 4 silence], [drop 4 silence @ silence, take 2 silence]] (enc_start new_encoder) = (fss, e') \<and>
     [silence, silence, silence] = gs @ hs \<and> concat fss = gs \<and> partial_frame (enc_buffer e') hs \<and> concat hs = enc_buffer e' @ drop 2 silence"
  by (rule encoder_stream) (simp_all add: silence_frame, simp_all add: silence_def)

lemma extract_junk:
  "\<forall>b \<in> set junk. b \<noteq> 0xFF \<Longrightarrow> 8 \<le> length g \<Longrightarrow> extract_adts_frames (junk @ g) = extract_adts_frames g"
proof (induction junk)
  case (Cons b junk)
  have "extract_adts_frames (b # junk @ g) = extract_adts_frames (junk @ g)"
    by (subst extract_adts_frames.simps) (use Cons.prems in \<open>simp add: adts_sync_def\<close>)
  then show ?case using Cons by simp
qed simp

text \<open>
  Bytes without a sync word in front of a frame are skipped but not counted as consumed: as much of the
  frame's end stays in the buffer, and when the junk is as long as the frame, the frame is
  returned again by the next call although the process wrote nothing else.
\<close>

theorem junk_replays_frame:
  assumes "adts_frame f" "\<forall>b \<in> set junk. b \<noteq> 0xFF" "junk \<noteq> []"
  shows "\<exists>e'. write_pcm False [junk @ f] (enc_start new_encoder) = (Inr [f], e') \<and> enc_buffer e' = drop (length f) (junk @ f) \<and>
    (length junk = length f \<longrightarrow> fst (write_pcm False [] e') = Inr [f])"
proof -
  have l: "8 \<le> length f" using assms(1) by (simp add: adts_frame_def)
  have f: "extract_adts_frames f = [f]" using extract_frame [OF assms(1), of "[]"] by (simp add: extract_short)
  then have "extract_adts_frames (junk @ f) = [f]" using extract_junk [OF assms(2) l] by simp
  then show ?thesis
    using assms(3) l f by (simp add: write_pcm_def enc_start_def new_encoder_def drain_eq)
qed

theorem junk_replays_frame_witness:
  "\<exists>e'. write_pcm False [replicate 9 0 @ silence] (enc_start new_encoder) = (Inr [silence], e') \<and>
     fst (write_pcm False [] e') = Inr [silence]"
proof -
  have "length (replicate 9 (0 :: byte)) = length silence" by (simp add: silence_def)
  then show ?thesis using junk_replays_frame [OF silence_frame, of "replicate 9 0"] by auto
qed

section \<open>Audio packets\<close>

lemma header97: "\<exists>h. build_rtp_header 97 ts sid k = Some h \<and> length h = 12"
  by (simp add: build_rtp_header_def to_bytes_be_def be_bytes_def)

definition audio_packet :: "nat \<Rightarrow> nat \<Rightarrow> nat \<Rightarrow> bytes \<Rightarrow> bytes" where
  "audio_packet ts sid k f = (case build_rtp_header RTP_PAYLOAD_TYPE ts sid k of Some h \<Rightarrow> h @ f | None \<Rightarrow> f)"

lemma bridge_send_open:
  "udp_sock b \<Longrightarrow> bridge_send_audio f b =
     b\<lparr>seq_num := seq_num b + 1, udp_sent := udp_sent b @ [audio_packet (seq_num b * 1024) (ssrc b) (seq_num b) f]\<rparr>"
  using header97 [of "seq_num b * 1024" "ssrc b" "seq_num b"]
  by (auto simp: bridge_send_audio_def audio_packet_def RTP_PAYLOAD_TYPE_def)

lemma bridge_send_all:
  "udp_sock b \<Longrightarrow> foldl (\<lambda>b f. bridge_send_audio f b) b fs =
     b\<lparr>seq_num := seq_num b + length fs,
       udp_sent := udp_sent b @ map2 (\<lambda>k f. audio_packet (k * 1024) (ssrc b) k f) [seq_num b ..< seq_num b + length fs] fs\<rparr>"
proof (induction fs arbitrary: b)
  case (Cons f fs)
  let ?b = "b\<lparr>seq_num := seq_num b + 1, udp_sent := udp_sent b @ [audio_packet (seq_num b * 1024) (ssrc b) (seq_num b) f]\<rparr>"
  have "[seq_num b ..< seq_num b + length (f # fs)] = seq_num b # [seq_num b + 1 ..< seq_num b + 1 + length fs]"
    by (simp add: upt_conv_Cons del: upt_Suc)
  then show ?case
    using Cons.IH [of ?b] Cons.prems by (simp add: bridge_send_open del: upt_Suc)
qed simp

text \<open>
  The bridge sends one datagram per frame, in order: the k-th frame of a session goes out behind an RTP
  header with sequence number k modulo 65536 and timestamp 1024 k modulo 2^32, so both wrap around
  instead of failing.
\<close>

theorem bridge_rtp_stream:
  assumes "udp_sock b" "seq_num b = 0" "udp_sent b = []" "k < length fs"
  shows "\<exists>h. udp_sent (foldl (\<lambda>b f. bridge_send_audio f b) b fs) ! k = h @ fs ! k \<and> length h = 12 \<and>
    length (udp_sent (foldl (\<lambda>b f. bridge_send_audio f b) b fs)) = length fs \<and>
    nat_of_be (pyslice 2 4 h) = k mod 65536 \<and> nat_of_be (pyslice 4 8 h) = k * 1024 mod 2 ^ 32"
proof -
  have n: "udp_sent (foldl (\<lambda>b f. bridge_send_audio f b) b fs) =
      map2 (\<lambda>k f. audio_packet (k * 1024) (ssrc b) k f) [0 ..< length fs] fs"
    using bridge_send_all [OF assms(1), of fs] assms(2,3) by simp
  have "(97 :: nat) < 256" by simp
  then obtain h where h: "build_rtp_header 97 (k * 1024) (ssrc b) k = Some h" "length h = 12"
      "nat_of_be (pyslice 2 4 h) = k mod 65536" "nat_of_be (pyslice 4 8 h) = k * 1024 mod 2 ^ 32"
    using rtp_header_fields [of 97 "k * 1024" "ssrc b" k] by blast
  then have "udp_sent (foldl (\<lambda>b f. bridge_send_audio f b) b fs) ! k = h @ fs ! k"
    using assms(4) by (simp add: n audio_packet_def RTP_PAYLOAD_TYPE_def)
  then show ?thesis using h(2-4) n assms(4) by (intro exI [of _ h]) simp
qed

theorem bridge_rtp_stream_witness:
  "\<exists>h. udp_sent (foldl (\<lambda>b f. bridge_send_audio f b) ((new_bridge 0 5)\<lparr>udp_sock := True\<rparr>) [[1], [2]]) ! 1 = h @ [2] \<and> length h = 12"
  using bridge_rtp_stream [of "(new_bridge 0 5)\<lparr>udp_sock := True\<rparr>" 1 "[[1], [2]]"] by (auto simp: new_bridge_def)

section \<open>Heartbeats\<close>

definition hb_ok :: "control_io \<Rightarrow> bool" where
  "hb_ok io = (case io of Received r \<Rightarrow> ack_ok r = Inr True | _ \<Rightarrow> False)"

definition hb_bad :: "control_io \<Rightarrow> bool" where
  "hb_bad io = (case io of Received r \<Rightarrow> ack_ok r = Inr False | _ \<Rightarrow> True)"

lemma heartbeat_packet: "ts < 2 ^ 64 \<Longrightarrow> \<exists>p. build_packet TYPE_HEARTBEAT ts = Some p"
  by (simp add: build_packet_def to_bytes_be_def TYPE_HEARTBEAT_def TYPE_ACK_def Let_def)

definition beating :: "bridge \<Rightarrow> bool" where
  "beating b = (running b \<and> tcp_sock b \<and> \<not> stop_event b \<and> session_ts b < 2 ^ 64)"

lemma heartbeat_turn_ok:
  assumes "beating b" "hb_ok io"
  shows "\<exists>b'. bridge_heartbeat_turn io n b = (Hb_Running 0, b') \<and> beating b'"
  using assms heartbeat_packet [of "session_ts b"]
  by (auto simp: bridge_heartbeat_turn_def beating_def hb_ok_def split: control_io.splits)

lemma heartbeat_turn_bad:
  assumes "beating b" "hb_bad io"
  shows "\<exists>b'. bridge_heartbeat_turn io n b = (if n \<ge> 5 then Hb_Gave_Up else Hb_Running (n + 1), b') \<and> (n < 5 \<longrightarrow> beating b')"
  using assms heartbeat_packet [of "session_ts b"]
  by (auto simp: bridge_heartbeat_turn_def beating_def hb_bad_def Let_def split: control_io.splits)

definition bad_run :: "nat \<Rightarrow> control_io list \<Rightarrow> bool" where
  "bad_run n ys = (length ys = n \<and> list_all hb_bad ys)"

lemma ok_not_bad: "hb_ok io \<Longrightarrow> \<not> hb_bad io"
  by (auto simp: hb_ok_def hb_bad_def split: control_io.splits)

lemma pre_sub: "prefix ys xs \<Longrightarrow> sublist ys xs"
  by (rule prefix_imp_sublist)

lemma heartbeats_give_up:
  "beating b \<Longrightarrow> n \<le> 5 \<Longrightarrow> list_all (\<lambda>io. hb_ok io \<or> hb_bad io) ios \<Longrightarrow>
   fst (bridge_heartbeats ios n b) = Hb_Gave_Up \<longleftrightarrow>
     (\<exists>ys. bad_run (6 - n) ys \<and> prefix ys ios) \<or> (\<exists>ys. bad_run 6 ys \<and> sublist ys ios)"
proof (induction ios arbitrary: n b)
  case Nil
  then have "0 < 6 - n" by simp
  then show ?case by (auto simp: bad_run_def)
next
  case (Cons io ios)
  show ?case
  proof (cases "hb_ok io")
    case True
    obtain b' where b: "bridge_heartbeat_turn io n b = (Hb_Running 0, b')" "beating b'"
      using heartbeat_turn_ok [OF Cons.prems(1) True] by blast
    have no: "\<not> (bad_run (Suc k) ys \<and> prefix ys (io # ios))" for k ys
      using ok_not_bad [OF True] by (cases ys) (auto simp: bad_run_def)
    have "6 - n = Suc (5 - n)" using Cons.prems(2) by simp
    then have "(\<exists>ys. bad_run (6 - n) ys \<and> prefix ys (io # ios)) \<or> (\<exists>ys. bad_run 6 ys \<and> sublist ys (io # ios)) \<longleftrightarrow>
        (\<exists>ys. bad_run 6 ys \<and> sublist ys ios)"
      using no [of 5] no [of "5 - n"] by (auto simp: sublist_Cons_right numeral_eq_Suc)
    moreover have "(\<exists>ys. bad_run 6 ys \<and> prefix ys ios) \<Longrightarrow> (\<exists>ys. bad_run 6 ys \<and> sublist ys ios)"
      using pre_sub by blast
    ultimately show ?thesis using Cons.IH [OF b(2), of 0] Cons.prems(3) b(1) by auto
  next
    case False
    then have bad: "hb_bad io" using Cons.prems(3) by simp
    obtain b' where b: "bridge_heartbeat_turn io n b = (if n \<ge> 5 then Hb_Gave_Up else Hb_Running (n + 1), b')" "n < 5 \<longrightarrow> beating b'"
      using heartbeat_turn_bad [OF Cons.prems(1) bad] by blast
    show ?thesis
    proof (cases "n = 5")
      case True
      then have "bad_run (6 - n) [io] \<and> prefix [io] (io # ios)" using bad by (simp add: bad_run_def)
      then show ?thesis using b(1) True by auto
    next
      case n: False
      have e: "(\<exists>ys. bad_run (6 - n) ys \<and> prefix ys (io # ios)) \<longleftrightarrow> (\<exists>ys. bad_run (5 - n) ys \<and> prefix ys ios)"
      proof
        assume "\<exists>ys. bad_run (6 - n) ys \<and> prefix ys (io # ios)"
        then obtain ys where "bad_run (6 - n) ys" "prefix ys (io # ios)" by blast
        then show "\<exists>ys. bad_run (5 - n) ys \<and> prefix ys ios"
          using Cons.prems(2) n by (cases ys) (auto simp: bad_run_def intro!: exI [of _ "tl ys"])
      next
        assume "\<exists>ys. bad_run (5 - n) ys \<and> prefix ys ios"
        then obtain ys where "bad_run (5 - n) ys" "prefix ys ios" by blast
        then show "\<exists>ys. bad_run (6 - n) ys \<and> prefix ys (io # ios)"
          using bad Cons.prems(2) n by (intro exI [of _ "io # ys"]) (auto simp: bad_run_def)
      qed
      have s: "(\<exists>ys. bad_run 6 ys \<and> sublist ys (io # ios)) \<Longrightarrow>
          (\<exists>ys. bad_run (5 - n) ys \<and> prefix ys ios) \<or> (\<exists>ys. bad_run 6 ys \<and> sublist ys ios)"
      proof -
        assume "\<exists>ys. bad_run 6 ys \<and> sublist ys (io # ios)"
        then obtain ys where y: "bad_run 6 ys" "prefix ys (io # ios) \<or> sublist ys ios" by (auto simp: sublist_Cons_right)
        show ?thesis
        proof (cases "sublist ys ios")
          case False
          then have p: "prefix ys (io # ios)" using y(2) by blast
          have "prefix (take (6 - n) ys) ys" by (rule take_is_prefix)
          then have "prefix (take (6 - n) ys) (io # ios)" using p prefix_order.trans by blast
          moreover have "bad_run (6 - n) (take (6 - n) ys)" using y(1)
            by (auto simp: bad_run_def list_all_iff dest: in_set_takeD)
          ultimately show ?thesis using e by blast
        qed (use y in blast)
      qed
      have s': "(\<exists>ys. bad_run 6 ys \<and> sublist ys ios) \<Longrightarrow> (\<exists>ys. bad_run 6 ys \<and> sublist ys (io # ios))"
        by (auto simp: sublist_Cons_right)
      have "n < 5" using n Cons.prems(2) by simp
      then have "fst (bridge_heartbeats (io # ios) n b) = fst (bridge_heartbeats ios (n + 1) b')" using b(1) by simp
      then show ?thesis using Cons.IH [of b' "n + 1"] b(2) Cons.prems(3) \<open>n < 5\<close> e s s' by auto
    qed
  qed
qed

text \<open>
  While no answer raises, the heartbeat loop of a running bridge gives the session up exactly when six
  consecutive exchanges fail; five failures between two good answers never end it.
\<close>

theorem heartbeat_gives_up:
  assumes "running b" "tcp_sock b" "\<not> stop_event b" "session_ts b < 2 ^ 64"
    "list_all (\<lambda>io. hb_ok io \<or> hb_bad io) ios"
  shows "fst (bridge_heartbeats ios 0 b) = Hb_Gave_Up \<longleftrightarrow> (\<exists>ys. length ys = 6 \<and> list_all hb_bad ys \<and> sublist ys ios)"
proof -
  have "fst (bridge_heartbeats ios 0 b) = Hb_Gave_Up \<longleftrightarrow>
      (\<exists>ys. bad_run 6 ys \<and> prefix ys ios) \<or> (\<exists>ys. bad_run 6 ys \<and> sublist ys ios)"
    using heartbeats_give_up [of b 0 ios] assms by (simp add: beating_def)
  then show ?thesis using pre_sub by (auto simp: bad_run_def)
qed

theorem heartbeat_gives_up_witness:
  "fst (bridge_heartbeats (replicate 6 Io_Fails) 0 ((new_bridge 0 5)\<lparr>tcp_sock := True, running := True\<rparr>)) = Hb_Gave_Up"
proof -
  have "\<exists>ys. length ys = 6 \<and> list_all hb_bad ys \<and> sublist ys (replicate 6 Io_Fails)"
    by (intro exI [of _ "replicate 6 Io_Fails"]) (simp add: hb_bad_def list_all_iff)
  then show ?thesis
    using heartbeat_gives_up [of "(new_bridge 0 5)\<lparr>tcp_sock := True, running := True\<rparr>" "replicate 6 Io_Fails"]
    by (simp add: new_bridge_def hb_bad_def list_all_iff)
qed

section \<open>Invariant of the talk client\<close>

text \<open>Nothing raises: no flush fails and no answer is an ACK without a payload.\<close>

fun clean_reply :: "reply \<Rightarrow> bool" where
  "clean_reply Drain_Fails = False"
| "clean_reply No_Answer = True"
| "clean_reply (Answer r) = (ack_ok r \<noteq> Inl Index_Error)"

fun clean_talk :: "talk_event \<Rightarrow> bool" where
  "clean_talk (Talk_Connect (Some r)) = clean_reply r"
| "clean_talk (Talk_Heartbeat (Answer r)) = (ack_ok r \<noteq> Inl Index_Error)"
| "clean_talk e = True"

definition talk_ok :: "talk \<Rightarrow> bool" where
  "talk_ok t = (t_tcp t = t_connected t \<and> t_udp t = t_connected t \<and> t_hb t = t_connected t \<and> t_session_ts t < 2 ^ 64)"

lemma packet_exists: "ty \<in> {TYPE_START_VOICE, TYPE_STOP_VOICE, TYPE_HEARTBEAT} \<Longrightarrow> ts < 2 ^ 64 \<Longrightarrow> \<exists>p. build_packet ty ts = Some p"
  by (auto simp: build_packet_def to_bytes_be_def TYPE_HEARTBEAT_def TYPE_START_VOICE_def TYPE_STOP_VOICE_def TYPE_ACK_def Let_def)

lemma ack_errors: "ack_ok r = Inl e \<Longrightarrow> e = Index_Error"
  by (auto simp: ack_ok_def split: sum.splits option.splits if_splits)

lemma talk_connect_ok:
  assumes "talk_ok t" "clean_talk (Talk_Connect io)"
  shows "talk_ok (snd (talk_connect io t))"
proof (cases "t_connected t \<or> io = None")
  case True
  then show ?thesis using assms(1) by (auto simp: talk_connect_def talk_connect_inner_def)
next
  case False
  then obtain r where io: "io = Some r" "\<not> t_connected t" by auto
  obtain p where p: "build_packet TYPE_START_VOICE (t_session_ts t) = Some p"
    using packet_exists assms(1) by (auto simp: talk_ok_def)
  show ?thesis
  proof (cases r)
    case (Answer resp)
    then have "ack_ok resp \<noteq> Inl e" for e using assms(2) io ack_errors [of resp e] by auto
    then obtain ok where "ack_ok resp = Inr ok" by (cases "ack_ok resp") auto
    then show ?thesis using assms(1) io p Answer
      by (simp add: talk_connect_def talk_connect_inner_def Let_def talk_ok_def close_tcp_def talk_write_def)
  qed (use assms io p in \<open>simp_all add: talk_connect_def talk_connect_inner_def Let_def talk_ok_def close_tcp_def talk_write_def\<close>)
qed

lemma talk_turn_ok:
  assumes "talk_ok t" "clean_talk (Talk_Heartbeat reply)" "t_hb t"
  shows "talk_ok (snd (talk_heartbeat_turn reply n t))"
proof -
  obtain p where p: "build_packet TYPE_HEARTBEAT (t_session_ts t) = Some p"
    using packet_exists assms(1) by (auto simp: talk_ok_def)
  have "(case reply of Answer r \<Rightarrow> ack_ok r | _ \<Rightarrow> Inr False) \<noteq> Inl e" for e
    using assms(2) ack_errors by (cases reply) auto
  then obtain ok where "(case reply of Answer r \<Rightarrow> ack_ok r | _ \<Rightarrow> Inr False) = Inr ok"
    by (cases "(case reply of Answer r \<Rightarrow> ack_ok r | _ \<Rightarrow> Inr False)") auto
  then show ?thesis using assms(1,3) p
    by (simp add: talk_heartbeat_turn_def Let_def talk_ok_def talk_dead_def close_tcp_def talk_write_def)
qed

lemma talk_disconnect_ok: "talk_ok t \<Longrightarrow> talk_ok (snd (talk_disconnect t))"
  using packet_exists [of TYPE_STOP_VOICE "t_session_ts t"]
  by (auto simp: talk_ok_def talk_disconnect_def Let_def close_tcp_def talk_write_def)

lemma talk_audio_ok: "talk_ok t \<Longrightarrow> talk_ok (talk_send_audio f ts t)"
  by (simp add: talk_send_audio_def talk_ok_def split: option.split)

lemma talk_step_ok:
  assumes "talk_ok t" "clean_talk e"
  shows "talk_ok (snd (talk_step e (n, t)))"
proof (cases e)
  case (Talk_Heartbeat reply)
  have "snd (talk_step e (n, t)) = (if t_hb t then snd (talk_heartbeat_turn reply n t) else t)"
    unfolding Talk_Heartbeat by (simp split: prod.split hb_end.split)
  then show ?thesis using assms talk_turn_ok Talk_Heartbeat by auto
qed (use assms in \<open>simp_all add: talk_connect_ok talk_audio_ok talk_disconnect_ok\<close>)

lemma talk_run_ok: "talk_ok (snd s) \<Longrightarrow> list_all clean_talk es \<Longrightarrow> talk_ok (snd (foldl (\<lambda>s e. talk_step e s) s es))"
proof (induction es arbitrary: s)
  case (Cons e es)
  then show ?case using talk_step_ok [of "snd s" e "fst s"] by simp
qed simp


definition good_ack :: bytes where "good_ack = CAM_MAGIC @ [2, 0, 1, 0] @ crc_bytes [2, 0, 1, 0]"
definition empty_ack :: bytes where "empty_ack = CAM_MAGIC @ [2, 0, 0] @ crc_bytes [2, 0, 0] @ [0]"


text \<open>
  An acknowledgement without payload ends the heartbeat task with an IndexError: the client stays
  connected, and from then on connecting again does nothing and no heartbeat is sent, so the camera
  drops a session that the client believes alive.
\<close>

theorem zombie_talk_session:
  assumes "t_connected t" "t_tcp t" "t_session_ts t < 2 ^ 64"
  shows "\<exists>t'. talk_heartbeat_turn (Answer empty_ack) n t = (Hb_Raised Index_Error, t') \<and> t_connected t' \<and> \<not> t_hb t' \<and>
    talk_connect io t' = (Inr True, t') \<and> talk_step (Talk_Heartbeat reply) (k, t') = (k, t')"
proof -
  have a: "ack_ok empty_ack = Inl Index_Error" "empty_ack \<noteq> []"
    using empty_ack_raises [of 0 "[]"] by (simp_all add: ack_ok_def empty_ack_def CAM_MAGIC_def)
  obtain p where p: "build_packet TYPE_HEARTBEAT (t_session_ts t) = Some p"
    using packet_exists assms(3) by auto
  show ?thesis using assms a p
    by (simp add: talk_heartbeat_turn_def talk_write_def talk_connect_def)
qed

theorem zombie_talk_session_witness:
  "fst (talk_heartbeat_turn (Answer empty_ack) 0 ((new_talk 5 9)\<lparr>t_connected := True, t_tcp := True, t_hb := True\<rparr>)) = Hb_Raised Index_Error"
  using zombie_talk_session [of "(new_talk 5 9)\<lparr>t_connected := True, t_tcp := True, t_hb := True\<rparr>" 0 None No_Answer 0]
  by (auto simp: new_talk_def)

end
