(* ===== verification/Rtsp.thy ===== *)
theory Rtsp
  imports Protocol Net_Addr
begin

text \<open>
  \<open>device/camera/rtsp.py\<close> and \<open>device/camera/go2rtc.py\<close>: choosing a stream URL from a trait value, the
  parts of it that Python's \<open>urllib.parse\<close> reads, the sources handed to go2rtc and the entries of its
  configuration file. Two kinds of failure: \<open>Url_Error\<close> is the ValueError of \<open>urlsplit\<close>,
  \<open>Text_Beyond\<close> a character beyond those of the model.
\<close>

section \<open>Text\<close>

definition lower_char :: "char \<Rightarrow> char" where
  "lower_char c =
     (let n = char_code c in if 65 \<le> n \<and> n \<le> 90 \<or> 192 \<le> n \<and> n \<le> 222 \<and> n \<noteq> 215 then char_of (n + 32) else c)"

definition lower :: "string \<Rightarrow> string" where
  "lower s = map lower_char s"

definition starts_rtsp :: "string \<Rightarrow> bool" where
  "starts_rtsp s = (take 7 (lower s) = ''rtsp://'')"

section \<open>Quoting\<close>

definition unreserved :: "char \<Rightarrow> bool" where
  "unreserved c = (ascii_alnum c \<or> c \<in> {CHR ''_'', CHR ''.'', CHR ''-'', CHR ''~''})"

definition upper_hex :: "nat \<Rightarrow> char" where
  "upper_hex d = (if d < 10 then digit_char d else char_of (55 + d))"

definition quote_byte :: "byte \<Rightarrow> string" where
  "quote_byte b =
     (let c = char_of (unat b)
      in if unreserved c then [c] else [CHR ''%'', upper_hex (unat b div 16), upper_hex (unat b mod 16)])"

definition quote :: "string \<Rightarrow> string" where
  "quote s = concat (map quote_byte (utf8_encode s))"

fun unquote_to_bytes :: "string \<Rightarrow> bytes" where
  "unquote_to_bytes [] = []"
| "unquote_to_bytes (c # s) =
     (case s of
        x # y # r \<Rightarrow>
          if c = CHR ''%'' \<and> hex_val x \<noteq> None \<and> hex_val y \<noteq> None
          then word_of_nat (16 * the (hex_val x) + the (hex_val y)) # unquote_to_bytes r
          else word_of_nat (char_code c) # unquote_to_bytes s
      | _ \<Rightarrow> word_of_nat (char_code c) # unquote_to_bytes s)"

text \<open>Runs of ASCII characters are decoded, what is between them stays.\<close>

function unquote :: "string \<Rightarrow> string option" where
  "unquote [] = Some []"
| "unquote (c # s) =
     (if char_code c < 128
      then (case (utf8_decode (unquote_to_bytes (takeWhile (\<lambda>c. char_code c < 128) (c # s))), unquote (dropWhile (\<lambda>c. char_code c < 128) s)) of
              (Inr t, Some u) \<Rightarrow> Some (t @ u)
            | _ \<Rightarrow> None)
      else map_option ((#) c) (unquote s))"
  by pat_completeness auto
termination by (relation "measure length") (auto simp: le_imp_less_Suc length_dropWhile_le)

section \<open>urlsplit\<close>

definition strip_url :: "string \<Rightarrow> string" where
  "strip_url url = filter (\<lambda>c. c \<notin> {CHR 0x09, CHR 0x0A, CHR 0x0D}) (dropWhile (\<lambda>c. char_code c \<le> 32) url)"

definition scheme_char :: "char \<Rightarrow> bool" where
  "scheme_char c = (ascii_alnum c \<or> c \<in> {CHR ''+'', CHR ''-'', CHR ''.''})"

definition drop_scheme :: "string \<Rightarrow> string" where
  "drop_scheme url =
     (case partition_at (CHR '':'') url of
        (sch, Some rest) \<Rightarrow>
          if sch \<noteq> [] \<and> ascii_alnum (hd sch) \<and> \<not> ascii_digit (hd sch) \<and> list_all scheme_char sch then rest else url
      | _ \<Rightarrow> url)"

definition netloc_of :: "string \<Rightarrow> string" where
  "netloc_of url =
     (let u = drop_scheme (strip_url url)
      in if take 2 u = ''//'' then takeWhile (\<lambda>c. c \<notin> {CHR ''/'', CHR ''?'', CHR ''#''}) (drop 2 u) else [])"

definition after_last :: "char \<Rightarrow> string \<Rightarrow> string" where
  "after_last c s = rev (takeWhile (\<lambda>x. x \<noteq> c) (rev s))"

definition before_last :: "char \<Rightarrow> string \<Rightarrow> string option" where
  "before_last c s = (if c \<in> set s then Some (take (length s - length (after_last c s) - 1) s) else None)"

definition ip_future :: "string \<Rightarrow> bool" where
  "ip_future h =
     (case partition_at (CHR ''.'') h of
        (v, Some r) \<Rightarrow> length v \<ge> 2 \<and> list_all (\<lambda>c. hex_val c \<noteq> None) (tl v) \<and> r \<noteq> []
      | _ \<Rightarrow> False)"

definition bracketed_host_ok :: "string \<Rightarrow> bool" where
  "bracketed_host_ok h =
     (if take 1 h = ''v'' then ip_future h
      else case ip_address h of Some (IPv6 n) \<Rightarrow> True | _ \<Rightarrow> False)"

definition netloc_ok :: "string \<Rightarrow> bool" where
  "netloc_ok netloc =
     (let opened = CHR ''['' \<in> set netloc; closed = CHR '']'' \<in> set netloc; info = after_last (CHR ''@'') netloc in
      if opened \<noteq> closed then False
      else if \<not> opened then True
      else case partition_at (CHR ''['') info of
             (before, Some bracketed) \<Rightarrow>
               (case partition_at (CHR '']'') bracketed of
                  (h, port) \<Rightarrow> before = [] \<and> (case port of Some (c # r) \<Rightarrow> c = CHR '':'' | _ \<Rightarrow> True) \<and> bracketed_host_ok h)
           | (before, None) \<Rightarrow> bracketed_host_ok (fst (partition_at (CHR '':'') info)))"

definition url_hostname :: "string \<Rightarrow> string option" where
  "url_hostname netloc =
     (let info = after_last (CHR ''@'') netloc;
          h = (case partition_at (CHR ''['') info of
                 (b, Some bracketed) \<Rightarrow> fst (partition_at (CHR '']'') bracketed)
               | _ \<Rightarrow> fst (partition_at (CHR '':'') info))
      in if h = [] then None
         else case partition_at (CHR ''%'') h of
                (a, None) \<Rightarrow> Some (lower a)
              | (a, Some z) \<Rightarrow> Some (lower a @ CHR ''%'' # z))"

definition url_userinfo :: "string \<Rightarrow> string option \<times> string option" where
  "url_userinfo netloc =
     (case before_last (CHR ''@'') netloc of
        None \<Rightarrow> (None, None)
      | Some u \<Rightarrow> (case partition_at (CHR '':'') u of (n, p) \<Rightarrow> (Some n, p)))"

section \<open>The trait value\<close>

record rtsp_details =
  camera_ip :: string
  username :: "string option"
  password :: "string option"
  stream_url :: string

datatype rtsp_error = Url_Error | Text_Beyond

text \<open>The runs of digits of a key.\<close>

fun digit_runs :: "string \<Rightarrow> string \<Rightarrow> string list" where
  "digit_runs run [] = (if run = [] then [] else [run])"
| "digit_runs run (c # s) =
     (if ascii_digit c then digit_runs (run @ [c]) s else (if run = [] then [] else [run]) @ digit_runs [] s)"

definition resolution_score :: "string \<Rightarrow> nat" where
  "resolution_score key = foldr max (map text_nat (digit_runs [] key)) 0"

fun walk :: "json \<Rightarrow> string \<Rightarrow> (nat \<times> string) list" where
  "walk (JStr s) key_hint = (if starts_rtsp s then [(resolution_score key_hint, s)] else [])"
| "walk (JObj d) key_hint = concat (map (\<lambda>(k, v). walk v k) d)"
| "walk (JList xs) key_hint = concat (map (\<lambda>v. walk v key_hint) xs)"
| "walk v key_hint = []"

definition collect_rtsp_urls :: "string \<Rightarrow> rtsp_error + (nat \<times> string) list" where
  "collect_rtsp_urls raw =
     (let t = strip raw
      in if starts_rtsp t then Inr [(0, t)]
         else case loads t of
                Inl Malformed \<Rightarrow> Inr []
              | Inl Beyond \<Rightarrow> Inl Text_Beyond
              | Inr parsed \<Rightarrow> Inr (walk parsed []))"

text \<open>\<open>max(found, key = score)\<close>: the first of the best.\<close>

fun best :: "nat \<times> string \<Rightarrow> (nat \<times> string) list \<Rightarrow> nat \<times> string" where
  "best x [] = x"
| "best x (y # ys) = best (if fst x < fst y then y else x) ys"

definition unquote_part :: "string option \<Rightarrow> rtsp_error + string option" where
  "unquote_part p =
     (case p of
        None \<Rightarrow> Inr None
      | Some s \<Rightarrow> if s = [] then Inr None else (case unquote s of None \<Rightarrow> Inl Text_Beyond | Some t \<Rightarrow> Inr (Some t)))"

definition rtsp_details_of :: "string \<Rightarrow> rtsp_error + rtsp_details option" where
  "rtsp_details_of chosen =
     (let netloc = netloc_of chosen
      in if \<not> netloc_ok netloc then Inl Url_Error
         else case url_hostname netloc of
           None \<Rightarrow> Inr None
         | Some h \<Rightarrow>
             if \<not> is_safe_host h then Inr None
             else case (unquote_part (fst (url_userinfo netloc)), unquote_part (snd (url_userinfo netloc))) of
                    (Inr u, Inr p) \<Rightarrow> Inr (Some \<lparr>camera_ip = h, username = u, password = p, stream_url = chosen\<rparr>)
                  | _ \<Rightarrow> Inl Text_Beyond)"

definition parse_camera_rtsp_url :: "json \<Rightarrow> rtsp_error + rtsp_details option" where
  "parse_camera_rtsp_url raw =
     (case raw of
        JStr s \<Rightarrow>
          if s = [] then Inr None
          else (case collect_rtsp_urls s of
                  Inl e \<Rightarrow> Inl e
                | Inr [] \<Rightarrow> Inr None
                | Inr (x # xs) \<Rightarrow> rtsp_details_of (snd (best x xs)))
      | _ \<Rightarrow> Inr None)"

section \<open>Sources for go2rtc\<close>

definition RTSP_PORT :: nat where "RTSP_PORT = 8554"

text \<open>None: the ValueError of \<open>validate_host\<close>.\<close>

definition build_rtsp_source :: "string \<Rightarrow> string \<Rightarrow> string \<Rightarrow> nat \<Rightarrow> string option" where
  "build_rtsp_source ip user pwd channel =
     (case validate_host ip of
        None \<Rightarrow> None
      | Some h \<Rightarrow> Some (''rtsp://'' @ quote user @ '':'' @ quote pwd @ ''@'' @ ip @ '':'' @ nat_text RTSP_PORT @ ''/ch'' @ nat_text channel))"

text \<open>\<open>python\<close> is the interpreter's path, \<open>script\<close> the bridge's under the configuration directory.\<close>

definition build_exec_source :: "string \<Rightarrow> string \<Rightarrow> string \<Rightarrow> string option" where
  "build_exec_source python script ip =
     (case validate_host ip of
        None \<Rightarrow> None
      | Some h \<Rightarrow> Some (''exec:'' @ python @ '' '' @ script @ '' '' @ ip @ ''#backchannel=1''))"

section \<open>The configuration file\<close>

text \<open>
  The file is the value its YAML holds (None: no file); the second component is what is written, when
  something is. Every exception is caught and answers False.
\<close>

definition source_set :: "json \<Rightarrow> json set option" where
  "source_set v =
     (case v of
        JList xs \<Rightarrow> if list_all (\<lambda>x. case x of JList y \<Rightarrow> False | JObj y \<Rightarrow> False | _ \<Rightarrow> True) xs then Some (set xs) else None
      | JStr s \<Rightarrow> Some (set (map (\<lambda>c. JStr [c]) s))
      | JObj d \<Rightarrow> Some (set (map (JStr \<circ> fst) d))
      | _ \<Rightarrow> None)"

definition config_of :: "json option \<Rightarrow> json" where
  "config_of file = (case file of None \<Rightarrow> JObj [] | Some v \<Rightarrow> if truthy v then v else JObj [])"

definition register_stream :: "json option \<Rightarrow> string \<Rightarrow> string list \<Rightarrow> bool \<times> json option" where
  "register_stream file name sources =
     (case config_of file of
        JObj config \<Rightarrow>
          (case jget config ''streams'' (JObj []) of
             JObj streams \<Rightarrow>
               (case source_set (jget streams name (JList [])) of
                  None \<Rightarrow> (False, None)
                | Some existing \<Rightarrow>
                    if set (map JStr sources) = existing then (True, None)
                    else (True, Some (JObj (dset ''streams'' (JObj (dset name (JList (map JStr sources)) streams)) config))))
           | _ \<Rightarrow> (False, None))
      | _ \<Rightarrow> (False, None))"

definition remove_stream :: "json option \<Rightarrow> string \<Rightarrow> json option" where
  "remove_stream file name =
     (case file of
        None \<Rightarrow> None
      | Some v \<Rightarrow>
          (case config_of file of
             JObj config \<Rightarrow>
               (case jget config ''streams'' (JObj []) of
                  JObj streams \<Rightarrow>
                    if dget streams name = None then None
                    else Some (JObj (dset ''streams'' (JObj (ddel name streams)) config))
                | _ \<Rightarrow> None)
           | _ \<Rightarrow> None))"


section \<open>The choice\<close>

lemma best_split:
  "\<exists>pre post. x # xs = pre @ best x xs # post \<and> (\<forall>y \<in> set pre. fst y < fst (best x xs)) \<and> (\<forall>y \<in> set post. fst y \<le> fst (best x xs))"
proof (induction xs arbitrary: x)
  case (Cons y ys)
  show ?case
  proof (cases "fst x < fst y")
    case True
    obtain pre post where i: "y # ys = pre @ best y ys # post" "\<forall>z \<in> set pre. fst z < fst (best y ys)"
      "\<forall>z \<in> set post. fst z \<le> fst (best y ys)" using Cons.IH by blast
    then have "y \<in> set (pre @ best y ys # post)" by (metis list.set_intros(1))
    then have "fst y \<le> fst (best y ys)" using i(2,3) by auto
    moreover have "best x (y # ys) = best y ys" using True by simp
    moreover have "x # y # ys = (x # pre) @ best y ys # post" using i(1) by simp
    moreover have "\<forall>z \<in> set (x # pre). fst z < fst (best y ys)" using True i(2) \<open>fst y \<le> fst (best y ys)\<close> by auto
    ultimately show ?thesis using i(3) by metis
  next
    case False
    obtain pre post where i: "x # ys = pre @ best x ys # post" "\<forall>z \<in> set pre. fst z < fst (best x ys)"
      "\<forall>z \<in> set post. fst z \<le> fst (best x ys)" using Cons.IH by blast
    show ?thesis
    proof (cases pre)
      case Nil
      have "x # ys = best x ys # post" using i(1) unfolding Nil append_Nil .
      then have b: "best x ys = x" "ys = post" by (metis list.inject)+
      have "best x (y # ys) = x" using False b by simp
      moreover have "\<forall>z \<in> set (y # ys). fst z \<le> fst x" using False i(3) b by auto
      ultimately show ?thesis by (metis append_Nil empty_iff list.set(1))
    next
      case (Cons z pre')
      have "x # ys = z # pre' @ best x ys # post" using i(1) unfolding Cons append_Cons .
      then have z: "z = x" "ys = pre' @ best x ys # post" by (metis list.inject)+
      have "best x (y # ys) = best x ys" using False by simp
      moreover have "x # y # ys = (x # y # pre') @ best x ys # post" using z(2) by simp
      moreover have "fst x < fst (best x ys)" using i(2) Cons z(1) by simp
      moreover from this have "\<forall>w \<in> set (x # y # pre'). fst w < fst (best x ys)" using False i(2) Cons z(1) by auto
      ultimately show ?thesis using i(3) by metis
    qed
  qed
qed (auto intro: exI [of _ "[]"])

text \<open>
  A parsed value names one of the URLs found in it, the first of the highest resolution, and the
  address read from it has passed the host check.
\<close>

theorem rtsp_choice:
  assumes "parse_camera_rtsp_url (JStr raw) = Inr (Some d)"
  shows "is_safe_host (camera_ip d) \<and> (\<exists>pre k post. collect_rtsp_urls raw = Inr (pre @ (k, stream_url d) # post) \<and>
    (\<forall>y \<in> set pre. fst y < k) \<and> (\<forall>y \<in> set post. fst y \<le> k))"
proof -
  obtain x xs where f: "collect_rtsp_urls raw = Inr (x # xs)" "rtsp_details_of (snd (best x xs)) = Inr (Some d)"
    using assms by (auto simp: parse_camera_rtsp_url_def split: sum.splits list.splits if_splits)
  have d: "is_safe_host (camera_ip d) \<and> stream_url d = snd (best x xs)"
    using f(2) by (auto simp: rtsp_details_of_def Let_def split: if_splits option.splits sum.splits)
  obtain pre post where b: "x # xs = pre @ best x xs # post" "\<forall>y \<in> set pre. fst y < fst (best x xs)"
      "\<forall>y \<in> set post. fst y \<le> fst (best x xs)" using best_split by blast
  have "collect_rtsp_urls raw = Inr (pre @ (fst (best x xs), stream_url d) # post)"
    using f(1) b(1) d by simp
  then show ?thesis using d b by blast
qed

section \<open>Quoting and back\<close>

lemma hex_val_upper: "d < 16 \<Longrightarrow> hex_val (upper_hex d) = Some d"
  by (simp add: hex_val_def upper_hex_def digit_char_def char_code_def Let_def)

lemma char_code_byte: "char_code (char_of (unat (b :: byte))) = unat b"
  using unsigned_less [of b] by (simp add: char_code_def)

lemma byte_halves: "unat (b :: byte) div 16 < 16" "unat (b :: byte) mod 16 < 16"
  using unat_byte_lt [of b] by linarith+

lemma unquote_quote_byte: "unquote_to_bytes (quote_byte b @ r) = b # unquote_to_bytes r"
proof (cases "unreserved (char_of (unat b))")
  case True
  moreover have "\<not> unreserved (CHR ''%'')" by (simp add: unreserved_def ascii_alnum_def char_code_def)
  ultimately have "char_of (unat b) \<noteq> CHR ''%''" by metis
  then show ?thesis using True by (auto simp: quote_byte_def char_code_byte split: list.split)
next
  case False
  have "hex_val (upper_hex (unat b div 16)) = Some (unat b div 16)" "hex_val (upper_hex (unat b mod 16)) = Some (unat b mod 16)"
    by (rule hex_val_upper, rule byte_halves)+
  moreover have "16 * (unat b div 16) + unat b mod 16 = unat b" by simp
  ultimately show ?thesis using False by (simp add: quote_byte_def)
qed

lemma unquote_quote_bytes: "unquote_to_bytes (concat (map quote_byte bs)) = bs"
  by (induction bs) (simp_all add: unquote_quote_byte)

text \<open>What a quoted text is made of.\<close>

definition quoted_char :: "char \<Rightarrow> bool" where
  "quoted_char c = (unreserved c \<or> c = CHR ''%'')"

lemma upper_hex_unreserved: "d < 16 \<Longrightarrow> unreserved (upper_hex d)"
  by (simp add: unreserved_def ascii_alnum_def upper_hex_def digit_char_def char_code_def Let_def)

lemma quote_chars: "c \<in> set (quote s) \<Longrightarrow> quoted_char c"
proof -
  assume "c \<in> set (quote s)"
  then obtain b where b: "c \<in> set (quote_byte b)" by (auto simp: quote_def)
  show ?thesis using b upper_hex_unreserved [OF byte_halves(1) [of b]] upper_hex_unreserved [OF byte_halves(2) [of b]]
    by (auto simp: quote_byte_def quoted_char_def Let_def split: if_splits)
qed

lemma quoted_ascii: "quoted_char c \<Longrightarrow> char_code c < 128"
  by (auto simp: quoted_char_def unreserved_def ascii_alnum_def char_code_def Let_def)

lemma unquote_quote: "unquote (quote s) = Some s"
proof -
  have a: "\<forall>c \<in> set (quote s). char_code c < 128" using quote_chars quoted_ascii by blast
  have b: "unquote_to_bytes (quote s) = utf8_encode s" by (simp add: quote_def unquote_quote_bytes)
  show ?thesis
  proof (cases "quote s")
    case Nil
    then show ?thesis using b by (cases s) (auto simp: utf8_encode_def utf8_char_def Let_def split: if_splits)
  next
    case (Cons c r)
    then have t: "takeWhile (\<lambda>c. char_code c < 128) (c # r) = quote s" "dropWhile (\<lambda>c. char_code c < 128) (c # r) = []"
      using a by (auto simp: takeWhile_eq_all_conv dropWhile_eq_Nil_conv)
    have "char_code c < 128" using a Cons by simp
    then have "unquote (c # r) = (case (utf8_decode (unquote_to_bytes (takeWhile (\<lambda>c. char_code c < 128) (c # r))),
        unquote (dropWhile (\<lambda>c. char_code c < 128) r)) of (Inr t, Some u) \<Rightarrow> Some (t @ u) | _ \<Rightarrow> None)"
      by simp
    moreover have "dropWhile (\<lambda>c. char_code c < 128) r = []" using t(2) \<open>char_code c < 128\<close> by simp
    ultimately have "unquote (c # r) = (case (utf8_decode (unquote_to_bytes (quote s)), Some []) of (Inr t, Some u) \<Rightarrow> Some (t @ u) | _ \<Rightarrow> None)"
      unfolding t(1) by simp
    then show ?thesis using Cons b by (simp add: utf8_decode_encode)
  qed
qed

lemma quote_nonempty: "quote s = [] \<longleftrightarrow> s = []"
proof
  assume "quote s = []"
  then show "s = []" using unquote_quote [of s] by simp
qed (simp add: quote_def utf8_encode_def)

section \<open>Reading back a source\<close>

text \<open>An IPv4 literal or a hostname: no colon, no scope, no newline.\<close>

definition plain_host :: "string \<Rightarrow> bool" where
  "plain_host h = (is_safe_host h \<and> CHR ''%'' \<notin> set h \<and> CHR '':'' \<notin> set h \<and> CHR 0x0A \<notin> set h)"

lemma plain_host_cases: "plain_host h \<Longrightarrow> ipv4_literal h \<or> hostname h"
proof -
  assume a: "plain_host h"
  then have "split_on (CHR '':'') h = [h]" by (simp add: plain_host_def split_on_no_sep)
  then have "ipv6_number h = None" by (simp add: ipv6_number_def)
  then have "ipv6_value h = None" using a by (simp add: ipv6_value_def plain_host_def partition_none)
  moreover have "\<not> (h \<noteq> [] \<and> last h = CHR 0x0A)" using a last_in_set [of h] unfolding plain_host_def by metis
  ultimately show ?thesis using a
    by (auto simp: plain_host_def is_safe_host_def ip_address_def ipv4_value_def HOSTNAME_RE_def split: if_splits option.splits)
qed

lemma lower_digit: "ascii_digit c \<Longrightarrow> lower_char c = c"
  by (simp add: lower_char_def ascii_digit_def Let_def)

lemma lower_alnum: "ascii_alnum (lower_char c)" if "ascii_alnum c"
  using that by (auto simp: ascii_alnum_def lower_char_def Let_def char_code_def)

lemma lower_other: "\<not> ascii_alnum c \<Longrightarrow> char_code c < 128 \<Longrightarrow> lower_char c = c"
  by (auto simp: ascii_alnum_def lower_char_def Let_def)

lemma split_lower: "(\<And>x. x \<in> set s \<Longrightarrow> f x = c \<longleftrightarrow> x = c) \<Longrightarrow> split_on c (map f s) = map (map f) (split_on c s)"
  by (induction s) (auto split: list.splits)


lemma lower_host_char: "host_char x \<Longrightarrow> lower_char x = CHR ''.'' \<longleftrightarrow> x = CHR ''.''"
proof -
  assume h: "host_char x"
  have d: "\<not> ascii_alnum (CHR ''.'')" by (simp add: ascii_alnum_def char_code_def)
  show ?thesis
  proof (cases "ascii_alnum x")
    case True
    then show ?thesis using lower_alnum [OF True] d by auto
  next
    case False
    then have "lower_char x = x" using h lower_other [OF False] by (auto simp: host_char_def char_code_def)
    then show ?thesis by simp
  qed
qed

lemma lower_label: "host_label l \<Longrightarrow> host_label (lower l)"
proof -
  assume l: "host_label l"
  then have "l \<noteq> []" by (auto simp: host_label_def)
  moreover have "lower_char (CHR ''-'') = CHR ''-''" by (simp add: lower_char_def char_code_def)
  ultimately show ?thesis using l by (auto simp: host_label_def lower_def list_all_iff hd_map last_map lower_alnum)
qed

lemma ipv4_ascii: "ipv4_literal h \<Longrightarrow> x \<in> set h \<Longrightarrow> ascii_digit x \<or> x = CHR ''.''"
proof -
  assume a: "ipv4_literal h" "x \<in> set h"
  have "list_all (\<lambda>x. ascii_digit x \<or> x = CHR ''.'') h"
    by (rule split_chars [of "CHR ''.''"]) (use a(1) in \<open>auto simp: ipv4_literal_def Let_def list_all_iff ipv4_octet_def\<close>)
  then show ?thesis using a(2) by (auto simp: list_all_iff)
qed

lemma lower_safe: "plain_host h \<Longrightarrow> is_safe_host (lower h)"
proof -
  assume h: "plain_host h"
  then have l: "h \<noteq> []" "length h \<le> MAX_HOST_LEN" by (auto simp: plain_host_def is_safe_host_def split: if_splits)
  from plain_host_cases [OF h] show ?thesis
  proof
    assume v4: "ipv4_literal h"
    have "lower_char (CHR ''.'') = CHR ''.''" by (simp add: lower_char_def char_code_def)
    then have "lower h = h" using ipv4_ascii [OF v4] lower_digit by (auto simp: lower_def intro!: map_idI)
    then show ?thesis using h by (simp add: plain_host_def)
  next
    assume hn: "hostname h"
    have c: "lower_char x = CHR ''.'' \<longleftrightarrow> x = CHR ''.''" if "x \<in> set h" for x
      using hostname_chars [OF hn] that lower_host_char by (auto simp: list_all_iff)
    have "hostname (lower h)" using hn lower_label
      by (simp add: hostname_def lower_def split_lower [OF c] list_all_iff)
    then show ?thesis using l by (simp add: is_safe_host_def HOSTNAME_RE_def lower_def)
  qed
qed

lemma plain_chars: "plain_host h \<Longrightarrow> x \<in> set h \<Longrightarrow> host_char x \<and> x \<noteq> CHR '':''"
  using plain_host_cases [of h] ipv4_chars hostname_chars by (auto simp: list_all_iff plain_host_def)

text \<open>The delimiters of a URL are in no quoted text and no host.\<close>

lemma quoted_excl:
  "\<not> quoted_char (CHR ''/'')" "\<not> quoted_char (CHR ''?'')" "\<not> quoted_char (CHR ''#'')" "\<not> quoted_char (CHR ''@'')" "\<not> quoted_char (CHR '':'')"
  "\<not> quoted_char (CHR ''['')" "\<not> quoted_char (CHR '']'')" "\<not> quoted_char (CHR 0x09)" "\<not> quoted_char (CHR 0x0A)" "\<not> quoted_char (CHR 0x0D)"
  by (simp_all add: quoted_char_def unreserved_def ascii_alnum_def char_code_def)

lemma host_excl:
  "\<not> host_char (CHR ''/'')" "\<not> host_char (CHR ''?'')" "\<not> host_char (CHR ''#'')" "\<not> host_char (CHR ''@'')" "\<not> host_char (CHR ''%'')"
  "\<not> host_char (CHR ''['')" "\<not> host_char (CHR '']'')" "\<not> host_char (CHR 0x09)" "\<not> host_char (CHR 0x0A)" "\<not> host_char (CHR 0x0D)" "\<not> host_char (CHR '' '')"
  by (simp_all add: host_char_def ascii_alnum_def char_code_def)

lemma not_in_quote: "\<not> quoted_char c \<Longrightarrow> c \<notin> set (quote s)"
  using quote_chars by blast

lemma not_in_host: "plain_host h \<Longrightarrow> \<not> host_char c \<Longrightarrow> c \<notin> set h"
  using plain_chars by blast

lemma not_in_digits: "list_all ascii_digit n \<Longrightarrow> \<not> ascii_digit c \<Longrightarrow> c \<notin> set n"
  by (auto simp: list_all_iff)

lemma digit_excl: "\<not> ascii_digit (CHR 0x09)" "\<not> ascii_digit (CHR 0x0A)" "\<not> ascii_digit (CHR 0x0D)"
  by (simp_all add: ascii_digit_def char_code_def)

lemma take_until: "(\<And>x. x \<in> set a \<Longrightarrow> P x) \<Longrightarrow> \<not> P c \<Longrightarrow> takeWhile P (a @ c # b) = a"
  by (simp add: takeWhile_append)

definition netloc_text :: "string \<Rightarrow> string \<Rightarrow> string \<Rightarrow> string" where
  "netloc_text u p ip = quote u @ '':'' @ quote p @ ''@'' @ ip @ '':8554''"

lemma netloc_text_chars:
  assumes "plain_host ip" "c \<in> {CHR ''/'', CHR ''?'', CHR ''#'', CHR ''['', CHR '']'', CHR 0x09, CHR 0x0A, CHR 0x0D}"
  shows "c \<notin> set (netloc_text u p ip)"
proof -
  have "\<not> quoted_char c" "\<not> host_char c" using assms(2) quoted_excl host_excl by auto
  then have "c \<notin> set (quote u)" "c \<notin> set (quote p)" "c \<notin> set ip"
    using not_in_quote not_in_host [OF assms(1)] by blast+
  then show ?thesis using assms(2) by (auto simp: netloc_text_def)
qed

lemma source_netloc:
  assumes "plain_host ip" "list_all ascii_digit n"
  shows "netloc_of (''rtsp://'' @ netloc_text u p ip @ ''/ch'' @ n) = netloc_text u p ip"
proof -
  let ?u = "''rtsp://'' @ netloc_text u p ip @ ''/ch'' @ n"
  have "\<forall>c \<in> set ?u. c \<notin> {CHR 0x09, CHR 0x0A, CHR 0x0D}"
    using netloc_text_chars [OF assms(1), of _ u p] not_in_digits [OF assms(2)] digit_excl by auto
  then have f: "filter (\<lambda>c. c \<notin> {CHR 0x09, CHR 0x0A, CHR 0x0D}) ?u = ?u" by (rule filter_True)
  have "dropWhile (\<lambda>c. char_code c \<le> 32) ?u = ?u" by (simp add: char_code_def)
  then have s: "strip_url ?u = ?u" unfolding strip_url_def using f by presburger
  have "partition_at (CHR '':'') (''rtsp'' @ CHR '':'' # (''//'' @ netloc_text u p ip @ ''/ch'' @ n)) = (''rtsp'', Some (''//'' @ netloc_text u p ip @ ''/ch'' @ n))"
    by (rule partition_some) simp
  then have "drop_scheme ?u = ''//'' @ netloc_text u p ip @ ''/ch'' @ n"
    by (simp add: drop_scheme_def ascii_alnum_def ascii_digit_def scheme_char_def char_code_def)
  then have "netloc_of ?u = takeWhile (\<lambda>c. c \<notin> {CHR ''/'', CHR ''?'', CHR ''#''}) (netloc_text u p ip @ CHR ''/'' # ''ch'' @ n)"
    unfolding netloc_of_def Let_def s by simp
  also have "\<dots> = netloc_text u p ip" by (rule take_until) (use netloc_text_chars [OF assms(1), of _ u p] in auto)
  finally show ?thesis .
qed

lemma after_last_text:
  assumes "plain_host ip"
  shows "after_last (CHR ''@'') (netloc_text u p ip) = ip @ '':8554''"
proof -
  have "rev (netloc_text u p ip) = rev (ip @ '':8554'') @ CHR ''@'' # rev (quote u @ '':'' @ quote p)" by (simp add: netloc_text_def)
  moreover have "takeWhile (\<lambda>x. x \<noteq> CHR ''@'') \<dots> = rev (ip @ '':8554'')"
    by (rule take_until) (use not_in_host [OF assms host_excl(4)] in auto)
  ultimately show ?thesis by (simp add: after_last_def)
qed

lemma netloc_parts:
  assumes "plain_host ip"
  shows "netloc_ok (netloc_text u p ip)" "url_hostname (netloc_text u p ip) = Some (lower ip)"
    "url_userinfo (netloc_text u p ip) = (Some (quote u), Some (quote p))"
proof -
  have b: "CHR ''['' \<notin> set (netloc_text u p ip)" "CHR '']'' \<notin> set (netloc_text u p ip)"
    using netloc_text_chars [OF assms, of _ u p] by auto
  then show "netloc_ok (netloc_text u p ip)" by (simp add: netloc_ok_def Let_def)
  have i: "CHR '':'' \<notin> set ip" "CHR ''['' \<notin> set ip" "CHR ''%'' \<notin> set ip" "ip \<noteq> []"
    using assms not_in_host [OF assms] host_excl by (auto simp: plain_host_def is_safe_host_def)
  have h: "partition_at (CHR ''['') (ip @ '':8554'') = (ip @ '':8554'', None)" by (rule partition_none) (use i in simp)
  have "partition_at (CHR '':'') (ip @ CHR '':'' # ''8554'') = (ip, Some ''8554'')" by (rule partition_some) (rule i)
  moreover have "partition_at (CHR ''%'') ip = (ip, None)" by (rule partition_none) (rule i)
  ultimately show "url_hostname (netloc_text u p ip) = Some (lower ip)"
    using h i(4) by (simp add: url_hostname_def after_last_text [OF assms])
  have "before_last (CHR ''@'') (netloc_text u p ip) = Some (quote u @ '':'' @ quote p)"
    by (simp add: before_last_def after_last_text [OF assms]) (simp add: netloc_text_def)
  moreover have "partition_at (CHR '':'') (quote u @ CHR '':'' # quote p) = (quote u, Some (quote p))"
    by (rule partition_some) (rule not_in_quote [OF quoted_excl(5)])
  ultimately show "url_userinfo (netloc_text u p ip) = (Some (quote u), Some (quote p))" by (simp add: url_userinfo_def)
qed

lemma strip_ends: "s \<noteq> [] \<Longrightarrow> \<not> py_space (hd s) \<Longrightarrow> \<not> py_space (last s) \<Longrightarrow> strip s = s"
proof -
  assume s: "s \<noteq> []" "\<not> py_space (hd s)" "\<not> py_space (last s)"
  then have "dropWhile py_space s = s" by (cases s) simp_all
  moreover have "dropWhile py_space (rev s) = rev s" using s(1,3) by (cases s rule: rev_cases) simp_all
  ultimately show ?thesis by (simp add: strip_def)
qed

lemma source_starts: "starts_rtsp (''rtsp://'' @ t)"
  by (simp add: starts_rtsp_def lower_def lower_char_def char_code_def)

lemma parse_source:
  assumes "t \<noteq> []" "\<not> py_space (last t)"
  shows "parse_camera_rtsp_url (JStr (''rtsp://'' @ t)) = rtsp_details_of (''rtsp://'' @ t)"
proof -
  have "strip (''rtsp://'' @ t) = ''rtsp://'' @ t"
    by (rule strip_ends) (use assms in \<open>auto simp: py_space_def char_code_def\<close>)
  then have "collect_rtsp_urls (''rtsp://'' @ t) = Inr [(0, ''rtsp://'' @ t)]"
    using source_starts by (simp add: collect_rtsp_urls_def)
  then show ?thesis by (simp add: parse_camera_rtsp_url_def)
qed

lemma unquote_part_quote: "unquote_part (Some (quote s)) = Inr (if s = [] then None else Some s)"
  by (simp add: unquote_part_def quote_nonempty unquote_quote)

lemma source_roundtrip:
  assumes "is_safe_host ip" "CHR ''%'' \<notin> set ip" "CHR '':'' \<notin> set ip" "CHR 0x0A \<notin> set ip"
  shows "\<exists>url. build_rtsp_source ip user pwd channel = Some url \<and>
    parse_camera_rtsp_url (JStr url) = Inr (Some \<lparr>camera_ip = lower ip,
      username = (if user = [] then None else Some user), password = (if pwd = [] then None else Some pwd), stream_url = url\<rparr>)"
proof -
  have h: "plain_host ip" using assms by (simp add: plain_host_def)
  have "char_of (56 :: nat) = CHR ''8''" "char_of (53 :: nat) = CHR ''5''" "char_of (52 :: nat) = CHR ''4''" by code_simp+
  then have "nat_text RTSP_PORT = ''8554''" by (simp add: RTSP_PORT_def nat_text.simps digit_char_def)
  then have "build_rtsp_source ip user pwd channel = Some (''rtsp://'' @ netloc_text user pwd ip @ ''/ch'' @ nat_text channel)"
    using assms(1) by (simp add: build_rtsp_source_def validate_host_def netloc_text_def)
  moreover have "\<not> py_space (last (netloc_text user pwd ip @ ''/ch'' @ nat_text channel))"
  proof -
    have "ascii_digit (last (nat_text channel))"
      using nat_text_digits [of channel] last_in_set [OF nat_text_nonempty [of channel]] by (simp add: list_all_iff)
    then show ?thesis by (auto simp: ascii_digit_def py_space_def)
  qed
  then have "parse_camera_rtsp_url (JStr (''rtsp://'' @ netloc_text user pwd ip @ ''/ch'' @ nat_text channel)) =
      rtsp_details_of (''rtsp://'' @ netloc_text user pwd ip @ ''/ch'' @ nat_text channel)"
    by (intro parse_source) simp_all
  moreover have "rtsp_details_of (''rtsp://'' @ netloc_text user pwd ip @ ''/ch'' @ nat_text channel) =
      Inr (Some \<lparr>camera_ip = lower ip, username = (if user = [] then None else Some user),
        password = (if pwd = [] then None else Some pwd), stream_url = ''rtsp://'' @ netloc_text user pwd ip @ ''/ch'' @ nat_text channel\<rparr>)"
    unfolding rtsp_details_of_def source_netloc [OF h nat_text_digits] Let_def
    by (simp add: netloc_parts [OF h] lower_safe [OF h] unquote_part_quote)
  ultimately show ?thesis by simp
qed

lemma sample_host: "is_safe_host ''10.1.20.150''"
  by (simp add: is_safe_host_def MAX_HOST_LEN_def ip_address_def ipv4_value_def ipv4_sample)

text \<open>
  C37 [rtsp_source_roundtrip]
  A stream source built for an IPv4 address or a hostname, with any user name and password, reads back
  as that address in lower case and those credentials.
\<close>

theorem rtsp_source_roundtrip:
  assumes "is_safe_host ip" "CHR ''%'' \<notin> set ip" "CHR '':'' \<notin> set ip" "CHR 0x0A \<notin> set ip"
  shows "\<exists>url. build_rtsp_source ip user pwd channel = Some url \<and>
    parse_camera_rtsp_url (JStr url) = Inr (Some \<lparr>camera_ip = lower ip,
      username = (if user = [] then None else Some user), password = (if pwd = [] then None else Some pwd), stream_url = url\<rparr>)"
  by (rule source_roundtrip) (fact assms)+

theorem rtsp_source_roundtrip_witness:
  "\<exists>url. build_rtsp_source ''10.1.20.150'' ''admin'' ''p@ss/1'' 2 = Some url \<and>
     parse_camera_rtsp_url (JStr url) = Inr (Some \<lparr>camera_ip = lower ''10.1.20.150'', username = Some ''admin'', password = Some ''p@ss/1'', stream_url = url\<rparr>)"
  using rtsp_source_roundtrip [of "''10.1.20.150''" "''admin''" "''p@ss/1''" 2] ipv4_sample
  by (simp add: is_safe_host_def MAX_HOST_LEN_def ip_address_def ipv4_value_def)

lemma exec_text: "split_on (CHR '' '') (''exec:'' @ python @ '' '' @ script @ '' '' @ t) = (''exec:'' @ python) # script # split_on (CHR '' '') t"
  if "CHR '' '' \<notin> set python" "CHR '' '' \<notin> set script"
proof -
  have "split_on (CHR '' '') ((''exec:'' @ python) @ CHR '' '' # (script @ CHR '' '' # t)) = (''exec:'' @ python) # split_on (CHR '' '') (script @ CHR '' '' # t)"
    by (rule split_on_append) (use that in simp)
  then show ?thesis using split_on_append [OF that(2)] by simp
qed

lemma safe_no_space: "is_safe_host ip \<Longrightarrow> CHR ''%'' \<notin> set ip \<Longrightarrow> CHR '' '' \<notin> set ip"
  using safe_host_chars [of ip] host_excl(11) by (auto simp: list_all_iff)

lemma host_not_space: "host_char c \<Longrightarrow> \<not> py_space c"
  by (auto simp: host_char_def ascii_alnum_def py_space_def char_code_def Let_def)

text \<open>
  go2rtc splits the exec source at spaces: for an address without scope the command has exactly the
  interpreter, the script and the address; behind an IPv6 scope the camera chooses further arguments.
\<close>

theorem exec_source_tokens:
  assumes "is_safe_host ip" "CHR '' '' \<notin> set python" "CHR '' '' \<notin> set script"
  shows "\<exists>src. build_exec_source python script ip = Some src \<and>
    (CHR ''%'' \<notin> set ip \<longrightarrow> split_on (CHR '' '') src = [''exec:'' @ python, script, ip @ ''#backchannel=1'']) \<and>
    (ip = ''fe80::1%x -c evil'' \<longrightarrow>
       split_on (CHR '' '') src = [''exec:'' @ python, script, ''fe80::1%x'', ''-c'', ''evil#backchannel=1''])"
proof -
  have "CHR ''%'' \<notin> set ip \<Longrightarrow> split_on (CHR '' '') (ip @ ''#backchannel=1'') = [ip @ ''#backchannel=1'']"
    using safe_no_space [OF assms(1)] by (intro split_on_no_sep) simp
  then show ?thesis using assms(1) exec_text [OF assms(2,3)]
    by (auto simp: build_exec_source_def validate_host_def)
qed

theorem exec_source_tokens_witness:
  "\<exists>src. build_exec_source ''/usr/bin/python3'' ''/config/bridge.py'' ''fe80::1%x -c evil'' = Some src \<and>
     split_on (CHR '' '') src = [''exec:/usr/bin/python3'', ''/config/bridge.py'', ''fe80::1%x'', ''-c'', ''evil#backchannel=1'']"
  using exec_source_tokens [of "''fe80::1%x -c evil''" "''/usr/bin/python3''" "''/config/bridge.py''"] scope_hole [of "''x -c evil''"]
  by (auto simp: validate_host_def split: if_splits)

text \<open>
  An unbalanced bracket in the address makes the parser raise ValueError, which its callers promise not
  to let out.
\<close>

theorem rtsp_bad_url_raises:
  assumes "list_all host_char t" "t \<noteq> []"
  shows "parse_camera_rtsp_url (JStr (''rtsp://['' @ t)) = Inl Url_Error"
proof -
  let ?u = "''rtsp://['' @ t"
  have c: "\<forall>x \<in> set t. x \<notin> {CHR ''/'', CHR ''?'', CHR ''#'', CHR '']'', CHR 0x09, CHR 0x0A, CHR 0x0D}"
    using assms(1) host_excl by (auto simp: list_all_iff)
  then have "\<forall>c \<in> set ?u. c \<notin> {CHR 0x09, CHR 0x0A, CHR 0x0D}" by auto
  then have f: "filter (\<lambda>c. c \<notin> {CHR 0x09, CHR 0x0A, CHR 0x0D}) ?u = ?u" by (rule filter_True)
  have "dropWhile (\<lambda>c. char_code c \<le> 32) ?u = ?u" by (simp add: char_code_def)
  then have s: "strip_url ?u = ?u" unfolding strip_url_def using f by presburger
  have "partition_at (CHR '':'') (''rtsp'' @ CHR '':'' # (''//['' @ t)) = (''rtsp'', Some (''//['' @ t))" by (rule partition_some) simp
  then have "drop_scheme ?u = ''//['' @ t" by (simp add: drop_scheme_def ascii_alnum_def ascii_digit_def scheme_char_def char_code_def)
  moreover have "takeWhile (\<lambda>c. c \<notin> {CHR ''/'', CHR ''?'', CHR ''#''}) (CHR ''['' # t) = CHR ''['' # t"
    using c by (intro takeWhile_eq_all_conv [THEN iffD2]) auto
  ultimately have "netloc_of ?u = CHR ''['' # t" unfolding netloc_of_def Let_def s by simp
  then have "rtsp_details_of ?u = Inl Url_Error" using c by (auto simp: rtsp_details_of_def netloc_ok_def Let_def)
  moreover have "\<not> py_space (last (CHR ''['' # t))"
    using assms(2) host_not_space last_in_set [OF assms(2)] assms(1) by (auto simp: list_all_iff)
  ultimately show ?thesis using parse_source [of "CHR ''['' # t"] by simp
qed

theorem rtsp_bad_url_raises_witness: "parse_camera_rtsp_url (JStr ''rtsp://[10.0.0.5'') = Inl Url_Error"
  using rtsp_bad_url_raises [of "''10.0.0.5''"] by (simp add: host_char_def ascii_alnum_def char_code_def)

text \<open>
  Registering writes the entry at most once and keeps every other stream and setting; removing it takes
  out that entry and nothing else.
\<close>

theorem stream_registration:
  assumes "config \<noteq> []" "jget config ''streams'' (JObj []) = JObj streams" "dget streams name = None" "sources \<noteq> []"
  shows "\<exists>config' streams'. register_stream (Some (JObj config)) name sources = (True, Some (JObj config')) \<and>
    dget config' ''streams'' = Some (JObj streams') \<and> (\<forall>k. k \<noteq> ''streams'' \<longrightarrow> dget config' k = dget config k) \<and>
    (\<forall>k. dget streams' k = (if k = name then Some (JList (map JStr sources)) else dget streams k)) \<and>
    register_stream (Some (JObj config')) name sources = (True, None) \<and>
    (\<exists>config'' streams''. remove_stream (Some (JObj config')) name = Some (JObj config'') \<and>
       dget config'' ''streams'' = Some (JObj streams'') \<and> (\<forall>k. dget streams'' k = dget streams k))"
proof -
  let ?st = "dset name (JList (map JStr sources)) streams"
  let ?c = "dset ''streams'' (JObj ?st) config"
  have s: "source_set (JList (map JStr sources)) = Some (set (map JStr sources))"
    by (simp add: source_set_def list_all_iff)
  have n: "?c \<noteq> []" by (cases config) auto
  have "register_stream (Some (JObj config)) name sources = (True, Some (JObj ?c))"
    using assms by (simp add: register_stream_def config_of_def jget_def source_set_def)
  moreover have "register_stream (Some (JObj ?c)) name sources = (True, None)"
    using n s by (simp add: register_stream_def config_of_def jget_def)
  moreover have "remove_stream (Some (JObj ?c)) name = Some (JObj (dset ''streams'' (JObj (ddel name ?st)) ?c))"
    using n by (simp add: remove_stream_def config_of_def jget_def)
  ultimately show ?thesis using assms(3)
    by (intro exI [of _ ?c] exI [of _ ?st] conjI exI [of _ "dset ''streams'' (JObj (ddel name ?st)) ?c"] exI [of _ "ddel name ?st"]) auto
qed

theorem stream_registration_witness:
  "\<exists>config'. register_stream (Some (JObj [(''api'', JInt 1)])) ''cam'' [''rtsp://x''] = (True, Some (JObj config'))"
  using stream_registration [of "[(''api'', JInt 1)]" "[]" "''cam''" "[''rtsp://x'']"] by (auto simp: jget_def)

theorem rtsp_choice_witness:
  "is_safe_host (lower ''10.1.20.150'')"
proof -
  obtain url where u: "parse_camera_rtsp_url (JStr url) = Inr (Some \<lparr>camera_ip = lower ''10.1.20.150'',
      username = Some ''a'', password = Some ''b'', stream_url = url\<rparr>)"
    using source_roundtrip [of "''10.1.20.150''" "''a''" "''b''" 1] sample_host by auto
  show ?thesis using rtsp_choice [OF u] by simp
qed


lemma ula_host: "is_safe_host ''fd00::1''"
proof -
  have "ipv6_number ''fd00::1'' \<noteq> None"
    by (simp add: ipv6_number_def suffix_parts_def ipv6_parts_value_def compressed_value_def number_of_parts_def part_value_def hextet_def
        hex_val_def char_code_def Let_def upt_rec)
  then have "ipv6_value ''fd00::1'' \<noteq> None" by (simp add: ipv6_value_def partition_none)
  then have "ip_address ''fd00::1'' \<noteq> None" by (simp add: ip_address_def split: option.split)
  then show ?thesis by (simp add: is_safe_host_def MAX_HOST_LEN_def)
qed

text \<open>
  An IPv6 address is not put in brackets: the source built for one names another host when it is read,
  the text before the first colon.
\<close>

theorem ipv6_source_misread:
  "\<exists>url d. build_rtsp_source ''fd00::1'' ''u'' ''p'' 1 = Some url \<and> parse_camera_rtsp_url (JStr url) = Inr (Some d) \<and> camera_ip d = ''fd00''"
proof -
  have "char_of (117 :: nat) = CHR ''u''" "char_of (112 :: nat) = CHR ''p''" by code_simp+
  then have q: "quote ''u'' = ''u''" "quote ''p'' = ''p''"
    by (simp_all add: quote_def quote_byte_def utf8_encode_def utf8_char_def unreserved_def ascii_alnum_def char_code_def Let_def)
  have c: "char_of (56 :: nat) = CHR ''8''" "char_of (53 :: nat) = CHR ''5''" "char_of (52 :: nat) = CHR ''4''" "char_of (49 :: nat) = CHR ''1''"
    by code_simp+
  then have "nat_text RTSP_PORT = ''8554''" "nat_text 1 = ''1''" by (simp_all add: RTSP_PORT_def nat_text.simps digit_char_def)
  then have u: "build_rtsp_source ''fd00::1'' ''u'' ''p'' 1 = Some (''rtsp://u:p@fd00::1:8554/ch1'')"
    using ula_host by (simp add: build_rtsp_source_def validate_host_def q)
  have "netloc_of ''rtsp://u:p@fd00::1:8554/ch1'' = ''u:p@fd00::1:8554''"
    by (simp add: netloc_of_def strip_url_def drop_scheme_def partition_at_def ascii_alnum_def ascii_digit_def scheme_char_def char_code_def)
  moreover have "netloc_ok ''u:p@fd00::1:8554''" by (simp add: netloc_ok_def)
  moreover have "url_hostname ''u:p@fd00::1:8554'' = Some ''fd00''"
    by (simp add: url_hostname_def after_last_def partition_at_def lower_def lower_char_def char_code_def)
  moreover have "url_userinfo ''u:p@fd00::1:8554'' = (Some (quote ''u''), Some (quote ''p''))"
    by (simp add: q url_userinfo_def before_last_def after_last_def partition_at_def)
  moreover have "is_safe_host ''fd00''"
    by (simp add: is_safe_host_def MAX_HOST_LEN_def HOSTNAME_RE_def hostname_def host_label_def ascii_alnum_def char_code_def)
  ultimately have "rtsp_details_of ''rtsp://u:p@fd00::1:8554/ch1'' =
      Inr (Some \<lparr>camera_ip = ''fd00'', username = Some ''u'', password = Some ''p'', stream_url = ''rtsp://u:p@fd00::1:8554/ch1''\<rparr>)"
    by (simp add: rtsp_details_of_def unquote_part_quote)
  moreover have "parse_camera_rtsp_url (JStr (''rtsp://'' @ ''u:p@fd00::1:8554/ch1'')) = rtsp_details_of (''rtsp://'' @ ''u:p@fd00::1:8554/ch1'')"
    by (rule parse_source) (simp_all add: py_space_def char_code_def)
  ultimately show ?thesis using u by simp
qed

end
