(* ===== verification/Discovery.thy ===== *)
theory Discovery
  imports Net_Addr
begin

text \<open>
  \<open>hub/mdns.py\<close> and \<open>hub/probe.py\<close>: which advertised services become records, and what a probe of one
  answers. The zeroconf browser is outside: what it delivers is the list of services in the order their
  resolutions finish.
\<close>

section \<open>Services\<close>

record service_record =
  host :: string
  port :: nat
  did :: string
  instance_name :: string

text \<open>A service that was added, with what resolving it gave (None: no answer in time).\<close>

record service_info =
  properties :: "(string \<times> string option) list"
  addresses :: "string list"
  service_port :: "nat option"

datatype state_change = Added | Removed | Updated

definition decode_properties :: "(string \<times> string option) list \<Rightarrow> (string, string) dict" where
  "decode_properties raw = foldl (\<lambda>d (k, v). dset k (case v of None \<Rightarrow> [] | Some s \<Rightarrow> s) d) [] raw"

definition is_lan_address :: "string \<Rightarrow> bool" where
  "is_lan_address h =
     (case ip_address (fst (partition_at (CHR ''%'') h)) of None \<Rightarrow> False | Some a \<Rightarrow> is_private a)"

definition resolve :: "string \<Rightarrow> service_info option \<Rightarrow> (string, service_record) dict \<Rightarrow> (string, service_record) dict" where
  "resolve name info results =
     (case info of
        None \<Rightarrow> results
      | Some i \<Rightarrow>
          (case dget (decode_properties (properties i)) ''id'' of
             None \<Rightarrow> results
           | Some d \<Rightarrow>
               if d = [] then results
               else (case addresses i of
                       [] \<Rightarrow> results
                     | h # hs \<Rightarrow>
                         if \<not> is_lan_address h then results
                         else
                           let p = (case service_port i of None \<Rightarrow> 0 | Some p \<Rightarrow> p)
                           in if p = 0 then results
                              else if dget results d \<noteq> None then results
                              else dset d \<lparr>host = h, port = p, did = d, instance_name = fst (partition_at (CHR ''.'') name)\<rparr> results)))"

definition discover_hubs :: "(state_change \<times> string \<times> service_info option) list \<Rightarrow> service_record list" where
  "discover_hubs seen =
     dvalues (foldl (\<lambda>r (change, name, info). if change \<noteq> Added then r else resolve name info r) [] seen)"

definition discover_hub_by_did :: "(state_change \<times> string \<times> service_info option) list \<Rightarrow> string \<Rightarrow> service_record option" where
  "discover_hub_by_did seen d = find (\<lambda>r. did r = d) (discover_hubs seen)"

section \<open>What a search finds\<close>

text \<open>The record a resolution stands for, if it stands for one.\<close>

definition advertised :: "string \<Rightarrow> service_info option \<Rightarrow> service_record option" where
  "advertised name info =
     (case resolve name info [] of [] \<Rightarrow> None | (d, r) # rest \<Rightarrow> Some r)"

lemma resolve_advertised:
  "resolve name info results =
     (case advertised name info of None \<Rightarrow> results
      | Some r \<Rightarrow> if dget results (did r) \<noteq> None then results else dset (did r) r results)"
  by (auto simp: advertised_def resolve_def Let_def split: option.splits list.splits)

lemma advertised_valid:
  "advertised name info = Some r \<Longrightarrow> is_lan_address (host r) \<and> port r \<noteq> 0 \<and> did r \<noteq> []"
  by (auto simp: advertised_def resolve_def Let_def split: option.splits list.splits if_splits)

text \<open>The records advertised, in order.\<close>

definition records_of :: "(state_change \<times> string \<times> service_info option) list \<Rightarrow> service_record list" where
  "records_of seen = List.map_filter (\<lambda>(change, name, info). if change = Added then advertised name info else None) seen"

definition add_record :: "service_record \<Rightarrow> (string, service_record) dict \<Rightarrow> (string, service_record) dict" where
  "add_record r results = (if dget results (did r) \<noteq> None then results else dset (did r) r results)"

lemma discover_fold:
  "foldl (\<lambda>r (change, name, info). if change \<noteq> Added then r else resolve name info r) d seen = fold add_record (records_of seen) d"
  by (induction seen arbitrary: d)
    (auto simp: records_of_def map_filter_simps resolve_advertised add_record_def split: option.splits)

lemma fold_add_get:
  "dget (fold add_record rs d) k = (case dget d k of Some r \<Rightarrow> Some r | None \<Rightarrow> find (\<lambda>r. did r = k) rs)"
  by (induction rs arbitrary: d) (auto simp: add_record_def split: option.splits)

lemma fold_add_keys:
  "\<forall>(k, r) \<in> set d. did r = k \<Longrightarrow> dict_ok d \<Longrightarrow> (\<forall>(k, r) \<in> set (fold add_record rs d). did r = k) \<and> dict_ok (fold add_record rs d)"
proof (induction rs arbitrary: d)
  case (Cons r rs)
  have "\<forall>(k, r) \<in> set (add_record r d). did r = k" using Cons.prems(1) set_dset [of "did r" r d] by (auto simp: add_record_def)
  moreover have "dict_ok (add_record r d)" using Cons.prems(2) by (simp add: add_record_def)
  ultimately show ?case using Cons.IH by simp
qed simp

lemma find_dvalues:
  "\<forall>(k, r) \<in> set d. did r = k \<Longrightarrow> find (\<lambda>r. did r = x) (dvalues d) = dget d x"
  by (induction d) (auto simp: dvalues_def)

lemma by_did_first: "discover_hub_by_did seen d = find (\<lambda>r. did r = d) (records_of seen)"
proof -
  let ?d = "fold add_record (records_of seen) []"
  have "find (\<lambda>r. did r = d) (dvalues ?d) = dget ?d d" using fold_add_keys [of "[]" "records_of seen"] by (intro find_dvalues) simp
  then show ?thesis by (simp add: discover_hub_by_did_def discover_hubs_def discover_fold fold_add_get)
qed

text \<open>
  A search for a DID answers with the first valid advertisement of it in order of resolution, and with
  None exactly when no service that was added advertises it; each DID is listed once, and every
  record has an address that counts as private and a port.
\<close>

theorem discovery_result:
  "discover_hub_by_did seen d = find (\<lambda>r. did r = d) (records_of seen) \<and>
   distinct (map did (discover_hubs seen)) \<and> set (map did (discover_hubs seen)) = set (map did (records_of seen)) \<and>
   list_all (\<lambda>r. is_lan_address (host r) \<and> port r \<noteq> 0 \<and> did r \<noteq> []) (discover_hubs seen)"
proof -
  define D where "D = fold add_record (records_of seen) []"
  have h: "discover_hubs seen = dvalues D" by (simp add: discover_hubs_def discover_fold D_def)
  have k: "\<forall>(k, r) \<in> set D. did r = k" "dict_ok D" using fold_add_keys [of "[]" "records_of seen"] by (simp_all add: D_def)
  have m: "map did (dvalues D) = map fst D" using k(1) by (auto simp: dvalues_def)
  have g: "dget D x = find (\<lambda>r. did r = x) (records_of seen)" for x by (simp add: fold_add_get D_def)
  have n: "dget D x = None \<longleftrightarrow> x \<notin> did ` set (records_of seen)" for x
    unfolding g find_None_iff by auto
  have "x \<in> fst ` set D \<longleftrightarrow> x \<in> did ` set (records_of seen)" for x
    using n [of x] unfolding map_of_eq_None_iff by simp
  then have keys: "set (map fst D) = set (map did (records_of seen))" by auto
  have "is_lan_address (host r) \<and> port r \<noteq> 0 \<and> did r \<noteq> []" if "r \<in> set (dvalues D)" for r
  proof -
    obtain x where "(x, r) \<in> set D" using \<open>r \<in> set (dvalues D)\<close> by (auto simp: dvalues_def)
    then have "dget D x = Some r" using k(2) by (simp add: dict_ok_def)
    then have "r \<in> set (records_of seen)" using g [of x] by (auto simp: find_Some_iff)
    then show ?thesis using advertised_valid by (auto simp: records_of_def map_filter_def split: if_splits)
  qed
  then show ?thesis using by_did_first h m k(2) keys by (auto simp: dict_ok_def list_all_iff)
qed

text \<open>
  The check that keeps a responder from sending the session to a public address lets 6to4 addresses
  through: Python counts them as private, and one embeds any public IPv4 address.
\<close>

theorem spoofed_lan_address:
  "is_lan_address ''2002:808:808::1'' \<and> \<not> is_lan_address ''8.8.8.8'' \<and> \<not> is_lan_address ''2606:4700::1111''"
proof -
  have v4: "ipv4_value ''8.8.8.8'' = Some (quad 8 8 8 8)" "ipv4_value ''2002:808:808::1'' = None" "ipv4_value ''2606:4700::1111'' = None"
    by (simp_all add: ipv4_value_def ipv4_literal_def ipv4_octet_def ascii_digit_def char_code_def text_nat_def quad_def)
  have v6: "ipv6_number ''2002:808:808::1'' = Some (pre6 [0x2002, 0x808, 0x808, 0, 0, 0, 0, 1])"
      "ipv6_number ''2606:4700::1111'' = Some (pre6 [0x2606, 0x4700, 0, 0, 0, 0, 0, 0x1111])"
    by (simp_all add: ipv6_number_def suffix_parts_def ipv6_parts_value_def compressed_value_def number_of_parts_def part_value_def hextet_def
        hex_val_def char_code_def Let_def upt_rec pre6_def)
  show ?thesis using v4 v6
    by (simp add: is_lan_address_def partition_none ip_address_def ipv6_value_def in_net_def v6_private_def v6_exceptions_def v4_private_def
        ipv4_is_private_def pre6_def quad_def)
qed

section \<open>Probing\<close>

datatype probe_result = OK | REFUSED | TIMEOUT | NOT_LANLINK

text \<open>How the connect under its time limit ends: an exception by its class, the most specific one.\<close>

datatype connect_end = Connected | Connection_Refused | Timeout_Error | Os_Error | Tunnel_Failed | Other_Exception

text \<open>The answer, and whether the tunnel is open when it is given.\<close>

definition probe_tunnel_host :: "connect_end \<Rightarrow> probe_result \<times> bool" where
  "probe_tunnel_host e =
     ((case e of
         Connected \<Rightarrow> OK
       | Connection_Refused \<Rightarrow> REFUSED
       | Timeout_Error \<Rightarrow> TIMEOUT
       | Os_Error \<Rightarrow> TIMEOUT
       | Tunnel_Failed \<Rightarrow> NOT_LANLINK
       | Other_Exception \<Rightarrow> NOT_LANLINK), False)"

end
