(* ===== verification/Rearm.thy ===== *)
theory Rearm
  imports Protocol
begin

text \<open>
  \<open>hub/rearm.py\<close> and \<open>hub/activation.py\<close>: the retry loop that re-activates a standalone device which
  has fallen out of the hub's topology, and the table of such loops. The loop runs against a clock: what
  the topology holds is a function of the time, as are the time a search and a poke take and what the
  search finds.
\<close>

section \<open>One loop\<close>

record rearm_cfg =
  backoffs :: "rat list"
  settle_timeout :: rat
  poll_interval :: rat
  max_rounds :: nat
  absence_grace :: rat
  rearm_cooldown :: rat

definition default_cfg :: rearm_cfg where
  "default_cfg = \<lparr>backoffs = [5, 15, 30, 60], settle_timeout = 20, poll_interval = 2, max_rounds = 6,
     absence_grace = 15, rearm_cooldown = 90\<rparr>"

record world =
  live :: "rat \<Rightarrow> bool"
  find_host :: "rat \<Rightarrow> string option"
  find_time :: "rat \<Rightarrow> rat"
  poke_time :: "rat \<Rightarrow> rat"

text \<open>\<open>pokes\<close> logs every activation: when, which host, which port.\<close>

record rearm =
  now :: rat
  last_activation :: "rat option"
  pokes :: "(rat \<times> string \<times> int) list"

definition sleep :: "rat \<Rightarrow> rearm \<Rightarrow> rearm" where
  "sleep d s = s\<lparr>now := now s + max 0 d\<rparr>"

text \<open>The poll; with an interval that is not positive it need not end.\<close>

partial_function (option) poll_loop :: "(rat \<Rightarrow> bool) \<Rightarrow> rat \<Rightarrow> rat \<Rightarrow> rat \<Rightarrow> rat \<Rightarrow> (bool \<times> rat) option" where
  "poll_loop lv settle interval waited t =
     (if waited < settle
      then (if lv t then Some (True, t) else poll_loop lv settle interval (waited + interval) (t + max 0 interval))
      else Some (lv t, t))"

definition wait_for_topology :: "rearm_cfg \<Rightarrow> world \<Rightarrow> rearm \<Rightarrow> (bool \<times> rearm) option" where
  "wait_for_topology cfg w s =
     (case poll_loop (live w) (settle_timeout cfg) (poll_interval cfg) 0 (now s) of
        None \<Rightarrow> None
      | Some (found, t) \<Rightarrow> Some (found, s\<lparr>now := t\<rparr>))"

text \<open>\<open>activate_relay\<close>: best effort, at most ten seconds, never raises.\<close>

definition activate_relay :: "world \<Rightarrow> string \<Rightarrow> int \<Rightarrow> rearm \<Rightarrow> rearm" where
  "activate_relay w h p s = s\<lparr>now := now s + poke_time w (now s), pokes := pokes s @ [(now s, h, p)]\<rparr>"

datatype rearm_end = Returned | Rejoined | Gave_Up | Errored

definition cooling :: "rearm_cfg \<Rightarrow> rearm \<Rightarrow> bool" where
  "cooling cfg s = (case last_activation s of None \<Rightarrow> False | Some t \<Rightarrow> now s - t < rearm_cooldown cfg)"

definition cooldown_wait :: "rearm_cfg \<Rightarrow> rearm \<Rightarrow> rat" where
  "cooldown_wait cfg s = (case last_activation s of None \<Rightarrow> 0 | Some t \<Rightarrow> min (rearm_cooldown cfg - (now s - t)) 30)"

text \<open>\<open>n\<close> rounds are left and \<open>i\<close> is the index of the next.\<close>

fun rearm_rounds :: "rearm_cfg \<Rightarrow> world \<Rightarrow> string \<times> int \<Rightarrow> nat \<Rightarrow> nat \<Rightarrow> rearm \<Rightarrow> (rearm_end \<times> rearm) option" where
  "rearm_rounds cfg w stored 0 i s = Some (Gave_Up, s)"
| "rearm_rounds cfg w stored (Suc n) i s =
     (if cooling cfg s
      then (let s = sleep (cooldown_wait cfg s) s
            in if live w (now s) then Some (Returned, s) else rearm_rounds cfg w stored n (Suc i) s)
      else
        let h = (case find_host w (now s) of Some h \<Rightarrow> h | None \<Rightarrow> fst stored);
            s = s\<lparr>now := now s + find_time w (now s)\<rparr>;
            s = s\<lparr>last_activation := Some (now s)\<rparr>
        in case wait_for_topology cfg w (activate_relay w h (snd stored) s) of
             None \<Rightarrow> None
           | Some (True, s) \<Rightarrow> Some (Rejoined, s)
           | Some (False, s) \<Rightarrow>
               if backoffs cfg = [] then Some (Errored, s)
               else rearm_rounds cfg w stored n (Suc i) (sleep (backoffs cfg ! min i (length (backoffs cfg) - 1)) s))"

definition ACTIVATION_PORT :: int where "ACTIVATION_PORT = 443"

definition rearm_loop :: "rearm_cfg \<Rightarrow> world \<Rightarrow> (string \<times> int) option \<Rightarrow> rearm \<Rightarrow> (rearm_end \<times> rearm) option" where
  "rearm_loop cfg w target s0 =
     (let stored = (case target of None \<Rightarrow> ([], ACTIVATION_PORT) | Some t \<Rightarrow> t);
          s = (if absence_grace cfg > 0 then sleep (absence_grace cfg) s0 else s0)
      in if absence_grace cfg > 0 \<and> live w (now s) then Some (Returned, s)
         else rearm_rounds cfg w stored (max_rounds cfg) 0 s)"

section \<open>The table of loops\<close>

record sub_data =
  activation_host :: "string option"
  activation_port :: json
  sub_did :: "string option"

text \<open>None: the port is no number.\<close>

definition add_target :: "(string, string \<times> int) dict option \<Rightarrow> sub_data \<Rightarrow> (string, string \<times> int) dict option" where
  "add_target acc d =
     (case (acc, activation_host d, sub_did d) of
        (Some targets, Some h, Some x) \<Rightarrow>
          if h = [] \<or> x = [] then acc
          else map_option (\<lambda>p. dset x (h, p) targets) (py_int (py_or (activation_port d) (JInt ACTIVATION_PORT)))
      | _ \<Rightarrow> acc)"

definition activation_targets :: "sub_data list \<Rightarrow> (string, string \<times> int) dict option" where
  "activation_targets subs = foldl add_target (Some []) subs"

text \<open>\<open>running\<close>: the tasks neither done nor cancelled, with the DID each was started for.\<close>

record manager =
  tasks :: "(string, nat) dict"
  running :: "(nat \<times> string) list"
  fresh :: nat
  last_topology :: "string set"

definition new_manager :: manager where
  "new_manager = \<lparr>tasks = [], running = [], fresh = 0, last_topology = {}\<rparr>"

definition cancel :: "nat \<Rightarrow> manager \<Rightarrow> manager" where
  "cancel t m = m\<lparr>running := filter (\<lambda>(x, d). x \<noteq> t) (running m)\<rparr>"

definition ensure_rearm :: "string \<Rightarrow> manager \<Rightarrow> manager" where
  "ensure_rearm d m =
     (case dget (tasks m) d of
        Some t \<Rightarrow> if t \<in> fst ` set (running m) then m
                  else m\<lparr>tasks := dset d (fresh m) (tasks m), running := (fresh m, d) # running m, fresh := fresh m + 1\<rparr>
      | None \<Rightarrow> m\<lparr>tasks := dset d (fresh m) (tasks m), running := (fresh m, d) # running m, fresh := fresh m + 1\<rparr>)"

definition pop_rearm :: "string \<Rightarrow> manager \<Rightarrow> manager" where
  "pop_rearm d m =
     (case dget (tasks m) d of None \<Rightarrow> m | Some t \<Rightarrow> cancel t (m\<lparr>tasks := ddel d (tasks m)\<rparr>))"

definition note_topology :: "string list \<Rightarrow> string set \<Rightarrow> manager \<Rightarrow> manager" where
  "note_topology targets dids m =
     fold (\<lambda>d m. if d \<in> dids then pop_rearm d m else ensure_rearm d m) targets (m\<lparr>last_topology := dids\<rparr>)"

definition sweep :: "string list \<Rightarrow> manager \<Rightarrow> manager" where
  "sweep targets m = fold (\<lambda>d n. if d \<notin> last_topology m then ensure_rearm d n else n) targets m"

definition cancel_all :: "manager \<Rightarrow> manager" where
  "cancel_all m = m\<lparr>running := filter (\<lambda>(t, d). t \<notin> set (dvalues (tasks m))) (running m), tasks := []\<rparr>"

text \<open>The end of a loop: it clears its own slot only.\<close>

definition finish_loop :: "nat \<Rightarrow> string \<Rightarrow> manager \<Rightarrow> manager" where
  "finish_loop t d m =
     (let m = cancel t m in if dget (tasks m) d = Some t then m\<lparr>tasks := ddel d (tasks m)\<rparr> else m)"

datatype rearm_event =
    Topology "string list" "string set"
  | Sweep "string list"
  | Cancel_All
  | Finished nat string

inductive manager_step :: "manager \<Rightarrow> rearm_event \<Rightarrow> manager \<Rightarrow> bool" where
  Topology: "manager_step m (Topology targets dids) (note_topology targets dids m)"
| Sweep: "manager_step m (Sweep targets) (sweep targets m)"
| Cancel_All: "manager_step m Cancel_All (cancel_all m)"
| Finished: "(t, d) \<in> set (running m) \<Longrightarrow> manager_step m (Finished t d) (finish_loop t d m)"

inductive_cases manager_stepE: "manager_step m e m'"

inductive manager_reach :: "manager \<Rightarrow> bool" where
  Start: "manager_reach new_manager"
| Step: "manager_reach m \<Longrightarrow> manager_step m e m' \<Longrightarrow> manager_reach m'"

section \<open>Activations are rare\<close>

definition spaced :: "rat \<Rightarrow> rat list \<Rightarrow> bool" where
  "spaced c ts = sorted_wrt (\<lambda>a b. a + c \<le> b) ts"

definition world_ok :: "world \<Rightarrow> bool" where
  "world_ok w = (\<forall>t. 0 \<le> find_time w t \<and> 0 \<le> poke_time w t)"

text \<open>The last activation is the last poke, and the clock is behind it.\<close>

definition log_ok :: "rat \<Rightarrow> rearm \<Rightarrow> bool" where
  "log_ok c s = (spaced c (map fst (pokes s)) \<and>
     (case last_activation s of None \<Rightarrow> pokes s = [] | Some t \<Rightarrow> pokes s \<noteq> [] \<and> fst (last (pokes s)) = t \<and> t \<le> now s))"

lemma poll_time_aux: "poll_loop lv settle interval waited t = Some r \<Longrightarrow> t \<le> snd r"
proof (erule poll_loop.raw_induct [rotated])
  fix f :: "(rat \<Rightarrow> bool) \<Rightarrow> rat \<Rightarrow> rat \<Rightarrow> rat \<Rightarrow> rat \<Rightarrow> (bool \<times> rat) option" and lv settle interval waited t y
  assume ih: "\<And>lv settle interval waited t y. f lv settle interval waited t = Some y \<Longrightarrow> t \<le> snd y"
    and e: "(if waited < settle then if lv t then Some (True, t) else f lv settle interval (waited + interval) (t + max 0 interval) else Some (lv t, t)) = Some y"
  show "t \<le> snd y"
  proof (cases "waited < settle \<and> \<not> lv t")
    case True
    then have "t + max 0 interval \<le> snd y" using ih e by auto
    then show ?thesis by (meson dual_order.trans le_add_same_cancel1 max.cobounded1)
  qed (use e in \<open>auto split: if_splits\<close>)
qed

lemma poll_time: "poll_loop lv settle interval waited t = Some (b, t') \<Longrightarrow> t \<le> t'"
  using poll_time_aux by fastforce

lemma poll_total: "0 < interval \<Longrightarrow> \<exists>b t'. poll_loop lv settle interval waited t = Some (b, t')"
proof (induction "nat \<lceil>(settle - waited) / interval\<rceil>" arbitrary: waited t rule: less_induct)
  case less
  show ?case
  proof (cases "waited < settle")
    case True
    have "(settle - (waited + interval)) / interval = (settle - waited) / interval - 1"
      using less.prems by (simp add: field_simps)
    moreover have "0 < (settle - waited) / interval" using True less.prems by simp
    ultimately have "nat \<lceil>(settle - (waited + interval)) / interval\<rceil> < nat \<lceil>(settle - waited) / interval\<rceil>"
      by simp
    then have "\<exists>b t'. poll_loop lv settle interval (waited + interval) (t + max 0 interval) = Some (b, t')"
      using less by blast
    then show ?thesis by (subst poll_loop.simps) auto
  qed (subst poll_loop.simps, simp)
qed

lemma cooled_log:
  assumes "log_ok c s" "0 \<le> c" "\<not> cooling cfg s" "rearm_cooldown cfg = c" "now s \<le> t" "t \<le> t'"
  shows "log_ok c (s\<lparr>now := t', last_activation := Some t, pokes := pokes s @ [(t, h, p)]\<rparr>)"
proof (cases "last_activation s")
  case None
  then show ?thesis using assms by (simp add: log_ok_def spaced_def)
next
  case (Some u)
  then have u: "pokes s \<noteq> []" "fst (last (pokes s)) = u" "u + c \<le> t"
    using assms by (auto simp: log_ok_def cooling_def)
  obtain ps x where ps: "pokes s = ps @ [x]" using u(1) by (cases "pokes s" rule: rev_cases) auto
  have "spaced c (map fst ps @ [fst x])" using assms(1) ps by (simp add: log_ok_def)
  then have "\<forall>a \<in> set (map fst ps). a + c \<le> fst x" by (auto simp: spaced_def sorted_wrt_append)
  then have "\<forall>a \<in> set (map fst ps). a + c \<le> t" using u ps assms(2) by fastforce
  then show ?thesis using assms(1,6) u ps by (simp add: log_ok_def spaced_def sorted_wrt_append)
qed

lemma later_log: "log_ok c s \<Longrightarrow> now s \<le> t \<Longrightarrow> log_ok c (s\<lparr>now := t\<rparr>)"
  by (auto simp: log_ok_def split: option.splits)

lemma sleep_log: "log_ok c s \<Longrightarrow> log_ok c (sleep d s)"
  unfolding sleep_def by (rule later_log) simp_all

text \<open>What a round that activates does before it looks at the outcome.\<close>

definition poked :: "world \<Rightarrow> string \<times> int \<Rightarrow> rearm \<Rightarrow> rearm" where
  "poked w stored s =
     (let h = (case find_host w (now s) of Some h \<Rightarrow> h | None \<Rightarrow> fst stored); t = now s + find_time w (now s)
      in s\<lparr>now := t + poke_time w t, last_activation := Some t, pokes := pokes s @ [(t, h, snd stored)]\<rparr>)"

lemma activate_poked:
  "activate_relay w (case find_host w (now s) of Some h \<Rightarrow> h | None \<Rightarrow> fst stored) (snd stored)
     (s\<lparr>now := now s + find_time w (now s), last_activation := Some (now (s\<lparr>now := now s + find_time w (now s)\<rparr>))\<rparr>) = poked w stored s"
  by (cases s) (simp add: activate_relay_def poked_def Let_def)

lemma rounds_Suc:
  "rearm_rounds cfg w stored (Suc n) i s =
     (if cooling cfg s
      then (let s = sleep (cooldown_wait cfg s) s
            in if live w (now s) then Some (Returned, s) else rearm_rounds cfg w stored n (Suc i) s)
      else case wait_for_topology cfg w (poked w stored s) of
             None \<Rightarrow> None
           | Some (True, s) \<Rightarrow> Some (Rejoined, s)
           | Some (False, s) \<Rightarrow>
               if backoffs cfg = [] then Some (Errored, s)
               else rearm_rounds cfg w stored n (Suc i) (sleep (backoffs cfg ! min i (length (backoffs cfg) - 1)) s))"
  by (simp only: rearm_rounds.simps Let_def activate_poked)

declare rearm_rounds.simps(2) [simp del]

lemma waited_log:
  assumes "wait_for_topology cfg w s = Some (b, s')" "log_ok c s"
  shows "log_ok c s' \<and> pokes s' = pokes s"
  using assms poll_time later_log by (auto simp: wait_for_topology_def split: option.splits)

lemma rounds_spaced:
  assumes "world_ok w" "0 \<le> rearm_cooldown cfg"
  shows "rearm_rounds cfg w stored n i s = Some (r, s') \<Longrightarrow> log_ok (rearm_cooldown cfg) s \<Longrightarrow>
    log_ok (rearm_cooldown cfg) s' \<and> (\<exists>new. pokes s' = pokes s @ new \<and> length new \<le> n)"
proof (induction n arbitrary: i s)
  case (Suc n)
  show ?case
  proof (cases "cooling cfg s")
    case True
    let ?s = "sleep (cooldown_wait cfg s) s"
    have l: "log_ok (rearm_cooldown cfg) ?s" using Suc.prems(2) by (rule sleep_log)
    have p: "pokes ?s = pokes s" by (simp add: sleep_def)
    show ?thesis
    proof (cases "live w (now ?s)")
      case live: True
      then have "s' = ?s" using Suc.prems(1) True by (simp add: rounds_Suc Let_def)
      then show ?thesis using l p by simp
    next
      case False
      then have "rearm_rounds cfg w stored n (Suc i) ?s = Some (r, s')" using Suc.prems(1) True by (simp add: rounds_Suc Let_def)
      from Suc.IH [OF this l] show ?thesis unfolding p by (metis le_SucI)
    qed
  next
    case False
    let ?t = "now s + find_time w (now s)"
    have "log_ok (rearm_cooldown cfg) (poked w stored s)"
      unfolding poked_def Let_def using assms Suc.prems(2) False by (intro cooled_log) (simp_all add: world_ok_def)
    moreover have pk: "\<exists>x. pokes (poked w stored s) = pokes s @ [x]" by (simp add: poked_def Let_def)
    moreover obtain b s1 where w1: "wait_for_topology cfg w (poked w stored s) = Some (b, s1)"
      using Suc.prems(1) False by (auto simp: rounds_Suc split: option.splits)
    ultimately have s1: "log_ok (rearm_cooldown cfg) s1" "\<exists>x. pokes s1 = pokes s @ [x]"
      using waited_log by metis+
    show ?thesis
    proof (cases "b \<or> backoffs cfg = []")
      case True
      then have "s' = s1" using Suc.prems(1) False w1 by (auto simp: rounds_Suc split: bool.splits)
      then show ?thesis using s1 by auto
    next
      case go: False
      let ?s = "sleep (backoffs cfg ! min i (length (backoffs cfg) - 1)) s1"
      have "rearm_rounds cfg w stored n (Suc i) ?s = Some (r, s')" using Suc.prems(1) False w1 go by (simp add: rounds_Suc)
      from Suc.IH [OF this sleep_log [OF s1(1)]] s1(2) show ?thesis by (auto simp: sleep_def)
    qed
  qed
qed simp

lemma rounds_total:
  assumes "0 < poll_interval cfg"
  shows "\<exists>r s'. rearm_rounds cfg w stored n i s = Some (r, s')"
proof (induction n arbitrary: i s)
  case (Suc n)
  obtain b t where "poll_loop (live w) (settle_timeout cfg) (poll_interval cfg) 0 (now (poked w stored s)) = Some (b, t)"
    using poll_total [OF assms] by blast
  then have "wait_for_topology cfg w (poked w stored s) = Some (b, (poked w stored s)\<lparr>now := t\<rparr>)"
    by (simp add: wait_for_topology_def)
  then show ?case using Suc by (auto simp: rounds_Suc Let_def split: bool.splits)
qed simp

text \<open>
  C21 [rearm_rate_limited]
  With a positive poll interval a re-arm loop ends; over it and all loops before it any two activations
  of a device are at least the cooldown apart, one loop makes at most one per round, and none when
  the device is back when the grace is over.
\<close>

theorem rearm_rate_limited:
  assumes "world_ok w" "0 \<le> rearm_cooldown cfg" "0 < poll_interval cfg" "log_ok (rearm_cooldown cfg) s"
  shows "\<exists>r s' new. rearm_loop cfg w target s = Some (r, s') \<and> log_ok (rearm_cooldown cfg) s' \<and>
    pokes s' = pokes s @ new \<and> length new \<le> max_rounds cfg \<and>
    (0 < absence_grace cfg \<and> live w (now s + absence_grace cfg) \<longrightarrow> r = Returned \<and> new = [])"
proof -
  let ?s = "if absence_grace cfg > 0 then sleep (absence_grace cfg) s else s"
  have l: "log_ok (rearm_cooldown cfg) ?s" using assms(4) sleep_log by simp
  have p: "pokes ?s = pokes s" "0 < absence_grace cfg \<Longrightarrow> now ?s = now s + absence_grace cfg" by (simp_all add: sleep_def)
  show ?thesis
  proof (cases "0 < absence_grace cfg \<and> live w (now ?s)")
    case True
    then show ?thesis using l p by (auto simp: rearm_loop_def Let_def sleep_def)
  next
    case False
    let ?stored = "case target of None \<Rightarrow> ([], ACTIVATION_PORT) | Some t \<Rightarrow> t"
    obtain r s' where e: "rearm_rounds cfg w ?stored (max_rounds cfg) 0 ?s = Some (r, s')"
      using rounds_total [OF assms(3)] by blast
    then have "rearm_loop cfg w target s = Some (r, s')" using False unfolding rearm_loop_def Let_def by presburger
    moreover obtain new where "pokes s' = pokes s @ new" "length new \<le> max_rounds cfg" "log_ok (rearm_cooldown cfg) s'"
      using rounds_spaced [OF assms(1,2) e l] p by auto
    ultimately show ?thesis using False p by auto
  qed
qed

definition quiet :: world where
  "quiet = \<lparr>live = (\<lambda>t. False), find_host = (\<lambda>t. None), find_time = (\<lambda>t. 0), poke_time = (\<lambda>t. 0)\<rparr>"

theorem rearm_rate_limited_witness:
  "\<exists>r s'. rearm_loop default_cfg quiet None \<lparr>now = 0, last_activation = None, pokes = []\<rparr> = Some (r, s') \<and> length (pokes s') \<le> 6"
proof -
  have "world_ok quiet" "log_ok (rearm_cooldown default_cfg) \<lparr>now = 0, last_activation = None, pokes = []\<rparr>"
    by (simp_all add: world_ok_def quiet_def log_ok_def spaced_def)
  then show ?thesis
    using rearm_rate_limited [of quiet default_cfg "\<lparr>now = 0, last_activation = None, pokes = []\<rparr>" None]
    by (auto simp: default_cfg_def)
qed

text \<open>
  Waiting for the cooldown uses up rounds: with the default timing, a device that stays away and answers
  at once is activated twice in the six rounds, not six times.
\<close>

theorem rearm_budget:
  "map_option (\<lambda>(r, s). (r, map fst (pokes s)))
     (rearm_loop default_cfg quiet (Some (''10.0.0.7'', 443)) \<lparr>now = 0, last_activation = None, pokes = []\<rparr>)
   = Some (Gave_Up, [15, 105])"
proof -
  have p: "poll_loop (\<lambda>t. False) 20 2 0 t = Some (False, t + 20)" for t
    by (simp add: poll_loop.simps)
  have w: "wait_for_topology default_cfg quiet s = Some (False, s\<lparr>now := now s + 20\<rparr>)" for s
    by (simp add: wait_for_topology_def default_cfg_def quiet_def p)
  have c: "rearm_rounds default_cfg quiet st (Suc n) i \<lparr>now = t, last_activation = Some u, pokes = ps\<rparr> =
      rearm_rounds default_cfg quiet st n (Suc i) \<lparr>now = t + min (90 - (t - u)) 30, last_activation = Some u, pokes = ps\<rparr>"
    if "t - u < 90" for st n i t u ps
    using that by (simp add: rounds_Suc cooling_def cooldown_wait_def default_cfg_def quiet_def sleep_def max_def min_def)
  have a: "rearm_rounds default_cfg quiet st (Suc n) i \<lparr>now = t, last_activation = l, pokes = ps\<rparr> =
      rearm_rounds default_cfg quiet st n (Suc i)
        \<lparr>now = t + 20 + [5, 15, 30, 60] ! min i 3, last_activation = Some t, pokes = ps @ [(t, fst st, snd st)]\<rparr>"
    if "\<forall>u. l = Some u \<longrightarrow> t - u \<ge> 90" "i \<le> 4" for st n i t l ps
  proof -
    have "\<not> cooling default_cfg \<lparr>now = t, last_activation = l, pokes = ps\<rparr>"
      using that(1) by (cases l) (simp_all add: cooling_def default_cfg_def)
    moreover have "0 \<le> [5, 15, 30, 60 :: rat] ! min i 3" using that(2) by (auto simp: min_def nth_Cons split: nat.split)
    moreover have "poked quiet st \<lparr>now = t, last_activation = l, pokes = ps\<rparr> =
        \<lparr>now = t, last_activation = Some t, pokes = ps @ [(t, fst st, snd st)]\<rparr>" by (simp add: poked_def quiet_def)
    moreover have "backoffs default_cfg = [5, 15, 30, 60]" by (simp add: default_cfg_def)
    ultimately show ?thesis by (simp add: rounds_Suc w sleep_def max_def numeral_3_eq_3)
  qed
  have "rearm_rounds default_cfg quiet st (Suc (Suc (Suc (Suc (Suc (Suc 0)))))) 0 \<lparr>now = 15, last_activation = None, pokes = []\<rparr> =
      Some (Gave_Up, \<lparr>now = 195, last_activation = Some 105, pokes = [(15, fst st, snd st), (105, fst st, snd st)]\<rparr>)" for st
    by (simp add: a c)
  then have "rearm_rounds default_cfg quiet st 6 0 \<lparr>now = 15, last_activation = None, pokes = []\<rparr> =
      Some (Gave_Up, \<lparr>now = 195, last_activation = Some 105, pokes = [(15, fst st, snd st), (105, fst st, snd st)]\<rparr>)" for st
    by (simp add: numeral_eq_Suc)
  moreover have "absence_grace default_cfg = 15" "max_rounds default_cfg = 6" "live quiet = (\<lambda>t. False)"
    by (simp_all add: default_cfg_def quiet_def)
  ultimately show ?thesis by (simp add: rearm_loop_def sleep_def Let_def)
qed

section \<open>One loop per device\<close>

definition table_ok :: "(string \<Rightarrow> nat option) \<Rightarrow> (nat \<times> string) list \<Rightarrow> nat \<Rightarrow> bool" where
  "table_ok f r n = (distinct (map fst r) \<and> (\<forall>t d. (t, d) \<in> set r \<longrightarrow> f d = Some t) \<and>
     (\<forall>d t. f d = Some t \<longrightarrow> t < n) \<and> (\<forall>d e t. f d = Some t \<longrightarrow> f e = Some t \<longrightarrow> d = e))"

definition manager_ok :: "manager \<Rightarrow> bool" where
  "manager_ok m = table_ok (dget (tasks m)) (running m) (fresh m)"

definition busy :: "manager \<Rightarrow> string set" where
  "busy m = snd ` set (running m)"

lemma table_run: "table_ok f r n \<Longrightarrow> (t, d) \<in> set r \<Longrightarrow> f d = Some t"
  by (simp add: table_ok_def)

lemma table_inj: "table_ok f r n \<Longrightarrow> f d = Some t \<Longrightarrow> f e = Some t \<Longrightarrow> d = e"
  by (simp add: table_ok_def)

lemma table_fresh: "table_ok f r n \<Longrightarrow> f d = Some t \<Longrightarrow> t < n"
  by (simp add: table_ok_def)

lemma table_cancel: "table_ok f r n \<Longrightarrow> table_ok f (filter (\<lambda>(x, e). x \<noteq> t) r) n"
  by (simp add: table_ok_def distinct_map_filter)

lemma table_drop:
  assumes "table_ok f r n" "f d = Some t"
  shows "table_ok (f(d := None)) (filter (\<lambda>(x, e). x \<noteq> t) r) n"
proof -
  have "e \<noteq> d" if "(x, e) \<in> set r" "x \<noteq> t" for x e using table_run [OF assms(1) that(1)] assms(2) that(2) by auto
  moreover have "table_ok f (filter (\<lambda>(x, e). x \<noteq> t) r) n" using assms(1) by (rule table_cancel)
  ultimately show ?thesis by (simp add: table_ok_def) blast
qed

lemma table_create:
  assumes "table_ok f r n" "d \<notin> snd ` set r"
  shows "table_ok (f(d := Some n)) ((n, d) # r) (n + 1)"
proof -
  have "e \<noteq> d" if "(x, e) \<in> set r" for x e using assms(2) that by force
  moreover have "n \<notin> fst ` set r" using table_run [OF assms(1)] table_fresh [OF assms(1)] by fastforce
  moreover have "f e \<noteq> Some n" for e using table_fresh [OF assms(1)] by blast
  moreover have "t < n + 1" if "f e = Some t" for e t using table_fresh [OF assms(1) that] by simp
  ultimately show ?thesis using assms(1) by (auto simp: table_ok_def)
qed

lemma table_busy:
  assumes "table_ok f r n"
  shows "d \<in> snd ` set r \<longleftrightarrow> (\<exists>t. f d = Some t \<and> t \<in> fst ` set r)"
proof
  assume "d \<in> snd ` set r"
  then obtain t where "(t, d) \<in> set r" by auto
  then show "\<exists>t. f d = Some t \<and> t \<in> fst ` set r" using table_run [OF assms] by force
next
  assume "\<exists>t. f d = Some t \<and> t \<in> fst ` set r"
  then obtain t e where t: "f d = Some t" "(t, e) \<in> set r" by auto
  then have "e = d" using table_run [OF assms] table_inj [OF assms] by blast
  then show "d \<in> snd ` set r" using t(2) by force
qed

lemma table_drop_busy:
  assumes "table_ok f r n" "f d = Some t"
  shows "snd ` set (filter (\<lambda>(x, e). x \<noteq> t) r) = snd ` set r - {d}"
proof -
  have "x = t \<longleftrightarrow> e = d" if "(x, e) \<in> set r" for x e
  proof
    assume "x = t"
    then show "e = d" using table_run [OF assms(1) that] table_inj [OF assms(1) _ assms(2)] by simp
  next
    assume "e = d"
    then show "x = t" using table_run [OF assms(1) that] assms(2) by simp
  qed
  then have "set (filter (\<lambda>(x, e). x \<noteq> t) r) = {(x, e) \<in> set r. e \<noteq> d}" by auto
  then show ?thesis by force
qed

lemma ensure_cases:
  assumes "manager_ok m"
  shows "ensure_rearm d m = (if d \<in> busy m then m
    else m\<lparr>tasks := dset d (fresh m) (tasks m), running := (fresh m, d) # running m, fresh := fresh m + 1\<rparr>)"
proof (cases "dget (tasks m) d")
  case None
  then have "d \<notin> busy m" using table_busy [OF assms [unfolded manager_ok_def], of d] by (simp add: busy_def)
  then show ?thesis using None by (simp add: ensure_rearm_def)
next
  case (Some t)
  then have "t \<in> fst ` set (running m) \<longleftrightarrow> d \<in> busy m"
    using table_busy [OF assms [unfolded manager_ok_def], of d] by (simp add: busy_def)
  then show ?thesis using Some by (simp add: ensure_rearm_def)
qed

lemma tasks_set: "dget (dset d v ts) = (dget ts)(d := Some v)"
  by (rule ext) simp

lemma tasks_del: "dget (ddel d ts) = (dget ts)(d := None)"
  by (rule ext) simp

lemma ensure_ok: "manager_ok m \<Longrightarrow> manager_ok (ensure_rearm d m)"
  using table_create [of "dget (tasks m)" "running m" "fresh m" d, folded tasks_set]
  by (simp add: ensure_cases) (simp add: manager_ok_def busy_def del: dget_dset)

lemma ensure_busy: "manager_ok m \<Longrightarrow> busy (ensure_rearm d m) = insert d (busy m)"
  by (simp add: ensure_cases) (auto simp: busy_def)

lemma pop_ok: "manager_ok m \<Longrightarrow> manager_ok (pop_rearm d m)"
  using table_drop [of "dget (tasks m)" "running m" "fresh m" d, folded tasks_del]
  by (simp add: manager_ok_def pop_rearm_def cancel_def del: dget_ddel split: option.split)

lemma pop_busy:
  assumes "manager_ok m"
  shows "busy (pop_rearm d m) = busy m - {d}"
proof (cases "dget (tasks m) d")
  case None
  then have "d \<notin> busy m" using table_busy [OF assms [unfolded manager_ok_def], of d] by (simp add: busy_def)
  then show ?thesis using None by (simp add: pop_rearm_def)
next
  case (Some t)
  from table_drop_busy [OF assms [unfolded manager_ok_def] this] show ?thesis
    using Some by (simp add: pop_rearm_def cancel_def busy_def)
qed

lemma finish_ok: "manager_ok m \<Longrightarrow> (t, d) \<in> set (running m) \<Longrightarrow> manager_ok (finish_loop t d m)"
  using table_drop [of "dget (tasks m)" "running m" "fresh m" d t, folded tasks_del] table_run [of "dget (tasks m)" "running m" "fresh m" t d]
  by (simp add: manager_ok_def finish_loop_def cancel_def Let_def del: dget_ddel)

lemma fold_ok: "(\<And>x m. manager_ok m \<Longrightarrow> manager_ok (f x m)) \<Longrightarrow> manager_ok m \<Longrightarrow> manager_ok (fold f xs m)"
  by (induction xs arbitrary: m) simp_all

lemma note_ok: "manager_ok m \<Longrightarrow> manager_ok (note_topology targets dids m)"
  unfolding note_topology_def by (rule fold_ok) (auto simp: ensure_ok pop_ok, simp add: manager_ok_def)

lemma sweep_ok: "manager_ok m \<Longrightarrow> manager_ok (sweep targets m)"
  unfolding sweep_def by (rule fold_ok) (auto simp: ensure_ok)

lemma cancel_all_running: "manager_ok m \<Longrightarrow> running (cancel_all m) = []"
proof -
  assume "manager_ok m"
  then have "t \<in> set (dvalues (tasks m))" if "(t, d) \<in> set (running m)" for t d
  proof -
    have "dget (tasks m) d = Some t" using table_run \<open>manager_ok m\<close> that by (simp add: manager_ok_def)
    then have "(d, t) \<in> set (tasks m)" by (rule map_of_SomeD)
    then show ?thesis by (force simp: dvalues_def)
  qed
  then show ?thesis by (auto simp: cancel_all_def filter_empty_conv)
qed

lemma manager_reach_ok: "manager_reach m \<Longrightarrow> manager_ok m"
proof (induction rule: manager_reach.induct)
  case Start
  then show ?case by (simp add: manager_ok_def table_ok_def new_manager_def)
next
  case (Step m e m')
  from Step(2) show ?case
  proof (cases rule: manager_step.cases)
    case Cancel_All
    then show ?thesis using cancel_all_running [OF Step.IH] by (simp add: manager_ok_def table_ok_def cancel_all_def)
  qed (use Step.IH in \<open>simp_all add: note_ok sweep_ok finish_ok\<close>)
qed

lemma ok_unique: "manager_ok m \<Longrightarrow> distinct (map snd (running m))"
proof -
  assume m: "manager_ok m"
  have "x = y" if "x \<in> set (running m)" "y \<in> set (running m)" "snd x = snd y" for x y
    using that table_run [OF m [unfolded manager_ok_def]] by (metis option.inject prod.collapse)
  moreover have "distinct (running m)" using m by (auto simp: manager_ok_def table_ok_def distinct_map)
  ultimately show ?thesis by (simp add: distinct_map inj_on_def)
qed

lemma note_busy:
  "manager_ok m \<Longrightarrow> busy (fold (\<lambda>d m. if d \<in> dids then pop_rearm d m else ensure_rearm d m) targets m) =
     (busy m \<union> (set targets - dids)) - (set targets \<inter> dids)"
  by (induction targets arbitrary: m) (auto simp: pop_ok ensure_ok pop_busy ensure_busy)

lemma note_running:
  assumes "manager_ok m" "d \<in> set targets"
  shows "d \<in> snd ` set (running (note_topology targets dids m)) \<longleftrightarrow> d \<notin> dids"
proof -
  have "manager_ok (m\<lparr>last_topology := dids\<rparr>)" using assms(1) by (simp add: manager_ok_def)
  from note_busy [OF this, of dids targets] show ?thesis using assms(2) by (auto simp: note_topology_def busy_def)
qed

text \<open>
  C31 [one_rearm_per_device]
  Whatever the order of topology pushes, sweeps, unloads and ends of loops, a device has at most one
  loop running, and after a push exactly the configured devices that are absent have one.
\<close>

theorem one_rearm_per_device:
  assumes "manager_reach m"
  shows "distinct (map snd (running m)) \<and> running (cancel_all m) = [] \<and>
    (\<forall>d \<in> set targets. d \<in> snd ` set (running (note_topology targets dids m)) \<longleftrightarrow> d \<notin> dids)"
  using manager_reach_ok [OF assms] ok_unique cancel_all_running note_running by blast

theorem one_rearm_per_device_witness:
  "''a'' \<in> snd ` set (running (note_topology [''a''] {} (sweep [''a''] new_manager)))"
proof -
  have "manager_reach (sweep [''a''] new_manager)" using manager_reach.Start manager_step.Sweep manager_reach.Step by blast
  then show ?thesis using one_rearm_per_device [of "sweep [''a''] new_manager" "[''a'']" "{}"] by simp
qed

end
