(* ===== verification/Codecs.thy ===== *)
theory Codecs
  imports Protocol
begin

text \<open>
  \<open>device/composites/codecs.py\<close> and \<open>device/composites/controller.py\<close>: the codecs of composite
  settings, several fields packed into one wire value, and the controller that changes one field at a
  time. The locale \<open>codec\<close> is what the controller needs of a codec; each codec is an instance.
  \<open>time.fromisoformat\<close> is a parameter of the schedule codec.
\<close>

section \<open>Fields\<close>

text \<open>A Python time (seconds and below are never set here) or any other value.\<close>

datatype fval = Time nat nat | V json

type_synonym fields = "(string, fval) dict"

text \<open>An exception of the codec; \<open>Text_Beyond\<close>: the text has characters outside the model.\<close>

datatype codec_error = Raises | Text_Beyond

text \<open>\<open>CompositeField\<close>: what a field is called, where it is shown, its label and its parameters.\<close>

record composite_field =
  cf_name :: string
  cf_platform :: string
  cf_label :: string
  cf_params :: obj

definition composite_field :: "string \<Rightarrow> string \<Rightarrow> string \<Rightarrow> obj \<Rightarrow> composite_field" where
  "composite_field n p l ps = \<lparr>cf_name = n, cf_platform = p, cf_label = l, cf_params = ps\<rparr>"

definition number_range :: "int \<Rightarrow> int \<Rightarrow> obj" where
  "number_range lo hi = [(''min'', JInt lo), (''max'', JInt hi)]"

record codec =
  decode :: "string \<Rightarrow> codec_error + fields"
  encode :: "fields \<Rightarrow> codec_error + string"
  defaults :: fields
  shown_fields :: "composite_field list"

section \<open>Helpers\<close>

definition mins_to_time :: "int \<Rightarrow> fval" where
  "mins_to_time m = Time (nat (m div 60 mod 24)) (nat (m mod 60))"

definition time_to_mins :: "nat \<Rightarrow> nat \<Rightarrow> int" where
  "time_to_mins h m = int (h * 60 + m)"

definition load_json :: "string \<Rightarrow> codec_error + json" where
  "load_json wire = (case loads wire of Inl Malformed \<Rightarrow> Inl Raises | Inl Beyond \<Rightarrow> Inl Text_Beyond | Inr v \<Rightarrow> Inr v)"

text \<open>\<open>int(f[k])\<close> of a field, and \<open>f[k]\<close> when it must be a time.\<close>

definition int_field :: "fields \<Rightarrow> string \<Rightarrow> int option" where
  "int_field f k = (case dget f k of Some (V v) \<Rightarrow> py_int v | _ \<Rightarrow> None)"

definition time_field :: "fields \<Rightarrow> string \<Rightarrow> (nat \<times> nat) option" where
  "time_field f k = (case dget f k of Some (Time h m) \<Rightarrow> Some (h, m) | _ \<Rightarrow> None)"

fun ftruthy :: "fval \<Rightarrow> bool" where
  "ftruthy (Time h m) = True"
| "ftruthy (V v) = truthy v"

section \<open>Packed period\<close>

definition packed_decode :: "string \<Rightarrow> codec_error + fields" where
  "packed_decode wire =
     (case int_of_string wire of
        None \<Rightarrow> Inl Raises
      | Some w \<Rightarrow> Inr [(''start'', mins_to_time (drop_bit 12 w)), (''end'', mins_to_time (drop_bit 1 w AND 0x7FF)),
          (''enabled'', V (JBool (w AND 1 = 0)))])"

definition packed_encode :: "fields \<Rightarrow> codec_error + string" where
  "packed_encode f =
     (case (time_field f ''start'', time_field f ''end'', dget f ''enabled'') of
        (Some (sh, sm), Some (eh, em), Some en) \<Rightarrow>
          Inr (int_text ((push_bit 12 (time_to_mins sh sm) OR push_bit 1 (time_to_mins eh em)) OR (if ftruthy en then 0 else 1)))
      | _ \<Rightarrow> Inl Raises)"

definition packed_period :: codec where
  "packed_period = \<lparr>decode = packed_decode, encode = packed_encode,
     defaults = [(''start'', Time 0 0), (''end'', Time 23 59), (''enabled'', V (JBool True))],
     shown_fields = [composite_field ''start'' ''time'' ''Start'' [], composite_field ''end'' ''time'' ''End'' [],
       composite_field ''enabled'' ''switch'' ''Enabled'' []]\<rparr>"

section \<open>Brightness\<close>

definition brightness_defaults :: fields where
  "brightness_defaults = [(''auto'', V (JBool True)), (''colour'', V (JInt 100)), (''bw'', V (JInt 100))]"

definition brightness_decode :: "string \<Rightarrow> codec_error + fields" where
  "brightness_decode wire =
     (case int_of_string wire of
        None \<Rightarrow> Inl Raises
      | Some w \<Rightarrow>
          if w = 0 then Inr (dset ''auto'' (V (JBool True)) brightness_defaults)
          else Inr [(''auto'', V (JBool False)), (''colour'', V (JInt (w AND 0xFFFF))), (''bw'', V (JInt (drop_bit 16 w AND 0xFFFF)))])"

definition brightness_encode :: "fields \<Rightarrow> codec_error + string" where
  "brightness_encode f =
     (if (case dget f ''auto'' of Some v \<Rightarrow> ftruthy v | None \<Rightarrow> False) then Inr ''0''
      else case (int_field f ''bw'', int_field f ''colour'') of
             (Some b, Some c) \<Rightarrow> Inr (int_text (push_bit 16 (b AND 0xFFFF) OR (c AND 0xFFFF)))
           | _ \<Rightarrow> Inl Raises)"

definition brightness :: codec where
  "brightness = \<lparr>decode = brightness_decode, encode = brightness_encode, defaults = brightness_defaults,
     shown_fields = [composite_field ''auto'' ''switch'' ''Auto'' [],
       composite_field ''colour'' ''number'' ''Colour brightness'' (number_range 0 100 @ [(''unit'', JStr ''%'')]),
       composite_field ''bw'' ''number'' ''B&W brightness'' (number_range 0 100 @ [(''unit'', JStr ''%'')])]\<rparr>"

section \<open>Schedule\<close>

text \<open>\<open>^[01]{7}$\<close>; the dollar also matches before a final newline.\<close>

definition bit_char :: "char \<Rightarrow> bool" where
  "bit_char c = (c = CHR ''0'' \<or> c = CHR ''1'')"

definition REPEAT_RE :: "string \<Rightarrow> bool" where
  "REPEAT_RE s = (list_all bit_char (take 7 s) \<and> (length s = 7 \<or> length s = 8 \<and> last s = CHR 0x0A))"

definition two_digits :: "nat \<Rightarrow> string" where
  "two_digits n = [digit_char (n div 10), digit_char (n mod 10)]"

definition hh_mm :: "nat \<Rightarrow> nat \<Rightarrow> string" where
  "hh_mm h m = two_digits h @ '':'' @ two_digits m"

fun map_opt :: "('a \<Rightarrow> 'b option) \<Rightarrow> 'a list \<Rightarrow> 'b list option" where
  "map_opt f [] = Some []"
| "map_opt f (x # xs) = (case (f x, map_opt f xs) of (Some y, Some ys) \<Rightarrow> Some (y # ys) | _ \<Rightarrow> None)"

text \<open>Iterating a JSON value gives its items, its keys or its characters.\<close>

definition iter_json :: "json \<Rightarrow> json list option" where
  "iter_json v =
     (case v of JList xs \<Rightarrow> Some xs | JObj d \<Rightarrow> Some (map (JStr \<circ> fst) d) | JStr s \<Rightarrow> Some (map (\<lambda>c. JStr [c]) s) | _ \<Rightarrow> None)"

definition jitem :: "json \<Rightarrow> string \<Rightarrow> json option" where
  "jitem v k = (case v of JObj d \<Rightarrow> dget d k | _ \<Rightarrow> None)"

definition schedule_decode :: "(string \<Rightarrow> (nat \<times> nat) option) \<Rightarrow> string \<Rightarrow> codec_error + fields" where
  "schedule_decode fromiso wire =
     (case load_json wire of
        Inl e \<Rightarrow> Inl e
      | Inr d \<Rightarrow>
          (case Option.bind (Option.bind (jitem d ''repeat'') iter_json) (map_opt (map_option int_text \<circ> py_int)) of
             None \<Rightarrow> Inl Raises
           | Some bs \<Rightarrow>
               (let repeat = concat bs
                in if \<not> REPEAT_RE repeat then Inl Raises
                   else case (jitem d ''starttime'', jitem d ''endtime'') of
                          (Some (JStr s), Some (JStr e)) \<Rightarrow>
                            (case (fromiso s, fromiso e) of
                               (Some (sh, sm), Some (eh, em)) \<Rightarrow>
                                 Inr [(''start'', Time sh sm), (''end'', Time eh em), (''repeat'', V (JStr repeat))]
                             | _ \<Rightarrow> Inl Raises)
                        | _ \<Rightarrow> Inl Raises)))"

definition schedule_encode :: "fields \<Rightarrow> codec_error + string" where
  "schedule_encode f =
     (case dget f ''repeat'' of
        Some (V (JStr r)) \<Rightarrow>
          if \<not> REPEAT_RE r then Inl Raises
          else (case (time_field f ''start'', time_field f ''end'', map_opt (\<lambda>c. int_of_string [c]) r) of
                  (Some (sh, sm), Some (eh, em), Some bits) \<Rightarrow>
                    Inr (dumps (JObj [(''starttime'', JStr (hh_mm sh sm)), (''endtime'', JStr (hh_mm eh em)), (''repeat'', JList (map JInt bits))]))
                | _ \<Rightarrow> Inl Raises)
      | _ \<Rightarrow> Inl Raises)"

definition schedule_json :: "(string \<Rightarrow> (nat \<times> nat) option) \<Rightarrow> codec" where
  "schedule_json fromiso = \<lparr>decode = schedule_decode fromiso, encode = schedule_encode,
     defaults = [(''start'', Time 0 0), (''end'', Time 23 59), (''repeat'', V (JStr ''1111111''))],
     shown_fields = [composite_field ''start'' ''time'' ''Start'' [], composite_field ''end'' ''time'' ''End'' [],
       composite_field ''repeat'' ''text'' ''Repeat days'' []]\<rparr>"

section \<open>Regions and presets\<close>

definition region_decode :: "string \<Rightarrow> codec_error + fields" where
  "region_decode wire =
     (case load_json wire of
        Inl e \<Rightarrow> Inl e
      | Inr d \<Rightarrow>
          (case jitem d ''detect_region'' of
             None \<Rightarrow> Inl Raises
           | Some inner \<Rightarrow> Inr [(''region'', V (JStr (case inner of JStr s \<Rightarrow> s | _ \<Rightarrow> dumps inner)))]))"

text \<open>\<open>v[:1] in "[{"\<close> also holds of the empty text.\<close>

definition region_encode :: "fields \<Rightarrow> codec_error + string" where
  "region_encode f =
     (case dget f ''region'' of
        Some (V (JStr s)) \<Rightarrow>
          (let v = strip s
           in case (if take 1 v \<in> {[], ''['', ''{''} then load_json v else Inr (JStr v)) of
                Inl e \<Rightarrow> Inl e
              | Inr inner \<Rightarrow> Inr (dumps (JObj [(''detect_region'', inner)])))
      | _ \<Rightarrow> Inl Raises)"

definition region_json :: codec where
  "region_json = \<lparr>decode = region_decode, encode = region_encode, defaults = [(''region'', V (JStr []))],
     shown_fields = [composite_field ''region'' ''text'' ''Region'' []]\<rparr>"

text \<open>The two codecs that carry integers under fixed keys.\<close>

definition keys_decode :: "string list \<Rightarrow> string \<Rightarrow> codec_error + fields" where
  "keys_decode keys wire =
     (case load_json wire of
        Inl e \<Rightarrow> Inl e
      | Inr d \<Rightarrow>
          (case map_opt (\<lambda>k. Option.bind (jitem d k) py_int) keys of
             None \<Rightarrow> Inl Raises
           | Some ns \<Rightarrow> Inr (zip keys (map (V \<circ> JInt) ns))))"

definition keys_encode :: "string list \<Rightarrow> fields \<Rightarrow> codec_error + string" where
  "keys_encode keys f =
     (case map_opt (int_field f) keys of
        None \<Rightarrow> Inl Raises
      | Some ns \<Rightarrow> Inr (dumps (JObj (zip keys (map JInt ns)))))"

definition BBOX_KEYS :: "string list" where
  "BBOX_KEYS = [''x_begin'', ''x_end'', ''y_begin'', ''y_end'']"

definition bbox_region_json :: codec where
  "bbox_region_json = \<lparr>decode = keys_decode BBOX_KEYS, encode = keys_encode BBOX_KEYS,
     defaults = [(''x_begin'', V (JInt 0)), (''x_end'', V (JInt 8)), (''y_begin'', V (JInt 0)), (''y_end'', V (JInt 8))],
     shown_fields = map (\<lambda>(k, l). composite_field k ''number'' l (number_range 0 15))
       [(''x_begin'', ''X Begin''), (''x_end'', ''X End''), (''y_begin'', ''Y Begin''), (''y_end'', ''Y End'')]\<rparr>"

definition PRESET_KEYS :: "string list" where
  "PRESET_KEYS = [''mode'', ''x'', ''y'']"

definition ptz_preset_json :: codec where
  "ptz_preset_json = \<lparr>decode = keys_decode PRESET_KEYS, encode = keys_encode PRESET_KEYS,
     defaults = [(''mode'', V (JInt 0)), (''x'', V (JInt 999)), (''y'', V (JInt 999))],
     shown_fields = [composite_field ''mode'' ''number'' ''Mode'' (number_range 0 10),
       composite_field ''x'' ''number'' ''X'' (number_range 0 999), composite_field ''y'' ''number'' ''Y'' (number_range 0 999)]\<rparr>"

section \<open>The controller\<close>

record composite =
  fields_now :: fields
  seeded :: bool
  written :: "string list"
  notified :: nat

definition new_composite :: "codec \<Rightarrow> composite" where
  "new_composite c = \<lparr>fields_now = defaults c, seeded = False, written = [], notified = 0\<rparr>"

definition notify :: "composite \<Rightarrow> composite" where
  "notify s = s\<lparr>notified := notified s + 1\<rparr>"

definition seed :: "codec \<Rightarrow> string \<Rightarrow> composite \<Rightarrow> composite" where
  "seed c wire s = (case decode c wire of Inl e \<Rightarrow> s | Inr f \<Rightarrow> notify (s\<lparr>fields_now := f, seeded := True\<rparr>))"

text \<open>None: the KeyError of a name the codec does not have.\<close>

definition get_field :: "codec \<Rightarrow> string \<Rightarrow> composite \<Rightarrow> fval option" where
  "get_field c name s =
     (case dget (defaults c) name of
        None \<Rightarrow> None
      | Some d \<Rightarrow> Some (case dget (fields_now s) name of None \<Rightarrow> d | Some v \<Rightarrow> v))"

text \<open>\<open>write_ok\<close>: the device accepts the write. True when nothing was raised.\<close>

definition async_set :: "codec \<Rightarrow> bool \<Rightarrow> string \<Rightarrow> fval \<Rightarrow> composite \<Rightarrow> bool \<times> composite" where
  "async_set c write_ok name v s =
     (let new_fields = dset name v (fields_now s)
      in case encode c new_fields of
           Inl e \<Rightarrow> (False, s)
         | Inr wire \<Rightarrow>
             if \<not> write_ok then (False, s)
             else (True, notify (s\<lparr>written := written s @ [wire], fields_now := new_fields\<rparr>)))"

section \<open>What a controller needs of a codec\<close>

locale codec_laws =
  fixes c :: codec and valid :: "fields \<Rightarrow> bool"
  assumes roundtrip: "valid f \<Longrightarrow> \<exists>w. encode c f = Inr w \<and> decode c w = Inr f"
begin

text \<open>A successful change: what went out decodes to the old fields with this one changed.\<close>

lemma set_valid:
  assumes "valid (dset name v (fields_now s))"
  shows "\<exists>wire. async_set c True name v s =
      (True, \<lparr>fields_now = dset name v (fields_now s), seeded = seeded s, written = written s @ [wire], notified = notified s + 1\<rparr>) \<and>
    decode c wire = Inr (dset name v (fields_now s))"
  using roundtrip [OF assms] by (cases s) (auto simp: async_set_def notify_def Let_def)

text \<open>The device sends it back: nothing changes.\<close>

lemma echo_stable:
  assumes "valid (dset name v (fields_now s))" "async_set c True name v s = (True, s')"
  shows "fields_now (seed c (last (written s')) s') = fields_now s'"
  using set_valid [OF assms(1)] assms(2) by (auto simp: seed_def notify_def)

end


section \<open>Integers as text and as bits\<close>

lemma int_of_string_int_text: "int_of_string (int_text i) = Some i"
proof (cases "0 \<le> i")
  case True
  then show ?thesis using int_of_string_nat_text [of "nat i"] by (simp add: int_text_def)
next
  case False
  have d: "list_all ascii_digit (nat_text n)" for n by (rule nat_text_digits)
  have "\<not> py_space c" if "ascii_digit c" for c using that by (auto simp: ascii_digit_def py_space_def)
  moreover have "\<not> py_space (CHR ''-'')" by (simp add: py_space_def char_code_def)
  ultimately have "strip (CHR ''-'' # nat_text n) = CHR ''-'' # nat_text n" for n
    using d [of n] by (cases "nat_text n" rule: rev_cases) (auto simp: strip_def)
  then show ?thesis using False digits_value_text [of "nat (- i)"] by (simp add: int_of_string_def int_text_def)
qed

lemma or_add: "0 \<le> b \<Longrightarrow> b < 2 ^ n \<Longrightarrow> push_bit n a OR b = a * 2 ^ n + (b :: int)"
proof -
  assume "0 \<le> b" "b < 2 ^ n"
  then have "b = take_bit n b" by (simp add: take_bit_int_eq_self)
  then have "push_bit n a AND b = 0" by (intro bit_eqI) (auto simp: bit_simps, metis bit_take_bit_iff leD)
  then show ?thesis by (simp add: push_bit_eq_mult flip: disjunctive_add_eq_or)
qed

lemma and_masks: "(x :: int) AND 0x7FF = x mod 2048" "x AND 0xFFFF = x mod 65536" "x AND 1 = x mod 2"
  using take_bit_eq_mask [of 11 x] take_bit_eq_mask [of 16 x] by (simp_all add: mask_eq_exp_minus_1 take_bit_eq_mod and_one_eq)

lemma word_parts: "0 \<le> r \<Longrightarrow> r < m \<Longrightarrow> (a * m + r) div m = a" "0 \<le> r \<Longrightarrow> r < m \<Longrightarrow> (a * m + r) mod m = (r :: int)"
  by (simp_all add: div_plus_div_distrib_dvd_left)

section \<open>The codecs obey the laws\<close>

definition packed_valid :: "fields \<Rightarrow> bool" where
  "packed_valid f = (\<exists>sh sm eh em b. sh < 24 \<and> sm < 60 \<and> eh < 24 \<and> em < 60 \<and>
     f = [(''start'', Time sh sm), (''end'', Time eh em), (''enabled'', V (JBool b))])"

lemma mins_inverse: "h < 24 \<Longrightarrow> m < 60 \<Longrightarrow> mins_to_time (time_to_mins h m) = Time h m"
  by (simp add: mins_to_time_def time_to_mins_def nat_div_distrib nat_mod_distrib flip: of_nat_Suc)

lemma packed_word:
  assumes "eh < 24" "em < 60" "x = 0 \<or> x = 1"
  shows "(push_bit 12 (time_to_mins sh sm) OR push_bit 1 (time_to_mins eh em)) OR x =
    time_to_mins sh sm * 4096 + time_to_mins eh em * 2 + x"
proof -
  let ?s = "time_to_mins sh sm" and ?e = "time_to_mins eh em"
  have e: "0 \<le> ?e" "?e < 2048" using assms by (simp_all add: time_to_mins_def)
  have p: "push_bit 1 ?e = ?e * 2" by (simp add: push_bit_eq_mult)
  have "push_bit 12 ?s OR push_bit 1 ?e = ?s * 4096 + ?e * 2" unfolding p using or_add [of "?e * 2" 12 ?s] e by simp
  also have "\<dots> = push_bit 1 (?s * 2048 + ?e)" by (simp add: push_bit_eq_mult)
  finally show ?thesis using or_add [of x 1 "?s * 2048 + ?e"] assms(3) by auto
qed

lemma packed_roundtrip:
  assumes "packed_valid f"
  shows "\<exists>w. encode packed_period f = Inr w \<and> decode packed_period w = Inr f"
proof -
  obtain sh sm eh em b where t: "sh < 24" "sm < 60" "eh < 24" "em < 60"
      and f: "f = [(''start'', Time sh sm), (''end'', Time eh em), (''enabled'', V (JBool b))]"
    using assms by (auto simp: packed_valid_def)
  define x :: int where "x = (if b then 0 else 1)"
  define w where "w = time_to_mins sh sm * 4096 + time_to_mins eh em * 2 + x"
  have x: "x = 0 \<or> x = 1" by (simp add: x_def)
  have e: "0 \<le> time_to_mins eh em" "time_to_mins eh em < 2048" using t by (simp_all add: time_to_mins_def)
  have w: "w = time_to_mins sh sm * 4096 + (time_to_mins eh em * 2 + x)" "w = (time_to_mins sh sm * 2048 + time_to_mins eh em) * 2 + x"
    by (simp_all add: w_def)
  have "w div 4096 = time_to_mins sh sm" using e x by (subst w(1), intro word_parts) auto
  moreover have "w div 2 = time_to_mins sh sm * 2048 + time_to_mins eh em" using x by (subst w(2), intro word_parts) auto
  moreover have "w mod 2 = x" using x by (subst w(2), intro word_parts) auto
  moreover have "(time_to_mins sh sm * 2048 + time_to_mins eh em) mod 2048 = time_to_mins eh em" using e by (intro word_parts)
  ultimately have d: "drop_bit 12 w = time_to_mins sh sm" "drop_bit 1 w AND 0x7FF = time_to_mins eh em" "w AND 1 = x"
    by (simp_all add: and_masks drop_bit_eq_div)
  have "packed_encode f = Inr (int_text w)"
    using packed_word [OF t(3,4) x] by (simp add: packed_encode_def f time_field_def w_def x_def)
  moreover have "packed_decode (int_text w) = Inr f"
    by (simp add: packed_decode_def int_of_string_int_text d d(2) [unfolded One_nat_def] mins_inverse t f x_def)
  ultimately show ?thesis by (simp add: packed_period_def)
qed

interpretation packed: codec_laws packed_period packed_valid
  by unfold_locales (rule packed_roundtrip)

definition brightness_valid :: "fields \<Rightarrow> bool" where
  "brightness_valid f = (f = brightness_defaults \<or> (\<exists>c b. 0 \<le> c \<and> c < 65536 \<and> 0 \<le> b \<and> b < 65536 \<and> (c, b) \<noteq> (0, 0) \<and>
     f = [(''auto'', V (JBool False)), (''colour'', V (JInt c)), (''bw'', V (JInt b))]))"

lemma brightness_word: "0 \<le> (c :: int) \<Longrightarrow> c < 65536 \<Longrightarrow> 0 \<le> b \<Longrightarrow> b < 65536 \<Longrightarrow>
  push_bit 16 (b AND 0xFFFF) OR (c AND 0xFFFF) = b * 65536 + c"
  using or_add [of c 16 b] by (simp add: and_masks)

lemma zero_text: "int_of_string ''0'' = Some 0"
proof -
  have "char_of (48 :: nat) = CHR ''0''" by code_simp
  then have "int_text 0 = ''0''" by (simp add: int_text_def nat_text.simps digit_char_def)
  then show ?thesis using int_of_string_int_text [of 0] by simp
qed

lemma brightness_roundtrip:
  assumes "brightness_valid f"
  shows "\<exists>w. encode brightness f = Inr w \<and> decode brightness w = Inr f"
proof -
  consider "f = brightness_defaults" | c b where "0 \<le> c" "c < 65536" "0 \<le> b" "b < 65536" "(c, b) \<noteq> (0, 0)"
      "f = [(''auto'', V (JBool False)), (''colour'', V (JInt c)), (''bw'', V (JInt b))]"
    using assms by (auto simp: brightness_valid_def)
  then show ?thesis
  proof cases
    case 1
    then show ?thesis by (simp add: brightness_def brightness_encode_def brightness_decode_def brightness_defaults_def zero_text)
  next
    case 2
    have "brightness_encode f = Inr (int_text (b * 65536 + c))"
      using brightness_word [OF 2(1-4)] by (simp add: 2(6) brightness_encode_def int_field_def num_value.simps trunc_rat_def)
    moreover have "b * 65536 + c \<noteq> 0" using 2 by auto
    moreover have "(b * 65536 + c) AND 0xFFFF = c" "drop_bit 16 (b * 65536 + c) AND 0xFFFF = b"
      using 2(1-4) word_parts [of c 65536 b] by (simp_all add: and_masks drop_bit_eq_div)
    ultimately show ?thesis by (simp add: brightness_def brightness_decode_def int_of_string_int_text 2(6))
  qed
qed

interpretation bright: codec_laws brightness brightness_valid
  by unfold_locales (rule brightness_roundtrip)

text \<open>What is relied on of \<open>time.fromisoformat\<close>: it reads HH:MM.\<close>

definition reads_hh_mm :: "(string \<Rightarrow> (nat \<times> nat) option) \<Rightarrow> bool" where
  "reads_hh_mm fromiso = (\<forall>h < 24. \<forall>m < 60. fromiso (hh_mm h m) = Some (h, m))"

definition schedule_valid :: "fields \<Rightarrow> bool" where
  "schedule_valid f = (\<exists>sh sm eh em r. sh < 24 \<and> sm < 60 \<and> eh < 24 \<and> em < 60 \<and> length r = 7 \<and> list_all bit_char r \<and>
     f = [(''start'', Time sh sm), (''end'', Time eh em), (''repeat'', V (JStr r))])"

lemma map_opt_map: "(\<And>x. x \<in> set xs \<Longrightarrow> f (g x) = Some (h x)) \<Longrightarrow> map_opt f (map g xs) = Some (map h xs)"
  by (induction xs) simp_all

lemma map_opt_same: "(\<And>x. x \<in> set xs \<Longrightarrow> f x = Some (h x)) \<Longrightarrow> map_opt f xs = Some (map h xs)"
  by (induction xs) simp_all

definition bit_value :: "char \<Rightarrow> int" where
  "bit_value c = (if c = CHR ''1'' then 1 else 0)"

lemma bit_texts: "int_text 0 = ''0''" "int_text 1 = ''1''"
proof -
  have "char_of (48 :: nat) = CHR ''0''" "char_of (49 :: nat) = CHR ''1''" by code_simp+
  then show "int_text 0 = ''0''" "int_text 1 = ''1''" by (simp_all add: int_text_def nat_text.simps digit_char_def)
qed

lemma bit_char_text: "bit_char c \<Longrightarrow> int_of_string [c] = Some (bit_value c)" "bit_char c \<Longrightarrow> int_text (bit_value c) = [c]"
  using int_of_string_int_text [of 0] int_of_string_int_text [of 1] by (auto simp: bit_char_def bit_value_def bit_texts)

lemma trunc_rat_of_int [simp]: "trunc_rat (of_int i) = i"
  by (simp add: trunc_rat_def)

lemma schedule_roundtrip:
  assumes "reads_hh_mm fromiso" "schedule_valid f"
  shows "\<exists>w. encode (schedule_json fromiso) f = Inr w \<and> decode (schedule_json fromiso) w = Inr f"
proof -
  obtain sh sm eh em r where t: "sh < 24" "sm < 60" "eh < 24" "em < 60" "length r = 7" "list_all bit_char r"
      and f: "f = [(''start'', Time sh sm), (''end'', Time eh em), (''repeat'', V (JStr r))]"
    using assms(2) by (auto simp: schedule_valid_def)
  let ?v = "JObj [(''starttime'', JStr (hh_mm sh sm)), (''endtime'', JStr (hh_mm eh em)), (''repeat'', JList (map (JInt \<circ> bit_value) r))]"
  have "wf_json ?v" by (auto simp: dict_ok_def)
  then have l: "load_json (dumps ?v) = Inr ?v" by (simp add: load_json_def loads_dumps)
  have m: "map_opt (\<lambda>c. int_of_string [c]) r = Some (map bit_value r)"
    using t(6) by (intro map_opt_same) (auto simp: list_all_iff bit_char_text)
  have b: "map_opt (map_option int_text \<circ> py_int) (map (JInt \<circ> bit_value) r) = Some (map (\<lambda>c. [c]) r)"
    using t(6) by (intro map_opt_map) (auto simp: list_all_iff bit_char_text)
  have re: "REPEAT_RE r" using t(5,6) by (simp add: REPEAT_RE_def)
  have "encode (schedule_json fromiso) f = Inr (dumps ?v)"
    by (simp add: schedule_json_def schedule_encode_def f re m time_field_def)
  moreover have "concat (map (\<lambda>c. [c]) r) = r" by (induction r) simp_all
  then have "decode (schedule_json fromiso) (dumps ?v) = Inr f"
    using assms(1) t b by (simp add: schedule_json_def schedule_decode_def l jitem_def iter_json_def re f reads_hh_mm_def)
  ultimately show ?thesis by blast
qed

text \<open>Reading HH:MM.\<close>

definition read_hh_mm :: "string \<Rightarrow> (nat \<times> nat) option" where
  "read_hh_mm s =
     (case s of [a, b, c, d, e] \<Rightarrow>
        if c = CHR '':'' \<and> list_all ascii_digit [a, b, d, e] then Some (text_nat [a, b], text_nat [d, e]) else None
      | _ \<Rightarrow> None)"

lemma read_two: "n < 100 \<Longrightarrow> two_digits n = [a, b] \<Longrightarrow> ascii_digit a \<and> ascii_digit b \<and> text_nat [a, b] = n"
  by (auto simp: two_digits_def text_nat_def ascii_digit_char)

lemma read_hh_mm_ok: "reads_hh_mm read_hh_mm"
  unfolding reads_hh_mm_def
proof (intro allI impI)
  fix h m :: nat assume "h < 24" "m < 60"
  then show "read_hh_mm (hh_mm h m) = Some (h, m)"
    using read_two [of h "digit_char (h div 10)" "digit_char (h mod 10)"] read_two [of m "digit_char (m div 10)" "digit_char (m mod 10)"]
    by (simp add: read_hh_mm_def hh_mm_def two_digits_def)
qed

interpretation schedule: codec_laws "schedule_json read_hh_mm" schedule_valid
  by unfold_locales (rule schedule_roundtrip [OF read_hh_mm_ok])

text \<open>A text that stays a text, or the rendering of an array.\<close>

definition region_valid :: "fields \<Rightarrow> bool" where
  "region_valid f = (\<exists>s. f = [(''region'', V (JStr s))] \<and> strip s = s \<and>
     (s \<noteq> [] \<and> hd s \<noteq> CHR ''['' \<and> hd s \<noteq> CHR ''{'' \<or> (\<exists>xs. wf_json (JList xs) \<and> s = dumps (JList xs))))"

lemma list_text: "take 1 (dumps (JList xs)) = ''[''"
  by (simp add: dumps_def)

lemma region_roundtrip:
  assumes "region_valid f"
  shows "\<exists>w. encode region_json f = Inr w \<and> decode region_json w = Inr f"
proof -
  obtain s where f: "f = [(''region'', V (JStr s))]" "strip s = s"
      and c: "s \<noteq> [] \<and> hd s \<noteq> CHR ''['' \<and> hd s \<noteq> CHR ''{'' \<or> (\<exists>xs. wf_json (JList xs) \<and> s = dumps (JList xs))"
    using assms by (auto simp: region_valid_def)
  have l: "wf_json v \<Longrightarrow> load_json (dumps (JObj [(''detect_region'', v)])) = Inr (JObj [(''detect_region'', v)])" for v
    by (simp add: load_json_def loads_dumps dict_ok_def)
  from c show ?thesis
  proof
    assume h: "s \<noteq> [] \<and> hd s \<noteq> CHR ''['' \<and> hd s \<noteq> CHR ''{''"
    then have "take 1 s \<notin> {[], ''['', ''{''}" by (cases s) auto
    then have "region_encode f = Inr (dumps (JObj [(''detect_region'', JStr s)]))" using f by (simp add: region_encode_def)
    then show ?thesis using l [of "JStr s"] f by (simp add: region_json_def region_decode_def jitem_def)
  next
    assume "\<exists>xs. wf_json (JList xs) \<and> s = dumps (JList xs)"
    then obtain xs where x: "wf_json (JList xs)" "s = dumps (JList xs)" by blast
    have "load_json s = Inr (JList xs)" using x by (simp add: load_json_def loads_dumps)
    then have "region_encode f = Inr (dumps (JObj [(''detect_region'', JList xs)]))"
      using f list_text [of xs] by (simp add: region_encode_def x(2))
    then show ?thesis using l [OF x(1)] f x(2) by (simp add: region_json_def region_decode_def jitem_def)
  qed
qed

interpretation region: codec_laws region_json region_valid
  by unfold_locales (rule region_roundtrip)

definition keys_valid :: "string list \<Rightarrow> fields \<Rightarrow> bool" where
  "keys_valid keys f = (\<exists>ns. length ns = length keys \<and> f = zip keys (map (V \<circ> JInt) ns))"

lemma keys_roundtrip:
  assumes "distinct keys" "keys_valid keys f"
  shows "\<exists>w. keys_encode keys f = Inr w \<and> keys_decode keys w = Inr f"
proof -
  obtain ns where i: "length ns = length keys" "f = zip keys (map (V \<circ> JInt) ns)" using assms(2) by (auto simp: keys_valid_def)
  let ?d = "zip keys (map JInt ns)"
  have g: "map_of (zip keys (map h ns)) (keys ! k) = Some (h (ns ! k))" if "k < length keys" for h :: "int \<Rightarrow> 'a" and k
    using assms(1) i(1) that by (simp add: map_of_zip_nth)
  have n: "map_opt p keys = Some ns" if "\<And>k. k < length keys \<Longrightarrow> p (keys ! k) = Some (ns ! k)" for p :: "string \<Rightarrow> int option"
    using that i(1)
  proof (induction keys arbitrary: ns)
    case (Cons x keys)
    then obtain y ys where "ns = y # ys" by (cases ns) auto
    then show ?case using Cons.prems(1) [of 0] Cons.prems(1) [of "Suc _"] Cons.prems(2) Cons.IH [of ys] by simp
  qed simp
  have "map_opt (int_field f) keys = Some ns" by (rule n) (simp add: int_field_def i(2) g)
  then have "keys_encode keys f = Inr (dumps (JObj ?d))" by (simp add: keys_encode_def)
  moreover have "wf_json (JObj ?d)" using assms(1) i(1) by (auto simp: dict_ok_def dest!: set_zip_rightD)
  then have "load_json (dumps (JObj ?d)) = Inr (JObj ?d)" by (simp add: load_json_def loads_dumps)
  moreover have "map_opt (\<lambda>k. Option.bind (jitem (JObj ?d) k) py_int) keys = Some ns" by (rule n) (simp add: jitem_def g)
  ultimately show ?thesis by (simp add: keys_decode_def i(2))
qed

interpretation bbox: codec_laws bbox_region_json "keys_valid BBOX_KEYS"
  by unfold_locales (simp add: bbox_region_json_def keys_roundtrip BBOX_KEYS_def)

interpretation preset: codec_laws ptz_preset_json "keys_valid PRESET_KEYS"
  by unfold_locales (simp add: ptz_preset_json_def keys_roundtrip PRESET_KEYS_def)


section \<open>Properties\<close>



text \<open>
  Any integer decodes to a window of valid times, and for a word whose halves are below a day's minutes
  encoding restores the word.
\<close>

theorem packed_window_bounds:
  "\<exists>sh sm eh em b. packed_decode (int_text w) = Inr [(''start'', Time sh sm), (''end'', Time eh em), (''enabled'', V (JBool b))] \<and>
     sh < 24 \<and> sm < 60 \<and> eh < 24 \<and> em < 60 \<and>
     (0 \<le> drop_bit 12 w \<and> drop_bit 12 w < 1440 \<and> drop_bit 1 w AND 0x7FF < 1440 \<longrightarrow>
        packed_encode [(''start'', Time sh sm), (''end'', Time eh em), (''enabled'', V (JBool b))] = Inr (int_text w))"
proof -
  have t: "\<exists>h m. mins_to_time x = Time h m \<and> h < 24 \<and> m < 60 \<and> (0 \<le> x \<and> x < 1440 \<longrightarrow> time_to_mins h m = x)" for x
    by (auto simp: mins_to_time_def time_to_mins_def nat_less_iff)
  obtain sh sm where s: "mins_to_time (drop_bit 12 w) = Time sh sm" "sh < 24" "sm < 60"
      "0 \<le> drop_bit 12 w \<and> drop_bit 12 w < 1440 \<longrightarrow> time_to_mins sh sm = drop_bit 12 w" using t by blast
  obtain eh em where e: "mins_to_time (drop_bit 1 w AND 0x7FF) = Time eh em" "eh < 24" "em < 60"
      "0 \<le> drop_bit 1 w AND 0x7FF \<and> drop_bit 1 w AND 0x7FF < 1440 \<longrightarrow> time_to_mins eh em = drop_bit 1 w AND 0x7FF" using t by blast
  have d: "packed_decode (int_text w) = Inr [(''start'', Time sh sm), (''end'', Time eh em), (''enabled'', V (JBool (w AND 1 = 0)))]"
    using s e by (simp add: packed_decode_def int_of_string_int_text)
  have "packed_encode [(''start'', Time sh sm), (''end'', Time eh em), (''enabled'', V (JBool (w AND 1 = 0)))] = Inr (int_text w)"
    if h: "0 \<le> drop_bit 12 w \<and> drop_bit 12 w < 1440 \<and> drop_bit 1 w AND 0x7FF < 1440"
  proof -
    have n: "0 \<le> drop_bit 1 w AND (0x7FF :: int)" by (simp add: and_masks)
    have x: "(if w mod 2 = 0 then 0 else 1) = w mod 2" by presburger
    have "w = (w div 2 div 2048 * 2048 + w div 2 mod 2048) * 2 + w mod 2" by (simp only: div_mult_mod_eq)
    moreover have "w div 4096 = w div 2 div 2048" using zdiv_zmult2_eq [of 2048 w 2] by simp
    ultimately have "w = (w div 4096 * 2048 + w div 2 mod 2048) * 2 + w mod 2" by metis
    moreover have "(a * 2048 + b) * 2 + c = a * 4096 + b * 2 + c" for a b c :: int by simp
    ultimately have "w = w div 4096 * 4096 + (w div 2 mod 2048) * 2 + w mod 2" by metis
    then have "w = drop_bit 12 w * 4096 + (drop_bit 1 w AND 0x7FF) * 2 + (if w AND 1 = 0 then 0 else 1)"
      unfolding and_masks x by (simp add: drop_bit_eq_div)
    moreover have "time_to_mins sh sm = drop_bit 12 w" "time_to_mins eh em = drop_bit 1 w AND 0x7FF" using h n s(4) e(4) by auto
    ultimately show ?thesis
      using packed_word [OF e(2,3), of "if w AND 1 = 0 then 0 else 1" sh sm] by (simp add: packed_encode_def time_field_def)
  qed
  then show ?thesis using d s e by blast
qed

theorem packed_window_bounds_witness:
  "packed_encode [(''start'', Time 1 0), (''end'', Time 2 0), (''enabled'', V (JBool True))] = Inr (int_text 246000)"
proof -
  have d: "drop_bit 12 (246000 :: int) = 60" "drop_bit 1 (246000 :: int) AND 0x7FF = 120" "(246000 :: int) AND 1 = 0"
    by (simp_all add: drop_bit_eq_div and_masks)
  show ?thesis using packed_window_bounds [of 246000] d
    by (auto simp: packed_decode_def int_of_string_int_text mins_to_time_def)
qed



text \<open>
  Zero is the wire value of Auto, and also of both brightnesses at 0 percent, which the entities allow: a
  device set to 0 and 0 with Auto off is told to use Auto.
\<close>

theorem zero_brightness_turns_auto:
  "\<exists>f. brightness_encode [(''auto'', V (JBool False)), (''colour'', V (JInt 0)), (''bw'', V (JInt 0))] = Inr ''0'' \<and>
     brightness_decode ''0'' = Inr f \<and> dget f ''auto'' = Some (V (JBool True))"
  by (simp add: brightness_encode_def brightness_decode_def int_field_def bit_texts zero_text brightness_defaults_def trunc_rat_def)

text \<open>
  The region codec cannot write its own default: the empty text is taken for JSON and raises.
\<close>

theorem empty_region_rejected:
  "region_encode (defaults region_json) = Inl Raises \<and> (list_all py_space s \<longrightarrow> region_encode [(''region'', V (JStr s))] = Inl Raises)"
proof -
  have l: "load_json [] = Inl Raises" by (simp add: load_json_def loads_def skip_ws_def numeral_2_eq_2 scan_keyword_def scan_number_def scan_int_part_def)
  have "strip s = []" if "list_all py_space s" for s
  proof -
    have d: "dropWhile py_space s = []" using that by (simp add: list_all_iff)
    show ?thesis unfolding strip_def d by simp
  qed
  then show ?thesis using l by (auto simp: region_encode_def region_json_def)
qed

theorem empty_region_rejected_witness: "region_encode [(''region'', V (JStr ''  ''))] = Inl Raises"
  using empty_region_rejected [of "''  ''"] by (simp add: py_space_def char_code_def)

end
