(* ===== verification/Cloud.thy ===== *)
theory Cloud
  imports Protocol
begin

text \<open>
  \<open>hub/cloud_client.py\<close>: the signed requests to the vendor's cloud, the probing of the app's
  credentials, the error codes, and what each call takes from the answer. MD5, the RSA encryption of
  the password and the random and clock values of the headers are parameters (\<open>env\<close>); so is the cloud,
  as a function from all requests sent so far to its reply. The client records what it sent.
\<close>

section \<open>Regions and credentials\<close>

record area_config =
  server :: string
  area_appid :: string
  area_appkey :: string

abbreviation "APPID_A \<equiv> ''94549908487478b220992a70''"
abbreviation "APPID_B \<equiv> ''7be1984f0556276133336839''"
abbreviation "KEY_A \<equiv> ''Jddz01kIORDYrBzqGYgpUXKBnIHfW8E3''"
abbreviation "KEY_B \<equiv> ''euGhPe2rcmxwculATNj45eEtnd50zp0I''"

definition area :: "string \<Rightarrow> string \<Rightarrow> string \<Rightarrow> area_config" where
  "area s i k = \<lparr>server = s, area_appid = i, area_appkey = k\<rparr>"

definition AREAS :: "(string, area_config) dict" where
  "AREAS =
     [(''CN'', area ''https://aiot-rpc.aqara.cn'' APPID_A KEY_A),
      (''EU'', area ''https://rpc-ger.aqara.com'' APPID_B KEY_A),
      (''RU'', area ''https://rpc-ru.aqara.com'' APPID_A KEY_B),
      (''KR'', area ''https://rpc-kr.aqara.com'' APPID_A KEY_B),
      (''JP'', area ''https://rpc-kr.aqara.com'' APPID_A KEY_B),
      (''AF'', area ''https://rpc-ger.aqara.com'' APPID_B KEY_A),
      (''US'', area ''https://aiot-rpc-usa.aqara.com'' APPID_B KEY_A),
      (''HMT'', area ''https://aiot-rpc-usa.aqara.com'' APPID_B KEY_A),
      (''OTHER'', area ''https://aiot-rpc-usa.aqara.com'' APPID_B KEY_A),
      (''AU'', area ''https://rpc-au.aqara.com'' APPID_B KEY_A),
      (''ME'', area ''https://rpc-au.aqara.com'' APPID_B KEY_A)]"

definition SIGNING_COMBOS :: "(string \<times> string) list" where
  "SIGNING_COMBOS = [(APPID_B, KEY_A), (APPID_A, KEY_B), (APPID_A, KEY_A)]"

definition LOGIN_PATH :: string where "LOGIN_PATH = ''/app/v1.0/lumi/user/login''"
definition DEVICE_LIST_PATH :: string where "DEVICE_LIST_PATH = ''/app/v1.0/lumi/app/position/device/query''"
definition TRAIT_READ_PATH :: string where "TRAIT_READ_PATH = ''/app/v1.0/lumi/app/qlink/trait/read''"
definition RES_QUERY_BY_RID_PATH :: string where "RES_QUERY_BY_RID_PATH = ''/app/v1.0/lumi/res/query/by/resourceId''"
definition DEV_QUERY_DETAIL_PATH :: string where "DEV_QUERY_DETAIL_PATH = ''/app/v1.0/lumi/app/dev/query/detail''"
definition CUSTOM_ACTION_QUERY_PATH :: string where "CUSTOM_ACTION_QUERY_PATH = ''/app/v1.0/lumi/app/customaction/query''"
definition SEQUENCE_RUN_PATH :: string where "SEQUENCE_RUN_PATH = ''/app/v1.0/lumi/app/sequence/run''"
definition COLLECTION_PANELS_PATH :: string where "COLLECTION_PANELS_PATH = ''/app/v1.0/lumi/app/layout/collection/panels''"
definition CAMERA_P2P_INFO_PATH :: string where "CAMERA_P2P_INFO_PATH = ''/app/v1.0/lumi/devex/camera/p2p/info''"
definition CAMERA_P2P_SIGN_PATH :: string where "CAMERA_P2P_SIGN_PATH = ''/app/v1.0/lumi/devex/camera/p2p/sign''"
definition CAMERA_PTZ_POSITION_LIST_PATH :: string where
  "CAMERA_PTZ_POSITION_LIST_PATH = ''/app/v1.0/lumi/devex/camera/ptz/position/list''"

definition AUTH_FAILURE_CODES :: "int list" where "AUTH_FAILURE_CODES = [108, 109, 802, 804]"

lemmas path_defs = LOGIN_PATH_def DEVICE_LIST_PATH_def TRAIT_READ_PATH_def RES_QUERY_BY_RID_PATH_def
  DEV_QUERY_DETAIL_PATH_def CUSTOM_ACTION_QUERY_PATH_def SEQUENCE_RUN_PATH_def COLLECTION_PANELS_PATH_def
  CAMERA_P2P_INFO_PATH_def CAMERA_P2P_SIGN_PATH_def CAMERA_PTZ_POSITION_LIST_PATH_def

section \<open>State\<close>

text \<open>
  The errors: \<open>AqaraAuthError\<close>, its subclass \<open>AqaraCloudAuthError\<close>, and what escapes of Python's own
  (the method call on a value of another type, a bad argument, an unhashable key, the integer of an
  infinity). \<open>Beyond_Text\<close> is a reply outside the modelled characters.
\<close>

datatype cloud_error =
    Auth_Error
  | Cloud_Auth_Error
  | Value_Error
  | Attribute_Error
  | Type_Error
  | Overflow_Error
  | Beyond_Text

record http_request =
  rq_method :: string
  rq_url :: string
  rq_headers :: "(string, string) dict"
  rq_body :: "string option"

datatype http_reply = Client_Error | Reply_Text string

record env =
  md5 :: "bytes \<Rightarrow> string"
  rsa :: "string \<Rightarrow> string"
  nonce :: "nat \<Rightarrow> string"
  time_ms :: "nat \<Rightarrow> string"
  cloud :: "http_request list \<Rightarrow> http_reply"

record client =
  region :: string
  base_url :: string
  appid :: string
  appkey :: string
  signing_probed :: bool
  phone_id :: string
  requests :: "http_request list"

definition new_client :: "string \<Rightarrow> string \<Rightarrow> cloud_error + client" where
  "new_client reg phone =
     (case dget AREAS reg of
        None \<Rightarrow> Inl Value_Error
      | Some a \<Rightarrow> Inr \<lparr>region = reg, base_url = server a, appid = area_appid a, appkey = area_appkey a,
          signing_probed = False, phone_id = phone, requests = []\<rparr>)"

section \<open>Signing\<close>

definition CLIENT_HEADERS :: "(string, string) dict" where
  "CLIENT_HEADERS = [(''User-Agent'', ''okhttp/4.12.0''), (''App-Version'', ''6.1.6''), (''Sys-Type'', ''1''),
     (''Lang'', ''en''), (''Phone-Model'', ''Home Assistant##Server'')]"

definition has_token :: "string option \<Rightarrow> bool" where
  "has_token tok = (case tok of None \<Rightarrow> False | Some t \<Rightarrow> t \<noteq> [])"

definition sign_source :: "string \<Rightarrow> string \<Rightarrow> string \<Rightarrow> string \<Rightarrow> string \<Rightarrow> string option \<Rightarrow> string" where
  "sign_source app key non ts body tok =
     ''Appid='' @ app @ ''&Nonce='' @ non @ ''&Time='' @ ts @
     (case tok of Some t \<Rightarrow> (if t \<noteq> [] then ''&Token='' @ t else []) | None \<Rightarrow> []) @ ''&'' @ body @ ''&'' @ key"

definition sign :: "env \<Rightarrow> client \<Rightarrow> string \<Rightarrow> string \<Rightarrow> string \<Rightarrow> string option \<Rightarrow> string" where
  "sign E c non ts body tok = md5 E (utf8_encode (sign_source (appid c) (appkey c) non ts body tok))"

definition build_headers :: "env \<Rightarrow> client \<Rightarrow> string \<Rightarrow> string option \<Rightarrow> (string, string) dict" where
  "build_headers E c body tok =
     (let non = nonce E (length (requests c)); ts = time_ms E (length (requests c))
      in CLIENT_HEADERS @
         [(''PhoneId'', phone_id c), (''Area'', region c), (''Appid'', appid c), (''Nonce'', non), (''Time'', ts),
          (''Content-Type'', ''application/json''), (''Sign'', sign E c non ts body tok)] @
         (case tok of Some t \<Rightarrow> (if t \<noteq> [] then [(''Token'', t)] else []) | None \<Rightarrow> []))"

text \<open>\<open>_request\<close>: the answer must be JSON; anything that is JSON is handed on.\<close>

definition request :: "env \<Rightarrow> http_request \<Rightarrow> client \<Rightarrow> (cloud_error + json) \<times> client" where
  "request E r c =
     (let c = c\<lparr>requests := requests c @ [r]\<rparr>
      in case cloud E (requests c) of
           Client_Error \<Rightarrow> (Inl Auth_Error, c)
         | Reply_Text t \<Rightarrow>
             (case loads t of
                Inr v \<Rightarrow> (Inr v, c)
              | Inl Malformed \<Rightarrow> (Inl Auth_Error, c)
              | Inl Beyond \<Rightarrow> (Inl Beyond_Text, c)))"

text \<open>What a call sends, and one signed attempt with the credentials of the moment.\<close>

record call_spec =
  cs_method :: string
  cs_url :: string
  cs_source :: string
  cs_token :: "string option"
  cs_body :: "string option"

definition attempt :: "env \<Rightarrow> call_spec \<Rightarrow> client \<Rightarrow> (cloud_error + json) \<times> client" where
  "attempt E k c =
     request E \<lparr>rq_method = cs_method k, rq_url = cs_url k,
       rq_headers = build_headers E c (cs_source k) (cs_token k), rq_body = cs_body k\<rparr> c"

text \<open>\<open>str(v) == str(n)\<close> for a code: only the integer itself and its digits as a string print like it.\<close>

fun prints_as :: "json \<Rightarrow> int \<Rightarrow> bool" where
  "prints_as (JInt i) n = (i = n)"
| "prints_as (JStr s) n = (s = int_text n)"
| "prints_as v n = False"

text \<open>
  \<open>payload.get(\"code\")\<close>: the reply may be any JSON value, and only an object has \<open>get\<close>.
\<close>

definition rejected_sign :: "json \<Rightarrow> cloud_error + bool" where
  "rejected_sign v = (case v of JObj d \<Rightarrow> Inr (prints_as (jget d ''code'' JNull) 106) | _ \<Rightarrow> Inl Attribute_Error)"

fun probe_combos :: "env \<Rightarrow> call_spec \<Rightarrow> string \<times> string \<Rightarrow> (string \<times> string) list \<Rightarrow> client \<Rightarrow> (cloud_error + json option) \<times> client" where
  "probe_combos E k seed [] c = (Inr None, c)"
| "probe_combos E k seed (p # ps) c =
     (if p = seed then probe_combos E k seed ps c
      else (case attempt E k (c\<lparr>appid := fst p, appkey := snd p\<rparr>) of
              (Inl e, c) \<Rightarrow> (Inl e, c)
            | (Inr v, c) \<Rightarrow>
                (case rejected_sign v of
                   Inl e \<Rightarrow> (Inl e, c)
                 | Inr True \<Rightarrow> probe_combos E k seed ps c
                 | Inr False \<Rightarrow> (Inr (Some v), c))))"

definition restore :: "string \<times> string \<Rightarrow> client \<Rightarrow> client" where
  "restore seed c = c\<lparr>appid := fst seed, appkey := snd seed\<rparr>"

definition rejected_suffix :: "string \<Rightarrow> string" where
  "rejected_suffix reg = ''all known app credentials were rejected for region '' @ reg @
     ''; the app may use an undocumented appid''"

definition clarify :: "string \<Rightarrow> obj \<Rightarrow> cloud_error + json" where
  "clarify reg d =
     (case py_or (jget d ''message'' JNull) (JStr []) of
        JStr s \<Rightarrow>
          (let original = strip s; suffix = rejected_suffix reg
           in Inr (JObj (dset ''message''
                (JStr (if original \<noteq> [] then strip (original @ '' ('' @ suffix @ '')'') else suffix)) d)))
      | _ \<Rightarrow> Inl Attribute_Error)"

definition signed_request :: "env \<Rightarrow> call_spec \<Rightarrow> client \<Rightarrow> (cloud_error + json) \<times> client" where
  "signed_request E k c =
     (case attempt E k c of
        (Inl e, c) \<Rightarrow> (Inl e, c)
      | (Inr v, c) \<Rightarrow>
          (case rejected_sign v of
             Inl e \<Rightarrow> (Inl e, c)
           | Inr bad \<Rightarrow>
               if \<not> bad \<or> signing_probed c then (Inr v, c)
               else
                 (let seed = (appid c, appkey c)
                  in case probe_combos E k seed SIGNING_COMBOS (c\<lparr>signing_probed := True\<rparr>) of
                       (Inl e, c) \<Rightarrow> (Inl e, restore seed c)
                     | (Inr (Some retry), c) \<Rightarrow> (Inr retry, c)
                     | (Inr None, c) \<Rightarrow>
                         (case v of JObj d \<Rightarrow> (clarify (region c) d, restore seed c)
                                  | _ \<Rightarrow> (Inl Attribute_Error, restore seed c)))))"

section \<open>Error codes\<close>

definition raise_if_error :: "obj \<Rightarrow> cloud_error + unit" where
  "raise_if_error d =
     (let code = jget d ''code'' JNull
      in if prints_as code 0 then Inr ()
         else if code \<in> {JFloat ''Infinity'', JFloat ''-Infinity''} then Inl Overflow_Error
         else (case py_int code of
                 Some i \<Rightarrow> (if i \<in> set AUTH_FAILURE_CODES then Inl Cloud_Auth_Error else Inl Auth_Error)
               | None \<Rightarrow> Inl Auth_Error))"

text \<open>The frame of every call: the request, the code, then the answer's \<open>result\<close> as \<open>f\<close> reads it.\<close>

definition call :: "env \<Rightarrow> call_spec \<Rightarrow> (json \<Rightarrow> cloud_error + 'a) \<Rightarrow> client \<Rightarrow> (cloud_error + 'a) \<times> client" where
  "call E k f c =
     (case signed_request E k c of
        (Inl e, c) \<Rightarrow> (Inl e, c)
      | (Inr (JObj d), c) \<Rightarrow>
          (case raise_if_error d of Inl e \<Rightarrow> (Inl e, c) | Inr _ \<Rightarrow> (f (jget d ''result'' JNull), c))
      | (Inr _, c) \<Rightarrow> (Inl Attribute_Error, c))"

definition get_spec :: "client \<Rightarrow> string \<Rightarrow> string \<Rightarrow> string \<Rightarrow> call_spec" where
  "get_spec c path query tok =
     \<lparr>cs_method = ''GET'', cs_url = base_url c @ path @ ''?'' @ query, cs_source = query, cs_token = Some tok, cs_body = None\<rparr>"

definition post_spec :: "client \<Rightarrow> string \<Rightarrow> json \<Rightarrow> string option \<Rightarrow> call_spec" where
  "post_spec c path body tok =
     \<lparr>cs_method = ''POST'', cs_url = base_url c @ path, cs_source = dumps body, cs_token = tok, cs_body = Some (dumps body)\<rparr>"

section \<open>Login and devices\<close>

record tokens =
  user_id :: json
  token :: json
  raw_result :: obj

text \<open>\<open>result or {}\<close> must have \<open>get\<close>.\<close>

definition result_obj :: "json \<Rightarrow> cloud_error + obj" where
  "result_obj v = (case py_or v (JObj []) of JObj d \<Rightarrow> Inr d | _ \<Rightarrow> Inl Attribute_Error)"

definition b64_char :: "nat \<Rightarrow> char" where
  "b64_char n = ''ABCDEFGHIJKLMNOPQRSTUVWXYZabcdefghijklmnopqrstuvwxyz0123456789+/'' ! n"

fun b64encode :: "nat list \<Rightarrow> string" where
  "b64encode [] = []"
| "b64encode [a] = [b64_char (a div 4), b64_char (a mod 4 * 16), CHR ''='', CHR ''='']"
| "b64encode [a, b] = [b64_char (a div 4), b64_char (a mod 4 * 16 + b div 16), b64_char (b mod 16 * 4), CHR ''='']"
| "b64encode (a # b # c # r) =
     b64_char (a div 4) # b64_char (a mod 4 * 16 + b div 16) # b64_char (b mod 16 * 4 + c div 64) # b64_char (c mod 64) # b64encode r"

text \<open>\<open>rsa\<close> is the PKCS1v15 encryption under the vendor's key, its bytes as characters.\<close>

definition encrypt_password :: "env \<Rightarrow> string \<Rightarrow> string" where
  "encrypt_password E pw = b64encode (map char_code (rsa E (md5 E (utf8_encode pw))))"

definition login :: "env \<Rightarrow> string \<Rightarrow> string \<Rightarrow> client \<Rightarrow> (cloud_error + tokens) \<times> client" where
  "login E email pw c =
     call E (post_spec c LOGIN_PATH
         (JObj [(''account'', JStr email), (''encryptType'', JInt 2), (''password'', JStr (encrypt_password E pw))]) None)
       (\<lambda>result. case result_obj result of
          Inl e \<Rightarrow> Inl e
        | Inr d \<Rightarrow>
            (let u = jget d ''userId'' JNull; t = jget d ''token'' JNull
             in if \<not> truthy u \<or> \<not> truthy t then Inl Auth_Error else Inr \<lparr>user_id = u, token = t, raw_result = d\<rparr>)) c"

definition query_device_list :: "env \<Rightarrow> string \<Rightarrow> client \<Rightarrow> (cloud_error + json list) \<times> client" where
  "query_device_list E tok c =
     call E (get_spec c DEVICE_LIST_PATH ''size=300&startIndex=0'' tok)
       (\<lambda>result. case result_obj result of
          Inl e \<Rightarrow> Inl e
        | Inr d \<Rightarrow> (case jget d ''devices'' JNull of JList ds \<Rightarrow> Inr ds | _ \<Rightarrow> Inl Auth_Error)) c"

definition first_traits :: "json \<Rightarrow> cloud_error + json list" where
  "first_traits result =
     (case result of
        JList (JObj d # xs) \<Rightarrow> (case jget d ''traits'' JNull of JList ts \<Rightarrow> Inr ts | _ \<Rightarrow> Inl Auth_Error)
      | JList (x # xs) \<Rightarrow> Inl Attribute_Error
      | _ \<Rightarrow> Inl Auth_Error)"

definition trait_read_body :: "string \<Rightarrow> string list \<Rightarrow> json" where
  "trait_read_body did paths =
     JObj [(''devices'', JList [JObj [(''deviceId'', JStr did),
         (''traits'', JList (map (\<lambda>p. JObj [(''path'', JStr p), (''needSubscribe'', JBool True)]) paths))]]),
       (''needParam'', JBool True)]"

definition query_device_traits :: "env \<Rightarrow> string \<Rightarrow> string \<Rightarrow> string list \<Rightarrow> client \<Rightarrow> (cloud_error + json list) \<times> client" where
  "query_device_traits E tok did paths c =
     (if paths = [] then (Inl Value_Error, c)
      else call E (post_spec c TRAIT_READ_PATH (trait_read_body did paths) (Some tok)) first_traits c)"

text \<open>\<open>values[rid] = value\<close>: keys that compare equal share a slot, and lists and objects cannot be keys.\<close>

definition same_key :: "json \<Rightarrow> json \<Rightarrow> bool" where
  "same_key a b = (a = b \<and> a \<noteq> JFloat ''NaN'' \<or> num_value a \<noteq> None \<and> num_value a = num_value b)"

fun put_value :: "json \<Rightarrow> json \<Rightarrow> (json \<times> json) list \<Rightarrow> (json \<times> json) list" where
  "put_value k v [] = [(k, v)]"
| "put_value k v ((k', v') # d) = (if same_key k k' then (k', v) # d else (k', v') # put_value k v d)"

fun usable_key :: "json \<Rightarrow> bool" where
  "usable_key (JList xs) = False"
| "usable_key (JObj d) = False"
| "usable_key v = True"

fun rid_values :: "json list \<Rightarrow> (json \<times> json) list \<Rightarrow> cloud_error + (json \<times> json) list" where
  "rid_values [] acc = Inr acc"
| "rid_values (JObj d # xs) acc =
     (let rid = jget d ''resourceId'' JNull; v = jget d ''value'' JNull
      in if rid = JNull \<or> v = JNull then rid_values xs acc
         else if \<not> usable_key rid then Inl Type_Error
         else rid_values xs (put_value rid v acc))"
| "rid_values (_ # xs) acc = rid_values xs acc"

definition query_resources_by_rid :: "env \<Rightarrow> string \<Rightarrow> string \<Rightarrow> string list \<Rightarrow> client \<Rightarrow> (cloud_error + (json \<times> json) list) \<times> client" where
  "query_resources_by_rid E tok did rids c =
     call E (post_spec c RES_QUERY_BY_RID_PATH
         (JObj [(''data'', JList [JObj [(''options'', JList (map JStr rids)), (''subjectId'', JStr did)]])]) (Some tok))
       (\<lambda>result. case result of JList xs \<Rightarrow> rid_values xs [] | _ \<Rightarrow> Inr []) c"

definition first_result :: "json \<Rightarrow> cloud_error + json" where
  "first_result result = (case result of JList (x # xs) \<Rightarrow> Inr x | _ \<Rightarrow> Inl Auth_Error)"

definition query_device_detail :: "env \<Rightarrow> string \<Rightarrow> string \<Rightarrow> client \<Rightarrow> (cloud_error + json) \<times> client" where
  "query_device_detail E tok did c =
     call E (get_spec c DEV_QUERY_DETAIL_PATH (''area='' @ region c @ ''&dids='' @ dumps (JList [JStr did])) tok) first_result c"

definition dict_result :: "json \<Rightarrow> cloud_error + obj" where
  "dict_result result = (case result of JObj d \<Rightarrow> Inr d | _ \<Rightarrow> Inl Auth_Error)"

definition query_custom_actions :: "env \<Rightarrow> string \<Rightarrow> string \<Rightarrow> string \<Rightarrow> string \<Rightarrow> client \<Rightarrow> (cloud_error + obj) \<times> client" where
  "query_custom_actions E tok action mdl did c =
     call E (post_spec c CUSTOM_ACTION_QUERY_PATH
         (JObj [(''actionId'', JStr action), (''deviceModel'', JStr mdl), (''userDeviceId'', JStr did)]) (Some tok)) dict_result c"

definition run_sequence :: "env \<Rightarrow> string \<Rightarrow> string \<Rightarrow> string \<Rightarrow> client \<Rightarrow> (cloud_error + unit) \<times> client" where
  "run_sequence E tok did seq c =
     call E (post_spec c SEQUENCE_RUN_PATH
         (JObj [(''actionId'', JStr []), (''deviceId'', JStr did), (''seqId'', JStr seq)]) (Some tok)) (\<lambda>_. Inr ()) c"

section \<open>Panels\<close>

record endpoint_panel =
  endpoint_id :: int
  endpoint_name :: string
  endpoint_icon_id :: string
  device_name :: string
  device_types :: string
  position_name :: string
  model_type :: int
  obj_properties :: "string list"
  paths :: "string list"

text \<open>
  \<open>str(v)\<close>, for the values whose text does not depend on the printing of floats, lists and objects;
  those count as \<open>Beyond_Text\<close>.
\<close>

fun py_str :: "json \<Rightarrow> cloud_error + string" where
  "py_str (JStr s) = Inr s"
| "py_str (JInt i) = Inr (int_text i)"
| "py_str (JBool b) = Inr (if b then ''True'' else ''False'')"
| "py_str JNull = Inr ''None''"
| "py_str v = Inl Beyond_Text"

fun strs :: "json list \<Rightarrow> cloud_error + string list" where
  "strs [] = Inr []"
| "strs (v # vs) = (case py_str v of Inl e \<Rightarrow> Inl e | Inr s \<Rightarrow> (case strs vs of Inl e \<Rightarrow> Inl e | Inr ss \<Rightarrow> Inr (s # ss)))"

text \<open>\<open>int(v)\<close> with the exception it raises.\<close>

definition int_or_raise :: "json \<Rightarrow> cloud_error + int" where
  "int_or_raise v =
     (case py_int v of
        Some i \<Rightarrow> Inr i
      | None \<Rightarrow> (case v of JStr s \<Rightarrow> Inl Value_Error
                 | JFloat s \<Rightarrow> if s = ''NaN'' then Inl Value_Error else Inl Overflow_Error
                 | _ \<Rightarrow> Inl Type_Error))"

definition text_field :: "obj \<Rightarrow> string \<Rightarrow> cloud_error + string" where
  "text_field d k = py_str (py_or (jget d k JNull) (JStr []))"

definition parse_endpoint_subject :: "obj \<Rightarrow> cloud_error + endpoint_panel option" where
  "parse_endpoint_subject d =
     (case (jget d ''endpointId'' JNull, jget d ''paths'' JNull) of
        (JNull, _) \<Rightarrow> Inr None
      | (ep, JList ps) \<Rightarrow>
          (case int_or_raise ep of Inl e \<Rightarrow> Inl e
           | Inr i \<Rightarrow>
          (case text_field d ''endpointName'' of Inl e \<Rightarrow> Inl e
           | Inr nm \<Rightarrow>
          (case text_field d ''endpointIconId'' of Inl e \<Rightarrow> Inl e
           | Inr icon \<Rightarrow>
          (case text_field d ''deviceName'' of Inl e \<Rightarrow> Inl e
           | Inr dn \<Rightarrow>
          (case text_field d ''deviceTypes'' of Inl e \<Rightarrow> Inl e
           | Inr dt \<Rightarrow>
          (case text_field d ''endpointPositionName'' of Inl e \<Rightarrow> Inl e
           | Inr pn \<Rightarrow>
          (case int_or_raise (py_or (jget d ''modelType'' JNull) (JInt 0)) of Inl e \<Rightarrow> Inl e
           | Inr mt \<Rightarrow>
          (case strs (case jget d ''objProperties'' JNull of JList xs \<Rightarrow> xs | _ \<Rightarrow> []) of Inl e \<Rightarrow> Inl e
           | Inr op \<Rightarrow>
          (case strs ps of Inl e \<Rightarrow> Inl e
           | Inr pp \<Rightarrow> Inr (Some \<lparr>endpoint_id = i, endpoint_name = nm, endpoint_icon_id = icon, device_name = dn,
               device_types = dt, position_name = pn, model_type = mt, obj_properties = op, paths = pp\<rparr>))))))))))
      | _ \<Rightarrow> Inr None)"

fun add_subjects :: "json list \<Rightarrow> (int, endpoint_panel) dict \<Rightarrow> cloud_error + (int, endpoint_panel) dict" where
  "add_subjects [] out = Inr out"
| "add_subjects (JObj d # xs) out =
     (case parse_endpoint_subject d of
        Inl e \<Rightarrow> Inl e
      | Inr None \<Rightarrow> add_subjects xs out
      | Inr (Some p) \<Rightarrow> add_subjects xs (dset (endpoint_id p) p out))"
| "add_subjects (_ # xs) out = Inl Attribute_Error"

text \<open>\<open>panel.get(\"subjects\") or []\<close>: iterating a string or an object yields strings, which have no \<open>get\<close>.\<close>

fun add_panels :: "json list \<Rightarrow> (int, endpoint_panel) dict \<Rightarrow> cloud_error + (int, endpoint_panel) dict" where
  "add_panels [] out = Inr out"
| "add_panels (JObj d # xs) out =
     (case py_or (jget d ''subjects'' JNull) (JList []) of
        JList ss \<Rightarrow> (case add_subjects ss out of Inl e \<Rightarrow> Inl e | Inr out \<Rightarrow> add_panels xs out)
      | JStr s \<Rightarrow> Inl Attribute_Error
      | JObj d' \<Rightarrow> Inl Attribute_Error
      | _ \<Rightarrow> Inl Type_Error)"
| "add_panels (_ # xs) out = Inl Attribute_Error"

definition query_collection_panels :: "env \<Rightarrow> string \<Rightarrow> string \<Rightarrow> client \<Rightarrow> (cloud_error + (int, endpoint_panel) dict) \<times> client" where
  "query_collection_panels E tok did c =
     call E (get_spec c COLLECTION_PANELS_PATH (''subjectIds='' @ did @ ''&types=device_endpoint_panel'') tok)
       (\<lambda>result. case result of JList ps \<Rightarrow> add_panels ps [] | _ \<Rightarrow> Inl Auth_Error) c"

section \<open>Cameras\<close>

definition query_camera_p2p_info :: "env \<Rightarrow> string \<Rightarrow> string \<Rightarrow> client \<Rightarrow> (cloud_error + obj) \<times> client" where
  "query_camera_p2p_info E tok did c = call E (get_spec c CAMERA_P2P_INFO_PATH (''did='' @ did) tok) dict_result c"

definition request_camera_p2p_sign :: "env \<Rightarrow> string \<Rightarrow> string \<Rightarrow> string \<Rightarrow> client \<Rightarrow> (cloud_error + obj) \<times> client" where
  "request_camera_p2p_sign E tok did pub c =
     call E (post_spec c CAMERA_P2P_SIGN_PATH
         (JObj [(''devPwd'', JStr []), (''did'', JStr did), (''p2pAppPublicKey'', JStr pub)]) (Some tok)) dict_result c"

definition query_ptz_positions :: "env \<Rightarrow> string \<Rightarrow> string \<Rightarrow> client \<Rightarrow> (cloud_error + json list) \<times> client" where
  "query_ptz_positions E tok did c =
     call E (get_spec c CAMERA_PTZ_POSITION_LIST_PATH (''did='' @ did) tok)
       (\<lambda>result. case result of JList xs \<Rightarrow> Inr xs | _ \<Rightarrow> Inr []) c"


section \<open>Every request verifies\<close>

text \<open>A history of calls, whatever each returns.\<close>

datatype api_call =
    Login string string
  | Device_List string
  | Device_Traits string string "string list"
  | Resources string string "string list"
  | Device_Detail string string
  | Custom_Actions string string string string
  | Run_Sequence string string string
  | Panels string string
  | P2p_Info string string
  | P2p_Sign string string string
  | Ptz_Positions string string

fun api_step :: "env \<Rightarrow> api_call \<Rightarrow> client \<Rightarrow> client" where
  "api_step E (Login email pw) c = snd (login E email pw c)"
| "api_step E (Device_List tok) c = snd (query_device_list E tok c)"
| "api_step E (Device_Traits tok did ps) c = snd (query_device_traits E tok did ps c)"
| "api_step E (Resources tok did rids) c = snd (query_resources_by_rid E tok did rids c)"
| "api_step E (Device_Detail tok did) c = snd (query_device_detail E tok did c)"
| "api_step E (Custom_Actions tok act mdl did) c = snd (query_custom_actions E tok act mdl did c)"
| "api_step E (Run_Sequence tok did sq) c = snd (run_sequence E tok did sq c)"
| "api_step E (Panels tok did) c = snd (query_collection_panels E tok did c)"
| "api_step E (P2p_Info tok did) c = snd (query_camera_p2p_info E tok did c)"
| "api_step E (P2p_Sign tok did pub) c = snd (request_camera_p2p_sign E tok did pub c)"
| "api_step E (Ptz_Positions tok did) c = snd (query_ptz_positions E tok did c)"

text \<open>
  The cloud's side: from the headers, and the body of a POST or the query of a GET, it computes the
  signature that the secret of the application gives.
\<close>

definition signed_part :: "http_request \<Rightarrow> string" where
  "signed_part r = (case rq_body r of Some b \<Rightarrow> b | None \<Rightarrow> tl (dropWhile (\<lambda>x. x \<noteq> CHR ''?'') (rq_url r)))"

definition verifies :: "env \<Rightarrow> string \<Rightarrow> http_request \<Rightarrow> bool" where
  "verifies E key r =
     (case (dget (rq_headers r) ''Appid'', dget (rq_headers r) ''Nonce'', dget (rq_headers r) ''Time'', dget (rq_headers r) ''Sign'') of
        (Some a, Some n, Some t, Some s) \<Rightarrow>
          s = md5 E (utf8_encode (sign_source a key n t (signed_part r) (dget (rq_headers r) ''Token'')))
      | _ \<Rightarrow> False)"

definition good_request :: "env \<Rightarrow> client \<Rightarrow> http_request \<Rightarrow> bool" where
  "good_request E c r =
     ((\<exists>(app, key) \<in> set SIGNING_COMBOS. dget (rq_headers r) ''Appid'' = Some app \<and> verifies E key r) \<and>
      dget (rq_headers r) ''PhoneId'' = Some (phone_id c) \<and> dget (rq_headers r) ''Area'' = Some (region c) \<and>
      (\<exists>rest. rq_url r = base_url c @ rest))"

definition spec_ok :: "client \<Rightarrow> call_spec \<Rightarrow> bool" where
  "spec_ok c k = ((\<exists>rest. cs_url k = base_url c @ rest) \<and>
     cs_source k = (case cs_body k of Some b \<Rightarrow> b | None \<Rightarrow> tl (dropWhile (\<lambda>x. x \<noteq> CHR ''?'') (cs_url k))))"

definition client_ok :: "client \<Rightarrow> bool" where
  "client_ok c = ((appid c, appkey c) \<in> set SIGNING_COMBOS \<and> CHR ''?'' \<notin> set (base_url c))"

definition attempt_request :: "env \<Rightarrow> call_spec \<Rightarrow> client \<Rightarrow> http_request" where
  "attempt_request E k c = \<lparr>rq_method = cs_method k, rq_url = cs_url k,
     rq_headers = build_headers E c (cs_source k) (cs_token k), rq_body = cs_body k\<rparr>"

text \<open>Everything but the credentials, the probing flag and the log stays.\<close>

definition same_client :: "client \<Rightarrow> client \<Rightarrow> bool" where
  "same_client c c' = (region c' = region c \<and> base_url c' = base_url c \<and> phone_id c' = phone_id c)"

lemma same_client_simps [simp]:
  "same_client c c" "same_client c (c\<lparr>appid := a, appkey := k\<rparr>)" "same_client c (restore s c')  = same_client c c'"
  "same_client c (c'\<lparr>signing_probed := b\<rparr>) = same_client c c'" "same_client (c\<lparr>signing_probed := b\<rparr>) c' = same_client c c'"
  "same_client c (c'\<lparr>requests := rs\<rparr>) = same_client c c'"
  "same_client (c\<lparr>appid := a, appkey := k\<rparr>) c' = same_client c c'"
  by (simp_all add: same_client_def restore_def)

lemma same_client_trans: "same_client a b \<Longrightarrow> same_client b c \<Longrightarrow> same_client a c"
  by (simp add: same_client_def)

lemma attempt_client: "attempt E k c = (r, c') \<Longrightarrow> c' = c\<lparr>requests := requests c @ [attempt_request E k c]\<rparr>"
  by (auto simp: attempt_def request_def attempt_request_def Let_def split: http_reply.splits sum.splits json_error.splits)

lemma attempt_good:
  assumes "spec_ok c0 k" "(appid c, appkey c) \<in> set SIGNING_COMBOS" "same_client c0 c"
  shows "good_request E c0 (attempt_request E k c)"
proof -
  have p: "cs_source k = signed_part (attempt_request E k c)"
    using assms(1) by (simp add: spec_ok_def signed_part_def attempt_request_def split: option.splits)
  have "verifies E (appkey c) (attempt_request E k c)"
    unfolding verifies_def p [symmetric]
    by (cases "cs_token k") (simp_all add: attempt_request_def build_headers_def CLIENT_HEADERS_def Let_def sign_def sign_source_def)
  moreover have "dget (rq_headers (attempt_request E k c)) ''Appid'' = Some (appid c)"
    "dget (rq_headers (attempt_request E k c)) ''PhoneId'' = Some (phone_id c)"
    "dget (rq_headers (attempt_request E k c)) ''Area'' = Some (region c)"
    by (simp_all add: attempt_request_def build_headers_def CLIENT_HEADERS_def Let_def)
  moreover have "\<exists>rest. rq_url (attempt_request E k c) = base_url c0 @ rest"
    using assms(1) by (simp add: spec_ok_def attempt_request_def)
  ultimately show ?thesis using assms(2,3) by (auto simp: good_request_def same_client_def)
qed

text \<open>What the requests sent between two states are: as many as given, all of them good.\<close>

definition sends :: "env \<Rightarrow> client \<Rightarrow> nat \<Rightarrow> client \<Rightarrow> client \<Rightarrow> bool" where
  "sends E c0 n c c' =
     (\<exists>sent. requests c' = requests c @ sent \<and> length sent \<le> n \<and> list_all (good_request E c0) sent)"

lemma sends_0 [simp]: "requests c' = requests c \<Longrightarrow> sends E c0 n c c'"
  by (simp add: sends_def)

lemma sends_trans: "sends E c0 n a b \<Longrightarrow> sends E c0 m b c \<Longrightarrow> n + m \<le> l \<Longrightarrow> sends E c0 l a c"
  by (auto simp: sends_def)

lemma sends_fields [simp]:
  "sends E c0 n (c\<lparr>appid := a, appkey := k\<rparr>) c' = sends E c0 n c c'"
  "sends E c0 n (c\<lparr>signing_probed := b\<rparr>) c' = sends E c0 n c c'"
  "sends E c0 n c (restore s c') = sends E c0 n c c'"
  by (simp_all add: sends_def restore_def)

lemma probe_combos_props:
  "probe_combos E k seed ps c = (r, c') \<Longrightarrow> spec_ok c0 k \<Longrightarrow> set ps \<subseteq> set SIGNING_COMBOS \<Longrightarrow> same_client c0 c \<Longrightarrow>
   same_client c0 c' \<and> signing_probed c' = signing_probed c \<and> sends E c0 (length (filter (\<lambda>p. p \<noteq> seed) ps)) c c' \<and>
   (case r of Inr (Some v) \<Rightarrow> rejected_sign v = Inr False \<and> (appid c', appkey c') \<in> set ps \<and>
       (\<exists>rs c1. requests c' = rs @ [attempt_request E k c1] \<and> appid c1 = appid c' \<and> appkey c1 = appkey c')
    | _ \<Rightarrow> True)"
proof (induction ps arbitrary: c)
  case Nil
  then show ?case by auto
next
  case (Cons p ps)
  show ?case
  proof (cases "p = seed")
    case True
    then show ?thesis using Cons.IH [of c] Cons.prems by (simp split: sum.splits option.splits)
  next
    case False
    let ?c = "c\<lparr>appid := fst p, appkey := snd p\<rparr>"
    obtain r1 c1 where a: "attempt E k ?c = (r1, c1)" by force
    have c1: "c1 = ?c\<lparr>requests := requests c @ [attempt_request E k ?c]\<rparr>" using attempt_client [OF a] by simp
    have pc: "(appid ?c, appkey ?c) \<in> set SIGNING_COMBOS" "same_client c0 ?c"
      using Cons.prems(3,4) by (auto simp: same_client_def)
    have s1: "sends E c0 1 c c1" "same_client c0 c1" "signing_probed c1 = signing_probed c"
      using attempt_good [OF Cons.prems(2) pc] Cons.prems(4) by (auto simp: c1 sends_def same_client_def)
    have e: "probe_combos E k seed (p # ps) c =
        (case r1 of Inl e \<Rightarrow> (Inl e, c1)
         | Inr v \<Rightarrow> (case rejected_sign v of Inl e \<Rightarrow> (Inl e, c1) | Inr True \<Rightarrow> probe_combos E k seed ps c1 | Inr False \<Rightarrow> (Inr (Some v), c1)))"
      using False a by (simp split: sum.splits)
    have up: "sends E c0 (Suc n) c c1" for n using sends_trans [OF s1(1) sends_0 [of c1 c1 E c0 0], of "Suc n"] by simp
    show ?thesis
    proof (cases "\<exists>v. r1 = Inr v \<and> rejected_sign v = Inr True")
      case True
      then have e2: "probe_combos E k seed ps c1 = (r, c')" using e Cons.prems(1) by auto
      then have "same_client c0 c' \<and> signing_probed c' = signing_probed c1 \<and> sends E c0 (length (filter (\<lambda>p. p \<noteq> seed) ps)) c1 c' \<and>
        (case r of Inr (Some v) \<Rightarrow> rejected_sign v = Inr False \<and> (appid c', appkey c') \<in> set ps \<and>
          (\<exists>rs c1. requests c' = rs @ [attempt_request E k c1] \<and> appid c1 = appid c' \<and> appkey c1 = appkey c')
         | _ \<Rightarrow> True)"
        using Cons.IH [OF e2] Cons.prems(2,3) s1(2) by simp
      then show ?thesis using s1 False sends_trans [OF s1(1), of _ c'] by (auto split: sum.splits option.splits)
    next
      case F: False
      then have "c' = c1" "case r of Inr (Some v) \<Rightarrow> rejected_sign v = Inr False | Inr None \<Rightarrow> False | Inl e \<Rightarrow> True"
        using e Cons.prems(1) by (auto split: sum.splits bool.splits option.splits)
      then show ?thesis using s1 up False c1 by (auto split: sum.splits option.splits)
    qed
  qed
qed


text \<open>One signed request: a single attempt, or the one probe of the client's life.\<close>

definition probe_cost :: "client \<Rightarrow> nat" where
  "probe_cost c = (if signing_probed c then 0 else 2)"

definition progress :: "env \<Rightarrow> client \<Rightarrow> client \<Rightarrow> client \<Rightarrow> bool" where
  "progress E c0 c c' = (same_client c0 c' \<and> (appid c', appkey c') \<in> set SIGNING_COMBOS \<and>
     (\<exists>n. sends E c0 n c c' \<and> n + probe_cost c' \<le> 1 + probe_cost c))"

lemma other_combos: "p \<in> set SIGNING_COMBOS \<Longrightarrow> length (filter (\<lambda>q. q \<noteq> p) SIGNING_COMBOS) = 2"
  by (auto simp: SIGNING_COMBOS_def)

lemma signed_request_props:
  assumes "signed_request E k c = (r, c')" "spec_ok c0 k" "same_client c0 c" "(appid c, appkey c) \<in> set SIGNING_COMBOS"
  shows "progress E c0 c c' \<and>
    ((appid c', appkey c') \<noteq> (appid c, appkey c) \<longrightarrow> \<not> signing_probed c \<and>
       (\<exists>v rs c1. r = Inr v \<and> rejected_sign v = Inr False \<and> requests c' = rs @ [attempt_request E k c1] \<and>
          appid c1 = appid c' \<and> appkey c1 = appkey c'))"
proof -
  obtain r1 c1 where a: "attempt E k c = (r1, c1)" by force
  have c1: "c1 = c\<lparr>requests := requests c @ [attempt_request E k c]\<rparr>" using attempt_client [OF a] .
  have s1: "sends E c0 1 c c1" "same_client c0 c1" "signing_probed c1 = signing_probed c" "appid c1 = appid c" "appkey c1 = appkey c"
    using attempt_good [OF assms(2,4,3)] assms(3) by (auto simp: c1 sends_def same_client_def)
  have base: "progress E c0 c c1" using s1 assms(4) by (auto simp: progress_def probe_cost_def intro!: exI [of _ 1])
  show ?thesis
  proof (cases "(\<exists>v. r1 = Inr v \<and> rejected_sign v = Inr True) \<and> \<not> signing_probed c")
    case False
    then have "c' = c1" using assms(1) a s1(3) by (auto simp: signed_request_def split: sum.splits if_splits)
    then show ?thesis using base s1 by simp
  next
    case True
    then obtain v where v: "r1 = Inr v" "rejected_sign v = Inr True" and np: "\<not> signing_probed c" by blast
    obtain d where d: "v = JObj d" using v(2) by (cases v) (auto simp: rejected_sign_def)
    let ?seed = "(appid c, appkey c)"
    obtain r2 c2 where p: "probe_combos E k ?seed SIGNING_COMBOS (c1\<lparr>signing_probed := True\<rparr>) = (r2, c2)" by force
    have e: "(r, c') = (case r2 of Inl e \<Rightarrow> (Inl e, restore ?seed c2) | Inr (Some retry) \<Rightarrow> (Inr retry, c2)
        | Inr None \<Rightarrow> (clarify (region c2) d, restore ?seed c2))"
      using assms(1) a v np p s1 d by (simp add: signed_request_def Let_def split: sum.splits option.splits)
    note pp = probe_combos_props [OF p assms(2) order_refl, unfolded same_client_simps, OF s1(2)]
    have s2: "sends E c0 2 c1 c2" using pp other_combos [OF assms(4)] by simp
    have s3: "sends E c0 3 c c2" by (rule sends_trans [OF s1(1) s2]) simp
    have pc: "probe_cost c2 = 0" "probe_cost c = 2" using pp np by (simp_all add: probe_cost_def)
    show ?thesis
    proof (cases "\<exists>w. r2 = Inr (Some w)")
      case True
      then obtain w where w: "r2 = Inr (Some w)" by blast
      then have "r = Inr w" "c' = c2" using e by auto
      then show ?thesis using pp w s3 pc np by (auto simp: progress_def intro!: exI [of _ 3])
    next
      case F: False
      then have "c' = restore ?seed c2" using e by (auto split: sum.splits option.splits)
      moreover have "probe_cost (restore ?seed c2) = 0" "appid (restore ?seed c2) = appid c" "appkey (restore ?seed c2) = appkey c"
        using pc by (simp_all add: probe_cost_def restore_def)
      ultimately show ?thesis using pp s3 pc assms(4) by (auto simp: progress_def intro!: exI [of _ 3])
    qed
  qed
qed

lemma call_client:
  "snd (call E k f c) = snd (signed_request E k c)"
  by (auto simp: call_def split: prod.splits sum.splits json.splits)

lemma call_progress:
  assumes "spec_ok c0 k" "same_client c0 c" "(appid c, appkey c) \<in> set SIGNING_COMBOS"
  shows "progress E c0 c (snd (call E k f c))"
  using signed_request_props [OF _ assms, of E "fst (signed_request E k c)" "snd (signed_request E k c)"]
  by (simp add: call_client)

lemma spec_ok_post: "base_url c = base_url c0 \<Longrightarrow> spec_ok c0 (post_spec c path body tok)"
  by (simp add: spec_ok_def post_spec_def)

lemma dropWhile_append_none: "\<forall>x \<in> set xs. P x \<Longrightarrow> dropWhile P (xs @ ys) = dropWhile P ys"
  by (induction xs) auto

lemma spec_ok_get:
  assumes "base_url c = base_url c0" "CHR ''?'' \<notin> set (base_url c0)" "CHR ''?'' \<notin> set path"
  shows "spec_ok c0 (get_spec c path query tok)"
proof -
  have "\<forall>x \<in> set (base_url c0 @ path). x \<noteq> CHR ''?''" using assms(2,3) by auto
  from dropWhile_append_none [OF this, of "CHR ''?'' # query"] show ?thesis
    by (simp add: spec_ok_def get_spec_def assms(1))
qed

lemma progress_refl: "same_client c0 c \<Longrightarrow> (appid c, appkey c) \<in> set SIGNING_COMBOS \<Longrightarrow> progress E c0 c c"
  by (auto simp: progress_def intro!: exI [of _ 0])

lemma api_step_progress:
  assumes "same_client c0 c" "(appid c, appkey c) \<in> set SIGNING_COMBOS" "CHR ''?'' \<notin> set (base_url c0)"
  shows "progress E c0 c (api_step E a c)"
proof -
  have b: "base_url c = base_url c0" using assms(1) by (simp add: same_client_def)
  note r = call_progress [OF spec_ok_post [OF b] assms(1,2)] call_progress [OF spec_ok_get [OF b assms(3)] assms(1,2)]
  show ?thesis
    by (cases a; simp add: login_def query_device_list_def query_device_traits_def query_resources_by_rid_def
        query_device_detail_def query_custom_actions_def run_sequence_def query_collection_panels_def
        query_camera_p2p_info_def request_camera_p2p_sign_def query_ptz_positions_def r path_defs progress_refl [OF assms(1,2)])
qed

lemma api_steps_props:
  "same_client c0 c \<Longrightarrow> (appid c, appkey c) \<in> set SIGNING_COMBOS \<Longrightarrow> CHR ''?'' \<notin> set (base_url c0) \<Longrightarrow>
   same_client c0 (fold (api_step E) calls c) \<and>
   (appid (fold (api_step E) calls c), appkey (fold (api_step E) calls c)) \<in> set SIGNING_COMBOS \<and>
   (\<exists>n. sends E c0 n c (fold (api_step E) calls c) \<and> n + probe_cost (fold (api_step E) calls c) \<le> length calls + probe_cost c)"
proof (induction calls arbitrary: c)
  case Nil
  then show ?case by (auto intro!: exI [of _ 0])
next
  case (Cons a calls)
  let ?c = "api_step E a c"
  have p: "progress E c0 c ?c" by (rule api_step_progress [OF Cons.prems])
  then obtain n where n: "sends E c0 n c ?c" "n + probe_cost ?c \<le> 1 + probe_cost c" by (auto simp: progress_def)
  have q: "same_client c0 ?c" "(appid ?c, appkey ?c) \<in> set SIGNING_COMBOS" using p by (simp_all add: progress_def)
  from Cons.IH [OF q Cons.prems(3)] obtain m where m: "sends E c0 m ?c (fold (api_step E) calls ?c)"
    "m + probe_cost (fold (api_step E) calls ?c) \<le> length calls + probe_cost ?c" by blast
  have "sends E c0 (n + m) c (fold (api_step E) calls ?c)" by (rule sends_trans [OF n(1) m(1)]) simp
  then show ?case using Cons.IH [OF q Cons.prems(3)] n(2) m(2) by (auto intro!: exI [of _ "n + m"])
qed

lemma new_client_ok:
  "new_client reg phone = Inr c \<Longrightarrow> (appid c, appkey c) \<in> set SIGNING_COMBOS \<and> CHR ''?'' \<notin> set (base_url c) \<and>
     requests c = [] \<and> \<not> signing_probed c \<and> region c = reg \<and> phone_id c = phone"
  by (auto simp: new_client_def AREAS_def area_def SIGNING_COMBOS_def split: if_splits)


text \<open>
  The credentials change only by a probe that worked: if they differ after a request, the client had not
  probed before, the answer was not a rejection of the signature, and the request it answers was signed
  with the new ones. In every other case, failures in the middle of the probe included, they are what
  they were.
\<close>

theorem signing_probe:
  assumes "signed_request E k c = (r, c')" "spec_ok c k" "client_ok c"
  shows "client_ok c' \<and> (appid c', appkey c') = (appid c, appkey c) \<or>
    client_ok c' \<and> \<not> signing_probed c \<and> signing_probed c' \<and>
       (\<exists>v rs c1. r = Inr v \<and> rejected_sign v = Inr False \<and> requests c' = rs @ [attempt_request E k c1] \<and>
          appid c1 = appid c' \<and> appkey c1 = appkey c')"
proof -
  note p = signed_request_props [OF assms(1,2)]
  have "progress E c c c'" using p assms(3) by (simp add: client_ok_def)
  then have "client_ok c'" using assms(3) by (auto simp: progress_def client_ok_def same_client_def)
  moreover have "signing_probed c'" if "(appid c', appkey c') \<noteq> (appid c, appkey c)"
    using assms(1) that probe_combos_props [OF _ assms(2) order_refl]
    by (auto simp: signed_request_def Let_def restore_def split: prod.splits sum.splits option.splits if_splits json.splits dest!: attempt_client)
  ultimately show ?thesis using p assms(3) by (auto simp: client_ok_def)
qed


text \<open>A cloud that rejects the first signature it sees and accepts every later one.\<close>

definition sample_env :: env where
  "sample_env = \<lparr>md5 = (\<lambda>bs. ''5d''), rsa = (\<lambda>s. s), nonce = nat_text, time_ms = nat_text,
     cloud = (\<lambda>rs. Reply_Text (dumps (JObj [(''code'', JInt (if length rs = 1 then 106 else 0)),
        (''result'', JObj [(''devices'', JList [])])])))\<rparr>"

definition sample_client :: client where
  "sample_client = \<lparr>region = ''EU'', base_url = ''https://rpc-ger.aqara.com'', appid = APPID_B, appkey = KEY_A,
     signing_probed = False, phone_id = ''P'', requests = []\<rparr>"

lemma sample_new: "new_client ''EU'' ''P'' = Inr sample_client"
  by (simp add: new_client_def AREAS_def area_def sample_client_def)


lemma sample_attempt:
  "attempt sample_env k c = (Inr (JObj [(''code'', JInt (if requests c = [] then 106 else 0)), (''result'', JObj [(''devices'', JList [])])]),
     c\<lparr>requests := requests c @ [attempt_request sample_env k c]\<rparr>)"
proof -
  have "wf_json (JObj [(''code'', JInt i), (''result'', JObj [(''devices'', JList [])])])" for i
    by (simp add: dict_ok_def)
  from loads_dumps [OF this] show ?thesis
    by (simp add: attempt_def request_def attempt_request_def sample_env_def Let_def)
qed

theorem signing_probe_witness:
  "\<exists>c' v. signed_request sample_env (get_spec sample_client DEVICE_LIST_PATH ''size=300&startIndex=0'' ''T'') sample_client = (Inr v, c') \<and>
     (appid c', appkey c') = (APPID_A, KEY_B) \<and> client_ok c' \<and> signing_probed c'"
proof -
  let ?k = "get_spec sample_client DEVICE_LIST_PATH ''size=300&startIndex=0'' ''T''"
  obtain v c' where r: "signed_request sample_env ?k sample_client = (Inr v, c')" "appid c' = APPID_A" "appkey c' = KEY_B"
    by (simp add: signed_request_def sample_attempt rejected_sign_def jget_def SIGNING_COMBOS_def Let_def sample_client_def)
  have "spec_ok sample_client ?k" "client_ok sample_client"
    by (simp_all add: spec_ok_get sample_client_def DEVICE_LIST_PATH_def client_ok_def SIGNING_COMBOS_def)
  from signing_probe [OF r(1) this] r show ?thesis by (auto simp: sample_client_def)
qed

text \<open>
  A reply counts as success exactly when its code is the integer 0 or the text 0, and starts the
  re-authentication exactly when its code, read as an integer, is 108, 109, 802 or 804; a call that
  returns a value has seen a success.
\<close>

theorem reauth_codes:
  "(raise_if_error d = Inr () \<longleftrightarrow> jget d ''code'' JNull \<in> {JInt 0, JStr ''0''}) \<and>
   (raise_if_error d = Inl Cloud_Auth_Error \<longleftrightarrow> (\<exists>i \<in> {108, 109, 802, 804}. py_int (jget d ''code'' JNull) = Some i))"
proof -
  let ?v = "jget d ''code'' JNull"
  have t0: "int_text 0 = ''0''" by code_simp
  have p0: "prints_as ?v 0 \<longleftrightarrow> ?v \<in> {JInt 0, JStr ''0''}" by (cases ?v) (auto simp: t0)
  have "py_int (JStr ''0'') = Some 0" by code_simp
  then have z: "prints_as ?v 0 \<Longrightarrow> py_int ?v = Some 0" unfolding p0 by (auto simp: trunc_rat_def)
  have inf: "float_value ''Infinity'' = None" "float_value ''-Infinity'' = None" by code_simp+
  have f: "?v \<in> {JFloat ''Infinity'', JFloat ''-Infinity''} \<Longrightarrow> py_int ?v = None" using inf by auto
  show ?thesis
  proof (cases "prints_as ?v 0")
    case True
    then show ?thesis using z p0 by (simp add: raise_if_error_def Let_def)
  next
    case False
    then show ?thesis using f p0
      by (auto simp: raise_if_error_def Let_def AUTH_FAILURE_CODES_def split: option.splits)
  qed
qed

text \<open>
  A reply that is JSON but no object makes every call raise AttributeError, which none of the callers
  that catch the client's own error type expects.
\<close>

theorem non_object_reply_escapes:
  assumes "cloud E (requests c @ [attempt_request E k c]) = Reply_Text t" "loads t = Inr v" "\<nexists>d. v = JObj d"
  shows "fst (call E k f c) = Inl Attribute_Error"
proof -
  have "rejected_sign v = Inl Attribute_Error" using assms(3) by (cases v) (auto simp: rejected_sign_def)
  moreover have "fst (attempt E k c) = Inr v"
    using assms(1,2) by (simp add: attempt_def request_def attempt_request_def Let_def)
  ultimately show ?thesis by (cases "attempt E k c") (simp add: call_def signed_request_def)
qed

theorem non_object_reply_escapes_witness:
  "fst (query_ptz_positions (sample_env\<lparr>cloud := (\<lambda>_. Reply_Text ''[]'')\<rparr>) ''T'' ''d'' sample_client) = Inl Attribute_Error"
proof -
  have "loads ''[]'' = Inr (JList [])" by code_simp
  then show ?thesis unfolding query_ptz_positions_def by (intro non_object_reply_escapes [of _ _ _ "''[]''" "JList []"]) simp_all
qed

text \<open>The subjects of an answer in order, and the panel each gives.\<close>

definition subjects_of :: "json \<Rightarrow> json list" where
  "subjects_of p = (case p of JObj d \<Rightarrow> (case py_or (jget d ''subjects'' JNull) (JList []) of JList ss \<Rightarrow> ss | _ \<Rightarrow> []) | _ \<Rightarrow> [])"

definition panel_entry :: "json \<Rightarrow> (int \<times> endpoint_panel) list" where
  "panel_entry s = (case s of JObj d \<Rightarrow> (case parse_endpoint_subject d of Inr (Some p) \<Rightarrow> [(endpoint_id p, p)] | _ \<Rightarrow> []) | _ \<Rightarrow> [])"

lemma add_subjects_lookup:
  "add_subjects ss out = Inr out' \<Longrightarrow>
   dget out' i = (case map_of (rev (concat (map panel_entry ss))) i of Some p \<Rightarrow> Some p | None \<Rightarrow> dget out i) \<and>
   (dict_ok out \<longrightarrow> dict_ok out')"
  by (induction ss out rule: add_subjects.induct)
    (auto simp: panel_entry_def map_add_def split: sum.splits option.splits)

lemma add_panels_lookup:
  "add_panels ps out = Inr out' \<Longrightarrow>
   dget out' i = (case map_of (rev (concat (map panel_entry (concat (map subjects_of ps))))) i of Some p \<Rightarrow> Some p | None \<Rightarrow> dget out i) \<and>
   (dict_ok out \<longrightarrow> dict_ok out')"
proof (induction ps out arbitrary: out' rule: add_panels.induct)
  case (2 d xs out)
  obtain ss where ss: "py_or (jget d ''subjects'' JNull) (JList []) = JList ss"
    using "2.prems" by (auto split: json.splits)
  obtain out1 where o1: "add_subjects ss out = Inr out1" "add_panels xs out1 = Inr out'"
    using "2.prems" ss by (auto split: sum.splits)
  show ?case
    using "2.IH" [OF ss o1] add_subjects_lookup [OF o1(1), of i]
    by (auto simp: subjects_of_def ss map_add_def split: option.splits)
qed auto

text \<open>
  The panels of an answer, keyed by endpoint: each endpoint has the panel of the last subject that names
  it, over all panels in order, and subjects without an id or without paths contribute nothing.
\<close>

theorem panels_last_wins:
  assumes "add_panels ps [] = Inr out"
  shows "dict_ok out \<and> dget out i = map_of (rev (concat (map panel_entry (concat (map subjects_of ps))))) i"
  using add_panels_lookup [OF assms, of i] by (auto split: option.splits)

theorem panels_last_wins_witness:
  "\<exists>out p. add_panels [JObj [(''subjects'', JList [JObj [(''endpointId'', JInt 2), (''paths'', JList [])],
      JObj [(''endpointId'', JStr ''2''), (''paths'', JList [JStr ''2.1.1''])], JObj [(''paths'', JList [])]])]] [] = Inr out \<and>
    dget out 2 = Some p \<and> paths p = [''2.1.1''] \<and> length out = 1"
proof -
  let ?ps = "[JObj [(''subjects'', JList [JObj [(''endpointId'', JInt 2), (''paths'', JList [])],
      JObj [(''endpointId'', JStr ''2''), (''paths'', JList [JStr ''2.1.1''])], JObj [(''paths'', JList [])]])]]"
  have "py_int (JStr ''2'') = Some 2" by code_simp
  then have p2: "int_or_raise (JStr ''2'') = Inr 2" by (simp add: int_or_raise_def)
  have p1: "int_or_raise (JInt i) = Inr i" for i by (simp add: int_or_raise_def trunc_rat_def)
  obtain out where o: "add_panels ?ps [] = Inr out" "length out = 1"
    by (simp add: parse_endpoint_subject_def jget_def py_or_def text_field_def p1 p2)
  show ?thesis
    using panels_last_wins [OF o(1), of 2] o
    by (simp add: panel_entry_def subjects_of_def parse_endpoint_subject_def jget_def py_or_def text_field_def p1 p2)
qed

end
