(* ===== verification/Traits.thy ===== *)
theory Traits
  imports Protocol
begin

text \<open>
  \<open>device/traits.py\<close>, \<open>device/attrs.py\<close>, \<open>device/trait_policy.py\<close>, \<open>device/overlay.py\<close> and the
  merging of overrides in \<open>device/models/_loader.py\<close> and \<open>device/build_descriptors.py\<close>: what is known
  of a device's traits. Fields that the stored overlay can fill with any JSON value are JSON values
  here (\<open>JNull\<close> for None), the others have their declared types.
\<close>

section \<open>Trait specifications\<close>

record trait_spec =
  t_id :: string
  t_name :: string
  t_description :: string
  t_data_type :: string
  t_unit :: json
  t_enum_values :: "(string, string) dict option"
  t_wire_path :: "string option"
  t_min :: "rat option"
  t_max :: "rat option"
  t_step :: "rat option"
  t_readable :: bool
  t_writable :: bool
  t_sources :: "string list"
  t_default_enabled :: bool
  t_trait_id :: "int option"
  t_synthesis :: "string option"
  t_platform :: json
  t_entity_category :: json
  t_device_class :: json
  t_state_class :: json
  t_unit_of_measurement :: json
  t_scale :: json
  t_precision :: json
  t_icon :: json
  t_auto_clear :: json
  t_function_code :: "string option"
  t_trait_code :: "string option"
  t_subscribable :: bool
  t_endpoint :: "int option"

text \<open>The defaults of the dataclass.\<close>

definition new_trait :: "string \<Rightarrow> string \<Rightarrow> trait_spec" where
  "new_trait i n = \<lparr>t_id = i, t_name = n, t_description = [], t_data_type = ''unknown'', t_unit = JNull, t_enum_values = None,
     t_wire_path = None, t_min = None, t_max = None, t_step = None, t_readable = True, t_writable = False,
     t_sources = [''observed''], t_default_enabled = True, t_trait_id = None, t_synthesis = None, t_platform = JNull,
     t_entity_category = JNull, t_device_class = JNull, t_state_class = JNull, t_unit_of_measurement = JNull, t_scale = JNull,
     t_precision = JNull, t_icon = JNull, t_auto_clear = JNull, t_function_code = None, t_trait_code = None,
     t_subscribable = False, t_endpoint = None\<rparr>"

definition VALID_PLATFORMS :: "string list" where
  "VALID_PLATFORMS = [''sensor'', ''binary_sensor'', ''switch'', ''number'', ''select'', ''event'', ''button'']"

definition VALID_ENTITY_CATEGORIES :: "json list" where
  "VALID_ENTITY_CATEGORIES = [JNull, JStr ''config'', JStr ''diagnostic'']"

definition NUMERIC_PLATFORMS :: "json list" where
  "NUMERIC_PLATFORMS = [JStr ''sensor'', JStr ''number'']"

text \<open>Control characters (Unicode category Cc) below 256.\<close>

definition has_control_char :: "string \<Rightarrow> bool" where
  "has_control_char s = list_ex (\<lambda>c. char_code c < 32 \<or> 127 \<le> char_code c \<and> char_code c < 160) s"

definition clean_text :: "json \<Rightarrow> bool" where
  "clean_text v = (case v of JStr s \<Rightarrow> \<not> has_control_char s | _ \<Rightarrow> True)"

datatype spec_error = Runtime_Error | Type_Error | Overflow_Error

text \<open>
  \<open>math.isfinite(v)\<close>: numbers only, and an integer that no double can hold makes it raise. A value in a
  set must be hashable.
\<close>

fun is_finite :: "json \<Rightarrow> spec_error + bool" where
  "is_finite (JInt i) = (if 2 ^ 1024 - 2 ^ 970 \<le> \<bar>i\<bar> then Inl Overflow_Error else Inr True)"
| "is_finite (JBool b) = Inr True"
| "is_finite (JFloat s) = Inr (s \<notin> {''NaN'', ''Infinity'', ''-Infinity''})"
| "is_finite v = Inl Type_Error"

fun can_hash :: "json \<Rightarrow> bool" where
  "can_hash (JList xs) = False"
| "can_hash (JObj d) = False"
| "can_hash v = True"

definition check_platform :: "trait_spec \<Rightarrow> spec_error option" where
  "check_platform s =
     (if t_platform s = JNull then None
      else if \<not> can_hash (t_platform s) then Some Type_Error
      else if t_platform s \<notin> JStr ` set VALID_PLATFORMS then Some Runtime_Error else None)"

definition check_category :: "trait_spec \<Rightarrow> spec_error option" where
  "check_category s =
     (if \<not> can_hash (t_entity_category s) then Some Type_Error
      else if t_entity_category s \<notin> set VALID_ENTITY_CATEGORIES then Some Runtime_Error else None)"

definition check_state_class :: "trait_spec \<Rightarrow> spec_error option" where
  "check_state_class s =
     (if t_state_class s \<noteq> JNull \<and> t_platform s \<noteq> JStr ''sensor'' then Some Runtime_Error else None)"

definition check_numeric :: "trait_spec \<Rightarrow> spec_error option" where
  "check_numeric s =
     (if (t_scale s \<noteq> JNull \<or> t_unit_of_measurement s \<noteq> JNull \<or> t_precision s \<noteq> JNull)
         \<and> t_platform s \<notin> set NUMERIC_PLATFORMS then Some Runtime_Error else None)"

definition check_scale :: "trait_spec \<Rightarrow> spec_error option" where
  "check_scale s =
     (if t_scale s = JNull then None
      else case is_finite (t_scale s) of
             Inl e \<Rightarrow> Some e
           | Inr fin \<Rightarrow> if \<not> fin \<or> eq_int (t_scale s) 0 then Some Runtime_Error else None)"

definition check_auto_clear :: "trait_spec \<Rightarrow> spec_error option" where
  "check_auto_clear s =
     (if t_auto_clear s = JNull then None
      else if t_platform s \<noteq> JStr ''binary_sensor'' then Some Runtime_Error
      else case is_finite (t_auto_clear s) of
             Inl e \<Rightarrow> Some e
           | Inr fin \<Rightarrow>
               if \<not> fin \<or> (case num_value (t_auto_clear s) of Some r \<Rightarrow> r \<le> 0 | None \<Rightarrow> True) then Some Runtime_Error else None)"

definition check_text :: "trait_spec \<Rightarrow> spec_error option" where
  "check_text s =
     (if has_control_char (t_id s) \<or> has_control_char (t_name s) \<or> has_control_char (t_description s) \<or>
         has_control_char (t_data_type s) \<or> \<not> clean_text (t_unit s) \<or>
         (case t_wire_path s of Some w \<Rightarrow> has_control_char w | None \<Rightarrow> False) \<or> \<not> clean_text (t_device_class s) \<or>
         (case t_enum_values s of Some d \<Rightarrow> list_ex (\<lambda>(k, v). has_control_char k \<or> has_control_char v) d | None \<Rightarrow> False)
      then Some Runtime_Error else None)"

text \<open>\<open>TraitSpec(...)\<close>: the checks in their order, the first that fails raises.\<close>

fun first_error :: "'e option list \<Rightarrow> 'e option" where
  "first_error [] = None"
| "first_error (None # es) = first_error es"
| "first_error (Some e # es) = Some e"

definition make_trait :: "trait_spec \<Rightarrow> spec_error + trait_spec" where
  "make_trait s =
     (case first_error [check_text s, check_platform s, check_category s, check_state_class s, check_numeric s, check_scale s, check_auto_clear s] of
        Some e \<Rightarrow> Inl e
      | None \<Rightarrow> Inr s)"

section \<open>Catalogs of traits and attributes\<close>

record attr_spec =
  a_name :: string
  a_id :: string
  a_resource_id :: "string option"

definition attr :: "string \<Rightarrow> attr_spec" where
  "attr n = \<lparr>a_name = n, a_id = [], a_resource_id = None\<rparr>"

text \<open>A catalog with the number of change notifications it has fired.\<close>

definition register_trait :: "trait_spec \<Rightarrow> (string, trait_spec) dict \<times> nat \<Rightarrow> (string, trait_spec) dict \<times> nat" where
  "register_trait s c =
     (case dget (fst c) (t_id s) of
        None \<Rightarrow> (dset (t_id s) s (fst c), snd c + 1)
      | Some old \<Rightarrow> if old = s then c else (dset (t_id s) s (fst c), snd c + 1))"

definition register_attr :: "attr_spec \<Rightarrow> (string, attr_spec) dict \<times> nat \<Rightarrow> (string, attr_spec) dict \<times> nat" where
  "register_attr s c =
     (case dget (fst c) (a_name s) of
        None \<Rightarrow> (dset (a_name s) s (fst c), snd c + 1)
      | Some old \<Rightarrow> if old = s then c else (dset (a_name s) s (fst c), snd c + 1))"

text \<open>What both catalogs promise, and what follows for any series of registrations.\<close>

locale spec_catalog =
  fixes key :: "'s \<Rightarrow> string"
    and register :: "'s \<Rightarrow> (string, 's) dict \<times> nat \<Rightarrow> (string, 's) dict \<times> nat"
  assumes lookup_register: "dget (fst (register s c)) k = (if k = key s then Some s else dget (fst c) k)"
    and notify_register: "snd (register s c) = (if dget (fst c) (key s) = Some s then snd c else Suc (snd c))"
    and ok_register: "dict_ok (fst c) \<Longrightarrow> dict_ok (fst (register s c))"
begin

lemma last_writer_wins:
  "dget (fst (fold register ss c)) k = (case find (\<lambda>s. key s = k) (rev ss) of Some s \<Rightarrow> Some s | None \<Rightarrow> dget (fst c) k)"
proof (induction ss rule: rev_induct)
  case (snoc s ss)
  then show ?case by (simp add: lookup_register)
qed simp

lemma keeps_ok: "dict_ok (fst c) \<Longrightarrow> dict_ok (fst (fold register ss c))"
  by (induction ss rule: rev_induct) (simp_all add: ok_register)

lemma re_registration_silent: "dget (fst c) (key s) = Some s \<Longrightarrow> snd (register s c) = snd c"
  by (simp add: notify_register)

end

interpretation trait_catalog: spec_catalog t_id register_trait
  by unfold_locales (auto simp: register_trait_def split: option.splits)

interpretation attr_catalog: spec_catalog a_name register_attr
  by unfold_locales (auto simp: register_attr_def split: option.splits)

section \<open>Override on top\<close>

text \<open>
  \<open>merged\<close> starts as the base; an entry of the overlay replaces the one at its key, and None removes
  it. The overrides of a model package do the same and give a spec without wire path its key as one.
\<close>

definition merge_entry :: "(string \<Rightarrow> 'a \<Rightarrow> 'a) \<Rightarrow> string \<times> 'a option \<Rightarrow> (string, 'a) dict \<Rightarrow> (string, 'a) dict" where
  "merge_entry fix e m = (case snd e of None \<Rightarrow> ddel (fst e) m | Some s \<Rightarrow> dset (fst e) (fix (fst e) s) m)"

definition merge_overlay_into_catalogue :: "(string, trait_spec) dict \<Rightarrow> (string, trait_spec option) dict \<Rightarrow> (string, trait_spec) dict" where
  "merge_overlay_into_catalogue cat ov = fold (merge_entry (\<lambda>wp s. s)) ov cat"

definition with_wire_path :: "string \<Rightarrow> trait_spec \<Rightarrow> trait_spec" where
  "with_wire_path wp s = (if t_wire_path s = None then s\<lparr>t_wire_path := Some wp\<rparr> else s)"

definition apply_overrides :: "(string, trait_spec) dict \<Rightarrow> (string, trait_spec option) dict \<Rightarrow> (string, trait_spec) dict" where
  "apply_overrides base ov = fold (merge_entry with_wire_path) ov base"

lemma merge_entries:
  "dict_ok ov \<Longrightarrow> dget (fold (merge_entry fix) ov m) k =
     (case dget ov k of None \<Rightarrow> dget m k | Some None \<Rightarrow> None | Some (Some s) \<Rightarrow> Some (fix k s))"
proof (induction ov arbitrary: m)
  case (Cons e ov)
  obtain k' v where e: "e = (k', v)" by force
  have "k' \<notin> fst ` set ov" "dict_ok ov" using Cons.prems e by (auto simp: dict_ok_def)
  then have "dget ov k' = None" by (simp add: map_of_eq_None_iff)
  then show ?case using Cons.IH [OF \<open>dict_ok ov\<close>] e
    by (auto simp: merge_entry_def split: option.splits)
qed simp

lemma merge_entries_ok: "dict_ok m \<Longrightarrow> dict_ok (fold (merge_entry fix) ov m)"
  by (induction ov arbitrary: m) (auto simp: merge_entry_def split: option.splits)

section \<open>Trait policy\<close>

definition DROP_FUNCTIONS :: "string list" where
  "DROP_FUNCTIONS =
    [''Descriptor'', ''EndpointLabel'', ''ZigbeeNetworkDiagnostics'', ''ThreadNetworkDiagnostics'']"

definition DROP_BASIC_INFORMATION_TRAITS :: "string list" where
  "DROP_BASIC_INFORMATION_TRAITS =
    [''SerialNumber'', ''VendorName'', ''VendorID'', ''ProductName'', ''Location'', ''DeviceID'',
     ''ChipTemperature'', ''FirmwareRevision'', ''Reachable'', ''HardwareVersion'', ''HardwareVersionString'',
     ''Mac'', ''FirmwareRevisionString'', ''ProductID'', ''SupportedMatterRoles'', ''ModelValue'']"

definition DROP_GENERAL_DIAGNOSTICS_TRAITS :: "string list" where
  "DROP_GENERAL_DIAGNOSTICS_TRAITS =
    [''RebootCount'', ''RebootReason'', ''DebugInfo'', ''NetworkInterfaces'']"

definition DROP_IDENTIFY_TRAITS :: "string list" where
  "DROP_IDENTIFY_TRAITS =
    [''IdentifyTime'', ''IdentifyType'']"

definition DROP_NETWORK_COMMISSIONING_TRAITS :: "string list" where
  "DROP_NETWORK_COMMISSIONING_TRAITS =
    [''SupportedNetwork'', ''ZigbeeAuthRandcode'', ''ZigbeeAuthRandcodeResponse'', ''MagicPairKeychain'',
     ''WiFiDiagnostics'', ''ThreadDiagnostics'', ''ZigbeeDiagnostics'']"

definition DROP_CAMERA_TRAITS :: "string list" where
  "DROP_CAMERA_TRAITS =
    [''CameraRTSPURL'']"

definition DROP_TRAITS :: "(string \<times> string) list" where
  "DROP_TRAITS = [(''OccupancySensing'', ''OccupancySensorType'')]"

definition DIAGNOSTIC_FUNCTIONS :: "string list" where "DIAGNOSTIC_FUNCTIONS = []"

definition DIAGNOSTIC_TRAITS :: "(string \<times> string) list" where
  "DIAGNOSTIC_TRAITS =
     [(''BasicInformation'', ''HubConnectionStatus''), (''NetworkCommissioning'', ''WiFiRSSI''),
      (''NetworkCommissioning'', ''WiFiChannel''), (''NetworkCommissioning'', ''ChildDeviceProvisioningState''),
      (''PowerSource'', ''CurrentVoltage''), (''PowerSource'', ''StateOfLowBat''), (''PowerSource'', ''PowerMode''),
      (''Camera'', ''CameraRTSPEnable''), (''Camera'', ''CameraActiveStatus''), (''Camera'', ''P2PCaptureEnabled''),
      (''Camera'', ''P2PCaptureStatus'')]"

definition FORCE_READONLY_TRAITS :: "(string \<times> string) list" where
  "FORCE_READONLY_TRAITS = [(''Camera'', ''CameraActiveStatus''), (''Camera'', ''P2PCaptureStatus'')]"

definition FORCE_WRITABLE_TRAITS :: "(string \<times> string) list" where "FORCE_WRITABLE_TRAITS = []"

definition BUTTON_TRAITS :: "(string \<times> string, string) dict" where "BUTTON_TRAITS = []"

datatype trait_class = Visible | Diagnostic | Button_Trait | Drop_Trait

definition classify_trait :: "string \<Rightarrow> string \<Rightarrow> trait_class" where
  "classify_trait f t =
     (if f \<in> set DROP_FUNCTIONS then Drop_Trait
      else if f = ''BasicInformation'' \<and> t \<in> set DROP_BASIC_INFORMATION_TRAITS then Drop_Trait
      else if f = ''GeneralDiagnostics'' \<and> t \<in> set DROP_GENERAL_DIAGNOSTICS_TRAITS then Drop_Trait
      else if f = ''Identify'' \<and> t \<in> set DROP_IDENTIFY_TRAITS then Drop_Trait
      else if f = ''NetworkCommissioning'' \<and> t \<in> set DROP_NETWORK_COMMISSIONING_TRAITS then Drop_Trait
      else if f = ''Camera'' \<and> t \<in> set DROP_CAMERA_TRAITS then Drop_Trait
      else if (f, t) \<in> set DROP_TRAITS then Drop_Trait
      else if dget BUTTON_TRAITS (f, t) \<noteq> None then Button_Trait
      else if f \<in> set DIAGNOSTIC_FUNCTIONS then Diagnostic
      else if (f, t) \<in> set DIAGNOSTIC_TRAITS then Diagnostic
      else Visible)"

section \<open>What a specification guarantees\<close>

text \<open>The promises the descriptor builders rely on.\<close>

definition spec_ok :: "trait_spec \<Rightarrow> bool" where
  "spec_ok s =
     (\<not> has_control_char (t_id s) \<and> \<not> has_control_char (t_name s) \<and> clean_text (t_device_class s) \<and>
      t_platform s \<in> insert JNull (JStr ` set VALID_PLATFORMS) \<and> t_entity_category s \<in> set VALID_ENTITY_CATEGORIES \<and>
      (t_state_class s = JNull \<or> t_platform s = JStr ''sensor'') \<and>
      (t_scale s = JNull \<and> t_unit_of_measurement s = JNull \<and> t_precision s = JNull \<or> t_platform s \<in> set NUMERIC_PLATFORMS) \<and>
      (t_scale s = JNull \<or> (is_finite (t_scale s) = Inr True \<and> \<not> eq_int (t_scale s) 0)) \<and>
      (t_auto_clear s = JNull \<or> t_platform s = JStr ''binary_sensor'' \<and>
         is_finite (t_auto_clear s) = Inr True \<and> (\<exists>r. num_value (t_auto_clear s) = Some r \<and> 0 < r)))"

lemma check_simps:
  "check_platform s = None \<longleftrightarrow> t_platform s \<in> insert JNull (JStr ` set VALID_PLATFORMS)"
  "check_category s = None \<longleftrightarrow> t_entity_category s \<in> set VALID_ENTITY_CATEGORIES"
  "check_state_class s = None \<longleftrightarrow> t_state_class s = JNull \<or> t_platform s = JStr ''sensor''"
  "check_numeric s = None \<longleftrightarrow> t_scale s = JNull \<and> t_unit_of_measurement s = JNull \<and> t_precision s = JNull \<or> t_platform s \<in> set NUMERIC_PLATFORMS"
  "check_scale s = None \<longleftrightarrow> t_scale s = JNull \<or> (is_finite (t_scale s) = Inr True \<and> \<not> eq_int (t_scale s) 0)"
proof -
  show "check_platform s = None \<longleftrightarrow> t_platform s \<in> insert JNull (JStr ` set VALID_PLATFORMS)"
    by (auto simp: check_platform_def)
  show "check_category s = None \<longleftrightarrow> t_entity_category s \<in> set VALID_ENTITY_CATEGORIES"
    by (auto simp: check_category_def VALID_ENTITY_CATEGORIES_def)
  show "check_scale s = None \<longleftrightarrow> t_scale s = JNull \<or> (is_finite (t_scale s) = Inr True \<and> \<not> eq_int (t_scale s) 0)"
    by (auto simp: check_scale_def split: sum.splits)
qed (auto simp: check_state_class_def check_numeric_def)

lemma make_trait_Inr:
  "make_trait s = Inr s' \<longleftrightarrow> s' = s \<and> check_text s = None \<and> check_platform s = None \<and> check_category s = None \<and>
     check_state_class s = None \<and> check_numeric s = None \<and> check_scale s = None \<and> check_auto_clear s = None"
  by (cases "check_text s"; cases "check_platform s"; cases "check_category s"; cases "check_state_class s";
      cases "check_numeric s"; cases "check_scale s"; cases "check_auto_clear s"; auto simp: make_trait_def)

lemma make_trait_ok: "make_trait s = Inr s' \<Longrightarrow> s' = s \<and> spec_ok s"
  unfolding make_trait_Inr check_simps
  by (auto simp: spec_ok_def check_text_def check_auto_clear_def split: if_splits option.splits sum.splits)

text \<open>Why each check can fail.\<close>

definition spec_failure :: "spec_error \<Rightarrow> trait_spec \<Rightarrow> bool" where
  "spec_failure e s =
     (case e of
        Type_Error \<Rightarrow> \<not> can_hash (t_platform s) \<or> \<not> can_hash (t_entity_category s) \<or>
          is_finite (t_scale s) = Inl Type_Error \<or> is_finite (t_auto_clear s) = Inl Type_Error
      | Overflow_Error \<Rightarrow> is_finite (t_scale s) = Inl Overflow_Error \<or> is_finite (t_auto_clear s) = Inl Overflow_Error
      | Runtime_Error \<Rightarrow> \<not> spec_ok s \<or> check_text s \<noteq> None)"

lemma first_error_in: "first_error es = Some e \<Longrightarrow> Some e \<in> set es"
  by (induction es rule: first_error.induct) auto

lemma is_finite_errors: "is_finite v \<noteq> Inl Runtime_Error"
  by (cases v) auto

lemma check_failures:
  "check_text s = Some e \<Longrightarrow> spec_failure e s" "check_platform s = Some e \<Longrightarrow> spec_failure e s"
  "check_category s = Some e \<Longrightarrow> spec_failure e s" "check_state_class s = Some e \<Longrightarrow> spec_failure e s"
  "check_numeric s = Some e \<Longrightarrow> spec_failure e s" "check_scale s = Some e \<Longrightarrow> spec_failure e s"
  "check_auto_clear s = Some e \<Longrightarrow> spec_failure e s"
proof -
  show "check_text s = Some e \<Longrightarrow> spec_failure e s"
    by (auto simp: check_text_def spec_failure_def split: if_splits)
  show "check_platform s = Some e \<Longrightarrow> spec_failure e s"
    by (auto simp: check_platform_def spec_failure_def spec_ok_def split: if_splits)
  show "check_category s = Some e \<Longrightarrow> spec_failure e s"
    by (auto simp: check_category_def spec_failure_def spec_ok_def split: if_splits)
  show "check_state_class s = Some e \<Longrightarrow> spec_failure e s"
    by (auto simp: check_state_class_def spec_failure_def spec_ok_def split: if_splits)
  show "check_numeric s = Some e \<Longrightarrow> spec_failure e s"
    by (auto simp: check_numeric_def spec_failure_def spec_ok_def split: if_splits)
  show "check_scale s = Some e \<Longrightarrow> spec_failure e s"
    using is_finite_errors [of "t_scale s"]
    by (cases e) (auto simp: check_scale_def spec_failure_def spec_ok_def split: if_splits sum.splits)
  show "check_auto_clear s = Some e \<Longrightarrow> spec_failure e s"
    using is_finite_errors [of "t_auto_clear s"]
    by (cases e) (auto simp: check_auto_clear_def spec_failure_def spec_ok_def split: if_splits sum.splits option.splits)
qed

text \<open>
  C30 [trait_spec_checked]
  A trait specification that could be constructed keeps every promise the builders trust: a platform
  and category of the fixed lists, a state class on sensors only, scale, unit and precision on numeric
  platforms only, a scale that is finite and not zero, an auto-clear delay that is positive and on binary
  sensors only, and no control characters in its names; and a construction that fails raises the
  documented RuntimeError unless a value has the wrong type or is an integer no double can hold.
\<close>

theorem trait_spec_checked:
  "case make_trait s of
     Inr s' \<Rightarrow> s' = s \<and> spec_ok s
   | Inl Type_Error \<Rightarrow> \<not> can_hash (t_platform s) \<or> \<not> can_hash (t_entity_category s) \<or>
       is_finite (t_scale s) = Inl Type_Error \<or> is_finite (t_auto_clear s) = Inl Type_Error
   | Inl Overflow_Error \<Rightarrow> is_finite (t_scale s) = Inl Overflow_Error \<or> is_finite (t_auto_clear s) = Inl Overflow_Error
   | Inl Runtime_Error \<Rightarrow> \<not> spec_ok s \<or> check_text s \<noteq> None"
proof (cases "make_trait s")
  case (Inr s')
  then show ?thesis using make_trait_ok by auto
next
  case (Inl e)
  then have "Some e \<in> {check_text s, check_platform s, check_category s, check_state_class s, check_numeric s, check_scale s, check_auto_clear s}"
    by (auto simp: make_trait_def split: option.splits dest!: first_error_in)
  then have "spec_failure e s" by (auto dest!: sym [of "Some e"] intro: check_failures)
  then show ?thesis using Inl by (cases e) (auto simp: spec_failure_def)
qed

theorem trait_spec_checked_witness:
  "spec_ok ((new_trait ''2.1.1'' ''Power'')\<lparr>t_platform := JStr ''sensor'', t_state_class := JStr ''measurement''\<rparr>)"
proof -
  let ?s = "(new_trait ''2.1.1'' ''Power'')\<lparr>t_platform := JStr ''sensor'', t_state_class := JStr ''measurement''\<rparr>"
  have "check_text ?s = None" by (simp add: check_text_def new_trait_def has_control_char_def clean_text_def char_code_def)
  then have "make_trait ?s = Inr ?s"
    by (simp add: make_trait_def check_platform_def check_category_def check_state_class_def check_numeric_def check_scale_def
        check_auto_clear_def new_trait_def VALID_PLATFORMS_def VALID_ENTITY_CATEGORIES_def)
  then show ?thesis using trait_spec_checked [of ?s] by simp
qed

text \<open>
  Merging the overlay into the catalogue: at every wire path the overlay decides if it has an entry,
  its None removes the trait, and everything else is the catalogue's; the package overrides do the same and
  leave no overriding trait without a wire path.
\<close>

theorem override_on_top:
  assumes "dict_ok ov"
  shows "dget (merge_overlay_into_catalogue cat ov) wp =
      (case dget ov wp of None \<Rightarrow> dget cat wp | Some e \<Rightarrow> e) \<and>
    dget (apply_overrides cat ov) wp =
      (case dget ov wp of None \<Rightarrow> dget cat wp | Some e \<Rightarrow> map_option (with_wire_path wp) e)"
  unfolding merge_overlay_into_catalogue_def apply_overrides_def merge_entries [OF assms]
  by (auto split: option.splits)

theorem override_on_top_witness:
  "dget (merge_overlay_into_catalogue [(''2.1.1'', new_trait ''2.1.1'' ''A''), (''2.1.2'', new_trait ''2.1.2'' ''B'')]
      [(''2.1.1'', None), (''2.1.3'', Some (new_trait ''2.1.3'' ''C''))]) ''2.1.1'' = None"
  using override_on_top [of "[(''2.1.1'', None), (''2.1.3'', Some (new_trait ''2.1.3'' ''C''))]"
      "[(''2.1.1'', new_trait ''2.1.1'' ''A''), (''2.1.2'', new_trait ''2.1.2'' ''B'')]" "''2.1.1''"]
  by (simp add: dict_ok_def)

text \<open>
  The policy is consistent: every trait listed as diagnostic is classified so, no drop shadows it, and
  a trait forced to be read-only is one that is kept.
\<close>

theorem trait_policy_consistent:
  "list_all (\<lambda>(f, t). classify_trait f t = Diagnostic) DIAGNOSTIC_TRAITS \<and>
   list_all (\<lambda>(f, t). classify_trait f t \<noteq> Drop_Trait) (FORCE_READONLY_TRAITS @ FORCE_WRITABLE_TRAITS) \<and>
   list_all (\<lambda>(f, t). classify_trait f t = Drop_Trait) DROP_TRAITS"
  by code_simp

end
