(* ===== verification/Overlay.thy ===== *)
theory Overlay
  imports Traits
begin

text \<open>
  \<open>device/overlay.py\<close>: the per-install overlay of trait specifications, its rows in the store, and
  reading it back. Times are a type of their own with \<open>isoformat\<close>, \<open>fromisoformat\<close> (None: ValueError)
  and the present moment as parameters.
\<close>

section \<open>The overlay\<close>

record 't provenance =
  p_from :: string
  p_at :: 't

record 't overlay =
  ov_traits :: "(string, (string, trait_spec) dict) dict"
  ov_provenance :: "(string, (string, 't provenance) dict) dict"

definition empty_overlay :: "'t overlay" where
  "empty_overlay = \<lparr>ov_traits = [], ov_provenance = []\<rparr>"

definition entries :: "string \<Rightarrow> (string, (string, 'a) dict) dict \<Rightarrow> (string, 'a) dict" where
  "entries m d = (case dget d m of None \<Rightarrow> [] | Some e \<Rightarrow> e)"

definition traits_for_model :: "string \<Rightarrow> 't overlay \<Rightarrow> (string, trait_spec) dict" where
  "traits_for_model m ov = entries m (ov_traits ov)"

definition has_traits_for_model :: "string \<Rightarrow> 't overlay \<Rightarrow> bool" where
  "has_traits_for_model m ov = (traits_for_model m ov \<noteq> [])"

definition put :: "string \<Rightarrow> string \<Rightarrow> 'a \<Rightarrow> (string, (string, 'a) dict) dict \<Rightarrow> (string, (string, 'a) dict) dict" where
  "put m k v d = dset m (dset k v (entries m d)) d"

definition set_trait :: "string \<Rightarrow> string \<Rightarrow> trait_spec \<Rightarrow> string \<Rightarrow> 't \<Rightarrow> 't overlay \<Rightarrow> 't overlay" where
  "set_trait m pid s from tm ov =
     \<lparr>ov_traits = put m pid s (ov_traits ov), ov_provenance = put m pid \<lparr>p_from = from, p_at = tm\<rparr> (ov_provenance ov)\<rparr>"

section \<open>Rows\<close>

record 't time_lib =
  isoformat :: "'t \<Rightarrow> string"
  fromisoformat :: "string \<Rightarrow> 't option"
  moment :: 't

definition opt_field :: "string \<Rightarrow> json \<Rightarrow> (string \<times> json) list" where
  "opt_field k v = (if truthy v then [(k, v)] else [])"

definition wire_json :: "string option \<Rightarrow> json" where
  "wire_json w = (case w of None \<Rightarrow> JNull | Some p \<Rightarrow> JStr p)"

definition enum_json :: "(string, string) dict option \<Rightarrow> json" where
  "enum_json e = (case e of None \<Rightarrow> JNull | Some d \<Rightarrow> JObj (map (\<lambda>(k, v). (k, JStr v)) d))"

definition traitspec_to_row :: "'t time_lib \<Rightarrow> trait_spec \<Rightarrow> 't provenance option \<Rightarrow> (string \<times> json) list" where
  "traitspec_to_row L s prov =
     [(''name'', JStr (t_name s)), (''data_type'', JStr (t_data_type s)), (''readable'', JBool (t_readable s)),
      (''writable'', JBool (t_writable s))] @
     opt_field ''wire_path'' (wire_json (t_wire_path s)) @
     opt_field ''unit'' (t_unit s) @
     opt_field ''enum_values'' (enum_json (t_enum_values s)) @
     opt_field ''platform'' (t_platform s) @
     opt_field ''device_class'' (t_device_class s) @
     (if t_auto_clear s \<noteq> JNull then [(''auto_clear_seconds'', t_auto_clear s)] else []) @
     (case prov of None \<Rightarrow> []
      | Some p \<Rightarrow> [(''discovered_from'', JStr (p_from p)), (''discovered_at'', JStr (isoformat L (p_at p)))])"

definition overlay_payload :: "'t time_lib \<Rightarrow> 't overlay \<Rightarrow> json" where
  "overlay_payload L ov =
     JObj [(''version'', JInt 1),
       (''traits'', JObj (map (\<lambda>(m, ts). (m, JObj (map (\<lambda>(pid, s).
           (pid, JObj (traitspec_to_row L s (dget (entries m (ov_provenance ov)) pid)))) ts))) (ov_traits ov)))]"

text \<open>
  \<open>str(v)\<close>; the text of a float, a list or an object is outside the model. A row can fail with an
  exception that drops the row, with one that leaves the loader, or by leaving the model.
\<close>

datatype row_error = Row_Dropped | Row_Overflow | Row_Beyond

fun text_of :: "json \<Rightarrow> row_error + string" where
  "text_of (JStr s) = Inr s"
| "text_of (JInt i) = Inr (int_text i)"
| "text_of (JBool b) = Inr (if b then ''True'' else ''False'')"
| "text_of JNull = Inr ''None''"
| "text_of v = Inl Row_Beyond"

fun text_items :: "(string \<times> json) list \<Rightarrow> row_error + (string, string) dict" where
  "text_items [] = Inr []"
| "text_items ((k, v) # d) =
     (case text_of v of Inl e \<Rightarrow> Inl e | Inr s \<Rightarrow> (case text_items d of Inl e \<Rightarrow> Inl e | Inr r \<Rightarrow> Inr ((k, s) # r)))"

definition enum_field :: "json \<Rightarrow> row_error + (string, string) dict option" where
  "enum_field v = (case v of JObj d \<Rightarrow> (case text_items d of Inl e \<Rightarrow> Inl e | Inr r \<Rightarrow> Inr (Some r)) | _ \<Rightarrow> Inr None)"

definition wire_field :: "json \<Rightarrow> row_error + string option" where
  "wire_field v = (if truthy v then (case text_of v of Inl e \<Rightarrow> Inl e | Inr s \<Rightarrow> Inr (Some s)) else Inr None)"

definition row_to_traitspec :: "string \<Rightarrow> obj \<Rightarrow> row_error + trait_spec" where
  "row_to_traitspec pid row =
     (case enum_field (jget row ''enum_values'' JNull) of Inl e \<Rightarrow> Inl e
      | Inr en \<Rightarrow>
     (case text_of (jget row ''name'' (JStr [])) of Inl e \<Rightarrow> Inl e
      | Inr nm \<Rightarrow>
     (case wire_field (jget row ''wire_path'' JNull) of Inl e \<Rightarrow> Inl e
      | Inr wp \<Rightarrow>
     (case text_of (jget row ''data_type'' (JStr ''unknown'')) of Inl e \<Rightarrow> Inl e
      | Inr dt \<Rightarrow>
          (case make_trait ((new_trait pid nm)\<lparr>t_wire_path := wp, t_data_type := dt, t_unit := jget row ''unit'' JNull,
              t_readable := truthy (jget row ''readable'' (JBool True)), t_writable := truthy (jget row ''writable'' (JBool True)),
              t_enum_values := en, t_platform := jget row ''platform'' JNull, t_device_class := jget row ''device_class'' JNull,
              t_auto_clear := jget row ''auto_clear_seconds'' JNull\<rparr>) of
             Inr s \<Rightarrow> Inr s
           | Inl Overflow_Error \<Rightarrow> Inl Row_Overflow
           | Inl e \<Rightarrow> Inl Row_Dropped)))))"

text \<open>\<open>raw.replace(\"Z\", \"+00:00\")\<close>.\<close>

definition zulu :: "string \<Rightarrow> string" where
  "zulu s = concat (map (\<lambda>c. if c = CHR ''Z'' then ''+00:00'' else [c]) s)"

definition parse_timestamp :: "'t time_lib \<Rightarrow> json \<Rightarrow> 't" where
  "parse_timestamp L v =
     (case v of JStr s \<Rightarrow> (case fromisoformat L (zulu s) of Some t \<Rightarrow> t | None \<Rightarrow> moment L) | _ \<Rightarrow> moment L)"

section \<open>Loading\<close>

fun load_rows :: "'t time_lib \<Rightarrow> string \<Rightarrow> (string \<times> json) list \<Rightarrow> 't overlay \<Rightarrow> row_error + 't overlay" where
  "load_rows L m [] ov = Inr ov"
| "load_rows L m ((pid, JObj row) # rows) ov =
     (case row_to_traitspec pid row of
        Inl Row_Dropped \<Rightarrow> load_rows L m rows ov
      | Inl e \<Rightarrow> Inl e
      | Inr s \<Rightarrow>
          (case text_of (jget row ''discovered_from'' (JStr [])) of
             Inl e \<Rightarrow> Inl e
           | Inr from \<Rightarrow> load_rows L m rows (set_trait m pid s from (parse_timestamp L (jget row ''discovered_at'' JNull)) ov)))"
| "load_rows L m (_ # rows) ov = load_rows L m rows ov"

fun load_models :: "'t time_lib \<Rightarrow> (string \<times> json) list \<Rightarrow> 't overlay \<Rightarrow> row_error + 't overlay" where
  "load_models L [] ov = Inr ov"
| "load_models L ((m, JObj rows) # ms) ov =
     (case load_rows L m rows ov of Inl e \<Rightarrow> Inl e | Inr ov \<Rightarrow> load_models L ms ov)"
| "load_models L (_ # ms) ov = load_models L ms ov"

text \<open>What the store gives: an exception, or a value (null: no file).\<close>

datatype stored = Load_Failed | Stored json

definition overlay_load :: "'t time_lib \<Rightarrow> stored \<Rightarrow> row_error + 't overlay" where
  "overlay_load L st =
     (case st of
        Stored (JObj raw) \<Rightarrow>
          (case jget raw ''traits'' JNull of JObj ms \<Rightarrow> load_models L ms empty_overlay | _ \<Rightarrow> Inr empty_overlay)
      | _ \<Rightarrow> Inr empty_overlay)"

section \<open>What survives a restart\<close>

text \<open>The part of a specification that a row keeps.\<close>

definition or_none :: "json \<Rightarrow> json" where
  "or_none v = (if truthy v then v else JNull)"

definition stored_part :: "string \<Rightarrow> trait_spec \<Rightarrow> trait_spec" where
  "stored_part pid s = (new_trait pid (t_name s))\<lparr>
     t_wire_path := (case t_wire_path s of Some (c # cs) \<Rightarrow> Some (c # cs) | _ \<Rightarrow> None), t_data_type := t_data_type s, t_unit := or_none (t_unit s),
     t_readable := t_readable s, t_writable := t_writable s,
     t_enum_values := (case t_enum_values s of Some (e # es) \<Rightarrow> Some (e # es) | _ \<Rightarrow> None),
     t_platform := or_none (t_platform s), t_device_class := or_none (t_device_class s), t_auto_clear := t_auto_clear s\<rparr>"

lemma text_items_strings: "text_items (map (\<lambda>(k, v). (k, JStr v)) d) = Inr d"
  by (induction d) auto

lemma jget_append: "jget (a @ b) k d = (case dget a k of Some v \<Rightarrow> v | None \<Rightarrow> jget b k d)"
  by (simp add: jget_def map_add_def split: option.splits)

lemma dget_opt_field [simp]: "dget (opt_field k v) k' = (if k = k' \<and> truthy v then Some v else None)"
  by (simp add: opt_field_def)

lemma jget_opt [simp]:
  "jget (opt_field k v @ b) k' d = (if k = k' \<and> truthy v then v else jget b k' d)"
  by (simp add: jget_append)

lemma wire_json_field: "wire_field (wire_json w) = Inr (case w of Some (c # cs) \<Rightarrow> Some (c # cs) | _ \<Rightarrow> None)"
  by (auto simp: wire_json_def wire_field_def split: option.splits list.splits)

lemma enum_json_field: "enum_field (enum_json e) = Inr (case e of None \<Rightarrow> None | Some d \<Rightarrow> Some d)"
  by (simp add: enum_json_def enum_field_def text_items_strings split: option.splits)


lemma num_truthy: "num_value v = Some r \<Longrightarrow> 0 < r \<Longrightarrow> v \<noteq> JNull"
  by auto

lemma row_lookup:
  "jget (traitspec_to_row L s prov) ''name'' d = JStr (t_name s)" "jget (traitspec_to_row L s prov) ''data_type'' d = JStr (t_data_type s)"
    "jget (traitspec_to_row L s prov) ''readable'' d = JBool (t_readable s)" "jget (traitspec_to_row L s prov) ''writable'' d = JBool (t_writable s)"
    "jget (traitspec_to_row L s prov) ''wire_path'' JNull = or_none (wire_json (t_wire_path s))"
    "jget (traitspec_to_row L s prov) ''unit'' JNull = or_none (t_unit s)" "jget (traitspec_to_row L s prov) ''enum_values'' JNull = or_none (enum_json (t_enum_values s))"
    "jget (traitspec_to_row L s prov) ''platform'' JNull = or_none (t_platform s)" "jget (traitspec_to_row L s prov) ''device_class'' JNull = or_none (t_device_class s)"
    "jget (traitspec_to_row L s prov) ''auto_clear_seconds'' JNull = t_auto_clear s"
    "jget (traitspec_to_row L s prov) ''discovered_from'' (JStr []) = JStr (case prov of None \<Rightarrow> [] | Some p \<Rightarrow> p_from p)"
    "jget (traitspec_to_row L s prov) ''discovered_at'' JNull = (case prov of None \<Rightarrow> JNull | Some p \<Rightarrow> JStr (isoformat L (p_at p)))"
  by (auto simp: traitspec_to_row_def jget_def or_none_def map_add_def split: option.splits)

lemma wire_or_none: "wire_field (or_none (wire_json w)) = Inr (case w of Some (c # cs) \<Rightarrow> Some (c # cs) | _ \<Rightarrow> None)"
  by (auto simp: wire_json_def wire_field_def or_none_def split: option.splits list.splits)

lemma enum_or_none: "enum_field (or_none (enum_json e)) = Inr (case e of Some (x # xs) \<Rightarrow> Some (x # xs) | _ \<Rightarrow> None)"
  by (auto simp: enum_json_def enum_field_def or_none_def text_items_strings split: option.splits list.splits)

lemma or_none_simps [simp]: "or_none JNull = JNull" "or_none (JStr (c # cs)) = JStr (c # cs)"
  by (simp_all add: or_none_def)

lemma or_none_cases: "or_none v = v \<or> or_none v = JNull"
  by (simp add: or_none_def)

text \<open>The part of a valid specification is valid.\<close>

lemma stored_part_valid:
  assumes "make_trait s = Inr s"
  shows "make_trait (stored_part (t_id s) s) = Inr (stored_part (t_id s) s)"
proof -
  note m = assms [unfolded make_trait_Inr]
  let ?p = "stored_part (t_id s) s"
  have plat: "or_none (t_platform s) = t_platform s"
    using m check_simps(1) [of s] by (auto simp: VALID_PLATFORMS_def or_none_def)
  have pf: "t_platform ?p = t_platform s" "t_auto_clear ?p = t_auto_clear s"
    by (simp_all add: stored_part_def plat)
  have "check_text ?p = None"
    using m or_none_cases [of "t_unit s"] or_none_cases [of "t_device_class s"]
    by (auto simp: check_text_def stored_part_def new_trait_def has_control_char_def clean_text_def
        split: if_splits option.splits list.splits)
  moreover have "check_platform ?p = None" using m pf by (simp only: check_platform_def)
  moreover have "check_auto_clear ?p = None" using m pf by (simp only: check_auto_clear_def)
  moreover have "check_category ?p = None" "check_state_class ?p = None" "check_numeric ?p = None" "check_scale ?p = None"
    by (simp_all add: check_category_def check_state_class_def check_numeric_def check_scale_def stored_part_def new_trait_def
        VALID_ENTITY_CATEGORIES_def)
  ultimately show ?thesis by (simp add: make_trait_Inr)
qed

lemma row_round_trip:
  assumes "make_trait s = Inr s"
  shows "row_to_traitspec (t_id s) (traitspec_to_row L s prov) = Inr (stored_part (t_id s) s)"
  using stored_part_valid [OF assms]
  by (simp add: row_to_traitspec_def row_lookup enum_or_none wire_or_none stored_part_def cong: option.case_cong)

lemma stored_entry: "make_trait s = Inr s \<and> t_id s = i \<Longrightarrow> make_trait (stored_part i s) = Inr (stored_part i s)"
  "t_id (stored_part i s) = i"
  using stored_part_valid [of s] by (auto simp: stored_part_def new_trait_def)

text \<open>
  An overlay as the accept flow builds it: every specification valid and filed under its id, the two
  tables with the same models and keys, no model without entries.
\<close>

definition keyed_alike :: "(string, (string, 'a) dict) dict \<Rightarrow> (string, (string, 'b) dict) dict \<Rightarrow> bool" where
  "keyed_alike a b = (map (\<lambda>(m, d). (m, map fst d)) a = map (\<lambda>(m, d). (m, map fst d)) b)"

definition overlay_ok :: "'t overlay \<Rightarrow> bool" where
  "overlay_ok ov =
     (dict_ok (ov_traits ov) \<and> keyed_alike (ov_traits ov) (ov_provenance ov) \<and>
      (\<forall>(m, ts) \<in> set (ov_traits ov). ts \<noteq> [] \<and> dict_ok ts \<and> (\<forall>(pid, s) \<in> set ts. make_trait s = Inr s \<and> t_id s = pid)))"

definition times_ok :: "'t time_lib \<Rightarrow> bool" where
  "times_ok L = (\<forall>t. fromisoformat L (zulu (isoformat L t)) = Some t)"

definition kept :: "'t overlay \<Rightarrow> 't overlay" where
  "kept ov = ov\<lparr>ov_traits := map (\<lambda>(m, ts). (m, map (\<lambda>(pid, s). (pid, stored_part pid s)) ts)) (ov_traits ov)\<rparr>"

lemma put_fresh: "m \<notin> fst ` set d \<Longrightarrow> put m k v d = d @ [(m, [(k, v)])]"
  using map_of_eq_None_iff [of d m] by (simp add: put_def entries_def dset_append)

lemma dset_last: "m \<notin> fst ` set d \<Longrightarrow> dset m v (d @ [(m, w)]) = d @ [(m, v)]"
  by (induction d) auto

lemma put_last: "m \<notin> fst ` set d \<Longrightarrow> k \<notin> fst ` set e \<Longrightarrow> put m k v (d @ [(m, e)]) = d @ [(m, e @ [(k, v)])]"
  by (simp add: put_def entries_def map_add_def map_of_eq_None_iff [THEN iffD2] dset_last dset_append)

text \<open>Reading the rows of one model behind those read already.\<close>

lemma load_rows_tail:
  assumes "times_ok L" "m \<notin> fst ` set T" "m \<notin> fst ` set P"
  shows "distinct (map fst (ts0 @ ts)) \<Longrightarrow> map fst ts = map fst ps \<Longrightarrow> map fst ts0 = map fst ps0 \<Longrightarrow>
    \<forall>(pid, s) \<in> set ts. make_trait s = Inr s \<and> t_id s = pid \<Longrightarrow> \<forall>x \<in> set (zip ts ps). look (fst (fst x)) = Some (snd (snd x)) \<Longrightarrow>
    load_rows L m (map (\<lambda>(pid, s). (pid, JObj (traitspec_to_row L s (look pid)))) ts)
      \<lparr>ov_traits = T @ [(m, ts0)], ov_provenance = P @ [(m, ps0)]\<rparr> =
    Inr \<lparr>ov_traits = T @ [(m, ts0 @ map (\<lambda>(pid, s). (pid, stored_part pid s)) ts)], ov_provenance = P @ [(m, ps0 @ ps)]\<rparr>"
proof (induction ts arbitrary: ts0 ps0 ps)
  case Nil
  then show ?case by simp
next
  case (Cons x ts)
  obtain pid s where x: "x = (pid, s)" by force
  obtain p ps' where ps: "ps = (pid, p) # ps'" using Cons.prems(2) x by (cases ps) auto
  have v: "make_trait s = Inr s" "t_id s = pid" "look pid = Some p" using Cons.prems(4,5) x ps by auto
  have r: "row_to_traitspec pid (traitspec_to_row L s (Some p)) = Inr (stored_part pid s)"
    using row_round_trip [OF v(1)] v(2) by simp
  have tm: "parse_timestamp L (jget (traitspec_to_row L s (Some p)) ''discovered_at'' JNull) = p_at p"
    using assms(1) by (simp add: row_lookup parse_timestamp_def times_ok_def)
  have eta: "\<lparr>p_from = p_from p, p_at = p_at p\<rparr> = p" by (cases p) simp
  have fr: "pid \<notin> fst ` set ts0" "pid \<notin> fst ` set ps0"
    using Cons.prems(1) arg_cong [OF Cons.prems(3), of set] x by auto
  have first: "load_rows L m (map (\<lambda>(pid, s). (pid, JObj (traitspec_to_row L s (look pid)))) (x # ts))
      \<lparr>ov_traits = T @ [(m, ts0)], ov_provenance = P @ [(m, ps0)]\<rparr> =
    load_rows L m (map (\<lambda>(pid, s). (pid, JObj (traitspec_to_row L s (look pid)))) ts)
      \<lparr>ov_traits = T @ [(m, ts0 @ [(pid, stored_part pid s)])], ov_provenance = P @ [(m, ps0 @ [(pid, p)])]\<rparr>"
    using assms(2,3) fr by (simp add: x v(3) r row_lookup(11) tm set_trait_def put_last eta)
  have d: "distinct (map fst ((ts0 @ [(pid, stored_part pid s)]) @ ts))" using Cons.prems(1) x by simp
  have k: "map fst ts = map fst ps'" "map fst (ts0 @ [(pid, stored_part pid s)]) = map fst (ps0 @ [(pid, p)])"
    using Cons.prems(2,3) x ps by simp_all
  have a: "\<forall>(pid, s) \<in> set ts. make_trait s = Inr s \<and> t_id s = pid" using Cons.prems(4) by simp
  have l: "\<forall>x \<in> set (zip ts ps'). look (fst (fst x)) = Some (snd (snd x))" using Cons.prems(5) x ps by simp
  show ?case unfolding first Cons.IH [OF d k a l] by (simp add: x ps)
qed


text \<open>The first row of a model opens its tables.\<close>

lemma load_rows_model:
  assumes "times_ok L" "m \<notin> fst ` set T" "m \<notin> fst ` set P" "ts \<noteq> []" "dict_ok ts" "map fst ts = map fst ps"
    "\<forall>(pid, s) \<in> set ts. make_trait s = Inr s \<and> t_id s = pid"
  shows "load_rows L m (map (\<lambda>(pid, s). (pid, JObj (traitspec_to_row L s (dget ps pid)))) ts)
      \<lparr>ov_traits = T, ov_provenance = P\<rparr> =
    Inr \<lparr>ov_traits = T @ [(m, map (\<lambda>(pid, s). (pid, stored_part pid s)) ts)], ov_provenance = P @ [(m, ps)]\<rparr>"
proof -
  obtain x ts' where x: "ts = x # ts'" using assms(4) by (cases ts) auto
  obtain pid s where ps1: "x = (pid, s)" by force
  obtain p ps' where ps: "ps = (pid, p) # ps'" using assms(6) x ps1 by (cases ps) auto
  have v: "make_trait s = Inr s" "t_id s = pid" using assms(7) x ps1 by auto
  have r: "row_to_traitspec pid (traitspec_to_row L s (Some p)) = Inr (stored_part pid s)"
    using row_round_trip [OF v(1)] v(2) by simp
  have tm: "parse_timestamp L (jget (traitspec_to_row L s (Some p)) ''discovered_at'' JNull) = p_at p"
    using assms(1) by (simp add: row_lookup parse_timestamp_def times_ok_def)
  have eta: "\<lparr>p_from = p_from p, p_at = p_at p\<rparr> = p" by (cases p) simp
  let ?look = "dget ps"
  have dp: "dict_ok ps" using assms(5,6) by (simp add: dict_ok_def)
  have z: "\<forall>x \<in> set (zip ts' ps'). ?look (fst (fst x)) = Some (snd (snd x))"
  proof
    fix y assume y: "y \<in> set (zip ts' ps')"
    obtain a b c d where abcd: "y = ((a, b), (c, d))" by (metis prod.exhaust)
    obtain i where i: "i < length ts'" "i < length ps'" "ts' ! i = (a, b)" "ps' ! i = (c, d)"
      using y abcd by (auto simp: set_zip)
    have "map fst ts' = map fst ps'" using assms(6) x ps by simp
    then have "fst (ts' ! i) = fst (ps' ! i)" using i(1,2) by (metis nth_map)
    then have "c = a" using i(3,4) by simp
    moreover have "(c, d) \<in> set ps'" using i(2,4) by (metis nth_mem)
    ultimately show "?look (fst (fst y)) = Some (snd (snd y))"
      using dp abcd ps map_of_is_SomeI [of ps' a d] by (force simp: dict_ok_def)
  qed
  have first: "load_rows L m (map (\<lambda>(pid, s). (pid, JObj (traitspec_to_row L s (?look pid)))) ts) \<lparr>ov_traits = T, ov_provenance = P\<rparr> =
    load_rows L m (map (\<lambda>(pid, s). (pid, JObj (traitspec_to_row L s (?look pid)))) ts')
      \<lparr>ov_traits = T @ [(m, [(pid, stored_part pid s)])], ov_provenance = P @ [(m, [(pid, p)])]\<rparr>"
    using assms(2,3) by (simp add: x ps1 ps r row_lookup(11) tm set_trait_def put_fresh eta)
  have "distinct (map fst ([(pid, stored_part pid s)] @ ts'))" using assms(5) x ps1 by (simp add: dict_ok_def)
  from load_rows_tail [OF assms(1-3) this _ _ _ z, of "[(pid, p)]"] show ?thesis
    using first assms(6,7) x ps1 ps by simp
qed

lemma load_models_payload:
  "times_ok L \<Longrightarrow> dict_ok (T @ ms) \<Longrightarrow> keyed_alike ms ps \<Longrightarrow> map fst T = map fst P \<Longrightarrow>
   \<forall>(m, ts) \<in> set ms. ts \<noteq> [] \<and> dict_ok ts \<and> (\<forall>(pid, s) \<in> set ts. make_trait s = Inr s \<and> t_id s = pid) \<Longrightarrow>
   \<forall>(m, d) \<in> set ps. look m = d \<Longrightarrow>
   load_models L (map (\<lambda>(m, ts). (m, JObj (map (\<lambda>(pid, s). (pid, JObj (traitspec_to_row L s (dget (look m) pid)))) ts))) ms)
     \<lparr>ov_traits = T, ov_provenance = P\<rparr> =
   Inr \<lparr>ov_traits = T @ map (\<lambda>(m, ts). (m, map (\<lambda>(pid, s). (pid, stored_part pid s)) ts)) ms, ov_provenance = P @ ps\<rparr>"
proof (induction ms arbitrary: T P ps)
  case Nil
  then show ?case by (simp add: keyed_alike_def)
next
  case (Cons x ms)
  obtain m ts where x: "x = (m, ts)" by force
  obtain q ps' where ps: "ps = (m, q) # ps'" "map fst ts = map fst q" "keyed_alike ms ps'"
    using Cons.prems(3) x by (cases ps) (auto simp: keyed_alike_def)
  have fr: "m \<notin> fst ` set T" "m \<notin> fst ` set P"
    using Cons.prems(2) x arg_cong [OF Cons.prems(4), of set] by (auto simp: dict_ok_def)
  have q: "look m = q" using Cons.prems(6) ps by simp
  have t: "ts \<noteq> []" "dict_ok ts" "\<forall>(pid, s) \<in> set ts. make_trait s = Inr s \<and> t_id s = pid" using Cons.prems(5) x by auto
  note step = load_rows_model [OF Cons.prems(1) fr t(1,2) ps(2) t(3)]
  have "dict_ok ((T @ [(m, map (\<lambda>(pid, s). (pid, stored_part pid s)) ts)]) @ ms)"
    using Cons.prems(2) x by (simp add: dict_ok_def)
  from Cons.IH [OF Cons.prems(1) this ps(3), of "P @ [(m, q)]"] show ?case
    using step Cons.prems(4,5,6) x ps q by simp
qed

text \<open>
  C19 [overlay_restart]
  Writing the overlay and loading it again gives the same overlay, models, keys, order and provenance
  included, with each specification cut to what a row keeps, and no row is dropped. What is cut stays
  cut: loading a second time changes nothing more.
\<close>

theorem overlay_restart:
  assumes "overlay_ok ov" "times_ok L"
  shows "overlay_load L (Stored (overlay_payload L ov)) = Inr (kept ov) \<and> overlay_ok (kept ov) \<and> kept (kept ov) = kept ov"
proof -
  obtain T P where ov: "ov = \<lparr>ov_traits = T, ov_provenance = P\<rparr>" by (cases ov) auto
  note ok = assms(1) [unfolded ov overlay_ok_def, simplified]
  have "dict_ok P" using ok by (auto simp: dict_ok_def keyed_alike_def comp_def case_prod_unfold dest!: arg_cong [where f = "map fst"])
  then have look: "\<forall>(m, d) \<in> set P. entries m P = d" by (auto simp: entries_def dict_ok_def)
  have "overlay_load L (Stored (overlay_payload L ov)) = Inr (kept ov)"
    using load_models_payload [of L "[]" T P "[]" "\<lambda>m. entries m P"] assms(2) ok look
    by (simp add: overlay_load_def overlay_payload_def jget_def ov empty_overlay_def kept_def)
  moreover have "stored_part pid (stored_part pid s) = stored_part pid s" for pid s
    by (auto simp: stored_part_def new_trait_def or_none_def split: option.splits list.splits)
  then have "kept (kept ov) = kept ov" by (auto simp: kept_def ov)
  moreover have "make_trait (stored_part i s) = Inr (stored_part i s)" if "(m, ts) \<in> set T" "(i, s) \<in> set ts" for m ts i s
    by (rule stored_entry(1)) (use ok that in fastforce)
  then have "overlay_ok (kept ov)"
    using ok by (auto simp: overlay_ok_def kept_def ov keyed_alike_def dict_ok_def comp_def case_prod_unfold stored_entry(2))
  ultimately show ?thesis by simp
qed

theorem overlay_restart_witness:
  "overlay_load \<lparr>isoformat = (\<lambda>b. if b then ''1'' else ''0''), fromisoformat = (\<lambda>s. Some (s = ''1'')), moment = False\<rparr>
     (Stored (overlay_payload \<lparr>isoformat = (\<lambda>b. if b then ''1'' else ''0''), fromisoformat = (\<lambda>s. Some (s = ''1'')), moment = False\<rparr>
       (set_trait ''m'' ''2.1.1'' ((new_trait ''2.1.1'' ''Power'')\<lparr>t_endpoint := Some 2\<rparr>) ''did'' True empty_overlay))) =
   Inr (set_trait ''m'' ''2.1.1'' ((new_trait ''2.1.1'' ''Power'')\<lparr>t_sources := [''observed'']\<rparr>) ''did'' True empty_overlay)"
proof -
  let ?L = "\<lparr>isoformat = (\<lambda>b. if b then ''1'' else ''0''), fromisoformat = (\<lambda>s. Some (s = ''1'')), moment = False\<rparr> :: bool time_lib"
  let ?s = "(new_trait ''2.1.1'' ''Power'')\<lparr>t_endpoint := Some 2\<rparr>"
  let ?ov = "set_trait ''m'' ''2.1.1'' ?s ''did'' True empty_overlay"
  have "check_text ?s = None" by (simp add: check_text_def new_trait_def has_control_char_def clean_text_def char_code_def)
  then have "make_trait ?s = Inr ?s"
    by (simp add: make_trait_def check_platform_def check_category_def check_state_class_def check_numeric_def check_scale_def
        check_auto_clear_def new_trait_def VALID_PLATFORMS_def VALID_ENTITY_CATEGORIES_def)
  then have "overlay_ok ?ov"
    by (simp add: overlay_ok_def set_trait_def empty_overlay_def put_def entries_def keyed_alike_def dict_ok_def new_trait_def)
  moreover have "times_ok ?L" by (simp add: times_ok_def zulu_def)
  ultimately have "overlay_load ?L (Stored (overlay_payload ?L ?ov)) = Inr (kept ?ov)" using overlay_restart by blast
  then show ?thesis
    by (simp add: kept_def set_trait_def empty_overlay_def put_def entries_def stored_part_def new_trait_def or_none_def)
qed

end
