(* ===== verification/Descriptors.thy ===== *)
theory Descriptors
  imports Traits Ptz_Control
begin

text \<open>
  \<open>device/descriptors.py\<close>, \<open>device/units.py\<close>, \<open>device/device_class_map.py\<close>, the builders of
  \<open>device/device_types/\<close> and \<open>device/settings.py\<close> with \<open>build_setting_descriptors\<close>: the descriptor classes,
  one constructor each, and the composers that make descriptors out of the traits of an endpoint.
  A device class is its text. The fields \<open>transform_in\<close> and \<open>transform_out\<close> of numbers are set nowhere and
  left out; the one a sensor has is the dictionary it looks its value up in. Characters stop at 255, so the
  two one-glyph degree signs have no counterpart here, and a unit is null or a text.
\<close>

section \<open>Units and device classes\<close>

definition UNIT_ALIASES :: "(string, string) dict" where
  "UNIT_ALIASES =
     [(''lux'', ''lx''),
      (''ug/m'' @ [CHR 0xB3], [CHR 0xB5] @ ''g/m'' @ [CHR 0xB3]),
      (''W'' @ [CHR 0xB7] @ ''h'', ''Wh'')]"

definition normalize_unit :: "json \<Rightarrow> json" where
  "normalize_unit u =
     (if \<not> truthy u then u
      else case u of JStr s \<Rightarrow> (case dget UNIT_ALIASES s of Some t \<Rightarrow> JStr t | None \<Rightarrow> JStr s) | _ \<Rightarrow> u)"

lemma normalize_unit_twice [simp]: "normalize_unit (normalize_unit u) = normalize_unit u"
  by (cases u) (auto simp: normalize_unit_def UNIT_ALIASES_def)

definition AQARA_DEVICE_TYPE_TO_HA :: "(string, string \<times> string option) dict" where
  "AQARA_DEVICE_TYPE_TO_HA =
     [(''OccupancySensor'', (''binary_sensor'', Some ''occupancy'')), (''MotionSensor'', (''binary_sensor'', Some ''motion'')),
      (''TemperatureSensor'', (''sensor'', Some ''temperature'')), (''HumiditySensor'', (''sensor'', Some ''humidity'')),
      (''IlluminanceSensor'', (''sensor'', Some ''illuminance'')), (''VibrationSensor'', (''event'', None)),
      (''Button'', (''event'', None)), (''Light'', (''light'', None)), (''Camera'', (''camera'', None))]"

definition device_class_for :: "string \<Rightarrow> string \<Rightarrow> string option" where
  "device_class_for aqara_type master_kind =
     (case dget AQARA_DEVICE_TYPE_TO_HA aqara_type of
        None \<Rightarrow> None
      | Some (platform, device_class) \<Rightarrow> if master_kind \<noteq> platform then None else device_class)"

section \<open>Descriptor classes\<close>

datatype entity_category = CONFIG | DIAGNOSTIC

record entity_description =
  d_key :: string
  d_name :: string
  d_category :: "entity_category option"
  d_enabled :: bool
  d_device_class :: json
  d_icon :: json

record effect =
  ef_name :: string
  ef_seq_id :: "string option"
  ef_color_temp_kelvin :: "int option"
  ef_brightness_pct :: "int option"

record binary_sensor_descriptor = entity_description +
  b_trait :: trait_spec
  b_on_values :: "string list"
  b_on_any_value :: bool
  b_auto_clear :: json

record switch_descriptor = entity_description +
  sw_attr :: attr_spec
  sw_attr_write :: "attr_spec option"
  sw_on_value :: string
  sw_off_value :: string
  sw_optimistic :: bool

record select_descriptor = entity_description +
  sl_attr :: attr_spec
  sl_attr_write :: "attr_spec option"
  sl_options_map :: "(string \<times> string) list"
  sl_optimistic :: bool

record number_descriptor = entity_description +
  nu_attr :: attr_spec
  nu_attr_write :: "attr_spec option"
  nu_min :: rat
  nu_max :: rat
  nu_step :: rat
  nu_box :: bool
  nu_unit :: json
  nu_scale :: json
  nu_optimistic :: bool

record text_descriptor = entity_description +
  tx_attr :: attr_spec
  tx_attr_write :: "attr_spec option"
  tx_optimistic :: bool

text \<open>The options of a sensor: none, a tuple, or a list, which has no hash.\<close>

datatype sensor_options = No_Options | Tuple_Options "string list" | List_Options "string list"

record sensor_descriptor = entity_description +
  sn_attr :: "attr_spec option"
  sn_trait :: "trait_spec option"
  sn_labels :: "(string, string) dict option"
  sn_scale :: json
  sn_unit :: json
  sn_state_class :: json
  sn_precision :: json
  sn_options :: sensor_options

record event_descriptor = entity_description +
  ev_trigger_trait :: "trait_spec option"
  ev_trigger_source :: "string option"
  ev_types :: "string list"
  ev_payload_key :: "string option"
  ev_unknown_type :: "string option"

record light_descriptor = entity_description +
  li_power :: trait_spec
  li_power_attr :: attr_spec
  li_brightness :: "trait_spec option"
  li_brightness_attr :: "attr_spec option"
  li_color_temp :: "trait_spec option"
  li_color_temp_attr :: "attr_spec option"
  li_min_kelvin :: "int option"
  li_max_kelvin :: "int option"
  li_mired :: bool
  li_color_xy :: "trait_spec option"
  li_color_xy_attr :: "attr_spec option"
  li_effects :: "effect list"

record button_descriptor = entity_description +
  bt_attr :: attr_spec
  bt_press_value :: string

datatype descriptor =
    BinarySensorDescriptor binary_sensor_descriptor
  | ButtonDescriptor button_descriptor
  | SwitchDescriptor switch_descriptor
  | SelectDescriptor select_descriptor
  | NumberDescriptor number_descriptor
  | SensorDescriptor sensor_descriptor
  | TextDescriptor text_descriptor
  | EventDescriptor event_descriptor
  | LightDescriptor light_descriptor

definition options_dict :: "select_descriptor \<Rightarrow> (string, string) dict" where
  "options_dict d = fold (\<lambda>(l, w). dset l w) (sl_options_map d) []"

fun key_of :: "descriptor \<Rightarrow> string" where
  "key_of (BinarySensorDescriptor d) = d_key d"
| "key_of (ButtonDescriptor d) = d_key d"
| "key_of (SwitchDescriptor d) = d_key d"
| "key_of (SelectDescriptor d) = d_key d"
| "key_of (NumberDescriptor d) = d_key d"
| "key_of (SensorDescriptor d) = d_key d"
| "key_of (TextDescriptor d) = d_key d"
| "key_of (EventDescriptor d) = d_key d"
| "key_of (LightDescriptor d) = d_key d"

fun name_of :: "descriptor \<Rightarrow> string" where
  "name_of (BinarySensorDescriptor d) = d_name d"
| "name_of (ButtonDescriptor d) = d_name d"
| "name_of (SwitchDescriptor d) = d_name d"
| "name_of (SelectDescriptor d) = d_name d"
| "name_of (NumberDescriptor d) = d_name d"
| "name_of (SensorDescriptor d) = d_name d"
| "name_of (TextDescriptor d) = d_name d"
| "name_of (EventDescriptor d) = d_name d"
| "name_of (LightDescriptor d) = d_name d"

fun enabled_of :: "descriptor \<Rightarrow> bool" where
  "enabled_of (BinarySensorDescriptor d) = d_enabled d"
| "enabled_of (ButtonDescriptor d) = d_enabled d"
| "enabled_of (SwitchDescriptor d) = d_enabled d"
| "enabled_of (SelectDescriptor d) = d_enabled d"
| "enabled_of (NumberDescriptor d) = d_enabled d"
| "enabled_of (SensorDescriptor d) = d_enabled d"
| "enabled_of (TextDescriptor d) = d_enabled d"
| "enabled_of (EventDescriptor d) = d_enabled d"
| "enabled_of (LightDescriptor d) = d_enabled d"

text \<open>\<open>dataclasses.replace\<close> of the name, and of the name with the enabled flag.\<close>

fun with_name :: "string \<Rightarrow> descriptor \<Rightarrow> descriptor" where
  "with_name n (BinarySensorDescriptor d) = BinarySensorDescriptor (d\<lparr>d_name := n\<rparr>)"
| "with_name n (ButtonDescriptor d) = ButtonDescriptor (d\<lparr>d_name := n\<rparr>)"
| "with_name n (SwitchDescriptor d) = SwitchDescriptor (d\<lparr>d_name := n\<rparr>)"
| "with_name n (SelectDescriptor d) = SelectDescriptor (d\<lparr>d_name := n\<rparr>)"
| "with_name n (NumberDescriptor d) = NumberDescriptor (d\<lparr>d_name := n\<rparr>)"
| "with_name n (SensorDescriptor d) = SensorDescriptor (d\<lparr>d_name := n\<rparr>)"
| "with_name n (TextDescriptor d) = TextDescriptor (d\<lparr>d_name := n\<rparr>)"
| "with_name n (EventDescriptor d) = EventDescriptor (d\<lparr>d_name := n\<rparr>)"
| "with_name n (LightDescriptor d) = LightDescriptor (d\<lparr>d_name := n\<rparr>)"

fun disabled :: "descriptor \<Rightarrow> descriptor" where
  "disabled (BinarySensorDescriptor d) = BinarySensorDescriptor (d\<lparr>d_enabled := False\<rparr>)"
| "disabled (ButtonDescriptor d) = ButtonDescriptor (d\<lparr>d_enabled := False\<rparr>)"
| "disabled (SwitchDescriptor d) = SwitchDescriptor (d\<lparr>d_enabled := False\<rparr>)"
| "disabled (SelectDescriptor d) = SelectDescriptor (d\<lparr>d_enabled := False\<rparr>)"
| "disabled (NumberDescriptor d) = NumberDescriptor (d\<lparr>d_enabled := False\<rparr>)"
| "disabled (SensorDescriptor d) = SensorDescriptor (d\<lparr>d_enabled := False\<rparr>)"
| "disabled (TextDescriptor d) = TextDescriptor (d\<lparr>d_enabled := False\<rparr>)"
| "disabled (EventDescriptor d) = EventDescriptor (d\<lparr>d_enabled := False\<rparr>)"
| "disabled (LightDescriptor d) = LightDescriptor (d\<lparr>d_enabled := False\<rparr>)"

lemma replaced [simp]:
  "key_of (with_name n d) = key_of d" "name_of (with_name n d) = n" "enabled_of (with_name n d) = enabled_of d"
  "key_of (disabled d) = key_of d" "name_of (disabled d) = name_of d" "\<not> enabled_of (disabled d)"
  by (cases d; simp)+

text \<open>The fields every builder gives, and the defaults of the classes.\<close>

definition binary_sensor :: "string \<Rightarrow> string \<Rightarrow> entity_category option \<Rightarrow> bool \<Rightarrow> trait_spec \<Rightarrow> binary_sensor_descriptor" where
  "binary_sensor key nm ec en s =
     \<lparr>d_key = key, d_name = nm, d_category = ec, d_enabled = en, d_device_class = JNull, d_icon = JNull,
      b_trait = s, b_on_values = [''1''], b_on_any_value = False, b_auto_clear = JNull\<rparr>"

definition switch :: "string \<Rightarrow> string \<Rightarrow> entity_category option \<Rightarrow> bool \<Rightarrow> attr_spec \<Rightarrow> switch_descriptor" where
  "switch key nm ec en a =
     \<lparr>d_key = key, d_name = nm, d_category = ec, d_enabled = en, d_device_class = JNull, d_icon = JNull,
      sw_attr = a, sw_attr_write = None, sw_on_value = ''1'', sw_off_value = ''0'', sw_optimistic = False\<rparr>"

definition select :: "string \<Rightarrow> string \<Rightarrow> entity_category option \<Rightarrow> bool \<Rightarrow> attr_spec \<Rightarrow> (string \<times> string) list \<Rightarrow> select_descriptor" where
  "select key nm ec en a opts =
     \<lparr>d_key = key, d_name = nm, d_category = ec, d_enabled = en, d_device_class = JNull, d_icon = JNull,
      sl_attr = a, sl_attr_write = None, sl_options_map = opts, sl_optimistic = False\<rparr>"

definition number :: "string \<Rightarrow> string \<Rightarrow> entity_category option \<Rightarrow> bool \<Rightarrow> attr_spec \<Rightarrow> rat \<Rightarrow> rat \<Rightarrow> rat \<Rightarrow> json \<Rightarrow> number_descriptor" where
  "number key nm ec en a lo hi st unit =
     \<lparr>d_key = key, d_name = nm, d_category = ec, d_enabled = en, d_device_class = JNull, d_icon = JNull,
      nu_attr = a, nu_attr_write = None, nu_min = lo, nu_max = hi, nu_step = st, nu_box = False,
      nu_unit = normalize_unit unit, nu_scale = JNull, nu_optimistic = False\<rparr>"

definition text_input :: "string \<Rightarrow> string \<Rightarrow> entity_category option \<Rightarrow> bool \<Rightarrow> attr_spec \<Rightarrow> text_descriptor" where
  "text_input key nm ec en a =
     \<lparr>d_key = key, d_name = nm, d_category = ec, d_enabled = en, d_device_class = JNull, d_icon = JNull,
      tx_attr = a, tx_attr_write = None, tx_optimistic = False\<rparr>"

definition sensor :: "string \<Rightarrow> string \<Rightarrow> entity_category option \<Rightarrow> bool \<Rightarrow> trait_spec \<Rightarrow> json \<Rightarrow> sensor_descriptor" where
  "sensor key nm ec en s unit =
     \<lparr>d_key = key, d_name = nm, d_category = ec, d_enabled = en, d_device_class = JNull, d_icon = JNull,
      sn_attr = None, sn_trait = Some s, sn_labels = None, sn_scale = JNull, sn_unit = normalize_unit unit,
      sn_state_class = JNull, sn_precision = JNull, sn_options = No_Options\<rparr>"

definition event :: "string \<Rightarrow> string \<Rightarrow> entity_category option \<Rightarrow> bool \<Rightarrow> trait_spec \<Rightarrow> string list \<Rightarrow> event_descriptor" where
  "event key nm ec en s types =
     \<lparr>d_key = key, d_name = nm, d_category = ec, d_enabled = en, d_device_class = JNull, d_icon = JNull,
      ev_trigger_trait = Some s, ev_trigger_source = None, ev_types = types, ev_payload_key = None, ev_unknown_type = None\<rparr>"

definition button :: "string \<Rightarrow> string \<Rightarrow> entity_category option \<Rightarrow> bool \<Rightarrow> attr_spec \<Rightarrow> button_descriptor" where
  "button key nm ec en a =
     \<lparr>d_key = key, d_name = nm, d_category = ec, d_enabled = en, d_device_class = JNull, d_icon = JNull,
      bt_attr = a, bt_press_value = ''1''\<rparr>"

lemmas descriptor_defs = binary_sensor_def switch_def select_def number_def text_input_def sensor_def event_def button_def

section \<open>Helpers of the composers\<close>

definition auto_key :: "string \<Rightarrow> string" where
  "auto_key p = ''auto_'' @ map (\<lambda>c. if c = CHR ''.'' then CHR ''_'' else c) p"

abbreviation trait_key :: "trait_spec \<Rightarrow> string" where
  "trait_key s \<equiv> auto_key (t_id s)"

definition find_trait :: "(string, trait_spec) dict \<Rightarrow> string \<Rightarrow> string \<Rightarrow> trait_spec option" where
  "find_trait ts fc tc = find (\<lambda>s. t_function_code s = Some fc \<and> t_trait_code s = Some tc) (map snd ts)"

definition ec :: "trait_spec \<Rightarrow> entity_category option" where
  "ec s = (if t_entity_category s = JStr ''diagnostic'' then Some DIAGNOSTIC else None)"

definition PRECISION_BY_DEVICE_CLASS :: "(string, int) dict" where
  "PRECISION_BY_DEVICE_CLASS =
     [(''atmospheric_pressure'', 1), (''battery'', 0), (''carbon_dioxide'', 0), (''current'', 2), (''energy'', 3),
      (''humidity'', 1), (''illuminance'', 0), (''power'', 1), (''pressure'', 1), (''signal_strength'', 0),
      (''temperature'', 1), (''voltage'', 1), (''volatile_organic_compounds'', 0)]"

definition default_precision :: "json \<Rightarrow> string \<Rightarrow> json" where
  "default_precision dc dt =
     (case (case dc of JStr k \<Rightarrow> dget PRECISION_BY_DEVICE_CLASS k | _ \<Rightarrow> None) of
        Some n \<Rightarrow> JInt n
      | None \<Rightarrow> if dt = ''int'' then JInt 0 else JNull)"

definition enums :: "trait_spec \<Rightarrow> (string, string) dict" where
  "enums s = (case t_enum_values s of None \<Rightarrow> [] | Some d \<Rightarrow> d)"

definition labels :: "trait_spec \<Rightarrow> string list" where
  "labels s = map snd (enums s)"

definition DETECTOR_AUTO_CLEAR_SECONDS :: json where
  "DETECTOR_AUTO_CLEAR_SECONDS = JFloat ''60.0''"

definition or_rat :: "rat option \<Rightarrow> rat \<Rightarrow> rat" where
  "or_rat v d = (case v of None \<Rightarrow> d | Some r \<Rightarrow> if r = 0 then d else r)"

definition default_rat :: "rat option \<Rightarrow> rat \<Rightarrow> rat" where
  "default_rat v d = (case v of None \<Rightarrow> d | Some r \<Rightarrow> r)"

definition swap_pairs :: "(string, string) dict \<Rightarrow> (string \<times> string) list" where
  "swap_pairs d = map (\<lambda>(wire, label). (label, wire)) d"

definition or_text :: "string \<Rightarrow> string \<Rightarrow> string" where
  "or_text a b = (if a = [] then b else a)"

section \<open>One trait at a platform\<close>

definition wire_of :: "trait_spec \<Rightarrow> string" where
  "wire_of s = (case t_wire_path s of None \<Rightarrow> t_id s | Some w \<Rightarrow> or_text w (t_id s))"

definition build_descriptor :: "trait_spec \<Rightarrow> json \<Rightarrow> descriptor option" where
  "build_descriptor s p =
     (let key = auto_key (wire_of s); a = attr (wire_of s); nm = t_name s; c = ec s; en = t_default_enabled s;
          unit = py_or (t_unit_of_measurement s) (t_unit s)
      in if p = JStr ''sensor'' then
           if enums s \<noteq> [] then
             Some (SensorDescriptor ((sensor key nm c en s JNull)\<lparr>d_device_class := JStr ''enum'', sn_options := Tuple_Options (labels s),
               sn_labels := Some (enums s), d_icon := t_icon s\<rparr>))
           else
             Some (SensorDescriptor ((sensor key nm c en s unit)\<lparr>d_device_class := t_device_class s, sn_state_class := t_state_class s,
               sn_precision := (if t_precision s \<noteq> JNull then t_precision s else default_precision (t_device_class s) (t_data_type s)),
               sn_scale := t_scale s, d_icon := t_icon s\<rparr>))
         else if p = JStr ''binary_sensor'' then
           Some (BinarySensorDescriptor ((binary_sensor key nm c en s)\<lparr>d_device_class := t_device_class s, d_icon := t_icon s,
             b_auto_clear := t_auto_clear s\<rparr>))
         else if p = JStr ''event'' then
           Some (EventDescriptor ((event key nm c en s (if labels s = [] then [''triggered''] else labels s))
             \<lparr>d_device_class := t_device_class s, d_icon := t_icon s\<rparr>))
         else if p = JStr ''select'' then
           if enums s = [] then None
           else Some (SelectDescriptor ((select key nm c en a (swap_pairs (enums s)))\<lparr>d_icon := t_icon s\<rparr>))
         else if p = JStr ''number'' then
           Some (NumberDescriptor ((number key nm c en a (default_rat (t_min s) 0) (default_rat (t_max s) 100) (or_rat (t_step s) 1) unit)
             \<lparr>d_device_class := t_device_class s, nu_scale := t_scale s, d_icon := t_icon s\<rparr>))
         else if p = JStr ''switch'' then
           Some (SwitchDescriptor ((switch key nm c en a)\<lparr>d_device_class := t_device_class s, d_icon := t_icon s\<rparr>))
         else if p = JStr ''button'' then Some (ButtonDescriptor ((button key nm c en a)\<lparr>d_icon := t_icon s\<rparr>))
         else None)"

text \<open>What \<open>build_descriptor\<close> makes, by platform.\<close>

definition built_key :: "trait_spec \<Rightarrow> string" where
  "built_key s = auto_key (wire_of s)"

lemma build_descriptor_key: "build_descriptor s p = Some d \<Longrightarrow> key_of d = built_key s"
  by (auto simp: build_descriptor_def Let_def descriptor_defs built_key_def split: if_splits)

lemma build_descriptor_None:
  "build_descriptor s p = None \<longleftrightarrow> (p = JStr ''select'' \<and> enums s = []) \<or> p \<notin> JStr ` set VALID_PLATFORMS"
  by (auto simp: build_descriptor_def Let_def VALID_PLATFORMS_def split: if_splits)

section \<open>Settings\<close>

record setting_spec =
  st_rid :: string
  st_name :: string
  st_platform :: string
  st_resource_code :: "string option"
  st_enum_values :: "(string, string) dict option"
  st_min :: "rat option"
  st_max :: "rat option"
  st_unit :: json
  st_is_float :: bool
  st_press_value :: "string option"
  st_entity_category :: string
  st_default_enabled :: bool
  st_optimistic :: bool
  st_on_value :: string
  st_off_value :: string

definition WIDE_MIN :: rat where "WIDE_MIN = - 1000000"
definition WIDE_MAX :: rat where "WIDE_MAX = 1000000"

definition setting_category :: "string \<Rightarrow> entity_category option" where
  "setting_category c = (if c = ''diagnostic'' then Some DIAGNOSTIC else Some CONFIG)"

definition setting_attr :: "string \<Rightarrow> attr_spec" where
  "setting_attr rid = \<lparr>a_name = rid, a_id = [], a_resource_id = Some rid\<rparr>"

text \<open>One setting. None: an unknown platform, skipped with a warning.\<close>

definition setting_descriptor :: "string \<Rightarrow> setting_spec \<Rightarrow> descriptor option" where
  "setting_descriptor rid s =
     (let a = setting_attr rid; c = setting_category (st_entity_category s); nm = st_name s; en = st_default_enabled s
      in if st_platform s = ''switch'' then
           Some (SwitchDescriptor ((switch rid nm c en a)\<lparr>sw_on_value := st_on_value s, sw_off_value := st_off_value s,
             sw_optimistic := st_optimistic s\<rparr>))
         else if st_platform s = ''select'' then
           Some (SelectDescriptor ((select rid nm c en a (swap_pairs (case st_enum_values s of None \<Rightarrow> [] | Some d \<Rightarrow> d)))
             \<lparr>sl_optimistic := st_optimistic s\<rparr>))
         else if st_platform s = ''number'' then
           Some (NumberDescriptor ((number rid nm c en a (default_rat (st_min s) WIDE_MIN) (default_rat (st_max s) WIDE_MAX)
             (if st_is_float s then 1 / 100 else 1) (st_unit s))
             \<lparr>nu_box := (st_min s = None \<and> st_max s = None), nu_optimistic := st_optimistic s\<rparr>))
         else if st_platform s = ''text'' then Some (TextDescriptor ((text_input rid nm c en a)\<lparr>tx_optimistic := True\<rparr>))
         else if st_platform s = ''button'' then
           Some (ButtonDescriptor ((button rid nm c en a)\<lparr>bt_press_value :=
             (case st_press_value s of None \<Rightarrow> ''1'' | Some v \<Rightarrow> or_text v ''1'')\<rparr>))
         else None)"

definition build_setting_descriptors :: "(string, setting_spec) dict \<Rightarrow> descriptor list" where
  "build_setting_descriptors sts = List.map_filter (\<lambda>(rid, s). setting_descriptor rid s) sts"

lemma setting_descriptor_key: "setting_descriptor rid s = Some d \<Longrightarrow> key_of d = rid"
  by (auto simp: setting_descriptor_def Let_def descriptor_defs split: if_splits)

lemma keys_of_map_filter:
  "\<forall>(k, s) \<in> set xs. \<forall>d. f k s = Some d \<longrightarrow> key_of d = g k \<Longrightarrow>
   map key_of (List.map_filter (\<lambda>(k, s). f k s) xs) = map (\<lambda>(k, s). g k) (filter (\<lambda>(k, s). f k s \<noteq> None) xs)"
  by (induction xs) (auto simp: map_filter_simps)

lemma setting_keys: "map key_of (build_setting_descriptors sts) = map fst (filter (\<lambda>(rid, s). setting_descriptor rid s \<noteq> None) sts)"
proof -
  have "(\<lambda>(k :: string, s :: setting_spec). k) = fst" by auto
  then show ?thesis
    unfolding build_setting_descriptors_def
    using keys_of_map_filter [of sts setting_descriptor "\<lambda>k. k"] setting_descriptor_key by simp
qed

section \<open>Hashing\<close>

text \<open>
  A descriptor is the key of dictionaries, so \<open>hash(descriptor)\<close> is taken: of every field of the
  frozen dataclass. A trait hashes its fields, its enum dictionary as a tuple of pairs.
\<close>

definition trait_hashable :: "trait_spec \<Rightarrow> bool" where
  "trait_hashable s = list_all can_hash [t_unit s, t_platform s, t_entity_category s, t_device_class s, t_state_class s,
     t_unit_of_measurement s, t_scale s, t_precision s, t_icon s, t_auto_clear s]"

fun hashable :: "descriptor \<Rightarrow> bool" where
  "hashable (BinarySensorDescriptor d) = (can_hash (d_device_class d) \<and> can_hash (d_icon d) \<and> trait_hashable (b_trait d) \<and> can_hash (b_auto_clear d))"
| "hashable (ButtonDescriptor d) = (can_hash (d_device_class d) \<and> can_hash (d_icon d))"
| "hashable (SwitchDescriptor d) = (can_hash (d_device_class d) \<and> can_hash (d_icon d))"
| "hashable (SelectDescriptor d) = (can_hash (d_device_class d) \<and> can_hash (d_icon d))"
| "hashable (NumberDescriptor d) = (can_hash (d_device_class d) \<and> can_hash (d_icon d) \<and> can_hash (nu_unit d) \<and> can_hash (nu_scale d))"
| "hashable (SensorDescriptor d) =
     (can_hash (d_device_class d) \<and> can_hash (d_icon d) \<and> pred_option trait_hashable (sn_trait d) \<and>
      can_hash (sn_scale d) \<and> can_hash (sn_unit d) \<and> can_hash (sn_state_class d) \<and> can_hash (sn_precision d) \<and>
      (case sn_options d of List_Options _ \<Rightarrow> False | _ \<Rightarrow> True))"
| "hashable (TextDescriptor d) = (can_hash (d_device_class d) \<and> can_hash (d_icon d))"
| "hashable (EventDescriptor d) = (can_hash (d_device_class d) \<and> can_hash (d_icon d) \<and> pred_option trait_hashable (ev_trigger_trait d))"
| "hashable (LightDescriptor d) =
     (can_hash (d_device_class d) \<and> can_hash (d_icon d) \<and> trait_hashable (li_power d) \<and> pred_option trait_hashable (li_brightness d) \<and>
      pred_option trait_hashable (li_color_temp d) \<and> pred_option trait_hashable (li_color_xy d))"

section \<open>Wire paths of a descriptor\<close>

text \<open>\<open>_descriptor_wire_paths\<close> of \<open>device/base.py\<close>: the paths with the component of a light they feed.\<close>

definition trait_path :: "trait_spec option \<Rightarrow> string option \<Rightarrow> (string \<times> string option) list" where
  "trait_path t c = (case t of None \<Rightarrow> [] | Some s \<Rightarrow> if t_id s = [] then [] else [(t_id s, c)])"

definition attr_path :: "attr_spec \<Rightarrow> (string \<times> string option) list" where
  "attr_path a = (if a_name a = [] then [] else [(a_name a, None)])"

definition light_paths :: "light_descriptor \<Rightarrow> (string \<times> string option) list" where
  "light_paths d = trait_path (Some (li_power d)) (Some ''power'') @ trait_path (li_brightness d) (Some ''brightness'') @
     trait_path (li_color_temp d) (Some ''color_temp'') @ trait_path (li_color_xy d) (Some ''color_xy'')"

fun descriptor_wire_paths :: "descriptor \<Rightarrow> (string \<times> string option) list" where
  "descriptor_wire_paths (BinarySensorDescriptor d) = trait_path (Some (b_trait d)) None"
| "descriptor_wire_paths (SensorDescriptor d) =
     (if sn_trait d \<noteq> None then trait_path (sn_trait d) None else case sn_attr d of None \<Rightarrow> [] | Some a \<Rightarrow> attr_path a)"
| "descriptor_wire_paths (EventDescriptor d) = trait_path (ev_trigger_trait d) None"
| "descriptor_wire_paths (ButtonDescriptor d) = attr_path (bt_attr d)"
| "descriptor_wire_paths (SwitchDescriptor d) = attr_path (sw_attr d)"
| "descriptor_wire_paths (SelectDescriptor d) = attr_path (sl_attr d)"
| "descriptor_wire_paths (NumberDescriptor d) = attr_path (nu_attr d)"
| "descriptor_wire_paths (TextDescriptor d) = attr_path (tx_attr d)"
| "descriptor_wire_paths (LightDescriptor d) = light_paths d"

definition carries :: "descriptor \<Rightarrow> string \<Rightarrow> bool" where
  "carries d p = (p \<in> fst ` set (descriptor_wire_paths d))"

lemma carries_replaced [simp]: "carries (with_name n d) = carries d" "carries (disabled d) = carries d"
  by (cases d; simp add: carries_def light_paths_def fun_eq_iff)+

lemma hashable_replaced [simp]: "hashable (with_name n d) = hashable d" "hashable (disabled d) = hashable d"
  by (cases d; simp)+

text \<open>A trait filed under its own wire path, and the descriptors made of it.\<close>

definition own_path :: "string \<Rightarrow> trait_spec \<Rightarrow> bool" where
  "own_path wp s = (wp \<noteq> [] \<and> t_id s = wp \<and> t_wire_path s = Some wp)"

lemma own_path_wire: "own_path wp s \<Longrightarrow> wire_of s = wp \<and> built_key s = auto_key wp \<and> t_id s = wp"
  by (simp add: own_path_def wire_of_def or_text_def built_key_def)

lemma build_descriptor_carries: "own_path wp s \<Longrightarrow> build_descriptor s p = Some d \<Longrightarrow> carries d wp"
  by (auto simp: build_descriptor_def Let_def descriptor_defs carries_def own_path_wire trait_path_def attr_path_def attr_def
      dest: own_path_wire split: if_splits) (auto simp: own_path_def)

lemma build_descriptor_hashable: "trait_hashable s \<Longrightarrow> build_descriptor s p = Some d \<Longrightarrow> hashable d"
  by (auto simp: build_descriptor_def Let_def descriptor_defs trait_hashable_def default_precision_def py_or_def normalize_unit_def
      split: if_splits option.splits json.splits)

end
