(* ===== verification/Composers.thy ===== *)
theory Composers
  imports Descriptors
begin

text \<open>
  \<open>device/device_types/\<close>: the composers, one for each device type of an endpoint, and their table. A composer
  gets the traits of its endpoint in order; the endpoint's number and the model only reach log lines.
\<close>

type_synonym traits = "(string, trait_spec) dict"
type_synonym composer = "traits \<Rightarrow> descriptor list"

abbreviation is_trait :: "string \<Rightarrow> string \<Rightarrow> trait_spec \<Rightarrow> bool" where
  "is_trait fc tc s \<equiv> t_function_code s = Some fc \<and> t_trait_code s = Some tc"

section \<open>The fallback\<close>

definition fallback_platform :: "trait_spec \<Rightarrow> json" where
  "fallback_platform s =
     (if (case (t_function_code s, t_trait_code s) of (Some f, Some t) \<Rightarrow> dget BUTTON_TRAITS (f, t) \<noteq> None | _ \<Rightarrow> False) then JStr ''button''
      else if t_data_type s = ''bool'' then (if t_writable s then JStr ''switch'' else JStr ''binary_sensor'')
      else if t_data_type s \<in> {''int'', ''float''} then
        (if t_writable s \<and> t_min s \<noteq> None \<and> t_max s \<noteq> None then JStr ''number'' else JStr ''sensor'')
      else if t_data_type s = ''enum'' then (if t_writable s \<and> enums s \<noteq> [] then JStr ''select'' else JStr ''sensor'')
      else JStr ''sensor'')"

definition press_value_of :: "trait_spec \<Rightarrow> string option" where
  "press_value_of s = (case (t_function_code s, t_trait_code s) of (Some f, Some t) \<Rightarrow> dget BUTTON_TRAITS (f, t) | _ \<Rightarrow> None)"

definition descriptor_for_trait :: "trait_spec \<Rightarrow> descriptor option" where
  "descriptor_for_trait s =
     (case build_descriptor s (fallback_platform s) of
        Some (ButtonDescriptor d) \<Rightarrow> Some (ButtonDescriptor (case press_value_of s of Some v \<Rightarrow> d\<lparr>bt_press_value := v\<rparr> | None \<Rightarrow> d))
      | r \<Rightarrow> r)"

definition fallback_compose :: composer where
  "fallback_compose ts = List.map_filter (\<lambda>(wp, s). descriptor_for_trait s) ts"

section \<open>Composers that absorb single traits\<close>

text \<open>
  The loop the composers share: a trait the composer knows gives its descriptors at once, every other
  one goes to the fallback, whose descriptors come last.
\<close>

definition compose_with :: "(trait_spec \<Rightarrow> descriptor list option) \<Rightarrow> composer" where
  "compose_with absorb ts =
     concat (List.map_filter (\<lambda>(wp, s). absorb s) ts) @ fallback_compose (filter (\<lambda>(wp, s). absorb s = None) ts)"

definition make_single_trait_composer :: "string \<Rightarrow> string \<Rightarrow> (trait_spec \<Rightarrow> descriptor) \<Rightarrow> trait_spec \<Rightarrow> descriptor list option" where
  "make_single_trait_composer fc tc factory s = (if is_trait fc tc s then Some [factory s] else None)"

definition measurement_sensor :: "string \<Rightarrow> string \<Rightarrow> bool \<Rightarrow> trait_spec \<Rightarrow> descriptor" where
  "measurement_sensor dc default_unit use_spec_unit s =
     SensorDescriptor ((sensor (trait_key s) (t_name s) (ec s) (t_default_enabled s) s
         (if use_spec_unit then py_or (t_unit s) (JStr default_unit) else JStr default_unit))
       \<lparr>d_device_class := JStr dc, sn_state_class := JStr ''measurement'', sn_precision := default_precision (JStr dc) (t_data_type s)\<rparr>)"

definition degree_celsius :: string where
  "degree_celsius = [CHR 0xB0, CHR ''C'']"

definition temperature_sensor :: "trait_spec \<Rightarrow> descriptor list option" where
  "temperature_sensor = make_single_trait_composer ''Temperature'' ''CurrentTemperature'' (measurement_sensor ''temperature'' degree_celsius True)"

definition humidity_sensor :: "trait_spec \<Rightarrow> descriptor list option" where
  "humidity_sensor = make_single_trait_composer ''RelativeHumidity'' ''CurrentHumidity'' (measurement_sensor ''humidity'' ''%'' True)"

definition pressure_sensor :: "trait_spec \<Rightarrow> descriptor list option" where
  "pressure_sensor = make_single_trait_composer ''Pressure'' ''CurrentPressure'' (measurement_sensor ''pressure'' ''kPa'' True)"

definition illuminance_sensor :: "trait_spec \<Rightarrow> descriptor list option" where
  "illuminance_sensor = make_single_trait_composer ''Illuminance'' ''CurrentIlluminance'' (measurement_sensor ''illuminance'' ''lx'' False)"

text \<open>Descriptors with the key, name, category and default of their trait.\<close>

definition binary_for :: "string \<Rightarrow> string list \<Rightarrow> trait_spec \<Rightarrow> binary_sensor_descriptor" where
  "binary_for dc on s = (binary_sensor (trait_key s) (t_name s) (ec s) (t_default_enabled s) s)
     \<lparr>d_device_class := (if dc = [] then JNull else JStr dc), b_on_values := on\<rparr>"

definition event_for :: "string list \<Rightarrow> trait_spec \<Rightarrow> event_descriptor" where
  "event_for types s = event (trait_key s) (t_name s) (ec s) (t_default_enabled s) s types"

definition switch_for :: "trait_spec \<Rightarrow> descriptor" where
  "switch_for s = SwitchDescriptor (switch (trait_key s) (t_name s) (ec s) (t_default_enabled s) (attr (t_id s)))"

definition number_for :: "rat \<Rightarrow> rat \<Rightarrow> rat \<Rightarrow> json \<Rightarrow> trait_spec \<Rightarrow> number_descriptor" where
  "number_for lo hi st unit s = number (trait_key s) (t_name s) (ec s) (t_default_enabled s) (attr (t_id s))
     (default_rat (t_min s) lo) (default_rat (t_max s) hi) (or_rat (t_step s) st) unit"

definition sensor_for :: "json \<Rightarrow> trait_spec \<Rightarrow> sensor_descriptor" where
  "sensor_for unit s = sensor (trait_key s) (t_name s) (ec s) (t_default_enabled s) s unit"

definition labels_or :: "string list \<Rightarrow> trait_spec \<Rightarrow> string list" where
  "labels_or dflt s = (if enums s = [] then dflt else labels s)"

definition contact_sensor :: "trait_spec \<Rightarrow> descriptor list option" where
  "contact_sensor = make_single_trait_composer ''Contact'' ''ContactSensorState'' (\<lambda>s. BinarySensorDescriptor (binary_for ''opening'' [''0''] s))"

definition switch_composer :: "trait_spec \<Rightarrow> descriptor list option" where
  "switch_composer = make_single_trait_composer ''Output'' ''OnOff'' switch_for"

definition button_composer :: "trait_spec \<Rightarrow> descriptor list option" where
  "button_composer = make_single_trait_composer ''Button'' ''ButtonEvent'' (\<lambda>s. EventDescriptor (event_for (labels_or [''press''] s) s))"

definition occupancy_composer :: "string \<Rightarrow> string \<Rightarrow> json \<Rightarrow> trait_spec \<Rightarrow> descriptor list option" where
  "occupancy_composer dc nm clear s =
     (if is_trait ''OccupancySensing'' ''Occupancy'' s then
        Some [BinarySensorDescriptor ((binary_for dc [''1''] s)\<lparr>d_name := or_text nm (t_name s), b_auto_clear := clear\<rparr>)]
      else if is_trait ''OccupancySensing'' ''MotionDetected'' s then Some [BinarySensorDescriptor (binary_for ''motion'' [''1''] s)]
      else None)"

definition occupancy_sensor :: "trait_spec \<Rightarrow> descriptor list option" where
  "occupancy_sensor = occupancy_composer ''occupancy'' [] JNull"

definition motion_sensor :: "trait_spec \<Rightarrow> descriptor list option" where
  "motion_sensor = occupancy_composer ''motion'' ''Motion'' DETECTOR_AUTO_CLEAR_SECONDS"

definition DUAL_STATE_TRAITS :: "(string, string \<times> string \<times> string list) dict" where
  "DUAL_STATE_TRAITS = [(''LockState'', (''lock'', ''Lock'', [''0'', ''2''])), (''DoorState'', (''door'', ''Door'', [''0'', ''3'', ''5'']))]"

definition binary_key :: "trait_spec \<Rightarrow> string" where
  "binary_key s = trait_key s @ ''_binary''"

definition door_lock :: "trait_spec \<Rightarrow> descriptor list option" where
  "door_lock s =
     (if t_function_code s \<noteq> Some ''DoorLock'' then None
      else case t_trait_code s of None \<Rightarrow> None
        | Some tc \<Rightarrow>
            (case dget DUAL_STATE_TRAITS tc of
               Some (dc, nm, on) \<Rightarrow>
                 Some ((case build_descriptor s (JStr ''sensor'') of Some d \<Rightarrow> [d] | None \<Rightarrow> []) @
                   [BinarySensorDescriptor ((binary_for dc on s)\<lparr>d_key := binary_key s, d_name := nm\<rparr>)])
             | None \<Rightarrow>
                 if tc = ''StateOfLowBat'' then
                   Some [BinarySensorDescriptor ((binary_for ''battery'' [''1''] s)\<lparr>d_category := Some DIAGNOSTIC, d_enabled := False\<rparr>)]
                 else if tc = ''RemoteUnlock'' then Some [switch_for s] else None))"

definition TEMPERATURE_TRAITS :: "(string, rat \<times> rat) dict" where
  "TEMPERATURE_TRAITS = [(''HeatingTemperature'', (5, 35)), (''CoolingTemperature'', (5, 35)), (''AntiFreezeTemperature'', (5, 15))]"

definition thermostat :: "trait_spec \<Rightarrow> descriptor list option" where
  "thermostat s =
     (if t_function_code s \<noteq> Some ''HeaterCooler'' then None
      else if t_trait_code s = Some ''CurrentTemperature'' then
        Some [SensorDescriptor ((sensor_for (py_or (t_unit s) (JStr degree_celsius)) s)
          \<lparr>d_device_class := JStr ''temperature'', sn_state_class := JStr ''measurement''\<rparr>)]
      else if t_trait_code s = Some ''HeaterCoolerMode'' then
        Some [SelectDescriptor (select (trait_key s) (t_name s) (ec s) (t_default_enabled s) (attr (t_id s)) (swap_pairs (enums s)))]
      else if t_trait_code s = Some ''CurrentHumidity'' then
        Some [SensorDescriptor ((sensor_for (py_or (t_unit s) (JStr ''%'')) s)
          \<lparr>d_device_class := JStr ''humidity'', sn_state_class := JStr ''measurement''\<rparr>)]
      else (case (case t_trait_code s of None \<Rightarrow> None | Some tc \<Rightarrow> dget TEMPERATURE_TRAITS tc) of
              None \<Rightarrow> None
            | Some (lo, hi) \<Rightarrow>
                let d = (number_for lo hi (1 / 2) (py_or (t_unit s) (JStr degree_celsius)) s)\<lparr>d_device_class := JStr ''temperature''\<rparr>
                in Some [NumberDescriptor (if t_trait_code s = Some ''AntiFreezeTemperature'' then d\<lparr>d_category := Some CONFIG\<rparr> else d)]))"

text \<open>An enum sensor whose options are a list.\<close>

definition enum_list_sensor :: "trait_spec \<Rightarrow> descriptor" where
  "enum_list_sensor s = SensorDescriptor ((sensor_for JNull s)
     \<lparr>d_device_class := JStr ''enum'', sn_options := (if enums s = [] then No_Options else List_Options (labels s))\<rparr>)"

definition window_covering :: "trait_spec \<Rightarrow> descriptor list option" where
  "window_covering s =
     (if t_function_code s \<noteq> Some ''WindowCovering'' then None
      else if t_trait_code s = Some ''CurrentPositionPercentage'' then Some [SensorDescriptor (sensor_for (py_or (t_unit s) (JStr ''%'')) s)]
      else if t_trait_code s = Some ''TargetPositionPercentage'' then
        Some [NumberDescriptor (number_for 0 100 1 (py_or (t_unit s) (JStr ''%'')) s)]
      else if t_trait_code s = Some ''MotorOperationStatus'' then Some [enum_list_sensor s]
      else None)"

definition speaker :: "trait_spec \<Rightarrow> descriptor list option" where
  "speaker s =
     (if is_trait ''Speaker'' ''Volume'' s then Some [NumberDescriptor (number_for 0 100 1 JNull s)]
      else if is_trait ''Speaker'' ''Mute'' s then Some [switch_for s]
      else if is_trait ''MediaPlayback'' ''CurrentPlaybackState'' s then Some [enum_list_sensor s]
      else None)"

definition knob :: "trait_spec \<Rightarrow> descriptor list option" where
  "knob s = (if is_trait ''Knob'' ''RotationEvent'' s \<or> is_trait ''Button'' ''ButtonEvent'' s
     then Some [EventDescriptor (event_for (labels_or [''event''] s) s)] else None)"

definition ENERGY_TRAITS :: "(string, string \<times> string) dict" where
  "ENERGY_TRAITS = [(''CurrentVoltage'', (''voltage'', ''measurement'')), (''CurrentPower'', (''power'', ''measurement'')),
     (''CumulativeEnergyConsumption'', (''energy'', ''total_increasing''))]"

definition electrical_sensor :: "trait_spec \<Rightarrow> descriptor list option" where
  "electrical_sensor s =
     (if t_function_code s \<noteq> Some ''EnergyManagement'' then None
      else case (case t_trait_code s of None \<Rightarrow> None | Some tc \<Rightarrow> dget ENERGY_TRAITS tc) of
             None \<Rightarrow> None
           | Some (dc, sc) \<Rightarrow>
               Some [SensorDescriptor ((sensor_for (t_unit s) s)\<lparr>d_device_class := JStr dc, sn_state_class := JStr sc,
                 sn_precision := default_precision (JStr dc) (t_data_type s)\<rparr>)])"

definition cube :: "trait_spec \<Rightarrow> descriptor list option" where
  "cube s =
     (if t_function_code s \<noteq> Some ''Cube'' then None
      else if t_trait_code s \<in> {Some ''CubeEvent'', Some ''RotationEvent''} then Some [EventDescriptor (event_for (labels_or [] s) s)]
      else if t_trait_code s = Some ''RotationAngle'' then Some [SensorDescriptor (sensor_for (t_unit s) s)]
      else None)"

definition vibration_sensor :: "trait_spec \<Rightarrow> descriptor list option" where
  "vibration_sensor s =
     (if t_function_code s \<noteq> Some ''Vibration'' then None
      else if t_trait_code s = Some ''VibrationEvent'' then Some [EventDescriptor (event_for (labels_or [] s) s)]
      else if t_trait_code s = Some ''VibrationDuration'' then Some [SensorDescriptor (sensor_for (t_unit s) s)]
      else None)"

section \<open>Detectors of the cameras\<close>

definition make_recognition_composer :: "string \<Rightarrow> string \<Rightarrow> string \<Rightarrow> trait_spec \<Rightarrow> descriptor list option" where
  "make_recognition_composer fc tc dc s = (if is_trait fc tc s then
     Some [BinarySensorDescriptor ((binary_for dc [''1''] s)\<lparr>b_on_any_value := True, b_auto_clear := DETECTOR_AUTO_CLEAR_SECONDS\<rparr>)] else None)"

definition make_detection_composer :: "string \<Rightarrow> string \<Rightarrow> string \<Rightarrow> trait_spec \<Rightarrow> descriptor list option" where
  "make_detection_composer fc tc dc s = (if is_trait fc tc s then Some [BinarySensorDescriptor (binary_for dc [''1''] s)] else None)"

definition make_enum_event_composer :: "string \<Rightarrow> string \<Rightarrow> trait_spec \<Rightarrow> descriptor list option" where
  "make_enum_event_composer fc tc s = (if is_trait fc tc s then
     Some [EventDescriptor ((event_for (labels s @ [''Unknown'']) s)\<lparr>ev_unknown_type := Some ''Unknown'', ev_payload_key := Some ''code''\<rparr>)] else None)"

definition make_id_event_composer :: "string \<Rightarrow> string \<Rightarrow> string \<Rightarrow> trait_spec \<Rightarrow> descriptor list option" where
  "make_id_event_composer fc tc payload s = (if is_trait fc tc s then
     Some [EventDescriptor ((event_for [''Detected''] s)\<lparr>ev_payload_key := Some payload\<rparr>)] else None)"

section \<open>Light\<close>

definition LIGHT_ABSORBED :: "(string \<times> string) list" where
  "LIGHT_ABSORBED = [(''Output'', ''OnOff''), (''LevelControl'', ''CurrentLevel''), (''ColorControl'', ''ColorTemperature''),
     (''ColorControl'', ''ColorXY''), (''ColorControl'', ''CurrentX''), (''ColorControl'', ''CurrentY'')]"

definition light_absorbed :: "trait_spec \<Rightarrow> bool" where
  "light_absorbed s = (case (t_function_code s, t_trait_code s) of (Some f, Some t) \<Rightarrow> (f, t) \<in> set LIGHT_ABSORBED | _ \<Rightarrow> False)"

text \<open>\<open>round(1_000_000 / mired)\<close>; zero and None give no bound.\<close>

definition kelvin_of_mired :: "rat option \<Rightarrow> int option" where
  "kelvin_of_mired m = (case m of None \<Rightarrow> None | Some r \<Rightarrow> if r = 0 then None else Some (round_half_even (1000000 / r)))"

definition truncate_rat :: "rat \<Rightarrow> int" where
  "truncate_rat r = (if r < 0 then \<lceil>r\<rceil> else \<lfloor>r\<rfloor>)"

definition color_temp_bounds :: "trait_spec option \<Rightarrow> int option \<times> int option \<times> bool" where
  "color_temp_bounds t =
     (case t of
        None \<Rightarrow> (None, None, False)
      | Some s \<Rightarrow>
          if t_unit s \<in> JStr ` {[CHR 0xB0, CHR ''K''], ''K'', ''Kelvin'', ''kelvin''} then
            (map_option truncate_rat (t_min s), map_option truncate_rat (t_max s), False)
          else if t_unit s \<in> {JStr ''mired'', JStr ''mireds'', JNull} then (kelvin_of_mired (t_max s), kelvin_of_mired (t_min s), True)
          else (None, None, False))"

definition color_xy_trait :: "traits \<Rightarrow> trait_spec option" where
  "color_xy_trait ts =
     (case find_trait ts ''ColorControl'' ''ColorXY'' of
        Some s \<Rightarrow> Some s
      | None \<Rightarrow>
          (case (find_trait ts ''ColorControl'' ''CurrentX'', find_trait ts ''ColorControl'' ''CurrentY'') of
             (Some x, Some y) \<Rightarrow> Some x | _ \<Rightarrow> None))"

definition light_of :: "traits \<Rightarrow> trait_spec \<Rightarrow> descriptor" where
  "light_of ts on_off =
     (let level = find_trait ts ''LevelControl'' ''CurrentLevel''; color_temp = find_trait ts ''ColorControl'' ''ColorTemperature'';
          xy = color_xy_trait ts; (lo, hi, mired) = color_temp_bounds color_temp
      in LightDescriptor \<lparr>d_key = trait_key on_off, d_name = or_text (t_name on_off) ''Light'', d_category = ec on_off,
           d_enabled = t_default_enabled on_off, d_device_class = JNull, d_icon = JNull,
           li_power = on_off, li_power_attr = attr (t_id on_off),
           li_brightness = level, li_brightness_attr = map_option (\<lambda>s. attr (t_id s)) level,
           li_color_temp = color_temp, li_color_temp_attr = map_option (\<lambda>s. attr (t_id s)) color_temp,
           li_min_kelvin = lo, li_max_kelvin = hi, li_mired = mired,
           li_color_xy = xy, li_color_xy_attr = map_option (\<lambda>s. attr (t_id s)) xy, li_effects = []\<rparr>)"

definition light_compose :: composer where
  "light_compose ts =
     (case find_trait ts ''Output'' ''OnOff'' of None \<Rightarrow> [] | Some on_off \<Rightarrow> [light_of ts on_off]) @
     fallback_compose (filter (\<lambda>(wp, s). \<not> light_absorbed s) ts)"

section \<open>Doorbell\<close>

definition ring_trait :: "trait_spec \<Rightarrow> trait_spec" where
  "ring_trait s = s\<lparr>t_enum_values :=
     (case enums s of
        [] \<Rightarrow> None
      | (w, l) # rest \<Rightarrow> Some ((w, ''ring'') # rest))\<rparr>"

definition doorbell_event :: "trait_spec \<Rightarrow> descriptor" where
  "doorbell_event s = EventDescriptor ((event (trait_key s) (or_text (t_name s) ''Doorbell'') (ec s) (t_default_enabled s) (ring_trait s)
       (''ring'' # (case enums s of [] \<Rightarrow> [] | _ # rest \<Rightarrow> map snd rest)))\<lparr>d_device_class := JStr ''doorbell''\<rparr>)"

definition doorbell_compose :: composer where
  "doorbell_compose ts =
     (case find_trait ts ''Doorbell'' ''ButtonEvent'' of None \<Rightarrow> [] | Some s \<Rightarrow> [doorbell_event s]) @
     fallback_compose (filter (\<lambda>(wp, s). \<not> is_trait ''Doorbell'' ''ButtonEvent'' s) ts)"

section \<open>The table\<close>

definition COMPOSERS :: "(string, composer) dict" where
  "COMPOSERS =
     [(''Button'', compose_with button_composer),
      (''Camera'', fallback_compose),
      (''ContactSensor'', compose_with contact_sensor),
      (''Cube'', compose_with cube),
      (''DoorLock'', compose_with door_lock),
      (''Doorbell'', doorbell_compose),
      (''ElectricalSensor'', compose_with electrical_sensor),
      (''Hub'', fallback_compose),
      (''HumiditySensor'', compose_with humidity_sensor),
      (''IlluminanceSensor'', compose_with illuminance_sensor),
      (''Knob'', compose_with knob),
      (''Light'', light_compose),
      (''OccupancySensor'', compose_with occupancy_sensor),
      (''AtmosphericPressureSensor'', compose_with pressure_sensor),
      (''PressureSensor'', compose_with pressure_sensor),
      (''Public'', fallback_compose),
      (''Root'', fallback_compose),
      (''Speaker'', compose_with speaker),
      (''Switch'', compose_with switch_composer),
      (''Outlet'', compose_with switch_composer),
      (''TemperatureSensor'', compose_with temperature_sensor),
      (''Thermostat'', compose_with thermostat),
      (''VibrationSensor'', compose_with vibration_sensor),
      (''WindowCovering'', compose_with window_covering),
      (''AirConditioner'', compose_with thermostat),
      (''IRDevice'', fallback_compose),
      (''HumanDetector'', compose_with (make_recognition_composer ''HumanRecognition'' ''HumanRecognitionReport'' ''occupancy'')),
      (''FaceScanner'', compose_with (make_id_event_composer ''FaceRecognition'' ''FaceIDReport'' ''face_id'')),
      (''PetMonitor'', compose_with (make_enum_event_composer ''PetRecognition'' ''PetRecognitionReport'')),
      (''PackageDetector'', compose_with (make_detection_composer ''PackageRecognition'' ''PackageRecognitionReport'' [])),
      (''GestureSensor'', compose_with (make_enum_event_composer ''GestureRecognition'' ''GestureRecognitionReport'')),
      (''SmileDetector'', compose_with (make_recognition_composer ''SmileRecognition'' ''SmileRecognitionReport'' [])),
      (''VehicleDetector'', compose_with (make_enum_event_composer ''VehicleDetection'' ''VehicleDetected'')),
      (''SoundSensor'', compose_with (make_enum_event_composer ''SoundDetection'' ''AnomalySoundDetected'')),
      (''FireAlarm'', compose_with (make_enum_event_composer ''FlameDetection'' ''FlameDetected'')),
      (''MotionSensor'', compose_with motion_sensor),
      (''VideoDoorbell'', fallback_compose)]"

definition get_composer :: "string \<Rightarrow> composer" where
  "get_composer device_type = (case dget COMPOSERS device_type of Some c \<Rightarrow> c | None \<Rightarrow> fallback_compose)"

end
