(* ===== verification/Classify.thy ===== *)
theory Classify
  imports Composers
begin

text \<open>
  \<open>device/classify_v3.py\<close>, \<open>device/naming.py\<close> and \<open>build_descriptors\<close>: the traits of a model by endpoint,
  forced platforms, the composer of the endpoint's device type, and the names told apart.
\<close>

section \<open>Names\<close>

definition ZONE_ENDPOINT_BASE :: nat where "ZONE_ENDPOINT_BASE = 100"

text \<open>The endpoint in an \<open>auto_<ep>_...\<close> key.\<close>

definition endpoint_of :: "descriptor \<Rightarrow> nat option" where
  "endpoint_of d =
     (case split_on (CHR ''_'') (key_of d) of
        p # q # _ \<Rightarrow> if p = ''auto'' \<and> is_digits q then Some (text_nat q) else None
      | _ \<Rightarrow> None)"

definition in_zone :: "descriptor \<Rightarrow> bool" where
  "in_zone d = (case endpoint_of d of Some ep \<Rightarrow> ZONE_ENDPOINT_BASE \<le> ep | None \<Rightarrow> False)"

definition zone_name :: "string \<Rightarrow> nat \<Rightarrow> string" where
  "zone_name n z = n @ '' (zone '' @ nat_text z @ '')''"

definition index_name :: "string \<Rightarrow> nat \<Rightarrow> string" where
  "index_name n i = n @ '' '' @ nat_text i"

definition rename_zone :: "descriptor list \<Rightarrow> string \<Rightarrow> nat \<Rightarrow> descriptor list \<Rightarrow> descriptor list" where
  "rename_zone ds n i out = out[i := disabled (with_name (zone_name n (the (endpoint_of (ds ! i)) - ZONE_ENDPOINT_BASE)) (ds ! i))]"

definition rename_base :: "descriptor list \<Rightarrow> string \<Rightarrow> nat \<times> nat \<Rightarrow> descriptor list \<Rightarrow> descriptor list" where
  "rename_base ds n p out = out[snd p := with_name (index_name n (fst p)) (ds ! snd p)]"

text \<open>The names with the positions that carry them, and one group rewritten.\<close>

definition name_groups :: "descriptor list \<Rightarrow> (string, nat list) dict" where
  "name_groups ds = map (\<lambda>n. (n, filter (\<lambda>i. name_of (ds ! i) = n) [0..<length ds])) (remdups (map name_of ds))"

definition base_order :: "descriptor list \<Rightarrow> nat list \<Rightarrow> nat list" where
  "base_order ds is = sort_key (\<lambda>i. case endpoint_of (ds ! i) of Some ep \<Rightarrow> ep | None \<Rightarrow> 0) (filter (\<lambda>i. \<not> in_zone (ds ! i)) is)"

definition rename_group :: "descriptor list \<Rightarrow> string \<times> nat list \<Rightarrow> descriptor list \<Rightarrow> descriptor list" where
  "rename_group ds g out =
     (let n = fst g; is = snd g; base = base_order ds is
      in if length is < 2 then out
         else let out = fold (rename_zone ds n) (filter (\<lambda>i. in_zone (ds ! i)) is) out
              in if 1 < length base then fold (rename_base ds n) (zip [1..<Suc (length base)] base) out else out)"

definition disambiguate_names :: "descriptor list \<Rightarrow> descriptor list" where
  "disambiguate_names ds = fold (rename_group ds) (name_groups ds) ds"

section \<open>Classification\<close>

definition FUSED_DEVICE_TYPES :: "string list" where
  "FUSED_DEVICE_TYPES = [''Light'']"

definition select_composer :: "string option \<Rightarrow> composer" where
  "select_composer dt =
     (case dt of
        None \<Rightarrow> fallback_compose
      | Some t \<Rightarrow> if t = [] then fallback_compose else if dget COMPOSERS t = None then fallback_compose else get_composer t)"

definition forced_traits :: "traits \<Rightarrow> traits" where
  "forced_traits ts = filter (\<lambda>(wp, s). t_platform s \<noteq> JNull) ts"

definition apply_platform_overrides :: "traits \<Rightarrow> string option \<Rightarrow> descriptor list \<times> traits" where
  "apply_platform_overrides ts dt =
     (if (case dt of Some t \<Rightarrow> t \<in> set FUSED_DEVICE_TYPES | None \<Rightarrow> False) then ([], ts)
      else if forced_traits ts = [] then ([], ts)
      else (List.map_filter (\<lambda>(wp, s). build_descriptor s (t_platform s)) (forced_traits ts),
            filter (\<lambda>(wp, s). t_platform s = JNull) ts))"

definition trait_endpoint :: "trait_spec \<Rightarrow> int" where
  "trait_endpoint s = (case t_endpoint s of None \<Rightarrow> 0 | Some e \<Rightarrow> e)"

definition by_endpoint :: "traits \<Rightarrow> int \<Rightarrow> traits" where
  "by_endpoint ts ep = filter (\<lambda>(wp, s). trait_endpoint s = ep) ts"

text \<open>An endpoint of the catalog is its device type, if it has one.\<close>

type_synonym endpoints = "(int, string option) dict"

definition device_type :: "endpoints \<Rightarrow> int \<Rightarrow> string option" where
  "device_type eps ep = (case dget eps ep of Some (Some t) \<Rightarrow> Some t | _ \<Rightarrow> None)"

definition classify_endpoint :: "endpoints \<Rightarrow> traits \<Rightarrow> int set option \<Rightarrow> int \<Rightarrow> descriptor list" where
  "classify_endpoint eps ts active ep =
     (if (case active of Some A \<Rightarrow> ep \<notin> A | None \<Rightarrow> False) \<or> by_endpoint ts ep = [] then []
      else case apply_platform_overrides (by_endpoint ts ep) (device_type eps ep) of
             (forced, rest) \<Rightarrow> forced @ select_composer (device_type eps ep) rest)"

definition endpoint_ids :: "endpoints \<Rightarrow> traits \<Rightarrow> int list" where
  "endpoint_ids eps ts = sort (remdups (map (\<lambda>(wp, s). trait_endpoint s) ts @ map fst eps))"

definition classified :: "endpoints \<Rightarrow> traits \<Rightarrow> int set option \<Rightarrow> descriptor list" where
  "classified eps ts active = concat (map (classify_endpoint eps ts active) (endpoint_ids eps ts))"

definition classify_v3 :: "endpoints \<Rightarrow> traits \<Rightarrow> int set option \<Rightarrow> descriptor list" where
  "classify_v3 eps ts active = disambiguate_names (classified eps ts active)"

text \<open>What the catalog holds for a model, and the whole derive.\<close>

record model_data =
  m_endpoints :: endpoints
  m_traits :: traits
  m_settings :: "(string, setting_spec) dict"

definition build_descriptors :: "model_data \<Rightarrow> (string, trait_spec option) dict \<Rightarrow> descriptor list" where
  "build_descriptors m overlay =
     classify_v3 (m_endpoints m) (merge_overlay_into_catalogue (m_traits m) overlay) None @ build_setting_descriptors (m_settings m)"

section \<open>Renaming, position by position\<close>

definition group_of :: "descriptor list \<Rightarrow> nat \<Rightarrow> nat list" where
  "group_of ds i = filter (\<lambda>j. name_of (ds ! j) = name_of (ds ! i)) [0..<length ds]"

text \<open>The place of a position in the order of its group's low endpoints, from 1.\<close>

definition place :: "descriptor list \<Rightarrow> nat \<Rightarrow> nat" where
  "place ds i = Suc (length (takeWhile (\<lambda>j. j \<noteq> i) (base_order ds (group_of ds i))))"

definition renamed :: "descriptor list \<Rightarrow> nat \<Rightarrow> descriptor" where
  "renamed ds i =
     (let d = ds ! i; g = group_of ds i
      in if length g < 2 then d
         else if in_zone d then disabled (with_name (zone_name (name_of d) (the (endpoint_of d) - ZONE_ENDPOINT_BASE)) d)
         else if length (base_order ds g) < 2 then d
         else with_name (index_name (name_of d) (place ds i)) d)"

lemma fold_update:
  "distinct (map f ps) \<Longrightarrow> set (map f ps) \<subseteq> {..<length out} \<Longrightarrow>
   length (fold (\<lambda>p out. out[f p := v p]) ps out) = length out \<and>
   (\<forall>p \<in> set ps. fold (\<lambda>p out. out[f p := v p]) ps out ! f p = v p) \<and>
   (\<forall>i. i \<notin> f ` set ps \<longrightarrow> fold (\<lambda>p out. out[f p := v p]) ps out ! i = out ! i)"
proof (induction ps arbitrary: out)
  case (Cons p ps)
  let ?out = "out[f p := v p]"
  have d: "distinct (map f ps)" "f p \<notin> f ` set ps" "f p < length out" using Cons.prems by auto
  have "set (map f ps) \<subseteq> {..<length ?out}" using Cons.prems by auto
  from Cons.IH [OF d(1) this] d(2,3) show ?case by auto
qed simp

lemma fold_update_at:
  "distinct (map f ps) \<Longrightarrow> set (map f ps) \<subseteq> {..<length out} \<Longrightarrow> p \<in> set ps \<Longrightarrow> fold (\<lambda>p out. out[f p := v p]) ps out ! f p = v p"
  "distinct (map f ps) \<Longrightarrow> set (map f ps) \<subseteq> {..<length out} \<Longrightarrow> i \<notin> f ` set ps \<Longrightarrow> fold (\<lambda>p out. out[f p := v p]) ps out ! i = out ! i"
  "distinct (map f ps) \<Longrightarrow> set (map f ps) \<subseteq> {..<length out} \<Longrightarrow> length (fold (\<lambda>p out. out[f p := v p]) ps out) = length out"
  using fold_update [of f ps out v] by blast+

lemma set_base_order: "set (base_order ds is) = {i \<in> set is. \<not> in_zone (ds ! i)}"
  by (auto simp: base_order_def)

lemma distinct_base_order: "distinct is \<Longrightarrow> distinct (base_order ds is)"
  by (simp add: base_order_def)

lemma group_positions: "set (group_of ds i) = {j. j < length ds \<and> name_of (ds ! j) = name_of (ds ! i)}" "distinct (group_of ds i)"
  by (auto simp: group_of_def)

lemma nth_takeWhile_place:
  "distinct xs \<Longrightarrow> i < length xs \<Longrightarrow> length (takeWhile (\<lambda>j. j \<noteq> xs ! i) xs) = i"
  by (induction xs arbitrary: i) (auto simp: nth_Cons split: nat.splits)

lemma rename_group_result:
  assumes "is = filter (\<lambda>j. name_of (ds ! j) = n) [0..<length ds]" "length out = length ds" "\<forall>i \<in> set is. out ! i = ds ! i"
  shows "length (rename_group ds (n, is) out) = length ds \<and>
    (\<forall>i < length ds. rename_group ds (n, is) out ! i = (if name_of (ds ! i) = n then renamed ds i else out ! i))"
proof (cases "length is < 2")
  case True
  have "group_of ds i = is" if "name_of (ds ! i) = n" for i using that assms(1) by (simp add: group_of_def)
  then show ?thesis using True assms by (auto simp: rename_group_def renamed_def Let_def)
next
  case False
  let ?z = "filter (\<lambda>i. in_zone (ds ! i)) is" and ?b = "base_order ds is"
  let ?vz = "\<lambda>i. disabled (with_name (zone_name n (the (endpoint_of (ds ! i)) - ZONE_ENDPOINT_BASE)) (ds ! i))"
  let ?vb = "\<lambda>p. with_name (index_name n (fst p)) (ds ! snd p)"
  let ?ps = "zip [1..<Suc (length ?b)] ?b"
  have g: "group_of ds i = is" if "name_of (ds ! i) = n" for i using that assms(1) by (simp add: group_of_def)
  have isf: "distinct is" "set is = {j. j < length ds \<and> name_of (ds ! j) = n}" using assms(1) by auto
  have z: "distinct (map id ?z)" "set (map id ?z) \<subseteq> {..<length out}" using isf assms(2) by auto
  define o1 where "o1 = fold (rename_zone ds n) ?z out"
  have o1: "o1 = fold (\<lambda>i out. out[id i := ?vz i]) ?z out" unfolding o1_def by (rule fold_cong) (simp_all add: rename_zone_def fun_eq_iff)
  have l1: "length o1 = length ds" using fold_update_at(3) [OF z, of ?vz] assms(2) o1 by simp
  have at1: "o1 ! i = (if i \<in> set ?z then ?vz i else out ! i)" for i
    using fold_update_at(1) [OF z, of i ?vz] fold_update_at(2) [OF z, of i ?vz] o1 by (cases "i \<in> set ?z") (simp_all add: image_id)
  have b: "distinct ?b" "set ?b = {i \<in> set is. \<not> in_zone (ds ! i)}" using isf(1) by (simp_all add: distinct_base_order set_base_order)
  have ps: "map snd ?ps = ?b" by (rule map_snd_zip) (simp del: upt_Suc)
  then have ps2: "distinct (map snd ?ps)" using b(1) by simp
  have psb: "set (map snd ?ps) \<subseteq> {..<length o1}" unfolding ps using b(2) isf(2) l1 by auto
  define o2 where "o2 = fold (rename_base ds n) ?ps o1"
  have o2: "o2 = fold (\<lambda>p out. out[snd p := ?vb p]) ?ps o1" unfolding o2_def by (rule fold_cong) (simp_all add: rename_base_def fun_eq_iff)
  have l2: "length o2 = length ds" using fold_update_at(3) [OF ps2 psb, of ?vb] l1 o2 by simp
  have out2: "o2 ! i = o1 ! i" if "i \<notin> set ?b" for i
    using fold_update_at(2) [OF ps2 psb, of i ?vb] that o2 ps by (metis list.set_map)
  have in2: "o2 ! i = with_name (index_name n (place ds i)) (ds ! i)" if "i \<in> set ?b" "name_of (ds ! i) = n" for i
  proof -
    obtain k where k: "k < length ?b" "?b ! k = i" using \<open>i \<in> set ?b\<close> by (metis in_set_conv_nth)
    then have "(Suc k, i) \<in> set ?ps" unfolding set_zip by (intro CollectI exI [of _ k]) (simp del: upt_Suc)
    from fold_update_at(1) [OF ps2 psb this, of ?vb] have "o2 ! i = with_name (index_name n (Suc k)) (ds ! i)" using o2 by simp
    moreover have "place ds i = Suc k" using nth_takeWhile_place [OF b(1) k(1)] k(2) g [OF that(2)] by (simp add: place_def)
    ultimately show ?thesis by simp
  qed
  have final: "rename_group ds (n, is) out = (if 1 < length ?b then o2 else o1)"
    using False by (simp add: rename_group_def Let_def o1_def o2_def)
  have "rename_group ds (n, is) out ! i = (if name_of (ds ! i) = n then renamed ds i else out ! i)" if "i < length ds" for i
  proof (cases "name_of (ds ! i) = n")
    case True
    have i: "i \<in> set is" using isf(2) that True by simp
    have r: "renamed ds i = (if in_zone (ds ! i) then ?vz i else if length ?b < 2 then ds ! i else with_name (index_name n (place ds i)) (ds ! i))"
      using False True g [OF True] by (simp add: renamed_def Let_def)
    show ?thesis
    proof (cases "in_zone (ds ! i)")
      case True
      then have "i \<notin> set ?b" "i \<in> set ?z" using b(2) i by auto
      then show ?thesis using final out2 at1 r True \<open>name_of (ds ! i) = n\<close> by simp
    next
      case nz: False
      then have ib: "i \<in> set ?b" "i \<notin> set ?z" using b(2) i by auto
      have "o1 ! i = ds ! i" using at1 ib(2) assms(3) i by simp
      then show ?thesis using final in2 [OF ib(1) True] r nz True by simp
    qed
  next
    case nm: False
    then have i: "i \<notin> set is" using isf(2) by simp
    then have "i \<notin> set ?b" using b(2) by simp
    then show ?thesis using final out2 at1 nm i by simp
  qed
  then show ?thesis using final l1 l2 by simp
qed

lemma fold_groups:
  assumes "distinct ns" "length out = length ds" "\<forall>i < length ds. name_of (ds ! i) \<in> set ns \<longrightarrow> out ! i = ds ! i"
  defines "gs \<equiv> map (\<lambda>n. (n, filter (\<lambda>i. name_of (ds ! i) = n) [0..<length ds])) ns"
  shows "length (fold (rename_group ds) gs out) = length ds \<and>
    (\<forall>i < length ds. fold (rename_group ds) gs out ! i = (if name_of (ds ! i) \<in> set ns then renamed ds i else out ! i))"
  using assms(1-3) unfolding gs_def
proof (induction ns arbitrary: out)
  case (Cons n ns)
  let ?is = "filter (\<lambda>j. name_of (ds ! j) = n) [0..<length ds]"
  let ?o = "rename_group ds (n, ?is) out"
  have r: "length ?o = length ds" "\<And>i. i < length ds \<Longrightarrow> ?o ! i = (if name_of (ds ! i) = n then renamed ds i else out ! i)"
    using rename_group_result [of ?is ds n out] Cons.prems by auto
  have "\<forall>i < length ds. name_of (ds ! i) \<in> set ns \<longrightarrow> ?o ! i = ds ! i"
    using Cons.prems(1,3) r(2) by auto
  from Cons.IH [OF _ r(1) this] Cons.prems(1) r(2) show ?case by simp
qed simp

lemma disambiguate_nth:
  "length (disambiguate_names ds) = length ds" "i < length ds \<Longrightarrow> disambiguate_names ds ! i = renamed ds i"
  using fold_groups [of "remdups (map name_of ds)" ds ds] by (auto simp: disambiguate_names_def name_groups_def)

lemma renamed_keeps [simp]: "key_of (renamed ds i) = key_of (ds ! i)" "carries (renamed ds i) = carries (ds ! i)"
  "hashable (renamed ds i) = hashable (ds ! i)"
  by (simp_all add: renamed_def Let_def)

lemma disambiguate_keys [simp]: "map key_of (disambiguate_names ds) = map key_of ds"
  by (rule nth_equalityI) (simp_all add: disambiguate_nth)

lemma disambiguate_map: "(\<And>i. f (renamed ds i) = f (ds ! i)) \<Longrightarrow> map f (disambiguate_names ds) = map f ds"
  by (rule nth_equalityI) (simp_all add: disambiguate_nth)

end
