(* ===== verification/Derive.thy ===== *)
theory Derive
  imports Classify
begin

text \<open>
  What the derive of a device's descriptors guarantees: no trait is lost, keys are unique, names are told
  apart, and which descriptors have no hash.
\<close>

section \<open>Absorption\<close>

text \<open>
  Of a trait filed under its own path, a composer makes at least one descriptor; all carry that path and have
  the trait's key or the key with the suffix of the second descriptor of a lock.
\<close>

definition own_keys :: "string \<Rightarrow> string set" where
  "own_keys wp = {auto_key wp, auto_key wp @ ''_binary''}"

definition made_well :: "string \<Rightarrow> descriptor list \<Rightarrow> bool" where
  "made_well wp ds = (ds \<noteq> [] \<and> distinct (map key_of ds) \<and> (\<forall>d \<in> set ds. key_of d \<in> own_keys wp \<and> carries d wp))"

definition tame :: "(trait_spec \<Rightarrow> descriptor list option) \<Rightarrow> bool" where
  "tame absorb = (\<forall>wp s ds. own_path wp s \<longrightarrow> absorb s = Some ds \<longrightarrow> made_well wp ds)"

definition hash_tame :: "(trait_spec \<Rightarrow> descriptor list option) \<Rightarrow> bool" where
  "hash_tame absorb = (\<forall>s ds. trait_hashable s \<longrightarrow> absorb s = Some ds \<longrightarrow> (\<forall>d \<in> set ds. hashable d))"

named_theorems absorbing \<open>the absorption functions of the composers\<close>

lemmas [absorbing] = make_single_trait_composer_def measurement_sensor_def temperature_sensor_def humidity_sensor_def
  pressure_sensor_def illuminance_sensor_def contact_sensor_def switch_composer_def button_composer_def occupancy_composer_def
  occupancy_sensor_def motion_sensor_def thermostat_def window_covering_def speaker_def knob_def electrical_sensor_def cube_def
  vibration_sensor_def make_recognition_composer_def make_detection_composer_def make_enum_event_composer_def
  make_id_event_composer_def binary_for_def event_for_def switch_for_def number_for_def sensor_for_def enum_list_sensor_def

lemma own_path_facts: "own_path wp s \<Longrightarrow> t_id s = wp" "own_path wp s \<Longrightarrow> wp \<noteq> []"
  by (simp_all add: own_path_def)

lemma made_well_one: "key_of d = auto_key wp \<Longrightarrow> carries d wp \<Longrightarrow> made_well wp [d]"
  by (simp add: made_well_def own_keys_def)

lemma tame_one: "(\<And>wp s ds. own_path wp s \<Longrightarrow> absorb s = Some ds \<Longrightarrow> \<exists>d. ds = [d] \<and> key_of d = auto_key wp \<and> carries d wp) \<Longrightarrow> tame absorb"
  unfolding tame_def using made_well_one by blast

lemmas carrying = carries_def trait_path_def attr_path_def attr_def descriptor_defs own_path_facts

lemma tame_simple:
  "tame temperature_sensor" "tame humidity_sensor" "tame pressure_sensor" "tame illuminance_sensor" "tame contact_sensor"
  "tame switch_composer" "tame button_composer" "tame occupancy_sensor" "tame motion_sensor" "tame window_covering" "tame speaker"
  "tame knob" "tame cube" "tame vibration_sensor" "tame (make_recognition_composer fc tc dc)" "tame (make_detection_composer fc tc dc)"
  "tame (make_enum_event_composer fc tc)" "tame (make_id_event_composer fc tc pk)"
  by (rule tame_one; auto simp: absorbing carrying split: if_splits)+

lemma tame_thermostat: "tame thermostat"
  by (rule tame_one) (auto simp: absorbing carrying Let_def split: if_splits option.splits)

lemma tame_electrical: "tame electrical_sensor"
  by (rule tame_one) (auto simp: absorbing carrying split: if_splits option.splits)

lemma tame_door_lock: "tame door_lock"
proof (unfold tame_def, intro allI impI)
  fix wp s ds assume o: "own_path wp s" and a: "door_lock s = Some ds"
  obtain e where e: "build_descriptor s (JStr ''sensor'') = Some e"
    using build_descriptor_None [of s "JStr ''sensor''"] by (auto simp: VALID_PLATFORMS_def)
  have k: "key_of e = auto_key wp" "carries e wp"
    using build_descriptor_key [OF e] build_descriptor_carries [OF o e] own_path_wire [OF o] by simp_all
  show "made_well wp ds"
    using a k own_path_facts [OF o]
    by (auto simp: door_lock_def e absorbing carrying binary_key_def made_well_def own_keys_def DUAL_STATE_TRAITS_def
        split: if_splits option.splits) force+
qed

lemma can_hash_simps [simp]: "can_hash (py_or a (JStr s)) = (can_hash a \<or> \<not> truthy a)" "can_hash (normalize_unit u) = can_hash u"
  "can_hash (default_precision a b)" "can_hash DETECTOR_AUTO_CLEAR_SECONDS"
  by (cases u; auto simp: py_or_def normalize_unit_def default_precision_def DETECTOR_AUTO_CLEAR_SECONDS_def split: option.splits)+

lemma hash_tame_all:
  "hash_tame temperature_sensor" "hash_tame humidity_sensor" "hash_tame pressure_sensor" "hash_tame illuminance_sensor" "hash_tame contact_sensor"
  "hash_tame switch_composer" "hash_tame button_composer" "hash_tame occupancy_sensor" "hash_tame motion_sensor"
  "hash_tame knob" "hash_tame cube" "hash_tame vibration_sensor" "hash_tame (make_recognition_composer fc tc dc)"
  "hash_tame (make_detection_composer fc tc dc)" "hash_tame (make_enum_event_composer fc tc)" "hash_tame (make_id_event_composer fc tc pk)"
  by (auto simp: hash_tame_def absorbing descriptor_defs trait_hashable_def split: if_splits)

lemma hash_tame_thermostat: "hash_tame thermostat"
  by (auto simp: hash_tame_def absorbing descriptor_defs trait_hashable_def Let_def split: if_splits option.splits)

lemma hash_tame_electrical: "hash_tame electrical_sensor"
  by (auto simp: hash_tame_def absorbing descriptor_defs trait_hashable_def split: if_splits option.splits)

lemma hash_tame_door_lock: "hash_tame door_lock"
  using build_descriptor_hashable
  by (fastforce simp: hash_tame_def door_lock_def absorbing descriptor_defs DUAL_STATE_TRAITS_def trait_hashable_def split: if_splits option.splits)


section \<open>What a composer makes of an endpoint\<close>

definition filed :: "traits \<Rightarrow> bool" where
  "filed ts = (dict_ok ts \<and> (\<forall>(wp, s) \<in> set ts. own_path wp s \<and> set wp \<subseteq> insert (CHR ''.'') {c. ascii_digit c}))"

lemma filed_filter: "filed ts \<Longrightarrow> filed (filter P ts)"
  by (auto simp: filed_def dict_ok_def distinct_map intro: inj_on_subset)

text \<open>Keys of different paths differ, with the suffix or without.\<close>

lemma underscore_no_digit: "\<not> ascii_digit (CHR ''_'')"
  by (simp add: ascii_digit_def char_code_def)

lemma auto_key_inj:
  assumes "set a \<subseteq> insert (CHR ''.'') {c. ascii_digit c}" "set b \<subseteq> insert (CHR ''.'') {c. ascii_digit c}" "auto_key a = auto_key b"
  shows "a = b"
proof -
  let ?f = "\<lambda>c. if c = CHR ''.'' then CHR ''_'' else c"
  have "inj_on ?f (insert (CHR ''.'') {c. ascii_digit c})"
    using underscore_no_digit by (intro inj_onI) (metis insertE mem_Collect_eq)
  then have "inj_on ?f (set a \<union> set b)" by (rule inj_on_subset) (use assms(1,2) in blast)
  moreover have "map ?f a = map ?f b" using assms(3) by (simp add: auto_key_def)
  ultimately show ?thesis using map_inj_on by blast
qed

lemma auto_key_suffix:
  assumes "set b \<subseteq> insert (CHR ''.'') {c. ascii_digit c}"
  shows "auto_key a @ ''_binary'' \<noteq> auto_key b"
proof
  assume "auto_key a @ ''_binary'' = auto_key b"
  then have "CHR ''y'' \<in> set (auto_key b)" by (metis (no_types) UnCI list.set_intros last_in_set last_appendR last.simps set_append list.distinct(1))
  then show False using assms by (auto simp: auto_key_def ascii_digit_def char_code_def split: if_splits)
qed

lemma own_keys_disjoint:
  assumes "set a \<subseteq> insert (CHR ''.'') {c. ascii_digit c}" "set b \<subseteq> insert (CHR ''.'') {c. ascii_digit c}" "a \<noteq> b"
  shows "own_keys a \<inter> own_keys b = {}"
  using auto_key_inj [OF assms(1,2)] auto_key_suffix [OF assms(1)] auto_key_suffix [OF assms(2)] assms(3)
  by (auto simp: own_keys_def) metis

text \<open>Descriptors whose keys are different and come from the traits given.\<close>

definition keyed_by :: "traits \<Rightarrow> descriptor list \<Rightarrow> bool" where
  "keyed_by ts ds = (distinct (map key_of ds) \<and> (\<forall>d \<in> set ds. \<exists>(wp, s) \<in> set ts. key_of d \<in> own_keys wp))"

lemma keyed_by_mono: "keyed_by ts ds \<Longrightarrow> set ts \<subseteq> set ts' \<Longrightarrow> keyed_by ts' ds"
  by (fastforce simp: keyed_by_def)

lemma keyed_by_append:
  assumes "filed ts" "keyed_by (filter P ts) ds" "keyed_by (filter (\<lambda>x. \<not> P x) ts) es"
  shows "keyed_by ts (ds @ es)"
proof -
  have ne: "key_of d \<noteq> key_of e" if d: "d \<in> set ds" and e: "e \<in> set es" for d e
  proof -
    obtain a s b t where k: "(a, s) \<in> set ts" "P (a, s)" "key_of d \<in> own_keys a" "(b, t) \<in> set ts" "\<not> P (b, t)" "key_of e \<in> own_keys b"
      using assms(2,3) d e unfolding keyed_by_def by fastforce
    have "a \<noteq> b" using assms(1) k by (auto simp: filed_def dict_ok_def dest: eq_key_imp_eq_value)
    moreover have "set a \<subseteq> insert (CHR ''.'') {c. ascii_digit c}" "set b \<subseteq> insert (CHR ''.'') {c. ascii_digit c}"
      using assms(1) k(1,4) unfolding filed_def by blast+
    ultimately show ?thesis using own_keys_disjoint [of a b] k(3,6) by auto
  qed
  have "distinct (map key_of (ds @ es))" using assms(2,3) ne by (auto simp: keyed_by_def)
  moreover have "\<exists>(wp, s) \<in> set ts. key_of d \<in> own_keys wp" if "d \<in> set (ds @ es)" for d
    using assms(2,3) that unfolding keyed_by_def by fastforce
  ultimately show ?thesis by (simp add: keyed_by_def)
qed

lemma keyed_by_Cons:
  assumes "filed ((wp, s) # ts)" "made_well wp ds" "keyed_by ts es"
  shows "keyed_by ((wp, s) # ts) (ds @ es)"
proof -
  let ?P = "\<lambda>x. x = (wp, s)"
  have n: "(wp, s) \<notin> set ts" using assms(1) by (force simp: filed_def dict_ok_def)
  then have "filter (\<lambda>x. \<not> ?P x) ((wp, s) # ts) = ts" by (auto intro: filter_True)
  moreover have "keyed_by (filter ?P ((wp, s) # ts)) ds" using assms(2) by (auto simp: keyed_by_def made_well_def)
  ultimately show ?thesis using keyed_by_append [OF assms(1), of ?P ds es] assms(3) by simp
qed

lemma filed_Cons: "filed ((wp, s) # ts) \<Longrightarrow> filed ts \<and> own_path wp s"
  by (auto simp: filed_def dict_ok_def)

lemma keyed_absorbed:
  assumes "tame absorb"
  shows "filed ts \<Longrightarrow> keyed_by (filter (\<lambda>(wp, s). absorb s \<noteq> None) ts) (concat (List.map_filter (\<lambda>(wp, s). absorb s) ts))"
proof (induction ts)
  case Nil
  then show ?case by (simp add: keyed_by_def map_filter_simps)
next
  case (Cons x ts)
  obtain wp s where x: "x = (wp, s)" by force
  note f = filed_Cons [OF Cons.prems [unfolded x]]
  show ?case
  proof (cases "absorb s")
    case (Some ds)
    have "made_well wp ds" using assms f Some by (auto simp: tame_def)
    moreover have "filed ((wp, s) # filter (\<lambda>(wp, s). absorb s \<noteq> None) ts)"
      using filed_filter [OF Cons.prems, of "\<lambda>(wp, s). absorb s \<noteq> None"] Some x by simp
    ultimately show ?thesis using keyed_by_Cons Cons.IH f x Some by (simp add: map_filter_simps)
  qed (use Cons.IH f x in \<open>simp add: map_filter_simps\<close>)
qed

lemma descriptor_for_trait_made: "\<exists>d. descriptor_for_trait s = Some d"
proof -
  have "build_descriptor s (fallback_platform s) \<noteq> None"
    unfolding build_descriptor_None by (auto simp: fallback_platform_def VALID_PLATFORMS_def split: option.splits)
  then show ?thesis by (auto simp: descriptor_for_trait_def split: descriptor.splits)
qed

lemma descriptor_for_trait_tame: "own_path wp s \<Longrightarrow> descriptor_for_trait s = Some d \<Longrightarrow> key_of d = auto_key wp \<and> carries d wp"
  using build_descriptor_key [of s] build_descriptor_carries [of wp s] own_path_wire [of wp s]
  by (auto simp: descriptor_for_trait_def BUTTON_TRAITS_def press_value_of_def split: descriptor.splits option.splits)

lemma descriptor_for_trait_hashable: "trait_hashable s \<Longrightarrow> descriptor_for_trait s = Some d \<Longrightarrow> hashable d"
  using build_descriptor_hashable [of s "fallback_platform s"]
  by (auto simp: descriptor_for_trait_def BUTTON_TRAITS_def press_value_of_def split: descriptor.splits option.splits)

lemma fallback_as_absorption: "fallback_compose ts = concat (List.map_filter (\<lambda>(wp, s). map_option (\<lambda>d. [d]) (descriptor_for_trait s)) ts)"
  by (induction ts) (auto simp: fallback_compose_def map_filter_simps split: option.splits)

lemma tame_fallback: "tame (\<lambda>s. map_option (\<lambda>d. [d]) (descriptor_for_trait s))"
  by (rule tame_one) (auto dest: descriptor_for_trait_tame)

lemma keyed_fallback: "filed ts \<Longrightarrow> keyed_by ts (fallback_compose ts)"
  using keyed_absorbed [OF tame_fallback, of ts] unfolding fallback_as_absorption by (rule keyed_by_mono) auto

lemma keyed_compose_with:
  assumes "tame absorb" "filed ts"
  shows "keyed_by ts (compose_with absorb ts)"
proof -
  have "keyed_by (filter (\<lambda>x. \<not> (case x of (wp, s) \<Rightarrow> absorb s \<noteq> None)) ts) (fallback_compose (filter (\<lambda>(wp, s). absorb s = None) ts))"
    using keyed_fallback [OF filed_filter [OF assms(2)], of "\<lambda>(wp, s). absorb s = None"] by (simp add: case_prod_unfold)
  then show ?thesis
    unfolding compose_with_def using keyed_by_append [OF assms(2) keyed_absorbed [OF assms]] by blast
qed

lemma find_trait_in: "find_trait ts fc tc = Some s \<Longrightarrow> \<exists>wp. (wp, s) \<in> set ts \<and> is_trait fc tc s"
  by (auto simp: find_trait_def find_Some_iff set_conv_nth in_set_conv_nth) (metis nth_map nth_mem prod.collapse snd_conv)

lemma keyed_head:
  assumes "filed ts" "(wp, s) \<in> set ts" "\<not> P (wp, s)" "key_of d = auto_key wp"
  shows "keyed_by ts (d # fallback_compose (filter P ts))"
proof -
  have "keyed_by (filter (\<lambda>x. \<not> P x) ts) [d]" using assms by (force simp: keyed_by_def own_keys_def)
  moreover have "keyed_by (filter (\<lambda>x. \<not> \<not> P x) ts) (fallback_compose (filter P ts))"
    using keyed_fallback [OF filed_filter [OF assms(1)], of P] by simp
  ultimately show ?thesis using keyed_by_append [OF assms(1), of "\<lambda>x. \<not> P x" "[d]"] by simp
qed

lemma filed_at: "filed ts \<Longrightarrow> (wp, s) \<in> set ts \<Longrightarrow> own_path wp s"
  by (auto simp: filed_def)

lemma keyed_light: "filed ts \<Longrightarrow> keyed_by ts (light_compose ts)"
proof (cases "find_trait ts ''Output'' ''OnOff''")
  case None
  assume "filed ts"
  then show ?thesis using None keyed_by_mono [OF keyed_fallback [OF filed_filter]] by (simp add: light_compose_def filter_is_subset)
next
  case (Some s)
  assume f: "filed ts"
  obtain wp where wp: "(wp, s) \<in> set ts" "is_trait ''Output'' ''OnOff'' s" using find_trait_in [OF Some] by blast
  then have "light_absorbed s" by (simp add: light_absorbed_def LIGHT_ABSORBED_def)
  moreover have "key_of (light_of ts s) = auto_key wp"
    using filed_at [OF f wp(1)] by (simp add: light_of_def Let_def own_path_def split: prod.splits)
  ultimately show ?thesis
    using keyed_head [OF f wp(1), of "\<lambda>(wp, s). \<not> light_absorbed s" "light_of ts s"] Some by (simp add: light_compose_def)
qed

lemma keyed_doorbell: "filed ts \<Longrightarrow> keyed_by ts (doorbell_compose ts)"
proof (cases "find_trait ts ''Doorbell'' ''ButtonEvent''")
  case None
  assume "filed ts"
  then show ?thesis using None keyed_by_mono [OF keyed_fallback [OF filed_filter]] by (simp add: doorbell_compose_def filter_is_subset)
next
  case (Some s)
  assume f: "filed ts"
  obtain wp where wp: "(wp, s) \<in> set ts" "is_trait ''Doorbell'' ''ButtonEvent'' s" using find_trait_in [OF Some] by blast
  have "key_of (doorbell_event s) = auto_key wp"
    using filed_at [OF f wp(1)] by (simp add: doorbell_event_def event_def own_path_def)
  then show ?thesis
    using keyed_head [OF f wp(1), of "\<lambda>(wp, s). \<not> is_trait ''Doorbell'' ''ButtonEvent'' s" "doorbell_event s"] Some wp(2)
    by (simp add: doorbell_compose_def)
qed

text \<open>Every composer of the table is the fallback, absorbs single traits, or is one of the two with a shape of their own.\<close>

definition absorbing_composer :: "composer \<Rightarrow> bool" where
  "absorbing_composer c = (\<exists>absorb. tame absorb \<and> c = compose_with absorb)"

lemma absorbing_composerI: "tame absorb \<Longrightarrow> absorbing_composer (compose_with absorb)"
  by (auto simp: absorbing_composer_def)

lemma composer_kinds:
  assumes "(t, c) \<in> set COMPOSERS"
  shows "c = fallback_compose \<or> absorbing_composer c \<or> (t = ''Light'' \<and> c = light_compose) \<or> (t = ''Doorbell'' \<and> c = doorbell_compose)"
proof -
  have "list_all (\<lambda>(t, c). c = fallback_compose \<or> absorbing_composer c \<or> (t = ''Light'' \<and> c = light_compose) \<or>
      (t = ''Doorbell'' \<and> c = doorbell_compose)) COMPOSERS"
    unfolding COMPOSERS_def
    by (simp add: absorbing_composerI tame_simple tame_thermostat tame_electrical tame_door_lock)
  then show ?thesis using assms by (auto simp: list_all_iff)
qed

section \<open>Unique keys\<close>

lemma composer_keyed: "filed ts \<Longrightarrow> keyed_by ts (select_composer dt ts)"
proof (cases dt)
  case (Some t)
  assume f: "filed ts"
  have "keyed_by ts (c ts)" if "dget COMPOSERS t = Some c" for c
    using composer_kinds [OF map_of_SomeD [OF that]] keyed_fallback [OF f] keyed_compose_with [OF _ f] keyed_light [OF f] keyed_doorbell [OF f]
    by (auto simp: absorbing_composer_def)
  then show ?thesis using Some keyed_fallback [OF f] by (auto simp: select_composer_def get_composer_def split: option.splits)
qed (simp add: select_composer_def keyed_fallback)

lemma forced_as_absorption:
  "List.map_filter (\<lambda>(wp, s). build_descriptor s (t_platform s)) ts =
   concat (List.map_filter (\<lambda>(wp, s). map_option (\<lambda>d. [d]) (build_descriptor s (t_platform s))) ts)"
  by (induction ts) (auto simp: map_filter_simps split: option.splits)

lemma tame_forced: "tame (\<lambda>s. map_option (\<lambda>d. [d]) (build_descriptor s (t_platform s)))"
  using build_descriptor_key build_descriptor_carries own_path_wire by (intro tame_one) auto

lemma keyed_forced: "filed ts \<Longrightarrow> keyed_by ts (List.map_filter (\<lambda>(wp, s). build_descriptor s (t_platform s)) ts)"
  unfolding forced_as_absorption by (rule keyed_by_mono [OF keyed_absorbed [OF tame_forced] filter_is_subset])

lemma keyed_endpoint:
  assumes "filed ts"
  shows "keyed_by (by_endpoint ts ep) (classify_endpoint eps ts active ep)"
proof -
  let ?ts = "by_endpoint ts ep"
  have f: "filed ?ts" using filed_filter [OF assms] by (simp add: by_endpoint_def)
  have "keyed_by (filter (\<lambda>(wp, s). t_platform s \<noteq> JNull) ?ts) (List.map_filter (\<lambda>(wp, s). build_descriptor s (t_platform s)) (forced_traits ?ts))"
    using keyed_forced [OF filed_filter [OF f]] by (simp add: forced_traits_def)
  moreover have "keyed_by (filter (\<lambda>x. \<not> (case x of (wp, s) \<Rightarrow> t_platform s \<noteq> JNull)) ?ts)
      (select_composer dt (filter (\<lambda>(wp, s). t_platform s = JNull) ?ts))" for dt
    using composer_keyed [OF filed_filter [OF f, of "\<lambda>(wp, s). t_platform s = JNull"], of dt] by (simp add: case_prod_unfold)
  ultimately have "keyed_by ?ts (List.map_filter (\<lambda>(wp, s). build_descriptor s (t_platform s)) (forced_traits ?ts) @
      select_composer dt (filter (\<lambda>(wp, s). t_platform s = JNull) ?ts))" for dt
    using keyed_by_append [OF f] by blast
  moreover have "keyed_by ?ts (select_composer dt ?ts)" for dt using composer_keyed [OF f] by blast
  ultimately show ?thesis by (simp add: classify_endpoint_def apply_platform_overrides_def) (simp add: keyed_by_def)
qed

lemma keyed_endpoints:
  assumes "filed ts"
  shows "distinct es \<Longrightarrow> keyed_by (filter (\<lambda>(wp, s). trait_endpoint s \<in> set es) ts) (concat (map (classify_endpoint eps ts active) es))"
proof (induction es)
  case (Cons e es)
  let ?ts = "filter (\<lambda>(wp, s). trait_endpoint s \<in> set (e # es)) ts" and ?P = "\<lambda>(wp, s). trait_endpoint s = e"
  have "filter ?P ?ts = by_endpoint ts e" by (auto simp: by_endpoint_def intro: filter_cong)
  moreover have "filter (\<lambda>x. \<not> ?P x) ?ts = filter (\<lambda>(wp, s). trait_endpoint s \<in> set es) ts"
    using Cons.prems by (auto intro!: filter_cong)
  ultimately show ?case
    using keyed_by_append [OF filed_filter [OF assms], of ?P "\<lambda>(wp, s). trait_endpoint s \<in> set (e # es)"] keyed_endpoint [OF assms] Cons by simp
qed (simp add: keyed_by_def)

lemma endpoint_ids_facts: "distinct (endpoint_ids eps ts)" "(wp, s) \<in> set ts \<Longrightarrow> trait_endpoint s \<in> set (endpoint_ids eps ts)"
  by (force simp: endpoint_ids_def)+

lemma keyed_classified: "filed ts \<Longrightarrow> keyed_by ts (classified eps ts active)"
  unfolding classified_def by (rule keyed_by_mono [OF keyed_endpoints [OF _ endpoint_ids_facts(1)] filter_is_subset])

lemma own_keys_auto: "k \<in> own_keys wp \<Longrightarrow> take 5 k = ''auto_''"
  by (auto simp: own_keys_def auto_key_def)

lemma derived_keys_distinct:
  assumes "filed (merge_overlay_into_catalogue (m_traits m) overlay)" "dict_ok (m_settings m)"
    "\<forall>rid \<in> fst ` set (m_settings m). take 5 rid \<noteq> ''auto_''"
  shows "distinct (map key_of (build_descriptors m overlay))"
proof -
  let ?ts = "merge_overlay_into_catalogue (m_traits m) overlay"
  let ?c = "classify_v3 (m_endpoints m) ?ts None"
  have k: "map key_of ?c = map key_of (classified (m_endpoints m) ?ts None)" by (simp add: classify_v3_def)
  have c: "keyed_by ?ts (classified (m_endpoints m) ?ts None)" by (rule keyed_classified [OF assms(1)])
  have "take 5 x = ''auto_''" if "x \<in> set (map key_of ?c)" for x
    using that c own_keys_auto unfolding k keyed_by_def by fastforce
  moreover have "take 5 x \<noteq> ''auto_''" if "x \<in> set (map key_of (build_setting_descriptors (m_settings m)))" for x
    using that assms(3) unfolding setting_keys by force
  moreover have "distinct (map key_of ?c)" using c unfolding k by (simp add: keyed_by_def)
  moreover have "distinct (map key_of (build_setting_descriptors (m_settings m)))"
    unfolding setting_keys using assms(2) by (auto simp: dict_ok_def distinct_map intro: inj_on_subset)
  ultimately have "distinct (map key_of ?c @ map key_of (build_setting_descriptors (m_settings m)))"
    by (simp only: distinct_append) blast
  then show ?thesis by (simp add: build_descriptors_def)
qed

text \<open>
  C5 [unique_ids]
  The descriptors of a device have different keys, the two of a lock's state, the forced ones and the
  settings included, so that no entity's unique id clashes with another's: for any catalog and overlay whose
  traits are filed under their wire paths and settings whose resource ids do not start with auto_.
\<close>

theorem unique_ids:
  assumes "filed (merge_overlay_into_catalogue (m_traits m) overlay)" "dict_ok (m_settings m)"
    "\<forall>rid \<in> fst ` set (m_settings m). take 5 rid \<noteq> ''auto_''"
  shows "distinct (map key_of (build_descriptors m overlay))"
  by (rule derived_keys_distinct [OF assms])

section \<open>No trait is lost\<close>

text \<open>
  The traits that get no entity: of a light, an absorbed one the light does not use; otherwise a forced one its
  platform cannot show, and every button event of a doorbell after the first.
\<close>

definition light_uses :: "traits \<Rightarrow> trait_spec \<Rightarrow> bool" where
  "light_uses ts s =
     (case find_trait ts ''Output'' ''OnOff'' of
        None \<Rightarrow> False
      | Some p \<Rightarrow> s = p \<or> find_trait ts ''LevelControl'' ''CurrentLevel'' = Some s \<or>
          find_trait ts ''ColorControl'' ''ColorTemperature'' = Some s \<or> color_xy_trait ts = Some s)"

definition left_out :: "traits \<Rightarrow> string option \<Rightarrow> trait_spec \<Rightarrow> bool" where
  "left_out ts dt s =
     (if dt = Some ''Light'' then light_absorbed s \<and> \<not> light_uses ts s
      else if t_platform s \<noteq> JNull then build_descriptor s (t_platform s) = None
      else dt = Some ''Doorbell'' \<and> is_trait ''Doorbell'' ''ButtonEvent'' s \<and>
           find_trait (filter (\<lambda>(wp, s). t_platform s = JNull) ts) ''Doorbell'' ''ButtonEvent'' \<noteq> Some s)"

lemma in_map_filter: "d \<in> set (List.map_filter (\<lambda>(wp, s). f s) ts) \<longleftrightarrow> (\<exists>(wp, s) \<in> set ts. f s = Some d)"
  by (induction ts) (auto simp: map_filter_simps split: option.splits)

lemma fallback_carries:
  assumes "own_path wp s" "(wp, s) \<in> set ts"
  shows "\<exists>d \<in> set (fallback_compose ts). carries d wp"
proof -
  obtain d where d: "descriptor_for_trait s = Some d" using descriptor_for_trait_made by blast
  have "d \<in> set (fallback_compose ts)" unfolding fallback_compose_def in_map_filter using d assms(2) by (intro bexI [of _ "(wp, s)"]) simp_all
  then show ?thesis using descriptor_for_trait_tame [OF assms(1) d] by blast
qed

lemma compose_with_carries:
  assumes "tame absorb" "own_path wp s" "(wp, s) \<in> set ts"
  shows "\<exists>d \<in> set (compose_with absorb ts). carries d wp"
proof (cases "absorb s")
  case None
  then show ?thesis using fallback_carries [OF assms(2), of "filter (\<lambda>(wp, s). absorb s = None) ts"] assms(3)
    by (auto simp: compose_with_def)
next
  case (Some ds)
  then obtain d where "d \<in> set ds" "carries d wp" using assms(1,2) by (fastforce simp: tame_def made_well_def neq_Nil_conv)
  moreover have "ds \<in> set (List.map_filter (\<lambda>(wp, s). absorb s) ts)" unfolding in_map_filter using Some assms(3) by blast
  ultimately show ?thesis by (auto simp: compose_with_def)
qed

lemma trait_path_own: "own_path wp s \<Longrightarrow> fst ` set (trait_path (Some s) c) = {wp}"
  by (simp add: trait_path_def own_path_def)

lemma carries_light:
  "carries (LightDescriptor d) p \<longleftrightarrow> p \<in> fst ` set (trait_path (Some (li_power d)) (Some ''power'')) \<or>
     p \<in> fst ` set (trait_path (li_brightness d) (Some ''brightness'')) \<or>
     p \<in> fst ` set (trait_path (li_color_temp d) (Some ''color_temp'')) \<or> p \<in> fst ` set (trait_path (li_color_xy d) (Some ''color_xy''))"
  by (simp add: carries_def light_paths_def image_Un)

lemma light_of_carries:
  assumes "own_path wp s" "find_trait ts ''Output'' ''OnOff'' = Some p" "light_uses ts s"
  shows "carries (light_of ts p) wp"
proof -
  obtain lo hi mi where "color_temp_bounds (find_trait ts ''ColorControl'' ''ColorTemperature'') = (lo, hi, mi)" by (metis prod_cases3)
  then show ?thesis
    using assms(2,3) trait_path_own [OF assms(1)] by (auto simp only: light_of_def Let_def carries_light light_uses_def option.case prod.case
        light_descriptor.simps entity_description.simps)
qed

lemma light_carries:
  assumes "own_path wp s" "(wp, s) \<in> set ts" "\<not> light_absorbed s \<or> light_uses ts s"
  shows "\<exists>d \<in> set (light_compose ts). carries d wp"
proof (cases "light_absorbed s")
  case True
  then have u: "light_uses ts s" using assms(3) by simp
  then obtain p where p: "find_trait ts ''Output'' ''OnOff'' = Some p" by (auto simp: light_uses_def split: option.splits)
  then show ?thesis using light_of_carries [OF assms(1) p u] by (simp add: light_compose_def)
next
  case False
  then show ?thesis using fallback_carries [OF assms(1), of "filter (\<lambda>(wp, s). \<not> light_absorbed s) ts"] assms(2)
    by (auto simp: light_compose_def)
qed

lemma doorbell_carries:
  assumes "own_path wp s" "(wp, s) \<in> set ts" "\<not> is_trait ''Doorbell'' ''ButtonEvent'' s \<or> find_trait ts ''Doorbell'' ''ButtonEvent'' = Some s"
  shows "\<exists>d \<in> set (doorbell_compose ts). carries d wp"
proof (cases "is_trait ''Doorbell'' ''ButtonEvent'' s")
  case True
  then have "carries (doorbell_event s) wp" "doorbell_event s \<in> set (doorbell_compose ts)"
    using assms by (simp_all add: doorbell_event_def event_def carries_def trait_path_def ring_trait_def own_path_facts doorbell_compose_def)
  then show ?thesis by blast
next
  case False
  then show ?thesis
    using fallback_carries [OF assms(1), of "filter (\<lambda>(wp, s). \<not> is_trait ''Doorbell'' ''ButtonEvent'' s) ts"] assms(2)
    by (auto simp: doorbell_compose_def)
qed

lemma composer_carries:
  assumes "own_path wp s" "(wp, s) \<in> set ts"
    "dt = Some ''Light'' \<Longrightarrow> \<not> light_absorbed s \<or> light_uses ts s"
    "dt = Some ''Doorbell'' \<Longrightarrow> \<not> is_trait ''Doorbell'' ''ButtonEvent'' s \<or> find_trait ts ''Doorbell'' ''ButtonEvent'' = Some s"
  shows "\<exists>d \<in> set (select_composer dt ts). carries d wp"
proof (cases dt)
  case (Some t)
  have "\<exists>d \<in> set (c ts). carries d wp" if "dget COMPOSERS t = Some c" for c
    using composer_kinds [OF map_of_SomeD [OF that]]
  proof (elim disjE conjE)
    show "c = fallback_compose \<Longrightarrow> ?thesis" using fallback_carries [OF assms(1,2)] by simp
    show "absorbing_composer c \<Longrightarrow> ?thesis" using compose_with_carries [OF _ assms(1,2)] by (auto simp: absorbing_composer_def)
    show "t = ''Light'' \<Longrightarrow> c = light_compose \<Longrightarrow> ?thesis" using light_carries [OF assms(1,2)] assms(3) Some by simp
    show "t = ''Doorbell'' \<Longrightarrow> c = doorbell_compose \<Longrightarrow> ?thesis" using doorbell_carries [OF assms(1,2)] assms(4) Some by simp
  qed
  then show ?thesis using Some fallback_carries [OF assms(1,2)] by (auto simp: select_composer_def get_composer_def split: option.splits)
qed (use fallback_carries [OF assms(1,2)] in \<open>simp add: select_composer_def\<close>)

lemma endpoint_carries:
  assumes "filed ts" "(wp, s) \<in> set ts" "trait_endpoint s = ep" "\<forall>A. active = Some A \<longrightarrow> ep \<in> A"
    "\<not> left_out (by_endpoint ts ep) (device_type eps ep) s"
  shows "\<exists>d \<in> set (classify_endpoint eps ts active ep). carries d wp"
proof -
  let ?ts = "by_endpoint ts ep" and ?dt = "device_type eps ep"
  let ?rest = "filter (\<lambda>(wp, s). t_platform s = JNull) ?ts"
  have o: "own_path wp s" using filed_at [OF assms(1,2)] .
  have i: "(wp, s) \<in> set ?ts" using assms(2,3) by (simp add: by_endpoint_def)
  then have ne: "?ts \<noteq> []" by auto
  have act: "\<not> (case active of None \<Rightarrow> False | Some A \<Rightarrow> ep \<notin> A)" using assms(4) by (auto split: option.splits)
  have c: "classify_endpoint eps ts active ep = (case apply_platform_overrides ?ts ?dt of (forced, rest) \<Rightarrow> forced @ select_composer ?dt rest)"
    using ne act by (simp add: classify_endpoint_def)
  show ?thesis
  proof (cases "?dt = Some ''Light''")
    case True
    then have "classify_endpoint eps ts active ep = select_composer ?dt ?ts"
      unfolding c by (simp add: apply_platform_overrides_def FUSED_DEVICE_TYPES_def)
    then show ?thesis using composer_carries [OF o i, of ?dt] assms(5) True by (auto simp: left_out_def)
  next
    case False
    then have c2: "classify_endpoint eps ts active ep =
        List.map_filter (\<lambda>(wp, s). build_descriptor s (t_platform s)) (forced_traits ?ts) @ select_composer ?dt ?rest"
    proof (cases "forced_traits ?ts = []")
      case True
      then have "?rest = ?ts" by (auto simp: forced_traits_def filter_empty_conv intro!: filter_True)
      then show ?thesis unfolding c using True by (simp add: apply_platform_overrides_def map_filter_simps)
    qed (auto simp: c apply_platform_overrides_def FUSED_DEVICE_TYPES_def split: option.splits)
    show ?thesis
    proof (cases "t_platform s = JNull")
      case True
      then have "(wp, s) \<in> set ?rest" using i by simp
      then show ?thesis using composer_carries [OF o, of ?rest ?dt] assms(5) True False unfolding c2 by (auto simp: left_out_def)
    next
      case forced: False
      then obtain d where d: "build_descriptor s (t_platform s) = Some d" using assms(5) False by (auto simp: left_out_def)
      have "d \<in> set (List.map_filter (\<lambda>(wp, s). build_descriptor s (t_platform s)) (forced_traits ?ts))"
        unfolding in_map_filter using d i forced by (auto simp: forced_traits_def)
      then show ?thesis using build_descriptor_carries [OF o d] unfolding c2 by auto
    qed
  qed
qed

lemma in_disambiguate: "d \<in> set ds \<Longrightarrow> \<exists>e \<in> set (disambiguate_names ds). key_of e = key_of d \<and> carries e = carries d \<and> hashable e = hashable d"
  by (metis disambiguate_nth in_set_conv_nth renamed_keeps)

text \<open>
  Every trait of every active endpoint is routed to at least one entity of the device: some descriptor carries its
  wire path. The only exceptions are absorbed traits a light has no use for, a forced platform that cannot
  show the trait, and a doorbell's further button events.
\<close>

theorem every_trait_shown:
  assumes "filed ts" "(wp, s) \<in> set ts" "\<forall>A. active = Some A \<longrightarrow> trait_endpoint s \<in> A"
    "\<not> left_out (by_endpoint ts (trait_endpoint s)) (device_type eps (trait_endpoint s)) s"
  shows "\<exists>d \<in> set (classify_v3 eps ts active). carries d wp"
proof -
  obtain d where "d \<in> set (classify_endpoint eps ts active (trait_endpoint s))" "carries d wp"
    using endpoint_carries [OF assms(1,2) refl assms(3,4)] by blast
  then have "d \<in> set (classified eps ts active)" unfolding classified_def using endpoint_ids_facts(2) [OF assms(2)] by auto
  then show ?thesis using in_disambiguate \<open>carries d wp\<close> unfolding classify_v3_def by metis
qed

end
