(* ===== verification/Derive_Checks.thy ===== *)
theory Derive_Checks
  imports Derive
begin

text \<open>
  The derived descriptors as the rest of the program uses them: which of them can be dictionary keys, and how far
  their names tell them apart; the witnesses of the derive's theorems.
\<close>

section \<open>Which descriptors have no hash\<close>

definition listed :: "string option \<Rightarrow> trait_spec \<Rightarrow> bool" where
  "listed dt s =
     (enums s \<noteq> [] \<and> (dt = Some ''WindowCovering'' \<and> is_trait ''WindowCovering'' ''MotorOperationStatus'' s \<or>
                       dt = Some ''Speaker'' \<and> is_trait ''MediaPlayback'' ''CurrentPlaybackState'' s))"

abbreviation all_hashable :: "traits \<Rightarrow> bool" where
  "all_hashable ts \<equiv> \<forall>(wp, s) \<in> set ts. trait_hashable s"

lemma fallback_hashable: "all_hashable ts \<Longrightarrow> d \<in> set (fallback_compose ts) \<Longrightarrow> hashable d"
  unfolding fallback_compose_def in_map_filter using descriptor_for_trait_hashable by blast

lemma compose_with_hashable:
  assumes "hash_tame absorb" "all_hashable ts" "d \<in> set (compose_with absorb ts)"
  shows "hashable d"
proof (cases "d \<in> set (fallback_compose (filter (\<lambda>(wp, s). absorb s = None) ts))")
  case True
  then show ?thesis using fallback_hashable [of "filter (\<lambda>(wp, s). absorb s = None) ts"] assms(2) by auto
next
  case False
  then obtain ds where ds: "ds \<in> set (List.map_filter (\<lambda>(wp, s). absorb s) ts)" "d \<in> set ds"
    using assms(3) by (auto simp: compose_with_def)
  from ds(1) obtain wp s where "(wp, s) \<in> set ts" "absorb s = Some ds" unfolding in_map_filter by blast
  then show ?thesis using assms(1,2) ds(2) unfolding hash_tame_def by blast
qed

lemma list_sensor_hash: "trait_hashable s \<Longrightarrow> hashable (enum_list_sensor s) \<longleftrightarrow> enums s = []"
  by (auto simp: enum_list_sensor_def sensor_for_def sensor_def trait_hashable_def)

lemma window_covering_hash:
  "trait_hashable s \<Longrightarrow> window_covering s = Some ds \<Longrightarrow> (\<exists>d \<in> set ds. \<not> hashable d) \<longleftrightarrow> listed (Some ''WindowCovering'') s"
  by (auto simp: window_covering_def listed_def list_sensor_hash sensor_for_def number_for_def descriptor_defs trait_hashable_def split: if_splits)

lemma speaker_hash:
  "trait_hashable s \<Longrightarrow> speaker s = Some ds \<Longrightarrow> (\<exists>d \<in> set ds. \<not> hashable d) \<longleftrightarrow> listed (Some ''Speaker'') s"
  by (auto simp: speaker_def listed_def list_sensor_hash switch_for_def number_for_def descriptor_defs trait_hashable_def split: if_splits)

lemma listed_absorbed: "listed (Some ''WindowCovering'') s \<Longrightarrow> window_covering s \<noteq> None" "listed (Some ''Speaker'') s \<Longrightarrow> speaker s \<noteq> None"
  by (auto simp: listed_def window_covering_def speaker_def)

lemma compose_with_unhashable:
  assumes "\<And>s ds. trait_hashable s \<Longrightarrow> absorb s = Some ds \<Longrightarrow> (\<exists>d \<in> set ds. \<not> hashable d) \<longleftrightarrow> P s" "\<And>s. P s \<Longrightarrow> absorb s \<noteq> None" "all_hashable ts"
  shows "(\<exists>d \<in> set (compose_with absorb ts). \<not> hashable d) \<longleftrightarrow> (\<exists>(wp, s) \<in> set ts. P s)"
proof
  assume "\<exists>d \<in> set (compose_with absorb ts). \<not> hashable d"
  then obtain d where d: "d \<in> set (compose_with absorb ts)" "\<not> hashable d" by blast
  have "d \<notin> set (fallback_compose (filter (\<lambda>(wp, s). absorb s = None) ts))"
    using fallback_hashable [of "filter (\<lambda>(wp, s). absorb s = None) ts" d] d(2) assms(3) by auto
  then obtain ds where ds: "ds \<in> set (List.map_filter (\<lambda>(wp, s). absorb s) ts)" "d \<in> set ds" using d(1) by (auto simp: compose_with_def)
  from ds(1) obtain wp s where s: "(wp, s) \<in> set ts" "absorb s = Some ds" unfolding in_map_filter by blast
  then have "P s" using assms(1) [OF _ s(2)] assms(3) ds(2) d(2) by blast
  then show "\<exists>(wp, s) \<in> set ts. P s" using s(1) by blast
next
  assume "\<exists>(wp, s) \<in> set ts. P s"
  then obtain wp s where s: "(wp, s) \<in> set ts" "P s" by blast
  obtain ds where ds: "absorb s = Some ds" using assms(2) [OF s(2)] by auto
  then obtain d where d: "d \<in> set ds" "\<not> hashable d" using assms(1) [OF _ ds] assms(3) s by blast
  have "ds \<in> set (List.map_filter (\<lambda>(wp, s). absorb s) ts)" unfolding in_map_filter using s(1) ds by blast
  then have "d \<in> set (compose_with absorb ts)" using d(1) by (auto simp: compose_with_def)
  then show "\<exists>d \<in> set (compose_with absorb ts). \<not> hashable d" using d(2) by blast
qed

lemma find_trait_hashable: "all_hashable ts \<Longrightarrow> pred_option trait_hashable (find_trait ts fc tc)"
  by (cases "find_trait ts fc tc") (auto dest: find_trait_in)

lemma color_xy_hashable: "all_hashable ts \<Longrightarrow> pred_option trait_hashable (color_xy_trait ts)"
  using find_trait_hashable [of ts] by (auto simp: color_xy_trait_def split: option.splits) (metis option.pred_inject(2))+

lemma light_hashable: "all_hashable ts \<Longrightarrow> d \<in> set (light_compose ts) \<Longrightarrow> hashable d"
proof -
  assume a: "all_hashable ts" and d: "d \<in> set (light_compose ts)"
  have f: "hashable e" if "e \<in> set (fallback_compose (filter (\<lambda>(wp, s). \<not> light_absorbed s) ts))" for e
    using fallback_hashable [OF _ that] a by auto
  obtain lo hi mi where "color_temp_bounds (find_trait ts ''ColorControl'' ''ColorTemperature'') = (lo, hi, mi)" by (metis prod_cases3)
  then have "hashable (light_of ts p)" if p: "find_trait ts ''Output'' ''OnOff'' = Some p" for p
    using find_trait_hashable [OF a] color_xy_hashable [OF a] find_trait_hashable [OF a, of "''Output''" "''OnOff''", unfolded p]
    by (simp add: light_of_def Let_def)
  then show ?thesis using d f by (auto simp: light_compose_def split: option.splits)
qed

lemma doorbell_hashable: "all_hashable ts \<Longrightarrow> d \<in> set (doorbell_compose ts) \<Longrightarrow> hashable d"
proof -
  assume a: "all_hashable ts" and d: "d \<in> set (doorbell_compose ts)"
  have f: "hashable e" if "e \<in> set (fallback_compose (filter (\<lambda>(wp, s). \<not> is_trait ''Doorbell'' ''ButtonEvent'' s) ts))" for e
    using fallback_hashable [OF _ that] a by auto
  have "hashable (doorbell_event s)" if "find_trait ts ''Doorbell'' ''ButtonEvent'' = Some s" for s
    using find_trait_hashable [OF a, of "''Doorbell''" "''ButtonEvent''"] that
    by (simp add: doorbell_event_def event_def ring_trait_def trait_hashable_def)
  then show ?thesis using d f by (auto simp: doorbell_compose_def split: option.splits)
qed

definition hashing_composer :: "composer \<Rightarrow> bool" where
  "hashing_composer c = (\<forall>ts d. all_hashable ts \<longrightarrow> d \<in> set (c ts) \<longrightarrow> hashable d)"

lemma hashing_composers: "hashing_composer fallback_compose" "hashing_composer light_compose" "hashing_composer doorbell_compose"
  "hash_tame absorb \<Longrightarrow> hashing_composer (compose_with absorb)"
  unfolding hashing_composer_def using fallback_hashable light_hashable doorbell_hashable compose_with_hashable by blast+

lemma composer_hash_kinds:
  assumes "(t, c) \<in> set COMPOSERS"
  shows "hashing_composer c \<or> (t = ''WindowCovering'' \<and> c = compose_with window_covering) \<or> (t = ''Speaker'' \<and> c = compose_with speaker)"
proof -
  have "list_all (\<lambda>(t, c). hashing_composer c \<or> (t = ''WindowCovering'' \<and> c = compose_with window_covering) \<or>
      (t = ''Speaker'' \<and> c = compose_with speaker)) COMPOSERS"
    unfolding COMPOSERS_def
    by (simp add: hashing_composers hash_tame_all hash_tame_thermostat hash_tame_electrical hash_tame_door_lock)
  then show ?thesis using assms by (auto simp: list_all_iff)
qed

lemma composer_unhashable:
  assumes "all_hashable ts"
  shows "(\<exists>d \<in> set (select_composer dt ts). \<not> hashable d) \<longleftrightarrow> (\<exists>(wp, s) \<in> set ts. listed dt s)"
proof -
  consider "dt = Some ''WindowCovering''" | "dt = Some ''Speaker''" | "dt \<noteq> Some ''WindowCovering''" "dt \<noteq> Some ''Speaker''" by blast
  then show ?thesis
  proof cases
    case 1
    then have "select_composer dt = compose_with window_covering" by (simp add: select_composer_def get_composer_def COMPOSERS_def)
    then show ?thesis
      using compose_with_unhashable [OF window_covering_hash listed_absorbed(1) assms] 1 by simp
  next
    case 2
    then have "select_composer dt = compose_with speaker" by (simp add: select_composer_def get_composer_def COMPOSERS_def)
    then show ?thesis using compose_with_unhashable [OF speaker_hash listed_absorbed(2) assms] 2 by simp
  next
    case 3
    have "hashing_composer (select_composer dt)"
    proof (cases dt)
      case (Some t)
      have "hashing_composer c" if "dget COMPOSERS t = Some c" for c
        using composer_hash_kinds [OF map_of_SomeD [OF that]] 3 Some by auto
      then show ?thesis using Some hashing_composers(1)
        by (auto simp: select_composer_def get_composer_def split: option.splits)
    qed (simp add: select_composer_def hashing_composers)
    then show ?thesis using 3 assms by (auto simp: hashing_composer_def listed_def)
  qed
qed

lemma endpoint_unhashable:
  assumes "all_hashable ts"
  shows "(\<exists>d \<in> set (classify_endpoint eps ts active ep). \<not> hashable d) \<longleftrightarrow>
    (case active of Some A \<Rightarrow> ep \<in> A | None \<Rightarrow> True) \<and>
    (\<exists>(wp, s) \<in> set ts. trait_endpoint s = ep \<and> t_platform s = JNull \<and> listed (device_type eps ep) s)"
proof -
  let ?ts = "by_endpoint ts ep" and ?dt = "device_type eps ep"
  have h: "all_hashable ?ts" "all_hashable (filter (\<lambda>(wp, s). t_platform s = JNull) ?ts)" using assms by (auto simp: by_endpoint_def)
  have forced: "hashable d" if "d \<in> set (List.map_filter (\<lambda>(wp, s). build_descriptor s (t_platform s)) (forced_traits ?ts))" for d
    using that h(1) build_descriptor_hashable unfolding in_map_filter forced_traits_def by fastforce
  have ex: "(\<exists>(wp, s) \<in> set ts. trait_endpoint s = ep \<and> t_platform s = JNull \<and> listed ?dt s) \<longleftrightarrow>
      (\<exists>(wp, s) \<in> set (filter (\<lambda>(wp, s). t_platform s = JNull) ?ts). listed ?dt s)"
    by (auto simp: by_endpoint_def)
  show ?thesis
  proof (cases "(case active of Some A \<Rightarrow> ep \<in> A | None \<Rightarrow> True) \<and> ?ts \<noteq> []")
    case False
    then show ?thesis unfolding ex by (auto simp: classify_endpoint_def split: option.splits)
  next
    case True
    then have c: "classify_endpoint eps ts active ep = (case apply_platform_overrides ?ts ?dt of (forced, rest) \<Rightarrow> forced @ select_composer ?dt rest)"
      by (auto simp: classify_endpoint_def split: option.splits)
    have light: "?dt = Some ''Light'' \<Longrightarrow> \<not> listed ?dt s" for s by (simp add: listed_def)
    consider "?dt = Some ''Light''" | "?dt \<noteq> Some ''Light''" "forced_traits ?ts = []" | "?dt \<noteq> Some ''Light''" "forced_traits ?ts \<noteq> []" by blast
    then show ?thesis
    proof cases
      case 1
      then have "classify_endpoint eps ts active ep = select_composer ?dt ?ts"
        unfolding c by (simp add: apply_platform_overrides_def FUSED_DEVICE_TYPES_def)
      then show ?thesis using composer_unhashable [OF h(1), of ?dt] light [OF 1] by auto
    next
      case 2
      then have r: "filter (\<lambda>(wp, s). t_platform s = JNull) ?ts = ?ts"
        by (auto simp: forced_traits_def filter_empty_conv intro!: filter_True)
      have "classify_endpoint eps ts active ep = select_composer ?dt ?ts" unfolding c using 2 by (simp add: apply_platform_overrides_def)
      then show ?thesis using composer_unhashable [OF h(1), of ?dt] True unfolding ex r by simp
    next
      case 3
      then have "classify_endpoint eps ts active ep =
          List.map_filter (\<lambda>(wp, s). build_descriptor s (t_platform s)) (forced_traits ?ts) @
          select_composer ?dt (filter (\<lambda>(wp, s). t_platform s = JNull) ?ts)"
        unfolding c by (auto simp: apply_platform_overrides_def FUSED_DEVICE_TYPES_def split: option.splits)
      then show ?thesis using composer_unhashable [OF h(2), of ?dt] forced True unfolding ex by auto
    qed
  qed
qed

text \<open>
  A device's descriptors are dictionary keys, so each must have a hash; given hashable traits they all do, but for
  exactly two composers: the motor status of a window covering and the playback state of a speaker, when
  they have labels, are built with a list of options, and such a descriptor raises TypeError.
\<close>

theorem unhashable_descriptors:
  assumes "all_hashable ts"
  shows "(\<exists>d \<in> set (classify_v3 eps ts None). \<not> hashable d) \<longleftrightarrow>
    (\<exists>(wp, s) \<in> set ts. t_platform s = JNull \<and> listed (device_type eps (trait_endpoint s)) s)"
proof -
  have "(\<exists>d \<in> set (classify_v3 eps ts None). \<not> hashable d) \<longleftrightarrow> (\<exists>d \<in> set (classified eps ts None). \<not> hashable d)"
    unfolding classify_v3_def by (metis disambiguate_nth in_disambiguate in_set_conv_nth renamed_keeps(3))
  also have "\<dots> \<longleftrightarrow> (\<exists>ep \<in> set (endpoint_ids eps ts). \<exists>d \<in> set (classify_endpoint eps ts None ep). \<not> hashable d)"
    by (auto simp: classified_def)
  also have "\<dots> \<longleftrightarrow> (\<exists>(wp, s) \<in> set ts. t_platform s = JNull \<and> listed (device_type eps (trait_endpoint s)) s)"
    unfolding endpoint_unhashable [OF assms] using endpoint_ids_facts(2) by fastforce
  finally show ?thesis .
qed

section \<open>Names\<close>

lemma nat_text_inj: "nat_text a = nat_text b \<Longrightarrow> a = b"
  by (metis text_nat_nat_text)

lemma suffix_names:
  "zone_name n a = zone_name n b \<longleftrightarrow> a = b" "index_name n a = index_name n b \<longleftrightarrow> a = b" "zone_name n a \<noteq> n" "index_name n a \<noteq> n"
  "zone_name n a \<noteq> index_name n b"
proof -
  show "zone_name n a = zone_name n b \<longleftrightarrow> a = b" "index_name n a = index_name n b \<longleftrightarrow> a = b" "zone_name n a \<noteq> n" "index_name n a \<noteq> n"
    using nat_text_inj by (auto simp: zone_name_def index_name_def)
  obtain c cs where c: "nat_text b = c # cs" by (cases "nat_text b") auto
  have "ascii_digit c" using nat_text_digits [of b] c by simp
  then have "c \<noteq> CHR ''(''" by (auto simp: ascii_digit_def char_code_def)
  then show "zone_name n a \<noteq> index_name n b" by (simp add: zone_name_def index_name_def c)
qed

lemma group_pair:
  assumes "i < length ds" "j < length ds" "i \<noteq> j" "name_of (ds ! i) = name_of (ds ! j)"
  shows "group_of ds i = group_of ds j" "2 \<le> length (group_of ds i)"
proof -
  show "group_of ds i = group_of ds j" using assms(4) by (simp add: group_of_def)
  have "card {i, j} \<le> card (set (group_of ds i))" using assms by (intro card_mono) (auto simp: group_positions)
  then show "2 \<le> length (group_of ds i)" using assms(3) card_length [of "group_of ds i"] by simp
qed

lemma place_inj:
  assumes "i \<in> set (base_order ds g)" "j \<in> set (base_order ds g)" "g = group_of ds i" "g = group_of ds j" "place ds i = place ds j"
  shows "i = j"
proof -
  let ?b = "base_order ds g"
  have d: "distinct ?b" using assms(3) group_positions(2) by (simp add: distinct_base_order)
  obtain k l where kl: "k < length ?b" "?b ! k = i" "l < length ?b" "?b ! l = j" using assms(1,2) by (metis in_set_conv_nth)
  have "place ds i = Suc k" "place ds j = Suc l"
    using nth_takeWhile_place [OF d kl(1)] nth_takeWhile_place [OF d kl(3)] kl assms(3,4) unfolding place_def by simp_all
  then show ?thesis using assms(5) kl by simp
qed

text \<open>
  Entities that would share a name are told apart: after the pass two descriptors with the same former
  name have different names, unless both are zones of one endpoint; a descriptor whose name nobody shares
  is not touched, keys never change, and only zones are disabled.
\<close>

theorem names_told_apart:
  assumes "i < length ds" "j < length ds" "i \<noteq> j"
  shows "(name_of (ds ! i) = name_of (ds ! j) \<and> \<not> (in_zone (ds ! i) \<and> endpoint_of (ds ! i) = endpoint_of (ds ! j)) \<longrightarrow>
      name_of (disambiguate_names ds ! i) \<noteq> name_of (disambiguate_names ds ! j)) \<and>
    ((\<forall>k < length ds. k \<noteq> i \<longrightarrow> name_of (ds ! k) \<noteq> name_of (ds ! i)) \<longrightarrow> disambiguate_names ds ! i = ds ! i) \<and>
    map key_of (disambiguate_names ds) = map key_of ds \<and>
    (in_zone (ds ! i) \<or> enabled_of (disambiguate_names ds ! i) = enabled_of (ds ! i))"
proof (intro conjI impI)
  show "map key_of (disambiguate_names ds) = map key_of ds" by simp
  show "in_zone (ds ! i) \<or> enabled_of (disambiguate_names ds ! i) = enabled_of (ds ! i)"
    using assms(1) by (simp add: disambiguate_nth renamed_def Let_def)
next
  assume u: "\<forall>k < length ds. k \<noteq> i \<longrightarrow> name_of (ds ! k) \<noteq> name_of (ds ! i)"
  have "set (group_of ds i) \<subseteq> {i}" using u by (auto simp: group_positions)
  then have "card (set (group_of ds i)) \<le> 1" using card_mono [of "{i}"] by force
  then have "length (group_of ds i) < 2" using distinct_card [OF group_positions(2), of ds i] by simp
  then show "disambiguate_names ds ! i = ds ! i" using assms(1) by (simp add: disambiguate_nth renamed_def Let_def)
next
  assume n: "name_of (ds ! i) = name_of (ds ! j) \<and> \<not> (in_zone (ds ! i) \<and> endpoint_of (ds ! i) = endpoint_of (ds ! j))"
  note g = group_pair [OF assms conjunct1 [OF n]]
  let ?b = "base_order ds (group_of ds i)"
  have mem: "i \<in> set (group_of ds i)" "j \<in> set (group_of ds i)" using assms n by (simp_all add: group_positions)
  have ib: "\<not> in_zone (ds ! i) \<Longrightarrow> i \<in> set ?b" "\<not> in_zone (ds ! j) \<Longrightarrow> j \<in> set ?b" using mem by (simp_all add: set_base_order)
  have zi: "ZONE_ENDPOINT_BASE \<le> the (endpoint_of d)" "endpoint_of d \<noteq> None" if "in_zone d" for d
    using that by (auto simp: in_zone_def split: option.splits)
  have "name_of (renamed ds i) \<noteq> name_of (renamed ds j)"
  proof (cases "in_zone (ds ! i)"; cases "in_zone (ds ! j)")
    assume z: "in_zone (ds ! i)" "in_zone (ds ! j)"
    then have "the (endpoint_of (ds ! i)) \<noteq> the (endpoint_of (ds ! j))" using zi(2) n by (metis option.expand)
    then have "the (endpoint_of (ds ! i)) - ZONE_ENDPOINT_BASE \<noteq> the (endpoint_of (ds ! j)) - ZONE_ENDPOINT_BASE"
      using zi(1) [OF z(1)] zi(1) [OF z(2)] by simp
    then show ?thesis using z g n by (simp add: renamed_def Let_def suffix_names)
  next
    assume z: "in_zone (ds ! i)" "\<not> in_zone (ds ! j)"
    then show ?thesis using g n suffix_names by (simp add: renamed_def Let_def)
  next
    assume z: "\<not> in_zone (ds ! i)" "in_zone (ds ! j)"
    then show ?thesis using g n suffix_names by (simp add: renamed_def Let_def) metis
  next
    assume z: "\<not> in_zone (ds ! i)" "\<not> in_zone (ds ! j)"
    have "card {i, j} \<le> card (set ?b)" using ib z by (intro card_mono) auto
    then have "2 \<le> length ?b" using assms(3) card_length [of ?b] by simp
    moreover have "place ds i \<noteq> place ds j" using place_inj [OF ib(1) [OF z(1)] ib(2) [OF z(2)] refl] g(1) assms(3) by blast
    ultimately show ?thesis using z g n by (simp add: renamed_def Let_def suffix_names)
  qed
  then show "name_of (disambiguate_names ds ! i) \<noteq> name_of (disambiguate_names ds ! j)" using assms by (simp add: disambiguate_nth)
qed

section \<open>Witnesses\<close>

text \<open>A gang switch whose third trait already has the name the pass invents: the names clash in the end.\<close>

definition gang :: traits where
  "gang = map (\<lambda>(wp, n). (wp, (new_trait wp n)\<lparr>t_wire_path := Some wp, t_data_type := ''bool'', t_writable := True\<rparr>))
     [(''1.1.1'', ''Switch''), (''2.1.1'', ''Switch''), (''3.1.1'', ''Switch 1'')]"

lemma gang_simps: "classified [] gang None = map (\<lambda>(wp, n). SwitchDescriptor (switch (auto_key wp) n None True (attr wp)))
    [(''1.1.1'', ''Switch''), (''2.1.1'', ''Switch''), (''3.1.1'', ''Switch 1'')]"
  by (simp add: classified_def endpoint_ids_def gang_def trait_endpoint_def new_trait_def classify_endpoint_def by_endpoint_def
      apply_platform_overrides_def device_type_def forced_traits_def select_composer_def fallback_compose_def map_filter_simps
      descriptor_for_trait_def fallback_platform_def build_descriptor_def wire_of_def or_text_def ec_def Let_def switch_def)

theorem names_told_apart_witness:
  "map name_of (classify_v3 [] gang None) = [''Switch 1'', ''Switch 2'', ''Switch 1''] \<and>
   name_of (disambiguate_names (classified [] gang None) ! 0) \<noteq> name_of (disambiguate_names (classified [] gang None) ! 1)"
proof
  show "map name_of (classify_v3 [] gang None) = [''Switch 1'', ''Switch 2'', ''Switch 1'']"
    unfolding classify_v3_def gang_simps by code_simp
  have "name_of (classified [] gang None ! 0) = name_of (classified [] gang None ! 1)" "\<not> in_zone (classified [] gang None ! 0)"
    unfolding gang_simps by code_simp+
  then show "name_of (disambiguate_names (classified [] gang None) ! 0) \<noteq> name_of (disambiguate_names (classified [] gang None) ! 1)"
    using names_told_apart [of 0 "classified [] gang None" 1] by (simp add: gang_simps)
qed

text \<open>A curtain with its motor status, and a lock.\<close>

definition motor_status :: trait_spec where
  "motor_status = (new_trait ''1.2.3'' ''Motor'')\<lparr>t_wire_path := Some ''1.2.3'', t_data_type := ''enum'',
     t_enum_values := Some [(''0'', ''Stopped''), (''1'', ''Opening'')], t_function_code := Some ''WindowCovering'',
     t_trait_code := Some ''MotorOperationStatus'', t_endpoint := Some 1\<rparr>"

definition lock_state :: trait_spec where
  "lock_state = (new_trait ''1.4.1'' ''Lock state'')\<lparr>t_wire_path := Some ''1.4.1'', t_data_type := ''enum'',
     t_enum_values := Some [(''1'', ''Locked''), (''2'', ''Unlocked'')], t_function_code := Some ''DoorLock'',
     t_trait_code := Some ''LockState'', t_endpoint := Some 1\<rparr>"

lemma witness_traits: "filed [(''1.2.3'', motor_status)]" "filed [(''1.4.1'', lock_state)]"
  by (simp_all add: filed_def dict_ok_def own_path_def motor_status_def lock_state_def new_trait_def ascii_digit_def char_code_def)

theorem unhashable_descriptors_witness:
  "\<exists>d \<in> set (classify_v3 [(1, Some ''WindowCovering'')] [(''1.2.3'', motor_status)] None). \<not> hashable d"
  using unhashable_descriptors [of "[(''1.2.3'', motor_status)]" "[(1, Some ''WindowCovering'')]"]
  by (simp add: listed_def device_type_def trait_endpoint_def enums_def motor_status_def new_trait_def trait_hashable_def)

theorem every_trait_shown_witness:
  "\<exists>d \<in> set (classify_v3 [(1, Some ''WindowCovering'')] [(''1.2.3'', motor_status)] None). carries d ''1.2.3''"
  using every_trait_shown [OF witness_traits(1), of "''1.2.3''" motor_status None "[(1, Some ''WindowCovering'')]"]
  by (simp add: left_out_def device_type_def trait_endpoint_def motor_status_def new_trait_def)

theorem unique_ids_witness:
  "distinct (map key_of (build_descriptors \<lparr>m_endpoints = [(1, Some ''DoorLock'')], m_traits = [(''1.4.1'', lock_state)], m_settings = []\<rparr> [])) \<and>
   map key_of (build_descriptors \<lparr>m_endpoints = [(1, Some ''DoorLock'')], m_traits = [(''1.4.1'', lock_state)], m_settings = []\<rparr> []) =
     [''auto_1_4_1'', ''auto_1_4_1_binary'']"
proof
  let ?m = "\<lparr>m_endpoints = [(1, Some ''DoorLock'')], m_traits = [(''1.4.1'', lock_state)], m_settings = []\<rparr>"
  have m: "merge_overlay_into_catalogue [(''1.4.1'', lock_state)] [] = [(''1.4.1'', lock_state)]"
    by (simp add: merge_overlay_into_catalogue_def)
  then show "distinct (map key_of (build_descriptors ?m []))" using unique_ids [of ?m "[]"] witness_traits(2) by simp
  show "map key_of (build_descriptors ?m []) = [''auto_1_4_1'', ''auto_1_4_1_binary'']"
    unfolding build_descriptors_def model_data.simps m
    by (simp add: classify_v3_def classified_def endpoint_ids_def trait_endpoint_def lock_state_def new_trait_def
        classify_endpoint_def by_endpoint_def apply_platform_overrides_def device_type_def forced_traits_def select_composer_def
        get_composer_def COMPOSERS_def compose_with_def map_filter_simps door_lock_def DUAL_STATE_TRAITS_def build_descriptor_def Let_def
        wire_of_def or_text_def enums_def sensor_def binary_for_def binary_sensor_def binary_key_def auto_key_def fallback_compose_def
        build_setting_descriptors_def)
qed

end
