(* ===== verification/Observed.thy ===== *)
theory Observed
  imports Overlay "HOL-Library.List_Lexorder" "HOL-Library.Char_ord"
begin

text \<open>
  \<open>device/observed_path_cache.py\<close>: the wire paths seen on the tunnel that neither catalogue nor overlay knows,
  by model and device. A table maps a model to its devices and a device to its set of paths. The debounced
  saves and the calls of the notification callback are counted.
\<close>

section \<open>The cache\<close>

type_synonym path_table = "(string, (string, string set) dict) dict"

record observed =
  oc_data :: path_table
  oc_new :: path_table
  oc_saves :: nat
  oc_calls :: nat

definition new_cache :: observed where
  "new_cache = \<lparr>oc_data = [], oc_new = [], oc_saves = 0, oc_calls = 0\<rparr>"

definition bucket :: "string \<Rightarrow> string \<Rightarrow> path_table \<Rightarrow> string set" where
  "bucket m did t = (case dget (entries m t) did of None \<Rightarrow> {} | Some s \<Rightarrow> s)"

definition add_path :: "string \<Rightarrow> string \<Rightarrow> string \<Rightarrow> path_table \<Rightarrow> path_table" where
  "add_path m did p t = dset m (dset did (insert p (bucket m did t)) (entries m t)) t"

definition record_path :: "string \<Rightarrow> string \<Rightarrow> string \<Rightarrow> observed \<Rightarrow> observed" where
  "record_path did m p oc =
     (if did = [] \<or> m = [] \<or> p = [] then oc
      else if p \<in> bucket m did (oc_data oc) then oc
      else \<lparr>oc_data = add_path m did p (oc_data oc), oc_new = add_path m did p (oc_new oc),
            oc_saves = Suc (oc_saves oc), oc_calls = Suc (oc_calls oc)\<rparr>)"

text \<open>Loading: a store that fails or holds no object is empty; lists of the first version are dropped.\<close>

definition string_values :: "json list \<Rightarrow> string list" where
  "string_values ps = List.map_filter (\<lambda>v. case v of JStr s \<Rightarrow> Some s | _ \<Rightarrow> None) ps"

fun load_dids :: "(string \<times> json) list \<Rightarrow> (string, string set) dict \<Rightarrow> (string, string set) dict" where
  "load_dids [] b = b"
| "load_dids ((did, JList ps) # ds) b = load_dids ds (dset did (set (string_values ps)) b)"
| "load_dids (_ # ds) b = load_dids ds b"

fun load_observed :: "(string \<times> json) list \<Rightarrow> path_table \<Rightarrow> path_table" where
  "load_observed [] t = t"
| "load_observed ((m, JObj by_did) # ms) t = load_observed ms (dset m (load_dids by_did (entries m t)) t)"
| "load_observed (_ # ms) t = load_observed ms t"

definition cache_load :: "stored \<Rightarrow> observed \<Rightarrow> observed" where
  "cache_load st oc = oc\<lparr>oc_data := (case st of Stored (JObj raw) \<Rightarrow> load_observed raw [] | _ \<Rightarrow> []), oc_new := []\<rparr>"

definition snapshot :: "observed \<Rightarrow> json" where
  "snapshot oc = JObj (map (\<lambda>(m, by_did). (m, JObj (map (\<lambda>(did, ps). (did, JList (map JStr (sorted_list_of_set ps)))) by_did))) (oc_data oc))"

text \<open>Pruning what the trait policy drops by now; the number of paths removed.\<close>

definition prune_dids :: "string set \<Rightarrow> (string, string set) dict \<Rightarrow> (string, string set) dict" where
  "prune_dids dropped by_did = filter (\<lambda>(did, ps). ps \<noteq> {}) (map (\<lambda>(did, ps). (did, ps - dropped)) by_did)"

definition prune_table :: "(string \<Rightarrow> string set) \<Rightarrow> path_table \<Rightarrow> path_table" where
  "prune_table lookup t =
     List.map_filter (\<lambda>(m, by_did).
       if lookup m = {} then Some (m, by_did)
       else if prune_dids (lookup m) by_did = [] then None
       else Some (m, prune_dids (lookup m) by_did)) t"

definition pruned_count :: "(string \<Rightarrow> string set) \<Rightarrow> path_table \<Rightarrow> nat" where
  "pruned_count lookup t = (\<Sum>(m, by_did) \<leftarrow> t. \<Sum>(did, ps) \<leftarrow> by_did. card (ps \<inter> lookup m))"

definition prune_dropped_paths :: "(string \<Rightarrow> string set) \<Rightarrow> observed \<Rightarrow> nat \<times> observed" where
  "prune_dropped_paths lookup oc =
     (let n = pruned_count lookup (oc_data oc)
      in (n, oc\<lparr>oc_data := prune_table lookup (oc_data oc), oc_saves := (if n \<noteq> 0 then Suc (oc_saves oc) else oc_saves oc)\<rparr>))"

definition get_paths :: "string \<Rightarrow> observed \<Rightarrow> string set" where
  "get_paths m oc = \<Union>(snd ` set (entries m (oc_data oc)))"

definition models :: "observed \<Rightarrow> string list" where
  "models oc = map fst (oc_data oc)"

definition new_paths_count :: "observed \<Rightarrow> nat" where
  "new_paths_count oc = (\<Sum>(m, by_did) \<leftarrow> oc_new oc. \<Sum>(did, ps) \<leftarrow> by_did. card ps)"

record new_paths =
  np_did :: string
  np_model :: string
  np_paths :: "string set"

definition new_paths_by_device :: "observed \<Rightarrow> new_paths list" where
  "new_paths_by_device oc =
     concat (map (\<lambda>m. List.map_filter (\<lambda>did. if bucket m did (oc_new oc) = {} then None
         else Some \<lparr>np_did = did, np_model = m, np_paths = bucket m did (oc_new oc)\<rparr>) (sort (map fst (entries m (oc_new oc)))))
       (sort (map fst (oc_new oc))))"

section \<open>Tables as sets of paths\<close>

definition paths_of :: "path_table \<Rightarrow> (string \<times> string \<times> string) set" where
  "paths_of t = {(m, did, p). p \<in> bucket m did t}"

definition table_ok :: "path_table \<Rightarrow> bool" where
  "table_ok t = (dict_ok t \<and> (\<forall>(m, by_did) \<in> set t. dict_ok by_did \<and> (\<forall>(did, ps) \<in> set by_did. finite ps)))"

lemma no_triples [simp]: "{(a, b, c). False} = {}"
  by auto

lemma entries_dset: "entries m (dset k v t) = (if m = k then v else entries m t)"
  by (simp add: entries_def)

lemma bucket_add: "bucket m did (add_path m' did' p t) = (if m = m' \<and> did = did' then insert p (bucket m did t) else bucket m did t)"
  by (simp add: bucket_def add_path_def entries_dset)

lemma paths_add: "paths_of (add_path m did p t) = insert (m, did, p) (paths_of t)"
  by (auto simp: paths_of_def bucket_add split: if_splits)

lemma entries_ok: "table_ok t \<Longrightarrow> dict_ok (entries m t) \<and> (\<forall>(did, ps) \<in> set (entries m t). finite ps)"
  by (auto simp: table_ok_def entries_def split: option.splits dest!: map_of_SomeD)

lemma bucket_finite: "table_ok t \<Longrightarrow> finite (bucket m did t)"
  using entries_ok [of t m] by (auto simp: bucket_def split: option.splits dest!: map_of_SomeD)

lemma dset_entry_ok:
  assumes "dict_ok d" "\<forall>(k, v) \<in> set d. P v" "P v"
  shows "dict_ok (dset k v d) \<and> (\<forall>(k, v) \<in> set (dset k v d). P v)"
  using assms set_dset [of k v d] by auto

lemma table_ok_add: "table_ok t \<Longrightarrow> table_ok (add_path m did p t)"
proof -
  assume t: "table_ok t"
  note e = entries_ok [OF t, of m]
  have "dict_ok (dset did (insert p (bucket m did t)) (entries m t)) \<and>
      (\<forall>(did, ps) \<in> set (dset did (insert p (bucket m did t)) (entries m t)). finite ps)"
    using dset_entry_ok [of "entries m t" finite "insert p (bucket m did t)" did] e bucket_finite [OF t] by auto
  then show ?thesis
    using t dset_entry_ok [of t "\<lambda>b. dict_ok b \<and> (\<forall>(did, ps) \<in> set b. finite ps)"] unfolding table_ok_def add_path_def by auto
qed

lemma bucket_Cons: "bucket m did ((k, b) # t) = (if m = k then (case dget b did of None \<Rightarrow> {} | Some s \<Rightarrow> s) else bucket m did t)"
  by (simp add: bucket_def entries_def)

lemma inner_card:
  "dict_ok b \<Longrightarrow> (\<forall>(did, ps) \<in> set b. finite ps) \<Longrightarrow>
   finite {(did, p). p \<in> (case dget b did of None \<Rightarrow> {} | Some s \<Rightarrow> s)} \<and>
   card {(did, p). p \<in> (case dget b did of None \<Rightarrow> {} | Some s \<Rightarrow> s)} = (\<Sum>(did, ps) \<leftarrow> b. card ps)"
proof (induction b)
  case (Cons x b)
  obtain k s where x: "x = (k, s)" by force
  let ?S = "\<lambda>b. {(did, p). p \<in> (case dget b did of None \<Rightarrow> {} | Some s \<Rightarrow> s)}"
  have k: "dget b k = None" using Cons.prems x by (auto simp: dict_ok_def map_of_eq_None_iff)
  then have "?S (x # b) = Pair k ` s \<union> ?S b" "Pair k ` s \<inter> ?S b = {}" using x by (auto split: if_splits)
  moreover have "finite (Pair k ` s)" "card (Pair k ` s) = card s" using Cons.prems x by (auto intro: card_image simp: inj_on_def)
  ultimately show ?case using Cons x by (simp add: card_Un_disjoint dict_ok_def)
qed simp

lemma paths_card: "table_ok t \<Longrightarrow> finite (paths_of t) \<and> card (paths_of t) = (\<Sum>(m, b) \<leftarrow> t. \<Sum>(did, ps) \<leftarrow> b. card ps)"
proof (induction t)
  case Nil
  then show ?case by (simp add: paths_of_def bucket_def entries_def)
next
  case (Cons x t)
  obtain k b where x: "x = (k, b)" by force
  let ?S = "{(did, p). p \<in> (case dget b did of None \<Rightarrow> {} | Some s \<Rightarrow> s)}"
  have t: "table_ok t" "dict_ok b" "\<forall>(did, ps) \<in> set b. finite ps" using Cons.prems x by (auto simp: table_ok_def dict_ok_def)
  have "dget t k = None" using Cons.prems x by (auto simp: table_ok_def dict_ok_def map_of_eq_None_iff)
  then have n: "bucket k did t = {}" for did by (simp add: bucket_def entries_def)
  have "paths_of (x # t) = Pair k ` ?S \<union> paths_of t" "Pair k ` ?S \<inter> paths_of t = {}"
    using n by (auto simp: x paths_of_def bucket_Cons split: if_splits)
  moreover have "finite (Pair k ` ?S)" "card (Pair k ` ?S) = (\<Sum>(did, ps) \<leftarrow> b. card ps)"
    using inner_card [OF t(2,3)] by (simp_all add: card_image inj_on_def)
  ultimately show ?case using Cons.IH [OF t(1)] x by (simp add: card_Un_disjoint)
qed

section \<open>What the cache remembers\<close>

definition sightings :: "(string \<times> string \<times> string) list \<Rightarrow> (string \<times> string \<times> string) set" where
  "sightings rs = {(m, did, p). (did, m, p) \<in> set rs \<and> did \<noteq> [] \<and> m \<noteq> [] \<and> p \<noteq> []}"

definition record_all :: "(string \<times> string \<times> string) list \<Rightarrow> observed \<Rightarrow> observed" where
  "record_all rs oc = fold (\<lambda>(did, m, p). record_path did m p) rs oc"

definition cache_ok :: "observed \<Rightarrow> bool" where
  "cache_ok oc = (table_ok (oc_data oc) \<and> table_ok (oc_new oc) \<and> paths_of (oc_new oc) \<subseteq> paths_of (oc_data oc))"

lemma record_path_cache:
  "cache_ok oc \<Longrightarrow> cache_ok (record_path did m p oc)"
  by (auto simp: record_path_def cache_ok_def table_ok_add paths_add)

lemma record_path_paths:
  "paths_of (oc_data (record_path did m p oc)) = paths_of (oc_data oc) \<union> sightings [(did, m, p)]"
proof (cases "did = [] \<or> m = [] \<or> p = [] \<or> p \<in> bucket m did (oc_data oc)")
  case True
  then show ?thesis by (auto simp: record_path_def sightings_def paths_of_def)
next
  case False
  then have "sightings [(did, m, p)] = {(m, did, p)}" by (auto simp: sightings_def)
  then show ?thesis using False by (simp add: record_path_def paths_add)
qed

lemma record_path_new:
  "paths_of (oc_new (record_path did m p oc)) = paths_of (oc_new oc) \<union> (sightings [(did, m, p)] - paths_of (oc_data oc))"
proof (cases "did = [] \<or> m = [] \<or> p = [] \<or> p \<in> bucket m did (oc_data oc)")
  case True
  then show ?thesis by (auto simp: record_path_def sightings_def paths_of_def)
next
  case False
  then have "sightings [(did, m, p)] = {(m, did, p)}" by (auto simp: sightings_def)
  moreover have "{(m, did, p)} - paths_of (oc_data oc) = {(m, did, p)}" using False by (auto simp: paths_of_def)
  ultimately show ?thesis using False by (simp add: record_path_def paths_add)
qed

lemma record_all_facts:
  assumes "cache_ok oc"
  shows "cache_ok (record_all rs oc) \<and> paths_of (oc_data (record_all rs oc)) = paths_of (oc_data oc) \<union> sightings rs \<and>
    paths_of (oc_new (record_all rs oc)) = paths_of (oc_new oc) \<union> (sightings rs - paths_of (oc_data oc)) \<and>
    oc_calls (record_all rs oc) + card (paths_of (oc_new oc)) = oc_calls oc + card (paths_of (oc_new (record_all rs oc)))"
  using assms
proof (induction rs arbitrary: oc)
  case Nil
  then show ?case by (simp add: record_all_def sightings_def)
next
  case (Cons r rs)
  obtain did m p where r: "r = (did, m, p)" by (metis prod_cases3)
  let ?o = "record_path did m p oc"
  have step: "record_all (r # rs) oc = record_all rs ?o" by (simp add: record_all_def r)
  note ih = Cons.IH [OF record_path_cache [OF Cons.prems], of did m p]
  have s: "sightings (r # rs) = sightings [(did, m, p)] \<union> sightings rs" by (auto simp: sightings_def r)
  have new: "paths_of (oc_new ?o) = paths_of (oc_new oc) \<union> (sightings [(did, m, p)] - paths_of (oc_data oc))"
    by (rule record_path_new)
  have fin: "finite (paths_of (oc_new oc))" using paths_card Cons.prems by (auto simp: cache_ok_def)
  have "oc_calls ?o + card (paths_of (oc_new oc)) = oc_calls oc + card (paths_of (oc_new ?o))"
  proof (cases "did = [] \<or> m = [] \<or> p = [] \<or> p \<in> bucket m did (oc_data oc)")
    case False
    then have "(m, did, p) \<notin> paths_of (oc_new oc)" using Cons.prems by (auto simp: cache_ok_def paths_of_def)
    then show ?thesis using False fin by (simp add: record_path_def paths_add)
  qed (auto simp: record_path_def)
  moreover have "paths_of (oc_new ?o) \<union> (sightings rs - paths_of (oc_data ?o)) =
      paths_of (oc_new oc) \<union> (sightings [(did, m, p)] \<union> sightings rs - paths_of (oc_data oc))"
    unfolding new record_path_paths by blast
  moreover have "oc_calls (record_all rs ?o) + card (paths_of (oc_new oc)) = oc_calls oc + card (paths_of (oc_new (record_all rs ?o)))"
    using ih \<open>oc_calls ?o + card (paths_of (oc_new oc)) = oc_calls oc + card (paths_of (oc_new ?o))\<close> by linarith
  ultimately show ?case unfolding step s using ih record_path_paths [of did m p oc] by (simp add: Un_assoc)
qed

lemma load_dids_ok: "dict_ok b \<Longrightarrow> (\<forall>(did, ps) \<in> set b. finite ps) \<Longrightarrow>
  dict_ok (load_dids ds b) \<and> (\<forall>(did, ps) \<in> set (load_dids ds b). finite ps)"
proof (induction ds b rule: load_dids.induct)
  case (2 did ps ds b)
  show ?case using "2.IH" dset_entry_ok [OF "2.prems", of "set (string_values ps)" did] by simp
qed simp_all

lemma load_observed_ok: "table_ok t \<Longrightarrow> table_ok (load_observed ms t)"
proof (induction ms t rule: load_observed.induct)
  case (2 m by_did ms t)
  have "dict_ok (load_dids by_did (entries m t)) \<and> (\<forall>(did, ps) \<in> set (load_dids by_did (entries m t)). finite ps)"
    using load_dids_ok entries_ok [OF "2.prems"] by blast
  then have "table_ok (dset m (load_dids by_did (entries m t)) t)"
    using "2.prems" dset_entry_ok [of t "\<lambda>b. dict_ok b \<and> (\<forall>(did, ps) \<in> set b. finite ps)"] unfolding table_ok_def by auto
  then show ?case using "2.IH" by simp
qed simp_all

lemma cache_load_ok: "cache_ok (cache_load st oc)"
proof -
  have "table_ok []" by (simp add: table_ok_def)
  moreover have "oc_data (cache_load st oc) = [] \<or> (\<exists>raw. oc_data (cache_load st oc) = load_observed raw [])"
    by (auto simp: cache_load_def split: stored.splits json.splits)
  ultimately have "table_ok (oc_data (cache_load st oc))" using load_observed_ok by metis
  then show ?thesis by (simp add: cache_ok_def table_ok_def) (simp add: cache_load_def paths_of_def bucket_def entries_def)
qed

text \<open>
  After loading, whatever the store gave, and any sequence of sightings: the cache knows the stored paths and
  those seen; the new ones are exactly the seen ones the store did not have; the count shown to the
  user is their number, and the callback has run once for each of them, never for a path seen again.
\<close>

theorem candidate_paths:
  "paths_of (oc_data (record_all rs (cache_load st oc))) = paths_of (oc_data (cache_load st oc)) \<union> sightings rs \<and>
   paths_of (oc_new (record_all rs (cache_load st oc))) = sightings rs - paths_of (oc_data (cache_load st oc)) \<and>
   new_paths_count (record_all rs (cache_load st oc)) = card (sightings rs - paths_of (oc_data (cache_load st oc))) \<and>
   oc_calls (record_all rs (cache_load st oc)) = oc_calls oc + card (sightings rs - paths_of (oc_data (cache_load st oc)))"
proof -
  let ?c = "cache_load st oc"
  note f = record_all_facts [OF cache_load_ok, of rs st oc]
  have e: "paths_of (oc_new ?c) = {}" "oc_calls ?c = oc_calls oc" by (simp_all add: cache_load_def paths_of_def bucket_def entries_def)
  have "new_paths_count (record_all rs ?c) = card (paths_of (oc_new (record_all rs ?c)))"
    using f paths_card [of "oc_new (record_all rs ?c)"] by (simp add: cache_ok_def new_paths_count_def)
  then show ?thesis using f e by simp
qed

lemma string_values_JStr: "string_values (map JStr xs) = xs"
  by (induction xs) (simp_all add: string_values_def map_filter_simps)

lemma load_dids_snapshot:
  "dict_ok (b @ ds) \<Longrightarrow> (\<forall>(did, ps) \<in> set ds. finite ps) \<Longrightarrow>
   load_dids (map (\<lambda>(did, ps). (did, JList (map JStr (sorted_list_of_set ps)))) ds) b = b @ ds"
proof (induction ds arbitrary: b)
  case (Cons x ds)
  obtain did ps where x: "x = (did, ps)" by force
  have "did \<notin> fst ` set b" "dict_ok ((b @ [x]) @ ds)" using Cons.prems(1) x by (auto simp: dict_ok_def)
  then show ?case using Cons.IH [of "b @ [x]"] Cons.prems(2) x by (simp add: string_values_JStr dset_append)
qed simp

lemma load_observed_snapshot:
  "dict_ok (t @ ms) \<Longrightarrow> (\<forall>(m, b) \<in> set ms. dict_ok b \<and> (\<forall>(did, ps) \<in> set b. finite ps)) \<Longrightarrow>
   load_observed (map (\<lambda>(m, b). (m, JObj (map (\<lambda>(did, ps). (did, JList (map JStr (sorted_list_of_set ps)))) b))) ms) t = t @ ms"
proof (induction ms arbitrary: t)
  case (Cons x ms)
  obtain m b where x: "x = (m, b)" by force
  have m: "m \<notin> fst ` set t" "dict_ok ((t @ [x]) @ ms)" using Cons.prems(1) x by (auto simp: dict_ok_def)
  then have "entries m t = []" by (simp add: entries_def map_of_eq_None_iff [THEN iffD2])
  then show ?case using Cons.IH [OF m(2)] Cons.prems(2) x m(1) load_dids_snapshot [of "[]" b] by (simp add: dset_append)
qed simp

text \<open>
  Saving the cache and loading it gives the same table, in the same order, with nothing counted as new.
\<close>

theorem observed_restart:
  assumes "table_ok (oc_data oc)"
  shows "oc_data (cache_load (Stored (snapshot oc)) oc') = oc_data oc \<and> new_paths_count (cache_load (Stored (snapshot oc)) oc') = 0"
  using load_observed_snapshot [of "[]" "oc_data oc"] assms
  by (simp add: cache_load_def snapshot_def table_ok_def new_paths_count_def)

theorem observed_restart_witness:
  "oc_data (cache_load (Stored (snapshot (record_all [(''d'', ''m'', ''1.2.3''), (''d'', ''m'', ''1.2.1'')] new_cache))) new_cache) =
   [(''m'', [(''d'', {''1.2.1'', ''1.2.3''})])]"
proof -
  let ?o = "record_all [(''d'', ''m'', ''1.2.3''), (''d'', ''m'', ''1.2.1'')] new_cache"
  have d: "oc_data ?o = [(''m'', [(''d'', {''1.2.1'', ''1.2.3''})])]"
    by (simp add: record_all_def record_path_def new_cache_def bucket_def entries_def add_path_def)
  then show ?thesis using observed_restart [of ?o new_cache] by (simp add: table_ok_def dict_ok_def)
qed

lemma prune_dids_bucket:
  "dict_ok b \<Longrightarrow> (case dget (prune_dids D b) did of None \<Rightarrow> {} | Some s \<Rightarrow> s) = (case dget b did of None \<Rightarrow> {} | Some s \<Rightarrow> s) - D"
proof (induction b)
  case (Cons x b)
  obtain k s where x: "x = (k, s)" by force
  have b: "dict_ok b" "k \<notin> fst ` set b" using Cons.prems x by (auto simp: dict_ok_def)
  then have "dget b k = None" by (simp add: map_of_eq_None_iff)
  moreover have "k \<notin> fst ` set (prune_dids D b)" using b(2) by (auto simp: prune_dids_def image_iff)
  then have "dget (prune_dids D b) k = None" by (simp add: map_of_eq_None_iff)
  moreover have "prune_dids D (x # b) = (if s - D = {} then [] else [(k, s - D)]) @ prune_dids D b" by (simp add: prune_dids_def x)
  ultimately show ?case using Cons.IH [OF b(1)] x by auto
qed (simp add: prune_dids_def)

lemma prune_table_bucket: "table_ok t \<Longrightarrow> bucket m did (prune_table lookup t) = bucket m did t - lookup m"
proof (induction t)
  case Nil
  then show ?case by (simp add: prune_table_def map_filter_simps bucket_def entries_def)
next
  case (Cons x t)
  obtain k b where x: "x = (k, b)" by force
  have t: "table_ok t" "dict_ok b" "k \<notin> fst ` set t" using Cons.prems x by (auto simp: table_ok_def dict_ok_def)
  have "bucket k did t = {}" using t(3) by (simp add: bucket_def entries_def map_of_eq_None_iff [THEN iffD2])
  then have n: "bucket k did (prune_table lookup t) = {}" if "k = m" using Cons.IH [OF t(1)] that by simp
  have p: "prune_table lookup (x # t) = (if lookup k = {} then [(k, b)] else if prune_dids (lookup k) b = [] then []
      else [(k, prune_dids (lookup k) b)]) @ prune_table lookup t"
    by (simp add: prune_table_def x map_filter_simps)
  show ?case
  proof (cases "k = m")
    case True
    have "bucket m did (b' @ prune_table lookup t) = (case dget b' m of None \<Rightarrow> {} | Some e \<Rightarrow> (case dget e did of None \<Rightarrow> {} | Some s \<Rightarrow> s))"
      if "dget b' m \<noteq> None" for b' using that by (auto simp: bucket_def entries_def map_add_def)
    then show ?thesis using n [OF True] prune_dids_bucket [OF t(2), of "lookup k" did] True unfolding p unfolding x
      by (auto simp: bucket_Cons)
  next
    case False
    then show ?thesis using Cons.IH [OF t(1)] unfolding p unfolding x by (simp add: bucket_Cons)
  qed
qed

lemma entries_map: "entries m (map (\<lambda>(m, b). (m, f m b)) t) = (case dget t m of None \<Rightarrow> [] | Some b \<Rightarrow> f m b)"
  by (induction t) (auto simp: entries_def)

text \<open>
  Pruning removes exactly the paths the policy drops for their model and reports how many they were; a save is
  scheduled only when there was one.
\<close>

theorem prune_exact:
  assumes "table_ok (oc_data oc)"
  shows "case prune_dropped_paths lookup oc of (n, oc') \<Rightarrow>
    paths_of (oc_data oc') = {(m, did, p). (m, did, p) \<in> paths_of (oc_data oc) \<and> p \<notin> lookup m} \<and>
    n = card {(m, did, p). (m, did, p) \<in> paths_of (oc_data oc) \<and> p \<in> lookup m} \<and>
    oc_saves oc' = oc_saves oc + (if n = 0 then 0 else 1)"
proof -
  let ?t = "oc_data oc"
  have p: "paths_of (prune_table lookup ?t) = {(m, did, p). (m, did, p) \<in> paths_of ?t \<and> p \<notin> lookup m}"
    using prune_table_bucket [OF assms] by (auto simp: paths_of_def)
  define u where "u = map (\<lambda>(m, b). (m, map (\<lambda>(did, ps). (did, ps \<inter> lookup m)) b)) ?t"
  have u: "table_ok u" using assms by (auto simp: u_def table_ok_def dict_ok_def comp_def case_prod_unfold)
  have "map_of (map (\<lambda>(did, ps). (did, ps \<inter> D)) b) = map_option (\<lambda>ps. ps \<inter> D) \<circ> map_of b" for D and b :: "(string, string set) dict"
    by (induction b) auto
  then have e: "entries m u = map (\<lambda>(did, ps). (did, ps \<inter> lookup m)) (entries m ?t)" for m
    unfolding u_def entries_map by (simp add: entries_def split: option.split)
  have "bucket m did u = bucket m did ?t \<inter> lookup m" for m did
    unfolding bucket_def e using \<open>\<And>D b. map_of (map (\<lambda>(did, ps). (did, ps \<inter> D)) b) = map_option (\<lambda>ps. ps \<inter> D) \<circ> map_of b\<close>
    by (auto split: option.splits)
  then have "paths_of u = {(m, did, p). (m, did, p) \<in> paths_of ?t \<and> p \<in> lookup m}" by (auto simp: paths_of_def)
  moreover have "pruned_count lookup ?t = card (paths_of u)"
    using paths_card [OF u] by (simp add: pruned_count_def u_def comp_def case_prod_unfold)
  ultimately show ?thesis using p by (simp add: prune_dropped_paths_def Let_def)
qed

end
