(* ===== verification/Device.thy ===== *)
theory Device
  imports Derive_Checks Observed
begin

text \<open>
  \<open>device/base.py\<close>: a device with its descriptors, the indices from wire paths to descriptors, the entities bound to
  them, the seeded initial values, and the dispatch of reports. A descriptor is identified by its position in the
  device's list where the code compares object identities, and by its value where it is a dictionary key. What
  an entity is told is logged; an exception of an entity is caught and logged by the code.
\<close>

section \<open>Keys of reports\<close>

definition canonicalize_report_key :: "string \<Rightarrow> string" where
  "canonicalize_report_key key =
     (let parts = split_on (CHR ''.'') key
      in if 3 < length parts \<and> is_digits (last parts) then join_with (CHR ''.'') (butlast parts) else key)"

definition is_numeric_path :: "string \<Rightarrow> bool" where
  "is_numeric_path key = (let parts = split_on (CHR ''.'') key in \<not> length parts < 3 \<and> list_all is_digits parts)"

section \<open>The device\<close>

type_synonym entity = nat

text \<open>One call of \<open>apply_value\<close>: entity, value, component of a light.\<close>

type_synonym 'v delivery = "entity \<times> 'v \<times> string option"

record 'v device =
  dv_model :: string
  dv_did :: string
  dv_descriptors :: "descriptor list"
  dv_entities :: "(descriptor, entity) dict"
  dv_pending :: "(string, 'v list) dict"
  dv_delivered :: "string set"
  dv_by_trait :: "(string, nat list) dict"
  dv_by_attr :: "(string, nat list) dict"
  dv_known :: "string set"

definition index_add :: "string \<Rightarrow> nat \<Rightarrow> (string, nat list) dict \<Rightarrow> (string, nat list) dict" where
  "index_add key i table = dset key ((case dget table key of None \<Rightarrow> [] | Some l \<Rightarrow> l) @ [i]) table"

definition index_if :: "string \<Rightarrow> nat \<Rightarrow> (string, nat list) dict \<Rightarrow> (string, nat list) dict" where
  "index_if key i table = (if key = [] then table else index_add key i table)"

text \<open>The trait ids and attribute names a descriptor is indexed under, in order.\<close>

definition opt_list :: "'a option \<Rightarrow> 'a list" where
  "opt_list v = (case v of None \<Rightarrow> [] | Some x \<Rightarrow> [x])"

fun trait_ids :: "descriptor \<Rightarrow> string list" where
  "trait_ids (LightDescriptor d) = map t_id (li_power d # opt_list (li_brightness d) @ opt_list (li_color_temp d) @ opt_list (li_color_xy d))"
| "trait_ids (BinarySensorDescriptor d) = [t_id (b_trait d)]"
| "trait_ids (SensorDescriptor d) = map t_id (opt_list (sn_trait d))"
| "trait_ids (EventDescriptor d) = map t_id (opt_list (ev_trigger_trait d))"
| "trait_ids _ = []"

definition attr_names_of :: "attr_spec \<Rightarrow> attr_spec option \<Rightarrow> string list" where
  "attr_names_of a w = (if a_name a = [] then [] else a_name a # (case w of None \<Rightarrow> [] | Some b \<Rightarrow> if a_name b = a_name a then [] else [a_name b]))"

fun attr_names :: "descriptor \<Rightarrow> string list" where
  "attr_names (LightDescriptor d) =
     map a_name (li_power_attr d # opt_list (li_brightness_attr d) @ opt_list (li_color_temp_attr d) @ opt_list (li_color_xy_attr d))"
| "attr_names (BinarySensorDescriptor d) = []"
| "attr_names (SensorDescriptor d) = (case sn_attr d of None \<Rightarrow> [] | Some a \<Rightarrow> attr_names_of a None)"
| "attr_names (EventDescriptor d) = []"
| "attr_names (ButtonDescriptor d) = attr_names_of (bt_attr d) None"
| "attr_names (SwitchDescriptor d) = attr_names_of (sw_attr d) (sw_attr_write d)"
| "attr_names (SelectDescriptor d) = attr_names_of (sl_attr d) (sl_attr_write d)"
| "attr_names (NumberDescriptor d) = attr_names_of (nu_attr d) (nu_attr_write d)"
| "attr_names (TextDescriptor d) = attr_names_of (tx_attr d) (tx_attr_write d)"

definition build_index :: "(descriptor \<Rightarrow> string list) \<Rightarrow> descriptor list \<Rightarrow> (string, nat list) dict" where
  "build_index names ds = fold (\<lambda>(i, d). fold (\<lambda>n. index_if n i) (names d)) (enumerate 0 ds) []"

text \<open>\<open>Device.__init__\<close>: the derived descriptors, those of the class, or both.\<close>

definition effective_descriptors :: "bool \<Rightarrow> descriptor list \<Rightarrow> descriptor list \<Rightarrow> descriptor list" where
  "effective_descriptors augment class_list derived =
     (if augment then derived @ class_list else if class_list \<noteq> [] then class_list else derived)"

definition new_device :: "string \<Rightarrow> string \<Rightarrow> bool \<Rightarrow> descriptor list \<Rightarrow> descriptor list \<Rightarrow> 'v device" where
  "new_device model did augment class_list derived =
     (let ds = effective_descriptors augment class_list derived
      in \<lparr>dv_model = model, dv_did = did, dv_descriptors = ds, dv_entities = [], dv_pending = [], dv_delivered = {},
          dv_by_trait = build_index trait_ids ds, dv_by_attr = build_index attr_names ds, dv_known = {}\<rparr>)"

section \<open>Delivering values\<close>

definition LIGHT_COMPONENTS :: "string list" where
  "LIGHT_COMPONENTS = [''power'', ''brightness'', ''color_temp'', ''color_xy'']"

definition has_id :: "trait_spec option \<Rightarrow> string \<Rightarrow> bool" where
  "has_id t p = (case t of None \<Rightarrow> False | Some s \<Rightarrow> t_id s = p)"

definition light_component_for_trait :: "light_descriptor \<Rightarrow> string \<Rightarrow> string option" where
  "light_component_for_trait d p =
     (if t_id (li_power d) = p then Some ''power''
      else if has_id (li_brightness d) p then Some ''brightness''
      else if has_id (li_color_temp d) p then Some ''color_temp''
      else if has_id (li_color_xy d) p then Some ''color_xy''
      else None)"

text \<open>
  \<open>_apply\<close>: the lookup of the entity takes the descriptor's hash, and raises TypeError (None) when
  it has none.
\<close>

definition deliver :: "'v device \<Rightarrow> descriptor \<Rightarrow> 'v \<Rightarrow> string \<Rightarrow> 'v delivery list option" where
  "deliver dv d v p =
     (if \<not> hashable d then None
      else case dget (dv_entities dv) d of
             None \<Rightarrow> Some []
           | Some e \<Rightarrow>
               Some [(e, v, case d of LightDescriptor l \<Rightarrow> if p \<in> set LIGHT_COMPONENTS then Some p else light_component_for_trait l p
                            | _ \<Rightarrow> None)])"

fun deliver_all :: "'v device \<Rightarrow> nat list \<Rightarrow> nat set \<Rightarrow> 'v \<Rightarrow> string \<Rightarrow> 'v delivery list \<Rightarrow> bool \<times> 'v delivery list" where
  "deliver_all dv [] seen v p acc = (False, acc)"
| "deliver_all dv (i # is) seen v p acc =
     (if i \<in> seen then deliver_all dv is seen v p acc
      else case deliver dv (dv_descriptors dv ! i) v p of
             None \<Rightarrow> (True, acc)
           | Some out \<Rightarrow> deliver_all dv is (insert i seen) v p (acc @ out))"

definition targets :: "'v device \<Rightarrow> string \<Rightarrow> nat list" where
  "targets dv key = (case dget (dv_by_trait dv) key of None \<Rightarrow> [] | Some l \<Rightarrow> l) @ (case dget (dv_by_attr dv) key of None \<Rightarrow> [] | Some l \<Rightarrow> l)"

definition note_path :: "'v device \<Rightarrow> string \<Rightarrow> observed option \<Rightarrow> observed option" where
  "note_path dv key cache =
     (case cache of
        None \<Rightarrow> None
      | Some oc \<Rightarrow>
          if dv_model dv \<noteq> [] \<and> dv_did dv \<noteq> [] \<and> is_numeric_path key \<and> key \<notin> dv_known dv
          then Some (record_path (dv_did dv) (dv_model dv) key oc) else Some oc)"

text \<open>\<open>handle_report\<close>: whether it raised, what was delivered, and the cache afterwards.\<close>

fun handle_report :: "'v device \<Rightarrow> (string \<times> 'v) list \<Rightarrow> observed option \<Rightarrow> 'v delivery list \<Rightarrow> bool \<times> 'v delivery list \<times> observed option" where
  "handle_report dv [] cache acc = (False, acc, cache)"
| "handle_report dv ((raw, v) # vs) cache acc =
     (let key = canonicalize_report_key raw; cache = note_path dv key cache
      in case deliver_all dv (targets dv key) {} v key acc of
           (True, acc) \<Rightarrow> (True, acc, cache)
         | (False, acc) \<Rightarrow> handle_report dv vs cache acc)"

section \<open>Registration and seeds\<close>

definition should_replay_seed :: "descriptor \<Rightarrow> bool" where
  "should_replay_seed d =
     (case d of
        EventDescriptor _ \<Rightarrow> False
      | BinarySensorDescriptor b \<Rightarrow> \<not> truthy (b_auto_clear b) \<and> \<not> b_on_any_value b
      | _ \<Rightarrow> True)"

definition seed_initial_value :: "string \<Rightarrow> 'v \<Rightarrow> 'v device \<Rightarrow> 'v device" where
  "seed_initial_value p v dv =
     (if p = [] \<or> p \<in> dv_delivered dv then dv
      else dv\<lparr>dv_pending := dset p ((case dget (dv_pending dv) p of None \<Rightarrow> [] | Some l \<Rightarrow> l) @ [v]) (dv_pending dv)\<rparr>)"

text \<open>The seeds of one path, all delivered with the component of the path, or consumed silently.\<close>

definition replay :: "'v device \<Rightarrow> descriptor \<Rightarrow> string \<Rightarrow> 'v list \<Rightarrow> 'v delivery list" where
  "replay dv d p vs = concat (map (\<lambda>v. case deliver dv d v p of None \<Rightarrow> [] | Some out \<Rightarrow> out) vs)"

fun replay_paths :: "descriptor \<Rightarrow> (string \<times> string option) list \<Rightarrow> 'v device \<Rightarrow> 'v delivery list \<Rightarrow> 'v device \<times> 'v delivery list" where
  "replay_paths d [] dv acc = (dv, acc)"
| "replay_paths d ((p, c) # ps) dv acc =
     (if p \<in> dv_delivered dv then replay_paths d ps dv acc
      else case dget (dv_pending dv) p of
             None \<Rightarrow> replay_paths d ps dv acc
           | Some [] \<Rightarrow> replay_paths d ps (dv\<lparr>dv_pending := ddel p (dv_pending dv)\<rparr>) acc
           | Some seeds \<Rightarrow>
               let dv = dv\<lparr>dv_pending := ddel p (dv_pending dv), dv_delivered := insert p (dv_delivered dv)\<rparr>
               in replay_paths d ps dv
                    (if should_replay_seed d then acc @ replay dv d (case c of Some n \<Rightarrow> or_text n p | None \<Rightarrow> p) seeds else acc))"

text \<open>\<open>register_entity\<close>; None: TypeError, the descriptor has no hash.\<close>

definition register_entity :: "descriptor \<Rightarrow> entity \<Rightarrow> 'v device \<Rightarrow> ('v device \<times> 'v delivery list) option" where
  "register_entity d e dv =
     (if \<not> hashable d then None
      else Some (replay_paths d (descriptor_wire_paths d) (dv\<lparr>dv_entities := dset d e (dv_entities dv)\<rparr>) []))"

definition unregister :: "descriptor \<Rightarrow> entity \<Rightarrow> 'v device \<Rightarrow> 'v device" where
  "unregister d e dv = (if dget (dv_entities dv) d = Some e then dv\<lparr>dv_entities := ddel d (dv_entities dv)\<rparr> else dv)"

text \<open>\<open>fire_event\<close>: the entity that is triggered, if any.\<close>

definition fire_event :: "string \<Rightarrow> 'v device \<Rightarrow> entity option" where
  "fire_event key dv =
     (case find (\<lambda>d. (case d of EventDescriptor _ \<Rightarrow> True | _ \<Rightarrow> False) \<and> key_of d = key) (dv_descriptors dv) of
        None \<Rightarrow> None
      | Some d \<Rightarrow> dget (dv_entities dv) d)"

definition resolve_auto_clear_seconds :: "descriptor \<Rightarrow> json" where
  "resolve_auto_clear_seconds d = (case d of BinarySensorDescriptor b \<Rightarrow> b_auto_clear b | _ \<Rightarrow> JNull)"

section \<open>Metadata\<close>

record display_metadata =
  dm_manufacturer :: string
  dm_name :: string

record metadata =
  md_model :: json
  md_parent :: json
  md_manufacturer :: string
  md_display :: json

text \<open>
  \<open>resolve_subentry_metadata\<close> on the subentry's data, with the catalog's lookup (of a model that is a text) as a
  parameter. The cloud's record is an object: it was stored by the config flow.
\<close>

definition resolve_subentry_metadata :: "(json \<Rightarrow> display_metadata option) \<Rightarrow> obj \<Rightarrow> metadata" where
  "resolve_subentry_metadata display data =
     (let cloud = (case jget data ''_cloud_metadata'' (JObj []) of JObj r \<Rightarrow> r | _ \<Rightarrow> []);
          model = py_or (jget cloud ''model'' JNull) (jget data ''model'' (JStr []));
          gateway = (case py_int (jget cloud ''devicetype'' JNull) of Some t \<Rightarrow> t = 1 \<or> t = 8 | None \<Rightarrow> False);
          name = py_or (jget cloud ''deviceName'' JNull) (JStr [])
      in \<lparr>md_model = model,
          md_parent = (if gateway then JStr [] else py_or (jget cloud ''parentDeviceId'' JNull) (JStr [])),
          md_manufacturer = (case display model of Some m \<Rightarrow> dm_manufacturer m | None \<Rightarrow> ''Aqara''),
          md_display = (if truthy name then name else case display model of Some m \<Rightarrow> JStr (dm_name m) | None \<Rightarrow> model)\<rparr>)"

text \<open>The stand-in subentry of the tunnel host's own device.\<close>

record self_device =
  sd_did :: string
  sd_model :: string
  sd_camera_ip :: string
  sd_username :: string
  sd_password :: string
  sd_channel :: int

definition subentry_id :: "self_device \<Rightarrow> string" where
  "subentry_id s = ''self_'' @ sd_did s"

definition self_data :: "self_device \<Rightarrow> obj" where
  "self_data s = [(''did'', JStr (sd_did s)), (''model'', JStr (sd_model s))] @
     (if sd_camera_ip s = [] then []
      else [(''camera_ip'', JStr (sd_camera_ip s)), (''rtsp_username'', JStr (sd_username s)), (''rtsp_password'', JStr (sd_password s)),
            (''backchannel_channel'', JInt (sd_channel s))])"

section \<open>Indices\<close>

definition mentions :: "descriptor \<Rightarrow> string \<Rightarrow> bool" where
  "mentions d p = (p \<noteq> [] \<and> (p \<in> set (trait_ids d) \<or> p \<in> set (attr_names d)))"

definition lookup_index :: "(string, nat list) dict \<Rightarrow> string \<Rightarrow> nat set" where
  "lookup_index t key = (case dget t key of None \<Rightarrow> {} | Some l \<Rightarrow> set l)"

lemma lookup_index_if: "lookup_index (index_if n i t) key = lookup_index t key \<union> (if n = key \<and> key \<noteq> [] then {i} else {})"
  by (auto simp: lookup_index_def index_if_def index_add_def split: option.splits)

lemma lookup_index_names:
  "lookup_index (fold (\<lambda>n. index_if n i) ns t) key = lookup_index t key \<union> (if key \<noteq> [] \<and> key \<in> set ns then {i} else {})"
  by (induction ns arbitrary: t) (auto simp: lookup_index_if)

lemma lookup_fold:
  "lookup_index (fold (\<lambda>(i, d). fold (\<lambda>n. index_if n i) (names d)) xs t) key =
   lookup_index t key \<union> {i. \<exists>d. (i, d) \<in> set xs \<and> key \<noteq> [] \<and> key \<in> set (names d)}"
  by (induction xs arbitrary: t) (auto simp: lookup_index_names split: if_splits)

lemma build_index_lookup:
  "lookup_index (build_index names ds) key = {i. i < length ds \<and> key \<noteq> [] \<and> key \<in> set (names (ds ! i))}"
  by (auto simp: build_index_def lookup_fold in_set_enumerate_eq) (simp_all add: lookup_index_def)

definition indexed :: "'v device \<Rightarrow> bool" where
  "indexed dv = (dv_by_trait dv = build_index trait_ids (dv_descriptors dv) \<and> dv_by_attr dv = build_index attr_names (dv_descriptors dv))"

lemma set_targets: "indexed dv \<Longrightarrow> set (targets dv key) = {i. i < length (dv_descriptors dv) \<and> mentions (dv_descriptors dv ! i) key}"
proof -
  assume i: "indexed dv"
  have "set (targets dv key) = lookup_index (dv_by_trait dv) key \<union> lookup_index (dv_by_attr dv) key"
    by (simp add: targets_def lookup_index_def split: option.splits)
  then show ?thesis using i by (auto simp: indexed_def build_index_lookup mentions_def)
qed

section \<open>Dispatch\<close>

text \<open>The positions in the order of a first visit.\<close>

fun first_visits :: "nat list \<Rightarrow> nat set \<Rightarrow> nat list" where
  "first_visits [] seen = []"
| "first_visits (i # is) seen = (if i \<in> seen then first_visits is seen else i # first_visits is (insert i seen))"

lemma first_visits_facts: "distinct (first_visits is seen) \<and> set (first_visits is seen) = set is - seen"
  by (induction "is" seen rule: first_visits.induct) auto

definition told :: "'v device \<Rightarrow> 'v \<Rightarrow> string \<Rightarrow> nat \<Rightarrow> 'v delivery list" where
  "told dv v p i = (case deliver dv (dv_descriptors dv ! i) v p of None \<Rightarrow> [] | Some out \<Rightarrow> out)"

lemma deliver_all_hashable:
  "(\<forall>i \<in> set is. hashable (dv_descriptors dv ! i)) \<Longrightarrow>
   deliver_all dv is seen v p acc = (False, acc @ concat (map (told dv v p) (first_visits is seen)))"
  by (induction dv "is" seen v p acc rule: deliver_all.induct) (auto simp: told_def deliver_def split: option.splits)

lemma deliver_all_unhashable:
  "\<exists>i \<in> set is - seen. \<not> hashable (dv_descriptors dv ! i) \<Longrightarrow> fst (deliver_all dv is seen v p acc)"
proof (induction dv "is" seen v p acc rule: deliver_all.induct)
  case (2 dv i "is" seen v p acc)
  show ?case
  proof (cases "i \<in> seen \<or> \<not> hashable (dv_descriptors dv ! i)")
    case True
    then show ?thesis using 2 by (auto simp: deliver_def)
  next
    case False
    then obtain out where out: "deliver dv (dv_descriptors dv ! i) v p = Some out" by (cases "dget (dv_entities dv) (dv_descriptors dv ! i)") (simp_all add: deliver_def)
    have "\<exists>j \<in> set is - insert i seen. \<not> hashable (dv_descriptors dv ! j)" using "2.prems" False by auto
    then show ?thesis using "2.IH"(2) [OF _ out] False out by simp
  qed
qed simp

lemma handle_report_hashable:
  assumes "indexed dv" "\<forall>d \<in> set (dv_descriptors dv). hashable d"
  shows "handle_report dv vs cache acc =
    (False, acc @ concat (map (\<lambda>(raw, v). concat (map (told dv v (canonicalize_report_key raw)) (first_visits (targets dv (canonicalize_report_key raw)) {}))) vs),
     fold (\<lambda>(raw, v). note_path dv (canonicalize_report_key raw)) vs cache)"
proof (induction vs arbitrary: cache acc)
  case (Cons x vs)
  obtain raw v where x: "x = (raw, v)" by force
  have "\<forall>i \<in> set (targets dv key). hashable (dv_descriptors dv ! i)" for key using set_targets [OF assms(1)] assms(2) by auto
  then show ?case using Cons.IH by (simp add: x Let_def deliver_all_hashable)
qed simp

text \<open>What the descriptor at a position is served: its entity's call, if it has an entity.\<close>

definition served :: "'v device \<Rightarrow> 'v \<Rightarrow> string \<Rightarrow> nat \<Rightarrow> 'v delivery list" where
  "served dv v p i =
     (case dget (dv_entities dv) (dv_descriptors dv ! i) of
        None \<Rightarrow> []
      | Some e \<Rightarrow> [(e, v, case dv_descriptors dv ! i of
          LightDescriptor l \<Rightarrow> if p \<in> set LIGHT_COMPONENTS then Some p else light_component_for_trait l p
        | _ \<Rightarrow> None)])"

lemma told_served: "hashable (dv_descriptors dv ! i) \<Longrightarrow> told dv v p i = served dv v p i"
  by (cases "dget (dv_entities dv) (dv_descriptors dv ! i)") (simp_all add: told_def served_def deliver_def)


text \<open>
  C40 [unhashable_breaks_reports]
  A descriptor without a hash, as the derive makes for a curtain's motor status, cannot be bound to an entity, and
  every report with its path raises TypeError at once: the values that come after it in the report reach no entity.
\<close>

theorem unhashable_breaks_reports:
  assumes "indexed dv" "i < length (dv_descriptors dv)" "mentions (dv_descriptors dv ! i) (canonicalize_report_key raw)"
    "\<not> hashable (dv_descriptors dv ! i)"
  shows "register_entity (dv_descriptors dv ! i) e dv = None \<and>
    fst (handle_report dv ((raw, v) # vs) cache acc) \<and>
    fst (snd (handle_report dv ((raw, v) # vs) cache acc)) = fst (snd (handle_report dv [(raw, v)] cache acc))"
proof -
  let ?key = "canonicalize_report_key raw"
  have "i \<in> set (targets dv ?key) - {}" using set_targets [OF assms(1)] assms(2,3) by simp
  with assms(4) have "\<exists>j \<in> set (targets dv ?key) - {}. \<not> hashable (dv_descriptors dv ! j)" by (rule bexI)
  then have "fst (deliver_all dv (targets dv ?key) {} v ?key acc)" by (rule deliver_all_unhashable)
  then obtain acc' where "deliver_all dv (targets dv ?key) {} v ?key acc = (True, acc')" by (metis prod.collapse)
  then show ?thesis using assms(4) by (simp add: register_entity_def Let_def)
qed

end
