(* ===== verification/Device_Seeds.thy ===== *)
theory Device_Seeds
  imports Device
begin

text \<open>
  Initial values: what a registration replays, that no path is replayed twice whatever happens in between, and the
  entity that misses its value because another one shares its path. Witnesses of the dispatch theorems.
\<close>

section \<open>What a registration replays\<close>

definition waiting :: "'v device \<Rightarrow> string \<Rightarrow> 'v list" where
  "waiting dv p = (if p \<in> dv_delivered dv then [] else case dget (dv_pending dv) p of None \<Rightarrow> [] | Some vs \<Rightarrow> vs)"

definition replay_tag :: "string \<Rightarrow> string option \<Rightarrow> string" where
  "replay_tag p c = (case c of Some n \<Rightarrow> or_text n p | None \<Rightarrow> p)"

lemma replay_entities: "dv_entities dv = dv_entities dv' \<Longrightarrow> replay dv d p vs = replay dv' d p vs"
proof -
  assume "dv_entities dv = dv_entities dv'"
  then have "deliver dv d v p = deliver dv' d v p" for v by (simp only: deliver_def)
  then show ?thesis by (simp add: replay_def)
qed

text \<open>One path: what waits for it is replayed, or consumed, and it waits no more.\<close>

lemma replay_step:
  "\<exists>dv'. (\<forall>acc. replay_paths d ((p, c) # ps) dv acc =
       replay_paths d ps dv' (acc @ (if should_replay_seed d then replay dv d (replay_tag p c) (waiting dv p) else []))) \<and>
     dv_entities dv' = dv_entities dv \<and> dv_delivered dv' = dv_delivered dv \<union> (if waiting dv p = [] then {} else {p}) \<and>
     (\<forall>q. waiting dv' q = (if q = p then [] else waiting dv q))"
proof -
  consider "p \<in> dv_delivered dv" | "p \<notin> dv_delivered dv" "dget (dv_pending dv) p = None" | "p \<notin> dv_delivered dv" "dget (dv_pending dv) p = Some []"
    | v vs where "p \<notin> dv_delivered dv" "dget (dv_pending dv) p = Some (v # vs)"
    by (metis list.exhaust option.exhaust)
  then show ?thesis
  proof cases
    case 1
    then show ?thesis by (intro exI [of _ dv]) (simp add: waiting_def replay_def)
  next
    case 2
    then show ?thesis by (intro exI [of _ dv]) (simp add: waiting_def replay_def)
  next
    case 3
    then show ?thesis by (intro exI [of _ "dv\<lparr>dv_pending := ddel p (dv_pending dv)\<rparr>"]) (simp add: waiting_def replay_def)
  next
    case 4
    let ?dv = "dv\<lparr>dv_pending := ddel p (dv_pending dv), dv_delivered := insert p (dv_delivered dv)\<rparr>"
    have w: "waiting dv p = v # vs" using 4 by (simp add: waiting_def)
    have r: "replay ?dv d t vs' = replay dv d t vs'" for t vs' by (rule replay_entities) simp
    have "replay_paths d ((p, c) # ps) dv acc =
        replay_paths d ps ?dv (acc @ (if should_replay_seed d then replay dv d (replay_tag p c) (waiting dv p) else []))" for acc
      using 4 by (simp add: Let_def w r replay_tag_def)
    then show ?thesis using 4 w by (intro exI [of _ ?dv]) (simp add: waiting_def)
  qed
qed

lemma replay_paths_result:
  "distinct (map fst ps) \<Longrightarrow>
   \<exists>dv'. (\<forall>acc. replay_paths d ps dv acc =
       (dv', acc @ (if should_replay_seed d then concat (map (\<lambda>(p, c). replay dv d (replay_tag p c) (waiting dv p)) ps) else []))) \<and>
     dv_entities dv' = dv_entities dv \<and> dv_delivered dv' = dv_delivered dv \<union> {p \<in> fst ` set ps. waiting dv p \<noteq> []} \<and>
     (\<forall>q. waiting dv' q = (if q \<in> fst ` set ps then [] else waiting dv q))"
proof (induction ps arbitrary: dv)
  case Nil
  then show ?case by (intro exI [of _ dv]) simp
next
  case (Cons x ps)
  obtain p c where x: "x = (p, c)" by force
  obtain dv1 where s: "\<And>acc. replay_paths d ((p, c) # ps) dv acc =
       replay_paths d ps dv1 (acc @ (if should_replay_seed d then replay dv d (replay_tag p c) (waiting dv p) else []))"
     "dv_entities dv1 = dv_entities dv" "dv_delivered dv1 = dv_delivered dv \<union> (if waiting dv p = [] then {} else {p})"
     "\<And>q. waiting dv1 q = (if q = p then [] else waiting dv q)"
    using replay_step [of d p c ps dv] by blast
  have d: "distinct (map fst ps)" "p \<notin> fst ` set ps" using Cons.prems x by auto
  obtain dv2 where r: "\<And>acc. replay_paths d ps dv1 acc =
       (dv2, acc @ (if should_replay_seed d then concat (map (\<lambda>(p, c). replay dv1 d (replay_tag p c) (waiting dv1 p)) ps) else []))"
     "dv_entities dv2 = dv_entities dv1" "dv_delivered dv2 = dv_delivered dv1 \<union> {p \<in> fst ` set ps. waiting dv1 p \<noteq> []}"
     "\<And>q. waiting dv2 q = (if q \<in> fst ` set ps then [] else waiting dv1 q)"
    using Cons.IH [OF d(1), of dv1] by blast
  have m: "map (\<lambda>(p, c). replay dv1 d (replay_tag p c) (waiting dv1 p)) ps = map (\<lambda>(p, c). replay dv d (replay_tag p c) (waiting dv p)) ps"
    using d(2) s(4) replay_entities [OF s(2)] by (intro map_cong refl) force
  have del: "dv_delivered dv2 = dv_delivered dv \<union> {q \<in> fst ` set (x # ps). waiting dv q \<noteq> []}"
    using d(2) unfolding r(3) s(3) by (auto simp: s(4) x split: if_splits)
  have rest: "replay_paths d (x # ps) dv acc =
      (dv2, acc @ (if should_replay_seed d then concat (map (\<lambda>(p, c). replay dv d (replay_tag p c) (waiting dv p)) (x # ps)) else []))" for acc
    unfolding x s(1) r(1) m by simp
  show ?case by (intro exI [of _ dv2] conjI allI) (simp_all only: rest del r(2) s(2), simp add: r(4) s(4) x)
qed

lemma light_path_tags: "(p, c) \<in> set (descriptor_wire_paths d) \<Longrightarrow>
  (case c of None \<Rightarrow> (\<nexists>l. d = LightDescriptor l) | Some n \<Rightarrow> (\<exists>l. d = LightDescriptor l) \<and> n \<in> set LIGHT_COMPONENTS)"
  by (cases d) (auto simp: light_paths_def trait_path_def attr_path_def LIGHT_COMPONENTS_def split: if_splits option.splits)

lemma replay_registered:
  assumes "hashable d" "dget (dv_entities dv) d = Some e" "(p, c) \<in> set (descriptor_wire_paths d)"
  shows "replay dv d (replay_tag p c) vs = map (\<lambda>v. (e, v, c)) vs"
proof -
  have "deliver dv d v (replay_tag p c) = Some [(e, v, c)]" for v
    using light_path_tags [OF assms(3)] assms(1,2)
    by (cases c; cases d) (auto simp: deliver_def replay_tag_def or_text_def LIGHT_COMPONENTS_def)
  then show ?thesis by (induction vs) (simp_all add: replay_def)
qed

section \<open>Once and only once\<close>

datatype 'v op = Seed string 'v | Register descriptor entity | Unregister descriptor entity

fun run_op :: "'v op \<Rightarrow> 'v device \<Rightarrow> 'v device" where
  "run_op (Seed p v) dv = seed_initial_value p v dv"
| "run_op (Register d e) dv = (case register_entity d e dv of None \<Rightarrow> dv | Some (dv', _) \<Rightarrow> dv')"
| "run_op (Unregister d e) dv = unregister d e dv"

lemma replay_paths_mono: "dv_delivered dv \<subseteq> dv_delivered (fst (replay_paths d ps dv acc))"
proof (induction ps arbitrary: dv acc)
  case (Cons x ps)
  obtain p c where x: "x = (p, c)" by force
  obtain dv1 acc1 where s: "replay_paths d (x # ps) dv acc = replay_paths d ps dv1 acc1" "dv_delivered dv \<subseteq> dv_delivered dv1"
    using replay_step [of d p c ps dv] unfolding x by (metis Un_upper1)
  then show ?case using Cons.IH [of dv1 acc1] by auto
qed simp

lemma run_op_mono: "dv_delivered dv \<subseteq> dv_delivered (run_op op dv)"
proof (cases op)
  case (Register d e)
  then show ?thesis
    using replay_paths_mono [of "dv\<lparr>dv_entities := dset d e (dv_entities dv)\<rparr>" d "descriptor_wire_paths d" "[]"]
    by (auto simp: register_entity_def split: option.splits prod.splits)
qed (auto simp: seed_initial_value_def unregister_def)

lemma run_ops_mono: "dv_delivered dv \<subseteq> dv_delivered (fold run_op ops dv)"
  by (induction ops arbitrary: dv) (auto dest: subsetD [OF run_op_mono])

text \<open>
  C8 [initial_values_once]
  Registering an entity replays every value that waits for one of its descriptor's paths, in the order of seeding and
  with the right component, unless the descriptor is an event or a momentary sensor, which only
  consumes them. Whatever is seeded, registered and removed after, nothing ever waits for these paths
  again: no value is delivered twice.
\<close>

theorem initial_values_once:
  assumes "register_entity d e dv = Some (dv', acc)" "distinct (map fst (descriptor_wire_paths d))"
  shows "acc = (if should_replay_seed d then concat (map (\<lambda>(p, c). map (\<lambda>v. (e, v, c)) (waiting dv p)) (descriptor_wire_paths d)) else []) \<and>
    (\<forall>p c ops. (p, c) \<in> set (descriptor_wire_paths d) \<longrightarrow> waiting dv p \<noteq> [] \<longrightarrow> waiting (fold run_op ops dv') p = [])"
proof -
  let ?dv = "dv\<lparr>dv_entities := dset d e (dv_entities dv)\<rparr>" and ?ps = "descriptor_wire_paths d"
  have h: "hashable d" using assms(1) by (auto simp: register_entity_def split: if_splits)
  have w: "waiting ?dv p = waiting dv p" for p by (simp add: waiting_def)
  obtain dv2 where r: "\<And>acc. replay_paths d ?ps ?dv acc =
       (dv2, acc @ (if should_replay_seed d then concat (map (\<lambda>(p, c). replay ?dv d (replay_tag p c) (waiting ?dv p)) ?ps) else []))"
     "dv_delivered dv2 = dv_delivered ?dv \<union> {p \<in> fst ` set ?ps. waiting ?dv p \<noteq> []}"
    using replay_paths_result [OF assms(2), of d ?dv] by blast
  have eq: "dv' = dv2" "acc = (if should_replay_seed d then concat (map (\<lambda>(p, c). replay ?dv d (replay_tag p c) (waiting ?dv p)) ?ps) else [])"
    using assms(1) h r(1) [of "[]"] by (simp_all add: register_entity_def)
  have m: "map (\<lambda>(p, c). replay ?dv d (replay_tag p c) (waiting ?dv p)) ?ps = map (\<lambda>(p, c). map (\<lambda>v. (e, v, c)) (waiting dv p)) ?ps"
    using replay_registered [OF h, of ?dv e] by (intro map_cong refl) (auto simp: w)
  have "waiting (fold run_op ops dv') p = []" if "(p, c) \<in> set ?ps" "waiting dv p \<noteq> []" for p c ops
  proof -
    have "p \<in> dv_delivered dv2" unfolding r(2) using that w by force
    then show ?thesis using run_ops_mono [of dv2 ops] eq(1) by (auto simp: waiting_def)
  qed
  then show ?thesis using eq(2) unfolding m by blast
qed

text \<open>
  Of two entities that share a path only the one that registers first gets its initial value: the second one is told
  nothing. The two entities of a lock share theirs.
\<close>

theorem second_entity_unseeded:
  assumes "register_entity d e dv = Some (dv1, acc1)" "register_entity d2 e2 (fold run_op ops dv1) = Some (dv2, acc2)"
    "descriptor_wire_paths d = [(p, None)]" "descriptor_wire_paths d2 = [(p, None)]" "waiting dv p \<noteq> []" "should_replay_seed d"
  shows "acc1 = map (\<lambda>v. (e, v, None)) (waiting dv p) \<and> acc2 = []"
proof -
  note i1 = initial_values_once [OF assms(1)]
  have "waiting (fold run_op ops dv1) p = []" "acc1 = map (\<lambda>v. (e, v, None)) (waiting dv p)" using i1 assms(3,5,6) by simp_all
  moreover have "acc2 = []" using initial_values_once [OF assms(2)] assms(4) calculation(1) by (simp split: if_splits)
  ultimately show ?thesis by simp
qed

section \<open>Witnesses\<close>

text \<open>The curtain and the lock of the derive's witnesses as devices.\<close>

definition curtain_sensor :: descriptor where
  "curtain_sensor = enum_list_sensor motor_status"

definition lock_sensor :: descriptor where
  "lock_sensor = SensorDescriptor ((sensor ''auto_1_4_1'' ''Lock state'' None True lock_state JNull)\<lparr>d_device_class := JStr ''enum'',
     sn_options := Tuple_Options [''Locked'', ''Unlocked''], sn_labels := Some [(''1'', ''Locked''), (''2'', ''Unlocked'')]\<rparr>)"

definition lock_binary :: descriptor where
  "lock_binary = BinarySensorDescriptor ((binary_for ''lock'' [''0'', ''2''] lock_state)\<lparr>d_key := ''auto_1_4_1_binary'', d_name := ''Lock''\<rparr>)"

lemma derived_examples: "door_lock lock_state = Some [lock_sensor, lock_binary]" "window_covering motor_status = Some [curtain_sensor]"
  by (simp_all add: door_lock_def lock_state_def DUAL_STATE_TRAITS_def build_descriptor_def Let_def wire_of_def or_text_def enums_def
      new_trait_def lock_sensor_def lock_binary_def sensor_def binary_for_def binary_sensor_def binary_key_def auto_key_def labels_def ec_def
      window_covering_def motor_status_def curtain_sensor_def enum_list_sensor_def)

lemma example_hash: "\<not> hashable curtain_sensor" "hashable lock_sensor" "hashable lock_binary"
  by (simp_all add: curtain_sensor_def enum_list_sensor_def sensor_for_def sensor_def enums_def motor_status_def new_trait_def
      lock_sensor_def lock_binary_def binary_for_def binary_sensor_def lock_state_def trait_hashable_def)

lemma example_paths: "descriptor_wire_paths lock_sensor = [(''1.4.1'', None)]" "descriptor_wire_paths lock_binary = [(''1.4.1'', None)]"
  "mentions curtain_sensor ''1.2.3''" "mentions lock_sensor ''1.4.1''"
  by (simp_all add: lock_sensor_def lock_binary_def binary_for_def binary_sensor_def sensor_def trait_path_def lock_state_def new_trait_def
      mentions_def curtain_sensor_def enum_list_sensor_def sensor_for_def motor_status_def opt_list_def)

lemma new_device_indexed [simp]: "indexed (new_device m did aug cl ds)"
  by (simp add: indexed_def new_device_def Let_def)

lemma live_key: "canonicalize_report_key ''1.2.3.1'' = ''1.2.3''" "canonicalize_report_key ''1.4.1.1'' = ''1.4.1''"
  by (simp_all add: canonicalize_report_key_def Let_def is_digits_def is_digit_char_def)

definition curtain :: "string device" where
  "curtain = new_device ''lumi.curtain'' ''did'' False [] [curtain_sensor]"

definition lock :: "string device" where
  "lock = seed_initial_value ''1.4.1'' ''2'' (new_device ''lumi.lock'' ''did'' False [] [lock_sensor, lock_binary])"

theorem unhashable_breaks_reports_witness:
  "register_entity curtain_sensor 1 curtain = None \<and> fst (handle_report curtain ((''1.2.3.1'', ''1'') # [(''1.1.1.1'', ''50'')]) None [])"
proof -
  have d: "dv_descriptors curtain ! 0 = curtain_sensor" "length (dv_descriptors curtain) = 1" "indexed curtain"
    by (simp_all add: curtain_def) (simp_all add: new_device_def effective_descriptors_def Let_def)
  show ?thesis
    using unhashable_breaks_reports [of curtain 0 "''1.2.3.1''" 1 "''1''" "[(''1.1.1.1'', ''50'')]" None "[]"] d example_hash(1) example_paths(3)
    by (simp add: live_key)
qed

lemma lock_facts: "dv_descriptors lock = [lock_sensor, lock_binary]" "dv_entities lock = []" "waiting lock ''1.4.1'' = [''2'']"
  "dv_by_trait lock = [(''1.4.1'', [0, 1])]" "dv_by_attr lock = []" "indexed lock"
proof -
  have t: "trait_ids lock_sensor = [''1.4.1'']" "trait_ids lock_binary = [''1.4.1'']" "attr_names lock_sensor = []" "attr_names lock_binary = []"
    by (simp_all add: lock_sensor_def lock_binary_def binary_for_def binary_sensor_def sensor_def lock_state_def new_trait_def opt_list_def)
  show "dv_descriptors lock = [lock_sensor, lock_binary]" "dv_entities lock = []" "waiting lock ''1.4.1'' = [''2'']"
    by (simp_all add: lock_def seed_initial_value_def new_device_def Let_def effective_descriptors_def waiting_def)
  show "dv_by_trait lock = [(''1.4.1'', [0, 1])]" "dv_by_attr lock = []"
    by (simp_all add: lock_def seed_initial_value_def new_device_def Let_def effective_descriptors_def build_index_def t index_if_def index_add_def)
  then show "indexed lock"
    by (simp add: indexed_def) (simp add: lock_def seed_initial_value_def new_device_def Let_def effective_descriptors_def)
qed

lemma lock_registers:
  "register_entity lock_sensor 7 lock = Some (lock\<lparr>dv_entities := [(lock_sensor, 7)], dv_pending := [], dv_delivered := {''1.4.1''}\<rparr>, [(7, ''2'', None)])"
proof -
  let ?dv = "lock\<lparr>dv_entities := [(lock_sensor, 7)], dv_pending := [], dv_delivered := {''1.4.1''}\<rparr>"
  have p: "dv_pending lock = [(''1.4.1'', [''2''])]" "dv_delivered lock = {}"
    by (simp_all add: lock_def seed_initial_value_def new_device_def Let_def)
  have "replay ?dv lock_sensor ''1.4.1'' [''2''] = [(7, ''2'', None)]"
    using replay_registered [OF example_hash(2), of ?dv 7 "''1.4.1''" None "[''2'']"] by (simp add: example_paths replay_tag_def)
  moreover have "should_replay_seed lock_sensor" by (simp add: should_replay_seed_def lock_sensor_def)
  ultimately show ?thesis unfolding register_entity_def example_paths by (simp add: example_hash lock_facts p)
qed

theorem initial_values_once_witness:
  "snd (the (register_entity lock_sensor 7 lock)) = [(7, ''2'', None)] \<and>
   waiting (fold run_op [Seed ''1.4.1'' ''1''] (fst (the (register_entity lock_sensor 7 lock)))) ''1.4.1'' = []"
proof -
  note i = initial_values_once [OF lock_registers]
  have "waiting (fold run_op [Seed ''1.4.1'' ''1''] (fst (the (register_entity lock_sensor 7 lock)))) ''1.4.1'' = []"
    unfolding lock_registers option.sel fst_conv
    by (rule i [THEN conjunct2, rule_format, of "''1.4.1''" None]) (simp_all add: example_paths lock_facts)
  then show ?thesis by (simp add: lock_registers)
qed

theorem second_entity_unseeded_witness:
  "snd (the (register_entity lock_binary 8 (fst (the (register_entity lock_sensor 7 lock))))) = []"
proof -
  let ?dv = "fst (the (register_entity lock_sensor 7 lock))"
  obtain dv2 acc2 where r: "register_entity lock_binary 8 ?dv = Some (dv2, acc2)" using example_hash(3) by (force simp: register_entity_def)
  have "should_replay_seed lock_sensor" by (simp add: should_replay_seed_def lock_sensor_def)
  then have "acc2 = []"
    using second_entity_unseeded [OF lock_registers, of lock_binary 8 "[]" dv2 acc2 "''1.4.1''"] r example_paths lock_facts lock_registers by simp
  then show ?thesis using r by simp
qed


end
