(* ===== verification/Humanize.thy ===== *)
theory Humanize
  imports Json
begin

text \<open>
  \<open>device/humanize.py\<close>: trait names in camel case as words. The tokens of the regular expression are
  written as what its alternatives match in turn, backtracking included: of a run of capitals before a lower-case
  letter all but the last one, a run of capitals otherwise, a capitalised word, a run of lower-case letters, a
  run of digits; other characters are skipped. Its classes are ASCII.
\<close>

section \<open>Tokens\<close>

definition is_upper :: "char \<Rightarrow> bool" where
  "is_upper c = (65 \<le> char_code c \<and> char_code c \<le> 90)"

definition is_lower :: "char \<Rightarrow> bool" where
  "is_lower c = (97 \<le> char_code c \<and> char_code c \<le> 122)"

definition starts_lower :: "string \<Rightarrow> bool" where
  "starts_lower s = (case s of [] \<Rightarrow> False | c # _ \<Rightarrow> is_lower c)"

function name_tokens :: "string \<Rightarrow> string list" where
  "name_tokens [] = []"
| "name_tokens (c # cs) =
     (if is_upper c then
        let caps = takeWhile is_upper cs; rest = dropWhile is_upper cs
        in if \<not> starts_lower rest then (c # caps) # name_tokens rest
           else if caps = [] then (c # takeWhile is_lower cs) # name_tokens (dropWhile is_lower cs)
           else (c # butlast caps) # name_tokens (last caps # rest)
      else if is_lower c then (c # takeWhile is_lower cs) # name_tokens (dropWhile is_lower cs)
      else if ascii_digit c then (c # takeWhile ascii_digit cs) # name_tokens (dropWhile ascii_digit cs)
      else name_tokens cs)"
  by pat_completeness auto
termination
proof (relation "measure length")
  fix c :: char and cs caps rest
  assume "caps = takeWhile is_upper cs" "rest = dropWhile is_upper cs"
  then have "length caps + length rest = length cs" by (metis length_append takeWhile_dropWhile_id)
  then show "(rest, c # cs) \<in> measure length" "caps \<noteq> [] \<Longrightarrow> (last caps # rest, c # cs) \<in> measure length" by (cases caps; simp)+
qed (simp_all add: le_imp_less_Suc length_dropWhile_le)

section \<open>Words\<close>

definition up :: "char \<Rightarrow> char" where
  "up c = (if is_lower c then char_of (char_code c - 32) else c)"

definition down :: "char \<Rightarrow> char" where
  "down c = (if is_upper c then char_of (char_code c + 32) else c)"

definition humanize_token :: "nat \<Rightarrow> string \<Rightarrow> string" where
  "humanize_token i tok =
     (if list_all is_upper tok then tok
      else if i = 0 then up (hd tok) # map down (tl tok)
      else map down tok)"

definition humanize_name :: "string \<Rightarrow> string" where
  "humanize_name s =
     (if s = [] then s
      else let tokens = name_tokens s
           in if tokens = [] then s
              else join_with (CHR '' '') (map (\<lambda>(i, t). humanize_token i t) (enumerate 0 tokens)))"

text \<open>The examples of the source's documentation.\<close>

lemma humanize_examples:
  "map humanize_name [''OnOff'', ''CurrentLevel'', ''ColorTemperature'', ''BatPercentRemaining'', ''HubConnectionStatus'', ''URLPath'',
     ''CameraRTSPURL'', ''CurrentR''] =
   [''On off'', ''Current level'', ''Color temperature'', ''Bat percent remaining'', ''Hub connection status'', ''URL path'',
     ''Camera RTSPURL'', ''Current R'']"
  by code_simp

section \<open>Words stay words\<close>

text \<open>A token: capitals, a capitalised word, lower-case letters, or digits.\<close>

definition capitals :: "string \<Rightarrow> bool" where "capitals t = (t \<noteq> [] \<and> list_all is_upper t)"
definition lowers :: "string \<Rightarrow> bool" where "lowers t = (t \<noteq> [] \<and> list_all is_lower t)"
definition digits :: "string \<Rightarrow> bool" where "digits t = (t \<noteq> [] \<and> list_all ascii_digit t)"
definition titled :: "string \<Rightarrow> bool" where "titled t = (\<exists>c cs. t = c # cs \<and> is_upper c \<and> lowers cs)"

lemma classes: "is_upper c \<Longrightarrow> \<not> is_lower c \<and> \<not> ascii_digit c" "is_lower c \<Longrightarrow> \<not> ascii_digit c \<and> \<not> is_upper c"
  "ascii_digit c \<Longrightarrow> \<not> is_upper c \<and> \<not> is_lower c"
  "\<not> is_upper (CHR '' '')" "\<not> is_lower (CHR '' '')" "\<not> ascii_digit (CHR '' '')"
  by (auto simp: is_upper_def is_lower_def ascii_digit_def char_code_def)

lemma takeWhile_all: "list_all P (takeWhile P xs)"
  by (auto simp: list_all_iff dest: set_takeWhileD)

declare name_tokens.simps(2) [simp del]

lemma tokens_step:
  "is_upper c \<Longrightarrow> \<not> starts_lower (dropWhile is_upper cs) \<Longrightarrow>
     name_tokens (c # cs) = (c # takeWhile is_upper cs) # name_tokens (dropWhile is_upper cs)"
  "is_upper c \<Longrightarrow> starts_lower (dropWhile is_upper cs) \<Longrightarrow> takeWhile is_upper cs = [] \<Longrightarrow>
     name_tokens (c # cs) = (c # takeWhile is_lower cs) # name_tokens (dropWhile is_lower cs)"
  "is_upper c \<Longrightarrow> starts_lower (dropWhile is_upper cs) \<Longrightarrow> takeWhile is_upper cs \<noteq> [] \<Longrightarrow>
     name_tokens (c # cs) = (c # butlast (takeWhile is_upper cs)) # name_tokens (last (takeWhile is_upper cs) # dropWhile is_upper cs)"
  "is_lower c \<Longrightarrow> name_tokens (c # cs) = (c # takeWhile is_lower cs) # name_tokens (dropWhile is_lower cs)"
  "ascii_digit c \<Longrightarrow> name_tokens (c # cs) = (c # takeWhile ascii_digit cs) # name_tokens (dropWhile ascii_digit cs)"
  "\<not> is_upper c \<Longrightarrow> \<not> is_lower c \<Longrightarrow> \<not> ascii_digit c \<Longrightarrow> name_tokens (c # cs) = name_tokens cs"
proof -
  note u = name_tokens.simps(2) [of c cs]
  show "is_lower c \<Longrightarrow> name_tokens (c # cs) = (c # takeWhile is_lower cs) # name_tokens (dropWhile is_lower cs)"
  proof -
    assume l: "is_lower c"
    then have "\<not> is_upper c" by (simp add: classes(2))
    with l show ?thesis by (simp add: u)
  qed
  show "ascii_digit c \<Longrightarrow> name_tokens (c # cs) = (c # takeWhile ascii_digit cs) # name_tokens (dropWhile ascii_digit cs)"
  proof -
    assume d: "ascii_digit c"
    then have "\<not> is_upper c" "\<not> is_lower c" by (simp_all add: classes(3))
    with d show ?thesis by (simp add: u)
  qed
qed (simp_all add: name_tokens.simps(2) [of c cs] Let_def)

lemma token_shapes: "t \<in> set (name_tokens s) \<Longrightarrow> capitals t \<or> titled t \<or> lowers t \<or> digits t"
proof (induction s rule: name_tokens.induct)
  case (2 c cs)
  let ?caps = "takeWhile is_upper cs" and ?rest = "dropWhile is_upper cs"
  note tokens = 2(7)
  consider (cap) "is_upper c" "\<not> starts_lower ?rest" | (title) "is_upper c" "starts_lower ?rest" "?caps = []"
    | (run) "is_upper c" "starts_lower ?rest" "?caps \<noteq> []" | (low) "is_lower c" | (dig) "ascii_digit c"
    | (other) "\<not> is_upper c" "\<not> is_lower c" "\<not> ascii_digit c" by blast
  then show ?case
  proof cases
    case cap
    have "t = c # ?caps \<or> t \<in> set (name_tokens ?rest)" using tokens tokens_step(1) [OF cap] by simp
    moreover have "capitals (c # ?caps)" using cap takeWhile_all [of is_upper cs] by (simp add: capitals_def)
    ultimately show ?thesis using 2(1) [OF cap(1) refl refl cap(2)] by blast
  next
    case title
    have "t = c # takeWhile is_lower cs \<or> t \<in> set (name_tokens (dropWhile is_lower cs))" using tokens tokens_step(2) [OF title] by simp
    moreover have "?rest = cs" using title by (metis takeWhile_dropWhile_id append_Nil)
    then have "lowers (takeWhile is_lower cs)" using title takeWhile_all [of is_lower cs]
      by (cases cs) (auto simp: lowers_def starts_lower_def)
    then have "titled (c # takeWhile is_lower cs)" using title by (simp add: titled_def)
    ultimately show ?thesis using 2(2) [OF title(1) refl refl _ title(3)] title(2) by blast
  next
    case run
    have "t = c # butlast ?caps \<or> t \<in> set (name_tokens (last ?caps # ?rest))" using tokens tokens_step(3) [OF run] by simp
    moreover have "list_all is_upper (butlast ?caps)"
      using takeWhile_all [of is_upper cs] by (auto simp: list_all_iff dest: in_set_butlastD)
    then have "capitals (c # butlast ?caps)" using run by (simp add: capitals_def)
    ultimately show ?thesis using 2(3) [OF run(1) refl refl _ run(3)] run(2) by blast
  next
    case low
    then have "\<not> is_upper c" using classes by blast
    moreover have "t = c # takeWhile is_lower cs \<or> t \<in> set (name_tokens (dropWhile is_lower cs))" using tokens tokens_step(4) [OF low] by simp
    moreover have "lowers (c # takeWhile is_lower cs)" using low takeWhile_all [of is_lower cs] by (simp add: lowers_def)
    ultimately show ?thesis using 2(4) low by blast
  next
    case dig
    then have "\<not> is_upper c" "\<not> is_lower c" using classes by blast+
    moreover have "t = c # takeWhile ascii_digit cs \<or> t \<in> set (name_tokens (dropWhile ascii_digit cs))"
      using tokens tokens_step(5) [OF dig] by simp
    moreover have "digits (c # takeWhile ascii_digit cs)" using dig takeWhile_all [of ascii_digit cs] by (simp add: digits_def)
    ultimately show ?thesis using 2(5) dig by blast
  next
    case other
    then have "t \<in> set (name_tokens cs)" using tokens tokens_step(6) [OF other] by simp
    then show ?thesis using 2 other by blast
  qed
qed simp

text \<open>A token in front of a space or the end is read as itself.\<close>

definition clean_tail :: "string \<Rightarrow> bool" where
  "clean_tail r = (r = [] \<or> hd r = CHR '' '')"

lemma clean_tail_stops:
  assumes "clean_tail r" "list_all P t" "\<not> P (CHR '' '')"
  shows "takeWhile P (t @ r) = t \<and> dropWhile P (t @ r) = r"
proof -
  have "takeWhile P (t @ r) = t @ takeWhile P r" "dropWhile P (t @ r) = dropWhile P r"
    using assms(2) by (simp_all add: list_all_iff)
  moreover have "takeWhile P r = []" "dropWhile P r = r" using assms(1,3) by (cases r; simp add: clean_tail_def)+
  ultimately show ?thesis by simp
qed

lemma clean_tail_lower: "clean_tail r \<Longrightarrow> \<not> starts_lower r"
  by (cases r) (auto simp: clean_tail_def starts_lower_def classes)

lemma tokens_word:
  assumes "clean_tail r" "capitals t \<or> titled t \<or> lowers t \<or> digits t"
  shows "name_tokens (t @ r) = t # name_tokens r"
  using assms(2)
proof (elim disjE)
  assume "capitals t"
  then obtain a s where t: "t = a # s" "is_upper a" "list_all is_upper s" by (cases t) (auto simp: capitals_def)
  have w: "takeWhile is_upper (s @ r) = s" "dropWhile is_upper (s @ r) = r"
    using clean_tail_stops [OF assms(1) t(3) classes(4)] by blast+
  show ?thesis using tokens_step(1) [of a "s @ r"] t w clean_tail_lower [OF assms(1)] by simp
next
  assume "titled t"
  then obtain a b s where t: "t = a # b # s" "is_upper a" "is_lower b" "list_all is_lower (b # s)"
    by (auto simp: titled_def lowers_def neq_Nil_conv)
  have n: "\<not> is_upper b" using classes t(3) by blast
  have w: "takeWhile is_lower ((b # s) @ r) = b # s" "dropWhile is_lower ((b # s) @ r) = r"
    using clean_tail_stops [OF assms(1) t(4) classes(5)] by blast+
  show ?thesis using tokens_step(2) [of a "(b # s) @ r"] t(1,2,3) n w by (simp add: starts_lower_def)
next
  assume "lowers t"
  then obtain a s where t: "t = a # s" "is_lower a" "list_all is_lower s" by (cases t) (auto simp: lowers_def)
  have w: "takeWhile is_lower (s @ r) = s" "dropWhile is_lower (s @ r) = r"
    using clean_tail_stops [OF assms(1) t(3) classes(5)] by blast+
  show ?thesis using tokens_step(4) [of a "s @ r"] t w by simp
next
  assume "digits t"
  then obtain a s where t: "t = a # s" "ascii_digit a" "list_all ascii_digit s" by (cases t) (auto simp: digits_def)
  have w: "takeWhile ascii_digit (s @ r) = s" "dropWhile ascii_digit (s @ r) = r"
    using clean_tail_stops [OF assms(1) t(3) classes(6)] by blast+
  show ?thesis using tokens_step(5) [of a "s @ r"] t w by simp
qed

lemma tokens_joined:
  "ts \<noteq> [] \<Longrightarrow> \<forall>t \<in> set ts. capitals t \<or> titled t \<or> lowers t \<or> digits t \<Longrightarrow> name_tokens (join_with (CHR '' '') ts) = ts"
proof (induction ts)
  case (Cons t ts)
  show ?case
  proof (cases ts)
    case Nil
    then show ?thesis using tokens_word [of "[]" t] Cons.prems by (simp add: clean_tail_def)
  next
    case (Cons u us)
    have "name_tokens (CHR '' '' # join_with (CHR '' '') ts) = name_tokens (join_with (CHR '' '') ts)"
      using tokens_step(6) classes by blast
    moreover have "name_tokens (join_with (CHR '' '') ts) = ts" using Cons.IH Cons.prems Cons by simp
    moreover have "clean_tail (CHR '' '' # join_with (CHR '' '') ts)" by (simp add: clean_tail_def)
    ultimately show ?thesis using tokens_word [of "CHR '' '' # join_with (CHR '' '') ts" t] Cons.prems Cons by (simp add: join_with_Cons)
  qed
qed simp

lemma up_down: "is_lower c \<Longrightarrow> is_upper (up c)" "is_upper c \<Longrightarrow> is_lower (down c)" "is_lower c \<Longrightarrow> down c = c" "is_upper c \<Longrightarrow> up c = c"
  "ascii_digit c \<Longrightarrow> up c = c \<and> down c = c"
proof -
  show "is_lower c \<Longrightarrow> is_upper (up c)" by (auto simp: is_lower_def is_upper_def up_def char_code_def)
  show "is_upper c \<Longrightarrow> is_lower (down c)" by (auto simp: is_lower_def is_upper_def down_def char_code_def)
  show "is_lower c \<Longrightarrow> down c = c" using classes(2) [of c] by (simp add: down_def)
  show "is_upper c \<Longrightarrow> up c = c" using classes(1) [of c] by (simp add: up_def)
  show "ascii_digit c \<Longrightarrow> up c = c \<and> down c = c" using classes(3) [of c] by (simp add: up_def down_def)
qed

text \<open>The words of a name: a fixed point of the transform at its place.\<close>

definition word_at :: "nat \<Rightarrow> string \<Rightarrow> bool" where
  "word_at i t = (capitals t \<or> digits t \<or> (if i = 0 then titled t else lowers t))"

lemma map_down: "list_all is_lower s \<Longrightarrow> map down s = s" "list_all ascii_digit s \<Longrightarrow> map down s = s"
  by (induction s) (auto simp: up_down)

lemma humanize_token_word:
  assumes "capitals t \<or> titled t \<or> lowers t \<or> digits t"
  shows "word_at i (humanize_token i t)"
proof (cases "capitals t")
  case True
  then show ?thesis by (simp add: humanize_token_def word_at_def capitals_def)
next
  case nc: False
  then have ne: "\<not> list_all is_upper t" using assms by (auto simp: capitals_def titled_def lowers_def digits_def)
  consider (title) c cs where "t = c # cs" "is_upper c" "lowers cs" | (low) "lowers t" | (dig) "digits t"
    using assms nc by (auto simp: titled_def)
  then show ?thesis
  proof cases
    case title
    then have d: "map down cs = cs" "is_lower (down c)" using map_down up_down by (auto simp: lowers_def)
    then show ?thesis using title ne up_down(4) by (auto simp: humanize_token_def word_at_def titled_def lowers_def)
  next
    case low
    then obtain c cs where t: "t = c # cs" "is_lower c" "list_all is_lower cs" by (cases t) (auto simp: lowers_def)
    have "map down t = t" using low map_down by (simp add: lowers_def)
    moreover have "word_at 0 (up c # map down cs)"
      using t up_down(1) [OF t(2)] map_down(1) [OF t(3)] by (cases cs) (auto simp: word_at_def titled_def lowers_def capitals_def)
    ultimately show ?thesis using low ne t(1) by (auto simp: humanize_token_def word_at_def)
  next
    case dig
    then obtain c cs where t: "t = c # cs" "ascii_digit c" "list_all ascii_digit cs" by (cases t) (auto simp: digits_def)
    then show ?thesis using dig ne up_down(5) [OF t(2)] map_down(2) [OF t(3)] by (simp add: humanize_token_def word_at_def digits_def)
  qed
qed

lemma word_fixed: "word_at i t \<Longrightarrow> humanize_token i t = t"
proof -
  assume w: "word_at i t"
  then consider "capitals t" | "\<not> list_all is_upper t" "digits t" | "\<not> list_all is_upper t" "i = 0" "titled t" | "\<not> list_all is_upper t" "i \<noteq> 0" "lowers t"
    by (cases "list_all is_upper t") (auto simp: word_at_def capitals_def titled_def lowers_def digits_def split: if_splits)
  then show ?thesis
  proof cases
    case 2
    then obtain c cs where "t = c # cs" "ascii_digit c" "list_all ascii_digit cs" by (cases t) (auto simp: digits_def)
    then show ?thesis using 2 up_down(5) map_down(2) by (simp add: humanize_token_def)
  next
    case 3
    then obtain c cs where "t = c # cs" "is_upper c" "list_all is_lower cs" by (auto simp: titled_def lowers_def)
    then show ?thesis using 3 up_down(4) map_down(1) by (simp add: humanize_token_def)
  qed (auto simp: humanize_token_def capitals_def lowers_def map_down)
qed

text \<open>
  The documented idempotence: humanizing a humanized name changes nothing, whatever the name is, so
  that names can pass through the generator and the running program alike.
\<close>

theorem humanize_idempotent: "humanize_name (humanize_name s) = humanize_name s"
proof (cases "s = [] \<or> name_tokens s = []")
  case True
  then show ?thesis by (auto simp: humanize_name_def Let_def)
next
  case False
  let ?ws = "map (\<lambda>(i, t). humanize_token i t) (enumerate 0 (name_tokens s))"
  have w: "word_at i t" if "(i, t) \<in> set (enumerate 0 ?ws)" for i t
  proof -
    have i: "i < length (name_tokens s)" "t = humanize_token i (name_tokens s ! i)"
      using that by (auto simp: in_set_enumerate_eq nth_enumerate_eq)
    then show ?thesis using humanize_token_word token_shapes nth_mem by metis
  qed
  have shapes: "\<forall>t \<in> set ?ws. capitals t \<or> titled t \<or> lowers t \<or> digits t"
  proof
    fix t assume "t \<in> set ?ws"
    then obtain i where "i < length ?ws" "?ws ! i = t" by (metis in_set_conv_nth)
    then have "(i, t) \<in> set (enumerate 0 ?ws)" by (simp add: in_set_enumerate_eq)
    from w [OF this] show "capitals t \<or> titled t \<or> lowers t \<or> digits t" by (simp add: word_at_def split: if_splits; blast)
  qed
  have ne: "?ws \<noteq> []" using False by (cases "name_tokens s") (simp_all add: enumerate_eq_zip)
  have h: "humanize_name s = join_with (CHR '' '') ?ws" using False by (simp add: humanize_name_def Let_def)
  have t: "name_tokens (humanize_name s) = ?ws" unfolding h by (rule tokens_joined [OF ne shapes])
  then have "humanize_name s \<noteq> []" using ne by auto
  moreover have "map (\<lambda>(i, t). humanize_token i t) (enumerate 0 ?ws) = ?ws"
  proof -
    have "map (\<lambda>(i, t). humanize_token i t) (enumerate 0 ?ws) = map snd (enumerate 0 ?ws)"
      using w word_fixed by (intro map_cong refl) auto
    then show ?thesis by simp
  qed
  ultimately show ?thesis using t ne unfolding humanize_name_def [of "humanize_name s"] by (simp add: Let_def h)
qed

end
