(* ===== verification/Registry.thy ===== *)
theory Registry
  imports "HOL-Library.List_Lexorder" "HOL-Library.Char_ord" Cloud Codecs Device
begin

text \<open>
  \<open>device/registry.py\<close>, \<open>device/catalog.py\<close> and \<open>device/models/_loader.py\<close>: the packages under
  \<open>device/models/\<close>, their validation and the indices that the lookups read. An import either fails, after some of
  its classes registered themselves, or gives a module. A module that imported once is not run again, which does not
  show here: registering the same class again changes nothing.
\<close>

section \<open>Packages\<close>

record device_class =
  dc_name :: string
  dc_module :: string

text \<open>An attribute that must be a tuple.\<close>

datatype attribute = Tuple "json list" | Not_A_Tuple

record package =
  pk_models :: "string list option"
  pk_traits :: "traits option"
  pk_whitelabels :: "(string, string) dict option"
  pk_manufacturer :: "string option"
  pk_display :: "string option"
  pk_noise :: "json option"
  pk_unauthored :: "attribute option"
  pk_endpoints :: "endpoints option"
  pk_device_types :: "string list option"
  pk_capabilities :: "(string, string list) dict option"
  pk_dropped_paths :: "string list option"
  pk_dropped_rids :: "(string, string) dict option"
  pk_settings :: "(string, setting_spec) dict option"
  pk_composites :: "(string, obj) dict option"
  pk_power :: "string option"
  pk_classes :: "device_class list"

definition empty_package :: package where
  "empty_package = \<lparr>pk_models = None, pk_traits = None, pk_whitelabels = None, pk_manufacturer = None, pk_display = None,
     pk_noise = None, pk_unauthored = None, pk_endpoints = None, pk_device_types = None, pk_capabilities = None,
     pk_dropped_paths = None, pk_dropped_rids = None, pk_settings = None, pk_composites = None, pk_power = None,
     pk_classes = []\<rparr>"

text \<open>A file of the directory: its name, the calls of \<open>register_device\<close> that its import runs, and the module unless it fails.\<close>

record package_file =
  pf_name :: string
  pf_decorated :: "(string list \<times> device_class) list"
  pf_module :: "package option"

section \<open>Loading\<close>

text \<open>\<open>data.json\<close> as read, and \<open>overrides.py\<close>.\<close>

record package_data =
  pd_models :: "string list"
  pd_manufacturer :: string
  pd_display :: string
  pd_endpoints :: endpoints
  pd_device_types :: "string list"
  pd_traits :: traits
  pd_settings :: "(string, setting_spec) dict"
  pd_composites :: "(string, obj) dict"
  pd_power :: "string option"
  pd_whitelabels :: "(string, string) dict"
  pd_dropped_paths :: "string list"
  pd_dropped_rids :: "(string, string) dict"

record package_overrides =
  po_traits :: "(string, trait_spec option) dict"
  po_settings :: "(string, setting_spec option) dict"
  po_capabilities :: "(string, string list) dict"

definition no_overrides :: package_overrides where
  "no_overrides = \<lparr>po_traits = [], po_settings = [], po_capabilities = []\<rparr>"

definition apply_setting_overrides :: "(string, setting_spec) dict \<Rightarrow> (string, setting_spec option) dict \<Rightarrow> (string, setting_spec) dict" where
  "apply_setting_overrides base overrides = fold (merge_entry (\<lambda>rid s. s)) overrides base"

text \<open>An attribute that is set only when it is not empty.\<close>

definition if_any :: "'a list \<Rightarrow> 'a list option" where
  "if_any xs = (if xs = [] then None else Some xs)"

definition load_model_data :: "package_data \<Rightarrow> package_overrides option \<Rightarrow> package" where
  "load_model_data d ov =
     (let ovr = (case ov of None \<Rightarrow> no_overrides | Some r \<Rightarrow> r)
      in empty_package\<lparr>pk_models := Some (pd_models d), pk_manufacturer := Some (pd_manufacturer d), pk_display := Some (pd_display d),
           pk_endpoints := Some (pd_endpoints d), pk_device_types := Some (pd_device_types d),
           pk_capabilities := Some (po_capabilities ovr), pk_traits := Some (apply_overrides (pd_traits d) (po_traits ovr)),
           pk_settings := Some (apply_setting_overrides (pd_settings d) (po_settings ovr)), pk_composites := Some (pd_composites d),
           pk_power := pd_power d, pk_whitelabels := if_any (pd_whitelabels d), pk_dropped_paths := if_any (pd_dropped_paths d),
           pk_dropped_rids := if_any (pd_dropped_rids d)\<rparr>)"

section \<open>The registry\<close>

record registry =
  r_by_model :: "(string, device_class) dict"
  r_trait_index :: "(string \<times> string, trait_spec) dict"
  r_traits_by_model :: "(string, traits) dict"
  r_display :: "(string, display_metadata) dict"
  r_unauthored :: "(string, json list) dict"
  r_noise :: "(string, int set) dict"
  r_endpoints :: "(string, endpoints) dict"
  r_device_types :: "(string, string list) dict"
  r_capabilities :: "(string, (string, string list) dict) dict"
  r_dropped_paths :: "(string, string set) dict"
  r_dropped_rids :: "(string, (string, string) dict) dict"
  r_settings :: "(string, (string, setting_spec) dict) dict"
  r_composites :: "(string, (string, obj) dict) dict"
  r_power :: "(string, string) dict"
  r_discovered :: bool

text \<open>The state at import time; \<open>reset_for_tests\<close> restores it.\<close>

definition new_registry :: registry where
  "new_registry = \<lparr>r_by_model = [], r_trait_index = [], r_traits_by_model = [], r_display = [], r_unauthored = [], r_noise = [],
     r_endpoints = [], r_device_types = [], r_capabilities = [], r_dropped_paths = [], r_dropped_rids = [], r_settings = [],
     r_composites = [], r_power = [], r_discovered = False\<rparr>"

definition put_trait :: "string \<Rightarrow> string \<Rightarrow> trait_spec \<Rightarrow> registry \<Rightarrow> registry" where
  "put_trait m t s r = r\<lparr>r_trait_index := dset (m, t) s (r_trait_index r),
     r_traits_by_model := dset m (dset t s (case dget (r_traits_by_model r) m of None \<Rightarrow> [] | Some ts \<Rightarrow> ts)) (r_traits_by_model r)\<rparr>"

text \<open>The decorator: whether it raised, and the classes afterwards.\<close>

fun register_models :: "string list \<Rightarrow> device_class \<Rightarrow> (string, device_class) dict \<Rightarrow> bool \<times> (string, device_class) dict" where
  "register_models [] c bm = (False, bm)"
| "register_models (m # ms) c bm =
     (case dget bm m of
        None \<Rightarrow> register_models ms c (dset m c bm)
      | Some old \<Rightarrow> if old = c then register_models ms c bm else (True, bm))"

definition register_device :: "string list \<Rightarrow> device_class \<Rightarrow> (string, device_class) dict \<Rightarrow> bool \<times> (string, device_class) dict" where
  "register_device ms c bm = (if ms = [] then (True, bm) else register_models ms c bm)"

text \<open>The decorators of one import: the first that raises ends it.\<close>

fun run_decorators :: "(string list \<times> device_class) list \<Rightarrow> (string, device_class) dict \<Rightarrow> bool \<times> (string, device_class) dict" where
  "run_decorators [] bm = (False, bm)"
| "run_decorators ((ms, c) # ds) bm =
     (case register_device ms c bm of (True, bm') \<Rightarrow> (True, bm') | (False, bm') \<Rightarrow> run_decorators ds bm')"

definition import_package :: "package_file \<Rightarrow> (string, device_class) dict \<Rightarrow> package option \<times> (string, device_class) dict" where
  "import_package f bm =
     (case run_decorators (pf_decorated f) bm of (raised, bm') \<Rightarrow> (if raised then None else pf_module f, bm'))"

section \<open>Validation\<close>

datatype registry_error =
    Empty_Package
  | Data_Without_Models
  | Empty_Models
  | Duplicate_Model string
  | Already_Claimed string
  | Foreign_Class string
  | Foreign_Whitelabel string
  | Bad_Noise
  | Noise_Overflow
  | Bad_Unauthored

definition has_override_class :: "string \<Rightarrow> package \<Rightarrow> bool" where
  "has_override_class n p = list_ex (\<lambda>c. dc_module c = n) (pk_classes p)"

fun first_repeat :: "'a list \<Rightarrow> 'a set \<Rightarrow> 'a option" where
  "first_repeat [] seen = None"
| "first_repeat (x # xs) seen = (if x \<in> seen then Some x else first_repeat xs (insert x seen))"

definition foreign_class :: "string \<Rightarrow> string list \<Rightarrow> (string, device_class) dict \<Rightarrow> string option" where
  "foreign_class n ms bm = map_option fst (find (\<lambda>(m, c). dc_module c = n \<and> m \<notin> set ms) bm)"

definition foreign_whitelabel :: "string list \<Rightarrow> (string, string) dict option \<Rightarrow> string option" where
  "foreign_whitelabel ms wl = (case wl of None \<Rightarrow> None | Some d \<Rightarrow> find (\<lambda>k. k \<notin> set ms) (dkeys d))"

text \<open>\<open>_validate_models\<close>: the models to index, None if the package declares nothing.\<close>

definition check_models :: "string \<Rightarrow> package \<Rightarrow> string list \<Rightarrow> registry \<Rightarrow> registry_error option" where
  "check_models n p ms r =
     (if ms = [] then Some Empty_Models
      else case first_repeat ms {} of Some m \<Rightarrow> Some (Duplicate_Model m) | None \<Rightarrow>
      (case find (\<lambda>m. dget (r_display r) m \<noteq> None) ms of Some m \<Rightarrow> Some (Already_Claimed m) | None \<Rightarrow>
      (case (if has_override_class n p then foreign_class n ms (r_by_model r) else None) of Some m \<Rightarrow> Some (Foreign_Class m) | None \<Rightarrow>
      map_option Foreign_Whitelabel (foreign_whitelabel ms (pk_whitelabels p)))))"

definition validate_models :: "string \<Rightarrow> package \<Rightarrow> registry \<Rightarrow> registry_error + string list option" where
  "validate_models n p r =
     (case pk_models p of
        None \<Rightarrow>
          if pk_traits p = None \<and> pk_whitelabels p = None
          then if has_override_class n p then Inr None else Inl Empty_Package
          else Inl Data_Without_Models
      | Some ms \<Rightarrow> (case check_models n p ms r of Some e \<Rightarrow> Inl e | None \<Rightarrow> Inr (Some ms)))"

section \<open>Indexing\<close>

text \<open>The same value under every model of the package, if the attribute is there.\<close>

definition put_all :: "string list \<Rightarrow> 'a \<Rightarrow> (string, 'a) dict \<Rightarrow> (string, 'a) dict" where
  "put_all ms v d = fold (\<lambda>m. dset m v) ms d"

definition put_opt :: "string list \<Rightarrow> 'a option \<Rightarrow> (string, 'a) dict \<Rightarrow> (string, 'a) dict" where
  "put_opt ms v d = (case v of None \<Rightarrow> d | Some x \<Rightarrow> put_all ms x d)"

definition short_name :: "string \<Rightarrow> string" where
  "short_name n = last (split_on (CHR ''.'') n)"

definition display_of :: "string \<Rightarrow> package \<Rightarrow> string \<Rightarrow> display_metadata" where
  "display_of n p m =
     \<lparr>dm_manufacturer = (case pk_manufacturer p of None \<Rightarrow> ''Aqara'' | Some s \<Rightarrow> s),
      dm_name = (case (case pk_whitelabels p of None \<Rightarrow> None | Some d \<Rightarrow> dget d m) of
         Some s \<Rightarrow> s
       | None \<Rightarrow> (case pk_display p of Some s \<Rightarrow> if s = [] then short_name n else s | None \<Rightarrow> short_name n))\<rparr>"

definition populate_display :: "string \<Rightarrow> package \<Rightarrow> string list \<Rightarrow> registry \<Rightarrow> registry" where
  "populate_display n p ms r = r\<lparr>r_display := fold (\<lambda>m. dset m (display_of n p m)) ms (r_display r)\<rparr>"

text \<open>\<open>frozenset(int(t) for t in raw)\<close>: only TypeError and ValueError are reported as a bad attribute.\<close>

fun int_set :: "json list \<Rightarrow> registry_error + int set" where
  "int_set [] = Inr {}"
| "int_set (v # vs) =
     (case int_or_raise v of
        Inl e \<Rightarrow> Inl (if e = cloud_error.Overflow_Error then Noise_Overflow else Bad_Noise)
      | Inr i \<Rightarrow> (case int_set vs of Inl e \<Rightarrow> Inl e | Inr A \<Rightarrow> Inr (insert i A)))"

definition noise_set :: "json option \<Rightarrow> registry_error + int set" where
  "noise_set raw =
     (case raw of None \<Rightarrow> Inr {} | Some v \<Rightarrow> (case iter_json v of None \<Rightarrow> Inl Bad_Noise | Some xs \<Rightarrow> int_set xs))"

fun is_int :: "json \<Rightarrow> bool" where
  "is_int (JInt i) = True"
| "is_int (JBool b) = True"
| "is_int v = False"

definition unauthored_of :: "attribute option \<Rightarrow> registry_error + json list" where
  "unauthored_of a =
     (case a of None \<Rightarrow> Inr [] | Some Not_A_Tuple \<Rightarrow> Inl Bad_Unauthored
      | Some (Tuple xs) \<Rightarrow> if list_all is_int xs then Inr xs else Inl Bad_Unauthored)"

definition put_traits :: "string list \<Rightarrow> traits option \<Rightarrow> registry \<Rightarrow> registry" where
  "put_traits ms ts r =
     (case ts of None \<Rightarrow> r | Some d \<Rightarrow> fold (\<lambda>(t, s). fold (\<lambda>m. put_trait m t s) ms) d r)"

definition put_rest :: "package \<Rightarrow> string list \<Rightarrow> registry \<Rightarrow> registry" where
  "put_rest p ms r = r\<lparr>
     r_endpoints := put_opt ms (pk_endpoints p) (r_endpoints r),
     r_device_types := put_opt ms (pk_device_types p) (r_device_types r),
     r_capabilities := put_opt ms (pk_capabilities p) (r_capabilities r),
     r_dropped_paths := put_opt ms (map_option set (pk_dropped_paths p)) (r_dropped_paths r),
     r_dropped_rids := put_opt ms (pk_dropped_rids p) (r_dropped_rids r),
     r_settings := put_opt ms (pk_settings p) (r_settings r),
     r_composites := put_opt ms (pk_composites p) (r_composites r),
     r_power := put_opt ms (pk_power p) (r_power r)\<rparr>"

definition populate_model_indices :: "package \<Rightarrow> string list \<Rightarrow> registry \<Rightarrow> registry_error option \<times> registry" where
  "populate_model_indices p ms r =
     (case noise_set (pk_noise p) of
        Inl e \<Rightarrow> (Some e, r)
      | Inr A \<Rightarrow>
          let r1 = put_traits ms (pk_traits p) (r\<lparr>r_noise := put_all ms A (r_noise r)\<rparr>)
          in case unauthored_of (pk_unauthored p) of
               Inl e \<Rightarrow> (Some e, r1)
             | Inr xs \<Rightarrow> (None, put_rest p ms (r1\<lparr>r_unauthored := put_all ms xs (r_unauthored r1)\<rparr>)))"

definition index_package :: "string \<Rightarrow> package \<Rightarrow> registry \<Rightarrow> registry_error option \<times> registry" where
  "index_package n p r =
     (case validate_models n p r of
        Inl e \<Rightarrow> (Some e, r)
      | Inr None \<Rightarrow> (None, r)
      | Inr (Some ms) \<Rightarrow> populate_model_indices p ms (populate_display n p ms r))"

section \<open>Discovery\<close>

definition full_name :: "string \<Rightarrow> string" where
  "full_name n = ''custom_components.aqara_lanlink.device.models.'' @ n"

text \<open>The walk over the files; a broken import is skipped, a misconfigured package ends it.\<close>

definition is_private :: "string \<Rightarrow> bool" where
  "is_private n = (case n of [] \<Rightarrow> False | c # _ \<Rightarrow> c = CHR ''_'')"

fun walk_packages :: "package_file list \<Rightarrow> registry \<Rightarrow> registry_error option \<times> registry" where
  "walk_packages [] r = (None, r)"
| "walk_packages (f # fs) r =
     (if is_private (pf_name f) then walk_packages fs r
      else case import_package f (r_by_model r) of (m, bm) \<Rightarrow>
        (case m of
           None \<Rightarrow> walk_packages fs (r\<lparr>r_by_model := bm\<rparr>)
         | Some p \<Rightarrow> (case index_package (full_name (pf_name f)) p (r\<lparr>r_by_model := bm\<rparr>) of
             (Some e, r') \<Rightarrow> (Some e, r')
           | (None, r') \<Rightarrow> walk_packages fs r')))"

text \<open>The indices that a failed discovery clears.\<close>

definition clear_indices :: "registry \<Rightarrow> registry" where
  "clear_indices r = r\<lparr>r_trait_index := [], r_traits_by_model := [], r_display := [], r_unauthored := [], r_noise := []\<rparr>"

text \<open>\<open>_ensure_discovered\<close>; no directory: the package \<open>models\<close> is missing or has no path.\<close>

definition ensure_discovered :: "package_file list option \<Rightarrow> registry \<Rightarrow> registry_error option \<times> registry" where
  "ensure_discovered dir r =
     (if r_discovered r then (None, r)
      else case dir of
        None \<Rightarrow> (None, r\<lparr>r_discovered := True\<rparr>)
      | Some fs \<Rightarrow> (case walk_packages fs r of
          (Some e, r') \<Rightarrow> (Some e, clear_indices r')
        | (None, r') \<Rightarrow> (None, r'\<lparr>r_discovered := True\<rparr>)))"

section \<open>The catalog\<close>

text \<open>Every accessor discovers first, and raises if that fails.\<close>

definition with_reg :: "package_file list option \<Rightarrow> (registry \<Rightarrow> 'a) \<Rightarrow> registry \<Rightarrow> (registry_error + 'a) \<times> registry" where
  "with_reg dir f r = (case ensure_discovered dir r of (Some e, r') \<Rightarrow> (Inl e, r') | (None, r') \<Rightarrow> (Inr (f r'), r'))"

definition get_or :: "'a \<Rightarrow> 'a option \<Rightarrow> 'a" where
  "get_or v x = (case x of None \<Rightarrow> v | Some y \<Rightarrow> y)"

definition get_trait :: "string \<Rightarrow> string \<Rightarrow> registry \<Rightarrow> trait_spec option" where
  "get_trait m t r = dget (r_trait_index r) (m, t)"

definition get_enum_labels :: "string \<Rightarrow> string \<Rightarrow> registry \<Rightarrow> (string, string) dict option" where
  "get_enum_labels m t r = (case get_trait m t r of None \<Rightarrow> None | Some s \<Rightarrow> t_enum_values s)"

definition get_display_metadata :: "string \<Rightarrow> registry \<Rightarrow> display_metadata option" where
  "get_display_metadata m r = dget (r_display r) m"

definition iter_all_traits :: "registry \<Rightarrow> trait_spec list" where
  "iter_all_traits r = dvalues (r_trait_index r)"

definition all_traits_for_model :: "string \<Rightarrow> registry \<Rightarrow> traits" where
  "all_traits_for_model m r = get_or [] (dget (r_traits_by_model r) m)"

definition settings_for_model :: "string \<Rightarrow> registry \<Rightarrow> (string, setting_spec) dict" where
  "settings_for_model m r = get_or [] (dget (r_settings r) m)"

definition composites_for_model :: "string \<Rightarrow> registry \<Rightarrow> (string, obj) dict" where
  "composites_for_model m r = get_or [] (dget (r_composites r) m)"

definition power_class_for_model :: "string \<Rightarrow> registry \<Rightarrow> string option" where
  "power_class_for_model m r = dget (r_power r) m"

definition allow_unauthored :: "string \<Rightarrow> registry \<Rightarrow> json list" where
  "allow_unauthored m r = get_or [] (dget (r_unauthored r) m)"

definition endpoints_for_model :: "string \<Rightarrow> registry \<Rightarrow> endpoints" where
  "endpoints_for_model m r = get_or [] (dget (r_endpoints r) m)"

definition device_types_for_model :: "string \<Rightarrow> registry \<Rightarrow> string list" where
  "device_types_for_model m r = get_or [] (dget (r_device_types r) m)"

definition ptz_features_for_model :: "string \<Rightarrow> registry \<Rightarrow> string set" where
  "ptz_features_for_model m r = set (get_or [] (dget (get_or [] (dget (r_capabilities r) m)) ''ptz''))"

definition is_camera_model :: "string \<Rightarrow> registry \<Rightarrow> bool" where
  "is_camera_model m r = (''Camera'' \<in> set (device_types_for_model m r))"

definition dropped_paths_for_model :: "string \<Rightarrow> registry \<Rightarrow> string set" where
  "dropped_paths_for_model m r = get_or {} (dget (r_dropped_paths r) m)"

definition dropped_rids_for_model :: "string \<Rightarrow> registry \<Rightarrow> (string, string) dict" where
  "dropped_rids_for_model m r = get_or [] (dget (r_dropped_rids r) m)"

definition noise_override_for_model :: "string \<Rightarrow> registry \<Rightarrow> int set" where
  "noise_override_for_model m r = get_or {} (dget (r_noise r) m)"

definition get_device_class :: "string \<Rightarrow> registry \<Rightarrow> device_class option" where
  "get_device_class m r = dget (r_by_model r) m"

definition known_models :: "registry \<Rightarrow> string list" where
  "known_models r = sort (dkeys (r_by_model r))"

section \<open>Both trait indices agree\<close>

definition traits_agree :: "registry \<Rightarrow> bool" where
  "traits_agree r = (\<forall>m t. get_trait m t r = dget (all_traits_for_model m r) t)"

lemma traits_agree_put: "traits_agree r \<Longrightarrow> traits_agree (put_trait m t s r)"
  by (auto simp: traits_agree_def put_trait_def get_trait_def all_traits_for_model_def get_or_def split: option.splits)

lemma fold_keeps: "(\<And>x r. x \<in> set xs \<Longrightarrow> P r \<Longrightarrow> P (f x r)) \<Longrightarrow> P r \<Longrightarrow> P (fold f xs r)"
  by (induction xs arbitrary: r) auto

lemma traits_agree_put_traits: "traits_agree r \<Longrightarrow> traits_agree (put_traits ms ts r)"
  unfolding put_traits_def
  by (cases ts) (auto intro!: fold_keeps [where P = traits_agree] traits_agree_put)

lemma traits_agree_upd [simp]:
  "traits_agree (r\<lparr>r_by_model := x0\<rparr>) = traits_agree r"
  "traits_agree (r\<lparr>r_display := x1\<rparr>) = traits_agree r"
  "traits_agree (r\<lparr>r_unauthored := x2\<rparr>) = traits_agree r"
  "traits_agree (r\<lparr>r_noise := x3\<rparr>) = traits_agree r"
  "traits_agree (r\<lparr>r_endpoints := x4\<rparr>) = traits_agree r"
  "traits_agree (r\<lparr>r_device_types := x5\<rparr>) = traits_agree r"
  "traits_agree (r\<lparr>r_capabilities := x6\<rparr>) = traits_agree r"
  "traits_agree (r\<lparr>r_dropped_paths := x7\<rparr>) = traits_agree r"
  "traits_agree (r\<lparr>r_dropped_rids := x8\<rparr>) = traits_agree r"
  "traits_agree (r\<lparr>r_settings := x9\<rparr>) = traits_agree r"
  "traits_agree (r\<lparr>r_composites := x10\<rparr>) = traits_agree r"
  "traits_agree (r\<lparr>r_power := x11\<rparr>) = traits_agree r"
  "traits_agree (r\<lparr>r_discovered := x12\<rparr>) = traits_agree r"
  by (simp_all add: traits_agree_def get_trait_def all_traits_for_model_def)

lemma traits_agree_index:
  assumes "traits_agree r"
  shows "traits_agree (snd (index_package n p r))"
proof -
  have d: "traits_agree (populate_display n p ms r)" for ms using assms by (simp add: populate_display_def)
  have t: "traits_agree (put_traits ms ts ((populate_display n p ms r)\<lparr>r_noise := x\<rparr>))" for ms ts x
    by (rule traits_agree_put_traits) (simp add: d)
  have "traits_agree (snd (populate_model_indices p ms (populate_display n p ms r)))" for ms
    by (cases "noise_set (pk_noise p)"; cases "unauthored_of (pk_unauthored p)")
      (simp_all add: populate_model_indices_def put_rest_def Let_def d t)
  then show ?thesis using assms by (simp add: index_package_def split: sum.split option.split)
qed

lemma traits_agree_walk: "traits_agree r \<Longrightarrow> traits_agree (snd (walk_packages fs r))"
proof (induction fs arbitrary: r)
  case (Cons f fs)
  obtain m bm where i: "import_package f (r_by_model r) = (m, bm)" by fastforce
  show ?case
  proof (cases "is_private (pf_name f) \<or> m = None")
    case True
    then show ?thesis using Cons i by auto
  next
    case False
    then obtain p where p: "m = Some p" "\<not> is_private (pf_name f)" by auto
    obtain e r' where x: "index_package (full_name (pf_name f)) p (r\<lparr>r_by_model := bm\<rparr>) = (e, r')" by fastforce
    have "traits_agree r'" using traits_agree_index [of "r\<lparr>r_by_model := bm\<rparr>" "full_name (pf_name f)" p] Cons.prems x by simp
    then show ?thesis using Cons.IH p i x by (cases e) simp_all
  qed
qed simp

lemma traits_agree_discover:
  assumes "traits_agree r"
  shows "traits_agree (snd (ensure_discovered dir r))"
proof -
  have c: "traits_agree (clear_indices r')" for r'
    by (simp add: clear_indices_def traits_agree_def get_trait_def all_traits_for_model_def get_or_def)
  have w: "traits_agree r'" if "walk_packages fs r = (e, r')" for fs e r'
    using traits_agree_walk [OF assms, of fs] that by simp
  show ?thesis
  proof (cases "r_discovered r \<or> dir = None")
    case True
    then show ?thesis using assms by (auto simp: ensure_discovered_def)
  next
    case False
    then obtain fs where fs: "dir = Some fs" by auto
    obtain e r' where x: "walk_packages fs r = (e, r')" by fastforce
    show ?thesis using False fs x w [OF x] c by (cases e) (simp_all add: ensure_discovered_def)
  qed
qed

text \<open>
  After any number of discoveries, over any directories and whether they failed or not, the lookup of one trait of a
  model and the model's whole table of traits agree: both indices always hold the same traits.
\<close>

theorem trait_indices_agree:
  "get_trait m t (fold (\<lambda>dir r. snd (ensure_discovered dir r)) dirs new_registry) =
   dget (all_traits_for_model m (fold (\<lambda>dir r. snd (ensure_discovered dir r)) dirs new_registry)) t"
proof -
  have "traits_agree new_registry"
    by (simp add: traits_agree_def new_registry_def get_trait_def all_traits_for_model_def get_or_def)
  then have "traits_agree (fold (\<lambda>dir r. snd (ensure_discovered dir r)) dirs new_registry)"
    by (rule fold_keeps [rotated]) (rule traits_agree_discover)
  then show ?thesis by (simp add: traits_agree_def)
qed

section \<open>Every model has one package\<close>

text \<open>The packages whose import succeeds, with the classes registered on the way.\<close>

fun imported :: "package_file list \<Rightarrow> (string, device_class) dict \<Rightarrow> (string \<times> package) list" where
  "imported [] bm = []"
| "imported (f # fs) bm =
     (if is_private (pf_name f) then imported fs bm
      else case import_package f bm of (m, bm') \<Rightarrow>
        (case m of None \<Rightarrow> imported fs bm' | Some p \<Rightarrow> (full_name (pf_name f), p) # imported fs bm'))"

definition claims :: "package \<Rightarrow> string list" where
  "claims p = get_or [] (pk_models p)"

definition owner :: "(string \<times> package) list \<Rightarrow> string \<Rightarrow> (string \<times> package) option" where
  "owner nps m = find (\<lambda>(n, p). m \<in> set (claims p)) nps"

text \<open>What the lookups of a model give, as its package says.\<close>

definition shows_package :: "string \<Rightarrow> package \<Rightarrow> registry \<Rightarrow> bool" where
  "shows_package m p r =
     ((\<forall>t. get_trait m t r = dget (get_or [] (pk_traits p)) t) \<and>
      settings_for_model m r = get_or [] (pk_settings p) \<and>
      composites_for_model m r = get_or [] (pk_composites p) \<and>
      endpoints_for_model m r = get_or [] (pk_endpoints p) \<and>
      device_types_for_model m r = get_or [] (pk_device_types p) \<and>
      ptz_features_for_model m r = set (get_or [] (dget (get_or [] (pk_capabilities p)) ''ptz'')) \<and>
      dropped_paths_for_model m r = set (get_or [] (pk_dropped_paths p)) \<and>
      dropped_rids_for_model m r = get_or [] (pk_dropped_rids p) \<and>
      power_class_for_model m r = pk_power p \<and>
      unauthored_of (pk_unauthored p) = Inr (allow_unauthored m r) \<and>
      noise_set (pk_noise p) = Inr (noise_override_for_model m r))"

definition package_of :: "(string \<times> package) list \<Rightarrow> string \<Rightarrow> package" where
  "package_of nps m = (case owner nps m of None \<Rightarrow> empty_package | Some (n, p) \<Rightarrow> p)"

definition display_by :: "(string \<times> package) list \<Rightarrow> string \<Rightarrow> display_metadata option" where
  "display_by nps m = (case owner nps m of None \<Rightarrow> None | Some (n, p) \<Rightarrow> Some (display_of n p m))"

definition serves :: "(string \<times> package) list \<Rightarrow> registry \<Rightarrow> bool" where
  "serves nps r =
     (distinct (concat (map (\<lambda>(n, p). claims p) nps)) \<and>
      (\<forall>m. get_display_metadata m r = display_by nps m \<and> shows_package m (package_of nps m) r))"

lemma get_or_simps [simp]: "get_or z None = z" "get_or z (Some v) = v"
  "get_or {} (map_option set xs) = set (get_or [] xs)"
  by (cases xs; simp add: get_or_def)+

lemma find_append: "find P (xs @ ys) = (case find P xs of None \<Rightarrow> find P ys | Some x \<Rightarrow> Some x)"
  by (induction xs) auto

lemma owner_snoc:
  "owner (nps @ [(n, p)]) m = (case owner nps m of Some x \<Rightarrow> Some x | None \<Rightarrow> if m \<in> set (claims p) then Some (n, p) else None)"
  by (cases "owner nps m") (simp_all add: owner_def find_append)

lemma owner_None: "owner nps m = None \<longleftrightarrow> m \<notin> set (concat (map (\<lambda>(n, p). claims p) nps))"
  by (auto simp: owner_def find_None_iff)

lemma first_repeat_None: "first_repeat xs seen = None \<Longrightarrow> distinct xs \<and> set xs \<inter> seen = {}"
  by (induction xs arbitrary: seen) (auto split: if_splits)

lemma fold_dset: "dget (fold (\<lambda>m. dset m (f m)) ms d) k = (if k \<in> set ms then Some (f k) else dget d k)"
  by (induction ms arbitrary: d) auto

lemma dget_put_all: "dget (put_all ms v d) k = (if k \<in> set ms then Some v else dget d k)"
  by (simp add: put_all_def fold_dset)

lemma get_or_put: "get_or z (dget (put_opt ms v d) k) = (if k \<in> set ms \<and> v \<noteq> None then get_or z v else get_or z (dget d k))"
  by (cases v) (auto simp: put_opt_def dget_put_all get_or_def)

lemma dget_put_opt: "dget (put_opt ms v d) k = (if k \<in> set ms \<and> v \<noteq> None then v else dget d k)"
  by (cases v) (auto simp: put_opt_def dget_put_all)

lemma put_trait_index: "r_trait_index (fold (\<lambda>m. put_trait m t s) ms r) = fold (\<lambda>m. dset (m, t) s) ms (r_trait_index r)"
  by (induction ms arbitrary: r) (simp_all add: put_trait_def)

lemma fold_dset_pair: "dget (fold (\<lambda>m. dset (m, t) s) ms d) (k, t') = (if k \<in> set ms \<and> t' = t then Some s else dget d (k, t'))"
  by (induction ms arbitrary: d) auto

lemma get_trait_put:
  "dict_ok (get_or [] ts) \<Longrightarrow>
   get_trait k t (put_traits ms ts r) = (if k \<in> set ms \<and> dget (get_or [] ts) t \<noteq> None then dget (get_or [] ts) t else get_trait k t r)"
proof (cases ts)
  case (Some d)
  have "dict_ok d \<Longrightarrow> get_trait k t (fold (\<lambda>(t, s). fold (\<lambda>m. put_trait m t s) ms) d r) =
    (if k \<in> set ms \<and> dget d t \<noteq> None then dget d t else get_trait k t r)"
  proof (induction d arbitrary: r)
    case (Cons x d)
    obtain t1 s1 where x: "x = (t1, s1)" by fastforce
    have ok: "dict_ok d" "t1 \<notin> fst ` set d" using Cons.prems by (auto simp: dict_ok_def x)
    have "get_trait k t (fold (\<lambda>m. put_trait m t1 s1) ms r) = (if k \<in> set ms \<and> t = t1 then Some s1 else get_trait k t r)"
      by (simp add: get_trait_def put_trait_index fold_dset_pair)
    moreover have "dget d t1 = None" using ok(2) by (simp add: map_of_eq_None_iff)
    ultimately show ?case using Cons.IH [OF ok(1)] by (cases "dget d t") (auto simp: x)
  qed simp
  then show "dict_ok (get_or [] ts) \<Longrightarrow> ?thesis" using Some by (cases "dget d t") (simp_all add: put_traits_def)
qed (simp add: put_traits_def get_or_def)

text \<open>What \<open>put_trait\<close> leaves alone.\<close>

definition others :: "registry \<Rightarrow> registry" where
  "others r = r\<lparr>r_trait_index := [], r_traits_by_model := []\<rparr>"

lemma fold_same: "(\<And>x r. g (f x r) = g r) \<Longrightarrow> g (fold f xs r) = g r"
  by (induction xs arbitrary: r) auto

lemma put_traits_others: "others (put_traits ms ts r) = others r"
proof (cases ts)
  case (Some d)
  have "others (put_trait m t s r') = others r'" for m t s r' by (simp add: others_def put_trait_def)
  then have "others (fold (\<lambda>m. put_trait m t s) ms r') = others r'" for t s r' by (rule fold_same)
  then have "others ((case x of (t, s) \<Rightarrow> fold (\<lambda>m. put_trait m t s) ms) r') = others r'" for x r'
    by (cases x) simp
  then show ?thesis unfolding put_traits_def Some option.case by (rule fold_same)
qed (simp add: put_traits_def)

lemma others_eq:
  assumes "others r = others r'"
  shows "r_display r = r_display r'" "r_unauthored r = r_unauthored r'" "r_noise r = r_noise r'" "r_endpoints r = r_endpoints r'"
    "r_device_types r = r_device_types r'" "r_capabilities r = r_capabilities r'" "r_dropped_paths r = r_dropped_paths r'"
    "r_dropped_rids r = r_dropped_rids r'" "r_settings r = r_settings r'" "r_composites r = r_composites r'" "r_power r = r_power r'"
  using assms by (cases r; cases r'; simp add: others_def)+

lemma shows_indexed:
  assumes "shows_package m empty_package r" "m \<in> set ms" "noise_set (pk_noise p) = Inr A" "unauthored_of (pk_unauthored p) = Inr xs"
    "dict_ok (get_or [] (pk_traits p))"
    "r1 = put_traits ms (pk_traits p) ((populate_display n p ms r)\<lparr>r_noise := put_all ms A (r_noise r)\<rparr>)"
  shows "shows_package m p (put_rest p ms (r1\<lparr>r_unauthored := put_all ms xs (r_unauthored r1)\<rparr>))"
proof -
  let ?r0 = "(populate_display n p ms r)\<lparr>r_noise := put_all ms A (r_noise r)\<rparr>"
  have "others r1 = others ?r0" unfolding assms(6) by (rule put_traits_others)
  note o = others_eq [OF this]
  have d: "r_endpoints ?r0 = r_endpoints r" by (simp add: populate_display_def)
  have t: "get_trait m t r1 = dget (get_or [] (pk_traits p)) t" for t
  proof -
    have "get_trait m t ?r0 = None" using assms(1)
      by (simp add: shows_package_def empty_package_def get_trait_def populate_display_def)
    then show ?thesis unfolding assms(6) get_trait_put [OF assms(5)] using assms(2) by simp
  qed
  have e: "get_or [] (dget (r_settings r) m) = []" "get_or [] (dget (r_composites r) m) = []" "get_or [] (dget (r_endpoints r) m) = []"
    "get_or [] (dget (r_device_types r) m) = []" "get_or [] (dget (get_or [] (dget (r_capabilities r) m)) ''ptz'') = []"
    "get_or {} (dget (r_dropped_paths r) m) = {}" "get_or [] (dget (r_dropped_rids r) m) = []" "dget (r_power r) m = None"
    using assms(1)
    by (simp_all add: shows_package_def empty_package_def settings_for_model_def composites_for_model_def endpoints_for_model_def
        device_types_for_model_def ptz_features_for_model_def dropped_paths_for_model_def dropped_rids_for_model_def power_class_for_model_def)
  show ?thesis
    unfolding shows_package_def settings_for_model_def composites_for_model_def endpoints_for_model_def
      device_types_for_model_def ptz_features_for_model_def dropped_paths_for_model_def dropped_rids_for_model_def power_class_for_model_def
      allow_unauthored_def noise_override_for_model_def
  proof (intro conjI allI)
    show "get_trait m t (put_rest p ms (r1\<lparr>r_unauthored := put_all ms xs (r_unauthored r1)\<rparr>)) = dget (get_or [] (pk_traits p)) t" for t
      using t by (simp add: get_trait_def put_rest_def)
  qed (use assms(2,3,4) e in \<open>simp_all add: put_rest_def get_or_put dget_put_opt dget_put_all o populate_display_def\<close>)
qed

lemma shows_other:
  assumes "m \<notin> set ms" "dict_ok (get_or [] (pk_traits p))"
    "r1 = put_traits ms (pk_traits p) ((populate_display n p ms r)\<lparr>r_noise := put_all ms A (r_noise r)\<rparr>)"
  shows "shows_package m q (put_rest p ms (r1\<lparr>r_unauthored := put_all ms xs (r_unauthored r1)\<rparr>)) = shows_package m q r"
proof -
  let ?r0 = "(populate_display n p ms r)\<lparr>r_noise := put_all ms A (r_noise r)\<rparr>"
  have "others r1 = others ?r0" unfolding assms(3) by (rule put_traits_others)
  note o = others_eq [OF this]
  have "get_trait m t (put_rest p ms (r1\<lparr>r_unauthored := put_all ms xs (r_unauthored r1)\<rparr>)) = get_trait m t ?r0" for t
    using get_trait_put [OF assms(2), of m t ms ?r0] assms(1) by (simp add: get_trait_def put_rest_def assms(3))
  moreover have "get_trait m t ?r0 = get_trait m t r" for t by (simp add: get_trait_def populate_display_def)
  ultimately show ?thesis using assms(1)
    by (simp add: shows_package_def settings_for_model_def composites_for_model_def endpoints_for_model_def
        device_types_for_model_def ptz_features_for_model_def dropped_paths_for_model_def dropped_rids_for_model_def power_class_for_model_def
        allow_unauthored_def noise_override_for_model_def put_rest_def get_or_put dget_put_opt dget_put_all o populate_display_def)
qed

lemma serves_index:
  assumes "serves nps r" "index_package n p r = (None, r')" "dict_ok (get_or [] (pk_traits p))"
  shows "serves (nps @ [(n, p)]) r'"
proof (cases "pk_models p")
  case None
  then have c: "claims p = []" by (simp add: claims_def)
  then have "owner (nps @ [(n, p)]) m = owner nps m" for m by (simp add: owner_snoc split: option.split)
  moreover have "r' = r" using assms(2) None by (auto simp: index_package_def validate_models_def split: if_splits)
  ultimately show ?thesis using assms(1) c by (simp add: serves_def package_of_def display_by_def)
next
  case (Some ms)
  then have c: "claims p = ms" by (simp add: claims_def)
  have v: "check_models n p ms r = None" using assms(2) Some by (auto simp: index_package_def validate_models_def split: option.splits)
  then have ms: "distinct ms" "\<forall>m \<in> set ms. dget (r_display r) m = None"
    by (auto simp: check_models_def find_None_iff dest: first_repeat_None split: if_splits option.splits)
  have free: "owner nps m = None" if "m \<in> set ms" for m
  proof (rule ccontr)
    assume "owner nps m \<noteq> None"
    then have "display_by nps m \<noteq> None" by (auto simp: display_by_def)
    then show False using assms(1) ms(2) that by (simp add: serves_def get_display_metadata_def)
  qed
  have "populate_model_indices p ms (populate_display n p ms r) = (None, r')" using assms(2) Some v
    by (simp add: index_package_def validate_models_def)
  then obtain A xs where a: "noise_set (pk_noise p) = Inr A" "unauthored_of (pk_unauthored p) = Inr xs"
    by (auto simp: populate_model_indices_def Let_def split: sum.splits)
  define r1 where "r1 = put_traits ms (pk_traits p) ((populate_display n p ms r)\<lparr>r_noise := put_all ms A (r_noise r)\<rparr>)"
  have rn: "r_noise (populate_display n p ms r) = r_noise r" by (simp add: populate_display_def)
  have r': "r' = put_rest p ms (r1\<lparr>r_unauthored := put_all ms xs (r_unauthored r1)\<rparr>)"
    using \<open>populate_model_indices p ms (populate_display n p ms r) = (None, r')\<close> a rn
    by (simp add: populate_model_indices_def Let_def r1_def)
  have "r_display r' = r_display (populate_display n p ms r)"
    using others_eq(1) [OF put_traits_others] by (simp add: r' put_rest_def r1_def)
  then have disp: "get_display_metadata m r' = (if m \<in> set ms then Some (display_of n p m) else get_display_metadata m r)" for m
    by (simp add: get_display_metadata_def populate_display_def fold_dset)
  have d: "get_display_metadata m r' = display_by (nps @ [(n, p)]) m \<and> shows_package m (package_of (nps @ [(n, p)]) m) r'" for m
  proof (cases "m \<in> set ms")
    case True
    then have o: "owner (nps @ [(n, p)]) m = Some (n, p)" using free c by (simp add: owner_snoc)
    have "package_of nps m = empty_package" using free [OF True] by (simp add: package_of_def)
    then have "shows_package m empty_package r" using assms(1) by (metis serves_def)
    from shows_indexed [OF this True a assms(3) r1_def] show ?thesis using o True disp r' by (simp add: display_by_def package_of_def)
  next
    case False
    then have o: "owner (nps @ [(n, p)]) m = owner nps m" using c by (simp add: owner_snoc split: option.split)
    then have "package_of (nps @ [(n, p)]) m = package_of nps m" "display_by (nps @ [(n, p)]) m = display_by nps m"
      by (simp_all add: package_of_def display_by_def)
    then show ?thesis using assms(1) shows_other [OF False assms(3) r1_def] False disp r' by (simp add: serves_def)
  qed
  have "set ms \<inter> set (concat (map (\<lambda>(n, p). claims p) nps)) = {}" using free owner_None by blast
  then show ?thesis using assms(1) ms(1) c d by (simp add: serves_def inf_commute)
qed

lemma serves_by_model: "serves nps (r\<lparr>r_by_model := bm\<rparr>) = serves nps r" "serves nps (r\<lparr>r_discovered := b\<rparr>) = serves nps r"
  by (simp_all add: serves_def get_display_metadata_def shows_package_def get_trait_def settings_for_model_def composites_for_model_def
      endpoints_for_model_def device_types_for_model_def ptz_features_for_model_def dropped_paths_for_model_def dropped_rids_for_model_def
      power_class_for_model_def allow_unauthored_def noise_override_for_model_def)

lemma index_keeps_classes: "r_by_model (snd (index_package n p r)) = r_by_model r"
proof -
  have "r_by_model (put_traits ms ts r') = r_by_model r'" for ms ts r'
    unfolding put_traits_def
    by (cases ts) (auto intro!: fold_same [where g = r_by_model] simp: put_trait_def split: prod.splits)
  then show ?thesis
    by (simp add: index_package_def populate_model_indices_def put_rest_def populate_display_def Let_def split: sum.split option.split)
qed

lemma serves_walk:
  "serves nps r \<Longrightarrow> walk_packages fs r = (None, r') \<Longrightarrow>
   \<forall>f \<in> set fs. \<forall>p. pf_module f = Some p \<longrightarrow> dict_ok (get_or [] (pk_traits p)) \<Longrightarrow>
   serves (nps @ imported fs (r_by_model r)) r'"
proof (induction fs arbitrary: nps r)
  case (Cons f fs)
  have ok: "\<forall>f \<in> set fs. \<forall>p. pf_module f = Some p \<longrightarrow> dict_ok (get_or [] (pk_traits p))" using Cons.prems(3) by simp
  obtain m bm where i: "import_package f (r_by_model r) = (m, bm)" by fastforce
  have s: "serves nps (r\<lparr>r_by_model := bm\<rparr>)" using Cons.prems(1) by (simp add: serves_by_model)
  show ?case
  proof (cases "is_private (pf_name f)")
    case True
    then show ?thesis using Cons.IH [OF Cons.prems(1) _ ok] Cons.prems(2) by simp
  next
    case False
    show ?thesis
    proof (cases m)
      case None
      then show ?thesis using Cons.IH [OF s _ ok] Cons.prems(2) False i by simp
    next
      case (Some p)
      then have p: "dict_ok (get_or [] (pk_traits p))" using i Cons.prems(3)
        by (auto simp: import_package_def split: prod.splits if_splits)
      obtain e r1 where x: "index_package (full_name (pf_name f)) p (r\<lparr>r_by_model := bm\<rparr>) = (e, r1)" by fastforce
      then have e: "e = None" "walk_packages fs r1 = (None, r')" using Cons.prems(2) False i Some by (cases e; simp)+
      have b: "r_by_model r1 = bm" using index_keeps_classes [of "full_name (pf_name f)" p "r\<lparr>r_by_model := bm\<rparr>"] x by simp
      have "serves (nps @ [(full_name (pf_name f), p)]) r1" using serves_index [OF s x [unfolded e(1)] p] .
      from Cons.IH [OF this e(2) ok] show ?thesis using False i Some b by simp
    qed
  qed
qed simp

text \<open>
  C14 [discovery_serves_packages]
  A discovery that succeeds over packages whose tables of traits have distinct keys serves every model from one
  package: no model is claimed twice, each lookup of a claimed model answers with what its package declares (traits,
  display data, settings, composites, endpoints, device types, PTZ features, dropped paths and resources, power,
  noise and synthesis opt-ins), the package's own attributes left out giving the defaults, and a model that
  no package claims answers as if its package were empty.
\<close>

theorem discovery_serves_packages:
  assumes "ensure_discovered (Some fs) new_registry = (None, r)"
    "\<forall>f \<in> set fs. \<forall>p. pf_module f = Some p \<longrightarrow> dict_ok (get_or [] (pk_traits p))"
  shows "distinct (concat (map (\<lambda>(n, p). claims p) (imported fs []))) \<and>
    (\<forall>m. get_display_metadata m r = display_by (imported fs []) m \<and> shows_package m (package_of (imported fs []) m) r)"
proof -
  have "serves [] new_registry"
    by (simp add: serves_def new_registry_def owner_def display_by_def package_of_def get_display_metadata_def shows_package_def
        empty_package_def get_trait_def settings_for_model_def composites_for_model_def endpoints_for_model_def device_types_for_model_def
        ptz_features_for_model_def dropped_paths_for_model_def dropped_rids_for_model_def power_class_for_model_def
        allow_unauthored_def noise_override_for_model_def unauthored_of_def noise_set_def)
  moreover obtain r0 where "walk_packages fs new_registry = (None, r0)" "r = r0\<lparr>r_discovered := True\<rparr>"
    using assms(1) by (auto simp: ensure_discovered_def new_registry_def split: prod.splits option.splits)
  moreover have "r_by_model new_registry = []" by (simp add: new_registry_def)
  ultimately have "serves (imported fs []) r"
    using serves_walk [of "[]" new_registry fs r0] assms(2) by (simp add: serves_by_model)
  then show ?thesis by (simp add: serves_def)
qed

text \<open>A light with an override, a hub, and a file whose import fails.\<close>

definition sample_files :: "package_file list" where
  "sample_files =
     [\<lparr>pf_name = ''_loader'', pf_decorated = [], pf_module = Some empty_package\<rparr>,
      \<lparr>pf_name = ''light'', pf_decorated = [], pf_module = Some (load_model_data
         \<lparr>pd_models = [''l.1'', ''l.2''], pd_manufacturer = ''Aqara'', pd_display = ''Bulb'', pd_endpoints = [(1, Some ''Light'')],
          pd_device_types = [''Light''], pd_traits = [(''1.7.85'', new_trait ''1.7.85'' ''On''), (''1.8.85'', new_trait ''1.8.85'' ''X'')],
          pd_settings = [], pd_composites = [], pd_power = Some ''mains'', pd_whitelabels = [(''l.2'', ''Twin'')], pd_dropped_paths = [''9.9.9''],
          pd_dropped_rids = []\<rparr>
         (Some \<lparr>po_traits = [(''1.8.85'', None)], po_settings = [], po_capabilities = []\<rparr>))\<rparr>,
      \<lparr>pf_name = ''hub'', pf_decorated = [([''h.1''], \<lparr>dc_name = ''Hub'', dc_module = full_name ''hub''\<rparr>)],
       pf_module = Some (empty_package\<lparr>pk_models := Some [''h.1''], pk_classes := [\<lparr>dc_name = ''Hub'', dc_module = full_name ''hub''\<rparr>]\<rparr>)\<rparr>,
      \<lparr>pf_name = ''twin'', pf_decorated = [([''h.1''], \<lparr>dc_name = ''Twin'', dc_module = full_name ''twin''\<rparr>)],
       pf_module = Some empty_package\<rparr>]"

lemma discovery_serves_packages_witness:
  "\<exists>r. ensure_discovered (Some sample_files) new_registry = (None, r) \<and> get_trait ''l.2'' ''1.8.85'' r = None \<and>
     get_display_metadata ''l.2'' r = Some \<lparr>dm_manufacturer = ''Aqara'', dm_name = ''Twin''\<rparr> \<and>
     get_display_metadata ''h.1'' r = Some \<lparr>dm_manufacturer = ''Aqara'', dm_name = ''hub''\<rparr> \<and>
     dropped_paths_for_model ''l.1'' r = {''9.9.9''} \<and> power_class_for_model ''h.1'' r = None"
proof -
  have e: "fst (ensure_discovered (Some sample_files) new_registry) = None" by code_simp
  then obtain r where r: "ensure_discovered (Some sample_files) new_registry = (None, r)" by (metis prod.collapse)
  have "list_all (\<lambda>f. case pf_module f of None \<Rightarrow> True | Some p \<Rightarrow> distinct (map fst (get_or [] (pk_traits p)))) sample_files" by code_simp
  then have t: "\<forall>f \<in> set sample_files. \<forall>p. pf_module f = Some p \<longrightarrow> dict_ok (get_or [] (pk_traits p))"
    by (auto simp: list_all_iff dict_ok_def)
  note d = discovery_serves_packages [OF r t]
  have "display_by (imported sample_files []) ''l.2'' = Some \<lparr>dm_manufacturer = ''Aqara'', dm_name = ''Twin''\<rparr> \<and>
     display_by (imported sample_files []) ''h.1'' = Some \<lparr>dm_manufacturer = ''Aqara'', dm_name = ''hub''\<rparr> \<and>
     dget (get_or [] (pk_traits (package_of (imported sample_files []) ''l.2''))) ''1.8.85'' = None \<and>
     pk_dropped_paths (package_of (imported sample_files []) ''l.1'') = Some [''9.9.9''] \<and>
     pk_power (package_of (imported sample_files []) ''h.1'') = None" by code_simp
  with d r show ?thesis by (auto simp: shows_package_def)
qed

text \<open>
  The documented clean state after a failed discovery is not reached: only five of the indices are cleared. Here
  the second package claims the model of the first, and the settings of the first stay.
\<close>

lemma failed_discovery_leftovers:
  "let p = empty_package\<lparr>pk_models := Some [''a''], pk_power := Some ''mains''\<rparr>;
       f = \<lparr>pf_name = ''p'', pf_decorated = [], pf_module = Some p\<rparr>;
       r = ensure_discovered (Some [f, f\<lparr>pf_name := ''q''\<rparr>]) new_registry
   in fst r = Some (Already_Claimed ''a'') \<and> get_display_metadata ''a'' (snd r) = None \<and> power_class_for_model ''a'' (snd r) = Some ''mains''"
  by code_simp

end
