(* ===== verification/Seeding.thy ===== *)
theory Seeding
  imports Cloud Codecs Device "HOL-Library.List_Lexorder" "HOL-Library.Char_ord"
begin

text \<open>
  The cloud passes of \<open>__init__.py\<close> and \<open>enrich_light_effects\<close> of \<open>hub/cloud_client.py\<close>: effects of lights,
  subscription and first values of traits, settings and composites, the single re-authentication of a pass, and
  the repetition of the subscriptions. A pass ends with the error that it raises, if it does; \<open>Beyond_Text\<close>
  stands for values outside the modelled characters and is handed through.
\<close>

section \<open>State\<close>

text \<open>The client, the devices noted as armed, and how often re-authentication was started.\<close>

record cloud_state =
  w_client :: client
  w_armed :: "string list"
  w_reauths :: nat

text \<open>The errors that \<open>except Exception\<close> does not keep: \<open>AqaraCloudAuthError\<close> is caught first and raised again.\<close>

definition reraised :: "cloud_error \<Rightarrow> bool" where
  "reraised e = (e = Cloud_Auth_Error \<or> e = Beyond_Text)"

section \<open>Effects of lights\<close>

text \<open>
  A number for \<open>float(...)\<close>: \<open>text_float\<close> reads a text as a JSON number, None: ValueError. An integer beyond the
  doubles raises OverflowError, which is not caught here.
\<close>

definition float_of :: "(string \<Rightarrow> json option) \<Rightarrow> json \<Rightarrow> cloud_error + json" where
  "float_of text_float v =
     (case v of
        JStr s \<Rightarrow> Inr (case text_float s of Some x \<Rightarrow> x | None \<Rightarrow> JInt 0)
      | JInt i \<Rightarrow> if 2 ^ 1024 - 2 ^ 970 \<le> \<bar>i\<bar> then Inl cloud_error.Overflow_Error else Inr (JInt i)
      | JBool b \<Rightarrow> Inr (JInt (if b then 1 else 0))
      | JFloat s \<Rightarrow> Inr (JFloat s)
      | _ \<Rightarrow> Inr (JInt 0))"

definition kelvin_of :: "json \<Rightarrow> int option" where
  "kelvin_of ct =
     (if ct = JFloat ''Infinity'' then Some 0
      else case num_value ct of Some r \<Rightarrow> if 0 < r then Some (round_half_even (1000000 / r)) else None | None \<Rightarrow> None)"

text \<open>\<open>int(bright_raw)\<close>: TypeError and ValueError give None, OverflowError escapes.\<close>

definition brightness_of :: "json \<Rightarrow> cloud_error + int option" where
  "brightness_of v =
     (if v = JNull then Inr None
      else case int_or_raise v of Inr i \<Rightarrow> Inr (Some i) | Inl e \<Rightarrow> if e = cloud_error.Overflow_Error then Inl e else Inr None)"

definition effect_name :: "obj \<Rightarrow> cloud_error + string" where
  "effect_name d = (case py_or (jget d ''customName'' JNull) (JStr []) of JStr s \<Rightarrow> Inr s | _ \<Rightarrow> Inl Beyond_Text)"

text \<open>The value of a static scene: JSON in a text, unreadable text counts as empty.\<close>

definition scene_value :: "obj \<Rightarrow> cloud_error + obj" where
  "scene_value d =
     (case py_or (jget d ''value'' JNull) (JStr ''{}'') of
        JStr s \<Rightarrow> (case loads s of Inr (JObj r) \<Rightarrow> Inr r | Inr _ \<Rightarrow> Inl cloud_error.Attribute_Error | Inl Malformed \<Rightarrow> Inr [] | Inl Beyond \<Rightarrow> Inl Beyond_Text)
      | _ \<Rightarrow> Inl cloud_error.Type_Error)"

definition static_effect :: "(string \<Rightarrow> json option) \<Rightarrow> string \<Rightarrow> obj \<Rightarrow> cloud_error + effect" where
  "static_effect text_float n d =
     (case scene_value d of
        Inl e \<Rightarrow> Inl e
      | Inr r \<Rightarrow>
          (case float_of text_float (jget r ''colour_temperature'' JNull) of
             Inl e \<Rightarrow> Inl e
           | Inr ct \<Rightarrow>
               (case brightness_of (jget r ''light_level'' JNull) of
                  Inl e \<Rightarrow> Inl e
                | Inr b \<Rightarrow> Inr \<lparr>ef_name = n, ef_seq_id = None, ef_color_temp_kelvin = kelvin_of ct, ef_brightness_pct = b\<rparr>)))"

definition parse_effect :: "(string \<Rightarrow> json option) \<Rightarrow> json \<Rightarrow> cloud_error + effect" where
  "parse_effect text_float v =
     (case v of
        JObj d \<Rightarrow>
          (case effect_name d of
             Inl e \<Rightarrow> Inl e
           | Inr n \<Rightarrow>
               if jget d ''seqId'' JNull = JNull then static_effect text_float n d
               else (case py_str (jget d ''seqId'' JNull) of
                       Inl e \<Rightarrow> Inl e
                     | Inr s \<Rightarrow> Inr \<lparr>ef_name = n, ef_seq_id = Some s, ef_color_temp_kelvin = None, ef_brightness_pct = None\<rparr>))
      | _ \<Rightarrow> Inl cloud_error.Attribute_Error)"

fun map_err :: "('a \<Rightarrow> 'e + 'b) \<Rightarrow> 'a list \<Rightarrow> 'e + 'b list" where
  "map_err f [] = Inr []"
| "map_err f (x # xs) = (case f x of Inl e \<Rightarrow> Inl e | Inr y \<Rightarrow> (case map_err f xs of Inl e \<Rightarrow> Inl e | Inr ys \<Rightarrow> Inr (y # ys)))"

text \<open>\<open>ucas + dcas\<close>: two lists; two texts join and then have no \<open>get\<close>, anything else does not add.\<close>

definition custom_actions :: "obj \<Rightarrow> cloud_error + json list" where
  "custom_actions d =
     (case (py_or (jget d ''UserCustomActions'' JNull) (JList []), py_or (jget d ''DefaultCustomActions'' JNull) (JList [])) of
        (JList us, JList ds) \<Rightarrow> Inr (us @ ds)
      | (JStr a, JStr b) \<Rightarrow> Inr (map (\<lambda>c. JStr [c]) (a @ b))
      | _ \<Rightarrow> Inl cloud_error.Type_Error)"

definition walk_effects :: "(string \<Rightarrow> json option) \<Rightarrow> obj \<Rightarrow> cloud_error + effect list" where
  "walk_effects text_float d = (case custom_actions d of Inl e \<Rightarrow> Inl e | Inr xs \<Rightarrow> map_err (parse_effect text_float) xs)"

definition parse_effects :: "(string \<Rightarrow> json option) \<Rightarrow> obj \<Rightarrow> obj \<Rightarrow> cloud_error + effect list" where
  "parse_effects text_float st dyn =
     (case walk_effects text_float st of
        Inl e \<Rightarrow> Inl e
      | Inr es \<Rightarrow> (case walk_effects text_float dyn of Inl e \<Rightarrow> Inl e | Inr fs \<Rightarrow> Inr (es @ fs)))"

text \<open>Both queries of one light and their parse.\<close>

definition light_effects :: "env \<Rightarrow> (string \<Rightarrow> json option) \<Rightarrow> string \<Rightarrow> string \<Rightarrow> string \<Rightarrow> client \<Rightarrow> (cloud_error + effect list) \<times> client" where
  "light_effects E text_float tok model did c =
     (case query_custom_actions E tok ''new_dynamic_scene_mode'' model did c of
        (Inl e, c) \<Rightarrow> (Inl e, c)
      | (Inr st, c) \<Rightarrow>
          (case query_custom_actions E tok ''scene_mode'' model did c of
             (Inl e, c) \<Rightarrow> (Inl e, c)
           | (Inr dyn, c) \<Rightarrow> (parse_effects text_float st dyn, c)))"

fun enrich_lights :: "env \<Rightarrow> (string \<Rightarrow> json option) \<Rightarrow> string \<Rightarrow> string \<Rightarrow> string \<Rightarrow> descriptor list \<Rightarrow> client \<Rightarrow>
    cloud_error option \<times> descriptor list \<times> client" where
  "enrich_lights E tf tok model did [] c = (None, [], c)"
| "enrich_lights E tf tok model did (LightDescriptor l # ds) c =
     (case light_effects E tf tok model did c of
        (Inl e, c) \<Rightarrow>
          if reraised e then (Some e, LightDescriptor l # ds, c)
          else (case enrich_lights E tf tok model did ds c of (r, ds', c) \<Rightarrow> (r, LightDescriptor (l\<lparr>li_effects := []\<rparr>) # ds', c))
      | (Inr es, c) \<Rightarrow>
          (case enrich_lights E tf tok model did ds c of (r, ds', c) \<Rightarrow> (r, LightDescriptor (l\<lparr>li_effects := es\<rparr>) # ds', c)))"
| "enrich_lights E tf tok model did (d # ds) c =
     (case enrich_lights E tf tok model did ds c of (r, ds', c) \<Rightarrow> (r, d # ds', c))"

section \<open>Traits\<close>

definition TRAIT_READ_BATCH_SIZE :: nat where "TRAIT_READ_BATCH_SIZE = 16"

definition subscribe_paths :: "traits \<Rightarrow> string list" where
  "subscribe_paths ts = sort (remdups (List.map_filter (\<lambda>(k, s). case t_wire_path s of Some p \<Rightarrow> if p = [] then None else Some p | None \<Rightarrow> None) ts))"

function batches :: "'a list \<Rightarrow> 'a list list" where
  "batches xs = (if xs = [] then [] else take TRAIT_READ_BATCH_SIZE xs # batches (drop TRAIT_READ_BATCH_SIZE xs))"
  by pat_completeness auto
termination by (relation "measure length") (auto simp: TRAIT_READ_BATCH_SIZE_def)

declare batches.simps [simp del]

text \<open>
  An item of the answer. None and the empty text are no value; a path that is neither a text nor empty is kept under
  a key that no descriptor has, or raises TypeError when it cannot be a key.
\<close>

definition seed_item :: "json \<Rightarrow> string device \<Rightarrow> cloud_error + string device" where
  "seed_item v dv =
     (case v of
        JObj d \<Rightarrow>
          let path = jget d ''path'' JNull; value = jget d ''value'' JNull
          in if \<not> truthy path \<or> value = JNull \<or> value = JStr [] then Inr dv
             else (case py_str value of
                     Inl e \<Rightarrow> Inl e
                   | Inr s \<Rightarrow> (case path of JStr p \<Rightarrow> Inr (seed_initial_value p s dv)
                               | _ \<Rightarrow> if usable_key path then Inr dv else Inl cloud_error.Type_Error))
      | _ \<Rightarrow> Inr dv)"

fun seed_items :: "json list \<Rightarrow> string device \<Rightarrow> cloud_error option \<times> string device" where
  "seed_items [] dv = (None, dv)"
| "seed_items (v # vs) dv = (case seed_item v dv of Inl e \<Rightarrow> (Some e, dv) | Inr dv' \<Rightarrow> seed_items vs dv')"

fun seed_batches :: "env \<Rightarrow> string \<Rightarrow> string \<Rightarrow> string list list \<Rightarrow> client \<Rightarrow> string device \<Rightarrow> cloud_error option \<times> client \<times> string device" where
  "seed_batches E tok did [] c dv = (None, c, dv)"
| "seed_batches E tok did (b # bs) c dv =
     (case query_device_traits E tok did b c of
        (Inl e, c) \<Rightarrow> if reraised e then (Some e, c, dv) else seed_batches E tok did bs c dv
      | (Inr vs, c) \<Rightarrow>
          (case seed_items vs dv of
             (Some e, dv) \<Rightarrow> (Some e, c, dv)
           | (None, dv) \<Rightarrow> seed_batches E tok did bs c dv))"

definition subscribe_and_seed_traits :: "env \<Rightarrow> string \<Rightarrow> traits \<Rightarrow> string \<Rightarrow> cloud_state \<Rightarrow> string device \<Rightarrow>
    cloud_error option \<times> cloud_state \<times> string device" where
  "subscribe_and_seed_traits E tok ts did w dv =
     (if subscribe_paths ts = [] then (None, w, dv)
      else case seed_batches E tok did (batches (subscribe_paths ts)) (w_client w) dv of
             (Some e, c, dv) \<Rightarrow> (Some e, w\<lparr>w_client := c\<rparr>, dv)
           | (None, c, dv) \<Rightarrow> (None, w\<lparr>w_client := c, w_armed := w_armed w @ [did]\<rparr>, dv))"

section \<open>Settings and composites\<close>

definition stateful_rids :: "(string, setting_spec) dict \<Rightarrow> string list" where
  "stateful_rids sts = map fst (filter (\<lambda>(rid, s). st_platform s \<noteq> ''button'') sts)"

fun seed_values :: "(string \<Rightarrow> string \<Rightarrow> 'a \<Rightarrow> 'a) \<Rightarrow> string list \<Rightarrow> (json \<times> json) list \<Rightarrow> 'a \<Rightarrow> cloud_error option \<times> 'a" where
  "seed_values stage rids [] x = (None, x)"
| "seed_values stage rids ((k, v) # kvs) x =
     (case k of
        JStr rid \<Rightarrow>
          if v = JNull \<or> rid \<notin> set rids then seed_values stage rids kvs x
          else (case py_str v of Inl e \<Rightarrow> (Some e, x) | Inr s \<Rightarrow> seed_values stage rids kvs (stage rid s x))
      | _ \<Rightarrow> seed_values stage rids kvs x)"

text \<open>The frame of both: no session, nothing to ask, the query, and each value handed on.\<close>

definition seed_rids :: "env \<Rightarrow> string \<Rightarrow> string \<Rightarrow> string list \<Rightarrow> (string \<Rightarrow> string \<Rightarrow> 'a \<Rightarrow> 'a) \<Rightarrow> cloud_state \<Rightarrow> 'a \<Rightarrow> cloud_error option \<times> cloud_state \<times> 'a" where
  "seed_rids E tok did rids stage w x =
     (if tok = [] \<or> rids = [] then (None, w, x)
      else case query_resources_by_rid E tok did rids (w_client w) of
             (Inl e, c) \<Rightarrow> (if reraised e then Some e else None, w\<lparr>w_client := c\<rparr>, x)
           | (Inr kvs, c) \<Rightarrow> (case seed_values stage rids kvs x of (e, x) \<Rightarrow> (e, w\<lparr>w_client := c\<rparr>, x)))"

definition seed_settings_from_cloud :: "env \<Rightarrow> string \<Rightarrow> (string, setting_spec) dict \<Rightarrow> cloud_state \<Rightarrow> string device \<Rightarrow> cloud_error option \<times> cloud_state \<times> string device" where
  "seed_settings_from_cloud E tok sts w dv = seed_rids E tok (dv_did dv) (stateful_rids sts) seed_initial_value w dv"

definition CODECS :: "(string \<Rightarrow> (nat \<times> nat) option) \<Rightarrow> (string, codec) dict" where
  "CODECS fromiso = [(''packed_period'', packed_period), (''brightness'', brightness), (''schedule_json'', schedule_json fromiso),
     (''region_json'', region_json), (''bbox_region_json'', bbox_region_json), (''ptz_preset_json'', ptz_preset_json)]"

text \<open>The controllers by device and resource, and the one place where they are written here.\<close>

type_synonym controllers = "(string \<times> string, codec \<times> composite) dict"

definition codec_named :: "(string \<Rightarrow> (nat \<times> nat) option) \<Rightarrow> obj \<Rightarrow> codec option" where
  "codec_named fromiso decl = (case jget decl ''codec'' JNull of JStr n \<Rightarrow> dget (CODECS fromiso) n | _ \<Rightarrow> None)"

definition build_composite :: "(string \<Rightarrow> (nat \<times> nat) option) \<Rightarrow> string \<Rightarrow> string \<times> obj \<Rightarrow> controllers \<Rightarrow> controllers" where
  "build_composite fromiso did kd cs =
     (case codec_named fromiso (snd kd) of None \<Rightarrow> cs | Some c \<Rightarrow> dset (did, fst kd) (c, new_composite c) cs)"

definition build_composite_controllers :: "(string \<Rightarrow> (nat \<times> nat) option) \<Rightarrow> (string, obj) dict \<Rightarrow> string \<Rightarrow> controllers \<Rightarrow> controllers" where
  "build_composite_controllers fromiso decls did cs = fold (build_composite fromiso did) decls cs"

definition seed_controller :: "string \<Rightarrow> string \<Rightarrow> string \<Rightarrow> controllers \<Rightarrow> controllers" where
  "seed_controller did rid wire cs =
     (case dget cs (did, rid) of None \<Rightarrow> cs | Some (c, s) \<Rightarrow> dset (did, rid) (c, seed c wire s) cs)"

definition seed_composites_from_cloud :: "env \<Rightarrow> string \<Rightarrow> (string, obj) dict \<Rightarrow> string \<Rightarrow> cloud_state \<Rightarrow> controllers \<Rightarrow> cloud_error option \<times> cloud_state \<times> controllers" where
  "seed_composites_from_cloud E tok decls did w cs = seed_rids E tok did (dkeys decls) (seed_controller did) w cs"

section \<open>Re-authentication\<close>

text \<open>
  \<open>_run_cloud_call_with_reauth\<close>: the error that propagates, whether authentication has failed by now, and what the call left.
\<close>

definition run_cloud_call :: "(cloud_state \<Rightarrow> 'a \<Rightarrow> cloud_error option \<times> cloud_state \<times> 'a) \<Rightarrow> bool \<Rightarrow> cloud_state \<Rightarrow> 'a \<Rightarrow>
    cloud_error option \<times> bool \<times> cloud_state \<times> 'a" where
  "run_cloud_call f failed w x =
     (if failed then (None, True, w, x)
      else case f w x of
             (None, w, x) \<Rightarrow> (None, False, w, x)
           | (Some e, w, x) \<Rightarrow>
               if e = Cloud_Auth_Error then (None, True, w\<lparr>w_reauths := w_reauths w + 1\<rparr>, x) else (Some e, False, w, x))"

text \<open>A device with the traits to subscribe.\<close>

type_synonym target = "string device \<times> traits"

fun rearm_targets :: "env \<Rightarrow> string \<Rightarrow> bool \<Rightarrow> target list \<Rightarrow> cloud_state \<Rightarrow> cloud_error option \<times> bool \<times> cloud_state \<times> target list" where
  "rearm_targets E tok failed [] w = (None, failed, w, [])"
| "rearm_targets E tok failed ((dv, ts) # us) w =
     (case run_cloud_call (subscribe_and_seed_traits E tok ts (dv_did dv)) failed w dv of
        (Some e, failed, w, dv) \<Rightarrow> (Some e, failed, w, (dv, ts) # us)
      | (None, failed, w, dv) \<Rightarrow>
          (case rearm_targets E tok failed us w of (r, failed, w, us) \<Rightarrow> (r, failed, w, (dv, ts) # us)))"

text \<open>\<open>_rearm_subscriptions\<close> when no other pass is running.\<close>

definition rearm_subscriptions :: "env \<Rightarrow> string \<Rightarrow> target list \<Rightarrow> cloud_state \<Rightarrow> cloud_error option \<times> cloud_state \<times> target list" where
  "rearm_subscriptions E tok us w =
     (if tok = [] \<or> us = [] then (None, w, us)
      else case rearm_targets E tok False us w of (r, failed, w, us) \<Rightarrow> (r, w, us))"

section \<open>What is asked\<close>

text \<open>The requests that a call adds carry its body, and there is at least one.\<close>

definition asks :: "string option \<Rightarrow> client \<Rightarrow> client \<Rightarrow> bool" where
  "asks body c c' = (\<exists>qs. requests c' = requests c @ qs \<and> qs \<noteq> [] \<and> list_all (\<lambda>q. rq_body q = body) qs)"

lemma attempt_asks: "attempt E k c = (r, c') \<Longrightarrow> asks (cs_body k) c c'"
  by (drule attempt_client) (auto simp: asks_def attempt_request_def)

lemma asks_trans: "asks b a c \<Longrightarrow> asks b c d \<Longrightarrow> asks b a d"
  unfolding asks_def by (elim exE conjE) (auto intro!: exI [of _ "_ @ _"])

lemma asks_fields [simp]:
  "asks b (c\<lparr>appid := a, appkey := k\<rparr>) c' = asks b c c'" "asks b (c\<lparr>signing_probed := x\<rparr>) c' = asks b c c'"
  "asks b c (restore s c') = asks b c c'" "asks b c (c'\<lparr>signing_probed := x\<rparr>) = asks b c c'"
  by (simp_all add: asks_def restore_def)

lemma asks_same: "requests d = requests c \<Longrightarrow> asks b a d = asks b a c"
  by (simp add: asks_def)

lemma probe_asks:
  "probe_combos E k sd ps c = (r, c') \<Longrightarrow> requests c' = requests c \<or> asks (cs_body k) c c'"
proof (induction ps arbitrary: c)
  case (Cons p ps)
  show ?case
  proof (cases "p = sd")
    case True
    then show ?thesis using Cons by simp
  next
    case False
    let ?c = "c\<lparr>appid := fst p, appkey := snd p\<rparr>"
    obtain x c1 where a: "attempt E k ?c = (x, c1)" by fastforce
    have k: "asks (cs_body k) c c1" using attempt_asks [OF a] by simp
    have n: "probe_combos E k sd ps c1 = (r, c') \<Longrightarrow> asks (cs_body k) c c'"
      using Cons.IH [of c1] asks_trans [OF k] asks_same [of c' c1] k by blast
    have "c' = c1 \<or> probe_combos E k sd ps c1 = (r, c')" using Cons.prems False a
      by (cases p) (auto simp: Let_def split: sum.splits if_splits bool.splits)
    then show ?thesis using n k by auto
  qed
qed simp

lemma call_asks: "call E k f c = (r, c') \<Longrightarrow> asks (cs_body k) c c'"
proof -
  assume "call E k f c = (r, c')"
  then obtain x where s: "signed_request E k c = (x, c')" by (metis call_client prod.collapse snd_conv)
  obtain y c1 where a: "attempt E k c = (y, c1)" by fastforce
  have k: "asks (cs_body k) c c1" by (rule attempt_asks [OF a])
  obtain z c2 where p: "probe_combos E k (appid c1, appkey c1) SIGNING_COMBOS (c1\<lparr>signing_probed := True\<rparr>) = (z, c2)" by fastforce
  have "requests c2 = requests c1 \<or> asks (cs_body k) c1 c2" using probe_asks [OF p] by simp
  then have k2: "asks (cs_body k) c c2" using k asks_trans [OF k] asks_same [of c2 c1] by blast
  have "c' = c1 \<or> c' = c2 \<or> c' = restore (appid c1, appkey c1) c2"
    using s a p by (auto simp: signed_request_def Let_def split: sum.splits if_splits option.splits json.splits)
  then show ?thesis using k k2 by auto
qed

lemma read_asks:
  assumes "query_device_traits E tok did b c = (r, c')" "b \<noteq> []"
  shows "asks (Some (dumps (trait_read_body did b))) c c'"
  using call_asks assms by (fastforce simp: query_device_traits_def post_spec_def)

lemma batches_props: "concat (batches xs) = xs" "b \<in> set (batches xs) \<Longrightarrow> b \<noteq> [] \<and> length b \<le> TRAIT_READ_BATCH_SIZE"
proof -
  show "concat (batches xs) = xs" by (induction xs rule: batches.induct) (simp add: batches.simps)
  show "b \<in> set (batches xs) \<Longrightarrow> b \<noteq> [] \<and> length b \<le> TRAIT_READ_BATCH_SIZE"
  proof (induction xs rule: batches.induct)
    case (1 xs)
    then show ?case using batches.simps [of xs] by (cases "xs = []") (auto simp: TRAIT_READ_BATCH_SIZE_def)
  qed
qed

lemma seed_batches_asks:
  "seed_batches E tok did bs c dv = (r, c', dv') \<Longrightarrow> [] \<notin> set bs \<Longrightarrow>
   \<exists>got qs. requests c' = requests c @ qs \<and> set got \<subseteq> set bs \<and> (r = None \<longrightarrow> got = bs) \<and>
     rq_body ` set qs = (\<lambda>b. Some (dumps (trait_read_body did b))) ` set got"
proof (induction bs arbitrary: c dv)
  case (Cons b bs)
  obtain x c1 where q: "query_device_traits E tok did b c = (x, c1)" by fastforce
  from Cons.prems(2) have b: "b \<noteq> []" "[] \<notin> set bs" by auto
  from read_asks [OF q b(1)] obtain qs where qs: "requests c1 = requests c @ qs" "qs \<noteq> []"
    "list_all (\<lambda>q. rq_body q = Some (dumps (trait_read_body did b))) qs" by (auto simp: asks_def)
  then have im: "rq_body ` set qs = {Some (dumps (trait_read_body did b))}" by (cases qs) (auto simp: list_all_iff)
  consider (stop) "c' = c1" "r \<noteq> None" | (go) dv1 where "seed_batches E tok did bs c1 dv1 = (r, c', dv')"
    using Cons.prems(1) q by (auto split: sum.splits if_splits prod.splits option.splits)
  then show ?case
  proof cases
    case stop
    then show ?thesis using qs(1) im by (intro exI [of _ "[b]"] exI [of _ qs]) auto
  next
    case go
    from Cons.IH [OF go b(2)] obtain got qs' where d: "requests c' = requests c1 @ qs'" "set got \<subseteq> set bs" "r = None \<longrightarrow> got = bs"
      "rq_body ` set qs' = (\<lambda>b. Some (dumps (trait_read_body did b))) ` set got" by blast
    then show ?thesis using qs(1) im by (intro exI [of _ "b # got"] exI [of _ "qs @ qs'"]) auto
  qed
qed simp


section \<open>What is staged\<close>

text \<open>The value that an item gives a path, and the values staged for a path.\<close>

definition item_value :: "string \<Rightarrow> json \<Rightarrow> string option" where
  "item_value p v =
     (case v of
        JObj d \<Rightarrow>
          if jget d ''path'' JNull = JStr p \<and> p \<noteq> [] \<and> jget d ''value'' JNull \<noteq> JNull \<and> jget d ''value'' JNull \<noteq> JStr []
          then (case py_str (jget d ''value'' JNull) of Inr s \<Rightarrow> Some s | Inl e \<Rightarrow> None) else None
      | _ \<Rightarrow> None)"

definition staged :: "string \<Rightarrow> string device \<Rightarrow> string list" where
  "staged p dv = (case dget (dv_pending dv) p of None \<Rightarrow> [] | Some l \<Rightarrow> l)"

definition unseeded :: "string device \<Rightarrow> string device" where
  "unseeded dv = dv\<lparr>dv_pending := []\<rparr>"

lemma staged_seed: "staged p (seed_initial_value q s dv) = staged p dv @ (if p = q \<and> q \<noteq> [] \<and> q \<notin> dv_delivered dv then [s] else [])"
  by (auto simp: staged_def seed_initial_value_def split: option.splits)

lemma unseeded_seed: "unseeded (seed_initial_value q s dv) = unseeded dv"
  by (simp add: unseeded_def seed_initial_value_def)

lemma unseeded_delivered: "unseeded a = unseeded b \<Longrightarrow> dv_delivered a = dv_delivered b"
  by (cases a; cases b) (simp add: unseeded_def)

lemma seed_item_staged:
  assumes "seed_item v dv = Inr dv'"
  shows "staged p dv' = staged p dv @ (if p \<in> dv_delivered dv then [] else case item_value p v of None \<Rightarrow> [] | Some s \<Rightarrow> [s]) \<and> unseeded dv' = unseeded dv"
proof (cases v)
  case (JObj d)
  let ?path = "jget d ''path'' JNull" and ?val = "jget d ''value'' JNull"
  show ?thesis
  proof (cases "\<not> truthy ?path \<or> ?val = JNull \<or> ?val = JStr []")
    case True
    then have "dv' = dv" using assms JObj by (simp add: seed_item_def Let_def)
    moreover have "item_value p v = None" using True JObj by (auto simp: item_value_def)
    ultimately show ?thesis by simp
  next
    case False
    then obtain s where s: "py_str ?val = Inr s" using assms JObj by (auto simp: seed_item_def Let_def split: sum.splits)
    show ?thesis
    proof (cases "\<exists>q. ?path = JStr q")
      case True
      then obtain q where q: "?path = JStr q" by blast
      then have "dv' = seed_initial_value q s dv" "q \<noteq> []" using assms JObj False s by (auto simp: seed_item_def Let_def)
      then show ?thesis using q s False JObj by (auto simp: staged_seed unseeded_seed item_value_def)
    next
      case other: False
      then have "dv' = dv" using assms JObj False s by (auto simp: seed_item_def Let_def split: json.splits if_splits)
      moreover have "item_value p v = None" using other JObj by (auto simp: item_value_def)
      ultimately show ?thesis by simp
    qed
  qed
qed (use assms in \<open>simp_all add: seed_item_def item_value_def\<close>)

text \<open>
  The items of a cloud answer, taken without an error, stage for each path exactly the values they carry for it, in
  order and as texts; missing and empty values are left out, and a path whose entity was already told a value gets none.
  Nothing else of the device changes.
\<close>

theorem first_values_staged:
  assumes "seed_items vs dv = (None, dv')"
  shows "staged p dv' = staged p dv @ (if p \<in> dv_delivered dv then [] else List.map_filter (item_value p) vs) \<and>
    unseeded dv' = unseeded dv"
  using assms
proof (induction vs arbitrary: dv)
  case (Cons v vs)
  then obtain dv1 where v: "seed_item v dv = Inr dv1" "seed_items vs dv1 = (None, dv')" by (auto split: sum.splits)
  note i = seed_item_staged [OF v(1), of p]
  have "dv_delivered dv1 = dv_delivered dv" using i unseeded_delivered by blast
  then show ?case using Cons.IH [OF v(2)] i by (auto simp: map_filter_simps split: option.splits)
qed (simp add: map_filter_simps)

section \<open>One re-authentication\<close>

lemma rearm_failed: "rearm_targets E tok True us w = (None, True, w, us)"
  by (induction us) (auto simp: run_cloud_call_def)

lemma subscribe_reauths: "subscribe_and_seed_traits E tok ts did w dv = (r, w', dv') \<Longrightarrow> w_reauths w' = w_reauths w"
  by (auto simp: subscribe_and_seed_traits_def split: if_splits prod.splits option.splits)

lemma rearm_targets_props:
  "rearm_targets E tok False us w = (r, failed, w', us') \<Longrightarrow>
   map snd us' = map snd us \<and>
   (if failed then r = None \<and> w_reauths w' = Suc (w_reauths w) \<and>
      (\<exists>n < length us. drop (Suc n) us' = drop (Suc n) us \<and>
         rearm_targets E tok False (take (Suc n) us) w = (None, True, w', take (Suc n) us') \<and>
         (\<exists>w1. rearm_targets E tok False (take n us) w = (None, False, w1, take n us') \<and> w_reauths w1 = w_reauths w))
    else w_reauths w' = w_reauths w)"
proof (induction us arbitrary: w us' r failed w')
  case (Cons u us)
  obtain dv ts where u: "u = (dv, ts)" by fastforce
  obtain e w1 dv1 where s: "subscribe_and_seed_traits E tok ts (dv_did dv) w dv = (e, w1, dv1)" by (metis prod_cases3)
  have w1: "w_reauths w1 = w_reauths w" by (rule subscribe_reauths [OF s])
  consider (ok) "e = None" | (auth) "e = Some Cloud_Auth_Error" | (bad) x where "e = Some x" "x \<noteq> Cloud_Auth_Error" by (cases e) auto
  then show ?case
  proof cases
    case ok
    obtain r2 f2 w2 us2 where t: "rearm_targets E tok False us w1 = (r2, f2, w2, us2)" by (metis prod_cases4)
    then have eq: "r = r2" "failed = f2" "w' = w2" "us' = (dv1, ts) # us2" using Cons.prems u s ok by (simp_all add: run_cloud_call_def)
    note ih = Cons.IH [OF t]
    have step: "rearm_targets E tok False (take (Suc n) (u # us)) w =
      (case rearm_targets E tok False (take n us) w1 of (r, failed, w, us) \<Rightarrow> (r, failed, w, (dv1, ts) # us))" for n
      using u s ok by (simp add: run_cloud_call_def)
    show ?thesis
    proof (cases f2)
      case True
      with ih obtain n w3 where n: "n < length us" "drop (Suc n) us2 = drop (Suc n) us"
        "rearm_targets E tok False (take (Suc n) us) w1 = (None, True, w2, take (Suc n) us2)"
        "rearm_targets E tok False (take n us) w1 = (None, False, w3, take n us2)" "w_reauths w3 = w_reauths w1" by auto
      then have "rearm_targets E tok False (take (Suc (Suc n)) (u # us)) w = (None, True, w', take (Suc (Suc n)) us')"
        "rearm_targets E tok False (take (Suc n) (u # us)) w = (None, False, w3, take (Suc n) us')"
        using step [of "Suc n"] step [of n] eq by (simp_all del: take_Suc_Cons add: take_Suc_Cons [of _ "(dv1, ts)"])
      then show ?thesis using ih True eq w1 u n by (auto intro!: exI [of _ "Suc n"])
    next
      case False
      then show ?thesis using ih eq w1 u by simp
    qed
  next
    case auth
    then have eq: "r = None" "failed" "w' = w1\<lparr>w_reauths := w_reauths w1 + 1\<rparr>" "us' = (dv1, ts) # us"
      using Cons.prems u s by (simp_all add: run_cloud_call_def rearm_failed)
    have "rearm_targets E tok False (take (Suc 0) (u # us)) w = (None, True, w', take (Suc 0) us')"
      using u s auth eq by (simp add: run_cloud_call_def)
    then have "\<exists>n < length (u # us). drop (Suc n) us' = drop (Suc n) (u # us) \<and>
         rearm_targets E tok False (take (Suc n) (u # us)) w = (None, True, w', take (Suc n) us') \<and>
         (\<exists>w1. rearm_targets E tok False (take n (u # us)) w = (None, False, w1, take n us') \<and> w_reauths w1 = w_reauths w)"
      using eq(4) by (intro exI [of _ 0] conjI) (blast | simp)+
    then show ?thesis using eq u w1 by simp
  next
    case bad
    then show ?thesis using Cons.prems u s w1 by (auto simp: run_cloud_call_def)
  qed
qed auto

text \<open>
  C6 [one_reauth_per_pass]
  A pass over the devices starts the re-authentication at most once. When it does, it raises nothing, and the pass was
  the pass over the devices up to the one whose call the cloud rejected: the cloud is asked nothing for the devices
  after it, and they stay as they are.
\<close>

theorem one_reauth_per_pass:
  assumes "rearm_subscriptions E tok us w = (r, w', us')"
  shows "w_reauths w' = w_reauths w \<or>
    r = None \<and> w_reauths w' = Suc (w_reauths w) \<and>
    (\<exists>n < length us. drop (Suc n) us' = drop (Suc n) us \<and>
       rearm_subscriptions E tok (take (Suc n) us) w = (None, w', take (Suc n) us') \<and>
       w_reauths (fst (snd (rearm_subscriptions E tok (take n us) w))) = w_reauths w)"
proof (cases "tok = [] \<or> us = []")
  case True
  then show ?thesis using assms by (auto simp: rearm_subscriptions_def)
next
  case False
  then obtain failed where t: "rearm_targets E tok False us w = (r, failed, w', us')"
    using assms by (auto simp: rearm_subscriptions_def split: prod.splits)
  note p = rearm_targets_props [OF t]
  show ?thesis
  proof (cases failed)
    case True
    with p obtain n w1 where n: "n < length us" "drop (Suc n) us' = drop (Suc n) us"
      "rearm_targets E tok False (take (Suc n) us) w = (None, True, w', take (Suc n) us')"
      "rearm_targets E tok False (take n us) w = (None, False, w1, take n us')" "w_reauths w1 = w_reauths w" "r = None"
      "w_reauths w' = Suc (w_reauths w)" by auto
    have "take (Suc n) us \<noteq> []" using n(1) by auto
    then have "rearm_subscriptions E tok (take (Suc n) us) w = (None, w', take (Suc n) us')"
      using False n(3) by (simp add: rearm_subscriptions_def)
    moreover have "w_reauths (fst (snd (rearm_subscriptions E tok (take n us) w))) = w_reauths w"
      using n(4,5) by (cases "tok = [] \<or> take n us = []") (auto simp: rearm_subscriptions_def)
    ultimately show ?thesis using n by blast
  qed (use p in simp)
qed

section \<open>Witnesses\<close>

text \<open>A cloud that rejects the token, and two devices with one path each.\<close>

definition rejecting :: env where
  "rejecting = \<lparr>md5 = (\<lambda>bs. ''5d''), rsa = (\<lambda>s. s), nonce = nat_text, time_ms = nat_text,
     cloud = (\<lambda>rs. Reply_Text (dumps (JObj [(''code'', JInt 108)])))\<rparr>"

definition sample_traits :: traits where
  "sample_traits = [(''1.7.85'', (new_trait ''1.7.85'' ''OnOff'')\<lparr>t_wire_path := Some ''1.7.85''\<rparr>)]"

definition sample_device :: "string \<Rightarrow> string device" where
  "sample_device did = new_device ''m.1'' did False [] []"

definition sample_state :: cloud_state where
  "sample_state = \<lparr>w_client = sample_client, w_armed = [], w_reauths = 0\<rparr>"

lemma sample_paths: "subscribe_paths sample_traits = [''1.7.85'']"
  by (simp add: subscribe_paths_def sample_traits_def map_filter_simps)

lemma sample_batches: "batches [x] = [[x]]"
proof -
  have "batches ([] :: 'a list) = []" by (subst batches.simps) simp
  then show ?thesis by (subst batches.simps) (simp add: TRAIT_READ_BATCH_SIZE_def)
qed

lemma rejecting_call: "\<exists>c'. call rejecting k f c = (Inl Cloud_Auth_Error, c')"
proof -
  have "wf_json (JObj [(''code'', JInt 108)])" by (simp add: dict_ok_def)
  from loads_dumps [OF this] have "attempt rejecting k c = (Inr (JObj [(''code'', JInt 108)]),
      c\<lparr>requests := requests c @ [attempt_request rejecting k c]\<rparr>)"
    by (simp add: attempt_def request_def attempt_request_def rejecting_def Let_def)
  then show ?thesis
    by (simp add: call_def signed_request_def rejected_sign_def raise_if_error_def prints_as.simps jget_def Let_def AUTH_FAILURE_CODES_def trunc_rat_def)
qed

lemma rejecting_subscribe:
  "\<exists>w' dv'. subscribe_and_seed_traits rejecting tok sample_traits did w dv = (Some Cloud_Auth_Error, w', dv') \<and> w_reauths w' = w_reauths w"
proof -
  obtain c' where "query_device_traits rejecting tok did [''1.7.85''] (w_client w) = (Inl Cloud_Auth_Error, c')"
    using rejecting_call by (simp add: query_device_traits_def) blast
  then show ?thesis by (simp add: subscribe_and_seed_traits_def sample_paths sample_batches reraised_def)
qed


theorem one_reauth_per_pass_witness:
  "\<exists>w' us'. rearm_subscriptions rejecting ''T'' [(sample_device ''a'', sample_traits), (sample_device ''b'', sample_traits)] sample_state =
     (None, w', us') \<and> w_reauths w' = 1 \<and> length us' = 2 \<and> us' ! 1 = (sample_device ''b'', sample_traits)"
proof -
  let ?us = "[(sample_device ''a'', sample_traits), (sample_device ''b'', sample_traits)]"
  obtain w1 dv1 where s: "subscribe_and_seed_traits rejecting ''T'' sample_traits ''a'' sample_state (sample_device ''a'') =
      (Some Cloud_Auth_Error, w1, dv1)" "w_reauths w1 = 0"
    using rejecting_subscribe [of "''T''" "''a''" sample_state "sample_device ''a''"] by (auto simp: sample_state_def [THEN arg_cong [where f = w_reauths]])
  have d: "dv_did (sample_device x) = x" for x by (simp add: sample_device_def new_device_def Let_def)
  have r: "rearm_subscriptions rejecting ''T'' ?us sample_state =
      (None, w1\<lparr>w_reauths := 1\<rparr>, [(dv1, sample_traits), (sample_device ''b'', sample_traits)])"
    using s by (simp add: rearm_subscriptions_def run_cloud_call_def d)
  show ?thesis using one_reauth_per_pass [OF r] r by (auto simp: sample_state_def)
qed

theorem first_values_staged_witness:
  "let items = [JObj [(''path'', JStr ''1.7.85''), (''value'', JInt 1)], JObj [(''path'', JStr ''1.7.85''), (''value'', JStr [])],
      JObj [(''path'', JStr ''1.8.85''), (''value'', JBool True)], JNull, JObj [(''path'', JStr ''1.7.85''), (''value'', JStr ''0'')]];
       dv = snd (seed_items items (sample_device ''d''))
   in staged ''1.7.85'' dv = [''1'', ''0''] \<and> unseeded dv = unseeded (sample_device ''d'')"
proof -
  let ?items = "[JObj [(''path'', JStr ''1.7.85''), (''value'', JInt 1)], JObj [(''path'', JStr ''1.7.85''), (''value'', JStr [])],
      JObj [(''path'', JStr ''1.8.85''), (''value'', JBool True)], JNull, JObj [(''path'', JStr ''1.7.85''), (''value'', JStr ''0'')]]"
  have "fst (seed_items ?items (sample_device ''d'')) = None" by (simp add: seed_item_def jget_def)
  then obtain dv where s: "seed_items ?items (sample_device ''d'') = (None, dv)" by (metis prod.collapse)
  have t1: "int_text 1 = ''1''" by code_simp
  have "staged ''1.7.85'' (sample_device ''d'') = [] \<and> ''1.7.85'' \<notin> dv_delivered (sample_device ''d'') \<and>
    List.map_filter (item_value ''1.7.85'') ?items = [''1'', ''0'']"
    by (simp add: staged_def sample_device_def new_device_def Let_def item_value_def jget_def map_filter_simps t1)
  then show ?thesis using first_values_staged [OF s, of "''1.7.85''"] s by (simp add: Let_def)
qed

text \<open>The controllers of a device: one for each declaration whose codec is known, fresh, and no others.\<close>

lemma composites_built:
  "dict_ok decls \<Longrightarrow>
   dget (build_composite_controllers fromiso decls did cs) (d, rid) =
     (case (if d = did then dget decls rid else None) of
        None \<Rightarrow> dget cs (d, rid)
      | Some decl \<Rightarrow> (case codec_named fromiso decl of None \<Rightarrow> dget cs (d, rid) | Some c \<Rightarrow> Some (c, new_composite c)))"
proof (induction decls arbitrary: cs)
  case (Cons kd decls)
  obtain k decl where kd: "kd = (k, decl)" by fastforce
  have ok: "dict_ok decls" "dget decls k = None" using Cons.prems kd by (auto simp: dict_ok_def map_of_eq_None_iff)
  show ?case using Cons.IH [OF ok(1)] ok(2) kd
    by (auto simp: build_composite_controllers_def build_composite_def split: option.splits)
qed (simp add: build_composite_controllers_def)

end
