(* ===== verification/Setup.thy ===== *)
theory Setup
  imports Seeding Registry Coordinator Rearm Ptz_Control
begin

text \<open>
  The life of a config entry, \<open>__init__.py\<close>: building a device, setting up and unloading an entry, the
  topology callback, the watchdog of pushes, the listener of options and the removal of a device. A setup is a
  sequence of steps over one state; reports that arrive between its steps do not touch what is tracked here.
\<close>

section \<open>Topology\<close>

definition topology_grew :: "string set \<Rightarrow> string set \<Rightarrow> bool" where
  "topology_grew prev cur = (cur - prev \<noteq> {})"

text \<open>What the callback keeps: the kind of the host, the last topology, the passes it has started, the re-arming of devices.\<close>

record host_view =
  hv_kind :: host_kind
  hv_prev :: "string set"
  hv_passes :: nat
  hv_rearm :: manager

definition first_view :: "string \<Rightarrow> string list \<Rightarrow> string set \<Rightarrow> host_view" where
  "first_view hub tgts dids =
     \<lparr>hv_kind = classify_tunnel_host (Some dids) hub, hv_prev = dids, hv_passes = 0, hv_rearm = note_topology tgts dids new_manager\<rparr>"

definition on_topology_changed :: "string \<Rightarrow> string list \<Rightarrow> string set \<Rightarrow> host_view \<Rightarrow> host_view" where
  "on_topology_changed hub tgts dids v =
     v\<lparr>hv_kind := (if classify_tunnel_host (Some dids) hub = Hub \<and> hv_kind v \<noteq> Hub then Hub else hv_kind v),
       hv_prev := dids,
       hv_passes := (if topology_grew (hv_prev v) dids then hv_passes v + 1 else hv_passes v),
       hv_rearm := note_topology tgts dids (hv_rearm v)\<rparr>"

fun growths :: "string set \<Rightarrow> string set list \<Rightarrow> nat" where
  "growths prev [] = 0"
| "growths prev (d # ds) = (if topology_grew prev d then 1 else 0) + growths d ds"

lemma topology_run:
  "hv_kind (fold (on_topology_changed hub tgts) ds v) = Hub \<longleftrightarrow>
     hv_kind v = Hub \<or> (\<exists>d \<in> set ds. classify_tunnel_host (Some d) hub = Hub)"
  "hv_passes (fold (on_topology_changed hub tgts) ds v) = hv_passes v + growths (hv_prev v) ds"
  by (induction ds arbitrary: v) (auto simp: on_topology_changed_def)

text \<open>
  Whatever topologies the hub pushes after the setup, the host counts as a hub from the first topology that shows a child
  on, and an empty one later does not take that back; the subscription is armed again once for each push that names
  a device the push before did not.
\<close>

theorem host_kind_sticky:
  "hv_kind (fold (on_topology_changed hub tgts) ds (first_view hub tgts d0)) =
     (if \<exists>d \<in> set (d0 # ds). d - {hub} \<noteq> {} then Hub else Standalone) \<and>
   hv_passes (fold (on_topology_changed hub tgts) ds (first_view hub tgts d0)) = growths d0 ds"
proof -
  have c: "classify_tunnel_host (Some d) hub = Hub \<longleftrightarrow> d - {hub} \<noteq> {}" for d by (auto simp: classify_tunnel_host_def)
  have "hv_kind (fold (on_topology_changed hub tgts) ds (first_view hub tgts d0)) = Hub \<longleftrightarrow> (\<exists>d \<in> set (d0 # ds). d - {hub} \<noteq> {})"
    unfolding topology_run(1) by (simp add: first_view_def c)
  then show ?thesis unfolding topology_run(2)
    by (cases "hv_kind (fold (on_topology_changed hub tgts) ds (first_view hub tgts d0))") (auto simp: first_view_def)
qed

section \<open>The watchdog of pushes\<close>

definition STALL_REARM_REPAIR_THRESHOLD :: nat where "STALL_REARM_REPAIR_THRESHOLD = 3"
definition PUSH_STALL_TTL_SECONDS :: rat where "PUSH_STALL_TTL_SECONDS = 300"

definition push_appears_stalled :: "bool \<Rightarrow> nat \<Rightarrow> rat \<Rightarrow> rat \<Rightarrow> bool" where
  "push_appears_stalled conn n silent ttl = (conn \<and> 0 < n \<and> ttl < silent)"

text \<open>A tick sees the coordinator and the clock. The times of the passes it started are kept, newest first.\<close>

record tick_view =
  tv_connected :: bool
  tv_size :: nat
  tv_silent :: rat
  tv_now :: rat

record watchdog =
  wd_count :: nat
  wd_last :: rat
  wd_issue :: bool
  wd_waiting :: nat
  wd_passes :: "rat list"
  wd_raised :: nat

definition new_watchdog :: watchdog where
  "new_watchdog = \<lparr>wd_count = 0, wd_last = 0, wd_issue = False, wd_waiting = 0, wd_passes = [], wd_raised = 0\<rparr>"

text \<open>A tick up to its await of the pass, and what it does after the pass; a pass that raises ends the tick.\<close>

definition watchdog_tick :: "tick_view \<Rightarrow> watchdog \<Rightarrow> watchdog" where
  "watchdog_tick v s =
     (if \<not> push_appears_stalled (tv_connected v) (tv_size v) (tv_silent v) PUSH_STALL_TTL_SECONDS
      then if wd_count s \<noteq> 0 then s\<lparr>wd_count := 0, wd_issue := False\<rparr> else s
      else if wd_count s \<ge> STALL_REARM_REPAIR_THRESHOLD then s
      else if tv_now v - wd_last s < PUSH_STALL_TTL_SECONDS then s
      else s\<lparr>wd_last := tv_now v, wd_count := wd_count s + 1, wd_waiting := wd_waiting s + 1, wd_passes := tv_now v # wd_passes s\<rparr>)"

definition watchdog_resume :: "watchdog \<Rightarrow> watchdog" where
  "watchdog_resume s =
     s\<lparr>wd_waiting := wd_waiting s - 1, wd_issue := (wd_issue s \<or> wd_count s \<ge> STALL_REARM_REPAIR_THRESHOLD)\<rparr>"

inductive watchdog_step :: "watchdog \<Rightarrow> watchdog \<Rightarrow> bool" where
  Tick: "watchdog_step s (watchdog_tick v s)"
| Resume: "0 < wd_waiting s \<Longrightarrow> watchdog_step s (watchdog_resume s)"
| Raise: "0 < wd_waiting s \<Longrightarrow> watchdog_step s (s\<lparr>wd_waiting := wd_waiting s - 1, wd_raised := wd_raised s + 1\<rparr>)"

fun spaced :: "rat \<Rightarrow> rat list \<Rightarrow> bool" where
  "spaced d (t # u # ts) = (d \<le> t - u \<and> spaced d (u # ts))"
| "spaced d ts = True"

definition watchdog_ok :: "watchdog \<Rightarrow> bool" where
  "watchdog_ok s =
     (wd_count s \<le> 3 \<and> (wd_issue s \<longrightarrow> wd_count s = 3) \<and> (wd_count s = 3 \<longrightarrow> wd_issue s \<or> 0 < wd_waiting s \<or> 0 < wd_raised s) \<and>
      spaced PUSH_STALL_TTL_SECONDS (wd_passes s) \<and> (case wd_passes s of [] \<Rightarrow> wd_last s = 0 | t # _ \<Rightarrow> wd_last s = t) \<and>
      wd_count s \<le> length (wd_passes s))"

lemma watchdog_ok_step: "watchdog_step s s' \<Longrightarrow> watchdog_ok s \<Longrightarrow> watchdog_ok s'"
proof (induction rule: watchdog_step.induct)
  case (Tick s v)
  then show ?case
    by (cases "wd_passes s")
      (auto simp: watchdog_tick_def watchdog_ok_def STALL_REARM_REPAIR_THRESHOLD_def PUSH_STALL_TTL_SECONDS_def)
next
  case (Resume s)
  then show ?case by (cases "wd_passes s") (auto simp: watchdog_resume_def watchdog_ok_def STALL_REARM_REPAIR_THRESHOLD_def)
next
  case (Raise s)
  then show ?case by (cases "wd_passes s") (auto simp: watchdog_ok_def)
qed


definition stalled_at :: "rat \<Rightarrow> tick_view" where
  "stalled_at t = \<lparr>tv_connected = True, tv_size = 2, tv_silent = t, tv_now = t\<rparr>"


text \<open>
  When the third pass raises, the Repair is never shown, and the watchdog does nothing more while pushes stay away.
\<close>

lemma raising_pass_silences_watchdog:
  "let s = (fold (\<lambda>t. watchdog_tick (stalled_at t)) [301, 601, 901] new_watchdog);
       s' = s\<lparr>wd_waiting := 0, wd_raised := wd_raised s + 1\<rparr>
   in \<not> wd_issue s' \<and> (\<forall>t > 300. watchdog_tick (stalled_at t) s' = s')"
  by (simp add: watchdog_tick_def stalled_at_def new_watchdog_def push_appears_stalled_def PUSH_STALL_TTL_SECONDS_def
      STALL_REARM_REPAIR_THRESHOLD_def Let_def)

section \<open>Building a device\<close>

text \<open>
  What a setup works with: the cloud and the two readers that are parameters, the discovered registry, the overlay,
  and what an override class declares (whether it augments the derived descriptors, and its own).
\<close>

record 't install =
  in_env :: env
  in_float :: "string \<Rightarrow> json option"
  in_iso :: "string \<Rightarrow> (nat \<times> nat) option"
  in_token :: string
  in_registry :: registry
  in_overlay :: "'t overlay"
  in_classes :: "device_class \<Rightarrow> bool \<times> descriptor list"

definition model_of :: "'t install \<Rightarrow> string \<Rightarrow> model_data" where
  "model_of inst m = \<lparr>m_endpoints = endpoints_for_model m (in_registry inst), m_traits = all_traits_for_model m (in_registry inst),
     m_settings = settings_for_model m (in_registry inst)\<rparr>"

definition derived_descriptors :: "'t install \<Rightarrow> string \<Rightarrow> descriptor list" where
  "derived_descriptors inst m =
     build_descriptors (model_of inst m) (map (\<lambda>(k, s). (k, Some s)) (traits_for_model m (in_overlay inst)))"

text \<open>Overlay and catalog, the catalog on top.\<close>

definition merged_traits :: "'t install \<Rightarrow> string \<Rightarrow> traits" where
  "merged_traits inst m = fold (\<lambda>(k, s). dset k s) (all_traits_for_model m (in_registry inst)) (traits_for_model m (in_overlay inst))"

definition known_wire_paths :: "'t install \<Rightarrow> string \<Rightarrow> string set" where
  "known_wire_paths inst m = set (subscribe_paths (merged_traits inst m)) \<union> dropped_paths_for_model m (in_registry inst)"

text \<open>The class gives the descriptors; the two stock classes, for cameras and others, declare none of their own.\<close>

definition make_device :: "'t install \<Rightarrow> string \<Rightarrow> string \<Rightarrow> descriptor list \<Rightarrow> string device" where
  "make_device inst m did ds =
     (let own = (case get_device_class m (in_registry inst) of None \<Rightarrow> (False, []) | Some c \<Rightarrow> in_classes inst c)
      in (new_device m did (fst own) (snd own) ds)\<lparr>dv_known := known_wire_paths inst m\<rparr>)"

record built =
  bt_sub :: string
  bt_device :: "string device"
  bt_traits :: traits
  bt_handler :: handler

text \<open>
  The state of a setup: the cloud, the coordinator and whether its task runs, whether authentication has failed, the devices of
  the subentries, the tunnel host's own, the PTZ features and the controllers of composites.
\<close>

record entry_state =
  su_cloud :: cloud_state
  su_coord :: coord
  su_running :: bool
  su_failed :: bool
  su_devices :: "built list"
  su_self :: "built option"
  su_next :: handler
  su_ptz :: "(string, string set) dict"
  su_composites :: controllers

text \<open>One cloud call of the setup, its effect on the cloud and on its subject.\<close>

definition setup_call :: "(cloud_state \<Rightarrow> 'a \<Rightarrow> cloud_error option \<times> cloud_state \<times> 'a) \<Rightarrow> entry_state \<Rightarrow> 'a \<Rightarrow> cloud_error option \<times> entry_state \<times> 'a" where
  "setup_call f st x =
     (case run_cloud_call f (su_failed st) (su_cloud st) x of (r, failed, w, y) \<Rightarrow> (r, st\<lparr>su_cloud := w, su_failed := failed\<rparr>, y))"

definition enrich_call :: "'t install \<Rightarrow> string \<Rightarrow> string \<Rightarrow> cloud_state \<Rightarrow> descriptor list \<Rightarrow> cloud_error option \<times> cloud_state \<times> descriptor list" where
  "enrich_call inst m did w ds =
     (case enrich_lights (in_env inst) (in_float inst) (in_token inst) m did ds (w_client w) of (r, ds', c) \<Rightarrow> (r, w\<lparr>w_client := c\<rparr>, ds'))"

definition subscribe_call :: "'t install \<Rightarrow> string \<Rightarrow> string \<Rightarrow> cloud_state \<Rightarrow> string device \<Rightarrow> cloud_error option \<times> cloud_state \<times> string device" where
  "subscribe_call inst m did = subscribe_and_seed_traits (in_env inst) (in_token inst) (merged_traits inst m) did"

definition settings_call :: "'t install \<Rightarrow> string \<Rightarrow> cloud_state \<Rightarrow> string device \<Rightarrow> cloud_error option \<times> cloud_state \<times> string device" where
  "settings_call inst m = seed_settings_from_cloud (in_env inst) (in_token inst) (settings_for_model m (in_registry inst))"

definition register_device_handler :: "string \<Rightarrow> entry_state \<Rightarrow> entry_state" where
  "register_device_handler did st =
     st\<lparr>su_coord := register_handler did (su_next st) (su_coord st), su_next := su_next st + 1\<rparr>"

text \<open>\<open>_build_device\<close>: the device or the error that propagates. The handler is registered before the cloud is asked for values.\<close>

definition build_device :: "'t install \<Rightarrow> string \<Rightarrow> string \<Rightarrow> string \<Rightarrow> entry_state \<Rightarrow> (cloud_error + built) \<times> entry_state" where
  "build_device inst sub m did st =
     (case setup_call (enrich_call inst m did) st (derived_descriptors inst m) of
        (Some e, st, ds) \<Rightarrow> (Inl e, st)
      | (None, st, ds) \<Rightarrow>
          (let h = su_next st; st = register_device_handler did st
           in case setup_call (subscribe_call inst m did) st (make_device inst m did ds) of
                (Some e, st, dv) \<Rightarrow> (Inl e, st)
              | (None, st, dv) \<Rightarrow>
                  (case setup_call (settings_call inst m) st dv of
                     (Some e, st, dv) \<Rightarrow> (Inl e, st)
                   | (None, st, dv) \<Rightarrow> (Inr \<lparr>bt_sub = sub, bt_device = dv, bt_traits = merged_traits inst m, bt_handler = h\<rparr>, st))))"

section \<open>Setting up\<close>

text \<open>A subentry with its model and DID, None when its data lacks one of them; such a subentry is skipped.\<close>

type_synonym subentry = "string \<times> (string \<times> string) option"

fun build_subentries :: "'t install \<Rightarrow> subentry list \<Rightarrow> entry_state \<Rightarrow> cloud_error option \<times> entry_state" where
  "build_subentries inst [] st = (None, st)"
| "build_subentries inst ((sub, None) # ss) st = build_subentries inst ss st"
| "build_subentries inst ((sub, Some (m, did)) # ss) st =
     (case build_device inst sub m did st of
        (Inl e, st) \<Rightarrow> (Some e, st)
      | (Inr b, st) \<Rightarrow> build_subentries inst ss (st\<lparr>su_devices := su_devices st @ [b]\<rparr>))"

text \<open>The tunnel host's own device: whatever fails there is logged.\<close>

definition build_self :: "'t install \<Rightarrow> string \<Rightarrow> string \<Rightarrow> entry_state \<Rightarrow> entry_state" where
  "build_self inst m did st =
     (case build_device inst (''self_'' @ did) m did st of (Inl e, st) \<Rightarrow> st | (Inr b, st) \<Rightarrow> st\<lparr>su_self := Some b\<rparr>)"

definition all_built :: "entry_state \<Rightarrow> built list" where
  "all_built st = su_devices st @ (case su_self st of None \<Rightarrow> [] | Some b \<Rightarrow> [b])"

definition build_ptz :: "'t install \<Rightarrow> built \<Rightarrow> (string, string set) dict \<Rightarrow> (string, string set) dict" where
  "build_ptz inst b d =
     (let fs = ptz_features_for_model (dv_model (bt_device b)) (in_registry inst)
      in if fs = {} then d else dset (dv_did (bt_device b)) fs d)"

definition build_controllers :: "'t install \<Rightarrow> entry_state \<Rightarrow> entry_state" where
  "build_controllers inst st = st\<lparr>su_ptz := fold (build_ptz inst) (all_built st) (su_ptz st),
     su_composites := fold (\<lambda>b. build_composite_controllers (in_iso inst)
       (composites_for_model (dv_model (bt_device b)) (in_registry inst)) (dv_did (bt_device b))) (all_built st) (su_composites st)\<rparr>"

definition composites_call :: "'t install \<Rightarrow> built \<Rightarrow> cloud_state \<Rightarrow> controllers \<Rightarrow> cloud_error option \<times> cloud_state \<times> controllers" where
  "composites_call inst b = seed_composites_from_cloud (in_env inst) (in_token inst)
     (composites_for_model (dv_model (bt_device b)) (in_registry inst)) (dv_did (bt_device b))"

fun seed_composites :: "'t install \<Rightarrow> built list \<Rightarrow> entry_state \<Rightarrow> cloud_error option \<times> entry_state" where
  "seed_composites inst [] st = (None, st)"
| "seed_composites inst (b # bs) st =
     (case setup_call (composites_call inst b) st (su_composites st) of
        (Some e, st, cs) \<Rightarrow> (Some e, st\<lparr>su_composites := cs\<rparr>)
      | (None, st, cs) \<Rightarrow> seed_composites inst bs (st\<lparr>su_composites := cs\<rparr>))"

text \<open>
  The entry: the host, its subentries, and what the platform gives: whether the hub answered in time, and whether
  forwarding to the platforms and registering the services works.
\<close>

record entry =
  en_did :: string
  en_model :: string
  en_region :: string
  en_phone :: string
  en_subentries :: "subentry list"
  en_answers :: bool
  en_forwards :: bool

datatype setup_end = Ready | Not_Ready | Raised "cloud_error option"

definition stop_coord :: "entry_state \<Rightarrow> entry_state" where
  "stop_coord st = st\<lparr>su_running := False\<rparr>"

text \<open>The part after the hub has answered; None: it went through.\<close>

definition setup_steps :: "'t install \<Rightarrow> entry \<Rightarrow> entry_state \<Rightarrow> cloud_error option option \<times> entry_state" where
  "setup_steps inst en st =
     (case new_client (en_region en) (en_phone en) of
        Inl e \<Rightarrow> (Some (Some e), st)
      | Inr c \<Rightarrow>
          (case build_subentries inst (en_subentries en) (st\<lparr>su_cloud := \<lparr>w_client = c, w_armed = [], w_reauths = 0\<rparr>\<rparr>) of
             (Some e, st) \<Rightarrow> (Some (Some e), st)
           | (None, st) \<Rightarrow>
               (let st = build_controllers inst (build_self inst (en_model en) (en_did en) st)
                in case seed_composites inst (all_built st) st of
                     (Some e, st) \<Rightarrow> (Some (Some e), st)
                   | (None, st) \<Rightarrow> (if en_forwards en then None else Some None, st))))"

definition setup_entry :: "'t install \<Rightarrow> entry \<Rightarrow> entry_state \<Rightarrow> setup_end \<times> entry_state" where
  "setup_entry inst en st =
     (let st = st\<lparr>su_running := True\<rparr>
      in if \<not> en_answers en then (Not_Ready, stop_coord st)
         else case setup_steps inst en st of
                (None, st) \<Rightarrow> (Ready, st)
              | (Some e, st) \<Rightarrow> (Raised e, stop_coord st))"

text \<open>The state before: a coordinator that was only constructed.\<close>

definition idle_setup :: "string \<Rightarrow> client \<Rightarrow> entry_state" where
  "idle_setup did c = \<lparr>su_cloud = \<lparr>w_client = c, w_armed = [], w_reauths = 0\<rparr>, su_coord = new_coord did 0, su_running = False,
     su_failed = False, su_devices = [], su_self = None, su_next = 0, su_ptz = [], su_composites = []\<rparr>"

section \<open>Unloading\<close>

definition release_device :: "built \<Rightarrow> entry_state \<Rightarrow> entry_state" where
  "release_device b st = st\<lparr>su_coord := unregister_handler (dv_did (bt_device b)) (bt_handler b) (su_coord st)\<rparr>"

text \<open>\<open>async_unload_entry\<close>; \<open>platforms\<close>: the platforms let go.\<close>

definition unload_entry :: "bool \<Rightarrow> entry_state \<Rightarrow> bool \<times> entry_state" where
  "unload_entry platforms st =
     (if \<not> platforms then (False, st)
      else (True, stop_coord (fold release_device (all_built st) (st\<lparr>su_ptz := []\<rparr>))))"

section \<open>Removing a device\<close>

text \<open>
  The subentries a device entry names (None: the entry itself): whether the removal is allowed, the subentries left, and whether
  the entry is reloaded.
\<close>

definition remove_device :: "string option list \<Rightarrow> string list \<Rightarrow> bool \<times> string list \<times> bool" where
  "remove_device named present =
     (let gone = List.map_filter (\<lambda>s. case s of None \<Rightarrow> None | Some i \<Rightarrow> if i \<in> set present then Some i else None) named
      in if gone \<noteq> [] then (True, filter (\<lambda>i. i \<notin> set gone) present, True)
         else (None \<notin> set named, present, False))"

section \<open>Options and persisted data\<close>

definition same_dict :: "('k, 'v) dict \<Rightarrow> ('k, 'v) dict \<Rightarrow> bool" where
  "same_dict a b = list_all (\<lambda>k. dget a k = dget b k) (dkeys a @ dkeys b)"

text \<open>The update listener: whether the entry reloads, and the options remembered.\<close>

definition options_updated :: "obj \<Rightarrow> obj \<Rightarrow> bool \<times> obj" where
  "options_updated options known = (if same_dict options known then (False, known) else (True, options))"

definition persist_endpoint :: "string \<Rightarrow> int \<Rightarrow> obj \<Rightarrow> obj" where
  "persist_endpoint host port data =
     (if dget data ''hub_ip'' = Some (JStr host) \<and> dget data ''hub_port'' = Some (JInt port) then data
      else dset ''hub_port'' (JInt port) (dset ''hub_ip'' (JStr host) data))"

text \<open>\<open>uuid5\<close> of the installation id, in capitals.\<close>

definition PHONE_ID_NAMESPACE :: string where "PHONE_ID_NAMESPACE = ''a3f5c9d2-7b1e-4a6c-8f0d-2e9b4c6a1d3f''"

definition ensure_phone_id :: "(string \<Rightarrow> string \<Rightarrow> string) \<Rightarrow> (string \<Rightarrow> string) \<Rightarrow> string \<Rightarrow> obj \<Rightarrow> string \<times> obj" where
  "ensure_phone_id uuid5 upper install data =
     (let pid = upper (uuid5 PHONE_ID_NAMESPACE install)
      in (pid, if dget data ''phone_id'' = Some (JStr pid) then data else dset ''phone_id'' (JStr pid) data))"

section \<open>Candidate paths\<close>

text \<open>The label of a device: the name in the device registry, if it has one.\<close>

definition resolve_device_label :: "(string \<Rightarrow> (string option \<times> string option) option) \<Rightarrow> string \<Rightarrow> string" where
  "resolve_device_label reg did =
     (case reg did of
        None \<Rightarrow> did
      | Some (by_user, n) \<Rightarrow>
          (case by_user of Some s \<Rightarrow> if s \<noteq> [] then s else (case n of Some t \<Rightarrow> or_text t did | None \<Rightarrow> did)
           | None \<Rightarrow> (case n of Some t \<Rightarrow> or_text t did | None \<Rightarrow> did)))"

definition candidate_section :: "(string \<Rightarrow> (string option \<times> string option) option) \<Rightarrow> new_paths \<Rightarrow> string" where
  "candidate_section reg np =
     ''**'' @ resolve_device_label reg (np_did np) @ ''** (`'' @ np_did np @ ''` -- `'' @ np_model np @ ''`)'' @ [CHR 0x0A] @
     join_with (CHR 0x0A) (map (\<lambda>p. ''- `'' @ p @ ''`'') (sorted_list_of_set (np_paths np)))"

definition format_candidates :: "(string \<Rightarrow> (string option \<times> string option) option) \<Rightarrow> new_paths list \<Rightarrow> string" where
  "format_candidates reg nps =
     join_str [CHR 0x0A, CHR 0x0A] (map (candidate_section reg) (filter (\<lambda>np. np_paths np \<noteq> {}) nps))"

text \<open>The Repair of the entry: the count and the details, None when there is nothing new.\<close>

definition candidate_paths_issue :: "(string \<Rightarrow> (string option \<times> string option) option) \<Rightarrow> observed \<Rightarrow> (string \<times> string) option" where
  "candidate_paths_issue reg oc =
     (if new_paths_by_device oc = [] then None
      else Some (nat_text (new_paths_count oc), format_candidates reg (new_paths_by_device oc)))"

section \<open>Values leave a device's identity alone\<close>

lemma seed_items_unseeded: "unseeded (snd (seed_items vs dv)) = unseeded dv"
proof (induction vs arbitrary: dv)
  case (Cons v vs)
  then show ?case by (cases "seed_item v dv") (auto dest: seed_item_staged)
qed simp

lemma seed_batches_unseeded: "seed_batches E tok did bs c dv = (r, c', dv') \<Longrightarrow> unseeded dv' = unseeded dv"
proof (induction bs arbitrary: c dv)
  case (Cons b bs)
  obtain x c1 where q: "query_device_traits E tok did b c = (x, c1)" by fastforce
  show ?case
  proof (cases x)
    case (Inl e)
    then show ?thesis using Cons q by (auto split: if_splits)
  next
    case (Inr vs)
    obtain e dv1 where i: "seed_items vs dv = (e, dv1)" by fastforce
    have u: "unseeded dv1 = unseeded dv" using seed_items_unseeded [of vs dv] i by simp
    show ?thesis using Cons q Inr i u by (cases e) auto
  qed
qed simp

lemma subscribe_unseeded: "subscribe_and_seed_traits E tok ts did w dv = (r, w', dv') \<Longrightarrow> unseeded dv' = unseeded dv"
  by (auto simp: subscribe_and_seed_traits_def dest: seed_batches_unseeded split: if_splits prod.splits option.splits)

lemma seed_values_unseeded: "unseeded (snd (seed_values seed_initial_value rids kvs dv)) = unseeded dv"
  by (induction kvs arbitrary: dv) (auto simp: unseeded_seed split: json.split sum.split)

lemma settings_unseeded: "seed_settings_from_cloud E tok sts w dv = (r, w', dv') \<Longrightarrow> unseeded dv' = unseeded dv"
  by (auto simp: seed_settings_from_cloud_def seed_rids_def split: if_splits prod.splits sum.splits)
     (metis seed_values_unseeded snd_conv)

text \<open>No cloud pass starts the re-authentication by itself.\<close>

definition quiet :: "(cloud_state \<Rightarrow> 'a \<Rightarrow> cloud_error option \<times> cloud_state \<times> 'a) \<Rightarrow> bool" where
  "quiet f = (\<forall>w x. w_reauths (fst (snd (f w x))) = w_reauths w)"

lemma seed_rids_quiet: "quiet (seed_rids E tok did rids stage)"
  by (auto simp: quiet_def seed_rids_def split: prod.split sum.split)

lemma quiet_calls:
  "quiet (enrich_call inst m did)" "quiet (subscribe_call inst m did)" "quiet (settings_call inst m)" "quiet (composites_call inst b)"
proof -
  show "quiet (enrich_call inst m did)" by (auto simp: quiet_def enrich_call_def split: prod.split)
  show "quiet (subscribe_call inst m did)"
    by (auto simp: quiet_def subscribe_call_def subscribe_and_seed_traits_def split: prod.split option.split)
  have "settings_call inst m w dv = seed_rids (in_env inst) (in_token inst) (dv_did dv) (stateful_rids (settings_for_model m (in_registry inst))) seed_initial_value w dv" for w dv
    by (simp add: settings_call_def seed_settings_from_cloud_def)
  then show "quiet (settings_call inst m)" using seed_rids_quiet unfolding quiet_def by metis
  show "quiet (composites_call inst b)"
    by (auto simp: quiet_def composites_call_def seed_composites_from_cloud_def seed_rids_quiet [unfolded quiet_def, rule_format])
qed

text \<open>What the re-authentications count: one, from the moment that authentication has failed.\<close>

definition reauth_ok :: "entry_state \<Rightarrow> bool" where
  "reauth_ok st = (w_reauths (su_cloud st) = (if su_failed st then 1 else 0))"

text \<open>The rest of the state: what no cloud call touches.\<close>

definition frame_of where
  "frame_of st = (su_coord st, su_running st, su_devices st, su_self st, su_next st, su_ptz st, su_composites st)"

lemma setup_call_props:
  assumes "setup_call f st x = (r, st', y)" "quiet f"
  shows "reauth_ok st \<Longrightarrow> reauth_ok st'" "frame_of st' = frame_of st"
    "y = x \<or> (\<exists>w. y = snd (snd (f w x)))"
proof -
  obtain e w z where f: "f (su_cloud st) x = (e, w, z)" by (metis prod_cases3)
  have q: "w_reauths w = w_reauths (su_cloud st)" using assms(2) f unfolding quiet_def by (metis fst_conv snd_conv)
  obtain w1 b1 where "st' = st\<lparr>su_cloud := w1, su_failed := b1\<rparr>" using assms(1) by (auto simp: setup_call_def split: prod.splits)
  then show "frame_of st' = frame_of st" by (simp add: frame_of_def)
  show "reauth_ok st \<Longrightarrow> reauth_ok st'"
    using assms(1) f q by (auto simp: setup_call_def run_cloud_call_def reauth_ok_def split: if_splits option.splits)
  show "y = x \<or> (\<exists>w. y = snd (snd (f w x)))"
    using assms(1) f by (auto simp: setup_call_def run_cloud_call_def split: if_splits option.splits) (metis snd_conv)+
qed

text \<open>A device as it was made, up to the values staged for it and the effects of its lights, which the cloud gave.\<close>

fun without_effects :: "descriptor \<Rightarrow> descriptor" where
  "without_effects (LightDescriptor l) = LightDescriptor (l\<lparr>li_effects := []\<rparr>)"
| "without_effects d = d"

lemma enrich_same: "enrich_lights E tf tok m did ds c = (r, ds', c') \<Longrightarrow> map without_effects ds' = map without_effects ds"
  by (induction E tf tok m did ds c arbitrary: r ds' c' rule: enrich_lights.induct)
    (auto split: prod.splits sum.splits if_splits)

lemma effective_same: "map without_effects ds = map without_effects es \<Longrightarrow>
    map without_effects (dv_descriptors (make_device inst m did ds)) = map without_effects (dv_descriptors (make_device inst m did es))"
  by (simp add: make_device_def new_device_def effective_descriptors_def Let_def)

definition made_as :: "'t install \<Rightarrow> string \<Rightarrow> string \<Rightarrow> string \<Rightarrow> handler \<Rightarrow> built \<Rightarrow> bool" where
  "made_as inst sub m did h b =
     (bt_sub b = sub \<and> bt_handler b = h \<and> bt_traits b = merged_traits inst m \<and> dv_model (bt_device b) = m \<and>
      dv_did (bt_device b) = did \<and> dv_known (bt_device b) = known_wire_paths inst m \<and>
      map without_effects (dv_descriptors (bt_device b)) =
        map without_effects (dv_descriptors (make_device inst m did (derived_descriptors inst m))))"

lemma made_unseeded:
  assumes "unseeded dv = unseeded (make_device inst m did ds)" "map without_effects ds = map without_effects (derived_descriptors inst m)"
  shows "made_as inst sub m did h \<lparr>bt_sub = sub, bt_device = dv, bt_traits = merged_traits inst m, bt_handler = h\<rparr>"
proof -
  have "dv_model dv = dv_model (make_device inst m did ds)" "dv_did dv = dv_did (make_device inst m did ds)"
    "dv_known dv = dv_known (make_device inst m did ds)" "dv_descriptors dv = dv_descriptors (make_device inst m did ds)"
    using assms(1) by (cases dv; cases "make_device inst m did ds"; simp add: unseeded_def)+
  then show ?thesis using effective_same [OF assms(2), of inst m did]
    by (simp add: made_as_def) (simp add: make_device_def new_device_def Let_def)
qed

lemma build_device_props:
  assumes "build_device inst sub m did st = (r, st')"
  shows "reauth_ok st \<Longrightarrow> reauth_ok st'"
    "(frame_of st' = frame_of st \<and> (\<exists>e. r = Inl e)) \<or>
     (frame_of st' = frame_of (register_device_handler did st) \<and> (\<forall>b. r = Inr b \<longrightarrow> made_as inst sub m did (su_next st) b))"
proof -
  obtain e1 st1 ds where c1: "setup_call (enrich_call inst m did) st (derived_descriptors inst m) = (e1, st1, ds)" by (metis prod_cases3)
  let ?st1 = "register_device_handler did st1"
  obtain e2 st2 dv2 where c2: "setup_call (subscribe_call inst m did) ?st1 (make_device inst m did ds) = (e2, st2, dv2)" by (metis prod_cases3)
  obtain e3 st3 dv3 where c3: "setup_call (settings_call inst m) st2 dv2 = (e3, st3, dv3)" by (metis prod_cases3)
  note p1 = setup_call_props [OF c1 quiet_calls(1)] and p2 = setup_call_props [OF c2 quiet_calls(2)] and p3 = setup_call_props [OF c3 quiet_calls(3)]
  have same: "map without_effects ds = map without_effects (derived_descriptors inst m)"
  proof -
    have e: "map without_effects (snd (snd (enrich_call inst m did w ds))) = map without_effects ds" for w ds
      using enrich_same by (fastforce simp: enrich_call_def split: prod.split)
    have "ds \<in> {derived_descriptors inst m, snd (snd (enrich_call inst m did (su_cloud st) (derived_descriptors inst m)))}"
      using c1 by (auto simp: setup_call_def run_cloud_call_def split: if_splits prod.splits option.splits)
    then show ?thesis using e by auto
  qed
  have r1: "reauth_ok st1 \<Longrightarrow> reauth_ok ?st1" by (simp add: reauth_ok_def register_device_handler_def)
  have f1: "frame_of ?st1 = frame_of (register_device_handler did st)" "su_next st1 = su_next st"
    using p1(2) by (simp_all add: frame_of_def register_device_handler_def)
  have u2: "unseeded dv2 = unseeded (make_device inst m did ds)"
    using p2(3) subscribe_unseeded unfolding subscribe_call_def by (metis prod.collapse)
  have u3: "unseeded dv3 = unseeded dv2"
    using p3(3) settings_unseeded unfolding settings_call_def by (metis prod.collapse)
  have m: "made_as inst sub m did (su_next st) \<lparr>bt_sub = sub, bt_device = dv3, bt_traits = merged_traits inst m, bt_handler = su_next st1\<rparr>"
    using made_unseeded [of dv3 inst m did ds sub "su_next st1"] u2 u3 f1(2) same by simp
  consider (a) x where "e1 = Some x" "r = Inl x" "st' = st1" | (b) x where "e1 = None" "e2 = Some x" "r = Inl x" "st' = st2"
    | (c) x where "e1 = None" "e2 = None" "e3 = Some x" "r = Inl x" "st' = st3"
    | (d) "e1 = None" "e2 = None" "e3 = None" "st' = st3"
      "r = Inr \<lparr>bt_sub = sub, bt_device = dv3, bt_traits = merged_traits inst m, bt_handler = su_next st1\<rparr>"
    using assms c1 c2 c3 by (cases e1; cases e2; cases e3; simp add: build_device_def Let_def)
  note cs = this
  show "reauth_ok st \<Longrightarrow> reauth_ok st'" using cs by cases (simp_all add: p1(1) p2(1) p3(1) r1)
  show "(frame_of st' = frame_of st \<and> (\<exists>e. r = Inl e)) \<or>
     (frame_of st' = frame_of (register_device_handler did st) \<and> (\<forall>b. r = Inr b \<longrightarrow> made_as inst sub m did (su_next st) b))"
    using cs by cases (simp_all add: p1(2) p2(2) p3(2) f1 m [unfolded f1(2)])
qed

section \<open>The handlers of a setup\<close>

text \<open>The registrations, in order, and the tables they make.\<close>

definition handlers_are :: "(string \<times> handler) list \<Rightarrow> coord \<Rightarrow> bool" where
  "handlers_are regs c =
     (\<forall>k. dget (handlers c) k = (let hs = map snd (filter (\<lambda>(d, h). JStr d = k) regs) in if hs = [] then None else Some hs))"

lemma handlers_register: "handlers_are regs c \<Longrightarrow> handlers_are (regs @ [(d, h)]) (register_handler d h c)"
  by (auto simp: handlers_are_def register_handler_def Let_def split: option.split)

lemma filter_remove1: "filter P (remove1 x xs) = (if P x then remove1 x (filter P xs) else filter P xs)"
  by (induction xs) auto

lemma map_snd_remove1:
  "\<forall>(d', h') \<in> set xs. h' = h \<longrightarrow> d' = d \<Longrightarrow> map snd (remove1 (d, h) xs) = remove1 h (map snd xs)"
  by (induction xs) auto

lemma handlers_unregister:
  assumes "handlers_are regs c" "distinct (map snd regs)" "(d, h) \<in> set regs"
  shows "handlers_are (remove1 (d, h) regs) (unregister_handler d h c)"
proof -
  let ?hs = "map snd (filter (\<lambda>(d', h'). JStr d' = JStr d) regs)"
  have own: "d' = d" if "(d', h) \<in> set regs" for d'
    using inj_onD [of snd "set regs" "(d', h)" "(d, h)"] assms(2,3) that by (simp add: distinct_map)
  have h: "h \<in> set ?hs" using assms(3) by force
  then have "?hs \<noteq> []" by (metis empty_iff list.set(1))
  then have g: "dget (handlers c) (JStr d) = Some ?hs" using assms(1) unfolding handlers_are_def Let_def by (simp only: if_False)
  have r: "map snd (filter (\<lambda>(d', h'). JStr d' = k) (remove1 (d, h) regs)) =
      (if k = JStr d then remove1 h ?hs else map snd (filter (\<lambda>(d', h'). JStr d' = k) regs))" for k
    using own by (auto simp: filter_remove1 intro!: map_snd_remove1)
  show ?thesis unfolding handlers_are_def Let_def
  proof
    fix k
    let ?ks = "map snd (filter (\<lambda>(d', h'). JStr d' = k) regs)"
    have k: "dget (handlers c) k = (if ?ks = [] then None else Some ?ks)"
      using assms(1) unfolding handlers_are_def Let_def by blast
    have u: "dget (handlers (unregister_handler d h c)) k =
      (if k = JStr d then (if remove1 h ?hs = [] then None else Some (remove1 h ?hs)) else dget (handlers c) k)"
      unfolding unregister_handler_def g option.case Let_def using h by simp
    show "dget (handlers (unregister_handler d h c)) k =
      (if map snd (filter (\<lambda>(d', h'). JStr d' = k) (remove1 (d, h) regs)) = [] then None
       else Some (map snd (filter (\<lambda>(d', h'). JStr d' = k) (remove1 (d, h) regs))))"
      unfolding r u by (cases "k = JStr d") (simp_all only: if_True if_False refl k)
  qed
qed

definition regs_of :: "built list \<Rightarrow> (string \<times> handler) list" where
  "regs_of bs = map (\<lambda>b. (dv_did (bt_device b), bt_handler b)) bs"

text \<open>The devices built so far hold the registrations, apart from those in \<open>extra\<close>.\<close>

definition registered :: "built list \<Rightarrow> (string \<times> handler) list \<Rightarrow> entry_state \<Rightarrow> bool" where
  "registered bs extra st =
     (handlers_are (regs_of bs @ extra) (su_coord st) \<and> distinct (map snd (regs_of bs @ extra)) \<and>
      (\<forall>h \<in> snd ` set (regs_of bs @ extra). h < su_next st))"

lemma registered_next:
  "registered bs [] st \<Longrightarrow> frame_of st' = frame_of (register_device_handler did st) \<Longrightarrow> registered bs [(did, su_next st)] st'"
  by (auto simp: registered_def frame_of_def register_device_handler_def intro: handlers_register)

lemma registered_built:
  "registered bs [(did, h)] st \<Longrightarrow> dv_did (bt_device b) = did \<Longrightarrow> bt_handler b = h \<Longrightarrow> registered (bs @ [b]) [] st"
  by (simp add: registered_def regs_of_def)

lemma registered_upd [simp]:
  "registered bs extra (st\<lparr>su_devices := x\<rparr>) = registered bs extra st" "registered bs extra (st\<lparr>su_self := y\<rparr>) = registered bs extra st"
  "registered bs extra (st\<lparr>su_ptz := z\<rparr>) = registered bs extra st" "registered bs extra (st\<lparr>su_composites := u\<rparr>) = registered bs extra st"
  "registered bs extra (st\<lparr>su_cloud := v\<rparr>) = registered bs extra st" "registered bs extra (st\<lparr>su_running := w\<rparr>) = registered bs extra st"
  by (simp_all add: registered_def)

definition usable :: "subentry list \<Rightarrow> (string \<times> string \<times> string) list" where
  "usable ss = List.map_filter (\<lambda>(sub, d). map_option (\<lambda>md. (sub, md)) d) ss"

definition built_as :: "'t install \<Rightarrow> string \<times> string \<times> string \<Rightarrow> built \<Rightarrow> bool" where
  "built_as inst s b = made_as inst (fst s) (fst (snd s)) (snd (snd s)) (bt_handler b) b"

lemma build_subentries_reauth: "build_subentries inst ss st = (r, st') \<Longrightarrow> reauth_ok st \<Longrightarrow> reauth_ok st'"
proof (induction ss arbitrary: st)
  case (Cons x ss)
  obtain sub d where x: "x = (sub, d)" by fastforce
  show ?case
  proof (cases d)
    case None
    then show ?thesis using Cons x by auto
  next
    case (Some md)
    obtain m did where md: "md = (m, did)" by fastforce
    obtain y st1 where b: "build_device inst sub m did st = (y, st1)" by fastforce
    have ok: "reauth_ok (st1\<lparr>su_devices := z\<rparr>)" "reauth_ok st1" for z
      using build_device_props(1) [OF b Cons.prems(2)] by (simp_all add: reauth_ok_def)
    show ?thesis using Cons.IH [OF _ ok(1)] Cons.prems(1) x Some md b ok(2) by (cases y) auto
  qed
qed simp

lemma build_subentries_props:
  "build_subentries inst ss st = (None, st') \<Longrightarrow> registered (su_devices st) [] st \<Longrightarrow>
   registered (su_devices st') [] st' \<and> (\<exists>bs. su_devices st' = su_devices st @ bs \<and> list_all2 (built_as inst) (usable ss) bs) \<and>
   su_running st' = su_running st \<and> su_self st' = su_self st \<and> su_ptz st' = su_ptz st \<and> su_composites st' = su_composites st"
proof (induction ss arbitrary: st)
  case Nil
  then show ?case by (auto simp: usable_def map_filter_simps intro!: exI [of _ "[]"])
next
  case (Cons x ss)
  obtain sub d where x: "x = (sub, d)" by fastforce
  show ?case
  proof (cases d)
    case None
    then show ?thesis using Cons x by (simp add: usable_def map_filter_simps)
  next
    case (Some md)
    obtain m did where md: "md = (m, did)" by fastforce
    obtain y st1 where b: "build_device inst sub m did st = (y, st1)" by fastforce
    then obtain bt where y: "y = Inr bt" and n: "build_subentries inst ss (st1\<lparr>su_devices := su_devices st1 @ [bt]\<rparr>) = (None, st')"
      using Cons.prems(1) x Some md by (cases y) auto
    have p: "frame_of st1 = frame_of (register_device_handler did st)" "made_as inst sub m did (su_next st) bt"
      using build_device_props(2) [OF b] y by auto
    have d1: "su_devices st1 = su_devices st" "su_running st1 = su_running st" "su_self st1 = su_self st" "su_ptz st1 = su_ptz st"
      "su_composites st1 = su_composites st" using p(1) by (simp_all add: frame_of_def register_device_handler_def)
    have "registered (su_devices st @ [bt]) [] st1"
      using registered_built [OF registered_next [OF Cons.prems(2) p(1)]] p(2) by (simp add: made_as_def)
    then have "registered (su_devices (st1\<lparr>su_devices := su_devices st1 @ [bt]\<rparr>)) [] (st1\<lparr>su_devices := su_devices st1 @ [bt]\<rparr>)"
      by (simp add: d1)
    note ih = Cons.IH [OF n this]
    then obtain bs where bs: "su_devices st' = su_devices st1 @ [bt] @ bs" "list_all2 (built_as inst) (usable ss) bs" by auto
    have "built_as inst (sub, m, did) bt" using p(2) by (auto simp: built_as_def made_as_def)
    then have "list_all2 (built_as inst) (usable (x # ss)) (bt # bs)" using bs(2) x Some md by (simp add: usable_def map_filter_simps)
    then show ?thesis using ih bs d1 by (auto intro!: exI [of _ "bt # bs"])
  qed
qed

lemma seed_composites_props:
  "seed_composites inst bs st = (r, st') \<Longrightarrow>
   (reauth_ok st \<longrightarrow> reauth_ok st') \<and> su_coord st' = su_coord st \<and> su_running st' = su_running st \<and> su_devices st' = su_devices st \<and>
   su_self st' = su_self st \<and> su_next st' = su_next st \<and> su_ptz st' = su_ptz st"
proof (induction bs arbitrary: st)
  case (Cons b bs)
  obtain e st1 cs where c: "setup_call (composites_call inst b) st (su_composites st) = (e, st1, cs)" by (metis prod_cases3)
  note p = setup_call_props(1,2) [OF c quiet_calls(4)]
  have q: "reauth_ok (st1\<lparr>su_composites := cs\<rparr>) = reauth_ok st1" by (simp add: reauth_ok_def)
  show ?case
  proof (cases e)
    case None
    then have "seed_composites inst bs (st1\<lparr>su_composites := cs\<rparr>) = (r, st')" using Cons.prems c by simp
    from Cons.IH [OF this] p q show ?thesis by (auto simp: frame_of_def)
  next
    case (Some x)
    then show ?thesis using Cons.prems c p q by (auto simp: frame_of_def)
  qed
qed auto

text \<open>The controllers of composites: one per device and declared resource, each with one of the codecs.\<close>

definition composites_known :: "'t install \<Rightarrow> controllers \<Rightarrow> bool" where
  "composites_known inst cs =
     (dict_ok cs \<and> (\<forall>((did, rid), (c, s)) \<in> set cs.
        c \<in> snd ` set (CODECS (in_iso inst)) \<and> (\<exists>m. rid \<in> set (dkeys (composites_for_model m (in_registry inst))))))"

lemma composites_known_dset:
  "composites_known inst cs \<Longrightarrow> c \<in> snd ` set (CODECS (in_iso inst)) \<Longrightarrow> rid \<in> set (dkeys (composites_for_model m (in_registry inst))) \<Longrightarrow>
   composites_known inst (dset (did, rid) (c, s) cs)"
  using set_dset [of "(did, rid)" "(c, s)" cs] unfolding composites_known_def by (auto simp: dict_ok_dset)

lemma composites_known_seed:
  assumes "composites_known inst cs"
  shows "composites_known inst (seed_controller did rid wire cs)"
proof (cases "dget cs (did, rid)")
  case (Some p)
  obtain c s where p: "p = (c, s)" by fastforce
  have "((did, rid), (c, s)) \<in> set cs" using Some p map_of_SomeD by fastforce
  then show ?thesis using assms composites_known_dset Some p by (fastforce simp: seed_controller_def composites_known_def)
qed (simp add: seed_controller_def assms)

lemma seed_values_keeps: "(\<And>rid w x. Q x \<Longrightarrow> Q (stage rid w x)) \<Longrightarrow> Q x \<Longrightarrow> Q (snd (seed_values stage rids kvs x))"
  by (induction stage rids kvs x rule: seed_values.induct) (simp_all split: json.split sum.split)

lemma composites_known_call: "composites_known inst cs \<Longrightarrow> composites_known inst (snd (snd (composites_call inst b w cs)))"
  using seed_values_keeps [of "composites_known inst" "seed_controller (dv_did (bt_device b))", OF composites_known_seed]
  by (auto simp: composites_call_def seed_composites_from_cloud_def seed_rids_def split: prod.splits sum.splits) (metis snd_conv)

lemma composites_known_seeds: "composites_known inst (su_composites st) \<Longrightarrow> composites_known inst (su_composites (snd (seed_composites inst bs st)))"
proof (induction bs arbitrary: st)
  case (Cons b bs)
  obtain e st1 cs where c: "setup_call (composites_call inst b) st (su_composites st) = (e, st1, cs)" by (metis prod_cases3)
  have "composites_known inst cs"
    using setup_call_props(3) [OF c quiet_calls(4)] composites_known_call Cons.prems by metis
  then show ?case using Cons.IH [of "st1\<lparr>su_composites := cs\<rparr>"] c by (cases e) simp_all
qed simp

lemma composites_known_build:
  assumes "composites_known inst cs"
  shows "composites_known inst (build_composite_controllers (in_iso inst) (composites_for_model m (in_registry inst)) did cs)"
proof -
  have "composites_known inst (fold (build_composite (in_iso inst) did) ds cs)"
    if "set ds \<subseteq> set (composites_for_model m (in_registry inst))" for ds
    using that assms
  proof (induction ds arbitrary: cs)
    case (Cons kd ds)
    have "composites_known inst (build_composite (in_iso inst) did kd cs)"
    proof (cases "codec_named (in_iso inst) (snd kd)")
      case (Some c)
      then obtain n where "dget (CODECS (in_iso inst)) n = Some c" by (auto simp: codec_named_def split: json.splits)
      then have "c \<in> snd ` set (CODECS (in_iso inst))" by (metis imageI map_of_SomeD snd_conv)
      moreover have "fst kd \<in> set (dkeys (composites_for_model m (in_registry inst)))" using Cons.prems(1) by (auto simp: dkeys_def)
      ultimately show ?thesis using Some Cons.prems(2) by (simp add: build_composite_def composites_known_dset)
    qed (simp add: build_composite_def Cons.prems)
    then show ?case using Cons by simp
  qed simp
  then show ?thesis by (simp add: build_composite_controllers_def)
qed

section \<open>What a setup leaves\<close>

lemma build_self_props:
  assumes "registered (su_devices st) [] st" "su_self st = None"
  shows "\<exists>extra. registered (all_built (build_self inst m did st)) extra (build_self inst m did st) \<and>
      (su_self (build_self inst m did st) \<noteq> None \<longrightarrow> extra = []) \<and> fst ` set extra \<subseteq> {did}"
    "su_devices (build_self inst m did st) = su_devices st" "su_running (build_self inst m did st) = su_running st"
    "su_ptz (build_self inst m did st) = su_ptz st" "su_composites (build_self inst m did st) = su_composites st"
    "reauth_ok st \<Longrightarrow> reauth_ok (build_self inst m did st)"
    "\<forall>b. su_self (build_self inst m did st) = Some b \<longrightarrow> built_as inst (''self_'' @ did, m, did) b"
proof -
  obtain y st1 where b: "build_device inst (''self_'' @ did) m did st = (y, st1)" by fastforce
  note p = build_device_props [OF b]
  have s: "build_self inst m did st = (case y of Inl e \<Rightarrow> st1 | Inr b \<Rightarrow> st1\<lparr>su_self := Some b\<rparr>)" using b by (simp add: build_self_def)
  have f: "su_devices st1 = su_devices st" "su_running st1 = su_running st" "su_ptz st1 = su_ptz st" "su_composites st1 = su_composites st"
    "su_self st1 = None" using p(2) assms(2) by (auto simp: frame_of_def register_device_handler_def)
  show "su_devices (build_self inst m did st) = su_devices st" "su_running (build_self inst m did st) = su_running st"
    "su_ptz (build_self inst m did st) = su_ptz st" "su_composites (build_self inst m did st) = su_composites st"
    using f by (simp_all add: s split: sum.split)
  show "reauth_ok st \<Longrightarrow> reauth_ok (build_self inst m did st)" using p(1) by (simp add: s reauth_ok_def split: sum.split)
  show "\<forall>b. su_self (build_self inst m did st) = Some b \<longrightarrow> built_as inst (''self_'' @ did, m, did) b"
    using p(2) f(5) by (auto simp: s built_as_def made_as_def split: sum.splits)
  show "\<exists>extra. registered (all_built (build_self inst m did st)) extra (build_self inst m did st) \<and>
      (su_self (build_self inst m did st) \<noteq> None \<longrightarrow> extra = []) \<and> fst ` set extra \<subseteq> {did}"
  proof (cases y)
    case (Inl e)
    then have q: "all_built (build_self inst m did st) = su_devices st" "su_self (build_self inst m did st) = None"
      "build_self inst m did st = st1" using f by (simp_all add: s all_built_def)
    from p(2) show ?thesis
    proof
      assume "frame_of st1 = frame_of st \<and> (\<exists>e. y = Inl e)"
      then have "registered (su_devices st) [] st1" using assms(1) by (simp add: registered_def frame_of_def)
      then show ?thesis using q by (intro exI [of _ "[]"]) simp
    next
      assume "frame_of st1 = frame_of (register_device_handler did st) \<and> (\<forall>b. y = Inr b \<longrightarrow> made_as inst (''self_'' @ did) m did (su_next st) b)"
      then have "registered (su_devices st) [(did, su_next st)] st1" using registered_next [OF assms(1)] by blast
      then show ?thesis using q by (intro exI [of _ "[(did, su_next st)]"]) simp
    qed
  next
    case (Inr bt)
    then have n: "frame_of st1 = frame_of (register_device_handler did st)" "made_as inst (''self_'' @ did) m did (su_next st) bt"
      using p(2) by auto
    then have "registered (su_devices st @ [bt]) [] st1"
      using registered_built [OF registered_next [OF assms(1) n(1)]] by (simp add: made_as_def)
    then show ?thesis using Inr f by (intro exI [of _ "[]"]) (simp add: s all_built_def)
  qed
qed

definition ready_state :: "'t install \<Rightarrow> entry \<Rightarrow> entry_state \<Rightarrow> bool" where
  "ready_state inst en st =
     (reauth_ok st \<and> su_running st \<and> list_all2 (built_as inst) (usable (en_subentries en)) (su_devices st) \<and>
      (\<forall>b. su_self st = Some b \<longrightarrow> built_as inst (''self_'' @ en_did en, en_model en, en_did en) b) \<and>
      su_ptz st = fold (build_ptz inst) (all_built st) [] \<and> composites_known inst (su_composites st) \<and>
      (\<exists>extra. registered (all_built st) extra st \<and> (su_self st \<noteq> None \<longrightarrow> extra = []) \<and> fst ` set extra \<subseteq> {en_did en}))"

lemma setup_steps_props:
  assumes "setup_steps inst en ((idle_setup own c0)\<lparr>su_running := True\<rparr>) = (r, st)"
  shows "reauth_ok st" "r = None \<Longrightarrow> ready_state inst en st"
proof -
  let ?st0 = "(idle_setup own c0)\<lparr>su_running := True\<rparr>"
  have ok0: "reauth_ok (?st0\<lparr>su_cloud := \<lparr>w_client = c, w_armed = [], w_reauths = 0\<rparr>\<rparr>)" "reauth_ok ?st0" for c
    by (simp_all add: reauth_ok_def idle_setup_def)
  have reg0: "registered (su_devices (?st0\<lparr>su_cloud := w\<rparr>)) [] (?st0\<lparr>su_cloud := w\<rparr>)" for w
    by (simp add: registered_def idle_setup_def regs_of_def handlers_are_def new_coord_def)
  show "reauth_ok st" and "r = None \<Longrightarrow> ready_state inst en st"
  proof -
    obtain x where n: "new_client (en_region en) (en_phone en) = x" by simp
    have "reauth_ok st \<and> (r = None \<longrightarrow> ready_state inst en st)"
    proof (cases x)
      case (Inl e)
      then show ?thesis using assms n ok0(2) by (auto simp: setup_steps_def)
    next
      case (Inr c)
      let ?st1 = "?st0\<lparr>su_cloud := \<lparr>w_client = c, w_armed = [], w_reauths = 0\<rparr>\<rparr>"
      obtain e2 st2 where b: "build_subentries inst (en_subentries en) ?st1 = (e2, st2)" by fastforce
      have ok2: "reauth_ok st2" by (rule build_subentries_reauth [OF b ok0(1)])
      show ?thesis
      proof (cases e2)
        case (Some e)
        then show ?thesis using assms n Inr b ok2 by (auto simp: setup_steps_def)
      next
        case None
        let ?st3 = "build_self inst (en_model en) (en_did en) st2"
        let ?st4 = "build_controllers inst ?st3"
        obtain e5 st5 where s: "seed_composites inst (all_built ?st4) ?st4 = (e5, st5)" by fastforce
        note p2 = build_subentries_props [OF b [unfolded None] reg0]
        have self2: "su_self st2 = None" "su_devices ?st1 = []" "su_running st2" "su_ptz st2 = []" using p2 by (simp_all add: idle_setup_def)
        have r2: "registered (su_devices st2) [] st2" using p2 by blast
        have bs: "list_all2 (built_as inst) (usable (en_subentries en)) (su_devices st2)" using p2 self2(2) by auto
        note p3 = build_self_props [OF r2 self2(1), of inst "en_model en" "en_did en"]
        have ok4: "reauth_ok ?st4" using p3(6) [OF ok2] by (simp add: reauth_ok_def build_controllers_def)
        have ab: "all_built ?st4 = all_built ?st3" by (simp add: all_built_def build_controllers_def)
        note p5 = seed_composites_props [OF s]
        have a5: "all_built st5 = all_built ?st3" "su_self st5 = su_self ?st3" "su_devices st5 = su_devices st2" "su_running st5"
          "su_ptz st5 = fold (build_ptz inst) (all_built ?st3) []"
          using p5 p3(2,3,4) self2 by (simp_all add: all_built_def build_controllers_def)
        obtain extra where x: "registered (all_built ?st3) extra ?st3" "su_self ?st3 \<noteq> None \<longrightarrow> extra = []" "fst ` set extra \<subseteq> {en_did en}"
          using p3(1) by blast
        have "registered (all_built st5) extra st5" using x(1) p5 a5(1) by (simp add: registered_def build_controllers_def)
        moreover have "composites_known inst (su_composites st5)"
        proof -
          have "su_composites ?st3 = []" using p2 p3(5) by (simp add: idle_setup_def)
          moreover have "composites_known inst (fold (\<lambda>b. build_composite_controllers (in_iso inst)
              (composites_for_model (dv_model (bt_device b)) (in_registry inst)) (dv_did (bt_device b))) bs cs)"
            if "composites_known inst cs" for bs cs using that by (induction bs arbitrary: cs) (simp_all add: composites_known_build)
          moreover have "composites_known inst []" by (simp add: composites_known_def)
          ultimately have "composites_known inst (su_composites ?st4)" by (simp add: build_controllers_def)
          then show ?thesis using composites_known_seeds [of inst ?st4 "all_built ?st4"] s by simp
        qed
        ultimately have "ready_state inst en st5" using p5 ok4 a5 bs p3(7) x unfolding ready_state_def by auto
        moreover have "st = st5" using assms n Inr b None s ab by (auto simp: setup_steps_def Let_def split: option.splits)
        ultimately show ?thesis using p5 ok4 by simp
      qed
    qed
    then show "reauth_ok st" and "r = None \<Longrightarrow> ready_state inst en st" by blast+
  qed
qed


lemma release_all:
  "handlers_are (regs_of bs @ extra) (su_coord st) \<Longrightarrow> distinct (map snd (regs_of bs @ extra)) \<Longrightarrow>
   handlers_are extra (su_coord (fold release_device bs st))"
proof (induction bs arbitrary: st)
  case (Cons b bs)
  have "handlers_are (remove1 (dv_did (bt_device b), bt_handler b) (regs_of (b # bs) @ extra)) (su_coord (release_device b st))"
    using handlers_unregister [OF Cons.prems, of "dv_did (bt_device b)" "bt_handler b"] by (simp add: release_device_def regs_of_def)
  then show ?case using Cons.IH [of "release_device b st"] Cons.prems(2) by (simp add: regs_of_def)
qed (simp add: regs_of_def)

text \<open>
  C15 [unload_undoes_setup]
  Unloading an entry whose setup succeeded takes back what it registered: no report handler is left for any device when the
  host's own device was built, and otherwise at most the handler that the failed build of the host's device had registered; the
  PTZ controllers are gone and the coordinator is stopped. When the platforms refuse, nothing changes.
\<close>

theorem unload_undoes_setup:
  assumes "setup_entry inst en (idle_setup own c0) = (Ready, st)"
  shows "(\<forall>k. dget (handlers (su_coord (snd (unload_entry True st)))) k = None \<or> su_self st = None \<and> k = JStr (en_did en)) \<and>
    su_ptz (snd (unload_entry True st)) = [] \<and> \<not> su_running (snd (unload_entry True st)) \<and> unload_entry False st = (False, st)"
proof -
  have "setup_steps inst en ((idle_setup own c0)\<lparr>su_running := True\<rparr>) = (None, st)"
    using assms by (auto simp: setup_entry_def Let_def split: if_splits prod.splits option.splits)
  from setup_steps_props(2) [OF this] obtain extra where x: "registered (all_built st) extra st" "su_self st \<noteq> None \<longrightarrow> extra = []"
    "fst ` set extra \<subseteq> {en_did en}" by (auto simp: ready_state_def)
  have "handlers_are extra (su_coord (fold release_device (all_built st) (st\<lparr>su_ptz := []\<rparr>)))"
    using x(1) by (intro release_all) (simp_all add: registered_def)
  then have h: "dget (handlers (su_coord (snd (unload_entry True st)))) k =
      (if map snd (filter (\<lambda>(d, h). JStr d = k) extra) = [] then None else Some (map snd (filter (\<lambda>(d, h). JStr d = k) extra)))" for k
    by (simp add: unload_entry_def stop_coord_def handlers_are_def Let_def)
  have "su_self st = None \<and> k = JStr (en_did en)" if "dget (handlers (su_coord (snd (unload_entry True st)))) k \<noteq> None" for k
  proof -
    from that h have "filter (\<lambda>(d, h). JStr d = k) extra \<noteq> []" by auto
    then obtain d i where "(d, i) \<in> set extra" "JStr d = k" by (auto simp: filter_empty_conv)
    then show ?thesis using x(2,3) by force
  qed
  moreover have "su_ptz (fold release_device bs s) = su_ptz s" for bs s by (induction bs arbitrary: s) (simp_all add: release_device_def)
  ultimately show ?thesis by (auto simp: unload_entry_def stop_coord_def)
qed

text \<open>A hub with one device, of models without catalog data, and a subentry whose data is broken.\<close>

definition sample_install :: "unit install" where
  "sample_install = \<lparr>in_env = rejecting, in_float = (\<lambda>s. None), in_iso = (\<lambda>s. None), in_token = ''T'',
     in_registry = new_registry\<lparr>r_capabilities := [(''cam.1'', [(''ptz'', [''zoom''])])], r_discovered := True\<rparr>,
     in_overlay = empty_overlay, in_classes = (\<lambda>c. (False, []))\<rparr>"

definition sample_entry :: entry where
  "sample_entry = \<lparr>en_did = ''hub'', en_model = ''hub.1'', en_region = ''EU'', en_phone = ''P'',
     en_subentries = [(''s1'', Some (''cam.1'', ''dev'')), (''s2'', None)], en_answers = True, en_forwards = True\<rparr>"

lemma bare_install:
  assumes "inst = sample_install\<lparr>in_env := E, in_registry := new_registry\<lparr>r_traits_by_model := ts, r_capabilities := cs, r_discovered := True\<rparr>\<rparr>"
  shows "dget ts m = None \<Longrightarrow> derived_descriptors inst m = []" "dget ts m = None \<Longrightarrow> subscribe_paths (merged_traits inst m) = []"
    "settings_for_model m (in_registry inst) = []" "composites_for_model m (in_registry inst) = []"
    "in_token inst = ''T''" "in_env inst = E"
  using assms
  by (simp_all add: derived_descriptors_def model_of_def build_descriptors_def classify_v3_def classified_def endpoint_ids_def disambiguate_names_def
      name_groups_def build_setting_descriptors_def merged_traits_def subscribe_paths_def merge_overlay_into_catalogue_def traits_for_model_def
      empty_overlay_def entries_def sample_install_def new_registry_def all_traits_for_model_def settings_for_model_def endpoints_for_model_def
      composites_for_model_def map_filter_simps)

lemma sample_bare: "sample_install = sample_install\<lparr>in_env := rejecting, in_registry := new_registry\<lparr>r_traits_by_model := [],
     r_capabilities := [(''cam.1'', [(''ptz'', [''zoom''])])], r_discovered := True\<rparr>\<rparr>"
  by (simp add: sample_install_def new_registry_def)

lemma sample_build:
  "\<not> su_failed st \<Longrightarrow> \<exists>b st'. build_device sample_install sub m did st = (Inr b, st') \<and> frame_of st' = frame_of (register_device_handler did st) \<and>
     dv_did (bt_device b) = did \<and> \<not> su_failed st'"
proof -
  assume f: "\<not> su_failed st"
  have n: "dget ([] :: (string, traits) dict) m = None" by simp
  note i = bare_install(1,2) [OF sample_bare n] bare_install(3,5,6) [OF sample_bare]
  show ?thesis using f i
    by (simp add: build_device_def setup_call_def run_cloud_call_def enrich_call_def subscribe_call_def settings_call_def
        subscribe_and_seed_traits_def seed_settings_from_cloud_def seed_rids_def stateful_rids_def register_device_handler_def Let_def
        frame_of_def make_device_def new_device_def)
qed

lemma sample_setup_ready:
  "\<exists>st. setup_entry sample_install sample_entry (idle_setup ''hub'' sample_client) = (Ready, st) \<and>
     map (\<lambda>b. dv_did (bt_device b)) (all_built st) = [''dev'', ''hub'']"
proof -
  let ?st0 = "(idle_setup ''hub'' sample_client)\<lparr>su_running := True, su_cloud := \<lparr>w_client = sample_client, w_armed = [], w_reauths = 0\<rparr>\<rparr>"
  obtain b1 st1 where b1: "build_device sample_install ''s1'' ''cam.1'' ''dev'' ?st0 = (Inr b1, st1)"
    "frame_of st1 = frame_of (register_device_handler ''dev'' ?st0)" "dv_did (bt_device b1) = ''dev''" "\<not> su_failed st1"
    using sample_build [of ?st0 "''s1''" "''cam.1''" "''dev''"] by (auto simp: idle_setup_def)
  let ?st1 = "st1\<lparr>su_devices := su_devices st1 @ [b1]\<rparr>"
  obtain b2 st2 where b2: "build_device sample_install (''self_'' @ ''hub'') ''hub.1'' ''hub'' ?st1 = (Inr b2, st2)"
    "frame_of st2 = frame_of (register_device_handler ''hub'' ?st1)" "dv_did (bt_device b2) = ''hub''" "\<not> su_failed st2"
    using sample_build [of ?st1 "''self_'' @ ''hub''" "''hub.1''" "''hub''"] b1(4) by auto
  have d: "su_devices st2 = [b1]" using b1(2) b2(2) by (simp add: frame_of_def register_device_handler_def idle_setup_def)
  have c: "composites_for_model m (in_registry sample_install) = []" for m by (rule bare_install(4) [OF sample_bare])
  have tok: "in_token sample_install = ''T''" by (rule bare_install(5) [OF sample_bare])
  have same: "st\<lparr>su_failed := False\<rparr> = st" if "\<not> su_failed st" for st using that by (cases st) simp
  have q: "seed_composites sample_install bs st = (None, st)" if "\<not> su_failed st" for bs st
  proof (induction bs)
    case (Cons b bs)
    have "setup_call (composites_call sample_install b) st (su_composites st) = (None, st, su_composites st)"
      using that same [OF that]
      by (simp add: setup_call_def run_cloud_call_def composites_call_def seed_composites_from_cloud_def seed_rids_def c dkeys_def)
    moreover have "st\<lparr>su_composites := su_composites st\<rparr> = st" by simp
    ultimately show ?case using Cons by simp
  qed simp
  have r: "fst (seed_composites sample_install bs st) = None \<and> all_built (snd (seed_composites sample_install bs st)) = all_built st"
    if "\<not> su_failed st" for bs st
    using q [OF that] by simp
  let ?st4 = "build_controllers sample_install (st2\<lparr>su_self := Some b2\<rparr>)"
  have f4: "\<not> su_failed ?st4" using b2(4) by (simp add: build_controllers_def)
  have e: "setup_steps sample_install sample_entry ((idle_setup ''hub'' sample_client)\<lparr>su_running := True\<rparr>) = (None, ?st4)"
    using b1(1) b2(1) q [OF f4] sample_new
    by (simp add: setup_steps_def sample_entry_def build_self_def Let_def)
  then have "setup_entry sample_install sample_entry (idle_setup ''hub'' sample_client) = (Ready, ?st4)"
    by (simp add: setup_entry_def Let_def) (simp add: sample_entry_def)
  moreover have "map (\<lambda>b. dv_did (bt_device b)) (all_built ?st4) = [''dev'', ''hub'']"
    using d b1(3) b2(3) by (simp add: all_built_def build_controllers_def)
  ultimately show ?thesis by (intro exI [of _ ?st4] conjI)
qed


theorem unload_undoes_setup_witness:
  "\<exists>st. setup_entry sample_install sample_entry (idle_setup ''hub'' sample_client) = (Ready, st) \<and>
     map fst (regs_of (all_built st)) = [''dev'', ''hub''] \<and> dget (handlers (su_coord (snd (unload_entry True st)))) (JStr ''dev'') = None"
proof -
  from sample_setup_ready obtain st where r: "setup_entry sample_install sample_entry (idle_setup ''hub'' sample_client) = (Ready, st)"
    "map (\<lambda>b. dv_did (bt_device b)) (all_built st) = [''dev'', ''hub'']" by (elim exE conjE)
  obtain k where k: "k = JStr ''dev''" by simp
  have "k \<noteq> JStr (en_did sample_entry)" by (simp add: k sample_entry_def)
  then have "dget (handlers (su_coord (snd (unload_entry True st)))) (JStr ''dev'') = None"
    unfolding k [symmetric] using unload_undoes_setup [OF r(1)] by blast
  moreover have "map fst (regs_of (all_built st)) = [''dev'', ''hub'']" using r(2) by (simp only: regs_of_def map_map comp_def fst_conv)
  ultimately show ?thesis by (intro exI [of _ st] conjI r(1))
qed

text \<open>
  The build of the host's own device may fail after its handler was registered; here its model's table has a trait, and the answer
  of the cloud carries a list as path, which raises TypeError. The handler stays, also after the unload.
\<close>

definition listing :: env where
  "listing = \<lparr>md5 = (\<lambda>bs. ''5d''), rsa = (\<lambda>s. s), nonce = nat_text, time_ms = nat_text,
     cloud = (\<lambda>rs. Reply_Text (dumps (JObj [(''code'', JInt 0), (''result'', JList [JObj [(''traits'',
        JList [JObj [(''path'', JList [JInt 1]), (''value'', JInt 1)]])]])])))\<rparr>"

lemma listing_attempt:
  "attempt listing k c = (Inr (JObj [(''code'', JInt 0), (''result'', JList [JObj [(''traits'', JList [JObj [(''path'', JList [JInt 1]), (''value'', JInt 1)]])]])]),
     c\<lparr>requests := requests c @ [attempt_request listing k c]\<rparr>)"
proof -
  have "wf_json (JObj [(''code'', JInt 0), (''result'', JList [JObj [(''traits'', JList [JObj [(''path'', JList [JInt 1]), (''value'', JInt 1)]])]])])"
    by (simp add: dict_ok_def)
  from loads_dumps [OF this] show ?thesis
    by (simp add: attempt_def request_def attempt_request_def listing_def Let_def)
qed

lemma listing_call:
  "\<exists>c'. call listing k f c = (f (JList [JObj [(''traits'', JList [JObj [(''path'', JList [JInt 1]), (''value'', JInt 1)]])]]), c')"
  by (simp add: call_def signed_request_def listing_attempt rejected_sign_def raise_if_error_def prints_as.simps jget_def)

lemma listing_enrich: "\<exists>ds' c'. enrich_lights listing tf tok m did ds c = (None, ds', c')"
proof (induction ds arbitrary: c)
  case (Cons d ds)
  have "\<exists>c'. light_effects listing tf tok m did c = (Inl Auth_Error, c')"
  proof -
    obtain c1 where "query_custom_actions listing tok ''new_dynamic_scene_mode'' m did c =
        (dict_result (JList [JObj [(''traits'', JList [JObj [(''path'', JList [JInt 1]), (''value'', JInt 1)]])]]), c1)"
      unfolding query_custom_actions_def using listing_call by metis
    then show ?thesis by (simp add: light_effects_def dict_result_def)
  qed
  then obtain c1 where l: "light_effects listing tf tok m did c = (Inl Auth_Error, c1)" by blast
  from Cons obtain f g where "\<And>c. enrich_lights listing tf tok m did ds c = (None, f c, g c)" by metis
  then show ?case by (cases d) (simp_all add: l reraised_def)
qed simp

lemma listing_subscribe:
  "\<exists>w' dv'. subscribe_and_seed_traits listing tok sample_traits did w dv = (Some cloud_error.Type_Error, w', dv')"
proof -
  obtain c' where "query_device_traits listing tok did [''1.7.85''] (w_client w) = (Inr [JObj [(''path'', JList [JInt 1]), (''value'', JInt 1)]], c')"
    using listing_call [of _ first_traits "w_client w"] by (auto simp: query_device_traits_def first_traits_def jget_def)
  then show ?thesis
    by (simp add: subscribe_and_seed_traits_def sample_paths sample_batches seed_item_def jget_def)
qed

lemma host_handler_leaks:
  assumes "inst = sample_install\<lparr>in_env := listing,
      in_registry := new_registry\<lparr>r_traits_by_model := [(''hub.1'', sample_traits)], r_capabilities := [], r_discovered := True\<rparr>\<rparr>"
    "registered [] [] st" "\<not> su_failed st" "su_self st = None" "handlers (su_coord st) = []" "su_next st = 0"
  shows "su_self (build_self inst ''hub.1'' ''hub'' st) = None \<and>
    dget (handlers (su_coord (build_self inst ''hub.1'' ''hub'' st))) (JStr ''hub'') = Some [0]"
proof -
  note b = bare_install(5,6) [OF assms(1)]
  have m: "merged_traits inst ''hub.1'' = sample_traits"
    by (simp add: merged_traits_def assms(1) all_traits_for_model_def traits_for_model_def sample_install_def empty_overlay_def entries_def sample_traits_def)
  obtain ds' c' where e: "enrich_lights listing (in_float inst) ''T'' ''hub.1'' ''hub'' (derived_descriptors inst ''hub.1'') (w_client (su_cloud st)) =
      (None, ds', c')" by (metis listing_enrich)
  let ?st1 = "register_device_handler ''hub'' (st\<lparr>su_cloud := (su_cloud st)\<lparr>w_client := c'\<rparr>, su_failed := False\<rparr>)"
  obtain w2 dv2 where s: "subscribe_and_seed_traits listing ''T'' sample_traits ''hub'' (su_cloud ?st1) (make_device inst ''hub.1'' ''hub'' ds') =
      (Some cloud_error.Type_Error, w2, dv2)" by (metis listing_subscribe)
  have "build_device inst (''self_'' @ ''hub'') ''hub.1'' ''hub'' st =
      (Inl cloud_error.Type_Error, ?st1\<lparr>su_cloud := w2, su_failed := False\<rparr>)"
    using assms(3) e s b m
    by (simp add: build_device_def setup_call_def run_cloud_call_def enrich_call_def subscribe_call_def register_device_handler_def Let_def)
  then show ?thesis using assms(4,5,6)
    by (simp add: build_self_def register_device_handler_def register_handler_def Let_def split: option.split)
qed

section \<open>Data that is written\<close>

text \<open>An endpoint written by the discovery at run time does not reload the entry: the options are the ones remembered.\<close>

lemma endpoint_write_keeps_options: "options_updated options options = (False, options)"
  by (simp add: options_updated_def same_dict_def list_all_iff)

lemma phone_id_stable:
  "fst (ensure_phone_id uuid5 upper install data) = fst (ensure_phone_id uuid5 upper install data')"
  "snd (ensure_phone_id uuid5 upper install (snd (ensure_phone_id uuid5 upper install data))) = snd (ensure_phone_id uuid5 upper install data)"
  by (simp_all add: ensure_phone_id_def Let_def)

text \<open>
  A device can be removed when a subentry of it is left, or when it is not the host itself; the live
  subentries it names go, and only then the entry is reloaded.
\<close>

lemma remove_device_cases:
  assumes "remove_device named present = (ok, left, reload)"
  shows "(ok \<longleftrightarrow> (\<exists>i. Some i \<in> set named \<and> i \<in> set present) \<or> None \<notin> set named) \<and>
    set left = set present - {i. Some i \<in> set named} \<and> (reload \<longleftrightarrow> left \<noteq> present)"
proof -
  let ?gone = "List.map_filter (\<lambda>s. case s of None \<Rightarrow> None | Some i \<Rightarrow> if i \<in> set present then Some i else None) named"
  have g: "set ?gone = {i. Some i \<in> set named \<and> i \<in> set present}"
    by (force simp: map_filter_def split: option.splits if_splits)
  show ?thesis
  proof (cases "?gone = []")
    case True
    then have e: "{i. Some i \<in> set named \<and> i \<in> set present} = {}" using g by (metis list.set(1))
    have "ok = (None \<notin> set named)" "left = present" "\<not> reload" using assms True by (simp_all add: remove_device_def Let_def)
    moreover have "set present = set present - {i. Some i \<in> set named}" "\<not> (\<exists>i. Some i \<in> set named \<and> i \<in> set present)"
      using e by blast+
    ultimately show ?thesis by metis
  next
    case False
    then obtain i where i: "Some i \<in> set named" "i \<in> set present" using g by (metis (mono_tags, lifting) hd_in_set mem_Collect_eq)
    have "i \<in> set ?gone" using i g by blast
    moreover have r: "ok" "left = filter (\<lambda>i. i \<notin> set ?gone) present" "reload" using assms False by (simp_all add: remove_device_def Let_def)
    ultimately have "i \<notin> set left" by (simp only: set_filter mem_Collect_eq) blast
    then have "left \<noteq> present" using i(2) by blast
    moreover have "set left = set present - {i. Some i \<in> set named}" unfolding r(2) set_filter g by blast
    ultimately show ?thesis using i r(1,3) by blast
  qed
qed

end
