(* ===== verification/Entities.thy ===== *)
theory Entities
  imports Device Rtsp
begin

text \<open>
  \<open>entity.py\<close> and the descriptor entities of \<open>switch.py\<close>, \<open>select.py\<close>, \<open>text.py\<close>, \<open>number.py\<close>, \<open>sensor.py\<close>,
  \<open>event.py\<close>, \<open>button.py\<close> and \<open>binary_sensor.py\<close>: how a wire value becomes the state that is shown and how a command
  becomes a write. A float is a rational number, an infinity or not a number; its rounding is not modelled, its
  range is. What Home Assistant is shown is logged, and so is every write that the device accepted.
\<close>

section \<open>Floats\<close>

datatype pyfloat = Fin rat | Infinite bool | Not_A_Number

text \<open>From here on the nearest double is an infinity.\<close>

definition float_limit :: rat where
  "float_limit = 2 ^ 1024 - 2 ^ 970"

definition fin :: "rat \<Rightarrow> pyfloat" where
  "fin r = (if float_limit \<le> \<bar>r\<bar> then Infinite (r < 0) else Fin r)"

definition part_number :: "string \<Rightarrow> nat option" where
  "part_number s = (if s = [] then Some 0 else digits_value s)"

definition float_mantissa :: "string \<Rightarrow> rat option" where
  "float_mantissa s =
     (let ip = takeWhile (\<lambda>c. c \<noteq> CHR ''.'') s; fp = tl (dropWhile (\<lambda>c. c \<noteq> CHR ''.'') s)
      in if ip = [] \<and> fp = [] then None
         else case (part_number ip, part_number fp) of
                (Some a, Some b) \<Rightarrow> Some (of_nat a + of_nat b / 10 ^ length (filter (\<lambda>c. c \<noteq> CHR ''_'') fp))
              | _ \<Rightarrow> None)"

definition signed :: "string \<Rightarrow> bool \<times> string" where
  "signed s = (case s of [] \<Rightarrow> (False, []) | c # cs \<Rightarrow> if c = CHR ''-'' then (True, cs) else if c = CHR ''+'' then (False, cs) else (False, s))"

definition float_number :: "string \<Rightarrow> rat option" where
  "float_number s =
     (case (float_mantissa (takeWhile (\<lambda>c. c \<noteq> CHR ''e'') s), dropWhile (\<lambda>c. c \<noteq> CHR ''e'') s) of
        (None, _) \<Rightarrow> None
      | (Some m, []) \<Rightarrow> Some m
      | (Some m, _ # ex) \<Rightarrow>
          (case signed ex of (neg, ds) \<Rightarrow>
             (case digits_value ds of None \<Rightarrow> None | Some e \<Rightarrow> Some (if neg then m / 10 ^ e else m * 10 ^ e))))"

text \<open>\<open>float(s)\<close>; None: ValueError.\<close>

definition py_float :: "string \<Rightarrow> pyfloat option" where
  "py_float s =
     (case signed (lower (strip s)) of (neg, u) \<Rightarrow>
        if u = ''inf'' \<or> u = ''infinity'' then Some (Infinite neg)
        else if u = ''nan'' then Some Not_A_Number
        else map_option (\<lambda>r. fin (if neg then - r else r)) (float_number u))"

fun float_times :: "pyfloat \<Rightarrow> pyfloat \<Rightarrow> pyfloat" where
  "float_times (Fin a) (Fin b) = fin (a * b)"
| "float_times (Fin a) (Infinite n) = (if a = 0 then Not_A_Number else Infinite (n \<noteq> (a < 0)))"
| "float_times (Infinite n) (Fin b) = (if b = 0 then Not_A_Number else Infinite (n \<noteq> (b < 0)))"
| "float_times (Infinite m) (Infinite n) = Infinite (m \<noteq> n)"
| "float_times _ _ = Not_A_Number"

text \<open>Division by a number that is not zero.\<close>

fun float_div :: "pyfloat \<Rightarrow> pyfloat \<Rightarrow> pyfloat" where
  "float_div (Fin a) (Fin b) = fin (a / b)"
| "float_div (Fin a) (Infinite n) = Fin 0"
| "float_div (Infinite n) (Fin b) = Infinite (n \<noteq> (b < 0))"
| "float_div _ _ = Not_A_Number"

text \<open>A scale as a float; None: it is no number, and arithmetic with it is a TypeError.\<close>

fun scale_factor :: "json \<Rightarrow> pyfloat option" where
  "scale_factor (JInt i) = Some (fin (of_int i))"
| "scale_factor (JBool b) = Some (Fin (if b then 1 else 0))"
| "scale_factor (JFloat s) = py_float s"
| "scale_factor _ = None"

section \<open>Entities\<close>

text \<open>
  \<open>native\<close> is the value an entity holds, \<open>in_hass\<close> says whether it was added, \<open>shown\<close> are the states it wrote,
  \<open>sent\<close> the writes the device accepted.
\<close>

record 'v ent =
  native :: 'v
  in_hass :: bool
  shown :: "'v list"
  sent :: "(attr_spec \<times> string) list list"

definition new_ent :: "'v \<Rightarrow> 'v ent" where
  "new_ent v = \<lparr>native = v, in_hass = False, shown = [], sent = []\<rparr>"

definition write_state_if_added :: "('v, 'z) ent_scheme \<Rightarrow> ('v, 'z) ent_scheme" where
  "write_state_if_added e = (if in_hass e then e\<lparr>shown := shown e @ [native e]\<rparr> else e)"

definition mirror :: "'v \<Rightarrow> ('v, 'z) ent_scheme \<Rightarrow> ('v, 'z) ent_scheme" where
  "mirror v e = write_state_if_added (e\<lparr>native := v\<rparr>)"

lemma mirror_simps [simp]:
  "native (mirror v e) = v" "in_hass (mirror v e) = in_hass e" "sent (mirror v e) = sent e"
  "shown (mirror v e) = (if in_hass e then shown e @ [v] else shown e)"
  by (simp_all add: mirror_def write_state_if_added_def)

definition write_attr :: "attr_spec \<Rightarrow> attr_spec option \<Rightarrow> attr_spec" where
  "write_attr a w = (case w of Some b \<Rightarrow> b | None \<Rightarrow> a)"

text \<open>
  A command: the write, and the state it sets when the descriptor is optimistic. \<open>ok\<close>: the device accepted the
  write; otherwise the call raises and nothing of the entity changes. The result says whether the call returned.
\<close>

definition command :: "bool \<Rightarrow> bool \<Rightarrow> (attr_spec \<times> string) list \<Rightarrow> 'v \<Rightarrow> ('v, 'z) ent_scheme \<Rightarrow> bool \<times> ('v, 'z) ent_scheme" where
  "command ok optimistic writes v e =
     (if \<not> ok then (False, e)
      else let e = e\<lparr>sent := sent e @ [writes]\<rparr> in (True, if optimistic then mirror v e else e))"

text \<open>\<open>offline\<close>: the hub's topology has lost a device that it listed before.\<close>

definition available :: "bool \<Rightarrow> bool \<Rightarrow> bool" where
  "available hub_connected offline = (hub_connected \<and> \<not> offline)"

datatype entity_error = Bad_Value | Too_Large | By_Zero | Bad_Type | No_Option string

section \<open>Switches\<close>

definition switch_apply :: "switch_descriptor \<Rightarrow> string \<Rightarrow> bool ent \<Rightarrow> bool ent" where
  "switch_apply d raw e = mirror (raw = sw_on_value d) e"

definition switch_turn_on :: "switch_descriptor \<Rightarrow> bool \<Rightarrow> bool ent \<Rightarrow> bool \<times> bool ent" where
  "switch_turn_on d ok e = command ok (sw_optimistic d) [(write_attr (sw_attr d) (sw_attr_write d), sw_on_value d)] True e"

definition switch_turn_off :: "switch_descriptor \<Rightarrow> bool \<Rightarrow> bool ent \<Rightarrow> bool \<times> bool ent" where
  "switch_turn_off d ok e = command ok (sw_optimistic d) [(write_attr (sw_attr d) (sw_attr_write d), sw_off_value d)] False e"

section \<open>Selects\<close>

definition select_options :: "select_descriptor \<Rightarrow> string list" where
  "select_options d = map fst (sl_options_map d)"

definition select_apply :: "select_descriptor \<Rightarrow> string \<Rightarrow> string option ent \<Rightarrow> string option ent" where
  "select_apply d raw e =
     (case find (\<lambda>(label, wire). wire = raw) (sl_options_map d) of
        Some (label, wire) \<Rightarrow> mirror (Some label) e
      | None \<Rightarrow> e)"

definition select_option :: "select_descriptor \<Rightarrow> bool \<Rightarrow> string \<Rightarrow> string option ent \<Rightarrow> (entity_error + bool) \<times> string option ent" where
  "select_option d ok option e =
     (case find (\<lambda>(label, wire). label = option) (sl_options_map d) of
        Some (label, wire) \<Rightarrow>
          (case command ok (sl_optimistic d) [(write_attr (sl_attr d) (sl_attr_write d), wire)] (Some option) e of
             (r, e) \<Rightarrow> (Inr r, e))
      | None \<Rightarrow> (Inl (No_Option option), e))"

section \<open>Texts\<close>

definition MAX_STATE_LEN :: nat where "MAX_STATE_LEN = 255"

text \<open>\<open>limit\<close> is the entity's property \<open>max\<close>.\<close>

definition cap_state :: "nat option \<Rightarrow> string \<Rightarrow> string" where
  "cap_state limit s = take (case limit of None \<Rightarrow> MAX_STATE_LEN | Some n \<Rightarrow> if n = 0 then MAX_STATE_LEN else n) s"

definition text_apply :: "nat option \<Rightarrow> string \<Rightarrow> string option ent \<Rightarrow> string option ent" where
  "text_apply limit raw e = mirror (Some (cap_state limit raw)) e"

definition text_set_value :: "text_descriptor \<Rightarrow> nat option \<Rightarrow> bool \<Rightarrow> string \<Rightarrow> string option ent \<Rightarrow> bool \<times> string option ent" where
  "text_set_value d limit ok v e = command ok (tx_optimistic d) [(write_attr (tx_attr d) (tx_attr_write d), v)] (Some (cap_state limit v)) e"

section \<open>Numbers\<close>

text \<open>\<open>Cut s\<close> is the text \<open>s\<close> followed by one ellipsis.\<close>

datatype value_shown = Nothing | Int_Value int | Float_Value pyfloat | Text_Value string | Cut string

fun float_of_value :: "value_shown \<Rightarrow> entity_error + pyfloat" where
  "float_of_value (Int_Value i) = (if float_limit \<le> \<bar>of_int i\<bar> then Inl Too_Large else Inr (Fin (of_int i)))"
| "float_of_value (Float_Value f) = Inr f"
| "float_of_value (Text_Value s) = (case py_float s of Some f \<Rightarrow> Inr f | None \<Rightarrow> Inl Bad_Value)"
| "float_of_value _ = Inl Bad_Type"

text \<open>The scale of a descriptor; the TypeError and the ValueError are caught, the OverflowError is not.\<close>

definition apply_scale :: "json \<Rightarrow> value_shown \<Rightarrow> entity_error + value_shown" where
  "apply_scale sc v =
     (if sc = JNull then Inr v
      else case float_of_value v of
             Inl Too_Large \<Rightarrow> Inl Too_Large
           | Inl e \<Rightarrow> Inr v
           | Inr f \<Rightarrow> (case scale_factor sc of None \<Rightarrow> Inr v | Some k \<Rightarrow> Inr (Float_Value (float_times f k))))"

definition default_transform_in :: "string \<Rightarrow> entity_error + value_shown" where
  "default_transform_in raw =
     (case int_of_string raw of Some i \<Rightarrow> Inr (Int_Value i)
      | None \<Rightarrow> (case py_float raw of Some f \<Rightarrow> Inr (Float_Value f) | None \<Rightarrow> Inl Bad_Value))"

definition number_value :: "number_descriptor \<Rightarrow> string \<Rightarrow> entity_error + value_shown" where
  "number_value d raw =
     (if raw = [] then Inr Nothing
      else case default_transform_in raw of Inl e \<Rightarrow> Inl e | Inr v \<Rightarrow> apply_scale (nu_scale d) v)"

definition number_apply :: "number_descriptor \<Rightarrow> string \<Rightarrow> value_shown ent \<Rightarrow> entity_error option \<times> value_shown ent" where
  "number_apply d raw e = (case number_value d raw of Inl err \<Rightarrow> (Some err, e) | Inr v \<Rightarrow> (None, mirror v e))"

text \<open>\<open>str\<close> of a float, with the text of a finite one as a parameter.\<close>

fun str_float :: "(rat \<Rightarrow> string) \<Rightarrow> pyfloat \<Rightarrow> string" where
  "str_float repr (Fin r) = repr r"
| "str_float repr (Infinite n) = (if n then ''-inf'' else ''inf'')"
| "str_float repr Not_A_Number = ''nan''"

definition zero_scale :: "json \<Rightarrow> bool" where
  "zero_scale sc = (scale_factor sc = Some (Fin 0))"

definition number_wire :: "(rat \<Rightarrow> string) \<Rightarrow> json \<Rightarrow> pyfloat \<Rightarrow> string" where
  "number_wire repr sc v =
     str_float repr
       (if sc = JNull \<or> zero_scale sc then v else case scale_factor sc of None \<Rightarrow> v | Some k \<Rightarrow> float_div v k)"

text \<open>Home Assistant hands over a float, also for a whole number.\<close>

definition number_set_value :: "(rat \<Rightarrow> string) \<Rightarrow> number_descriptor \<Rightarrow> bool \<Rightarrow> pyfloat \<Rightarrow> value_shown ent \<Rightarrow> bool \<times> value_shown ent" where
  "number_set_value repr d ok v e =
     command ok (nu_optimistic d) [(write_attr (nu_attr d) (nu_attr_write d), number_wire repr (nu_scale d) v)] (Float_Value v) e"

section \<open>Sensors\<close>

definition coerce_float :: "string \<Rightarrow> value_shown" where
  "coerce_float raw = (case py_float raw of Some f \<Rightarrow> Float_Value f | None \<Rightarrow> Text_Value raw)"

definition coerce_int :: "string \<Rightarrow> value_shown" where
  "coerce_int raw = (case int_of_string raw of Some i \<Rightarrow> Int_Value i | None \<Rightarrow> Text_Value raw)"

text \<open>Attributes are made without a data type, which is then unknown.\<close>

definition sensor_data_type :: "sensor_descriptor \<Rightarrow> string option" where
  "sensor_data_type d = (case sn_trait d of Some t \<Rightarrow> Some (t_data_type t) | None \<Rightarrow> map_option (\<lambda>a. ''unknown'') (sn_attr d))"

definition default_transform_for :: "sensor_descriptor \<Rightarrow> string \<Rightarrow> value_shown" where
  "default_transform_for d raw =
     (if sensor_data_type d = Some ''float'' then coerce_float raw
      else if sensor_data_type d = Some ''int'' then coerce_int raw
      else Text_Value raw)"

definition sensor_transform :: "sensor_descriptor \<Rightarrow> string \<Rightarrow> value_shown" where
  "sensor_transform d raw =
     (case sn_labels d of
        Some m \<Rightarrow> Text_Value (case dget m raw of Some l \<Rightarrow> l | None \<Rightarrow> raw)
      | None \<Rightarrow> default_transform_for d raw)"

text \<open>The state with the attribute \<open>full_value\<close>.\<close>

type_synonym sensor_state = "value_shown \<times> string option"

definition fit_state :: "value_shown \<Rightarrow> sensor_state" where
  "fit_state v =
     (case v of
        Text_Value s \<Rightarrow> if MAX_STATE_LEN < length s then (Cut (take (MAX_STATE_LEN - 1) s), Some s) else (v, None)
      | _ \<Rightarrow> (v, None))"

definition sensor_apply :: "sensor_descriptor \<Rightarrow> string \<Rightarrow> sensor_state ent \<Rightarrow> entity_error option \<times> sensor_state ent" where
  "sensor_apply d raw e =
     (if raw = [] then (None, mirror (Nothing, None) e)
      else case apply_scale (sn_scale d) (sensor_transform d raw) of
             Inl err \<Rightarrow> (Some err, e)
           | Inr v \<Rightarrow> (None, mirror (fit_state v) e))"

section \<open>Events\<close>

type_synonym fired = "(string \<times> (string \<times> string) option) option"

definition event_enum :: "event_descriptor \<Rightarrow> (string, string) dict" where
  "event_enum d = (case ev_trigger_trait d of None \<Rightarrow> [] | Some s \<Rightarrow> enums s)"

text \<open>\<open>__init__\<close> raises ValueError: several types and no way to choose one.\<close>

definition misconfigured :: "event_descriptor \<Rightarrow> bool" where
  "misconfigured d = (ev_trigger_trait d \<noteq> None \<and> 1 < length (ev_types d) \<and> event_enum d = [])"

definition event_type_of :: "event_descriptor \<Rightarrow> string \<Rightarrow> string option" where
  "event_type_of d raw =
     (if ev_types d = [] then None
      else if event_enum d = [] then Some (hd (ev_types d))
      else case dget (event_enum d) raw of
             Some t \<Rightarrow> if t \<in> set (ev_types d) then Some t
                       else (case ev_unknown_type d of Some u \<Rightarrow> if u \<in> set (ev_types d) then Some u else None | None \<Rightarrow> None)
           | None \<Rightarrow> (case ev_unknown_type d of Some u \<Rightarrow> if u \<in> set (ev_types d) then Some u else None | None \<Rightarrow> None))"

definition event_apply :: "event_descriptor \<Rightarrow> string \<Rightarrow> fired ent \<Rightarrow> fired ent" where
  "event_apply d raw e =
     (case event_type_of d raw of
        None \<Rightarrow> e
      | Some t \<Rightarrow> mirror (Some (t, map_option (\<lambda>k. (k, raw)) (ev_payload_key d))) e)"

section \<open>Buttons\<close>

definition button_press :: "button_descriptor \<Rightarrow> bool \<Rightarrow> unit ent \<Rightarrow> bool \<times> unit ent" where
  "button_press d ok e = command ok False [(bt_attr d, bt_press_value d)] () e"

section \<open>Commands and their echo\<close>

text \<open>
  What a command wrote comes back as a report. A descriptor that is not optimistic has no other source of its state.
\<close>

definition last_wire :: "('v, 'z) ent_scheme \<Rightarrow> string" where
  "last_wire e = snd (hd (last (sent e)))"

lemma command_sent: "command ok opt ws v e = (True, e') \<Longrightarrow> sent e' = sent e @ [ws] \<and> in_hass e' = in_hass e"
  by (auto simp: command_def Let_def split: if_splits)

lemma find_first: "x \<in> set xs \<Longrightarrow> P x \<Longrightarrow> \<exists>y. find P xs = Some y \<and> P y \<and> y \<in> set xs"
  by (induction xs) auto

lemma find_unique: "distinct (map f xs) \<Longrightarrow> x \<in> set xs \<Longrightarrow> find (\<lambda>y. f y = f x) xs = Some x"
  by (induction xs) auto


definition sample_select :: select_descriptor where
  "sample_select = select ''k'' ''Mode'' None True (attr ''1.2.3'') [(''Off'', ''0''), (''On'', ''1'')]"


section \<open>States that fit\<close>

fun state_length :: "value_shown \<Rightarrow> nat" where
  "state_length (Text_Value s) = length s"
| "state_length (Cut s) = length s + 1"
| "state_length (Int_Value i) = length (int_text i)"
| "state_length _ = 0"

text \<open>A state is well formed: a text that fits, or one that was cut and is complete in the attribute.\<close>

fun state_fits :: "sensor_state \<Rightarrow> bool" where
  "state_fits (Text_Value s, full) = (length s \<le> MAX_STATE_LEN \<and> full = None)"
| "state_fits (Cut s, full) = (\<exists>t. full = Some t \<and> MAX_STATE_LEN < length t \<and> s = take (MAX_STATE_LEN - 1) t)"
| "state_fits (v, full) = (full = None)"

lemma fit_state_fits: "(\<forall>s. v \<noteq> Cut s) \<Longrightarrow> state_fits (fit_state v)"
  by (cases v) (auto simp: fit_state_def)

lemma transform_uncut: "sensor_transform d raw \<noteq> Cut s"
  by (simp add: sensor_transform_def default_transform_for_def coerce_float_def coerce_int_def split: option.split)

lemma scaled_uncut: "apply_scale sc v = Inr w \<Longrightarrow> (\<forall>s. v \<noteq> Cut s) \<Longrightarrow> w \<noteq> Cut s"
  by (auto simp: apply_scale_def split: if_splits sum.splits option.splits entity_error.splits)

lemma state_fits_length: "state_fits (v, full) \<Longrightarrow> (\<forall>i. v \<noteq> Int_Value i) \<Longrightarrow> state_length v \<le> MAX_STATE_LEN"
  by (cases v) (auto simp: MAX_STATE_LEN_def)

definition sensor_run :: "sensor_descriptor \<Rightarrow> string list \<Rightarrow> sensor_state ent \<Rightarrow> sensor_state ent" where
  "sensor_run d raws e = fold (\<lambda>raw e. snd (sensor_apply d raw e)) raws e"

definition all_fit :: "sensor_state ent \<Rightarrow> bool" where
  "all_fit e = (state_fits (native e) \<and> (\<forall>x \<in> set (shown e). state_fits x))"

lemma sensor_apply_fits: "all_fit e \<Longrightarrow> all_fit (snd (sensor_apply d raw e))"
proof -
  assume e: "all_fit e"
  have m: "all_fit (mirror x e)" if "state_fits x" for x using e that by (auto simp: all_fit_def)
  have "state_fits (fit_state v)" if "apply_scale (sn_scale d) (sensor_transform d raw) = Inr v" for v
    using scaled_uncut [OF that] transform_uncut by (intro fit_state_fits) blast
  then show ?thesis using e m [of "(Nothing, None)"] m by (simp add: sensor_apply_def split: sum.split)
qed

lemma sensor_run_fits: "all_fit e \<Longrightarrow> all_fit (sensor_run d raws e)"
  unfolding sensor_run_def by (induction raws arbitrary: e) (simp_all add: sensor_apply_fits)

lemma power_text_length: "k < length (nat_text (10 ^ k))"
proof (induction k)
  case (Suc k)
  then show ?case by (subst nat_text.simps) simp
qed simp

text \<open>
    Whatever a sensor receives, no text it shows is longer than Home Assistant accepts, and a text that was cut
  stands complete in the attribute. This holds of texts only: a report of three hundred digits on a trait of
  type int is shown as a number whose text is longer than the limit.
\<close>

theorem sensor_states_fit:
  "(let e = sensor_run d raws ((new_ent (Nothing, None))\<lparr>in_hass := added\<rparr>)
    in (\<forall>x \<in> set (shown e). state_fits x \<and> ((\<forall>i. fst x \<noteq> Int_Value i) \<longrightarrow> state_length (fst x) \<le> MAX_STATE_LEN))) \<and>
   (sn_labels d = None \<longrightarrow> sensor_data_type d = Some ''int'' \<longrightarrow> sn_scale d = JNull \<longrightarrow> MAX_STATE_LEN < k \<longrightarrow>
      MAX_STATE_LEN < state_length (fst (native (snd (sensor_apply d (nat_text (10 ^ k)) e0)))))"
proof (intro conjI impI)
  have "all_fit (sensor_run d raws ((new_ent (Nothing, None))\<lparr>in_hass := added\<rparr>))"
    by (rule sensor_run_fits) (simp add: all_fit_def new_ent_def)
  then show "let e = sensor_run d raws ((new_ent (Nothing, None))\<lparr>in_hass := added\<rparr>)
    in \<forall>x \<in> set (shown e). state_fits x \<and> ((\<forall>i. fst x \<noteq> Int_Value i) \<longrightarrow> state_length (fst x) \<le> MAX_STATE_LEN)"
    unfolding Let_def all_fit_def by (metis prod.collapse state_fits_length)
next
  assume d: "sn_labels d = None" "sensor_data_type d = Some ''int''" "sn_scale d = JNull" and k: "MAX_STATE_LEN < k"
  obtain e1 where e1: "sensor_apply d (nat_text (10 ^ k)) e0 = (None, e1)" "native e1 = (Int_Value (10 ^ k), None)"
    using d by (simp add: sensor_apply_def sensor_transform_def default_transform_for_def coerce_int_def int_of_string_nat_text
        apply_scale_def fit_state_def)
  have "int_text (10 ^ k) = nat_text (10 ^ k)" by (simp add: int_text_def nat_power_eq)
  then show "MAX_STATE_LEN < state_length (fst (native (snd (sensor_apply d (nat_text (10 ^ k)) e0))))"
    using e1 k power_text_length [of k] by simp
qed

theorem sensor_states_fit_witness:
  "\<forall>x \<in> set (shown (sensor_run (sensor ''k'' ''n'' None True (new_trait ''1.2.3'' ''N'') JNull) [replicate 300 (CHR ''x'')]
      ((new_ent (Nothing, None))\<lparr>in_hass := True\<rparr>))). state_fits x"
  using sensor_states_fit [where d = "sensor ''k'' ''n'' None True (new_trait ''1.2.3'' ''N'') JNull"
      and raws = "[replicate 300 (CHR ''x'')]" and added = True]
  by (simp only: Let_def) blast

section \<open>Numbers\<close>

lemma py_float_Nil: "py_float [] = None"
  by (simp add: py_float_def signed_def strip_def lower_def float_number_def float_mantissa_def)

text \<open>
    A number that is set and echoed: the value that was set comes back through the scale, when the text of the
  float reads back as the float, which Python guarantees, and a scale is a number other than zero. What goes to the
  device is the text of a float also for a whole number.
\<close>

theorem number_echo:
  assumes "number_set_value repr d ok (Fin v) e = (True, e1)" "\<bar>v\<bar> < float_limit"
    and "nu_scale d = JNull \<and> x = v \<or> (\<exists>k. k \<noteq> 0 \<and> scale_factor (nu_scale d) = Some (Fin k) \<and> x = v / k)"
    and "\<bar>x\<bar> < float_limit" "py_float (repr x) = Some (Fin x)" "int_of_string (repr x) = None"
  shows "last_wire e1 = repr x" "number_apply d (last_wire e1) e1 = (None, mirror (Float_Value (Fin v)) e1)"
proof -
  have wire: "number_wire repr (nu_scale d) (Fin v) = repr x"
    using assms(3,4) by (auto simp: number_wire_def zero_scale_def fin_def)
  then show w: "last_wire e1 = repr x"
    using assms(1) unfolding number_set_value_def by (drule_tac command_sent) (simp add: last_wire_def)
  have "repr x \<noteq> []" using assms(5) py_float_Nil by auto
  moreover have "apply_scale (nu_scale d) (Float_Value (Fin x)) = Inr (Float_Value (Fin v))"
    using assms(2,3) by (auto simp: apply_scale_def fin_def)
  ultimately have "number_value d (repr x) = Inr (Float_Value (Fin v))"
    using assms(5,6) by (simp add: number_value_def default_transform_in_def)
  then show "number_apply d (last_wire e1) e1 = (None, mirror (Float_Value (Fin v)) e1)" using w by (simp add: number_apply_def)
qed

definition sample_number :: number_descriptor where
  "sample_number = (number ''k'' ''Voltage'' None True (attr ''1.2.3'') 0 10 1 JNull)\<lparr>nu_scale := JFloat ''0.001''\<rparr>"

lemma float_texts: "py_float ''0.001'' = Some (Fin (1 / 1000))" "py_float ''3200.0'' = Some (Fin 3200)" "int_of_string ''3200.0'' = None"
proof -
  have l: "\<not> float_limit \<le> 1 / 1000" "\<not> float_limit \<le> 3200" by (simp_all add: float_limit_def)
  have s: "lower (strip ''0.001'') = ''0.001''" "lower (strip ''3200.0'') = ''3200.0''" by code_simp+
  have "digits_value ''0'' = Some 0" "digits_value ''001'' = Some 1" "digits_value ''3200'' = Some 3200" by code_simp+
  then have "float_number ''0.001'' = Some (1 / 1000)" "float_number ''3200.0'' = Some 3200"
    by (simp_all add: float_number_def float_mantissa_def part_number_def)
  then show "py_float ''0.001'' = Some (Fin (1 / 1000))" "py_float ''3200.0'' = Some (Fin 3200)"
    using l by (simp_all add: py_float_def s signed_def fin_def)
  show "int_of_string ''3200.0'' = None" by code_simp
qed

theorem number_echo_witness:
  "\<exists>e1. number_set_value (\<lambda>r. ''3200.0'') sample_number True (Fin (16 / 5)) (new_ent Nothing) = (True, e1) \<and>
     last_wire e1 = ''3200.0'' \<and> number_apply sample_number ''3200.0'' e1 = (None, mirror (Float_Value (Fin (16 / 5))) e1)"
proof -
  let ?e = "snd (number_set_value (\<lambda>r. ''3200.0'') sample_number True (Fin (16 / 5)) (new_ent Nothing))"
  have e: "number_set_value (\<lambda>r. ''3200.0'') sample_number True (Fin (16 / 5)) (new_ent Nothing) = (True, ?e)"
    by (simp add: number_set_value_def command_def Let_def)
  have "scale_factor (nu_scale sample_number) = Some (Fin (1 / 1000))" by (simp add: sample_number_def float_texts)
  then have k: "\<exists>k. k \<noteq> 0 \<and> scale_factor (nu_scale sample_number) = Some (Fin k) \<and> 3200 = (16 / 5) / k"
    by (intro exI [of _ "1 / 1000"]) simp
  have l: "\<bar>16 / 5\<bar> < float_limit" "\<bar>3200\<bar> < float_limit" by (simp_all add: float_limit_def)
  have "last_wire ?e = ''3200.0'' \<and> number_apply sample_number (last_wire ?e) ?e = (None, mirror (Float_Value (Fin (16 / 5))) ?e)"
    using number_echo [OF e l(1) disjI2 [OF k] l(2)] float_texts by simp
  then show ?thesis using e by metis
qed

section \<open>Events\<close>

text \<open>An event descriptor whose entity can be made, and that has a type for every value its trait declares.\<close>

definition sound_event :: "event_descriptor \<Rightarrow> bool" where
  "sound_event d = (\<not> misconfigured d \<and> (ev_types d = [''Detected''] \<or> set (map snd (event_enum d)) \<subseteq> set (ev_types d)))"

lemma event_type_declared: "event_type_of d raw = Some t \<Longrightarrow> t \<in> set (ev_types d)"
  by (auto simp: event_type_of_def split: if_splits option.splits)

lemma event_fires:
  assumes "sound_event d" "ev_types d \<noteq> [''Detected'']" "dget (event_enum d) raw = Some t"
  shows "event_type_of d raw = Some t"
proof -
  have m: "(raw, t) \<in> set (event_enum d)" using map_of_SomeD [OF assms(3)] .
  then have "t \<in> snd ` set (event_enum d)" by (rule image_eqI [rotated]) simp
  then have "t \<in> set (ev_types d)" using assms(1,2) by (auto simp: sound_event_def)
  then show ?thesis using m assms(3) by (auto simp: event_type_of_def)
qed

end
