(* ===== verification/Binary_Sensors.thy ===== *)
theory Binary_Sensors
  imports Entities Setup
begin

text \<open>
  \<open>binary_sensor.py\<close> with the timer that clears a momentary sensor, as a step relation over reports, the clock and
  the timers of the event loop, and the sensor of the hub's forwarding beside the watchdog of \<open>__init__.py\<close>.
  The loop runs a timer when it is due, before time passes further.
\<close>

section \<open>The entity and the loop\<close>

record bin = "bool ent" +
  handle :: "nat option"
  timers :: "(nat \<times> rat) list"
  clock :: rat
  made :: nat
  gone :: bool
  last_on :: rat

text \<open>\<open>made\<close> numbers the timers; \<open>last_on\<close> is the time of the last report that turned the sensor on.\<close>

definition new_bin :: "rat \<Rightarrow> bin" where
  "new_bin t = \<lparr>native = False, in_hass = False, shown = [], sent = [], handle = None, timers = [], clock = t, made = 0,
     gone = False, last_on = t\<rparr>"

definition cancel_auto_clear :: "bin \<Rightarrow> bin" where
  "cancel_auto_clear s = s\<lparr>handle := None, timers := (case handle s of None \<Rightarrow> timers s | Some i \<Rightarrow> filter (\<lambda>(j, due). j \<noteq> i) (timers s))\<rparr>"

text \<open>None: \<open>call_later\<close> rejects a delay that is no number.\<close>

definition reschedule_auto_clear :: "json \<Rightarrow> bin \<Rightarrow> bin option" where
  "reschedule_auto_clear delay s0 =
     (let s = cancel_auto_clear s0
      in if \<not> in_hass s \<or> \<not> truthy delay then Some s
         else case num_value delay of
                None \<Rightarrow> None
              | Some r \<Rightarrow> Some (s\<lparr>handle := Some (made s), timers := timers s @ [(made s, clock s + r)], made := made s + 1\<rparr>))"

definition is_on_value :: "binary_sensor_descriptor \<Rightarrow> string \<Rightarrow> bool" where
  "is_on_value d raw = (if b_on_any_value d then raw \<noteq> [] \<and> raw \<noteq> ''0'' else raw \<in> set (b_on_values d))"

text \<open>\<open>apply_value\<close>, with the delay the device resolves; whether it returned.\<close>

definition bin_apply :: "binary_sensor_descriptor \<Rightarrow> json \<Rightarrow> string \<Rightarrow> bin \<Rightarrow> bool \<times> bin" where
  "bin_apply d delay raw s0 =
     (let on = is_on_value d raw; s = s0\<lparr>native := on, last_on := (if on then clock s0 else last_on s0)\<rparr>
      in if on \<and> truthy delay then
           (case reschedule_auto_clear delay s of
              None \<Rightarrow> (False, cancel_auto_clear s)
            | Some s \<Rightarrow> (True, write_state_if_added s))
         else (True, write_state_if_added (if on then s else cancel_auto_clear s)))"

text \<open>The loop runs timer \<open>i\<close>.\<close>

definition auto_clear :: "nat \<Rightarrow> bin \<Rightarrow> bin" where
  "auto_clear i s0 =
     (let s = s0\<lparr>timers := filter (\<lambda>(j, due). j \<noteq> i) (timers s0), handle := None\<rparr>
      in if \<not> native s then s else write_state_if_added (s\<lparr>native := False\<rparr>))"

text \<open>
  \<open>async_added_to_hass\<close>: the last state (None: not known) of a stateful sensor is restored, then registering the entity
  replays the seeds, of a stateful sensor only. Home Assistant writes the state afterwards.
\<close>

definition bin_added :: "binary_sensor_descriptor \<Rightarrow> json \<Rightarrow> bool option \<Rightarrow> string list \<Rightarrow> bin \<Rightarrow> bin" where
  "bin_added d delay restored seeds s0 =
     (let stateful = should_replay_seed (BinarySensorDescriptor d);
          s1 = s0\<lparr>in_hass := True\<rparr>;
          s2 = (if stateful \<and> restored = Some True then s1\<lparr>native := True\<rparr> else s1);
          s3 = (if stateful then fold (\<lambda>raw s. snd (bin_apply d delay raw s)) seeds s2 else s2)
      in write_state_if_added s3)"

definition bin_removed :: "bin \<Rightarrow> bin" where
  "bin_removed s = (cancel_auto_clear s)\<lparr>gone := True\<rparr>"

inductive bin_step :: "binary_sensor_descriptor \<Rightarrow> json set \<Rightarrow> bin \<Rightarrow> bin \<Rightarrow> bool" for d delays where
  report: "in_hass s \<Longrightarrow> \<not> gone s \<Longrightarrow> delay \<in> delays \<Longrightarrow> bin_step d delays s (snd (bin_apply d delay raw s))"
| expire: "(i, due) \<in> set (timers s) \<Longrightarrow> due \<le> clock s \<Longrightarrow> bin_step d delays s (auto_clear i s)"
| pass: "clock s \<le> t \<Longrightarrow> \<forall>(i, due) \<in> set (timers s). t \<le> due \<Longrightarrow> bin_step d delays s (s\<lparr>clock := t\<rparr>)"
| add: "\<not> in_hass s \<Longrightarrow> delay \<in> delays \<Longrightarrow> bin_step d delays s (bin_added d delay restored seeds s)"
| remove: "in_hass s \<Longrightarrow> \<not> gone s \<Longrightarrow> bin_step d delays s (bin_removed s)"

abbreviation bin_run :: "binary_sensor_descriptor \<Rightarrow> json set \<Rightarrow> bin \<Rightarrow> bin \<Rightarrow> bool" where
  "bin_run d delays \<equiv> (bin_step d delays)\<^sup>*\<^sup>*"

section \<open>A momentary sensor clears\<close>

definition delays_up_to :: "rat \<Rightarrow> json set \<Rightarrow> bool" where
  "delays_up_to m delays = (\<forall>v \<in> delays. truthy v \<and> (\<exists>r. num_value v = Some r \<and> 0 \<le> r \<and> r \<le> m))"

definition armed :: "rat \<Rightarrow> bin \<Rightarrow> bool" where
  "armed m s = (\<exists>i due. handle s = Some i \<and> timers s = [(i, due)] \<and> clock s \<le> due \<and> due \<le> last_on s + m)"

definition bin_ok :: "rat \<Rightarrow> bin \<Rightarrow> bool" where
  "bin_ok m s =
     (if \<not> gone s \<and> native s then in_hass s \<and> armed m s else handle s = None \<and> timers s = [])"

lemma write_state_fields [simp]:
  "handle (write_state_if_added s) = handle s" "timers (write_state_if_added s) = timers s" "clock (write_state_if_added s) = clock s"
  "made (write_state_if_added s) = made s" "gone (write_state_if_added s) = gone s" "last_on (write_state_if_added s) = last_on s"
  "native (write_state_if_added s) = native s" "in_hass (write_state_if_added s) = in_hass s"
  by (simp_all add: write_state_if_added_def)

lemma bin_ok_write [simp]: "bin_ok m (write_state_if_added s) = bin_ok m s"
  by (simp add: bin_ok_def armed_def)

lemma bin_ok_cancel: "bin_ok m s \<Longrightarrow> handle (cancel_auto_clear s) = None \<and> timers (cancel_auto_clear s) = []"
  by (auto simp: bin_ok_def armed_def cancel_auto_clear_def split: if_splits)

lemma bin_ok_apply:
  assumes "bin_ok m s" "in_hass s" "\<not> gone s" "delays_up_to m delays" "delay \<in> delays"
  shows "bin_ok m (snd (bin_apply d delay raw s)) \<and> in_hass (snd (bin_apply d delay raw s)) \<and> gone (snd (bin_apply d delay raw s)) = gone s"
proof -
  obtain r where r: "truthy delay" "num_value delay = Some r" "0 \<le> r" "r \<le> m" using assms(4,5) by (auto simp: delays_up_to_def)
  define s1 where "s1 = s\<lparr>native := is_on_value d raw, last_on := (if is_on_value d raw then clock s else last_on s)\<rparr>"
  have c: "handle (cancel_auto_clear s1) = None" "timers (cancel_auto_clear s1) = []"
    using bin_ok_cancel [OF assms(1)] by (simp_all add: s1_def cancel_auto_clear_def split: option.split_asm)
  have keep: "native (cancel_auto_clear s1) = native s1" "in_hass (cancel_auto_clear s1) = in_hass s1" "gone (cancel_auto_clear s1) = gone s1"
    "clock (cancel_auto_clear s1) = clock s1" "last_on (cancel_auto_clear s1) = last_on s1" by (simp_all add: cancel_auto_clear_def)
  show ?thesis
  proof (cases "is_on_value d raw")
    case True
    then show ?thesis using r c keep assms(2,3)
      by (simp add: bin_apply_def Let_def reschedule_auto_clear_def bin_ok_def armed_def flip: s1_def) (simp add: s1_def)
  next
    case False
    then show ?thesis using c keep assms(2,3)
      by (simp add: bin_apply_def Let_def bin_ok_def flip: s1_def) (simp add: s1_def)
  qed
qed

lemma bin_ok_step:
  assumes "bin_step d delays s s'" "bin_ok m s" "delays_up_to m delays" "truthy (b_auto_clear d)" "gone s \<longrightarrow> in_hass s"
  shows "bin_ok m s' \<and> (gone s' \<longrightarrow> in_hass s')"
  using assms
proof (induction rule: bin_step.induct)
  case (report s delay raw)
  then show ?case using bin_ok_apply [of m s delays delay d raw] by simp
next
  case (expire i due s)
  then have "timers s \<noteq> []" by auto
  then have a: "armed m s" "native s" "\<not> gone s" "in_hass s" using expire.prems(1) by (auto simp: bin_ok_def split: if_splits)
  then have "i = the (handle s)" using expire.hyps(1) by (auto simp: armed_def)
  then show ?case using a by (auto simp: auto_clear_def Let_def bin_ok_def armed_def)
next
  case (pass s t)
  then show ?case by (auto simp: bin_ok_def armed_def split: if_splits)
next
  case (add s delay restored seeds)
  have "\<not> should_replay_seed (BinarySensorDescriptor d)" using add.prems(3) by (simp add: should_replay_seed_def)
  then show ?case using add by (auto simp: bin_added_def Let_def bin_ok_def armed_def split: if_splits)
next
  case (remove s)
  then show ?case using bin_ok_cancel [OF remove.prems(1)] by (simp add: bin_removed_def bin_ok_def cancel_auto_clear_def)
qed

text \<open>
  C12 [momentary_clears]
  A momentary sensor, whatever is reported, restored, seeded or timed out and whenever it is removed: while it is
  there it is on exactly when one timer is running, the timer of its handle, due at most the largest delay after
  the last report that turned it on; so it is never on longer than that, and when the timer runs it is off and
  Home Assistant is told. No timer is left once it is off or removed.
\<close>

theorem momentary_clears:
  assumes "bin_run d delays (new_bin t) s" "delays_up_to m delays" "truthy (b_auto_clear d)"
  shows "if \<not> gone s \<and> native s
         then clock s \<le> last_on s + m \<and>
              (\<exists>i due. timers s = [(i, due)] \<and> handle s = Some i \<and> due \<le> last_on s + m \<and>
                 timers (auto_clear i s) = [] \<and> shown (auto_clear i s) = shown s @ [False])
         else timers s = []"
proof -
  have "bin_ok m s \<and> (gone s \<longrightarrow> in_hass s)" using assms(1)
  proof (induction rule: rtranclp_induct)
    case base
    show ?case by (simp add: new_bin_def bin_ok_def)
  next
    case (step y z)
    then show ?case using bin_ok_step [OF step.hyps(2) _ assms(2,3)] by blast
  qed
  then show ?thesis
    by (auto simp: bin_ok_def armed_def auto_clear_def Let_def write_state_if_added_def split: if_splits)
qed

definition sample_motion :: binary_sensor_descriptor where
  "sample_motion = (binary_sensor ''k'' ''Motion'' None True (new_trait ''1.2.3'' ''Motion''))\<lparr>b_auto_clear := JInt 60\<rparr>"

theorem momentary_clears_witness:
  "\<exists>s. bin_run sample_motion {JInt 60} (new_bin 0) s \<and> native s \<and> \<not> gone s \<and> clock s \<le> last_on s + 60"
proof -
  let ?d = sample_motion
  let ?s1 = "bin_added ?d (JInt 60) None [] (new_bin 0)" 
  let ?s2 = "snd (bin_apply ?d (JInt 60) ''1'' ?s1)"
  have "bin_step ?d {JInt 60} (new_bin 0) ?s1" by (rule bin_step.add) (simp_all add: new_bin_def)
  moreover have "in_hass ?s1 \<and> \<not> gone ?s1" by (simp add: bin_added_def new_bin_def should_replay_seed_def sample_motion_def binary_sensor_def Let_def)
  then have "bin_step ?d {JInt 60} ?s1 ?s2" by (intro bin_step.report) simp_all
  ultimately have r: "bin_run ?d {JInt 60} (new_bin 0) ?s2" by (meson converse_rtranclp_into_rtranclp r_into_rtranclp)
  have n: "native ?s2 \<and> \<not> gone ?s2"
    by (simp add: bin_apply_def bin_added_def new_bin_def should_replay_seed_def sample_motion_def binary_sensor_def Let_def
        is_on_value_def reschedule_auto_clear_def cancel_auto_clear_def)
  have "delays_up_to 60 {JInt 60}" "truthy (b_auto_clear ?d)" by (simp_all add: delays_up_to_def sample_motion_def)
  then show ?thesis using momentary_clears [OF r, of 60] r n by auto
qed

section \<open>The forwarding sensor\<close>

definition health_available :: "bool \<Rightarrow> bool" where
  "health_available conn = conn"

definition health_is_on :: "bool \<Rightarrow> nat \<Rightarrow> rat \<Rightarrow> bool" where
  "health_is_on conn topology silent = (conn \<and> 0 < topology \<and> silent < PUSH_STALL_TTL_SECONDS)"

text \<open>
    The sensor is never on while the watchdog sees a stall. Of a connected hub with a topology it is off exactly
  when the watchdog sees a stall, or at the very second of the limit; it is also off, without a stall, whenever the
  hub is disconnected or lists no device, which is the rule for a standalone device.
\<close>

theorem forwarding_health:
  "\<not> (health_is_on conn n silent \<and> push_appears_stalled conn n silent PUSH_STALL_TTL_SECONDS) \<and>
   (health_available conn \<and> 0 < n \<longrightarrow>
      (\<not> health_is_on conn n silent \<longleftrightarrow>
         push_appears_stalled conn n silent PUSH_STALL_TTL_SECONDS \<or> silent = PUSH_STALL_TTL_SECONDS)) \<and>
   (\<not> conn \<or> n = 0 \<longrightarrow> \<not> health_is_on conn n silent \<and> \<not> push_appears_stalled conn n silent PUSH_STALL_TTL_SECONDS)"
  by (auto simp: health_is_on_def health_available_def push_appears_stalled_def)

theorem forwarding_health_witness:
  "\<not> health_is_on True 2 301 \<and> push_appears_stalled True 2 301 PUSH_STALL_TTL_SECONDS"
  using forwarding_health [of True 2 301] by (auto simp: push_appears_stalled_def PUSH_STALL_TTL_SECONDS_def health_available_def)

end
