(* ===== verification/Lights.thy ===== *)
theory Lights
  imports Entities Device_Seeds
begin

text \<open>
  \<open>light.py\<close>: one light out of its power, brightness, colour temperature and xy colour components. The cloud's
  activation of a dynamic effect is a parameter; its outcome is success, an error the light wraps, or another one.
\<close>

section \<open>The state of a light\<close>

datatype color_mode = ONOFF | BRIGHTNESS | COLOR_TEMP | XY

record light_values =
  lv_on :: "bool option"
  lv_brightness :: "int option"
  lv_kelvin :: "int option"
  lv_xy :: "(rat \<times> rat) option"
  lv_mode :: color_mode
  lv_effect :: "string option"

definition supported_modes :: "light_descriptor \<Rightarrow> color_mode set" where
  "supported_modes d =
     (let m1 = (if li_color_xy d \<noteq> None then {XY} else {}) \<union> (if li_color_temp d \<noteq> None then {COLOR_TEMP} else {});
          m2 = (if m1 = {} \<and> li_brightness d \<noteq> None then {BRIGHTNESS} else m1)
      in if m2 = {} then {ONOFF} else m2)"

definition default_mode :: "light_descriptor \<Rightarrow> color_mode" where
  "default_mode d =
     (if COLOR_TEMP \<in> supported_modes d then COLOR_TEMP
      else if XY \<in> supported_modes d then XY
      else if BRIGHTNESS \<in> supported_modes d then BRIGHTNESS
      else ONOFF)"

definition new_light :: "light_descriptor \<Rightarrow> light_values ent" where
  "new_light d = new_ent \<lparr>lv_on = None, lv_brightness = None, lv_kelvin = None, lv_xy = None, lv_mode = default_mode d, lv_effect = None\<rparr>"

section \<open>Reports\<close>

text \<open>\<open>round(f)\<close>, an int.\<close>

fun py_round :: "pyfloat \<Rightarrow> entity_error + int" where
  "py_round (Fin r) = Inr (round_half_even r)"
| "py_round (Infinite n) = Inl Too_Large"
| "py_round Not_A_Number = Inl Bad_Value"

definition read_float :: "string \<Rightarrow> entity_error + pyfloat" where
  "read_float raw = (case py_float raw of None \<Rightarrow> Inl Bad_Value | Some f \<Rightarrow> Inr f)"

definition brightness_of_wire :: "string \<Rightarrow> entity_error + int" where
  "brightness_of_wire raw =
     (case read_float raw of Inl e \<Rightarrow> Inl e | Inr f \<Rightarrow> py_round (float_div (float_times f (Fin 255)) (Fin 100)))"

definition kelvin_of_wire :: "bool \<Rightarrow> string \<Rightarrow> entity_error + int" where
  "kelvin_of_wire mired raw =
     (case read_float raw of
        Inl e \<Rightarrow> Inl e
      | Inr f \<Rightarrow>
          if \<not> mired then py_round f
          else if f = Fin 0 then Inl By_Zero
          else py_round (float_div (Fin 1000000) f))"

definition xy_of_wire :: "string \<Rightarrow> (rat \<times> rat) option" where
  "xy_of_wire raw =
     (case int_of_string raw of
        None \<Rightarrow> None
      | Some packed \<Rightarrow> Some (of_int (drop_bit 16 packed AND 0xFFFF) / 65535, of_int (packed AND 0xFFFF) / 65535))"

definition light_value :: "light_descriptor \<Rightarrow> string \<Rightarrow> string option \<Rightarrow> light_values \<Rightarrow> entity_error + light_values" where
  "light_value d raw component v =
     (if component = Some ''power'' then Inr (v\<lparr>lv_on := Some (raw = ''1'')\<rparr>)
      else if component = Some ''brightness'' then
        (case brightness_of_wire raw of Inl e \<Rightarrow> Inl e | Inr b \<Rightarrow> Inr (v\<lparr>lv_brightness := Some b\<rparr>))
      else if component = Some ''color_temp'' then
        (case kelvin_of_wire (li_mired d) raw of Inl e \<Rightarrow> Inl e | Inr k \<Rightarrow> Inr (v\<lparr>lv_kelvin := Some k, lv_mode := COLOR_TEMP\<rparr>))
      else if component = Some ''color_xy'' then
        (case xy_of_wire raw of None \<Rightarrow> Inl Bad_Value | Some p \<Rightarrow> Inr (v\<lparr>lv_xy := Some p, lv_mode := XY\<rparr>))
      else Inr v)"

definition light_apply :: "light_descriptor \<Rightarrow> string \<Rightarrow> string option \<Rightarrow> light_values ent \<Rightarrow> entity_error option \<times> light_values ent" where
  "light_apply d raw component e =
     (if raw = [] then (None, e)
      else case light_value d raw component (native e) of Inl err \<Rightarrow> (Some err, e) | Inr v \<Rightarrow> (None, mirror v e))"

section \<open>Commands\<close>

text \<open>\<open>_color_temp_to_wire\<close>; zero kelvin divides by zero.\<close>

definition color_temp_to_wire :: "light_descriptor \<Rightarrow> int \<Rightarrow> entity_error + string" where
  "color_temp_to_wire d kelvin =
     (if li_mired d then (if kelvin = 0 then Inl By_Zero else Inr (int_text (round_half_even (1000000 / of_int kelvin))))
      else Inr (int_text kelvin))"

definition brightness_to_wire :: "int \<Rightarrow> string" where
  "brightness_to_wire b = int_text (round_half_even (of_int b * 100 / 255))"

definition xy_to_wire :: "rat \<times> rat \<Rightarrow> string" where
  "xy_to_wire xy =
     int_text (push_bit 16 (round_half_even (fst xy * 65535) AND 0xFFFF) OR (round_half_even (snd xy * 65535) AND 0xFFFF))"

record turn_on_args =
  ta_effect :: "string option"
  ta_brightness :: "int option"
  ta_kelvin :: "int option"
  ta_xy :: "(rat \<times> rat) option"

type_synonym writes = "(attr_spec, string) dict"

definition build_turn_on_writes :: "light_descriptor \<Rightarrow> turn_on_args \<Rightarrow> entity_error + writes" where
  "build_turn_on_writes d k =
     (let w1 = [(li_power_attr d, ''1'')];
          w2 = (case (ta_brightness k, li_brightness_attr d) of (Some b, Some a) \<Rightarrow> dset a (brightness_to_wire b) w1 | _ \<Rightarrow> w1)
      in case (case (ta_kelvin k, li_color_temp_attr d) of
                 (Some ct, Some a) \<Rightarrow> (case color_temp_to_wire d ct of Inl e \<Rightarrow> Inl e | Inr t \<Rightarrow> Inr (dset a t w2))
               | _ \<Rightarrow> Inr w2) of
           Inl e \<Rightarrow> Inl e
         | Inr w3 \<Rightarrow> Inr (case (ta_xy k, li_color_xy_attr d) of (Some xy, Some a) \<Rightarrow> dset a (xy_to_wire xy) w3 | _ \<Rightarrow> w3))"

text \<open>The cloud at an activation: no client, a success, an error that is wrapped, any other exception.\<close>

datatype cloud_reply = No_Client | Activated | Unreachable | Fails

datatype light_error = Ha_Error | Entity_Error entity_error | Write_Error | Cloud_Error

text \<open>The last effect of a name counts.\<close>

definition effect_named :: "light_descriptor \<Rightarrow> string \<Rightarrow> effect option" where
  "effect_named d n = find (\<lambda>e. ef_name e = n) (rev (li_effects d))"

definition static_writes :: "light_descriptor \<Rightarrow> effect \<Rightarrow> entity_error + writes" where
  "static_writes d ef =
     (let w1 = [(li_power_attr d, ''1'')]
      in case (case (ef_color_temp_kelvin ef, li_color_temp_attr d) of
                 (Some ct, Some a) \<Rightarrow> (case color_temp_to_wire d ct of Inl e \<Rightarrow> Inl e | Inr t \<Rightarrow> Inr (dset a t w1))
               | _ \<Rightarrow> Inr w1) of
           Inl e \<Rightarrow> Inl e
         | Inr w2 \<Rightarrow> Inr (case (ef_brightness_pct ef, li_brightness_attr d) of (Some p, Some a) \<Rightarrow> dset a (int_text p) w2 | _ \<Rightarrow> w2))"

definition set_effect :: "string \<Rightarrow> light_values ent \<Rightarrow> light_values ent" where
  "set_effect n e = e\<lparr>native := (native e)\<lparr>lv_effect := Some n\<rparr>\<rparr>"

definition send_writes :: "bool \<Rightarrow> writes \<Rightarrow> light_values ent \<Rightarrow> light_error option \<times> light_values ent" where
  "send_writes ok ws e = (if ok then (None, e\<lparr>sent := sent e @ [ws]\<rparr>) else (Some Write_Error, e))"

definition apply_effect :: "light_descriptor \<Rightarrow> bool \<Rightarrow> cloud_reply \<Rightarrow> string \<Rightarrow> light_values ent \<Rightarrow> light_error option \<times> light_values ent" where
  "apply_effect d ok cloud n e =
     (case effect_named d n of
        None \<Rightarrow> (Some Ha_Error, e)
      | Some ef \<Rightarrow>
          if ef_seq_id ef \<noteq> None then
            (if cloud = No_Client then (Some Ha_Error, e)
             else case send_writes ok [(li_power_attr d, ''1'')] e of
                    (Some err, e) \<Rightarrow> (Some err, e)
                  | (None, e) \<Rightarrow>
                      (case cloud of
                         Activated \<Rightarrow> (None, set_effect n e)
                       | Unreachable \<Rightarrow> (Some Ha_Error, e)
                       | _ \<Rightarrow> (Some Cloud_Error, e)))
          else case static_writes d ef of
                 Inl err \<Rightarrow> (Some (Entity_Error err), e)
               | Inr ws \<Rightarrow>
                   (case send_writes ok ws e of (Some err, e) \<Rightarrow> (Some err, e) | (None, e) \<Rightarrow> (None, set_effect n e)))"

definition turn_on :: "light_descriptor \<Rightarrow> bool \<Rightarrow> cloud_reply \<Rightarrow> turn_on_args \<Rightarrow> light_values ent \<Rightarrow> light_error option \<times> light_values ent" where
  "turn_on d ok cloud k e =
     (case ta_effect k of
        Some n \<Rightarrow> apply_effect d ok cloud n e
      | None \<Rightarrow>
          (case build_turn_on_writes d k of
             Inl err \<Rightarrow> (Some (Entity_Error err), e)
           | Inr ws \<Rightarrow> send_writes ok ws e))"

definition turn_off :: "light_descriptor \<Rightarrow> bool \<Rightarrow> light_values ent \<Rightarrow> light_error option \<times> light_values ent" where
  "turn_off d ok e = send_writes ok [(li_power_attr d, ''0'')] e"

section \<open>Round trips\<close>

lemma round_near: "\<bar>of_int (round_half_even r) - r\<bar> \<le> 1 / 2"
proof -
  have "of_int \<lfloor>r\<rfloor> \<le> r" "r < of_int \<lfloor>r\<rfloor> + 1" by linarith+
  then show ?thesis by (auto simp: round_half_even_def Let_def abs_le_iff)
qed

lemma round_unique: "\<bar>of_int n - r\<bar> < 1 / 2 \<Longrightarrow> round_half_even r = n"
proof -
  assume a: "\<bar>of_int n - r\<bar> < 1 / 2"
  then have "\<bar>of_int (round_half_even r) - of_int n :: rat\<bar> < 1" using round_near [of r] by linarith
  then have "\<bar>round_half_even r - n\<bar> < 1" by (metis of_int_abs of_int_diff of_int_less_1_iff)
  then show ?thesis by linarith
qed

lemma round_of_int [simp]: "round_half_even (of_int n) = n"
  by (rule round_unique) simp

lemma digits_plain: "list_all ascii_digit s \<Longrightarrow> strip s = s \<and> lower s = s \<and> signed s = (False, s) \<and> takeWhile (\<lambda>c. c \<noteq> CHR ''e'') s = s \<and>
    dropWhile (\<lambda>c. c \<noteq> CHR ''e'') s = [] \<and> takeWhile (\<lambda>c. c \<noteq> CHR ''.'') s = s \<and> dropWhile (\<lambda>c. c \<noteq> CHR ''.'') s = []"
proof -
  assume d: "list_all ascii_digit s"
  have sp: "\<not> py_space c" "c \<noteq> CHR ''-''" "c \<noteq> CHR ''+''" "c \<noteq> CHR ''e''" "c \<noteq> CHR ''.''" "lower_char c = c" if "ascii_digit c" for c
    using that by (auto simp: ascii_digit_def py_space_def char_code_def lower_char_def)
  have w: "dropWhile py_space t = t" if "list_all ascii_digit t" for t using that sp by (cases t) auto
  have "strip s = s" using w d by (simp add: strip_def list_all_rev)
  moreover have "lower s = s" using d sp unfolding lower_def by (intro map_idI) (auto simp: list_all_iff)
  moreover have "signed s = (False, s)" using d sp by (cases s) (auto simp: signed_def)
  moreover have "\<forall>c \<in> set s. c \<noteq> CHR ''e''" "\<forall>c \<in> set s. c \<noteq> CHR ''.''" using d sp by (auto simp: list_all_iff)
  ultimately show ?thesis by (simp add: takeWhile_eq_all_conv dropWhile_eq_Nil_conv)
qed

lemma py_float_nat_text: "py_float (nat_text n) = Some (fin (of_nat n))"
proof -
  note d = digits_plain [OF nat_text_digits [of n]]
  have c: "ascii_digit (hd (nat_text n))" using nat_text_digits [of n] by (cases "nat_text n") auto
  have "nat_text n \<noteq> ''inf'' \<and> nat_text n \<noteq> ''infinity'' \<and> nat_text n \<noteq> ''nan''"
    using c by (auto simp: ascii_digit_def char_code_def)
  then show ?thesis
    using d by (simp add: py_float_def float_number_def float_mantissa_def part_number_def digits_value_text
        del: takeWhile_eq_all_conv dropWhile_eq_Nil_conv)
qed

lemma fin_small: "\<bar>r\<bar> \<le> 10 ^ 12 \<Longrightarrow> fin r = Fin r"
proof -
  have "(10 :: rat) ^ 12 < float_limit" by (simp add: float_limit_def)
  then show "\<bar>r\<bar> \<le> 10 ^ 12 \<Longrightarrow> fin r = Fin r" by (simp add: fin_def)
qed

lemma int_text_nat [simp]: "int_text (int n) = nat_text n"
  by (simp add: int_text_def)

lemma brightness_of_percent: "p \<le> 100 \<Longrightarrow> brightness_of_wire (nat_text p) = Inr (round_half_even (of_nat p * 255 / 100))"
  by (simp add: brightness_of_wire_def read_float_def py_float_nat_text fin_small)

lemma percent_returns: "round_half_even (of_int (round_half_even (of_nat p * 255 / 100)) * 100 / 255) = int p"
proof (rule round_unique)
  define b :: rat where "b = of_int (round_half_even (of_nat p * 255 / 100))"
  have "\<bar>b - of_nat p * 255 / 100\<bar> \<le> 1 / 2" unfolding b_def by (rule round_near)
  then have "\<bar>of_nat p - b * 100 / 255\<bar> < 1 / 2" by linarith
  then show "\<bar>of_int (int p) - of_int (round_half_even (of_nat p * 255 / 100)) * 100 / 255 :: rat\<bar> < 1 / 2" by (simp add: b_def)
qed

lemma mired_returns:
  assumes "1 \<le> m" "m \<le> 999"
  shows "round_half_even (1000000 / of_int (round_half_even (1000000 / of_nat m))) = int m" "round_half_even (1000000 / of_nat m) \<noteq> 0"
proof -
  define k :: rat where "k = of_int (round_half_even (1000000 / of_nat m))"
  define r :: rat where "r = of_nat m"
  have r: "1 \<le> r" "r \<le> 999" using assms by (simp_all add: r_def)
  have k: "\<bar>k - 1000000 / r\<bar> \<le> 1 / 2" unfolding k_def r_def by (rule round_near)
  have "1000000 / r \<ge> 1000000 / 999" using r by (intro divide_left_mono) auto
  then have big: "1000 < k" using k by linarith
  then show "round_half_even (1000000 / of_nat m) \<noteq> 0" by (auto simp: k_def)
  have "r * k - 1000000 = r * (k - 1000000 / r)" using r by (simp add: right_diff_distrib)
  then have "\<bar>r * k - 1000000\<bar> = r * \<bar>k - 1000000 / r\<bar>" using r by (simp add: abs_mult)
  also have "\<dots> \<le> 999 * (1 / 2)" using r k by (intro mult_mono) auto
  finally have "\<bar>r * k - 1000000\<bar> < k / 2" using big by linarith
  then have "\<bar>r - 1000000 / k\<bar> < 1 / 2" using big by (simp add: field_simps abs_less_iff)
  then show "round_half_even (1000000 / of_int (round_half_even (1000000 / of_nat m))) = int m"
    unfolding k_def r_def by (intro round_unique) simp
qed

lemma packed_parts: "v < 2 ^ 32 \<Longrightarrow> push_bit 16 (drop_bit 16 (int v) AND 0xFFFF) OR (int v AND 0xFFFF) = int v"
proof -
  assume "v < 2 ^ 32"
  then have "drop_bit 16 (int v) < 2 ^ 16" by (simp add: drop_bit_eq_div)
  moreover have "(0xFFFF :: int) = mask 16" by (simp add: mask_eq_exp_minus_1)
  moreover have "0 \<le> drop_bit 16 (int v)" by (simp add: drop_bit_eq_div)
  ultimately have "drop_bit 16 (int v) AND 0xFFFF = drop_bit 16 (int v)"
    by (metis take_bit_eq_mask take_bit_int_eq_self)
  moreover have "int v AND 0xFFFF = take_bit 16 (int v)" using \<open>0xFFFF = mask 16\<close> by (simp add: take_bit_eq_mask)
  ultimately show ?thesis by (auto intro!: bit_eqI simp: bit_simps)
qed



text \<open>
    A level of Home Assistant that is set comes back, once the lamp reports the percentage it was sent, at most one
  step away. Level 1, the dimmest that is on, is sent as zero percent, below what the wire is said to carry; every
  higher level is sent as one to a hundred percent.
\<close>

theorem brightness_steps:
  assumes "0 \<le> b" "b \<le> 255"
  shows "\<exists>p. brightness_to_wire b = nat_text p \<and> p \<le> 100 \<and> (p = 0 \<longleftrightarrow> b \<le> 1) \<and>
     (\<exists>b'. brightness_of_wire (nat_text p) = Inr b' \<and> \<bar>b - b'\<bar> \<le> 1)"
proof -
  define r where "r = round_half_even (of_int b * 100 / 255)"
  have n: "\<bar>of_int r - of_int b * 100 / 255 :: rat\<bar> \<le> 1 / 2" unfolding r_def by (rule round_near)
  have b: "0 \<le> r" "r \<le> 100" unfolding r_def using assms round_half_even_bounds [of 0 "of_int b * 100 / 255" 100]
    by (simp_all add: field_simps)
  have z: "r = 0 \<longleftrightarrow> b \<le> 1"
  proof
    assume "r = 0"
    then have "of_int b * 100 / 255 \<le> (1 / 2 :: rat)" using n by simp
    then have "of_int b * 200 \<le> (255 :: rat)" by simp
    then have "b * 200 \<le> 255" by (metis of_int_le_iff of_int_mult of_int_numeral)
    then show "b \<le> 1" by simp
  next
    assume "b \<le> 1"
    then have "b = 0 \<or> b = 1" using assms by linarith
    then show "r = 0" unfolding r_def by (intro round_unique) auto
  qed
  define p where "p = nat r"
  have p: "r = int p" "p \<le> 100" using b by (simp_all add: p_def)
  define b' where "b' = round_half_even (of_nat p * 255 / 100)"
  have n': "\<bar>of_int b' - of_nat p * 255 / 100 :: rat\<bar> \<le> 1 / 2" unfolding b'_def by (rule round_near)
  have "\<bar>of_nat p - of_int b * 100 / 255 :: rat\<bar> \<le> 1 / 2" using n p(1) by simp
  then have "\<bar>of_int b - of_int b' :: rat\<bar> < 2" using n' by linarith
  then have "\<bar>b - b'\<bar> < 2" by (metis of_int_abs of_int_diff of_int_less_iff of_int_numeral)
  moreover have "brightness_to_wire b = nat_text p" using p(1) unfolding brightness_to_wire_def r_def [symmetric] by simp
  moreover have "brightness_of_wire (nat_text p) = Inr b'" using brightness_of_percent [OF p(2)] by (simp add: b'_def)
  ultimately show ?thesis using p z by (intro exI [of _ p]) auto
qed

theorem brightness_steps_witness:
  "brightness_to_wire 1 = nat_text 0"
  using brightness_steps [of 1] by auto

section \<open>The modes and the effect\<close>

lemma mode_components:
  "light_component_for_trait d p = Some ''color_temp'' \<Longrightarrow> li_color_temp d \<noteq> None"
  "light_component_for_trait d p = Some ''color_xy'' \<Longrightarrow> li_color_xy d \<noteq> None"
  by (auto simp: light_component_for_trait_def has_id_def split: if_splits option.splits)

text \<open>A call of \<open>apply_value\<close> that the device makes: routed by path, or replayed with the component of a path.\<close>

definition routed :: "light_descriptor \<Rightarrow> string option \<Rightarrow> bool" where
  "routed d c = ((\<exists>p. c = light_component_for_trait d p) \<or> (\<exists>p. (p, c) \<in> set (light_paths d)))"

lemma path_components:
  "(p, Some ''color_temp'') \<in> set (light_paths d) \<Longrightarrow> li_color_temp d \<noteq> None"
  "(p, Some ''color_xy'') \<in> set (light_paths d) \<Longrightarrow> li_color_xy d \<noteq> None"
  by (auto simp: light_paths_def trait_path_def dest: sym split: option.splits if_splits)

lemma routed_present:
  "routed d (Some ''color_temp'') \<Longrightarrow> li_color_temp d \<noteq> None" "routed d (Some ''color_xy'') \<Longrightarrow> li_color_xy d \<noteq> None"
  unfolding routed_def using mode_components [of d] path_components [of _ d] by metis+

lemma routed_modes:
  assumes "routed d c"
  shows "c = Some ''color_temp'' \<Longrightarrow> COLOR_TEMP \<in> supported_modes d" "c = Some ''color_xy'' \<Longrightarrow> XY \<in> supported_modes d"
  using routed_present [of d] assms by (auto simp: supported_modes_def)

datatype light_op =
    Apply string "string option"
  | Turn_On bool cloud_reply turn_on_args
  | Turn_Off bool

fun light_step :: "light_descriptor \<Rightarrow> light_op \<Rightarrow> light_values ent \<Rightarrow> light_values ent" where
  "light_step d (Apply raw c) e = snd (light_apply d raw c e)"
| "light_step d (Turn_On ok cloud k) e = snd (turn_on d ok cloud k e)"
| "light_step d (Turn_Off ok) e = snd (turn_off d ok e)"

lemma send_writes_native [simp]: "native (snd (send_writes ok ws e)) = native e"
  by (simp add: send_writes_def)

lemma send_writes_same: "send_writes ok ws e = (r, e') \<Longrightarrow> native e' = native e"
  by (auto simp: send_writes_def split: if_splits)

lemma effect_native: "native (snd (apply_effect d ok cloud n e)) \<in> {native e, (native e)\<lparr>lv_effect := Some n\<rparr>}"
  by (auto simp: apply_effect_def set_effect_def dest: send_writes_same split: option.split prod.split sum.split cloud_reply.split)

lemma turn_on_native: "\<exists>n. native (snd (turn_on d ok cloud k e)) \<in> {native e, (native e)\<lparr>lv_effect := n\<rparr>} \<and> (n = None \<longrightarrow> native (snd (turn_on d ok cloud k e)) = native e)"
proof (cases "ta_effect k")
  case None
  then show ?thesis by (auto simp: turn_on_def split: sum.split)
next
  case (Some n)
  then show ?thesis using effect_native [of d ok cloud n e] by (intro exI [of _ "Some n"]) (simp add: turn_on_def)
qed

lemma apply_native:
  assumes "routed d c"
  shows "lv_mode (native (snd (light_apply d raw c e))) \<in> insert (lv_mode (native e)) (supported_modes d)"
    "lv_effect (native (snd (light_apply d raw c e))) = lv_effect (native e)"
  using routed_modes [OF assms]
  by (auto simp: light_apply_def light_value_def split: sum.splits if_splits option.splits)

lemma step_native:
  assumes "case op of Apply raw c \<Rightarrow> routed d c | _ \<Rightarrow> True"
  shows "lv_mode (native (light_step d op e)) \<in> insert (lv_mode (native e)) (supported_modes d)"
    "lv_effect (native e) \<noteq> None \<Longrightarrow> lv_effect (native (light_step d op e)) \<noteq> None"
proof -
  have "lv_mode (native (light_step d op e)) \<in> insert (lv_mode (native e)) (supported_modes d) \<and>
     (lv_effect (native e) \<noteq> None \<longrightarrow> lv_effect (native (light_step d op e)) \<noteq> None)"
  proof (cases op)
    case (Apply raw c)
    then show ?thesis using apply_native [of d c raw e] assms by simp
  next
    case (Turn_On ok cloud k)
    then show ?thesis using turn_on_native [of d ok cloud k e] by auto
  qed (simp add: turn_off_def)
  then show "lv_mode (native (light_step d op e)) \<in> insert (lv_mode (native e)) (supported_modes d)"
    "lv_effect (native e) \<noteq> None \<Longrightarrow> lv_effect (native (light_step d op e)) \<noteq> None" by blast+
qed

lemma default_supported: "default_mode d \<in> supported_modes d"
  by (auto simp: default_mode_def supported_modes_def Let_def)

lemma light_contract_facts:
  assumes "\<forall>raw c. Apply raw c \<in> set ops \<longrightarrow> routed d c" "\<forall>raw c. Apply raw c \<in> set later \<longrightarrow> routed d c"
  shows "lv_mode (native (fold (light_step d) ops (new_light d))) \<in> supported_modes d"
    "lv_effect (native (fold (light_step d) ops (new_light d))) \<noteq> None \<Longrightarrow>
     lv_effect (native (fold (light_step d) later (fold (light_step d) ops (new_light d)))) \<noteq> None"
proof -
  have one: "case op of Apply raw c \<Rightarrow> routed d c | _ \<Rightarrow> True" if "\<forall>raw c. Apply raw c \<in> set xs \<longrightarrow> routed d c" "op \<in> set xs" for op xs
    using that by (cases op) auto
  have "lv_mode (native (fold (light_step d) xs e)) \<in> supported_modes d"
    if "lv_mode (native e) \<in> supported_modes d" "\<forall>op \<in> set xs. case op of Apply raw c \<Rightarrow> routed d c | _ \<Rightarrow> True" for e xs
    using that
  proof (induction xs arbitrary: e)
    case (Cons op xs)
    then have "lv_mode (native (light_step d op e)) \<in> supported_modes d" using step_native(1) [where d = d and op = op and e = e] by auto
    then show ?case using Cons by simp
  qed simp
  moreover have "lv_mode (native (new_light d)) \<in> supported_modes d" by (simp add: new_light_def new_ent_def default_supported)
  ultimately show "lv_mode (native (fold (light_step d) ops (new_light d))) \<in> supported_modes d"
    using one [OF assms(1)] by blast
  have "lv_effect (native (fold (light_step d) xs e)) \<noteq> None"
    if "lv_effect (native e) \<noteq> None" "\<forall>op \<in> set xs. case op of Apply raw c \<Rightarrow> routed d c | _ \<Rightarrow> True" for e xs
    using that
  proof (induction xs arbitrary: e)
    case (Cons op xs)
    then have "lv_effect (native (light_step d op e)) \<noteq> None" using step_native(2) [where d = d and op = op and e = e] by auto
    then show ?case using Cons by simp
  qed simp
  then show "lv_effect (native (fold (light_step d) ops (new_light d))) \<noteq> None \<Longrightarrow>
     lv_effect (native (fold (light_step d) later (fold (light_step d) ops (new_light d)))) \<noteq> None"
    using one [OF assms(2)] by blast
qed

text \<open>
  C28 [light_contract]
  After any reports the device routes to a light and any commands, its colour mode is one of the modes it says it
  supports. Once an effect was set, the light shows some effect for good: no report, no other colour and no
  turning off takes it away.
\<close>

theorem light_contract:
  assumes "\<forall>raw c. Apply raw c \<in> set ops \<longrightarrow> routed d c" "\<forall>raw c. Apply raw c \<in> set later \<longrightarrow> routed d c"
  shows "lv_mode (native (fold (light_step d) ops (new_light d))) \<in> supported_modes d \<and>
    (lv_effect (native (fold (light_step d) ops (new_light d))) \<noteq> None \<longrightarrow>
     lv_effect (native (fold (light_step d) later (fold (light_step d) ops (new_light d)))) \<noteq> None)"
  using light_contract_facts [OF assms] by blast

definition sample_light :: light_descriptor where
  "sample_light =
     \<lparr>d_key = ''k'', d_name = ''Lamp'', d_category = None, d_enabled = True, d_device_class = JNull, d_icon = JNull,
      li_power = new_trait ''4.1.85'' ''Power'', li_power_attr = attr ''4.1.85'',
      li_brightness = Some (new_trait ''14.1.85'' ''Level''), li_brightness_attr = Some (attr ''14.1.85''),
      li_color_temp = Some (new_trait ''14.2.85'' ''Temperature''), li_color_temp_attr = Some (attr ''14.2.85''),
      li_min_kelvin = Some 2700, li_max_kelvin = Some 6500, li_mired = True, li_color_xy = None, li_color_xy_attr = None,
      li_effects = [\<lparr>ef_name = ''Reading'', ef_seq_id = None, ef_color_temp_kelvin = Some 4000, ef_brightness_pct = Some 80\<rparr>]\<rparr>"

theorem light_contract_witness:
  "\<exists>ops. lv_effect (native (fold (light_step sample_light) ops (new_light sample_light))) = Some ''Reading'' \<and>
     lv_effect (native (fold (light_step sample_light) [Turn_Off True, Apply ''370'' (Some ''color_temp'')]
       (fold (light_step sample_light) ops (new_light sample_light)))) \<noteq> None"
proof -
  let ?ops = "[Turn_On True No_Client \<lparr>ta_effect = Some ''Reading'', ta_brightness = None, ta_kelvin = None, ta_xy = None\<rparr>]"
  have e: "lv_effect (native (fold (light_step sample_light) ?ops (new_light sample_light))) = Some ''Reading''"
    by (simp add: sample_light_def turn_on_def apply_effect_def effect_named_def static_writes_def color_temp_to_wire_def send_writes_def
        set_effect_def new_light_def new_ent_def Let_def)
  have r: "routed sample_light (Some ''color_temp'')"
    by (auto simp: routed_def light_paths_def trait_path_def sample_light_def new_trait_def)
  have "lv_effect (native (fold (light_step sample_light) [Turn_Off True, Apply ''370'' (Some ''color_temp'')]
       (fold (light_step sample_light) ?ops (new_light sample_light)))) \<noteq> None"
    using light_contract [of ?ops sample_light "[Turn_Off True, Apply ''370'' (Some ''color_temp'')]"] r e by simp
  then show ?thesis using e by blast
qed

end
