(* ===== verification/Camera_Device.thy ===== *)
theory Camera_Device
  imports Binary_Sensors Camera_Audio
begin

text \<open>
  \<open>device/camera/base.py\<close> and \<open>device/camera/number_entities.py\<close>: the delay after which a detection clears, the
  form's defaults out of the cloud, the camera's endpoint, its streams, and the service that plays a file, shared by
  all cameras. The files of go2rtc, the interpreter and the path of the bridge are parameters; a subentry's camera
  fields are texts, as the schema of the form makes them.
\<close>

section \<open>The clear delay\<close>

definition DEFAULT_DETECTION_CLEAR_DELAY_S :: rat where "DEFAULT_DETECTION_CLEAR_DELAY_S = 30"

text \<open>\<open>DetectionClearDelayNumber\<close>; adding it restores the number of the last run, if there was one.\<close>

definition new_delay :: "rat ent" where
  "new_delay = new_ent DEFAULT_DETECTION_CLEAR_DELAY_S"

definition delay_added :: "rat option \<Rightarrow> rat ent \<Rightarrow> rat ent" where
  "delay_added restored e = (case restored of None \<Rightarrow> e\<lparr>in_hass := True\<rparr> | Some r \<Rightarrow> e\<lparr>in_hass := True, native := r\<rparr>)"

definition delay_set :: "rat \<Rightarrow> rat ent \<Rightarrow> rat ent" where
  "delay_set v e = mirror v e"

record camera =
  cd_did :: string
  cd_delay :: "rat ent option"
  cd_stream :: "string option"
  cd_talk :: "talk option"
  cd_hass :: bool
  cd_endpoint :: "(string option \<times> string option \<times> string option) option"
  cd_channel :: int

text \<open>\<open>cd_endpoint\<close>: None until it is resolved; then address, user and password.\<close>

definition new_camera :: "string \<Rightarrow> camera" where
  "new_camera did = \<lparr>cd_did = did, cd_delay = None, cd_stream = None, cd_talk = None, cd_hass = False, cd_endpoint = None, cd_channel = 1\<rparr>"

definition auto_clears :: "descriptor \<Rightarrow> bool" where
  "auto_clears d = (case d of BinarySensorDescriptor b \<Rightarrow> truthy (b_auto_clear b) | _ \<Rightarrow> False)"

definition setup_extra_numbers :: "descriptor list \<Rightarrow> camera \<Rightarrow> rat ent list \<times> camera" where
  "setup_extra_numbers ds c =
     (if \<not> list_ex auto_clears ds then ([], c)
      else case cd_delay c of Some n \<Rightarrow> ([n], c) | None \<Rightarrow> ([new_delay], c\<lparr>cd_delay := Some new_delay\<rparr>))"

text \<open>The delay of any descriptor, in seconds; None: it does not clear by itself.\<close>

definition camera_auto_clear :: "camera \<Rightarrow> descriptor \<Rightarrow> rat option" where
  "camera_auto_clear c d =
     (case cd_delay c of
        Some n \<Rightarrow> Some (native n)
      | None \<Rightarrow> num_value (resolve_auto_clear_seconds d))"

section \<open>Defaults of the form\<close>

definition RTSP_URL_TRAIT_PATH :: string where "RTSP_URL_TRAIT_PATH = ''7.136.20368''"

definition rtsp_path :: "int \<Rightarrow> string" where
  "rtsp_path ep = int_text ep @ ''.136.20368''"

text \<open>The configured path, then one for every camera endpoint, each once.\<close>

definition synthetic_rtsp_candidates :: "string \<Rightarrow> endpoints \<Rightarrow> string list" where
  "synthetic_rtsp_candidates configured eps =
     fold (\<lambda>(ep, dt) cs. if dt \<noteq> Some ''Camera'' \<or> rtsp_path ep \<in> set cs then cs else cs @ [rtsp_path ep]) eps
       (if configured = [] then [] else [configured])"

fun extract_rtsp_value :: "json list \<Rightarrow> string list \<Rightarrow> (json \<times> string) option" where
  "extract_rtsp_value [] cands = None"
| "extract_rtsp_value (JObj d # es) cands =
     (case jget d ''path'' JNull of
        JStr p \<Rightarrow> if p \<in> set cands \<and> truthy (jget d ''value'' JNull) then Some (jget d ''value'' JNull, p) else extract_rtsp_value es cands
      | _ \<Rightarrow> extract_rtsp_value es cands)"
| "extract_rtsp_value (e # es) cands = extract_rtsp_value es cands"

text \<open>The text of a value that is no text holds no URL, and gives None like a text without one.\<close>

definition build_rtsp_prefill :: "json \<Rightarrow> rtsp_error + obj option" where
  "build_rtsp_prefill raw =
     (case parse_camera_rtsp_url raw of
        Inl e \<Rightarrow> Inl e
      | Inr None \<Rightarrow> Inr None
      | Inr (Some d) \<Rightarrow>
          if camera_ip d = [] then Inr None
          else Inr (Some ([(''camera_ip'', JStr (camera_ip d))] @
            (case username d of None \<Rightarrow> [] | Some u \<Rightarrow> if u = [] then [] else [(''rtsp_username'', JStr u)]) @
            (case password d of None \<Rightarrow> [] | Some p \<Rightarrow> if p = [] then [] else [(''rtsp_password'', JStr p)]))))"

definition prefill_candidates :: "string \<Rightarrow> string \<Rightarrow> registry \<Rightarrow> string list" where
  "prefill_candidates configured m r =
     filter (\<lambda>p. p \<in> set (dkeys (all_traits_for_model m r)) \<union> dropped_paths_for_model m r)
       (synthetic_rtsp_candidates configured (endpoints_for_model m r))"

text \<open>\<open>access\<close>: whether there is a coordinator with a cloud client; an error of the cloud is caught.\<close>

definition prefill_extras :: "env \<Rightarrow> bool \<Rightarrow> string \<Rightarrow> string \<Rightarrow> string \<Rightarrow> string \<Rightarrow> registry \<Rightarrow> client \<Rightarrow> (rtsp_error + obj option) \<times> client" where
  "prefill_extras E access tok configured did m r c =
     (let cands = prefill_candidates configured m r
      in if did = [] \<or> cands = [] \<or> \<not> access \<or> tok = [] then (Inr None, c)
         else case query_device_traits E tok did cands c of
                (Inl e, c) \<Rightarrow> (Inr None, c)
              | (Inr es, c) \<Rightarrow>
                  (case extract_rtsp_value es cands of
                     None \<Rightarrow> (Inr None, c)
                   | Some (raw, p) \<Rightarrow> (build_rtsp_prefill raw, c)))"

section \<open>The endpoint\<close>

record camera_fields =
  cf_ip :: string
  cf_user :: "string option"
  cf_password :: "string option"
  cf_channel :: json
  cf_self :: bool

text \<open>
  The camera fields of a subentry (an address that is not there is empty; no channel reads as 1); \<open>cf_self\<close>: it
  stands for the tunnel host itself. \<open>read\<close> is what the coordinator reads at the path, None when it raises or there
  is no coordinator.
\<close>

definition resolve_camera_endpoint :: "string \<Rightarrow> json option \<Rightarrow> camera_fields \<Rightarrow> rtsp_error + string option \<times> string option \<times> string option" where
  "resolve_camera_endpoint configured read f =
     (if cf_ip f \<noteq> [] then Inr (Some (cf_ip f), cf_user f, cf_password f)
      else if \<not> cf_self f \<or> configured = [] then Inr (None, None, None)
      else case read of
             None \<Rightarrow> Inr (None, None, None)
           | Some raw \<Rightarrow>
               (case parse_camera_rtsp_url raw of
                  Inl e \<Rightarrow> Inl e
                | Inr None \<Rightarrow> Inr (None, None, None)
                | Inr (Some d) \<Rightarrow> if camera_ip d = [] then Inr (None, None, None) else Inr (Some (camera_ip d), username d, password d)))"

definition ensure_camera_endpoint :: "string \<Rightarrow> json option \<Rightarrow> camera_fields \<Rightarrow> camera \<Rightarrow> (rtsp_error + unit) \<times> camera" where
  "ensure_camera_endpoint configured read f c =
     (if cd_endpoint c \<noteq> None then (Inr (), c)
      else case resolve_camera_endpoint configured read f of
             Inl e \<Rightarrow> (Inl e, c)
           | Inr ep \<Rightarrow> (Inr (), c\<lparr>cd_endpoint := Some ep, cd_channel := (case py_int (cf_channel f) of Some n \<Rightarrow> n | None \<Rightarrow> 1)\<rparr>))"

definition camera_address :: "camera \<Rightarrow> string option" where
  "camera_address c = (case cd_endpoint c of None \<Rightarrow> None | Some (ip, u, p) \<Rightarrow> ip)"

definition resolve_camera_ip :: "string \<Rightarrow> json option \<Rightarrow> camera_fields \<Rightarrow> camera \<Rightarrow> (rtsp_error + string option) \<times> camera" where
  "resolve_camera_ip configured read f c =
     (case ensure_camera_endpoint configured read f c of
        (Inl e, c) \<Rightarrow> (Inl e, c)
      | (Inr u, c) \<Rightarrow> (Inr (camera_address c), c))"

section \<open>Streams\<close>

definition CHANNELS :: "nat list" where "CHANNELS = [1, 2, 3]"

definition stream_name :: "string \<Rightarrow> string" where
  "stream_name ip = ''aqara_lanlink_'' @ map (\<lambda>ch. if ch = CHR ''.'' then CHR ''_'' else ch) ip"

definition ffmpeg_source :: "string \<Rightarrow> string" where
  "ffmpeg_source name = ''ffmpeg:'' @ name @ ''#video=copy#audio=opus#audio=copy''"

definition or_empty :: "string option \<Rightarrow> string" where
  "or_empty s = (case s of None \<Rightarrow> [] | Some t \<Rightarrow> t)"

datatype camera_error = Rtsp_Raises rtsp_error | Bad_Host

text \<open>
  The sources of the camera entities by channel. \<open>hass\<close>: python, script and the file of go2rtc; the file afterwards
  is the last component. The address is validated by every source.
\<close>

definition setup_camera :: "string \<Rightarrow> json option \<Rightarrow> camera_fields \<Rightarrow> (string \<times> string \<times> json option) option \<Rightarrow> camera \<Rightarrow>
    (camera_error + (nat \<times> string) list) \<times> camera \<times> json option" where
  "setup_camera configured read f hass c =
     (let yml = (case hass of None \<Rightarrow> None | Some (py, sc, y) \<Rightarrow> y)
      in case ensure_camera_endpoint configured read f c of
           (Inl e, c) \<Rightarrow> (Inl (Rtsp_Raises e), c, yml)
         | (Inr u, c) \<Rightarrow>
             (case cd_endpoint c of
                Some (Some ip, user, pwd) \<Rightarrow>
                  if ip = [] then (Inr [], c, yml)
                  else
                    (case map_opt (\<lambda>ch. map_option (\<lambda>s. (ch, s)) (build_rtsp_source ip (or_empty user) (or_empty pwd) ch)) CHANNELS of
                       None \<Rightarrow> (Inl Bad_Host, c, yml)
                     | Some cameras \<Rightarrow>
                         (case hass of
                            None \<Rightarrow> (Inr cameras, c, yml)
                          | Some (py, sc, y) \<Rightarrow>
                              (let c = c\<lparr>cd_stream := Some (stream_name ip)\<rparr>
                               in case (build_rtsp_source ip (or_empty user) (or_empty pwd) (nat (cd_channel c)), build_exec_source py sc ip) of
                                    (Some rtsp, Some exec) \<Rightarrow>
                                      (Inr cameras, c,
                                       case snd (register_stream y (stream_name ip) [rtsp, ffmpeg_source (stream_name ip), exec]) of
                                         None \<Rightarrow> y | Some v \<Rightarrow> Some v)
                                  | _ \<Rightarrow> (Inl Bad_Host, c, y))))
              | _ \<Rightarrow> (Inr [], c, yml)))"

section \<open>Setting up and unloading\<close>

text \<open>What the cameras share: their registry, whether the service is there, and the file of go2rtc.\<close>

record camera_hub =
  ch_registry :: "(string, nat) dict"
  ch_service :: bool
  ch_file :: "json option"

definition register_camera :: "nat \<Rightarrow> camera \<Rightarrow> camera_hub \<Rightarrow> camera_hub" where
  "register_camera i c h = h\<lparr>ch_registry := dset (cd_did c) i (ch_registry h), ch_service := True\<rparr>"

text \<open>\<open>async_setup\<close> of camera \<open>i\<close>; \<open>hass\<close>: there is a Home Assistant to register with. \<open>ts\<close> and \<open>sid\<close> number the session.\<close>

definition camera_setup :: "nat \<Rightarrow> string \<Rightarrow> json option \<Rightarrow> camera_fields \<Rightarrow> bool \<Rightarrow> nat \<Rightarrow> nat \<Rightarrow> camera \<Rightarrow> camera_hub \<Rightarrow>
    (rtsp_error + unit) \<times> camera \<times> camera_hub" where
  "camera_setup i configured read f hass ts sid c0 h =
     (case ensure_camera_endpoint configured read f (c0\<lparr>cd_hass := hass\<rparr>) of
        (Inl e, c) \<Rightarrow> (Inl e, c, h)
      | (Inr u, c) \<Rightarrow>
          (let c = c\<lparr>cd_talk := Some (new_talk ts sid)\<rparr>
           in (Inr (), c, if hass then register_camera i c h else h)))"

text \<open>An error of disconnecting or of removing the stream is caught.\<close>

definition camera_unload :: "camera \<Rightarrow> camera_hub \<Rightarrow> camera \<times> camera_hub" where
  "camera_unload c0 h =
     (let c = c0\<lparr>cd_talk := None\<rparr>
      in if \<not> cd_hass c then (c, h)
         else
           let yml = (case cd_stream c of
                         None \<Rightarrow> ch_file h
                       | Some n \<Rightarrow> if n = [] then ch_file h else (case remove_stream (ch_file h) n of None \<Rightarrow> ch_file h | Some v \<Rightarrow> Some v));
               registry = ddel (cd_did c) (ch_registry h)
           in (c\<lparr>cd_stream := (if cd_stream c = Some [] then cd_stream c else None), cd_hass := False\<rparr>,
               \<lparr>ch_registry = registry, ch_service = (registry \<noteq> [] \<and> ch_service h), ch_file = yml\<rparr>))"

section \<open>Playing a file\<close>

datatype play_error = Not_Allowed | No_Device_Id | Unknown_Device | No_Camera | Not_Initialised | No_Connection | Talk_Raises talk_error

text \<open>\<open>devices\<close>: the device registry, from ids to the identifiers of the device.\<close>

definition resolve_camera_for_call :: "(string \<Rightarrow> (string \<times> string) list option) \<Rightarrow> camera_hub \<Rightarrow> string \<Rightarrow> play_error + nat" where
  "resolve_camera_for_call devices h device_id =
     (if device_id = [] then Inl No_Device_Id
      else case devices device_id of
             None \<Rightarrow> Inl Unknown_Device
           | Some idents \<Rightarrow>
               (case List.map_filter (\<lambda>(domain, ident). if domain = ''aqara_lanlink'' then dget (ch_registry h) ident else None) idents of
                  [] \<Rightarrow> Inl No_Camera
                | i # _ \<Rightarrow> Inr i))"

text \<open>\<open>rest\<close>: what happens to the client while the sender sleeps after a frame.\<close>

fun send_aac_frames :: "bytes list \<Rightarrow> nat \<Rightarrow> talk_event list list \<Rightarrow> nat \<times> talk \<Rightarrow> nat \<times> talk" where
  "send_aac_frames [] samples rest s = s"
| "send_aac_frames (f # fs) samples rest s =
     (if \<not> t_connected (snd s) then s
      else send_aac_frames fs (samples + 1024) (tl rest)
             (fold talk_step (case rest of [] \<Rightarrow> [] | es # _ \<Rightarrow> es) (talk_step (Talk_Frame f samples) s)))"

definition send_aac_file :: "bytes \<Rightarrow> talk_event list list \<Rightarrow> talk \<Rightarrow> talk" where
  "send_aac_file data rest t = snd (send_aac_frames (extract_adts_frames data) 0 rest (0, t))"

text \<open>The handler of \<open>play_audio_file\<close>: \<open>cams\<close> are the cameras by number, \<open>io\<close> what the camera answers to a connect.\<close>

definition play_audio_file :: "bool \<Rightarrow> (string \<Rightarrow> (string \<times> string) list option) \<Rightarrow> camera_hub \<Rightarrow> (nat \<Rightarrow> camera) \<Rightarrow> string \<Rightarrow>
    reply option \<Rightarrow> bytes \<Rightarrow> talk_event list list \<Rightarrow> play_error + nat \<times> talk" where
  "play_audio_file allowed devices h cams device_id io data rest =
     (if \<not> allowed then Inl Not_Allowed
      else case resolve_camera_for_call devices h device_id of
             Inl e \<Rightarrow> Inl e
           | Inr i \<Rightarrow>
               (case cd_talk (cams i) of
                  None \<Rightarrow> Inl Not_Initialised
                | Some t \<Rightarrow>
                    (case (if t_connected t then (Inr True, t) else talk_connect io t) of
                       (Inl e, t) \<Rightarrow> Inl (Talk_Raises e)
                     | (Inr False, t) \<Rightarrow> Inl No_Connection
                     | (Inr True, t) \<Rightarrow> Inr (i, send_aac_file data rest t))))"

section \<open>The service and the registry\<close>

text \<open>The cameras of an installation, by number, each with its DID, and what they share.\<close>

type_synonym cameras = "(nat \<Rightarrow> camera) \<times> camera_hub"

inductive camera_step :: "cameras \<Rightarrow> cameras \<Rightarrow> bool" where
  set_up: "cd_talk (cams i) = None \<Longrightarrow> \<not> cd_hass (cams i) \<Longrightarrow>
    camera_setup i configured read f hass ts sid (cams i) h = (r, c, h') \<Longrightarrow> camera_step (cams, h) (cams(i := c), h')"
| streams: "setup_camera configured read f (Some (py, sc, ch_file h)) (cams i) = (q, c, y) \<Longrightarrow>
    camera_step (cams, h) (cams(i := c), h\<lparr>ch_file := y\<rparr>)"
| unload: "camera_unload (cams i) h = (c, h') \<Longrightarrow> camera_step (cams, h) (cams(i := c), h')"

definition is_set_up :: "camera \<Rightarrow> bool" where
  "is_set_up c = (cd_hass c \<and> cd_talk c \<noteq> None)"

definition registered_ok :: "(nat \<Rightarrow> string) \<Rightarrow> cameras \<Rightarrow> bool" where
  "registered_ok dids s = (case s of (cams, h) \<Rightarrow>
     (\<forall>i. cd_did (cams i) = dids i) \<and> dict_ok (ch_registry h) \<and>
     (\<forall>i k. dget (ch_registry h) k = Some i \<longleftrightarrow> dids i = k \<and> is_set_up (cams i)) \<and>
     (ch_service h \<longleftrightarrow> ch_registry h \<noteq> []))"

lemma ensure_keeps: "ensure_camera_endpoint configured read f c = (r, c') \<Longrightarrow>
  cd_did c' = cd_did c \<and> cd_talk c' = cd_talk c \<and> cd_hass c' = cd_hass c \<and> cd_stream c' = cd_stream c"
  by (auto simp: ensure_camera_endpoint_def split: if_splits sum.splits)

lemma setup_camera_keeps: "setup_camera configured read f hass c = (q, c', y) \<Longrightarrow>
  cd_did c' = cd_did c \<and> cd_talk c' = cd_talk c \<and> cd_hass c' = cd_hass c"
  by (auto simp: setup_camera_def Let_def dest!: ensure_keeps split: if_splits sum.splits option.splits prod.splits)

lemma camera_setup_cases:
  assumes "camera_setup i configured read f hass ts sid c h = (r, c', h')"
  shows "cd_did c' = cd_did c \<and>
    (cd_talk c' = cd_talk c \<and> h' = h \<or> is_set_up c' = hass \<and> cd_talk c' \<noteq> None \<and> h' = (if hass then register_camera i c' h else h))"
  using assms by (auto simp: camera_setup_def Let_def is_set_up_def dest!: ensure_keeps split: prod.splits sum.splits)

lemma unload_facts:
  assumes "camera_unload c h = (c', h')"
  shows "cd_did c' = cd_did c \<and> \<not> is_set_up c' \<and>
    (if cd_hass c then ch_registry h' = ddel (cd_did c) (ch_registry h) \<and> ch_service h' = (ch_registry h' \<noteq> [] \<and> ch_service h) else h' = h)"
  using assms by (auto simp: camera_unload_def Let_def is_set_up_def)

lemma dget_empty: "(\<forall>k. dget d k = None) \<longleftrightarrow> d = []"
  by (cases d) auto

lemma registered_step:
  assumes "camera_step s s'" "registered_ok dids s" "inj dids"
  shows "registered_ok dids s'"
  using assms
proof (induction rule: camera_step.induct)
  case (set_up cams i configured read f hass ts sid h r c h')
  note k = camera_setup_cases [OF set_up.hyps(3)]
  have up: "\<not> is_set_up (cams i)" using set_up.hyps(1) by (simp add: is_set_up_def)
  show ?case
  proof (cases "is_set_up c")
    case True
    then have "hass" "h' = register_camera i c h" using k set_up.hyps(1) by (auto simp: is_set_up_def)
    then show ?thesis using set_up.prems k True injD [OF set_up.prems(2)]
      by (auto simp: registered_ok_def register_camera_def dict_ok_dset dget_dset)
  next
    case False
    then have "h' = h" using k by auto
    then show ?thesis using set_up.prems(1) k False up by (auto simp: registered_ok_def)
  qed
next
  case (streams configured read f py sc h cams i q c y)
  then have "is_set_up c = is_set_up (cams i)" "cd_did c = cd_did (cams i)" using setup_camera_keeps [OF streams.hyps(1)] by (simp_all add: is_set_up_def)
  then show ?case using streams.prems(1) by (auto simp: registered_ok_def)
next
  case (unload cams i h c h')
  note k = unload_facts [OF unload.hyps(1)]
  show ?case
  proof (cases "cd_hass (cams i)")
    case True
    then show ?thesis using k unload.prems(1) injD [OF unload.prems(2)]
      by (auto simp: registered_ok_def dict_ok_ddel dget_ddel)
  next
    case False
    then show ?thesis using k unload.prems(1) by (auto simp: registered_ok_def is_set_up_def)
  qed
qed

definition first_hub :: "json option \<Rightarrow> camera_hub" where
  "first_hub yml = \<lparr>ch_registry = [], ch_service = False, ch_file = yml\<rparr>"

lemma camera_service_lifetime_facts:
  assumes "camera_step\<^sup>*\<^sup>* (\<lambda>i. new_camera (dids i), first_hub yml) (cams, h)" "inj dids"
  shows "\<forall>i. dget (ch_registry h) (dids i) = (if is_set_up (cams i) then Some i else None)" "ch_service h \<longleftrightarrow> (\<exists>i. is_set_up (cams i))"
proof -
  have "registered_ok dids (cams, h)" using assms(1)
  proof (induction rule: rtranclp_induct)
    case base
    show ?case by (simp add: registered_ok_def new_camera_def first_hub_def is_set_up_def)
  next
    case (step y z)
    then show ?case using registered_step assms(2) by blast
  qed
  then have r: "dget (ch_registry h) k = Some i \<longleftrightarrow> dids i = k \<and> is_set_up (cams i)" "ch_service h \<longleftrightarrow> ch_registry h \<noteq> []" for i k
    by (simp_all add: registered_ok_def)
  show "\<forall>i. dget (ch_registry h) (dids i) = (if is_set_up (cams i) then Some i else None)"
  proof
    fix i
    show "dget (ch_registry h) (dids i) = (if is_set_up (cams i) then Some i else None)"
      using r(1) [of "dids i"] injD [OF assms(2)] by (cases "dget (ch_registry h) (dids i)") (auto split: if_splits)
  qed
  show "ch_service h \<longleftrightarrow> (\<exists>i. is_set_up (cams i))"
  proof -
    have "(\<exists>k. dget (ch_registry h) k \<noteq> None) \<longleftrightarrow> (\<exists>i. is_set_up (cams i))" using r(1) by blast
    moreover have "(\<exists>k. dget (ch_registry h) k \<noteq> None) \<longleftrightarrow> ch_registry h \<noteq> []" by (cases "ch_registry h") auto
    ultimately show ?thesis using r(2) by simp
  qed
qed

text \<open>
  C17 [camera_service_lifetime]
  The cameras of different DIDs share one service: in every order of setting up, registering streams and unloading,
  a DID leads to the camera that is up under it, and the service is registered exactly while some camera is up.
\<close>

theorem camera_service_lifetime:
  assumes "camera_step\<^sup>*\<^sup>* (\<lambda>i. new_camera (dids i), first_hub yml) (cams, h)" "inj dids"
  shows "(\<forall>i. dget (ch_registry h) (dids i) = (if is_set_up (cams i) then Some i else None)) \<and> (ch_service h \<longleftrightarrow> (\<exists>i. is_set_up (cams i)))"
  using camera_service_lifetime_facts [OF assms] by blast

definition no_fields :: "string \<Rightarrow> bool \<Rightarrow> camera_fields" where
  "no_fields ip self = \<lparr>cf_ip = ip, cf_user = None, cf_password = None, cf_channel = JInt 1, cf_self = self\<rparr>"

lemma setup_with_address: "ip \<noteq> [] \<Longrightarrow> \<exists>c. camera_setup i [] None (no_fields ip False) True ts sid (new_camera did) h = (Inr (), c, register_camera i c h) \<and>
    is_set_up c \<and> cd_did c = did \<and> cd_hass c \<and> cd_stream c = None"
  by (simp add: camera_setup_def ensure_camera_endpoint_def resolve_camera_endpoint_def no_fields_def new_camera_def Let_def is_set_up_def)

theorem camera_service_lifetime_witness:
  "\<exists>cams h. camera_step\<^sup>*\<^sup>* (\<lambda>i. new_camera (nat_text i), first_hub None) (cams, h) \<and> is_set_up (cams 3) \<and> ch_service h \<and>
     dget (ch_registry h) (nat_text 3) = Some 3"
proof -
  let ?cams = "\<lambda>i. new_camera (nat_text i)"
  obtain c where c: "camera_setup 3 [] None (no_fields ''h'' False) True 5 9 (new_camera (nat_text 3)) (first_hub None) = (Inr (), c, register_camera 3 c (first_hub None))"
    "is_set_up c" using setup_with_address [of "''h''" 3 5 9 "nat_text 3" "first_hub None"] by auto
  let ?s = "(?cams(3 := c), register_camera 3 c (first_hub None))"
  have "camera_step (?cams, first_hub None) ?s"
    by (rule camera_step.set_up [where cams = ?cams and i = 3, OF _ _ c(1)]) (simp_all add: new_camera_def)
  then have r: "camera_step\<^sup>*\<^sup>* (?cams, first_hub None) ?s" by blast
  have i: "inj nat_text" by (rule injI) (metis int_of_string_nat_text of_nat_eq_iff option.inject)
  show ?thesis
    using camera_service_lifetime [OF r i] r c(2) by (intro exI [of _ "?cams(3 := c)"] exI [of _ "register_camera 3 c (first_hub None)"]) auto
qed

text \<open>
    Two cameras under one DID, a camera that is the tunnel host of one entry and a device of another: when the first
  unloads, the service is taken away and the second, still set up, is no longer found.
\<close>

theorem shared_did_unregisters:
  assumes "ip \<noteq> []"
  shows "\<exists>a b h1 h2. camera_setup i [] None (no_fields ip False) True ts sid (new_camera did) (first_hub yml) = (Inr (), a, h1) \<and>
    camera_setup j [] None (no_fields ip False) True ts' sid' (new_camera did) h1 = (Inr (), b, h2) \<and> is_set_up b \<and>
    \<not> ch_service (snd (camera_unload a h2)) \<and> dget (ch_registry (snd (camera_unload a h2))) did = None"
proof -
  obtain a where a: "camera_setup i [] None (no_fields ip False) True ts sid (new_camera did) (first_hub yml) = (Inr (), a, register_camera i a (first_hub yml))"
    "cd_did a = did" "cd_hass a" using setup_with_address [OF assms] by blast
  obtain b where b: "camera_setup j [] None (no_fields ip False) True ts' sid' (new_camera did) (register_camera i a (first_hub yml)) =
      (Inr (), b, register_camera j b (register_camera i a (first_hub yml)))" "is_set_up b" "cd_did b = did" using setup_with_address [OF assms] by blast
  have "ddel did (dset did j (dset did i [])) = []" by (metis dget_ddel dget_dset dget_empty)
  then have "\<not> ch_service (snd (camera_unload a (register_camera j b (register_camera i a (first_hub yml)))))" 
    "dget (ch_registry (snd (camera_unload a (register_camera j b (register_camera i a (first_hub yml)))))) did = None"
    using a b by (simp_all add: camera_unload_def register_camera_def first_hub_def Let_def)
  then show ?thesis using a(1) b(1,2) by blast
qed

theorem shared_did_unregisters_witness:
  "\<exists>a b h1 h2. camera_setup 0 [] None (no_fields ''10.0.0.5'' False) True 1 2 (new_camera ''d'') (first_hub None) = (Inr (), a, h1) \<and>
    camera_setup 1 [] None (no_fields ''10.0.0.5'' False) True 3 4 (new_camera ''d'') h1 = (Inr (), b, h2) \<and> is_set_up b \<and>
    \<not> ch_service (snd (camera_unload a h2))"
  using shared_did_unregisters [of "''10.0.0.5''" 0 1 2 "''d''" None 1 3 4] by auto

section \<open>Stateful sensors of a camera\<close>

lemma camera_clears_stateful_facts:
  assumes "cd_delay c = Some n" "num_value v = camera_auto_clear c (BinarySensorDescriptor d)" "truthy v"
    "b_auto_clear d = JNull" "0 \<le> native n" "in_hass s" "handle s = None" "timers s = []" "is_on_value d raw"
  shows "let s1 = snd (bin_apply d v raw s); s2 = s1\<lparr>clock := clock s + native n\<rparr>; s3 = auto_clear (made s) s2
     in native s1 \<and> bin_step d {v} s1 s2 \<and> bin_step d {v} s2 s3 \<and> \<not> native s3 \<and> shown s3 = shown s @ [True, False]"
    "camera_auto_clear (c\<lparr>cd_delay := None\<rparr>) (BinarySensorDescriptor d) = None"
proof -
  have v: "num_value v = Some (native n)" using assms(1,2) by (simp add: camera_auto_clear_def)
  define s1 where "s1 = snd (bin_apply d v raw s)"
  have s1: "native s1" "timers s1 = [(made s, clock s + native n)]" "clock s1 = clock s" "shown s1 = shown s @ [True]" "in_hass s1"
    using v assms unfolding s1_def
    by (simp_all add: bin_apply_def reschedule_auto_clear_def cancel_auto_clear_def Let_def) (simp add: write_state_if_added_def)
  define s2 where "s2 = s1\<lparr>clock := clock s + native n\<rparr>"
  have p: "bin_step d {v} s1 s2" unfolding s2_def using s1 assms(5) by (intro bin_step.pass) auto
  have e: "bin_step d {v} s2 (auto_clear (made s) s2)" by (rule bin_step.expire [of _ "clock s + native n"]) (simp_all add: s2_def s1)
  have "\<not> native (auto_clear (made s) s2) \<and> shown (auto_clear (made s) s2) = shown s @ [True, False]"
    using s1 by (simp add: s2_def auto_clear_def Let_def) (simp add: write_state_if_added_def)
  then show "let s1 = snd (bin_apply d v raw s); s2 = s1\<lparr>clock := clock s + native n\<rparr>; s3 = auto_clear (made s) s2
     in native s1 \<and> bin_step d {v} s1 s2 \<and> bin_step d {v} s2 s3 \<and> \<not> native s3 \<and> shown s3 = shown s @ [True, False]"
    using s1(1) p e by (simp flip: s1_def add: Let_def) (simp flip: s2_def)
  show "camera_auto_clear (c\<lparr>cd_delay := None\<rparr>) (BinarySensorDescriptor d) = None"
    using assms(4) by (simp add: camera_auto_clear_def resolve_auto_clear_seconds_def)
qed

text \<open>
    Once the delay number of a camera is there, it is the delay of every binary sensor of the camera. A sensor whose
  descriptor declares no clearing, a door or a leak, is turned off when the delay is over, though nothing
  reported it off; without the number it stays on.
\<close>

theorem camera_clears_stateful:
  assumes "cd_delay c = Some n" "num_value v = camera_auto_clear c (BinarySensorDescriptor d)" "truthy v"
    "b_auto_clear d = JNull" "0 \<le> native n" "in_hass s" "handle s = None" "timers s = []" "is_on_value d raw"
  shows "(let s1 = snd (bin_apply d v raw s); s2 = s1\<lparr>clock := clock s + native n\<rparr>; s3 = auto_clear (made s) s2
     in native s1 \<and> bin_step d {v} s1 s2 \<and> bin_step d {v} s2 s3 \<and> \<not> native s3 \<and> shown s3 = shown s @ [True, False]) \<and>
    camera_auto_clear (c\<lparr>cd_delay := None\<rparr>) (BinarySensorDescriptor d) = None"
  using camera_clears_stateful_facts [OF assms] by (rule conjI)

definition sample_contact :: binary_sensor_descriptor where
  "sample_contact = binary_sensor ''k'' ''Door'' None True (new_trait ''1.2.3'' ''Door'')"

theorem camera_clears_stateful_witness:
  "let c = (new_camera ''d'')\<lparr>cd_delay := Some new_delay\<rparr>; s = (new_bin 0)\<lparr>in_hass := True\<rparr>;
       s1 = snd (bin_apply sample_contact (JInt 30) ''1'' s); s2 = s1\<lparr>clock := 30\<rparr>
   in num_value (JInt 30) = camera_auto_clear c (BinarySensorDescriptor sample_contact) \<and> native s1 \<and> \<not> native (auto_clear 0 s2)"
proof -
  let ?c = "(new_camera ''d'')\<lparr>cd_delay := Some new_delay\<rparr>" and ?s = "(new_bin 0)\<lparr>in_hass := True\<rparr>"
  have "num_value (JInt 30) = camera_auto_clear ?c (BinarySensorDescriptor sample_contact)"
    by (simp add: camera_auto_clear_def new_delay_def new_ent_def DEFAULT_DETECTION_CLEAR_DELAY_S_def)
  then show ?thesis
    using camera_clears_stateful [THEN conjunct1, of ?c new_delay "JInt 30" sample_contact ?s "''1''"]
    by (simp add: Let_def new_bin_def new_delay_def new_ent_def DEFAULT_DETECTION_CLEAR_DELAY_S_def sample_contact_def binary_sensor_def is_on_value_def)
qed

section \<open>Streams and the platform\<close>

text \<open>A device of the entry: the number of its subentry, and for a camera what is read, its fields and its state.\<close>

type_synonym platform_device = "nat \<times> (json option \<times> camera_fields \<times> camera) option"

text \<open>
  \<open>async_setup_entry\<close> of \<open>camera.py\<close>: the devices in order, the entities added for each, and the error that ends the
  platform's setup, if one does.
\<close>

fun camera_platform :: "string \<Rightarrow> string \<Rightarrow> string \<Rightarrow> platform_device list \<Rightarrow> json option \<Rightarrow>
    camera_error option \<times> (nat \<times> (nat \<times> string) list) list \<times> json option" where
  "camera_platform configured py sc [] yml = (None, [], yml)"
| "camera_platform configured py sc ((sub, None) # ds) yml = camera_platform configured py sc ds yml"
| "camera_platform configured py sc ((sub, Some (read, f, c)) # ds) yml =
     (case setup_camera configured read f (Some (py, sc, yml)) c of
        (Inl e, c, yml) \<Rightarrow> (Some e, [], yml)
      | (Inr cams, c, yml) \<Rightarrow>
          (case camera_platform configured py sc ds yml of
             (err, added, yml) \<Rightarrow> (err, (if cams = [] then added else (sub, cams) # added), yml)))"

lemma parsed_address: "parse_camera_rtsp_url raw = Inr (Some d) \<Longrightarrow> is_safe_host (camera_ip d)"
  by (auto simp: parse_camera_rtsp_url_def rtsp_details_of_def Let_def split: json.splits if_splits sum.splits list.splits option.splits)

lemma resolved_safe:
  assumes "resolve_camera_endpoint configured read f = Inr (Some ip, u, p)" "cf_ip f = [] \<or> is_safe_host (cf_ip f)"
  shows "is_safe_host ip"
  using assms by (auto simp: resolve_camera_endpoint_def dest: parsed_address split: if_splits option.splits sum.splits)

lemma source_safe: "is_safe_host ip \<Longrightarrow> build_rtsp_source ip u p ch = Some (''rtsp://'' @ quote u @ '':'' @ quote p @ ''@'' @ ip @ '':'' @ nat_text RTSP_PORT @ ''/ch'' @ nat_text ch)"
  by (simp add: build_rtsp_source_def validate_host_def)

lemma source_unsafe: "\<not> is_safe_host ip \<Longrightarrow> build_rtsp_source ip u p ch = None"
  by (simp add: build_rtsp_source_def validate_host_def)

lemma safe_nonempty: "is_safe_host ip \<Longrightarrow> ip \<noteq> []"
  by (auto simp: is_safe_host_def)

lemma streams_of_safe:
  assumes "cd_endpoint c = None" "resolve_camera_endpoint configured read f = Inr (Some ip, u, p)" "is_safe_host ip"
  shows "\<exists>c' y. setup_camera configured read f (Some (py, sc, yml)) c =
     (Inr (map (\<lambda>ch. (ch, ''rtsp://'' @ quote (or_empty u) @ '':'' @ quote (or_empty p) @ ''@'' @ ip @ '':'' @ nat_text RTSP_PORT @ ''/ch'' @ nat_text ch)) CHANNELS), c', y) \<and>
     cd_stream c' = Some (stream_name ip)"
  using assms safe_nonempty [OF assms(3)]
  by (simp add: setup_camera_def ensure_camera_endpoint_def source_safe CHANNELS_def build_exec_source_def validate_host_def Let_def)

lemma streams_of_unsafe:
  assumes "cd_endpoint c = None" "cf_ip f \<noteq> []" "\<not> is_safe_host (cf_ip f)"
  shows "fst (setup_camera configured read f (Some (py, sc, yml)) c) = Inl Bad_Host"
  using assms by (simp add: setup_camera_def ensure_camera_endpoint_def resolve_camera_endpoint_def source_unsafe CHANNELS_def Let_def)

lemma streams_outcome:
  assumes "cd_endpoint c = None" "cf_ip f = [] \<or> is_safe_host (cf_ip f)"
  shows "fst (setup_camera configured read f (Some (py, sc, yml)) c) \<noteq> Inl Bad_Host"
proof (cases "resolve_camera_endpoint configured read f")
  case (Inl e)
  then show ?thesis using assms(1) by (simp add: setup_camera_def ensure_camera_endpoint_def Let_def)
next
  case (Inr ep)
  obtain ip u p where ep: "ep = (ip, u, p)" using prod_cases3 by blast
  show ?thesis
  proof (cases ip)
    case None
    then show ?thesis using Inr ep assms(1) by (simp add: setup_camera_def ensure_camera_endpoint_def Let_def)
  next
    case (Some a)
    then have r: "resolve_camera_endpoint configured read f = Inr (Some a, u, p)" using Inr ep by simp
    show ?thesis using streams_of_safe [OF assms(1) r resolved_safe [OF r assms(2)], of py sc yml] by auto
  qed
qed

lemma platform_no_bad_host:
  "(\<forall>(sub, d) \<in> set ds. case d of None \<Rightarrow> True | Some (read, f, c) \<Rightarrow> cd_endpoint c = None \<and> (cf_ip f = [] \<or> is_safe_host (cf_ip f))) \<Longrightarrow>
   fst (camera_platform configured py sc ds yml) \<noteq> Some Bad_Host"
proof (induction configured py sc ds yml rule: camera_platform.induct)
  case (3 configured py sc sub read f c ds yml)
  have o: "fst (setup_camera configured read f (Some (py, sc, yml)) c) \<noteq> Inl Bad_Host" using 3(2) by (intro streams_outcome) auto
  obtain r c' y where s: "setup_camera configured read f (Some (py, sc, yml)) c = (r, c', y)" using prod_cases3 by blast
  show ?case
  proof (cases r)
    case (Inl e)
    then show ?thesis using s o by auto
  next
    case (Inr cams)
    have "fst (camera_platform configured py sc ds y) \<noteq> Some Bad_Host" using 3 s Inr by auto
    then show ?thesis using s Inr by (cases "camera_platform configured py sc ds y") simp
  qed
qed auto

lemma platform_append:
  "camera_platform configured py sc (ds @ es) yml =
     (case camera_platform configured py sc ds yml of
        (Some e, added, y) \<Rightarrow> (Some e, added, y)
      | (None, added, y) \<Rightarrow> (case camera_platform configured py sc es y of (err, more_added, y) \<Rightarrow> (err, added @ more_added, y)))"
  by (induction configured py sc ds yml rule: camera_platform.induct) (auto split: prod.splits sum.splits option.splits)

lemma camera_platform_addresses_facts:
  "(\<forall>(sub, d) \<in> set ds. case d of None \<Rightarrow> True | Some (read, f, c) \<Rightarrow> cd_endpoint c = None \<and> (cf_ip f = [] \<or> is_safe_host (cf_ip f))) \<longrightarrow>
     fst (camera_platform configured py sc ds yml) \<noteq> Some Bad_Host"
  "cd_endpoint c = None \<Longrightarrow> cf_ip f = [] \<or> is_safe_host (cf_ip f) \<Longrightarrow> resolve_camera_endpoint configured read f = Inr (Some ip, u, p) \<Longrightarrow>
     \<exists>srcs. camera_platform configured py sc [(sub, Some (read, f, c))] yml = (None, [(sub, srcs)], snd (snd (setup_camera configured read f (Some (py, sc, yml)) c))) \<and>
       map fst srcs = CHANNELS \<and> (\<forall>(ch, src) \<in> set srcs. build_rtsp_source ip (or_empty u) (or_empty p) ch = Some src)"
  "cd_endpoint c = None \<Longrightarrow> cf_ip f \<noteq> [] \<Longrightarrow> \<not> is_safe_host (cf_ip f) \<Longrightarrow> camera_platform configured py sc ds yml = (None, added, y) \<Longrightarrow>
     \<exists>y'. camera_platform configured py sc (ds @ (sub, Some (read, f, c)) # es) yml = (Some Bad_Host, added, y')"
proof -
  show "(\<forall>(sub, d) \<in> set ds. case d of None \<Rightarrow> True | Some (read, f, c) \<Rightarrow> cd_endpoint c = None \<and> (cf_ip f = [] \<or> is_safe_host (cf_ip f))) \<longrightarrow>
     fst (camera_platform configured py sc ds yml) \<noteq> Some Bad_Host" using platform_no_bad_host by blast
next
  assume a: "cd_endpoint c = None" "cf_ip f = [] \<or> is_safe_host (cf_ip f)" "resolve_camera_endpoint configured read f = Inr (Some ip, u, p)"
  have h: "is_safe_host ip" by (rule resolved_safe [OF a(3,2)])
  show "\<exists>srcs. camera_platform configured py sc [(sub, Some (read, f, c))] yml = (None, [(sub, srcs)], snd (snd (setup_camera configured read f (Some (py, sc, yml)) c))) \<and>
       map fst srcs = CHANNELS \<and> (\<forall>(ch, src) \<in> set srcs. build_rtsp_source ip (or_empty u) (or_empty p) ch = Some src)"
    using streams_of_safe [OF a(1,3) h, of py sc yml] source_safe [OF h] by (auto simp: CHANNELS_def)
next
  assume a: "cd_endpoint c = None" "cf_ip f \<noteq> []" "\<not> is_safe_host (cf_ip f)" "camera_platform configured py sc ds yml = (None, added, y)"
  have "fst (setup_camera configured read f (Some (py, sc, y)) c) = Inl Bad_Host" by (rule streams_of_unsafe [OF a(1-3)])
  then obtain c' y' where "setup_camera configured read f (Some (py, sc, y)) c = (Inl Bad_Host, c', y')" by (metis prod.collapse)
  then show "\<exists>y'. camera_platform configured py sc (ds @ (sub, Some (read, f, c)) # es) yml = (Some Bad_Host, added, y')"
    using a(4) by (simp add: platform_append)
qed



section \<open>The defaults and the endpoint\<close>

lemma candidates_from:
  assumes "p \<in> set (synthetic_rtsp_candidates configured eps)"
  shows "p = configured \<or> (\<exists>ep. (ep, Some ''Camera'') \<in> set eps \<and> p = rtsp_path ep)"
proof -
  let ?step = "\<lambda>(ep, dt) cs. if dt \<noteq> Some ''Camera'' \<or> rtsp_path ep \<in> set cs then cs else cs @ [rtsp_path ep]"
  have "set (fold ?step es cs) \<subseteq> set cs \<union> {rtsp_path ep | ep. (ep, Some ''Camera'') \<in> set es}" for es cs
  proof (induction es arbitrary: cs)
    case (Cons e es)
    obtain ep dt where e: "e = (ep, dt)" by force
    have "set (?step e cs) \<subseteq> set cs \<union> {rtsp_path ep | ep. (ep, Some ''Camera'') \<in> set (e # es)}" by (auto simp: e)
    then show ?case using Cons.IH [of "?step e cs"] by auto
  qed simp
  from subsetD [OF this, of p eps "if configured = [] then [] else [configured]"] show ?thesis
    using assms unfolding synthetic_rtsp_candidates_def by (auto split: if_splits)
qed

lemma extracted: "extract_rtsp_value es cands = Some (raw, p) \<Longrightarrow> p \<in> set cands"
proof (induction es)
  case (Cons e es)
  show ?case
  proof (cases "extract_rtsp_value (e # es) cands = extract_rtsp_value es cands")
    case True
    then show ?thesis using Cons by simp
  next
    case False
    then obtain d where d: "e = JObj d" by (cases e) simp_all
    then show ?thesis using False Cons.prems by (cases "jget d ''path'' JNull") (auto split: if_splits)
  qed
qed simp

lemma camera_defaults_and_endpoint_facts:
  "prefill_extras E access tok configured did m r c = (Inr (Some form), c') \<Longrightarrow>
     \<exists>p raw ip es. p \<in> set (prefill_candidates configured m r) \<and>
       (p = configured \<or> (\<exists>ep. (ep, Some ''Camera'') \<in> set (endpoints_for_model m r) \<and> p = rtsp_path ep)) \<and>
       query_device_traits E tok did (prefill_candidates configured m r) c = (Inr es, c') \<and> extract_rtsp_value es (prefill_candidates configured m r) = Some (raw, p) \<and>
       dget form ''camera_ip'' = Some (JStr ip) \<and> is_safe_host ip"
  "prefill_extras E access tok configured did m r c = (Inl e, c') \<Longrightarrow> \<exists>raw. parse_camera_rtsp_url raw = Inl e"
  "ensure_camera_endpoint configured read f cam = (Inl e, cam') \<Longrightarrow> cam' = cam \<and> (\<exists>raw. read = Some raw \<and> parse_camera_rtsp_url raw = Inl e)"
  "ensure_camera_endpoint configured read f cam = (Inr (), cam') \<Longrightarrow>
     cd_endpoint cam' \<noteq> None \<and> ensure_camera_endpoint configured' read' f' cam' = (Inr (), cam')"
proof -
  let ?cands = "prefill_candidates configured m r"
  { assume a: "prefill_extras E access tok configured did m r c = (Inr (Some form), c')"
    then obtain es c1 where q: "query_device_traits E tok did ?cands c = (Inr es, c1)"
      by (auto simp: prefill_extras_def Let_def split: if_splits prod.splits sum.splits)
    then obtain raw p where x: "extract_rtsp_value es ?cands = Some (raw, p)" and b: "build_rtsp_prefill raw = Inr (Some form)" and c': "c1 = c'"
      using a by (auto simp: prefill_extras_def Let_def split: if_splits option.splits)
    obtain d where d: "parse_camera_rtsp_url raw = Inr (Some d)" "dget form ''camera_ip'' = Some (JStr (camera_ip d))"
      using b by (auto simp: build_rtsp_prefill_def split: sum.splits option.splits if_splits)
    have p: "p \<in> set ?cands" using extracted [OF x] .
    then have "p = configured \<or> (\<exists>ep. (ep, Some ''Camera'') \<in> set (endpoints_for_model m r) \<and> p = rtsp_path ep)"
      using candidates_from by (auto simp: prefill_candidates_def)
    then show "\<exists>p raw ip es. p \<in> set ?cands \<and>
       (p = configured \<or> (\<exists>ep. (ep, Some ''Camera'') \<in> set (endpoints_for_model m r) \<and> p = rtsp_path ep)) \<and>
       query_device_traits E tok did ?cands c = (Inr es, c') \<and> extract_rtsp_value es ?cands = Some (raw, p) \<and>
       dget form ''camera_ip'' = Some (JStr ip) \<and> is_safe_host ip"
      using p q x c' d parsed_address [OF d(1)] by blast }
  { assume "prefill_extras E access tok configured did m r c = (Inl e, c')"
    then obtain raw where "build_rtsp_prefill raw = Inl e"
      by (auto simp: prefill_extras_def Let_def split: if_splits prod.splits sum.splits option.splits)
    then show "\<exists>raw. parse_camera_rtsp_url raw = Inl e"
      by (auto simp: build_rtsp_prefill_def split: sum.splits option.splits if_splits) }
  { assume "ensure_camera_endpoint configured read f cam = (Inl e, cam')"
    then show "cam' = cam \<and> (\<exists>raw. read = Some raw \<and> parse_camera_rtsp_url raw = Inl e)"
      by (auto simp: ensure_camera_endpoint_def resolve_camera_endpoint_def split: if_splits sum.splits option.splits) }
  { assume "ensure_camera_endpoint configured read f cam = (Inr (), cam')"
    then show "cd_endpoint cam' \<noteq> None \<and> ensure_camera_endpoint configured' read' f' cam' = (Inr (), cam')"
      by (auto simp: ensure_camera_endpoint_def split: if_splits sum.splits) }
qed

text \<open>
    The defaults of the form, when there are any, come from one non-empty value the cloud gave for a path the catalog knows, the
  configured one or that of a camera endpoint, and their address is a safe host. Whatever else goes wrong
  leaves the form blank, but a malformed URL in that value raises, against the promise never to; so does reading the
  endpoint of the tunnel host, while every other failure is remembered as no address and not tried again.
\<close>

theorem camera_defaults_and_endpoint:
  "(prefill_extras E access tok configured did m r c = (Inr (Some form), c') \<longrightarrow>
     (\<exists>p raw ip es. p \<in> set (prefill_candidates configured m r) \<and>
       (p = configured \<or> (\<exists>ep. (ep, Some ''Camera'') \<in> set (endpoints_for_model m r) \<and> p = rtsp_path ep)) \<and>
       query_device_traits E tok did (prefill_candidates configured m r) c = (Inr es, c') \<and> extract_rtsp_value es (prefill_candidates configured m r) = Some (raw, p) \<and>
       dget form ''camera_ip'' = Some (JStr ip) \<and> is_safe_host ip)) \<and>
   (prefill_extras E access tok configured did m r c = (Inl e, c') \<longrightarrow> (\<exists>raw. parse_camera_rtsp_url raw = Inl e)) \<and>
   (ensure_camera_endpoint configured read f cam = (Inl e, cam') \<longrightarrow> cam' = cam \<and> (\<exists>raw. read = Some raw \<and> parse_camera_rtsp_url raw = Inl e)) \<and>
   (ensure_camera_endpoint configured read f cam = (Inr (), cam') \<longrightarrow>
     cd_endpoint cam' \<noteq> None \<and> ensure_camera_endpoint configured' read' f' cam' = (Inr (), cam'))"
  by (rule conjI [OF impI conjI [OF impI conjI [OF impI impI]]]; rule camera_defaults_and_endpoint_facts; assumption)

theorem camera_defaults_and_endpoint_witness:
  "\<exists>c. ensure_camera_endpoint RTSP_URL_TRAIT_PATH None (no_fields [] True) (new_camera ''d'') = (Inr (), c) \<and>
     ensure_camera_endpoint RTSP_URL_TRAIT_PATH (Some (JStr ''rtsp://10.0.0.5/'')) (no_fields [] True) c = (Inr (), c)"
proof -
  let ?c = "snd (ensure_camera_endpoint RTSP_URL_TRAIT_PATH None (no_fields [] True) (new_camera ''d''))"
  have e: "ensure_camera_endpoint RTSP_URL_TRAIT_PATH None (no_fields [] True) (new_camera ''d'') = (Inr (), ?c)"
    by (simp add: ensure_camera_endpoint_def resolve_camera_endpoint_def no_fields_def new_camera_def)
  show ?thesis using camera_defaults_and_endpoint [THEN conjunct2, THEN conjunct2, THEN conjunct2, rule_format, OF e] e by blast
qed

section \<open>A file that is played\<close>

definition file_packets :: "nat \<Rightarrow> nat \<Rightarrow> nat \<Rightarrow> bytes list \<Rightarrow> bytes list" where
  "file_packets sid start samples fs = map2 (\<lambda>k f. audio_packet (samples + 1024 * k) sid (start + k) f) [0 ..< length fs] fs"

lemma file_packets_Cons: "file_packets sid start samples (f # fs) = audio_packet samples sid start f # file_packets sid (start + 1) (samples + 1024) fs"
proof -
  have "[0 ..< length (f # fs)] = 0 # map Suc [0 ..< length fs]" by (simp add: upt_conv_Cons map_Suc_upt del: upt_Suc)
  then show ?thesis by (simp add: file_packets_def zip_map1 case_prod_unfold o_def algebra_simps)
qed

lemma talk_frame_open: "t_udp t \<Longrightarrow> talk_send_audio f ts t =
    t\<lparr>t_seq_num := t_seq_num t + 1, t_udp_sent := t_udp_sent t @ [audio_packet ts (t_ssrc t) (t_seq_num t) f]\<rparr>"
  using header97 [of ts "t_ssrc t" "t_seq_num t"] by (auto simp: talk_send_audio_def audio_packet_def RTP_PAYLOAD_TYPE_def)

definition same_audio :: "talk \<Rightarrow> talk \<Rightarrow> bool" where
  "same_audio t t' = (t_udp_sent t' = t_udp_sent t \<and> t_ssrc t' = t_ssrc t \<and> t_seq_num t' = t_seq_num t \<and> (t_udp t = t_connected t \<longrightarrow> t_udp t' = t_connected t'))"

lemma heartbeat_audio: "same_audio t (snd (talk_heartbeat_turn r n t))"
  by (auto simp: same_audio_def talk_heartbeat_turn_def Let_def talk_dead_def close_tcp_def talk_write_def split: option.split sum.split)

lemma same_audio_trans: "same_audio a b \<Longrightarrow> same_audio b c \<Longrightarrow> same_audio a c"
  by (simp add: same_audio_def)

lemma heartbeat_steps: "\<forall>e \<in> set es. \<exists>r. e = Talk_Heartbeat r \<Longrightarrow> same_audio (snd s) (snd (fold talk_step es s))"
proof (induction es arbitrary: s)
  case (Cons e es)
  obtain n t where s: "s = (n, t)" by force
  obtain r where e: "e = Talk_Heartbeat r" using Cons.prems by auto
  have "same_audio t (snd (talk_step e s))"
    using heartbeat_audio [of t r n] by (auto simp: e s same_audio_def split: prod.split hb_end.split)
  moreover have "same_audio (snd (talk_step e s)) (snd (fold talk_step es (talk_step e s)))" using Cons by simp
  ultimately have "same_audio t (snd (fold talk_step es (talk_step e s)))" by (rule same_audio_trans)
  then show ?case by (simp add: s)
qed (simp add: same_audio_def)



end
