(* ===== verification/Ptz_Entities.thy ===== *)
theory Ptz_Entities
  imports Entities Ptz_Control Cloud
begin

text \<open>
  The service and the entities that drive a camera's PTZ controller: \<open>camera.py\<close> (the service \<open>ptz\<close>, its one registration
  and the recall of presets) and the PTZ entities of \<open>button.py\<close>, \<open>number.py\<close> and \<open>select.py\<close>. What the network and the
  device do with a command is an argument, as for the controller.
\<close>

section \<open>The registration of the service\<close>

definition NUDGE_ACTIONS :: "string list" where "NUDGE_ACTIONS = [''left'', ''right'', ''up'', ''down'']"
definition ZOOM_BUTTON_STEP :: rat where "ZOOM_BUTTON_STEP = 1"

text \<open>\<open>flag\<close> is the mark in \<open>hass.data\<close>; the second component counts the registrations, of which a second one raises.\<close>

definition register_ptz_services :: "bool \<times> nat \<Rightarrow> bool \<times> nat" where
  "register_ptz_services s = (if fst s then s else (True, snd s + 1))"

section \<open>The service\<close>

datatype ptz_error = Ha_Ptz_Error | Controller_Error ctl_error | Preset_Cloud_Error cloud_error | Entry_Attribute_Error | Unknown_Option string

record ptz_camera =
  pc_controller :: "controller option"
  pc_cloud :: "client option"
  pc_token :: string
  pc_did :: string
  pc_presets :: "json list option"

definition coerce_zoom :: "string option \<Rightarrow> pyfloat option" where
  "coerce_zoom v =
     (case v of
        None \<Rightarrow> None
      | Some s \<Rightarrow> (case py_float s of Some (Fin r) \<Rightarrow> if ZOOM_MIN \<le> r \<and> r \<le> ZOOM_MAX then Some (Fin r) else None | _ \<Rightarrow> None))"

text \<open>A step that is no number compares as not below zero, and passes.\<close>

definition coerce_step :: "string option \<Rightarrow> pyfloat option" where
  "coerce_step v =
     (case v of
        None \<Rightarrow> Some (Fin ZOOM_BUTTON_STEP)
      | Some s \<Rightarrow>
          (case py_float s of
             None \<Rightarrow> None
           | Some (Fin r) \<Rightarrow> if r \<le> 0 then None else Some (Fin r)
           | Some (Infinite n) \<Rightarrow> if n then None else Some (Infinite n)
           | Some Not_A_Number \<Rightarrow> Some Not_A_Number))"

fun float_minus :: "pyfloat \<Rightarrow> pyfloat" where
  "float_minus (Fin r) = Fin (- r)"
| "float_minus (Infinite n) = Infinite (\<not> n)"
| "float_minus Not_A_Number = Not_A_Number"

text \<open>
  \<open>zoom_step\<close> with any float: \<open>min\<close> and \<open>max\<close> keep their first argument when the second is no number, so what is not
  a number is clamped to the largest zoom.
\<close>

definition step_by :: "net \<Rightarrow> bool \<Rightarrow> pyfloat \<Rightarrow> controller \<Rightarrow> (ctl_error + unit) \<times> controller" where
  "step_by net goes delta c =
     (case delta of
        Fin r \<Rightarrow> zoom_step net goes r c
      | Infinite True \<Rightarrow> ptz_zoom net goes ZOOM_MIN c
      | _ \<Rightarrow> ptz_zoom net goes ZOOM_MAX c)"

text \<open>
  \<open>_match_preset\<close>: an entry that is no object raises AttributeError (Inl). A name is matched before an id within an
  entry, but the first entry that matches by either counts. Ids are whole numbers or texts.
\<close>

definition match_entry :: "string \<Rightarrow> obj \<Rightarrow> bool" where
  "match_entry preset d = (jget d ''name'' JNull = JStr preset \<or> py_str (jget d ''id'' JNull) = Inr preset)"

fun match_preset :: "string \<Rightarrow> json list \<Rightarrow> unit + obj option" where
  "match_preset preset [] = Inr None"
| "match_preset preset (JObj d # es) = (if match_entry preset d then Inr (Some d) else match_preset preset es)"
| "match_preset preset (e # es) = Inl ()"

text \<open>What the network and the camera do with the commands of one call.\<close>

type_synonym link = "net \<times> bool \<times> net \<times> bool"

definition cached :: "ptz_camera \<Rightarrow> json list" where
  "cached pc = (case pc_presets pc of None \<Rightarrow> [] | Some ps \<Rightarrow> ps)"

definition fetch_presets :: "env \<Rightarrow> ptz_camera \<Rightarrow> ptz_error option \<times> ptz_camera" where
  "fetch_presets E pc =
     (case pc_cloud pc of
        None \<Rightarrow> (Some Ha_Ptz_Error, pc)
      | Some cl \<Rightarrow>
          (case query_ptz_positions E (pc_token pc) (pc_did pc) cl of
             (Inl e, cl) \<Rightarrow> (Some (Preset_Cloud_Error e), pc\<lparr>pc_cloud := Some cl\<rparr>)
           | (Inr ps, cl) \<Rightarrow> (None, pc\<lparr>pc_cloud := Some cl, pc_presets := Some ps\<rparr>)))"

definition drive_controller :: "(controller \<Rightarrow> (ctl_error + unit) \<times> controller) \<Rightarrow> ptz_camera \<Rightarrow> ptz_error option \<times> ptz_camera" where
  "drive_controller act pc =
     (case pc_controller pc of
        None \<Rightarrow> (Some Ha_Ptz_Error, pc)
      | Some c \<Rightarrow> (case act c of (Inl e, c) \<Rightarrow> (Some (Controller_Error e), pc\<lparr>pc_controller := Some c\<rparr>)
                               | (Inr u, c) \<Rightarrow> (None, pc\<lparr>pc_controller := Some c\<rparr>)))"

text \<open>The position of a match is a text.\<close>

definition recall :: "link \<Rightarrow> obj option \<Rightarrow> ptz_camera \<Rightarrow> ptz_error option \<times> ptz_camera" where
  "recall l m pc =
     (case l of (net, goes, _) \<Rightarrow>
        case m of
          None \<Rightarrow> (Some Ha_Ptz_Error, pc)
        | Some d \<Rightarrow>
            (case jget d ''position'' JNull of
               JStr p \<Rightarrow> if p = [] then (Some Ha_Ptz_Error, pc) else drive_controller (goto_preset net goes p) pc
             | _ \<Rightarrow> (Some Ha_Ptz_Error, pc)))"

definition resolve_and_recall :: "env \<Rightarrow> link \<Rightarrow> string \<Rightarrow> ptz_camera \<Rightarrow> ptz_error option \<times> ptz_camera" where
  "resolve_and_recall E l preset pc0 =
     (if pc_controller pc0 = None \<or> pc_cloud pc0 = None then (Some Ha_Ptz_Error, pc0)
      else case (if pc_presets pc0 = None then fetch_presets E pc0 else (None, pc0)) of
             (Some e, pc) \<Rightarrow> (Some e, pc)
           | (None, pc) \<Rightarrow>
               (case match_preset preset (cached pc) of
                  Inl u \<Rightarrow> (Some Entry_Attribute_Error, pc)
                | Inr (Some d) \<Rightarrow> recall l (Some d) pc
                | Inr None \<Rightarrow>
                    (case fetch_presets E pc of
                       (Some e, pc) \<Rightarrow> (Some e, pc)
                     | (None, pc) \<Rightarrow>
                         (case match_preset preset (cached pc) of
                            Inl u \<Rightarrow> (Some Entry_Attribute_Error, pc)
                          | Inr m \<Rightarrow> recall l m pc))))"

text \<open>\<open>async_ptz\<close>; \<open>timed\<close>: a duration was given.\<close>

definition async_ptz :: "env \<Rightarrow> link \<Rightarrow> string \<Rightarrow> string option \<Rightarrow> bool \<Rightarrow> bool \<Rightarrow> ptz_camera \<Rightarrow> ptz_error option \<times> ptz_camera" where
  "async_ptz E l cmd v cont timed pc =
     (case l of (net, goes, net2, goes2) \<Rightarrow>
        if pc_controller pc = None then (Some Ha_Ptz_Error, pc)
        else if cmd \<in> set NUDGE_ACTIONS then drive_controller (ptz_move net goes net2 goes2 cmd cont timed) pc
        else if cmd = STOP_ACTION then drive_controller (ptz_stop net goes) pc
        else if cmd = ''zoom_in'' then
          (case coerce_step v of None \<Rightarrow> (Some Ha_Ptz_Error, pc) | Some s \<Rightarrow> drive_controller (step_by net goes s) pc)
        else if cmd = ''zoom_out'' then
          (case coerce_step v of None \<Rightarrow> (Some Ha_Ptz_Error, pc) | Some s \<Rightarrow> drive_controller (step_by net goes (float_minus s)) pc)
        else if cmd = ''zoom'' then
          (case coerce_zoom v of Some (Fin z) \<Rightarrow> drive_controller (ptz_zoom net goes z) pc | _ \<Rightarrow> (Some Ha_Ptz_Error, pc))
        else if cmd = ''preset'' then
          (case v of Some p \<Rightarrow> if p = [] then (Some Ha_Ptz_Error, pc) else resolve_and_recall E l p pc | None \<Rightarrow> (Some Ha_Ptz_Error, pc))
        else (Some Ha_Ptz_Error, pc))"

section \<open>Buttons and the zoom\<close>

datatype ptz_entity = Direction_Button string | Stop_Button | Zoom_Button rat string | Zoom_Number | Preset_Select

fun ptz_suffix :: "ptz_entity \<Rightarrow> string" where
  "ptz_suffix (Direction_Button d) = ''ptz_'' @ d"
| "ptz_suffix Stop_Button = ''ptz_stop''"
| "ptz_suffix (Zoom_Button delta s) = ''ptz_'' @ s"
| "ptz_suffix Zoom_Number = ''ptz_zoom''"
| "ptz_suffix Preset_Select = ''ptz_preset''"

definition ptz_buttons :: "string set \<Rightarrow> ptz_entity list" where
  "ptz_buttons feats =
     (if PAN_TILT \<in> feats then map Direction_Button [''up'', ''down'', ''left'', ''right''] @ [Stop_Button] else []) @
     (if ZOOM \<in> feats then [Zoom_Button ZOOM_BUTTON_STEP ''zoom_in'', Zoom_Button (- ZOOM_BUTTON_STEP) ''zoom_out''] else [])"

definition ptz_numbers :: "string set \<Rightarrow> ptz_entity list" where
  "ptz_numbers feats = (if ZOOM \<in> feats then [Zoom_Number] else [])"

definition ptz_selects :: "string set \<Rightarrow> ptz_entity list" where
  "ptz_selects feats = (if PRESETS \<in> feats then [Preset_Select] else [])"

fun ptz_press :: "link \<Rightarrow> ptz_entity \<Rightarrow> controller \<Rightarrow> (ctl_error + unit) \<times> controller" where
  "ptz_press (net, goes, net2, goes2) (Direction_Button d) c = ptz_move net goes net2 goes2 d False False c"
| "ptz_press (net, goes, _) Stop_Button c = ptz_stop net goes c"
| "ptz_press (net, goes, _) (Zoom_Button delta s) c = zoom_step net goes delta c"
| "ptz_press _ _ c = (Inr (), c)"

definition zoom_number_value :: "controller \<Rightarrow> rat" where
  "zoom_number_value c = current_zoom c"

definition zoom_number_set :: "net \<Rightarrow> bool \<Rightarrow> rat \<Rightarrow> controller \<Rightarrow> (ctl_error + unit) \<times> controller" where
  "zoom_number_set net goes v c = ptz_zoom net goes v c"

section \<open>The select of presets\<close>

text \<open>Names to positions, and the option that is shown.\<close>

record preset_select =
  ps_by_name :: "(string, string) dict"
  ps_current :: "string option"

definition ps_options :: "preset_select \<Rightarrow> string list" where
  "ps_options s = dkeys (ps_by_name s)"

text \<open>Names and positions are texts.\<close>

fun named_positions :: "json list \<Rightarrow> (string, string) dict \<Rightarrow> (string, string) dict option" where
  "named_positions [] acc = Some acc"
| "named_positions (JObj d # es) acc =
     (case (jget d ''name'' JNull, jget d ''position'' JNull) of
        (JStr n, JStr p) \<Rightarrow> named_positions es (if n \<noteq> [] \<and> p \<noteq> [] then dset n p acc else acc)
      | _ \<Rightarrow> named_positions es acc)"
| "named_positions (e # es) acc = None"

text \<open>The cloud's answer (None: it raised); the result is None when an entry that is no object makes it raise.\<close>

definition refresh_options :: "json list option option \<Rightarrow> preset_select \<Rightarrow> preset_select option" where
  "refresh_options answer s =
     (case answer of
        None \<Rightarrow> Some s
      | Some None \<Rightarrow> Some s
      | Some (Some ps) \<Rightarrow>
          (case named_positions ps [] of
             None \<Rightarrow> None
           | Some by \<Rightarrow> Some \<lparr>ps_by_name = by,
               ps_current = (case ps_current s of None \<Rightarrow> None | Some n \<Rightarrow> if n \<in> set (dkeys by) then Some n else None)\<rparr>))"

text \<open>\<open>answer\<close>: None without a cloud client; it is asked only on a miss.\<close>

definition preset_select_option :: "link \<Rightarrow> json list option option \<Rightarrow> string \<Rightarrow> preset_select \<times> controller \<Rightarrow> ptz_error option \<times> preset_select \<times> controller" where
  "preset_select_option l answer option s =
     (case l of (net, goes, _) \<Rightarrow>
        case (if dget (ps_by_name (fst s)) option = None then refresh_options answer (fst s) else Some (fst s)) of
          None \<Rightarrow> (Some Entry_Attribute_Error, s)
        | Some ps \<Rightarrow>
            (case dget (ps_by_name ps) option of
               None \<Rightarrow> (Some (Unknown_Option option), ps, snd s)
             | Some p \<Rightarrow>
                 (case goto_preset net goes p (snd s) of
                    (Inl e, c) \<Rightarrow> (Some (Controller_Error e), ps, c)
                  | (Inr u, c) \<Rightarrow> (None, ps\<lparr>ps_current := Some option\<rparr>, c))))"

section \<open>The service keeps the controller sound\<close>

lemma registered_once: "(register_ptz_services ^^ Suc n) (False, 0) = (True, 1)"
  by (induction n) (simp_all add: register_ptz_services_def)

lemma step_zoom_ok:
  assumes "zoom_ok c"
  shows "zoom_ok (snd (ptz_move net goes net2 goes2 d cont timed c))" "zoom_ok (snd (ptz_stop net goes c))"
    "zoom_ok (snd (ptz_zoom net goes z c))" "zoom_ok (snd (zoom_step net goes z c))" "zoom_ok (snd (goto_preset net goes p c))"
    "zoom_ok (snd (step_by net goes f c))"
proof -
  note z = ctl_step_zoom [OF assms]
  show a: "zoom_ok (snd (ptz_move net goes net2 goes2 d cont timed c))" "zoom_ok (snd (ptz_stop net goes c))"
    "zoom_ok (snd (ptz_zoom net goes z c))" "zoom_ok (snd (zoom_step net goes z c))" "zoom_ok (snd (goto_preset net goes p c))" for z
    using z [of "Move net goes net2 goes2 d cont timed"] z [of "Stop net goes"] z [of "Zoom net goes z"] z [of "Zoom_Step net goes z"]
      z [of "Preset net goes p"] by simp_all
  show "zoom_ok (snd (step_by net goes f c))"
    using a(3) [of ZOOM_MIN] a(3) [of ZOOM_MAX] a(4) by (cases f) (simp_all add: step_by_def split: bool.split)
qed

definition camera_ok :: "ptz_camera \<Rightarrow> bool" where
  "camera_ok pc = (case pc_controller pc of None \<Rightarrow> True | Some c \<Rightarrow> zoom_ok c)"

lemma drive_ok: "camera_ok pc \<Longrightarrow> (\<And>c. zoom_ok c \<Longrightarrow> zoom_ok (snd (act c))) \<Longrightarrow> camera_ok (snd (drive_controller act pc))"
proof -
  assume a: "camera_ok pc" "\<And>c. zoom_ok c \<Longrightarrow> zoom_ok (snd (act c))"
  show ?thesis
  proof (cases "pc_controller pc")
    case (Some c)
    obtain r c' where "act c = (r, c')" by force
    then show ?thesis using a Some a(2) [of c] by (cases r) (simp_all add: camera_ok_def drive_controller_def)
  qed (use a in \<open>simp add: drive_controller_def\<close>)
qed

lemma fetch_ok: "camera_ok pc \<Longrightarrow> camera_ok (snd (fetch_presets E pc))"
  by (auto simp: fetch_presets_def camera_ok_def split: option.splits prod.split sum.split)

lemma recall_ok: "camera_ok pc \<Longrightarrow> camera_ok (snd (recall l m pc))"
proof (cases l)
  case (fields net goes net2 goes2)
  assume "camera_ok pc"
  then show ?thesis using drive_ok [OF _ step_zoom_ok(5)] by (simp add: recall_def fields split: option.split json.split)
qed

lemma resolve_ok: "camera_ok pc \<Longrightarrow> camera_ok (snd (resolve_and_recall E l preset pc))"
proof -
  assume a: "camera_ok pc"
  obtain r pc1 where f: "(if pc_presets pc = None then fetch_presets E pc else (None, pc)) = (r, pc1)" by force
  then have p1: "camera_ok pc1" using a fetch_ok [OF a, of E] by (auto split: if_splits)
  obtain r2 pc2 where f2: "fetch_presets E pc1 = (r2, pc2)" by force
  then have p2: "camera_ok pc2" using fetch_ok [OF p1, of E] by simp
  show ?thesis using a p1 p2 recall_ok by (simp add: resolve_and_recall_def f f2 split: option.split sum.split)
qed

lemma ok_branches:
  "camera_ok (snd x) \<Longrightarrow> camera_ok (snd y) \<Longrightarrow> camera_ok (snd (if b then x else y))"
  "camera_ok (snd x) \<Longrightarrow> (\<And>v. camera_ok (snd (f v))) \<Longrightarrow> camera_ok (snd (case m of None \<Rightarrow> x | Some v \<Rightarrow> f v))"
  "(\<And>r. camera_ok (snd (g r))) \<Longrightarrow> (\<And>n. camera_ok (snd (h n))) \<Longrightarrow> camera_ok (snd y) \<Longrightarrow>
   camera_ok (snd (case q of Fin r \<Rightarrow> g r | Infinite n \<Rightarrow> h n | Not_A_Number \<Rightarrow> y))"
  by (simp_all split: option.split pyfloat.split)

text \<open>
  C27 [ptz_service]
  Whatever the service is called with, its command and its arguments free, the zoom the controller remembers stays
  between one and nine, a multiple of a tenth, and every zoom it ever sent is in that range; without a controller
  the call is refused and changes nothing. A step that is no number is not refused: \<open>zoom_out\<close> by it zooms in as far
  as it goes.
\<close>

theorem ptz_service:
  "(pc_controller pc = None \<longrightarrow> async_ptz E l cmd v cont timed pc = (Some Ha_Ptz_Error, pc)) \<and>
   (camera_ok pc \<longrightarrow> camera_ok (snd (async_ptz E l cmd v cont timed pc))) \<and>
   (pc_controller pc = Some c \<longrightarrow> py_float s = Some Not_A_Number \<longrightarrow>
      async_ptz E (net, goes, net2, goes2) ''zoom_out'' (Some s) cont timed pc = drive_controller (ptz_zoom net goes ZOOM_MAX) pc)"
proof (intro conjI impI)
  show "pc_controller pc = None \<Longrightarrow> async_ptz E l cmd v cont timed pc = (Some Ha_Ptz_Error, pc)"
    by (cases l) (simp add: async_ptz_def)
next
  assume a: "camera_ok pc"
  obtain net goes net2 goes2 where l: "l = (net, goes, net2, goes2)" using prod_cases4 by blast
  have d: "camera_ok (snd (drive_controller (ptz_move net goes net2 goes2 d cont timed) pc))" "camera_ok (snd (drive_controller (ptz_stop net goes) pc))"
    "camera_ok (snd (drive_controller (ptz_zoom net goes z) pc))" "camera_ok (snd (drive_controller (step_by net goes f) pc))" for d z f
    by (rule drive_ok [OF a]; rule step_zoom_ok; assumption)+
  show "camera_ok (snd (async_ptz E l cmd v cont timed pc))"
    unfolding async_ptz_def l prod.case by (intro ok_branches d resolve_ok a) (simp_all add: a)
next
  assume a: "pc_controller pc = Some c" "py_float s = Some Not_A_Number"
  obtain k where k: "k = ''zoom_out''" by simp
  have n: "k \<notin> set NUDGE_ACTIONS" "k \<noteq> STOP_ACTION" "k \<noteq> ''zoom_in''" by (simp_all add: k NUDGE_ACTIONS_def STOP_ACTION_def)
  have "step_by net goes (float_minus Not_A_Number) = ptz_zoom net goes ZOOM_MAX" by (simp add: step_by_def fun_eq_iff)
  then have "async_ptz E (net, goes, net2, goes2) k (Some s) cont timed pc = drive_controller (ptz_zoom net goes ZOOM_MAX) pc"
    using a n by (simp add: async_ptz_def coerce_step_def k)
  then show "async_ptz E (net, goes, net2, goes2) ''zoom_out'' (Some s) cont timed pc = drive_controller (ptz_zoom net goes ZOOM_MAX) pc" by (simp add: k)
qed

definition sample_ptz :: ptz_camera where
  "sample_ptz = \<lparr>pc_controller = Some (new_controller {ZOOM}), pc_cloud = None, pc_token = [], pc_did = ''d'', pc_presets = None\<rparr>"

lemma nan_text: "py_float ''nan'' = Some Not_A_Number"
proof -
  have "signed (lower (strip ''nan'')) = (False, ''nan'')" by code_simp
  then show ?thesis by (simp add: py_float_def)
qed

theorem ptz_service_witness:
  "async_ptz sample_env (good_net, True, good_net, True) ''zoom_out'' (Some ''nan'') False False sample_ptz =
     drive_controller (ptz_zoom good_net True ZOOM_MAX) sample_ptz"
  using ptz_service [of sample_ptz sample_env "(good_net, True, good_net, True)" "[]" None False False "new_controller {ZOOM}" "''nan''" good_net True good_net True] nan_text
  by (simp add: sample_ptz_def)

section \<open>Presets\<close>

text \<open>An entry without an id answers to the preset None.\<close>

lemma preset_without_id: "dget d ''id'' = None \<Longrightarrow> match_preset ''None'' (JObj d # es) = Inr (Some d)"
  by (simp add: match_entry_def jget_def)

definition select_sound :: "preset_select \<Rightarrow> bool" where
  "select_sound s = (\<forall>n. ps_current s = Some n \<longrightarrow> n \<in> set (ps_options s))"

lemma refresh_sound: "refresh_options answer s = Some s' \<Longrightarrow> select_sound s \<Longrightarrow> select_sound s'"
  by (auto simp: refresh_options_def select_sound_def ps_options_def split: option.splits if_splits)

lemma key_listed: "dget d k = Some v \<Longrightarrow> k \<in> set (dkeys d)"
  by (force simp: dkeys_def dest: map_of_SomeD)

text \<open>
    The option shown is always one of the options. An option that is listed is recalled without asking the cloud; one
  that is not is looked up in a fresh list, which replaces the old one, and recalled if it is there; otherwise the
  call raises and no command is sent.
\<close>

theorem preset_selection:
  "(select_sound s \<longrightarrow> select_sound (fst (snd (preset_select_option l answer option (s, c))))) \<and>
   (dget (ps_by_name s) option = Some p \<longrightarrow>
      preset_select_option l answer option (s, c) = preset_select_option l None option (s, c) \<and>
      snd (snd (preset_select_option l answer option (s, c))) = snd (goto_preset (fst l) (fst (snd l)) p c)) \<and>
   (dget (ps_by_name s) option = None \<longrightarrow> named_positions ps [] = Some by_name \<longrightarrow>
      (case dget by_name option of
         None \<Rightarrow> fst (preset_select_option l (Some (Some ps)) option (s, c)) = Some (Unknown_Option option) \<and>
                 snd (snd (preset_select_option l (Some (Some ps)) option (s, c))) = c
       | Some p \<Rightarrow> snd (snd (preset_select_option l (Some (Some ps)) option (s, c))) = snd (goto_preset (fst l) (fst (snd l)) p c) \<and>
                 ps_options (fst (snd (preset_select_option l (Some (Some ps)) option (s, c)))) = dkeys by_name))"
proof (intro conjI impI)
  assume a: "select_sound s"
  obtain net goes rest where l: "l = (net, goes, rest)" using prod_cases3 by blast
  have "select_sound (ps\<lparr>ps_current := Some option\<rparr>)" if "dget (ps_by_name ps) option = Some p" for ps p
    using key_listed [OF that] by (simp add: select_sound_def ps_options_def)
  moreover have "select_sound ps" if "(if dget (ps_by_name s) option = None then refresh_options answer s else Some s) = Some ps" for ps
    using that a refresh_sound by (auto split: if_splits)
  ultimately show "select_sound (fst (snd (preset_select_option l answer option (s, c))))"
    using a by (auto simp: preset_select_option_def l split: option.split prod.split sum.split)
next
  assume "dget (ps_by_name s) option = Some p"
  then show "preset_select_option l answer option (s, c) = preset_select_option l None option (s, c)"
    by (simp add: preset_select_option_def)
next
  assume "dget (ps_by_name s) option = Some p"
  then show "snd (snd (preset_select_option l answer option (s, c))) = snd (goto_preset (fst l) (fst (snd l)) p c)"
    by (cases l) (simp add: preset_select_option_def split: prod.split sum.split)
next
  assume "dget (ps_by_name s) option = None" "named_positions ps [] = Some by_name"
  then show "case dget by_name option of
         None \<Rightarrow> fst (preset_select_option l (Some (Some ps)) option (s, c)) = Some (Unknown_Option option) \<and>
                 snd (snd (preset_select_option l (Some (Some ps)) option (s, c))) = c
       | Some p \<Rightarrow> snd (snd (preset_select_option l (Some (Some ps)) option (s, c))) = snd (goto_preset (fst l) (fst (snd l)) p c) \<and>
                 ps_options (fst (snd (preset_select_option l (Some (Some ps)) option (s, c)))) = dkeys by_name"
    by (cases l) (simp add: preset_select_option_def refresh_options_def ps_options_def split: option.split prod.split sum.split)
qed

definition sample_positions :: "json list" where
  "sample_positions = [JObj [(''id'', JInt 4), (''name'', JStr ''Door''), (''position'', JStr ''p4'')]]"

theorem preset_selection_witness:
  "snd (snd (preset_select_option (good_net, True, good_net, True) (Some (Some sample_positions)) ''Door''
      (\<lparr>ps_by_name = [], ps_current = None\<rparr>, new_controller {PRESETS}))) =
   snd (goto_preset good_net True ''p4'' (new_controller {PRESETS}))"
proof -
  have "named_positions sample_positions [] = Some [(''Door'', ''p4'')]" by (simp add: sample_positions_def jget_def)
  then show ?thesis
    using preset_selection [of "\<lparr>ps_by_name = [], ps_current = None\<rparr>" "(good_net, True, good_net, True)" None "''Door''" "new_controller {PRESETS}"
        "[]" sample_positions "[(''Door'', ''p4'')]"] by simp
qed

end
