(* ===== verification/Spec2Isabelle.thy ===== *)
theory Spec2Isabelle
  imports Prelude Crypto Ecc Json Effects Tunnel Protocol Session Coordinator Ptz_Session Ptz_Control
    Camera_Protocol Camera_Audio Rtsp Discovery Rearm Codecs Cloud Traits Overlay Descriptors Composers Classify
    Derive Derive_Checks Observed Device Device_Seeds Humanize Registry Seeding Setup Entities Binary_Sensors Lights Camera_Device Ptz_Entities
begin

text \<open>
  A model of the Home Assistant integration \<open>custom_components/aqara_lanlink\<close>, which talks to Aqara
  hubs and cameras over the local network. Paths below are relative to that directory.

  Shared theories. \<open>Prelude\<close>: bytes, error propagation in sums, slices and other list functions of
  Python, the collections \<open>sum_simps\<close> and \<open>byte_simps\<close>. \<open>Json\<close>: Python's JSON values, \<open>json.dumps\<close>
  and \<open>json.loads\<close>, \<open>int\<close> and the truth of values; the parser runs on fuel twice the length of the
  text plus two, which is never used up, and reads back what the printer wrote. \<open>Effects\<close>: reads of a
  stream in chunks until a parser is satisfied.

  The link to the hub. \<open>Crypto\<close> is \<open>hub/crypto.py\<close> (checksum, device key, AES-CBC over a record of
  the library's operations, frames). \<open>Gf2\<close>, \<open>Irreducible\<close>, \<open>Field163\<close> and \<open>Ecc\<close> are
  \<open>hub/ecc.py\<close>: arithmetic of polynomials over two elements on integers, the proof that the field
  polynomial is irreducible, the field of \<open>2^163\<close> elements, and the curve with its key exchange.
  \<open>Tunnel\<close> is \<open>EncryptedTunnel\<close> of \<open>hub/tunnel.py\<close>, state passing over the socket's two ends.
  \<open>Protocol\<close> is \<open>hub/protocol.py\<close> and \<open>hub/topology.py\<close>. \<open>Session\<close> is \<open>LANLinkClient\<close> of
  \<open>hub/session.py\<close> as a step relation over calls, frames, timeouts and the end of the stream.
  \<open>Coordinator\<close> is \<open>hub/coordinator.py\<close>: framing of requests, the registry of report handlers and
  its buffer, the reconnect loop, the resources of a session. \<open>Discovery\<close> is \<open>hub/mdns.py\<close> and
  \<open>hub/probe.py\<close>; \<open>Rearm\<close> is \<open>hub/rearm.py\<close> and \<open>hub/activation.py\<close>, the loop as a function of
  a world that supplies topology and answers, and the table of loops as a step relation.

  Pan, tilt and zoom. \<open>Ptz_Wire\<close> is \<open>ptz/cs2.py\<close>, \<open>ptz/framing.py\<close> and \<open>ptz/ioctl.py\<close>;
  \<open>Ptz_Session\<close> is \<open>ptz/session.py\<close>, its loops driven by the readings of the clock and the datagrams
  that arrive (each loop consumes its clock list, so it needs no fuel); \<open>Ptz_Control\<close> is
  \<open>ptz/controller.py\<close>, \<open>ptz/bootstrap.py\<close> and \<open>ptz/commands.py\<close>.

  Cameras. \<open>Camera_Protocol\<close> is \<open>device/camera/protocol.py\<close>; \<open>Camera_Audio\<close> is \<open>encoder.py\<close>,
  \<open>bridge.py\<close> and \<open>talk.py\<close> beside it; \<open>Net_Addr\<close> is \<open>host_validation.py\<close> with the address literals
  of \<open>ipaddress\<close>; \<open>Rtsp\<close> is \<open>device/camera/rtsp.py\<close> and \<open>go2rtc.py\<close> with the URL functions of
  \<open>urllib\<close>. \<open>Codecs\<close> is \<open>device/composites/codecs.py\<close> and \<open>controller.py\<close>.

  What the lemmas show. Round trips of every codec, from the frame and the envelope to URLs, time
  windows and schedules; soundness of the parsers on every input; the branches of the handshakes, errors
  included; invariants over every order of events (pending requests and sequence numbers, the bounded
  buffer of reports, one PTZ session, one re-arm loop per device, the resources of a talk session);
  termination of the field arithmetic and of the retry loops; refinement of the stream of audio frames;
  and the inputs on which the code does what it does not mean to do, each stated as a theorem.

  Not modelled. Home Assistant's framework and the entity platforms, the configuration flow and the HTTP
  client of the cloud; within modelled files: \<open>PlaintextTunnel\<close>, socket exceptions other than the ones
  named, the lock around sends (operations are atomic steps), logging, floating point (times are
  rational numbers), integers of more than 4300 digits and characters from 256 on.
\<close>

end
